(* ===== verification/Nav_Prelude.thy ===== *)
theory Nav_Prelude
  imports Complex_Main "HOL-Library.Word" "HOL-Library.Monad_Syntax"
begin

text \<open>
  What every component theory shares: the fixed-width integers of the C++ sources, bounded
  memory (an access outside an allocated array is the value \<open>None\<close>, so undefined behaviour
  is visible in the types), block copies and fills, and the index arithmetic of row-major grids.
\<close>

unbundle bit_operations_syntax

section \<open>Machine integers\<close>

type_synonym u8 = "8 word"
type_synonym u16 = "16 word"
type_synonym u32 = "32 word"

text \<open>Sizes stay \<open>real (unat w)\<close> in arithmetic over the reals.\<close>

lemma of_nat_unat_id [simp]: "of_nat (unat w) = (w :: 'a::len word)"
  by simp

declare of_nat_unat [simp del]

lemma u32_less: "unat (w::u32) < 2 ^ 32"
  using unsigned_less [of w, where 'a = nat] by simp

named_theorems mem_simps \<open>evaluation of bounded loads, stores, fills and copies\<close>

text \<open>\<open>std::abs\<close> of an \<open>int\<close>, the operand kept as its two's complement word.\<close>

definition cabs :: "u32 \<Rightarrow> u32" where
  "cabs d = (if sint d < 0 then - d else d)"

text \<open>
  \<open>double\<close> is modelled by the reals. A cast to an integer type truncates towards zero and is
  undefined (\<open>None\<close>) when the truncated value does not fit the type.
\<close>

definition trunc :: "real \<Rightarrow> int" where
  "trunc r = (if r < 0 then \<lceil>r\<rceil> else \<lfloor>r\<rfloor>)"

definition cast_uint :: "real \<Rightarrow> u32 option" where
  "cast_uint r = (let t = trunc r in if 0 \<le> t \<and> t < 2 ^ 32 then Some (word_of_int t) else None)"

definition cast_int :: "real \<Rightarrow> u32 option" where
  "cast_int r = (let t = trunc r in
     if - (2 ^ 31) \<le> t \<and> t < 2 ^ 31 then Some (word_of_int t) else None)"

lemma trunc_of_nonneg: "0 \<le> r \<Longrightarrow> trunc r = \<lfloor>r\<rfloor>"
  by (simp add: trunc_def)

lemma trunc_nonneg: "0 \<le> r \<Longrightarrow> 0 \<le> trunc r"
  by (simp add: trunc_def)

lemma trunc_mono: "0 \<le> r \<Longrightarrow> r \<le> s \<Longrightarrow> trunc r \<le> trunc s"
  by (simp add: trunc_def floor_mono)

lemma trunc_less_nat: "0 \<le> r \<Longrightarrow> r < real n \<Longrightarrow> trunc r < int n"
  by (simp add: trunc_def floor_less_iff)

lemma cast_uint_nat:
  assumes "0 \<le> r" "r < real n" "n \<le> 2 ^ 32"
  shows "\<exists>w. cast_uint r = Some w \<and> unat w = nat \<lfloor>r\<rfloor> \<and> unat w < n"
proof -
  have t: "0 \<le> \<lfloor>r\<rfloor>" "\<lfloor>r\<rfloor> < int n"
    using assms(1,2) by (auto simp: floor_less_iff)
  moreover have "int n \<le> 2 ^ 32"
    using assms(3) by (metis of_nat_le_iff of_nat_numeral of_nat_power)
  ultimately have lt: "\<lfloor>r\<rfloor> < 2 ^ 32" by linarith
  have "unat (word_of_int \<lfloor>r\<rfloor> :: u32) = nat \<lfloor>r\<rfloor>"
    using t(1) lt by (simp add: unat_eq_nat_uint uint_word_of_int take_bit_eq_mod)
  then show ?thesis
    using t lt assms(1) by (auto simp: cast_uint_def Let_def trunc_of_nonneg nat_less_iff)
qed

section \<open>Bounded memory\<close>

text \<open>One cell of an allocated array: \<open>None\<close> stands for an access outside of it.\<close>

definition load :: "'a list \<Rightarrow> nat \<Rightarrow> 'a option" where
  "load m i = (if i < length m then Some (m ! i) else None)"

definition store :: "'a list \<Rightarrow> nat \<Rightarrow> 'a \<Rightarrow> 'a list option" where
  "store m i v = (if i < length m then Some (m[i := v]) else None)"

text \<open>
  \<open>memset\<close> over \<open>n\<close> elements from \<open>s\<close>, \<open>memcpy\<close> of \<open>n\<close> elements between distinct arrays. With
  \<open>n = 0\<close> no element is accessed, wherever the pointer is.
\<close>

definition mem_set :: "'a list \<Rightarrow> nat \<Rightarrow> nat \<Rightarrow> 'a \<Rightarrow> 'a list option" where
  "mem_set m s n v =
     (if n = 0 then Some m
      else if s + n \<le> length m then Some (take s m @ replicate n v @ drop (s + n) m) else None)"

definition mem_cpy :: "'a list \<Rightarrow> nat \<Rightarrow> 'a list \<Rightarrow> nat \<Rightarrow> nat \<Rightarrow> 'a list option" where
  "mem_cpy d ds src ss n =
     (if n = 0 then Some d
      else if ds + n \<le> length d \<and> ss + n \<le> length src
      then Some (take ds d @ take n (drop ss src) @ drop (ds + n) d) else None)"

lemma load_in [mem_simps]: "i < length m \<Longrightarrow> load m i = Some (m ! i)"
  by (simp add: load_def)

lemma store_in [mem_simps]: "i < length m \<Longrightarrow> store m i v = Some (m[i := v])"
  by (simp add: store_def)

lemma store_Some_iff: "store m i v = Some m' \<longleftrightarrow> i < length m \<and> m' = m[i := v]"
  by (auto simp: store_def)

lemma load_Some_iff: "load m i = Some x \<longleftrightarrow> i < length m \<and> x = m ! i"
  by (auto simp: load_def)

lemma mem_set_length: "mem_set m s n v = Some m' \<Longrightarrow> length m' = length m"
  by (auto simp: mem_set_def split: if_splits)

lemma mem_cpy_length: "mem_cpy d ds src ss n = Some d' \<Longrightarrow> length d' = length d"
  by (auto simp: mem_cpy_def split: if_splits)

lemma mem_set_nth:
  assumes "mem_set m s n v = Some m'" "i < length m"
  shows "m' ! i = (if s \<le> i \<and> i < s + n then v else m ! i)"
proof (cases "n = 0")
  case True
  then show ?thesis using assms by (auto simp: mem_set_def)
next
  case False
  have m': "m' = take s m @ replicate n v @ drop (s + n) m" and sn: "s + n \<le> length m"
    using assms(1) False by (auto simp: mem_set_def split: if_splits)
  have "i < s \<or> (s \<le> i \<and> i < s + n) \<or> s + n \<le> i" by linarith
  then show ?thesis
    unfolding m' using sn assms(2) by (elim disjE) (auto simp: nth_append less_diff_conv2 not_less)
qed

lemma mem_cpy_nth:
  assumes "mem_cpy d ds src ss n = Some d'" "i < length d"
  shows "d' ! i = (if ds \<le> i \<and> i < ds + n then src ! (ss + (i - ds)) else d ! i)"
proof (cases "n = 0")
  case True
  then show ?thesis using assms by (auto simp: mem_cpy_def)
next
  case False
  have d': "d' = take ds d @ take n (drop ss src) @ drop (ds + n) d"
    and b: "ds + n \<le> length d" "ss + n \<le> length src"
    using assms(1) False by (auto simp: mem_cpy_def split: if_splits)
  have "i < ds \<or> (ds \<le> i \<and> i < ds + n) \<or> ds + n \<le> i" by linarith
  then show ?thesis
    unfolding d' using b assms(2) by (elim disjE) (auto simp: nth_append less_diff_conv2 not_less)
qed

lemma mem_set_total: "s + n \<le> length m \<Longrightarrow> \<exists>m'. mem_set m s n v = Some m'"
  by (simp add: mem_set_def)

lemma mem_cpy_total:
  "n = 0 \<or> ds + n \<le> length d \<and> ss + n \<le> length src \<Longrightarrow> \<exists>d'. mem_cpy d ds src ss n = Some d'"
  by (auto simp: mem_cpy_def)

section \<open>Row-major grids\<close>

lemma cell_index_less:
  fixes x y :: nat
  assumes "x < w" "y < h"
  shows "y * w + x < w * h"
proof -
  have "y * w + x < y * w + w" using assms(1) by simp
  also have "\<dots> = Suc y * w" by simp
  also have "\<dots> \<le> h * w" using assms(2) by (intro mult_le_mono1) simp
  finally show ?thesis by (simp add: mult.commute)
qed

lemma cell_index_div: "(x::nat) < w \<Longrightarrow> (y * w + x) div w = y"
  by simp

lemma cell_index_mod: "(x::nat) < w \<Longrightarrow> (y * w + x) mod w = x"
  by simp

lemma cell_index_inj:
  fixes x y :: nat
  assumes "y * w + x = y' * w + x'" "x < w" "x' < w"
  shows "x = x' \<and> y = y'"
  using assms by (metis cell_index_div cell_index_mod)

lemma word_cell_index:
  fixes x y w h :: u32
  assumes "unat w * unat h < 2 ^ 32" "x < w" "y < h"
  shows "unat (y * w + x) = unat y * unat w + unat x"
    and "unat (y * w + x) < unat (w * h)"
    and "unat (w * h) = unat w * unat h"
proof -
  have lt: "unat y * unat w + unat x < unat w * unat h"
    using assms(2,3) by (intro cell_index_less) (simp_all add: word_less_nat_alt)
  have m: "unat (w * h) = unat w * unat h"
    using assms(1) by (simp add: unat_word_ariths)
  have "unat y * unat w < 2 ^ 32"
    using lt assms(1) by linarith
  then have "unat (y * w) = unat y * unat w"
    by (simp add: unat_word_ariths)
  then have "unat (y * w + x) = unat y * unat w + unat x"
    using lt assms(1) by (simp add: unat_word_ariths)
  with lt m show "unat (y * w + x) = unat y * unat w + unat x"
    "unat (y * w + x) < unat (w * h)" "unat (w * h) = unat w * unat h"
    by simp_all
qed

text \<open>The cells of a counted C++ loop, in loop order.\<close>


primrec foldM :: "('a \<Rightarrow> 's \<Rightarrow> 's option) \<Rightarrow> 'a list \<Rightarrow> 's \<Rightarrow> 's option" where
  "foldM f [] s = Some s"
| "foldM f (x # xs) s = Option.bind (f x s) (foldM f xs)"

lemma foldM_append: "foldM f (xs @ ys) s = Option.bind (foldM f xs s) (foldM f ys)"
  by (induction xs arbitrary: s) (auto split: bind_splits)

lemma foldM_invariant:
  assumes "foldM f xs s = Some t" "I s"
    and "\<And>x s s'. x \<in> set xs \<Longrightarrow> I s \<Longrightarrow> f x s = Some s' \<Longrightarrow> I s'"
  shows "I t"
  using assms
proof (induction xs arbitrary: s)
  case Nil
  then show ?case by simp
next
  case (Cons x xs)
  obtain s' where s': "f x s = Some s'" "foldM f xs s' = Some t"
    using Cons.prems(1) by (auto split: bind_splits)
  have "I s'" using Cons.prems(2,3) s'(1) by (meson list.set_intros(1))
  then show ?case using Cons.IH [OF s'(2)] Cons.prems(3) by (meson list.set_intros(2))
qed

lemma foldM_total:
  assumes "I s" and "\<And>x s. x \<in> set xs \<Longrightarrow> I s \<Longrightarrow> \<exists>s'. f x s = Some s' \<and> I s'"
  shows "\<exists>t. foldM f xs s = Some t \<and> I t"
  using assms
proof (induction xs arbitrary: s)
  case Nil
  then show ?case by simp
next
  case (Cons x xs)
  obtain s' where "f x s = Some s'" "I s'" using Cons.prems by force
  moreover have "\<exists>t. foldM f xs s' = Some t \<and> I t"
    using Cons.IH [OF \<open>I s'\<close>] Cons.prems(2) by simp
  ultimately show ?case by simp
qed

lemma foldM_product:
  "foldM (\<lambda>j. foldM (F j) is) js s = foldM (\<lambda>(j, i). F j i) (List.product js is) s"
proof (induction js arbitrary: s)
  case Nil
  then show ?case by simp
next
  case (Cons j js)
  have "foldM (\<lambda>(j, i). F j i) (map (Pair j) is) s = foldM (F j) is s" for s
  proof (induction "is" arbitrary: s)
    case (Cons i "is")
    then show ?case by (cases "F j i s") simp_all
  qed simp
  then show ?case by (cases "foldM (F j) is s") (simp_all add: foldM_append Cons.IH)
qed

text \<open>A loop over distinct positions of an array that rewrites each by a function of its content.\<close>

lemma foldM_cells:
  assumes "distinct ps" "inj_on pos (set ps)"
    and "\<And>p m'. p \<in> set ps \<Longrightarrow> length m' = n \<Longrightarrow> h p m' = Some (m'[pos p := g (pos p) (m' ! pos p)])"
  shows "length m = n \<Longrightarrow> \<exists>m'. foldM h ps m = Some m' \<and> length m' = n \<and>
    (\<forall>k < n. m' ! k = (if k \<in> pos ` set ps then g k (m ! k) else m ! k))"
  using assms
proof (induction ps arbitrary: m)
  case Nil
  then show ?case by simp
next
  case (Cons p ps)
  define m1 where "m1 = m[pos p := g (pos p) (m ! pos p)]"
  have run: "h p m = Some m1" using Cons.prems(1,4) by (simp add: m1_def)
  have len: "length m1 = n" using Cons.prems(1) by (simp add: m1_def)
  obtain m' where m': "foldM h ps m1 = Some m'" "length m' = n"
    "\<forall>k < n. m' ! k = (if k \<in> pos ` set ps then g k (m1 ! k) else m1 ! k)"
    using Cons.IH [OF len] Cons.prems(2-4) by auto
  have np: "pos p \<notin> pos ` set ps" using Cons.prems(2,3) by (auto simp: inj_on_def)
  have "m' ! k = (if k \<in> pos ` set (p # ps) then g k (m ! k) else m ! k)" if "k < n" for k
  proof (cases "k = pos p")
    case True
    then show ?thesis using np m'(3) that Cons.prems(1) by (simp add: m1_def)
  next
    case False
    then have "m1 ! k = m ! k" by (simp add: m1_def)
    then show ?thesis using m'(3) that False by simp
  qed
  then show ?case using run m' by auto
qed

end
