(* ===== verification/Bresenham.thy ===== *)
theory Bresenham
  imports Nav_Prelude
begin

text \<open>
  The error accumulator shared by the ray tracers of the voxel grid and of the 2D costmap. The
  sources keep the accumulator in an \<open>int\<close> and add and compare it through \<open>unsigned int\<close>; here it
  is the 32-bit word. The lemmas give its closed form: after \<open>i\<close> rounds the minor axis has made
  \<open>(da div 2 + i * db) div da\<close> steps, which is \<open>db\<close> after \<open>da\<close> rounds.
\<close>

section \<open>One round of the accumulator\<close>

text \<open>\<open>error += abs_db; if ((unsigned int)error >= abs_da) { step; error -= abs_da; }\<close>\<close>

definition err_round :: "u32 \<Rightarrow> u32 \<Rightarrow> u32 \<Rightarrow> u32 \<times> bool" where
  "err_round da db e = (let e' = e + db in if da \<le> e' then (e' - da, True) else (e', False))"

fun err_run :: "u32 \<Rightarrow> u32 \<Rightarrow> nat \<Rightarrow> u32 \<Rightarrow> u32 \<times> nat" where
  "err_run da db 0 e = (e, 0)"
| "err_run da db (Suc n) e =
     (let (e', s) = err_round da db e; (e'', k) = err_run da db n e'
      in (e'', (if s then 1 else 0) + k))"

text \<open>The number of minor steps made in \<open>n\<close> rounds from error \<open>e\<close>, over the naturals.\<close>

definition minor_steps :: "nat \<Rightarrow> nat \<Rightarrow> nat \<Rightarrow> nat \<Rightarrow> nat" where
  "minor_steps da db e n = (e + n * db) div da"

lemma err_round_nat:
  assumes "unat da \<le> 2 ^ 31" "db \<le> da" "unat e < unat da"
  shows "unat (fst (err_round da db e)) = (unat e + unat db) mod unat da"
    and "(if snd (err_round da db e) then 1 else 0) = (unat e + unat db) div unat da"
    and "unat (fst (err_round da db e)) < unat da"
proof -
  have db: "unat db \<le> unat da" using assms(2) by (simp add: word_le_nat_alt)
  have s: "unat (e + db) = unat e + unat db"
    using assms(1,3) db by (simp add: unat_word_ariths)
  have "unat (fst (err_round da db e)) = (unat e + unat db) mod unat da
    \<and> (if snd (err_round da db e) then 1 else 0) = (unat e + unat db) div unat da"
  proof (cases "da \<le> e + db")
    case True
    then have le: "unat da \<le> unat e + unat db" using s by (simp add: word_le_nat_alt)
    have "unat (e + db - da) = unat e + unat db - unat da"
      using True s by (simp add: unat_sub)
    moreover have "(unat e + unat db) mod unat da = unat e + unat db - unat da"
      using le assms(3) db by (simp add: le_mod_geq)
    moreover have "(unat e + unat db) div unat da = 1"
      using le assms(3) db by (simp add: div_nat_eqI)
    ultimately show ?thesis using True by (simp add: err_round_def Let_def)
  next
    case False
    then have "unat e + unat db < unat da" using s by (simp add: word_le_nat_alt)
    then show ?thesis using False s by (simp add: err_round_def Let_def)
  qed
  then show "unat (fst (err_round da db e)) = (unat e + unat db) mod unat da"
    and "(if snd (err_round da db e) then 1 else 0) = (unat e + unat db) div unat da"
    and "unat (fst (err_round da db e)) < unat da"
    using assms(3) by simp_all
qed

lemma minor_steps_Suc:
  assumes "0 < da"
  shows "minor_steps da db e (Suc n) = (e + db) div da + minor_steps da db ((e + db) mod da) n"
proof -
  have "e + Suc n * db = ((e + db) div da * da + (e + db) mod da) + n * db"
    by (simp add: algebra_simps)
  also have "\<dots> = ((e + db) mod da + n * db) + (e + db) div da * da"
    by simp
  finally have "(e + Suc n * db) div da = (((e + db) mod da + n * db) + (e + db) div da * da) div da"
    by (rule arg_cong)
  also have "\<dots> = (e + db) div da + ((e + db) mod da + n * db) div da"
    by (rule div_mult_self1) (use assms in simp)
  finally show ?thesis by (simp only: minor_steps_def)
qed

lemma err_run_nat:
  assumes "unat da \<le> 2 ^ 31" "db \<le> da" "unat e < unat da"
  shows "snd (err_run da db n e) = minor_steps (unat da) (unat db) (unat e) n"
  using assms(3)
proof (induction n arbitrary: e)
  case 0
  then show ?case by (simp add: minor_steps_def)
next
  case (Suc n)
  let ?r = "err_round da db e"
  note r = err_round_nat [OF assms(1,2) Suc.prems]
  have "snd (err_run da db (Suc n) e) =
      (if snd ?r then 1 else 0) + snd (err_run da db n (fst ?r))"
    by (simp add: case_prod_beta Let_def)
  also have "\<dots> = (unat e + unat db) div unat da
      + minor_steps (unat da) (unat db) ((unat e + unat db) mod unat da) n"
    using Suc.IH [OF r(3)] r(1,2) by simp
  finally show ?case using minor_steps_Suc Suc.prems by simp
qed

section \<open>Closed forms\<close>

lemma minor_steps_mono: "m \<le> n \<Longrightarrow> minor_steps da db e m \<le> minor_steps da db e n"
  by (simp add: minor_steps_def div_le_mono)

lemma minor_steps_all: "e < da \<Longrightarrow> minor_steps da db e da = db"
  by (simp add: minor_steps_def)

lemma minor_steps_le: "e < da \<Longrightarrow> n \<le> da \<Longrightarrow> minor_steps da db e n \<le> db"
  using minor_steps_mono [of n da da db e] by (simp add: minor_steps_all)

lemma half_less: "0 < (da::u32) \<Longrightarrow> unat (da div 2) < unat da"
  by (simp add: unat_div word_less_nat_alt)

section \<open>The word of a grid position reached by major and minor steps\<close>

text \<open>
  Offsets move by adding words, the strides \<open>1\<close> and \<open>size_x\<close> negated for the negative
  directions; the cell reached after \<open>i\<close> and \<open>j\<close> steps is the index of the moved coordinates.
\<close>

definition toward :: "bool \<Rightarrow> nat \<Rightarrow> nat \<Rightarrow> nat" where
  "toward up x k = (if up then x + k else x - k)"

lemma toward_between:
  "k \<le> n \<Longrightarrow> (up \<or> n \<le> x) \<Longrightarrow>
   min x (toward up x n) \<le> toward up x k \<and> toward up x k \<le> max x (toward up x n)"
  by (auto simp: toward_def)

lemma toward_0 [simp]: "toward up x 0 = x"
  by (simp add: toward_def)

end
