(* ===== verification/Bits.thy ===== *)
theory Bits
  imports Nav_Prelude
begin

text \<open>
  The population count of a 32-bit word, the specification of the bit-clearing loops
  \<open>n &= n - 1\<close> of the voxel grid.
\<close>

definition popcnt :: "u32 \<Rightarrow> nat" where
  "popcnt n = length (filter (bit n) [0..<32])"

lemma popcnt_card: "popcnt n = card {i. bit n i}"
proof -
  have "{i. bit n i} = {i. i < 32 \<and> bit n i}"
    by (auto dest: bit_imp_le_length)
  then show ?thesis
    by (simp add: popcnt_def length_filter_conv_card cong: conj_cong)
qed

lemma nat_bit_double: "bit (2 * h :: nat) i \<longleftrightarrow> (\<exists>j. i = Suc j \<and> bit h j)"
  by (cases i) (simp_all add: bit_0 bit_Suc)

lemma nat_bits_double: "{i. bit (2 * h :: nat) i} = Suc ` {i. bit h i}"
  by (auto simp: nat_bit_double)

lemma nat_bits_double_Suc: "{i. bit (Suc (2 * h)) i} = insert 0 (Suc ` {i. bit h i})"
proof -
  have "bit (Suc (2 * h)) i \<longleftrightarrow> i = 0 \<or> (\<exists>j. i = Suc j \<and> bit h j)" for i
    by (cases i) (simp_all add: bit_0 bit_Suc)
  then show ?thesis by auto
qed

lemma nat_and_pred_double: "(2 * h :: nat) AND (2 * h - 1) = 2 * (h AND (h - 1))"
proof (rule bit_eqI)
  fix i
  have "(2 * h - 1) div 2 = h - 1" by linarith
  then have "bit (2 * h - 1) (Suc j) = bit (h - 1) j" for j by (simp add: bit_Suc)
  then show "bit ((2 * h :: nat) AND (2 * h - 1)) i = bit (2 * (h AND (h - 1))) i"
    by (cases i) (simp_all only: bit_and_iff nat_bit_double, auto)
qed

lemma nat_and_pred_odd: "Suc (2 * h) AND (2 * h) = (2 * h :: nat)"
proof (rule bit_eqI)
  fix i
  have "bit (Suc (2 * h)) (Suc j) = bit h j" for j by (simp add: bit_Suc)
  then show "bit (Suc (2 * h) AND (2 * h)) i = bit (2 * h) i"
    by (cases i) (simp_all only: bit_and_iff nat_bit_double, auto)
qed

lemma finite_nat_bits: "finite {i. bit (n::nat) i}"
proof -
  have "i < n" if "bit n i" for i
  proof (rule ccontr)
    assume "\<not> i < n"
    then have "n < 2 ^ i" using less_exp [of i] by linarith
    then have "n div 2 ^ i = 0" by simp
    with that show False by (simp add: bit_iff_odd)
  qed
  then have "{i. bit n i} \<subseteq> {..<n}" by blast
  then show ?thesis by (rule finite_subset) simp
qed

lemma card_and_pred: "0 < n \<Longrightarrow> card {i. bit (n::nat) i} = Suc (card {i. bit (n AND (n - 1)) i})"
proof (induction n rule: less_induct)
  case (less n)
  consider h where "n = 2 * h" "0 < h" "h < n" | h where "n = Suc (2 * h)"
  proof (cases "even n")
    case True
    then obtain h where "n = 2 * h" by blast
    then show ?thesis using that(1) less.prems by simp
  next
    case False
    then show ?thesis using that(2) by (auto elim: oddE)
  qed
  then show ?case
  proof cases
    case 1
    have "card {i. bit n i} = card {i. bit h i}"
      unfolding 1(1) nat_bits_double by (simp add: card_image)
    also have "\<dots> = Suc (card {i. bit (h AND (h - 1)) i})"
      using less.IH 1 by blast
    also have "card {i. bit (h AND (h - 1)) i} = card {i. bit (n AND (n - 1)) i}"
      unfolding 1(1) nat_and_pred_double nat_bits_double by (simp add: card_image)
    finally show ?thesis .
  next
    case 2
    have "card {i. bit n i} = Suc (card (Suc ` {i. bit h i}))"
      unfolding 2 nat_bits_double_Suc by (simp add: finite_nat_bits)
    then show ?thesis
      unfolding 2 by (simp add: nat_and_pred_odd nat_bits_double)
  qed
qed

lemma popcnt_0 [simp]: "popcnt 0 = 0"
  by (simp add: popcnt_card)

lemma popcnt_unat: "popcnt n = card {i. bit (unat n) i}"
  by (simp add: popcnt_card bit_unsigned_iff)

lemma popcnt_and_pred:
  assumes "n \<noteq> 0"
  shows "popcnt n = Suc (popcnt (n AND (n - 1)))"
proof -
  have "0 < unat n" using assms by (simp add: unat_gt_0)
  moreover have "unat (n AND (n - 1)) = unat n AND (unat n - 1)"
    using assms by (simp add: unsigned_and_eq unat_minus_one)
  ultimately show ?thesis
    by (simp add: popcnt_unat card_and_pred)
qed

lemma popcnt_le: "popcnt n \<le> 32"
  unfolding popcnt_def by (rule order_trans [OF length_filter_le]) simp

text \<open>A word with its set bits confined to two positions.\<close>

lemma popcnt_pair:
  assumes "\<And>i. bit n i \<Longrightarrow> i = a \<or> i = b" "a \<noteq> b"
  shows "popcnt n = (if bit n a then 1 else 0) + (if bit n b then 1 else 0)"
proof -
  have "{i. bit n i} = (if bit n a then {a} else {}) \<union> (if bit n b then {b} else {})"
    using assms(1) by auto
  then show ?thesis using assms(2) by (simp add: popcnt_card)
qed

lemma bit_voxel_half:
  "bit (drop_bit 16 (c::u32)) i \<longleftrightarrow> bit c (i + 16)"
  by (simp add: bit_drop_bit_eq add.commute)

end
