(* ===== verification/Voxel_Grid.thy ===== *)
theory Voxel_Grid
  imports Bresenham Bits
begin

text \<open>
  \<open>nav2_voxel_grid\<close>: the 3D occupancy grid of the voxel layer, a column of 16 voxels per 32-bit
  word. Bit \<open>z\<close> of the low half says the voxel is not known to be free, bit \<open>z\<close> of the high half
  that it is marked: \<open>00\<close> free, \<open>01\<close> unknown, \<open>11\<close> marked.
\<close>

section \<open>State\<close>

datatype voxel_status = FREE | UNKNOWN | MARKED

text \<open>\<open>costmap\<close> is the borrowed 2D map, \<open>None\<close> for the null pointer.\<close>

record voxel_grid =
  vg_size_x :: u32
  vg_size_y :: u32
  vg_size_z :: u32
  vg_data :: "u32 list"
  vg_costmap :: "u8 list option"

definition unknown_col :: u32 where
  "unknown_col = drop_bit 16 (NOT 0)"

definition clamp_size_z :: "u32 \<Rightarrow> u32" where
  "clamp_size_z sz = (if 16 < sz then 16 else sz)"

definition voxel_grid_new :: "u32 \<Rightarrow> u32 \<Rightarrow> u32 \<Rightarrow> voxel_grid" where
  "voxel_grid_new sx sy sz =
     \<lparr>vg_size_x = sx, vg_size_y = sy, vg_size_z = clamp_size_z sz,
      vg_data = replicate (unat (sx * sy)) unknown_col, vg_costmap = None\<rparr>"

text \<open>\<open>reset\<close> writes \<open>size_x * size_y\<close> columns from the start of \<open>data_\<close>.\<close>

definition vg_reset :: "voxel_grid \<Rightarrow> voxel_grid option" where
  "vg_reset g =
     map_option (\<lambda>d. g\<lparr>vg_data := d\<rparr>)
       (mem_set (vg_data g) 0 (unat (vg_size_x g * vg_size_y g)) unknown_col)"

definition vg_resize :: "voxel_grid \<Rightarrow> u32 \<Rightarrow> u32 \<Rightarrow> u32 \<Rightarrow> voxel_grid option" where
  "vg_resize g sx sy sz =
     (if sx = vg_size_x g \<and> sy = vg_size_y g \<and> sz = vg_size_z g then vg_reset g
      else Some (g\<lparr>vg_size_x := sx, vg_size_y := sy, vg_size_z := clamp_size_z sz,
                   vg_data := replicate (unat (sx * sy)) unknown_col\<rparr>))"

section \<open>Counting bits\<close>

lemma and_pred_less: "(n::u32) \<noteq> 0 \<Longrightarrow> unat (n AND (n - 1)) < unat n"
proof -
  assume "n \<noteq> 0"
  have "n AND (n - 1) \<le> n - 1" by (rule word_and_le1)
  also have "n - 1 < n"
    using \<open>n \<noteq> 0\<close> by (simp add: word_less_nat_alt unat_minus_one unat_gt_0)
  finally show ?thesis by (simp add: word_less_nat_alt)
qed

text \<open>\<open>for (bit_count = 0; n; ++bit_count) n &= n - 1;\<close>\<close>

function numBits_loop :: "u32 \<Rightarrow> u32 \<Rightarrow> u32" where
  "numBits_loop n bit_count =
     (if n = 0 then bit_count else numBits_loop (n AND (n - 1)) (bit_count + 1))"
  by pat_completeness auto
termination
  by (relation "measure (\<lambda>(n, _). unat n)") (auto simp: and_pred_less)

definition numBits :: "u32 \<Rightarrow> u32" where
  "numBits n = numBits_loop n 0"

function below_loop :: "u32 \<Rightarrow> u32 \<Rightarrow> u32 \<Rightarrow> bool" where
  "below_loop n bit_count bit_threshold =
     (if n = 0 then True
      else if bit_threshold < bit_count + 1 then False
      else below_loop (n AND (n - 1)) (bit_count + 1) bit_threshold)"
  by pat_completeness auto
termination
  by (relation "measure (\<lambda>(n, _, _). unat n)") (auto simp: and_pred_less)

definition bitsBelowThreshold :: "u32 \<Rightarrow> u32 \<Rightarrow> bool" where
  "bitsBelowThreshold n bit_threshold = below_loop n 0 bit_threshold"

declare numBits_loop.simps [simp del] below_loop.simps [simp del]

section \<open>Single voxels\<close>

definition voxel_mask :: "u32 \<Rightarrow> u32" where
  "voxel_mask z = push_bit 16 (push_bit (unat z) 1) OR push_bit (unat z) 1"

definition out_of_grid :: "voxel_grid \<Rightarrow> u32 \<Rightarrow> u32 \<Rightarrow> u32 \<Rightarrow> bool" where
  "out_of_grid g x y z \<longleftrightarrow> vg_size_x g \<le> x \<or> vg_size_y g \<le> y \<or> vg_size_z g \<le> z"

definition vg_index :: "voxel_grid \<Rightarrow> u32 \<Rightarrow> u32 \<Rightarrow> nat" where
  "vg_index g x y = unat (y * vg_size_x g + x)"

text \<open>\<open>uint16_t(*col >> 16) ^ uint16_t(*col)\<close> and \<open>*col >> 16\<close>.\<close>

definition unknown_bits :: "u32 \<Rightarrow> u32" where
  "unknown_bits col = ucast (ucast (drop_bit 16 col) XOR ucast col :: u16)"

definition marked_bits :: "u32 \<Rightarrow> u32" where
  "marked_bits col = drop_bit 16 col"

definition markVoxel :: "voxel_grid \<Rightarrow> u32 \<Rightarrow> u32 \<Rightarrow> u32 \<Rightarrow> voxel_grid option" where
  "markVoxel g x y z =
     (if out_of_grid g x y z then Some g
      else do {
        let i = vg_index g x y;
        col \<leftarrow> load (vg_data g) i;
        d \<leftarrow> store (vg_data g) i (col OR voxel_mask z);
        Some (g\<lparr>vg_data := d\<rparr>)
      })"

definition markVoxelInMap ::
    "voxel_grid \<Rightarrow> u32 \<Rightarrow> u32 \<Rightarrow> u32 \<Rightarrow> u32 \<Rightarrow> (bool \<times> voxel_grid) option" where
  "markVoxelInMap g x y z marked_threshold =
     (if out_of_grid g x y z then Some (False, g)
      else do {
        let i = vg_index g x y;
        old \<leftarrow> load (vg_data g) i;
        let col = old OR voxel_mask z;
        d \<leftarrow> store (vg_data g) i col;
        Some (\<not> bitsBelowThreshold (marked_bits col) marked_threshold, g\<lparr>vg_data := d\<rparr>)
      })"

definition clearVoxel :: "voxel_grid \<Rightarrow> u32 \<Rightarrow> u32 \<Rightarrow> u32 \<Rightarrow> voxel_grid option" where
  "clearVoxel g x y z =
     (if out_of_grid g x y z then Some g
      else do {
        let i = vg_index g x y;
        col \<leftarrow> load (vg_data g) i;
        d \<leftarrow> store (vg_data g) i (col AND NOT (voxel_mask z));
        Some (g\<lparr>vg_data := d\<rparr>)
      })"

text \<open>The assertion \<open>index < size_x_ * size_y_\<close> guards the write.\<close>

definition clearVoxelColumn :: "voxel_grid \<Rightarrow> u32 \<Rightarrow> voxel_grid option" where
  "clearVoxelColumn g index =
     (if index < vg_size_x g * vg_size_y g
      then map_option (\<lambda>d. g\<lparr>vg_data := d\<rparr>) (store (vg_data g) (unat index) 0)
      else None)"

definition clearVoxelInMap :: "voxel_grid \<Rightarrow> u32 \<Rightarrow> u32 \<Rightarrow> u32 \<Rightarrow> voxel_grid option" where
  "clearVoxelInMap g x y z =
     (if out_of_grid g x y z then Some g
      else do {
        let i = vg_index g x y;
        old \<leftarrow> load (vg_data g) i;
        let col = old AND NOT (voxel_mask z);
        d \<leftarrow> store (vg_data g) i col;
        let g' = g\<lparr>vg_data := d\<rparr>;
        if bitsBelowThreshold (unknown_bits col) 1 \<and> bitsBelowThreshold (marked_bits col) 1
        then do {
          cm \<leftarrow> vg_costmap g;
          cm' \<leftarrow> store cm i 0;
          Some (g'\<lparr>vg_costmap := Some cm'\<rparr>)
        }
        else Some g'
      })"

definition voxel_of_bits :: "u32 \<Rightarrow> voxel_status" where
  "voxel_of_bits bits = (if bits < 2 then (if bits < 1 then FREE else UNKNOWN) else MARKED)"

definition getVoxel :: "voxel_grid \<Rightarrow> u32 \<Rightarrow> u32 \<Rightarrow> u32 \<Rightarrow> voxel_status option" where
  "getVoxel g x y z =
     (if out_of_grid g x y z then Some UNKNOWN
      else do {
        col \<leftarrow> load (vg_data g) (vg_index g x y);
        Some (voxel_of_bits (numBits (col AND voxel_mask z)))
      })"

text \<open>The static overload reads a data array whose sizes the caller gives.\<close>

definition getVoxel_static ::
    "u32 \<Rightarrow> u32 \<Rightarrow> u32 \<Rightarrow> u32 \<Rightarrow> u32 \<Rightarrow> u32 \<Rightarrow> u32 list \<Rightarrow> voxel_status option" where
  "getVoxel_static x y z size_x size_y size_z data =
     (if size_x \<le> x \<or> size_y \<le> y \<or> size_z \<le> z then Some UNKNOWN
      else do {
        col \<leftarrow> load data (unat (y * size_x + x));
        Some (voxel_of_bits (numBits (col AND voxel_mask z)))
      })"

definition getVoxelColumn ::
    "voxel_grid \<Rightarrow> u32 \<Rightarrow> u32 \<Rightarrow> u32 \<Rightarrow> u32 \<Rightarrow> voxel_status option" where
  "getVoxelColumn g x y unknown_threshold marked_threshold =
     (if vg_size_x g \<le> x \<or> vg_size_y g \<le> y then Some UNKNOWN
      else do {
        col \<leftarrow> load (vg_data g) (vg_index g x y);
        Some (if \<not> bitsBelowThreshold (marked_bits col) marked_threshold then MARKED
              else if \<not> bitsBelowThreshold (unknown_bits col) unknown_threshold then UNKNOWN
              else FREE)
      })"

section \<open>The counting loops are population counts\<close>

lemma numBits_loop_popcnt: "numBits_loop n c = c + of_nat (popcnt n)"
proof (induction n c rule: numBits_loop.induct)
  case (1 n c)
  show ?case
  proof (cases "n = 0")
    case True
    then show ?thesis by (simp add: numBits_loop.simps)
  next
    case False
    then show ?thesis
      using "1.IH" popcnt_and_pred [OF False]
      by (simp add: numBits_loop.simps [of n c])
  qed
qed

lemma numBits_popcnt: "unat (numBits n) = popcnt n"
proof -
  have "popcnt n < 2 ^ 32" using popcnt_le [of n] by simp
  then show ?thesis
    by (simp add: numBits_def numBits_loop_popcnt unat_of_nat)
qed

lemma below_loop_popcnt:
  "unat c + popcnt n < 2 ^ 32 \<Longrightarrow> below_loop n c t \<longleftrightarrow> n = 0 \<or> unat c + popcnt n \<le> unat t"
proof (induction n c t rule: below_loop.induct)
  case (1 n c t)
  show ?case
  proof (cases "n = 0")
    case True
    then show ?thesis by (simp add: below_loop.simps)
  next
    case False
    have p: "popcnt n = Suc (popcnt (n AND (n - 1)))" using False by (rule popcnt_and_pred)
    then have c: "unat (c + 1) = Suc (unat c)"
      using "1.prems" by (simp add: unat_word_ariths)
    show ?thesis
    proof (cases "t < c + 1")
      case True
      then have "\<not> unat c + popcnt n \<le> unat t" using p c by (simp add: word_less_nat_alt)
      then show ?thesis using True False by (simp add: below_loop.simps [of n c t])
    next
      case ne: False
      have "below_loop (n AND (n - 1)) (c + 1) t \<longleftrightarrow>
          n AND (n - 1) = 0 \<or> unat (c + 1) + popcnt (n AND (n - 1)) \<le> unat t"
        using "1.IH" [OF False ne] "1.prems" p c by simp
      moreover have "unat (c + 1) \<le> unat t" using ne by (simp add: word_less_nat_alt)
      ultimately show ?thesis
        using False ne p c by (auto simp: below_loop.simps [of n c t])
    qed
  qed
qed

lemma below_popcnt: "bitsBelowThreshold n t \<longleftrightarrow> popcnt n \<le> unat t"
  using below_loop_popcnt [of 0 n t] popcnt_le [of n] by (auto simp: bitsBelowThreshold_def)

section \<open>Voxel bits\<close>

lemma bit_voxel_mask:
  "bit (voxel_mask z) i \<longleftrightarrow> (i = unat z \<and> unat z < 32) \<or> (i = unat z + 16 \<and> i < 32)"
  by (auto simp: voxel_mask_def bit_simps)

definition col_status :: "u32 \<Rightarrow> nat \<Rightarrow> voxel_status" where
  "col_status c z = (if bit c (z + 16) \<and> bit c z then MARKED
                     else if bit c (z + 16) \<or> bit c z then UNKNOWN else FREE)"

lemma voxel_of_bits_status:
  assumes "unat z < 16"
  shows "voxel_of_bits (numBits (c AND voxel_mask z)) = col_status c (unat z)"
proof -
  have p: "popcnt (c AND voxel_mask z) =
      (if bit c (unat z) then 1 else 0) + (if bit c (unat z + 16) then 1 else 0)"
  proof -
    have "i = unat z \<or> i = unat z + 16" if "bit (c AND voxel_mask z) i" for i
      using that by (auto simp: bit_and_iff bit_voxel_mask)
    then have "popcnt (c AND voxel_mask z) =
        (if bit (c AND voxel_mask z) (unat z) then 1 else 0)
        + (if bit (c AND voxel_mask z) (unat z + 16) then 1 else 0)"
      by (rule popcnt_pair) simp_all
    then show ?thesis using assms by (simp add: bit_and_iff bit_voxel_mask)
  qed
  have "voxel_of_bits b = (if unat b < 2 then if unat b < 1 then FREE else UNKNOWN else MARKED)" for b
    by (simp add: voxel_of_bits_def word_less_nat_alt)
  then show ?thesis
    by (simp add: numBits_popcnt p col_status_def)
qed

lemma col_status_or_mask:
  assumes "unat z < 16" "z' < 16"
  shows "col_status (c OR voxel_mask z) z' = (if z' = unat z then MARKED else col_status c z')"
  using assms by (auto simp: col_status_def bit_or_iff bit_voxel_mask)

lemma col_status_clear_mask:
  assumes "unat z < 16" "z' < 16"
  shows "col_status (c AND NOT (voxel_mask z)) z' = (if z' = unat z then FREE else col_status c z')"
  using assms by (auto simp: col_status_def bit_and_iff bit_not_iff bit_voxel_mask)

lemma col_status_unknown: "z < 16 \<Longrightarrow> col_status unknown_col z = UNKNOWN"
  by (auto simp: col_status_def unknown_col_def bit_simps)

section \<open>Well-formed grids\<close>

text \<open>A marked voxel is never known free, so the bit pair \<open>10\<close> does not occur.\<close>

definition col_ok :: "u32 \<Rightarrow> bool" where
  "col_ok c \<longleftrightarrow> (\<forall>z < 16. bit c (z + 16) \<longrightarrow> bit c z)"

definition vg_wf :: "voxel_grid \<Rightarrow> bool" where
  "vg_wf g \<longleftrightarrow> vg_size_z g \<le> 16 \<and> unat (vg_size_x g) * unat (vg_size_y g) < 2 ^ 32 \<and>
     length (vg_data g) = unat (vg_size_x g) * unat (vg_size_y g) \<and>
     (\<forall>c \<in> set (vg_data g). col_ok c)"

text \<open>The three sizes, which no operation but \<open>resize\<close> writes.\<close>

definition same_shape :: "voxel_grid \<Rightarrow> voxel_grid \<Rightarrow> bool" where
  "same_shape g g' \<longleftrightarrow> vg_size_x g' = vg_size_x g \<and> vg_size_y g' = vg_size_y g \<and>
     vg_size_z g' = vg_size_z g"

lemma col_ok_unknown: "col_ok unknown_col"
  by (simp add: col_ok_def unknown_col_def bit_simps)

lemma col_ok_mark: "col_ok c \<Longrightarrow> unat z < 16 \<Longrightarrow> col_ok (c OR voxel_mask z)"
  by (auto simp: col_ok_def bit_or_iff bit_voxel_mask)

lemma col_ok_clear: "col_ok c \<Longrightarrow> unat z < 16 \<Longrightarrow> col_ok (c AND NOT (voxel_mask z))"
  by (auto simp: col_ok_def bit_simps bit_voxel_mask)

lemma vg_wf_new:
  "unat sx * unat sy < 2 ^ 32 \<Longrightarrow> vg_wf (voxel_grid_new sx sy sz)"
  by (simp add: vg_wf_def voxel_grid_new_def clamp_size_z_def col_ok_unknown
      unat_word_ariths not_less)

lemma vg_index_less:
  assumes "vg_wf g" "\<not> out_of_grid g x y z"
  shows "vg_index g x y < length (vg_data g)" "unat z < 16"
    and "vg_index g x y = unat y * unat (vg_size_x g) + unat x"
proof -
  have b: "x < vg_size_x g" "y < vg_size_y g" "z < vg_size_z g"
    using assms(2) by (auto simp: out_of_grid_def not_le)
  have w: "unat (vg_size_x g) * unat (vg_size_y g) < 2 ^ 32" "vg_size_z g \<le> 16"
    and l: "length (vg_data g) = unat (vg_size_x g) * unat (vg_size_y g)"
    using assms(1) by (auto simp: vg_wf_def)
  show "vg_index g x y < length (vg_data g)"
    "vg_index g x y = unat y * unat (vg_size_x g) + unat x"
    using word_cell_index [OF w(1) b(1,2)] l by (simp_all add: vg_index_def)
  show "unat z < 16" using b(3) w(2) by (simp add: word_less_nat_alt word_le_nat_alt)
qed

lemma vg_index_inj:
  assumes "vg_wf g" "\<not> out_of_grid g x y z" "\<not> out_of_grid g x' y' z'"
    and "vg_index g x y = vg_index g x' y'"
  shows "x = x' \<and> y = y'"
proof -
  have "unat x < unat (vg_size_x g)" "unat x' < unat (vg_size_x g)"
    using assms(2,3) by (auto simp: out_of_grid_def word_le_nat_alt)
  then have "unat x = unat x' \<and> unat y = unat y'"
    using cell_index_inj assms(4) vg_index_less(3) [OF assms(1,2)] vg_index_less(3) [OF assms(1,3)]
    by metis
  then show ?thesis by (simp add: word_unat_eq_iff)
qed

lemma vg_index_less_col:
  assumes "vg_wf g" "x < vg_size_x g" "y < vg_size_y g"
  shows "vg_index g x y < length (vg_data g)"
  using assms word_cell_index [of "vg_size_x g" "vg_size_y g" x y]
  by (simp add: vg_wf_def vg_index_def)

lemma getVoxel_status:
  assumes "vg_wf g"
  shows "getVoxel g x y z =
    Some (if out_of_grid g x y z then UNKNOWN
          else col_status (vg_data g ! vg_index g x y) (unat z))"
  using vg_index_less [OF assms, of x y z]
  by (simp add: getVoxel_def load_def voxel_of_bits_status)

lemma getVoxel_static_eq:
  "getVoxel_static x y z (vg_size_x g) (vg_size_y g) (vg_size_z g) (vg_data g) = getVoxel g x y z"
  by (simp add: getVoxel_static_def getVoxel_def out_of_grid_def vg_index_def)

lemma vg_wf_update:
  assumes "vg_wf g" "i < length (vg_data g)" "col_ok c"
  shows "vg_wf (g\<lparr>vg_data := (vg_data g)[i := c]\<rparr>)"
proof -
  have "set ((vg_data g)[i := c]) \<subseteq> insert c (set (vg_data g))"
    by (rule set_update_subset_insert)
  then show ?thesis using assms by (auto simp: vg_wf_def)
qed

section \<open>The interface of the single-voxel writers\<close>

text \<open>
  A writer combines the column with the voxel's mask; it promises the status the voxel gets,
  that the other voxels of the column keep theirs, and that columns stay well formed. What
  \<open>getVoxel\<close> returns after the write follows once and for all.
\<close>

locale column_writer =
  fixes wr :: "u32 \<Rightarrow> u32 \<Rightarrow> u32" and st :: voxel_status
  assumes wr_status: "unat z < 16 \<Longrightarrow> z' < 16 \<Longrightarrow>
      col_status (wr z c) z' = (if z' = unat z then st else col_status c z')"
    and wr_ok: "col_ok c \<Longrightarrow> unat z < 16 \<Longrightarrow> col_ok (wr z c)"
begin

lemma written_wf:
  assumes "vg_wf g" "\<not> out_of_grid g x y z"
  shows "vg_wf (g\<lparr>vg_data := (vg_data g)[vg_index g x y := wr z (vg_data g ! vg_index g x y)]\<rparr>)"
  using assms vg_index_less [OF assms]
  by (intro vg_wf_update wr_ok) (auto simp: vg_wf_def)

lemma written_getVoxel:
  assumes "vg_wf g" "\<not> out_of_grid g x y z"
    and "g' = g\<lparr>vg_data := (vg_data g)[vg_index g x y := wr z (vg_data g ! vg_index g x y)]\<rparr>"
  shows "getVoxel g' a b c = (if (a, b, c) = (x, y, z) then Some st else getVoxel g a b c)"
proof (cases "out_of_grid g a b c")
  case True
  then show ?thesis
    using assms(2,3) by (auto simp: getVoxel_def out_of_grid_def)
next
  case False
  have wf': "vg_wf g'" unfolding assms(3) by (rule written_wf [OF assms(1,2)])
  have ix: "vg_index g' a b = vg_index g a b" "out_of_grid g' a b c = out_of_grid g a b c"
    by (simp_all add: assms(3) vg_index_def out_of_grid_def)
  note i = vg_index_less [OF assms(1,2)] and k = vg_index_less [OF assms(1) False]
  show ?thesis
  proof (cases "vg_index g a b = vg_index g x y")
    case True
    then have ab: "a = x" "b = y" using vg_index_inj [OF assms(1) False assms(2)] by auto
    have "vg_data g' ! vg_index g x y = wr z (vg_data g ! vg_index g x y)"
      using i(1) by (simp add: assms(3))
    moreover have "(unat c = unat z) = (c = z)" by (simp add: word_unat_eq_iff)
    ultimately show ?thesis
      using False ab ix i(2) k(2)
      by (simp add: getVoxel_status [OF wf'] getVoxel_status [OF assms(1)] wr_status)
  next
    case ne: False
    then have "vg_data g' ! vg_index g a b = vg_data g ! vg_index g a b"
      by (simp add: assms(3))
    then show ?thesis
      using False ne ix by (auto simp: getVoxel_status [OF wf'] getVoxel_status [OF assms(1)])
  qed
qed

end

interpretation mark: column_writer "\<lambda>z c. c OR voxel_mask z" MARKED
  by unfold_locales (auto simp: col_status_or_mask col_ok_mark)

interpretation clear: column_writer "\<lambda>z c. c AND NOT (voxel_mask z)" FREE
  by unfold_locales (auto simp: col_status_clear_mask col_ok_clear)

lemma markVoxel_eq:
  assumes "vg_wf g" "\<not> out_of_grid g x y z"
  shows "markVoxel g x y z =
    Some (g\<lparr>vg_data := (vg_data g)[vg_index g x y := (vg_data g ! vg_index g x y) OR voxel_mask z]\<rparr>)"
  using assms vg_index_less [OF assms] by (simp add: markVoxel_def load_def store_def Let_def)

lemma clearVoxel_eq:
  assumes "vg_wf g" "\<not> out_of_grid g x y z"
  shows "clearVoxel g x y z =
    Some (g\<lparr>vg_data := (vg_data g)[vg_index g x y :=
      (vg_data g ! vg_index g x y) AND NOT (voxel_mask z)]\<rparr>)"
  using assms vg_index_less [OF assms] by (simp add: clearVoxel_def load_def store_def Let_def)

lemma vg_reset_eq:
  assumes "vg_wf g"
  shows "vg_reset g = Some (g\<lparr>vg_data := replicate (length (vg_data g)) unknown_col\<rparr>)"
  using assms by (cases g) (auto simp: vg_reset_def mem_set_def vg_wf_def unat_word_ariths)

section \<open>Columns\<close>

text \<open>How many of the 16 voxels of a column, in the grid or above it, have a status.\<close>

definition count_status :: "u32 \<Rightarrow> voxel_status \<Rightarrow> nat" where
  "count_status c st = length (filter (\<lambda>z. col_status c z = st) [0..<16])"

lemma popcnt_low16:
  assumes "\<And>i. bit n i \<longleftrightarrow> i < 16 \<and> P i"
  shows "popcnt n = length (filter P [0..<16])"
proof -
  have "[0..<32] = [0..<16] @ [16..<32]" using upt_add_eq_append [of 0 16 16] by simp
  moreover have "filter (bit n) [0..<16] = filter P [0..<16]"
    using assms by (intro filter_cong) auto
  moreover have "filter (bit n) [16..<32] = []"
    using assms by (auto simp: filter_empty_conv)
  ultimately show ?thesis by (simp add: popcnt_def)
qed

lemma bit_marked_bits: "bit (marked_bits c) i \<longleftrightarrow> i < 16 \<and> bit c (i + 16)"
  by (auto simp: marked_bits_def bit_simps add.commute dest: bit_imp_le_length)

lemma bit_unknown_bits: "bit (unknown_bits c) i \<longleftrightarrow> i < 16 \<and> bit c (i + 16) \<noteq> bit c i"
  by (auto simp: unknown_bits_def bit_simps add.commute dest: bit_imp_le_length)

lemma popcnt_marked_bits:
  assumes "col_ok c" shows "popcnt (marked_bits c) = count_status c MARKED"
proof -
  have "popcnt (marked_bits c) = length (filter (\<lambda>i. bit c (i + 16)) [0..<16])"
    by (rule popcnt_low16) (rule bit_marked_bits)
  also have "filter (\<lambda>i. bit c (i + 16)) [0..<16] = filter (\<lambda>z. col_status c z = MARKED) [0..<16]"
    using assms by (intro filter_cong) (auto simp: col_status_def col_ok_def)
  finally show ?thesis by (simp add: count_status_def)
qed

lemma popcnt_unknown_bits: "popcnt (unknown_bits c) = count_status c UNKNOWN"
proof -
  have "popcnt (unknown_bits c) = length (filter (\<lambda>i. bit c (i + 16) \<noteq> bit c i) [0..<16])"
    by (rule popcnt_low16) (rule bit_unknown_bits)
  also have "filter (\<lambda>i. bit c (i + 16) \<noteq> bit c i) [0..<16]
      = filter (\<lambda>z. col_status c z = UNKNOWN) [0..<16]"
    by (intro filter_cong) (auto simp: col_status_def)
  finally show ?thesis by (simp add: count_status_def)
qed

section \<open>Properties\<close>

text \<open>The bit-clearing loop of \<open>bitsBelowThreshold\<close> returns true exactly when the word has at
  most \<open>bit_threshold\<close> set bits, and \<open>numBits\<close> returns the number of set bits.\<close>

theorem bit_loops_count:
  "(bitsBelowThreshold n t \<longleftrightarrow> card {i. bit n i} \<le> unat t) \<and> unat (numBits n) = card {i. bit n i}"
  using below_popcnt numBits_popcnt by (simp add: popcnt_card)

text \<open>Marking a voxel of a well-formed grid succeeds and keeps it well formed; afterwards
  \<open>getVoxel\<close> returns \<open>MARKED\<close> there and what it returned before everywhere else.
  Coordinates outside the grid change nothing.\<close>

theorem markVoxel_getVoxel:
  assumes "vg_wf g"
  shows "\<exists>g'. markVoxel g x y z = Some g' \<and> vg_wf g' \<and> same_shape g g' \<and>
    (\<forall>a b c. getVoxel g' a b c =
      (if (a, b, c) = (x, y, z) \<and> \<not> out_of_grid g x y z then Some MARKED else getVoxel g a b c))"
proof (cases "out_of_grid g x y z")
  case True
  then show ?thesis using assms by (simp add: markVoxel_def same_shape_def)
next
  case False
  show ?thesis
    using False mark.written_wf [OF assms False] mark.written_getVoxel [OF assms False refl]
    by (simp add: markVoxel_eq [OF assms False] same_shape_def)
qed

theorem markVoxel_getVoxel_witness:
  "vg_wf (voxel_grid_new 2 2 4) \<and>
   (\<exists>g'. markVoxel (voxel_grid_new 2 2 4) 1 1 3 = Some g' \<and> getVoxel g' 1 1 3 = Some MARKED)"
proof -
  have w: "vg_wf (voxel_grid_new 2 2 4)" by (rule vg_wf_new) simp
  have "\<not> out_of_grid (voxel_grid_new 2 2 4) 1 1 3"
    by (simp add: out_of_grid_def voxel_grid_new_def clamp_size_z_def word_le_nat_alt)
  with w markVoxel_getVoxel [OF w, of 1 1 3] show ?thesis by auto
qed

text \<open>Clearing a voxel succeeds and keeps the grid well formed; afterwards \<open>getVoxel\<close> returns
  \<open>FREE\<close> there and what it returned before everywhere else.\<close>

theorem clearVoxel_getVoxel:
  assumes "vg_wf g"
  shows "\<exists>g'. clearVoxel g x y z = Some g' \<and> vg_wf g' \<and> same_shape g g' \<and>
    (\<forall>a b c. getVoxel g' a b c =
      (if (a, b, c) = (x, y, z) \<and> \<not> out_of_grid g x y z then Some FREE else getVoxel g a b c))"
proof (cases "out_of_grid g x y z")
  case True
  then show ?thesis using assms by (simp add: clearVoxel_def same_shape_def)
next
  case False
  show ?thesis
    using False clear.written_wf [OF assms False] clear.written_getVoxel [OF assms False refl]
    by (simp add: clearVoxel_eq [OF assms False] same_shape_def)
qed

theorem clearVoxel_getVoxel_witness:
  "vg_wf (voxel_grid_new 3 1 16) \<and>
   (\<exists>g'. clearVoxel (voxel_grid_new 3 1 16) 2 0 15 = Some g' \<and> getVoxel g' 2 0 15 = Some FREE)"
proof -
  have w: "vg_wf (voxel_grid_new 3 1 16)" by (rule vg_wf_new) simp
  have "\<not> out_of_grid (voxel_grid_new 3 1 16) 2 0 15"
    by (simp add: out_of_grid_def voxel_grid_new_def clamp_size_z_def word_le_nat_alt)
  with w clearVoxel_getVoxel [OF w, of 2 0 15] show ?thesis by auto
qed

text \<open>\<open>getVoxelColumn\<close> compares with the thresholds the numbers of marked and of unknown
  voxels among the 16 bits of the column (the voxels above \<open>size_z\<close> count as unknown).\<close>

theorem getVoxelColumn_counts:
  assumes "vg_wf g" "x < vg_size_x g" "y < vg_size_y g"
  shows "\<exists>col. load (vg_data g) (vg_index g x y) = Some col \<and>
    getVoxelColumn g x y unknown_threshold marked_threshold =
      Some (if unat marked_threshold < count_status col MARKED then MARKED
            else if unat unknown_threshold < count_status col UNKNOWN then UNKNOWN else FREE)"
proof -
  have i: "vg_index g x y < length (vg_data g)" using assms by (rule vg_index_less_col)
  then have "col_ok (vg_data g ! vg_index g x y)" using assms(1) by (auto simp: vg_wf_def)
  with i assms(2,3) show ?thesis
    by (simp add: getVoxelColumn_def load_def below_popcnt popcnt_marked_bits
        popcnt_unknown_bits not_le not_less)
qed

theorem getVoxelColumn_counts_witness:
  "getVoxelColumn (voxel_grid_new 2 2 4) 1 0 15 0 = Some UNKNOWN \<and>
   getVoxelColumn (voxel_grid_new 2 2 4) 1 0 16 0 = Some FREE"
proof -
  have w: "vg_wf (voxel_grid_new 2 2 4)" by (rule vg_wf_new) simp
  have s: "(1::u32) < vg_size_x (voxel_grid_new 2 2 4)" "(0::u32) < vg_size_y (voxel_grid_new 2 2 4)"
    by (simp_all add: voxel_grid_new_def word_less_nat_alt)
  have "load (vg_data (voxel_grid_new 2 2 4)) (vg_index (voxel_grid_new 2 2 4) 1 0) = Some unknown_col"
    by (simp add: load_def voxel_grid_new_def vg_index_def)
  moreover have "count_status unknown_col MARKED = 0" "count_status unknown_col UNKNOWN = 16"
    by (simp_all add: count_status_def col_status_unknown)
  ultimately show ?thesis
    using getVoxelColumn_counts [OF w s, of 15 0] getVoxelColumn_counts [OF w s, of 16 0] by simp
qed

end
