(* ===== verification/Ray_Cells.thy ===== *)
theory Ray_Cells
  imports Bresenham
begin

text \<open>
  The cells visited by the Bresenham loops of \<open>nav2_voxel_grid\<close>: the 3D loop over a cursor of column
  offset and height mask, its closed form, and the proof that every visited cell lies between the two
  ends. The 2D loop of \<open>Costmap2D\<close> is the special case of equal heights.
\<close>

section \<open>Functors\<close>

type_synonym cursor = "u32 \<times> u32"  \<comment> \<open>\<open>offset\<close> and \<open>z_mask\<close>, shared by reference\<close>

datatype offset_functor = GridOffset | ZOffset

fun apply_offset :: "offset_functor \<Rightarrow> u32 \<Rightarrow> cursor \<Rightarrow> cursor" where
  "apply_offset GridOffset offset_val (offset, z_mask) = (offset + offset_val, z_mask)"
| "apply_offset ZOffset offset_val (offset, z_mask) =
     (offset, if 0 < sint offset_val then push_bit 1 z_mask else drop_bit 1 z_mask)"

section \<open>\<open>bresenham3D\<close> and \<open>raytraceLine\<close>\<close>

fun bresenham3D_loop ::
    "(cursor \<Rightarrow> 's \<Rightarrow> 's option) \<Rightarrow> offset_functor \<Rightarrow> offset_functor \<Rightarrow> offset_functor \<Rightarrow>
     u32 \<Rightarrow> u32 \<Rightarrow> u32 \<Rightarrow> u32 \<Rightarrow> u32 \<Rightarrow> u32 \<Rightarrow> nat \<Rightarrow> u32 \<Rightarrow> u32 \<Rightarrow> cursor \<Rightarrow> 's \<Rightarrow> 's option" where
  "bresenham3D_loop act off_a off_b off_c abs_da abs_db abs_dc oa ob oc 0 error_b error_c p s = act p s"
| "bresenham3D_loop act off_a off_b off_c abs_da abs_db abs_dc oa ob oc (Suc n) error_b error_c p s =
     do {
       s' \<leftarrow> act p s;
       let p1 = apply_offset off_a oa p;
       let (eb, step_b) = err_round abs_da abs_db error_b;
       let (ec, step_c) = err_round abs_da abs_dc error_c;
       let p2 = (if step_b then apply_offset off_b ob p1 else p1);
       let p3 = (if step_c then apply_offset off_c oc p2 else p2);
       bresenham3D_loop act off_a off_b off_c abs_da abs_db abs_dc oa ob oc n eb ec p3 s'
     }"

definition bresenham3D ::
    "(cursor \<Rightarrow> 's \<Rightarrow> 's option) \<Rightarrow> offset_functor \<Rightarrow> offset_functor \<Rightarrow> offset_functor \<Rightarrow>
     u32 \<Rightarrow> u32 \<Rightarrow> u32 \<Rightarrow> u32 \<Rightarrow> u32 \<Rightarrow> u32 \<Rightarrow> u32 \<Rightarrow> u32 \<Rightarrow> cursor \<Rightarrow> u32 \<Rightarrow> 's \<Rightarrow> 's option" where
  "bresenham3D act off_a off_b off_c abs_da abs_db abs_dc error_b error_c oa ob oc p max_length s =
     bresenham3D_loop act off_a off_b off_c abs_da abs_db abs_dc oa ob oc
       (unat (min max_length abs_da)) error_b error_c p s"

definition sign3 :: "u32 \<Rightarrow> u32" where
  "sign3 i = (if 0 < sint i then 1 else - 1)"

text \<open>The start of the traced part: the point at distance \<open>min_length\<close> from the first end.\<close>

definition ray_start :: "real \<Rightarrow> u32 \<Rightarrow> real \<Rightarrow> real \<Rightarrow> real" where
  "ray_start dst min_length c0 c1 =
     (if 0 < dst then c0 + (c1 - c0) / dst * real (unat min_length) else c0)"

definition ray_scale :: "real \<Rightarrow> u32 \<Rightarrow> real" where
  "ray_scale dst max_length = (if 0 < dst then min 1 (real (unat max_length) / dst) else 1)"

text \<open>\<open>(1 << 16) | 1\<close>: the mask of the voxel at height 0.\<close>

definition line_mask :: u32 where
  "line_mask = push_bit 16 1 OR 1"

text \<open>\<open>int(x1) - int(min_x0)\<close>, both casts checked.\<close>

definition cell_delta :: "real \<Rightarrow> real \<Rightarrow> u32 option" where
  "cell_delta c1 c0 = do { a \<leftarrow> cast_int c1; b \<leftarrow> cast_int c0; Some (a - b) }"

section \<open>The visited voxels\<close>

text \<open>The cursors of one \<open>bresenham3D\<close> call, in order; the loop folds the action over them.\<close>

fun bres_list ::
    "offset_functor \<Rightarrow> offset_functor \<Rightarrow> offset_functor \<Rightarrow> u32 \<Rightarrow> u32 \<Rightarrow> u32 \<Rightarrow> u32 \<Rightarrow> u32 \<Rightarrow> u32 \<Rightarrow>
     nat \<Rightarrow> u32 \<Rightarrow> u32 \<Rightarrow> cursor \<Rightarrow> cursor list" where
  "bres_list fa fb fc da db dc oa ob oc 0 eb ec p = [p]"
| "bres_list fa fb fc da db dc oa ob oc (Suc n) eb ec p =
     (let p1 = apply_offset fa oa p;
          (eb', sb) = err_round da db eb;
          (ec', sc) = err_round da dc ec;
          p2 = (if sb then apply_offset fb ob p1 else p1);
          p3 = (if sc then apply_offset fc oc p2 else p2)
      in p # bres_list fa fb fc da db dc oa ob oc n eb' ec' p3)"

lemma bresenham3D_loop_foldM:
  "bresenham3D_loop act fa fb fc da db dc oa ob oc n eb ec p s =
   foldM act (bres_list fa fb fc da db dc oa ob oc n eb ec p) s"
proof (induction n arbitrary: eb ec p s)
  case 0
  then show ?case by (cases "act p s") simp_all
next
  case (Suc n)
  show ?case by (cases "act p s") (simp_all add: Suc.IH Let_def case_prod_beta)
qed

datatype axis = AX | AY | AZ

type_synonym coords = "nat \<times> nat \<times> nat"

fun coord :: "axis \<Rightarrow> coords \<Rightarrow> nat" where
  "coord AX (x, y, z) = x"
| "coord AY (x, y, z) = y"
| "coord AZ (x, y, z) = z"

fun adv :: "axis \<Rightarrow> bool \<Rightarrow> nat \<Rightarrow> coords \<Rightarrow> coords" where
  "adv AX up k (x, y, z) = (toward up x k, y, z)"
| "adv AY up k (x, y, z) = (x, toward up y k, z)"
| "adv AZ up k (x, y, z) = (x, y, toward up z k)"

fun functor_of :: "axis \<Rightarrow> offset_functor" where
  "functor_of AX = GridOffset"
| "functor_of AY = GridOffset"
| "functor_of AZ = ZOffset"

fun stride :: "u32 \<Rightarrow> axis \<Rightarrow> bool \<Rightarrow> u32" where
  "stride w AX up = (if up then 1 else - 1)"
| "stride w AY up = (if up then 1 else - 1) * w"
| "stride w AZ up = (if up then 1 else - 1)"

fun enc :: "u32 \<Rightarrow> coords \<Rightarrow> cursor" where
  "enc w (x, y, z) = (of_nat y * w + of_nat x, push_bit z line_mask)"

text \<open>Moving down needs that many cells below, and a \<open>z\<close> whose mask fits the word.\<close>

definition room :: "axis \<Rightarrow> bool \<Rightarrow> nat \<Rightarrow> coords \<Rightarrow> bool" where
  "room a up n p \<longleftrightarrow> (\<not> up \<longrightarrow> n \<le> coord a p \<and> (a = AZ \<longrightarrow> coord a p < 16))"

lemma adv_add: "adv a up (j + k) p = adv a up j (adv a up k p)"
  by (cases p; cases a) (auto simp: toward_def)

lemma adv_0 [simp]: "adv a up 0 p = p"
  by (cases p; cases a) auto

lemma adv_commute: "a \<noteq> b \<Longrightarrow> adv a u j (adv b v k p) = adv b v k (adv a u j p)"
  by (cases p; cases a; cases b) auto

lemma coord_adv: "coord a (adv b up k p) = (if a = b then toward up (coord a p) k else coord a p)"
  by (cases p; cases a; cases b) auto

lemma bit_line_mask: "bit line_mask i \<longleftrightarrow> i = 0 \<or> i = 16"
  unfolding line_mask_def bit_or_iff bit_push_bit_iff by (auto simp: bit_1_iff)

lemma drop_push_mask: "k < 15 \<Longrightarrow> drop_bit 1 (push_bit (Suc k) line_mask) = push_bit k line_mask"
  by (intro bit_eqI) (auto simp: bit_drop_bit_eq bit_push_bit_iff bit_line_mask simp del: push_bit_Suc)

lemma apply_offset_adv:
  assumes "room a up 1 p"
  shows "apply_offset (functor_of a) (stride w a up) (enc w p) = enc w (adv a up 1 p)"
proof -
  obtain x y z where p: "p = (x, y, z)" by (cases p)
  show ?thesis
  proof (cases a)
    case AX
    then show ?thesis using assms p by (auto simp: toward_def room_def of_nat_diff)
  next
    case AY
    then show ?thesis
      using assms p by (auto simp: toward_def room_def of_nat_diff algebra_simps)
  next
    case AZ
    show ?thesis
    proof (cases up)
      case True
      then show ?thesis using AZ p by (simp add: toward_def push_bit_push_bit)
    next
      case False
      then obtain k where "z = Suc k" "k < 15"
        using assms AZ p by (cases z) (auto simp: room_def)
      then show ?thesis using AZ p False drop_push_mask [of k] by (simp add: toward_def)
    qed
  qed
qed

text \<open>The voxel after \<open>i\<close> rounds: \<open>i\<close> major steps and the closed forms of the minor ones.\<close>

definition bres_at ::
    "axis \<Rightarrow> axis \<Rightarrow> axis \<Rightarrow> bool \<Rightarrow> bool \<Rightarrow> bool \<Rightarrow> nat \<Rightarrow> nat \<Rightarrow> nat \<Rightarrow> nat \<Rightarrow> nat \<Rightarrow> coords \<Rightarrow> nat \<Rightarrow> coords"
  where
  "bres_at a b c ua ub uc da db dc eb ec p i =
     adv a ua i (adv b ub (minor_steps da db eb i) (adv c uc (minor_steps da dc ec i) p))"

lemma bres_at_0 [simp]:
  "da = 0 \<or> eb < da \<and> ec < da \<Longrightarrow> bres_at a b c ua ub uc da db dc eb ec p 0 = p"
  by (auto simp: bres_at_def minor_steps_def)

lemma bres_at_Suc:
  assumes "distinct [a, b, c]" "0 < da"
    and "p' = adv a ua 1 (adv b ub ((eb + db) div da) (adv c uc ((ec + dc) div da) p))"
  shows "bres_at a b c ua ub uc da db dc eb ec p (Suc i) =
    bres_at a b c ua ub uc da db dc ((eb + db) mod da) ((ec + dc) mod da) p' i"
proof -
  have "adv a ua (i + 1) q = adv a ua i (adv a ua 1 q)" for q by (rule adv_add)
  moreover have "adv b ub (j + k) q = adv b ub k (adv b ub j q)" for j k q
    by (metis adv_add add.commute)
  moreover have "adv c uc (j + k) q = adv c uc k (adv c uc j q)" for j k q
    by (metis adv_add add.commute)
  moreover have "adv a v j (adv b w k q) = adv b w k (adv a v j q)"
    "adv a v j (adv c w k q) = adv c w k (adv a v j q)"
    "adv b v j (adv c w k q) = adv c w k (adv b v j q)" for v j w k q
    using assms(1) by (auto intro: adv_commute)
  ultimately show ?thesis
    by (simp add: bres_at_def minor_steps_Suc [OF assms(2)] assms(3))
qed

lemma room_less: "room a up n p \<Longrightarrow> m \<le> n \<Longrightarrow> room a up m p"
  by (auto simp: room_def)

lemma room_adv: "a \<noteq> b \<Longrightarrow> room a ua j (adv b ub k p) = room a ua j p"
  by (auto simp: room_def coord_adv)

lemma room_adv_same: "room a up (j + k) p \<Longrightarrow> room a up j (adv a up k p)"
  by (auto simp: room_def coord_adv toward_def)

lemma bres_next:
  assumes "distinct [a, b, c]" "unat da \<le> 2 ^ 31" "db \<le> da" "dc \<le> da"
    and "unat eb < unat da" "unat ec < unat da"
    and "room a ua 1 p" "room b ub ((unat eb + unat db) div unat da) p"
    and "room c uc ((unat ec + unat dc) div unat da) p"
    and "sb = snd (err_round da db eb)" "sc = snd (err_round da dc ec)"
    and "p1 = apply_offset (functor_of a) (stride w a ua) (enc w p)"
    and "p2 = (if sb then apply_offset (functor_of b) (stride w b ub) p1 else p1)"
    and "p3 = (if sc then apply_offset (functor_of c) (stride w c uc) p2 else p2)"
  shows "p3 = enc w (adv a ua 1 (adv b ub ((unat eb + unat db) div unat da)
      (adv c uc ((unat ec + unat dc) div unat da) p)))"
proof -
  have sb: "(if sb then 1 else 0) = (unat eb + unat db) div unat da"
    using err_round_nat(2) [OF assms(2,3,5)] assms(10) by simp
  have sc: "(if sc then 1 else 0) = (unat ec + unat dc) div unat da"
    using err_round_nat(2) [OF assms(2,4,6)] assms(11) by simp
  have dst: "b \<noteq> a" "c \<noteq> a" "c \<noteq> b" using assms(1) by auto
  let ?q1 = "adv a ua 1 p"
  let ?q2 = "adv b ub (if sb then 1 else 0) ?q1"
  have p1: "p1 = enc w ?q1" unfolding assms(12) by (rule apply_offset_adv) fact
  have p2: "p2 = enc w ?q2"
    unfolding assms(13) p1
    using dst assms(8) sb apply_offset_adv [of b ub ?q1 w] by (cases sb) (simp_all add: room_adv)
  have p3: "p3 = enc w (adv c uc (if sc then 1 else 0) ?q2)"
    unfolding assms(14) p2
    using dst assms(9) sc apply_offset_adv [of c uc ?q2 w] by (cases sc) (simp_all add: room_adv)
  have "adv c uc k (adv b ub j (adv a ua i q)) = adv a ua i (adv b ub j (adv c uc k q))" for i j k q
    using assms(1) by (metis adv_commute distinct_length_2_or_more)
  then show ?thesis unfolding p3 sb sc by simp
qed

lemma bres_list_Suc:
  assumes "eb' = fst (err_round da db eb)" "sb = snd (err_round da db eb)"
    and "ec' = fst (err_round da dc ec)" "sc = snd (err_round da dc ec)"
    and "p1 = apply_offset fa oa p" "p2 = (if sb then apply_offset fb ob p1 else p1)"
    and "p3 = (if sc then apply_offset fc oc p2 else p2)"
  shows "bres_list fa fb fc da db dc oa ob oc (Suc n) eb ec p =
    p # bres_list fa fb fc da db dc oa ob oc n eb' ec' p3"
  by (simp add: assms Let_def case_prod_beta)

lemma bres_list_enc:
  assumes "distinct [a, b, c]" "unat da \<le> 2 ^ 31" "db \<le> da" "dc \<le> da"
    and "da = 0 \<and> n = 0 \<or> unat eb < unat da \<and> unat ec < unat da"
    and "room a ua n p" "room b ub (minor_steps (unat da) (unat db) (unat eb) n) p"
    and "room c uc (minor_steps (unat da) (unat dc) (unat ec) n) p"
  shows "bres_list (functor_of a) (functor_of b) (functor_of c) da db dc
      (stride w a ua) (stride w b ub) (stride w c uc) n eb ec (enc w p) =
    map (\<lambda>i. enc w (bres_at a b c ua ub uc (unat da) (unat db) (unat dc) (unat eb) (unat ec) p i))
      [0..<Suc n]"
  using assms(5-)
proof (induction n arbitrary: eb ec p)
  case 0
  then show ?case by auto
next
  case (Suc n)
  let ?da = "unat da" and ?db = "unat db" and ?dc = "unat dc"
  have lt: "unat eb < ?da" "unat ec < ?da" "0 < ?da" using Suc.prems(1) by auto
  define eb' sb where rb: "eb' = fst (err_round da db eb)" "sb = snd (err_round da db eb)"
  define ec' sc where rc: "ec' = fst (err_round da dc ec)" "sc = snd (err_round da dc ec)"
  define p1 where "p1 = apply_offset (functor_of a) (stride w a ua) (enc w p)"
  define p2 where "p2 = (if sb then apply_offset (functor_of b) (stride w b ub) p1 else p1)"
  define p3 where "p3 = (if sc then apply_offset (functor_of c) (stride w c uc) p2 else p2)"
  define q where "q = adv a ua 1 (adv b ub ((unat eb + ?db) div ?da)
      (adv c uc ((unat ec + ?dc) div ?da) p))"
  have eb': "unat eb' = (unat eb + ?db) mod ?da" "unat eb' < ?da"
    using err_round_nat(1,3) [OF assms(2,3) lt(1)] rb by simp_all
  have ec': "unat ec' = (unat ec + ?dc) mod ?da" "unat ec' < ?da"
    using err_round_nat(1,3) [OF assms(2,4) lt(2)] rc by simp_all
  note msb = minor_steps_Suc [OF lt(3), of ?db "unat eb" n]
    and msc = minor_steps_Suc [OF lt(3), of ?dc "unat ec" n]
  have "room a ua 1 p" "room b ub ((unat eb + ?db) div ?da) p" "room c uc ((unat ec + ?dc) div ?da) p"
    using Suc.prems(2-4) msb msc by (auto elim!: room_less)
  then have p3: "p3 = enc w q"
    unfolding q_def by (rule bres_next [OF assms(1-4) lt(1,2) _ _ _ rb(2) rc(2) p1_def p2_def p3_def])
  have ms': "minor_steps ?da ?db (unat eb) (Suc n) = minor_steps ?da ?db (unat eb') n + (unat eb + ?db) div ?da"
    "minor_steps ?da ?dc (unat ec) (Suc n) = minor_steps ?da ?dc (unat ec') n + (unat ec + ?dc) div ?da"
    using msb msc eb' ec' by simp_all
  have dst: "a \<noteq> b" "a \<noteq> c" "b \<noteq> c" "b \<noteq> a" "c \<noteq> a" "c \<noteq> b" using assms(1) by auto
  have "room a ua n q"
    unfolding q_def using Suc.prems(2) dst by (intro room_adv_same) (simp add: room_adv)
  moreover have "room b ub (minor_steps ?da ?db (unat eb') n) q"
    unfolding q_def using Suc.prems(3) ms'(1) dst
    by (simp add: room_adv) (intro room_adv_same, simp add: room_adv)
  moreover have "room c uc (minor_steps ?da ?dc (unat ec') n) q"
    unfolding q_def using Suc.prems(4) ms'(2) dst by (simp add: room_adv room_adv_same)
  ultimately have IH: "bres_list (functor_of a) (functor_of b) (functor_of c) da db dc
      (stride w a ua) (stride w b ub) (stride w c uc) n eb' ec' (enc w q) =
    map (\<lambda>i. enc w (bres_at a b c ua ub uc ?da ?db ?dc (unat eb') (unat ec') q i)) [0..<Suc n]"
    using eb'(2) ec'(2) by (intro Suc.IH) auto
  have "bres_list (functor_of a) (functor_of b) (functor_of c) da db dc
      (stride w a ua) (stride w b ub) (stride w c uc) (Suc n) eb ec (enc w p) =
      enc w p # map (\<lambda>i. enc w (bres_at a b c ua ub uc ?da ?db ?dc (unat eb') (unat ec') q i)) [0..<Suc n]"
    unfolding bres_list_Suc [OF rb rc p1_def p2_def p3_def] p3 IH ..
  also have "\<dots> = map (\<lambda>i. enc w (bres_at a b c ua ub uc ?da ?db ?dc (unat eb) (unat ec) p i)) [0..<Suc (Suc n)]"
  proof -
    have "[0..<Suc (Suc n)] = 0 # map Suc [0..<Suc n]" by (simp add: map_Suc_upt upt_conv_Cons del: upt_Suc)
    then show ?thesis
      using bres_at_Suc [OF assms(1) lt(3) q_def] lt eb' ec' by (simp add: comp_def del: upt_Suc)
  qed
  finally show ?case .
qed

section \<open>Every visited voxel lies between the ends\<close>

definition cell_in :: "u32 \<Rightarrow> u32 \<Rightarrow> coords \<Rightarrow> bool" where
  "cell_in w h q \<longleftrightarrow> coord AX q < unat w \<and> coord AY q < unat h \<and> coord AZ q < 16"

definition gap :: "axis \<Rightarrow> coords \<Rightarrow> coords \<Rightarrow> nat" where
  "gap a s e = (if coord a s < coord a e then coord a e - coord a s else coord a s - coord a e)"

definition rises :: "axis \<Rightarrow> coords \<Rightarrow> coords \<Rightarrow> bool" where
  "rises a s e \<longleftrightarrow> coord a s < coord a e"

lemma cell_in_between:
  assumes "cell_in w h s" "cell_in w h e"
    and "\<And>a. coord a q \<le> max (coord a s) (coord a e)"
  shows "cell_in w h q"
  using assms(1,2) assms(3) [of AX] assms(3) [of AY] assms(3) [of AZ]
  by (auto simp: cell_in_def max_def split: if_splits)

lemma toward_gap: "toward (rises a s e) (coord a s) (gap a s e) = coord a e"
  by (simp add: toward_def rises_def gap_def)

lemma toward_gap_le:
  "k \<le> gap a s e \<Longrightarrow> toward (rises a s e) (coord a s) k \<le> max (coord a s) (coord a e)"
  by (auto simp: toward_def rises_def gap_def)

lemma coords_eqI: "(\<And>a. coord a p = coord a q) \<Longrightarrow> p = q"
proof -
  assume h: "\<And>a. coord a p = coord a q"
  obtain x y z where p: "p = (x, y, z)" by (cases p)
  obtain x' y' z' where q: "q = (x', y', z')" by (cases q)
  from h [of AX] h [of AY] h [of AZ] p q show ?thesis by simp
qed

lemma axes_cover: "distinct [a, b, c] \<Longrightarrow> x = a \<or> x = b \<or> (x = (c::axis))"
  by (cases a; cases b; cases c; cases x) auto

text \<open>The coordinates of the \<open>i\<close>-th visited voxel on each axis.\<close>

lemma coord_bres_at:
  assumes "distinct [a, b, c]"
  shows "coord a (bres_at a b c ua ub uc da db dc eb ec p i) = toward ua (coord a p) i"
    and "coord b (bres_at a b c ua ub uc da db dc eb ec p i) =
      toward ub (coord b p) (minor_steps da db eb i)"
    and "coord c (bres_at a b c ua ub uc da db dc eb ec p i) =
      toward uc (coord c p) (minor_steps da dc ec i)"
  using assms by (auto simp: bres_at_def coord_adv)

lemma minor_steps_gap:
  assumes "i \<le> da" "da = 0 \<or> e < da"
  shows "minor_steps da db e i \<le> db"
  using assms minor_steps_le [of e da i db] by (cases "da = 0") (auto simp: minor_steps_def)

lemma bres_at_in:
  assumes "distinct [a, b, c]" "cell_in w h s" "cell_in w h e" "i \<le> gap a s e"
    and "gap a s e = 0 \<or> eb < gap a s e \<and> ec < gap a s e"
  shows "cell_in w h (bres_at a b c (rises a s e) (rises b s e) (rises c s e)
    (gap a s e) (gap b s e) (gap c s e) eb ec s i)"
proof (rule cell_in_between [OF assms(2,3)])
  fix x
  note k = minor_steps_gap [OF assms(4), of eb "gap b s e"]
    minor_steps_gap [OF assms(4), of ec "gap c s e"]
  show "coord x (bres_at a b c (rises a s e) (rises b s e) (rises c s e)
      (gap a s e) (gap b s e) (gap c s e) eb ec s i) \<le> max (coord x s) (coord x e)"
    using axes_cover [OF assms(1), of x] k assms(4,5)
    by (elim disjE) (auto simp: coord_bres_at [OF assms(1)] simp del: max.bounded_iff
        intro!: toward_gap_le)
qed

lemma bres_at_end:
  assumes "distinct [a, b, c]" "gap b s e \<le> gap a s e" "gap c s e \<le> gap a s e"
    and "gap a s e = 0 \<or> eb < gap a s e \<and> ec < gap a s e"
  shows "bres_at a b c (rises a s e) (rises b s e) (rises c s e)
    (gap a s e) (gap b s e) (gap c s e) eb ec s (gap a s e) = e"
proof (rule coords_eqI)
  fix x
  have m: "minor_steps (gap a s e) (gap b s e) eb (gap a s e) = gap b s e"
    "minor_steps (gap a s e) (gap c s e) ec (gap a s e) = gap c s e"
    using assms(2-4) minor_steps_all by (auto simp: minor_steps_def)
  show "coord x (bres_at a b c (rises a s e) (rises b s e) (rises c s e)
      (gap a s e) (gap b s e) (gap c s e) eb ec s (gap a s e)) = coord x e"
    using axes_cover [OF assms(1), of x] m
    by (elim disjE) (simp_all add: coord_bres_at [OF assms(1)] toward_gap)
qed

text \<open>One \<open>bresenham3D\<close> call between two cells of the grid, its errors started at half.\<close>

lemma bresenham3D_cells:
  assumes abc: "distinct [a, b, c]" and s: "cell_in w h s" and e: "cell_in w h e"
    and big: "unat w \<le> 2 ^ 31" "unat h \<le> 2 ^ 31"
    and dom: "gap b s e \<le> gap a s e" "gap c s e \<le> gap a s e"
    and da: "unat da = gap a s e" and db: "unat db = gap b s e" and dc: "unat dc = gap c s e"
    and m: "unat m \<le> gap a s e"
  shows "\<exists>qs. bresenham3D act (functor_of a) (functor_of b) (functor_of c) da db dc
      (da div 2) (da div 2) (stride w a (rises a s e)) (stride w b (rises b s e))
      (stride w c (rises c s e)) (enc w s) m st = foldM act (map (enc w) (s # qs)) st
    \<and> (\<forall>q \<in> set (s # qs). cell_in w h q) \<and> (unat m = gap a s e \<longrightarrow> last (s # qs) = e)"
proof -
  define half where "half = unat (da div 2)"
  have err: "gap a s e = 0 \<or> half < gap a s e \<and> half < gap a s e"
    using half_less [of da] da by (auto simp: half_def word_less_nat_alt)
  have gap31: "gap a s e \<le> 2 ^ 31"
    using s e big by (cases a) (auto simp: cell_in_def gap_def)
  define cell where "cell = bres_at a b c (rises a s e) (rises b s e) (rises c s e)
    (gap a s e) (gap b s e) (gap c s e) half half s"
  have min: "unat (min m da) = unat m"
    using m da by (simp add: min_def word_le_nat_alt)
  have "room x (rises x s e) k s" if "k \<le> gap x s e" for x k
    using that s by (cases x) (auto simp: room_def rises_def gap_def cell_in_def)
  then have rooms: "room a (rises a s e) (unat m) s"
    "room b (rises b s e) (minor_steps (unat da) (unat db) half (unat m)) s"
    "room c (rises c s e) (minor_steps (unat da) (unat dc) half (unat m)) s"
    using m da db dc minor_steps_gap [OF m] err by auto
  have n0: "da = 0 \<and> unat m = 0 \<or> unat (da div 2) < unat da \<and> unat (da div 2) < unat da"
    using err m da by (auto simp: half_def unat_eq_0)
  have le: "unat da \<le> 2 ^ 31" "db \<le> da" "dc \<le> da"
    using gap31 dom da db dc by (simp_all add: word_le_nat_alt)
  have lst: "bres_list (functor_of a) (functor_of b) (functor_of c) da db dc
      (stride w a (rises a s e)) (stride w b (rises b s e)) (stride w c (rises c s e))
      (unat m) (da div 2) (da div 2) (enc w s) = map (\<lambda>i. enc w (cell i)) [0..<Suc (unat m)]"
    using bres_list_enc [OF abc le n0, of "rises a s e" s "rises b s e" "rises c s e" w]
      rooms da db dc by (simp add: cell_def half_def del: upt_Suc)
  have "[0..<Suc (unat m)] = 0 # [1..<Suc (unat m)]" by (simp add: upt_conv_Cons del: upt_Suc)
  moreover have "cell 0 = s" using err by (simp add: cell_def)
  ultimately have cs: "map (\<lambda>i. enc w (cell i)) [0..<Suc (unat m)] =
      map (enc w) (s # map cell [1..<Suc (unat m)])" by (simp del: upt_Suc)
  have cs': "s # map cell [1..<Suc (unat m)] = map cell [0..<Suc (unat m)]"
    using \<open>cell 0 = s\<close> \<open>[0..<Suc (unat m)] = 0 # [1..<Suc (unat m)]\<close> by (simp del: upt_Suc)
  have "cell_in w h (cell i)" if "i \<le> gap a s e" for i
    unfolding cell_def by (rule bres_at_in [OF abc s e that err])
  then have "\<forall>q \<in> set (s # map cell [1..<Suc (unat m)]). cell_in w h q"
    unfolding cs' using m by (auto simp: less_Suc_eq_le)
  moreover have "last (s # map cell [1..<Suc (unat m)]) = cell (unat m)"
    unfolding cs' by simp
  moreover have "cell (gap a s e) = e"
    unfolding cell_def by (rule bres_at_end [OF abc dom err])
  ultimately show ?thesis
    unfolding bresenham3D_def min bresenham3D_loop_foldM lst cs by metis
qed

section \<open>Casts of in-range doubles\<close>

definition cell_of :: "real \<Rightarrow> nat" where
  "cell_of r = nat \<lfloor>r\<rfloor>"

lemma cell_of_less: "0 \<le> r \<Longrightarrow> r < real n \<Longrightarrow> cell_of r < n"
  by (simp add: cell_of_def floor_less_iff nat_less_iff)

lemma cast_uint_cell:
  assumes "0 \<le> r" "r < real n" "n \<le> 2 ^ 32"
  shows "cast_uint r = Some (of_nat (cell_of r))"
proof -
  obtain w where w: "cast_uint r = Some w" "unat w = nat \<lfloor>r\<rfloor>"
    using cast_uint_nat [OF assms] by auto
  have "w = of_nat (unat w)" by simp
  then show ?thesis using w by (simp add: cell_of_def)
qed

lemma cast_int_cell:
  assumes "0 \<le> r" "r < real n" "n \<le> 2 ^ 31"
  shows "cast_int r = Some (of_nat (cell_of r))"
proof -
  have f: "0 \<le> \<lfloor>r\<rfloor>" "\<lfloor>r\<rfloor> < int n" using assms(1,2) by (auto simp: floor_less_iff)
  moreover have "int n \<le> 2 ^ 31"
    using assms(3) by (metis of_nat_le_iff of_nat_numeral of_nat_power)
  ultimately have "\<lfloor>r\<rfloor> < 2 ^ 31" "- (2 ^ 31) \<le> \<lfloor>r\<rfloor>" by linarith+
  moreover have "word_of_int \<lfloor>r\<rfloor> = (of_nat (cell_of r) :: u32)"
    using f(1) by (simp add: cell_of_def)
  ultimately show ?thesis
    using assms(1) by (simp add: cast_int_def Let_def trunc_of_nonneg)
qed

lemma sint_delta:
  assumes "m < 2 ^ 31" "n < 2 ^ 31"
  shows "sint (of_nat m - of_nat n :: u32) = int m - int n"
proof -
  have "of_nat m - of_nat n = (word_of_int (int m - int n) :: u32)" by simp
  moreover have "- (2 ^ 31) \<le> int m - int n" "int m - int n < 2 ^ 31" using assms by auto
  ultimately show ?thesis
    by (simp only: sint_sbintrunc') (simp add: signed_take_bit_int_eq_self)
qed

lemma unat_cabs_delta:
  assumes "m < 2 ^ 31" "n < 2 ^ 31"
  shows "unat (cabs (of_nat m - of_nat n)) = (if n < m then m - n else n - m)"
proof -
  have "- (of_nat m - of_nat n :: u32) = of_nat n - of_nat m" by simp
  moreover have "unat (of_nat k - of_nat j :: u32) = k - j" if "j \<le> k" "k < 2 ^ 31" for j k
    using that by (simp add: of_nat_diff [symmetric] unat_of_nat del: of_nat_diff)
  ultimately show ?thesis
    using assms by (auto simp: cabs_def sint_delta not_less)
qed

lemma ray_start_between:
  assumes "0 < dst \<Longrightarrow> real (unat ml) \<le> dst" "0 \<le> c0" "0 \<le> c1" "c0 < n" "c1 < n"
  shows "0 \<le> ray_start dst ml c0 c1 \<and> ray_start dst ml c0 c1 < n"
proof (cases "0 < dst")
  case True
  define t where "t = real (unat ml) / dst"
  have t: "0 \<le> t" "t \<le> 1" using True assms(1) by (simp_all add: t_def)
  have eq: "ray_start dst ml c0 c1 = (1 - t) * c0 + t * c1"
    using True by (simp add: ray_start_def t_def field_simps)
  have "(1 - t) * c0 + t * c1 < (1 - t) * n + t * n"
  proof (cases "t = 0")
    case False
    then have "t * c1 < t * n" using t(1) assms(5) by simp
    moreover have "(1 - t) * c0 \<le> (1 - t) * n" using t(2) assms(4) by (intro mult_left_mono) auto
    ultimately show ?thesis by linarith
  qed (use assms(4) in simp)
  moreover have "(1 - t) * n + t * n = n" by (simp add: algebra_simps)
  moreover have "0 \<le> (1 - t) * c0 + t * c1"
    using t assms(2,3) by (intro add_nonneg_nonneg mult_nonneg_nonneg) auto
  ultimately show ?thesis unfolding eq by simp
next
  case False
  then show ?thesis using assms by (simp add: ray_start_def)
qed

lemma cast_scaled:
  assumes "0 \<le> sc" "sc \<le> 1"
  shows "\<exists>m. cast_uint (sc * real (unat (d::u32))) = Some m \<and> unat m \<le> unat d \<and>
    (sc = 1 \<longrightarrow> unat m = unat d)"
proof -
  let ?r = "sc * real (unat d)"
  have r: "0 \<le> ?r" "?r \<le> real (unat d)"
    using assms by (auto intro: mult_left_le_one_le)
  have d: "unat d < 2 ^ 32" using unsigned_less [of d] by simp
  have lt: "?r < real (Suc (unat d))" "Suc (unat d) \<le> 2 ^ 32" using r d by auto
  obtain m where m: "cast_uint ?r = Some m" "unat m = nat \<lfloor>?r\<rfloor>" "unat m < Suc (unat d)"
    using cast_uint_nat [OF r(1) lt] by blast
  then show ?thesis by auto
qed

lemma cell_delta_cells:
  assumes "0 \<le> c1" "c1 < real n" "0 \<le> c0" "c0 < real n" "n \<le> 2 ^ 31"
  shows "cell_delta c1 c0 = Some (of_nat (cell_of c1) - of_nat (cell_of c0))"
  using cast_int_cell [OF assms(1,2,5)] cast_int_cell [OF assms(3,4,5)] by (simp add: cell_delta_def)

lemma gap_cabs:
  assumes "coord a s < 2 ^ 31" "coord a e < 2 ^ 31"
  shows "unat (cabs (of_nat (coord a e) - of_nat (coord a s))) = gap a s e"
    and "sign3 (of_nat (coord a e) - of_nat (coord a s)) = (if rises a s e then 1 else - 1)"
  using assms by (auto simp: unat_cabs_delta gap_def sign3_def sint_delta rises_def)

lemma ray_start_0: "ray_start dst 0 c0 c1 = c0"
  by (simp add: ray_start_def)

lemma ray_scale_bounds: "0 \<le> dst \<Longrightarrow> 0 \<le> ray_scale dst ml \<and> ray_scale dst ml \<le> 1"
  by (simp add: ray_scale_def)

end
