(* ===== verification/Voxel_Lines.thy ===== *)
theory Voxel_Lines
  imports Voxel_Grid Ray_Cells
begin

text \<open>
  The 3D ray tracing of \<open>nav2_voxel_grid\<close>: \<open>bresenham3D\<close>, the functors it is instantiated with,
  \<open>raytraceLine\<close> and the three line operations. An action gets the column offset and the mask of
  the visited voxel and updates its own state (the columns, and for \<open>ClearVoxelInMap\<close> the costmap).
\<close>

section \<open>Actions\<close>

definition MarkVoxel_at :: "cursor \<Rightarrow> u32 list \<Rightarrow> u32 list option" where
  "MarkVoxel_at p data =
     do { col \<leftarrow> load data (unat (fst p)); store data (unat (fst p)) (col OR snd p) }"

definition ClearVoxel_at :: "cursor \<Rightarrow> u32 list \<Rightarrow> u32 list option" where
  "ClearVoxel_at p data =
     do { col \<leftarrow> load data (unat (fst p)); store data (unat (fst p)) (col AND NOT (snd p)) }"

definition ClearVoxelInMap_at ::
    "u32 \<Rightarrow> u32 \<Rightarrow> u8 \<Rightarrow> u8 \<Rightarrow> cursor \<Rightarrow> u32 list \<times> u8 list \<Rightarrow> (u32 list \<times> u8 list) option" where
  "ClearVoxelInMap_at unknown_clear_threshold marked_clear_threshold free_cost unknown_cost p dc = do {
     let i = unat (fst p);
     old \<leftarrow> load (fst dc) i;
     let col = old AND NOT (snd p);
     data \<leftarrow> store (fst dc) i col;
     if bitsBelowThreshold (marked_bits col) marked_clear_threshold then do {
       costmap \<leftarrow> store (snd dc) i
         (if bitsBelowThreshold (unknown_bits col) unknown_clear_threshold
          then free_cost else unknown_cost);
       Some (data, costmap)
     } else Some (data, snd dc)
   }"

section \<open>\<open>raytraceLine\<close>\<close>

definition ray_dist :: "real \<Rightarrow> real \<Rightarrow> real \<Rightarrow> real \<Rightarrow> real \<Rightarrow> real \<Rightarrow> real" where
  "ray_dist x0 y0 z0 x1 y1 z1 =
     sqrt ((x0 - x1) * (x0 - x1) + (y0 - y1) * (y0 - y1) + (z0 - z1) * (z0 - z1))"

definition raytraceLine3D ::
    "u32 \<Rightarrow> (cursor \<Rightarrow> 's \<Rightarrow> 's option) \<Rightarrow> real \<Rightarrow> real \<Rightarrow> real \<Rightarrow> real \<Rightarrow> real \<Rightarrow> real \<Rightarrow> u32 \<Rightarrow> u32 \<Rightarrow>
     's \<Rightarrow> 's option" where
  "raytraceLine3D size_x act x0 y0 z0 x1 y1 z1 max_length min_length s = do {
     let dst = ray_dist x0 y0 z0 x1 y1 z1;
     d \<leftarrow> cast_uint dst;
     if d < min_length then Some s
     else do {
       let scale = ray_scale dst max_length;
       let mx = ray_start dst min_length x0 x1;
       let my = ray_start dst min_length y0 y1;
       let mz = ray_start dst min_length z0 z1;
       dx \<leftarrow> cell_delta x1 mx;
       dy \<leftarrow> cell_delta y1 my;
       dz \<leftarrow> cell_delta z1 mz;
       let adx = cabs dx; let ady = cabs dy; let adz = cabs dz;
       let ox = sign3 dx; let oy = sign3 dy * size_x; let oz = sign3 dz;
       ux \<leftarrow> cast_uint mx;
       uy \<leftarrow> cast_uint my;
       uz \<leftarrow> cast_uint mz;
       let p = (uy * size_x + ux, push_bit (unat uz) line_mask);
       if max ady adz \<le> adx then do {
         n \<leftarrow> cast_uint (scale * real (unat adx));
         bresenham3D act GridOffset GridOffset ZOffset adx ady adz (adx div 2) (adx div 2)
           ox oy oz p n s
       } else if adz \<le> ady then do {
         n \<leftarrow> cast_uint (scale * real (unat ady));
         bresenham3D act GridOffset GridOffset ZOffset ady adx adz (ady div 2) (ady div 2)
           oy ox oz p n s
       } else do {
         n \<leftarrow> cast_uint (scale * real (unat adz));
         bresenham3D act ZOffset GridOffset GridOffset adz adx ady (adz div 2) (adz div 2)
           oz ox oy p n s
       }
     }
   }"

section \<open>The line operations\<close>

text \<open>Only upper bounds are checked; the coordinates are compared as doubles.\<close>

definition line_out_of_grid ::
    "voxel_grid \<Rightarrow> real \<Rightarrow> real \<Rightarrow> real \<Rightarrow> real \<Rightarrow> real \<Rightarrow> real \<Rightarrow> bool" where
  "line_out_of_grid g x0 y0 z0 x1 y1 z1 \<longleftrightarrow>
     real (unat (vg_size_x g)) \<le> x0 \<or> real (unat (vg_size_y g)) \<le> y0 \<or>
     real (unat (vg_size_z g)) \<le> z0 \<or> real (unat (vg_size_x g)) \<le> x1 \<or>
     real (unat (vg_size_y g)) \<le> y1 \<or> real (unat (vg_size_z g)) \<le> z1"

definition markVoxelLine ::
    "voxel_grid \<Rightarrow> real \<Rightarrow> real \<Rightarrow> real \<Rightarrow> real \<Rightarrow> real \<Rightarrow> real \<Rightarrow> u32 \<Rightarrow> voxel_grid option" where
  "markVoxelLine g x0 y0 z0 x1 y1 z1 max_length =
     (if line_out_of_grid g x0 y0 z0 x1 y1 z1 then Some g
      else map_option (\<lambda>d. g\<lparr>vg_data := d\<rparr>)
        (raytraceLine3D (vg_size_x g) MarkVoxel_at x0 y0 z0 x1 y1 z1 max_length 0 (vg_data g)))"

definition clearVoxelLine ::
    "voxel_grid \<Rightarrow> real \<Rightarrow> real \<Rightarrow> real \<Rightarrow> real \<Rightarrow> real \<Rightarrow> real \<Rightarrow> u32 \<Rightarrow> u32 \<Rightarrow> voxel_grid option" where
  "clearVoxelLine g x0 y0 z0 x1 y1 z1 max_length min_length =
     (if line_out_of_grid g x0 y0 z0 x1 y1 z1 then Some g
      else map_option (\<lambda>d. g\<lparr>vg_data := d\<rparr>)
        (raytraceLine3D (vg_size_x g) ClearVoxel_at x0 y0 z0 x1 y1 z1 max_length min_length
          (vg_data g)))"

definition clearVoxelLineInMap ::
    "voxel_grid \<Rightarrow> real \<Rightarrow> real \<Rightarrow> real \<Rightarrow> real \<Rightarrow> real \<Rightarrow> real \<Rightarrow> u8 list option \<Rightarrow> u32 \<Rightarrow> u32 \<Rightarrow>
     u8 \<Rightarrow> u8 \<Rightarrow> u32 \<Rightarrow> u32 \<Rightarrow> voxel_grid option" where
  "clearVoxelLineInMap g x0 y0 z0 x1 y1 z1 map_2d unknown_threshold mark_threshold
     free_cost unknown_cost max_length min_length =
     (let g' = g\<lparr>vg_costmap := map_2d\<rparr> in
      case map_2d of
        None \<Rightarrow> clearVoxelLine g' x0 y0 z0 x1 y1 z1 max_length min_length
      | Some cm \<Rightarrow>
          if line_out_of_grid g' x0 y0 z0 x1 y1 z1 then Some g'
          else map_option (\<lambda>dc. g'\<lparr>vg_data := fst dc, vg_costmap := Some (snd dc)\<rparr>)
            (raytraceLine3D (vg_size_x g)
              (ClearVoxelInMap_at unknown_threshold mark_threshold free_cost unknown_cost)
              x0 y0 z0 x1 y1 z1 max_length min_length (vg_data g, cm)))"

section \<open>The ray between two points of the grid\<close>

definition in_box :: "u32 \<Rightarrow> u32 \<Rightarrow> u32 \<Rightarrow> real \<Rightarrow> real \<Rightarrow> real \<Rightarrow> bool" where
  "in_box w h d x y z \<longleftrightarrow> 0 \<le> x \<and> x < real (unat w) \<and> 0 \<le> y \<and> y < real (unat h) \<and>
     0 \<le> z \<and> z < real (unat d)"

definition cell3 :: "real \<Rightarrow> real \<Rightarrow> real \<Rightarrow> coords" where
  "cell3 x y z = (cell_of x, cell_of y, cell_of z)"

lemma cell3_in:
  "in_box w h d x y z \<Longrightarrow> unat d \<le> 16 \<Longrightarrow> cell_in w h (cell3 x y z)"
  by (auto simp: in_box_def cell_in_def cell3_def cell_of_less intro: less_le_trans [OF cell_of_less])

lemma ray_dist_less:
  assumes "in_box w h d x0 y0 z0" "in_box w h d x1 y1 z1"
    and "unat w \<le> 2 ^ 31" "unat h \<le> 2 ^ 31" "unat d \<le> 16"
  shows "0 \<le> ray_dist x0 y0 z0 x1 y1 z1" "ray_dist x0 y0 z0 x1 y1 z1 < 2 ^ 32"
proof -
  have sq: "(a - b) * (a - b) \<le> 2 ^ 62" if "0 \<le> a" "0 \<le> b" "a \<le> 2 ^ 31" "b \<le> 2 ^ 31" for a b :: real
  proof -
    have "\<bar>a - b\<bar> \<le> 2 ^ 31" using that by linarith
    then have "\<bar>a - b\<bar> * \<bar>a - b\<bar> \<le> 2 ^ 31 * 2 ^ 31" by (intro mult_mono) auto
    then show ?thesis by simp
  qed
  have le: "real n \<le> 2 ^ 31" if "n \<le> 2 ^ 31" for n
    using that of_nat_le_iff [of n "2 ^ 31", where 'a = real] by simp
  have r: "real (unat w) \<le> 2 ^ 31" "real (unat h) \<le> 2 ^ 31" "real (unat d) \<le> 2 ^ 31"
    using assms(3-5) by (auto intro!: le)
  have "(x0 - x1) * (x0 - x1) \<le> 2 ^ 62" "(y0 - y1) * (y0 - y1) \<le> 2 ^ 62"
    "(z0 - z1) * (z0 - z1) \<le> 2 ^ 62"
    using assms(1,2) r by (intro sq; unfold in_box_def; linarith)+
  then have "(x0 - x1) * (x0 - x1) + (y0 - y1) * (y0 - y1) + (z0 - z1) * (z0 - z1) < (2 ^ 32) ^ 2"
    by simp
  then have "ray_dist x0 y0 z0 x1 y1 z1 < sqrt ((2 ^ 32) ^ 2)"
    unfolding ray_dist_def by (rule real_sqrt_less_mono)
  then show "ray_dist x0 y0 z0 x1 y1 z1 < 2 ^ 32" by simp
  show "0 \<le> ray_dist x0 y0 z0 x1 y1 z1" by (simp add: ray_dist_def)
qed

lemma ray_start_box:
  assumes "in_box w h d x0 y0 z0" "in_box w h d x1 y1 z1" "real (unat ml) \<le> D"
  shows "in_box w h d (ray_start D ml x0 x1) (ray_start D ml y0 y1) (ray_start D ml z0 z1)"
  using assms ray_start_between [of D ml x0 x1 "real (unat w)"]
    ray_start_between [of D ml y0 y1 "real (unat h)"] ray_start_between [of D ml z0 z1 "real (unat d)"]
  by (simp add: in_box_def)

lemma raytraceLine3D_unfold:
  assumes "cast_uint (ray_dist x0 y0 z0 x1 y1 z1) = Some ud" "\<not> ud < min_length"
    and "D = ray_dist x0 y0 z0 x1 y1 z1" "sc = ray_scale D max_length"
    and "cell_delta x1 (ray_start D min_length x0 x1) = Some dx"
    and "cell_delta y1 (ray_start D min_length y0 y1) = Some dy"
    and "cell_delta z1 (ray_start D min_length z0 z1) = Some dz"
    and "cast_uint (ray_start D min_length x0 x1) = Some ux"
    and "cast_uint (ray_start D min_length y0 y1) = Some uy"
    and "cast_uint (ray_start D min_length z0 z1) = Some uz"
    and "cast_uint (sc * real (unat (cabs dx))) = Some nx"
    and "cast_uint (sc * real (unat (cabs dy))) = Some ny"
    and "cast_uint (sc * real (unat (cabs dz))) = Some nz"
    and "p = (uy * w + ux, push_bit (unat uz) line_mask)"
    and "adx = cabs dx" "ady = cabs dy" "adz = cabs dz"
  shows "raytraceLine3D w act x0 y0 z0 x1 y1 z1 max_length min_length st =
    (if max ady adz \<le> adx
     then bresenham3D act GridOffset GridOffset ZOffset adx ady adz (adx div 2) (adx div 2)
       (sign3 dx) (sign3 dy * w) (sign3 dz) p nx st
     else if adz \<le> ady
     then bresenham3D act GridOffset GridOffset ZOffset ady adx adz (ady div 2) (ady div 2)
       (sign3 dy * w) (sign3 dx) (sign3 dz) p ny st
     else bresenham3D act ZOffset GridOffset GridOffset adz adx ady (adz div 2) (adz div 2)
       (sign3 dz) (sign3 dx) (sign3 dy * w) p nz st)"
proof -
  note eqs = assms(1,2,5-13) [unfolded assms(3,4)] assms(14-17)
  show ?thesis
    by (simp only: raytraceLine3D_def Let_def eqs bind.bind_lunit if_False)
qed

text \<open>
  \<open>raytraceLine\<close> between two points inside the box performs all its casts, and folds the action
  over cells of the grid: from the cell of its start point, and, when \<open>max_length\<close> is no
  limitation, to the cell of its end point.
\<close>

lemma raytraceLine3D_cells:
  assumes p0: "in_box w h d x0 y0 z0" and p1: "in_box w h d x1 y1 z1"
    and big: "unat w \<le> 2 ^ 31" "unat h \<le> 2 ^ 31" and d: "unat d \<le> 16"
  shows "\<exists>qs. raytraceLine3D w act x0 y0 z0 x1 y1 z1 max_length min_length st =
      foldM act (map (enc w) qs) st \<and> (\<forall>q \<in> set qs. cell_in w h q) \<and>
      (min_length = 0 \<longrightarrow> qs \<noteq> [] \<and> hd qs = cell3 x0 y0 z0 \<and>
        (ray_dist x0 y0 z0 x1 y1 z1 \<le> real (unat max_length) \<longrightarrow> last qs = cell3 x1 y1 z1))"
proof -
  define D where "D = ray_dist x0 y0 z0 x1 y1 z1"
  have D: "0 \<le> D" "D < 2 ^ 32"
    unfolding D_def using ray_dist_less [OF p0 p1 big d] by auto
  obtain ud where ud: "cast_uint D = Some ud" "unat ud = nat \<lfloor>D\<rfloor>"
    using cast_uint_nat [of D "2 ^ 32"] D by auto
  show ?thesis
  proof (cases "ud < min_length")
    case True
    then have "raytraceLine3D w act x0 y0 z0 x1 y1 z1 max_length min_length st = foldM act (map (enc w) []) st"
      by (simp add: raytraceLine3D_def D_def [symmetric] ud)
    moreover have "min_length \<noteq> 0" using True by (auto simp: word_less_nat_alt)
    ultimately show ?thesis by (intro exI [of _ "[]"]) simp
  next
    case False
    have ml: "real (unat min_length) \<le> D"
    proof -
      have "unat min_length \<le> nat \<lfloor>D\<rfloor>" using False ud(2) by (simp add: word_less_nat_alt)
      then show ?thesis using D(1) by linarith
    qed
    define mx my mz where "mx = ray_start D min_length x0 x1"
      and "my = ray_start D min_length y0 y1" and "mz = ray_start D min_length z0 z1"
    have pm: "in_box w h d mx my mz"
      unfolding mx_def my_def mz_def by (rule ray_start_box [OF p0 p1 ml])
    define s e where "s = cell3 mx my mz" and "e = cell3 x1 y1 z1"
    have s: "cell_in w h s" and e: "cell_in w h e"
      unfolding s_def e_def using cell3_in pm p1 d by blast+
    have lt: "coord a s < 2 ^ 31" "coord a e < 2 ^ 31" for a
      using s e big by (cases a; simp add: cell_in_def)+
    have cd: "cell_delta c1 c0 = Some (of_nat (cell_of c1) - of_nat (cell_of c0))"
      if "0 \<le> c1" "c1 < real n" "0 \<le> c0" "c0 < real n" "n \<le> 2 ^ 31" for c0 c1 n
      using that by (rule cell_delta_cells)
    have deltas: "cell_delta x1 mx = Some (of_nat (coord AX e) - of_nat (coord AX s))"
      "cell_delta y1 my = Some (of_nat (coord AY e) - of_nat (coord AY s))"
      "cell_delta z1 mz = Some (of_nat (coord AZ e) - of_nat (coord AZ s))"
      using pm p1 big d cd [of x1 "unat w" mx] cd [of y1 "unat h" my] cd [of z1 "unat d" mz]
      by (simp_all add: in_box_def s_def e_def cell3_def)
    have casts: "cast_uint mx = Some (of_nat (coord AX s))" "cast_uint my = Some (of_nat (coord AY s))"
      "cast_uint mz = Some (of_nat (coord AZ s))"
      using pm big d cast_uint_cell [of mx "unat w"] cast_uint_cell [of my "unat h"]
        cast_uint_cell [of mz "unat d"]
      by (simp_all add: in_box_def s_def cell3_def)
    have z16: "unat (of_nat (coord AZ s) :: u32) = coord AZ s"
      using s by (simp add: cell_in_def unat_of_nat)
    define dl where "dl a = cabs (of_nat (coord a e) - of_nat (coord a s) :: u32)" for a
    have dl: "unat (dl a) = gap a s e" for a using gap_cabs(1) lt by (simp add: dl_def)
    define st3 where "st3 a = sign3 (of_nat (coord a e) - of_nat (coord a s))" for a
    have st3: "st3 a = (if rises a s e then 1 else - 1)" for a
      using gap_cabs(2) lt by (simp add: st3_def)
    have str: "st3 AX = stride w AX (rises AX s e)" "st3 AY * w = stride w AY (rises AY s e)"
      "st3 AZ = stride w AZ (rises AZ s e)" by (simp_all add: st3)
    have p: "(of_nat (coord AY s) * w + of_nat (coord AX s), push_bit (coord AZ s) line_mask) = enc w s"
      by (simp add: s_def cell3_def)
    define sc where "sc = ray_scale D max_length"
    have sc: "0 \<le> sc" "sc \<le> 1" using ray_scale_bounds D(1) by (simp_all add: sc_def)
    define m where "m a = the (cast_uint (sc * real (unat (dl a))))" for a
    have m: "cast_uint (sc * real (unat (dl a))) = Some (m a)" "unat (m a) \<le> unat (dl a)"
      "sc = 1 \<longrightarrow> unat (m a) = unat (dl a)" for a
      using cast_scaled [OF sc, of "dl a"] by (auto simp: m_def)
    define run where "run a b c = bresenham3D act (functor_of a) (functor_of b) (functor_of c)
        (dl a) (dl b) (dl c) (dl a div 2) (dl a div 2) (stride w a (rises a s e))
        (stride w b (rises b s e)) (stride w c (rises c s e)) (enc w s) (m a) st" for a b c
    let ?trace = "raytraceLine3D w act x0 y0 z0 x1 y1 z1 max_length min_length st"
    have body: "?trace =
        (if max (dl AY) (dl AZ) \<le> dl AX then run AX AY AZ
         else if dl AZ \<le> dl AY then run AY AX AZ else run AZ AX AY)"
      unfolding run_def functor_of.simps str [symmetric] st3_def
      by (rule raytraceLine3D_unfold [OF ud(1) [unfolded D_def] False D_def sc_def
            deltas [unfolded mx_def my_def mz_def] casts [unfolded mx_def my_def mz_def]
            m(1) [of AX, unfolded dl_def] m(1) [of AY, unfolded dl_def]
            m(1) [of AZ, unfolded dl_def] _ dl_def dl_def dl_def])
        (simp only: z16 p)
    have g: "(dl a \<le> dl b) = (gap a s e \<le> gap b s e)" for a b
      by (simp only: word_le_nat_alt dl)
    obtain a b c where abc: "distinct [a, b, c]" "gap b s e \<le> gap a s e" "gap c s e \<le> gap a s e"
      and run: "?trace = run a b c"
    proof (cases "gap AY s e \<le> gap AX s e \<and> gap AZ s e \<le> gap AX s e")
      case True
      with body show ?thesis by (intro that [of AX AY AZ]) (simp_all only: max.bounded_iff g, simp_all)
    next
      case no: False
      show ?thesis
      proof (cases "gap AZ s e \<le> gap AY s e")
        case True
        with no have "gap AX s e \<le> gap AY s e" by linarith
        with True no body show ?thesis
          by (intro that [of AY AX AZ]) (simp_all only: max.bounded_iff g, simp_all)
      next
        case False
        with no have "gap AX s e \<le> gap AZ s e" "gap AY s e \<le> gap AZ s e" by linarith+
        with False no body show ?thesis
          by (intro that [of AZ AX AY]) (simp_all only: max.bounded_iff g, simp_all)
      qed
    qed
    obtain qs where qs: "run a b c = foldM act (map (enc w) (s # qs)) st"
      "\<forall>q \<in> set (s # qs). cell_in w h q" "unat (m a) = gap a s e \<longrightarrow> last (s # qs) = e"
      using bresenham3D_cells [OF abc(1) s e big abc(2,3) dl dl dl, of "m a" act st] m(2) [of a] dl [of a]
      unfolding run_def by auto
    have "s = cell3 x0 y0 z0" if "min_length = 0"
      using that by (simp add: s_def mx_def my_def mz_def ray_start_0)
    moreover have "unat (m a) = gap a s e" if "D \<le> real (unat max_length)"
      using that m(3) [of a] dl [of a] by (simp add: sc_def ray_scale_def)
    ultimately show ?thesis
      using run qs by (intro exI [of _ "s # qs"]) (auto simp: e_def D_def)
  qed
qed

section \<open>The interface between the ray tracer and its actions\<close>

text \<open>
  An action visits one column of its state. It promises to succeed on a column inside the arrays
  and to keep the arrays' length and a state invariant; the tracer then succeeds on every ray
  inside the grid, whatever \<open>max_length\<close> and \<open>min_length\<close>.
\<close>

locale ray_action =
  fixes act :: "cursor \<Rightarrow> 's \<Rightarrow> 's option"
    and columns :: "'s \<Rightarrow> nat"
    and inv :: "'s \<Rightarrow> bool"
  assumes act_total: "inv s \<Longrightarrow> unat off < columns s \<Longrightarrow> k < 16 \<Longrightarrow>
      \<exists>s'. act (off, push_bit k line_mask) s = Some s' \<and> inv s' \<and> columns s' = columns s"
begin

lemma act_cell:
  assumes "inv s" "columns s = unat w * unat h" "unat w * unat h < 2 ^ 32" "cell_in w h q"
  shows "\<exists>s'. act (enc w q) s = Some s' \<and> inv s' \<and> columns s' = columns s"
proof -
  obtain x y z where q: "q = (x, y, z)" by (cases q)
  have b: "x < unat w" "y < unat h" "z < 16" using assms(4) q by (auto simp: cell_in_def)
  have lt: "y * unat w + x < unat w * unat h" using b(1,2) by (rule cell_index_less)
  have "of_nat y * w + of_nat x = (of_nat (y * unat w + x) :: u32)" by simp
  then have "unat (of_nat y * w + of_nat x) = y * unat w + x"
    using lt assms(3) by (simp only: unat_of_nat) simp
  then show ?thesis
    using act_total [OF assms(1), of "of_nat y * w + of_nat x" z] assms(2) lt b(3) q by simp
qed

lemma ray_total:
  assumes "inv s" "columns s = unat w * unat h" "unat w * unat h < 2 ^ 32"
    and "in_box w h d x0 y0 z0" "in_box w h d x1 y1 z1"
    and "unat w \<le> 2 ^ 31" "unat h \<le> 2 ^ 31" "unat d \<le> 16"
  shows "\<exists>s'. raytraceLine3D w act x0 y0 z0 x1 y1 z1 max_length min_length s = Some s' \<and>
    inv s' \<and> columns s' = columns s"
proof -
  obtain qs where qs: "raytraceLine3D w act x0 y0 z0 x1 y1 z1 max_length min_length s =
      foldM act (map (enc w) qs) s" "\<forall>q \<in> set qs. cell_in w h q"
    using raytraceLine3D_cells [OF assms(4-8)] by metis
  have "\<exists>s'. foldM act (map (enc w) qs) s = Some s' \<and> (inv s' \<and> columns s' = columns s)"
    using qs(2) act_cell assms(1-3) by (intro foldM_total) auto
  then show ?thesis using qs(1) by auto
qed

end

lemma bit_push_line_mask: "k < 16 \<Longrightarrow> push_bit k line_mask = voxel_mask (of_nat k)"
  by (intro bit_eqI) (auto simp: bit_push_bit_iff bit_line_mask bit_voxel_mask unat_of_nat)

lemma unat_of_height: "k < 16 \<Longrightarrow> unat (of_nat k :: u32) = k"
  by (simp add: unat_of_nat)

definition cols_ok :: "u32 list \<Rightarrow> bool" where
  "cols_ok xs \<longleftrightarrow> (\<forall>c \<in> set xs. col_ok c)"

lemma cols_ok_update: "cols_ok xs \<Longrightarrow> col_ok v \<Longrightarrow> cols_ok (xs[i := v])"
  using set_update_subset_insert [of xs i v] by (auto simp: cols_ok_def)

lemma cols_ok_nth: "cols_ok xs \<Longrightarrow> i < length xs \<Longrightarrow> col_ok (xs ! i)"
  by (simp add: cols_ok_def)

lemmas act_evaluation = mem_simps bit_push_line_mask unat_of_height Let_def
  cols_ok_update cols_ok_nth col_ok_mark col_ok_clear

interpretation mark_ray: ray_action MarkVoxel_at length cols_ok
  by unfold_locales (simp add: MarkVoxel_at_def act_evaluation)

interpretation clear_ray: ray_action ClearVoxel_at length cols_ok
  by unfold_locales (simp add: ClearVoxel_at_def act_evaluation)

interpretation clear_map_ray: ray_action "ClearVoxelInMap_at ut mt fc uc" "\<lambda>dc. length (fst dc)"
    "\<lambda>dc. length (snd dc) = length (fst dc) \<and> cols_ok (fst dc)"
  by unfold_locales (simp add: ClearVoxelInMap_at_def act_evaluation)

text \<open>Folding \<open>MarkVoxel\<close> over cells marks exactly those voxels.\<close>

lemma vg_wf_cols: "vg_wf g \<longleftrightarrow> vg_size_z g \<le> 16 \<and>
    unat (vg_size_x g) * unat (vg_size_y g) < 2 ^ 32 \<and>
    length (vg_data g) = unat (vg_size_x g) * unat (vg_size_y g) \<and> cols_ok (vg_data g)"
  by (simp add: vg_wf_def cols_ok_def)

lemma enc_index:
  assumes "cell_in w h (x, y, z)" "unat w * unat h < 2 ^ 32"
  shows "unat (fst (enc w (x, y, z))) = y * unat w + x" "y * unat w + x < unat w * unat h"
proof -
  have b: "x < unat w" "y < unat h" using assms(1) by (auto simp: cell_in_def)
  then show lt: "y * unat w + x < unat w * unat h" by (rule cell_index_less)
  have "of_nat y * w + of_nat x = (of_nat (y * unat w + x) :: u32)" by simp
  then show "unat (fst (enc w (x, y, z))) = y * unat w + x"
    using lt assms(2) by (simp only: enc.simps fst_conv unat_of_nat) simp
qed

lemma mark_cells:
  assumes "\<forall>q \<in> set qs. cell_in w h q" "unat w * unat h < 2 ^ 32" "length data = unat w * unat h"
    and "x < unat w" "y < unat h" "z < 16"
  shows "\<exists>data'. foldM MarkVoxel_at (map (enc w) qs) data = Some data' \<and>
    length data' = length data \<and> col_status (data' ! (y * unat w + x)) z =
      (if (x, y, z) \<in> set qs then MARKED else col_status (data ! (y * unat w + x)) z)"
  using assms(1,3)
proof (induction qs arbitrary: data)
  case Nil
  then show ?case by simp
next
  case (Cons q qs)
  obtain a b k where q: "q = (a, b, k)" by (cases q)
  have qi: "cell_in w h (a, b, k)" using Cons.prems(1) q by simp
  note ix = enc_index [OF qi assms(2)]
  let ?i = "b * unat w + a" and ?j = "y * unat w + x"
  define d1 where "d1 = data[?i := data ! ?i OR voxel_mask (of_nat k)]"
  have k: "k < 16" using qi by (simp add: cell_in_def)
  have step: "MarkVoxel_at (enc w q) data = Some d1"
    using ix Cons.prems(2) k q by (simp add: MarkVoxel_at_def d1_def act_evaluation)
  have j: "?j < length data" using cell_index_less [OF assms(4,5)] Cons.prems(2) by simp
  have d1: "length d1 = length data" "col_status (d1 ! ?j) z =
      (if (x, y, z) = q then MARKED else col_status (data ! ?j) z)"
  proof -
    show "length d1 = length data" by (simp add: d1_def)
    have "?j = ?i \<longleftrightarrow> x = a \<and> y = b"
      using cell_index_inj [of y "unat w" x b a] assms(4) qi by (auto simp: cell_in_def)
    then show "col_status (d1 ! ?j) z = (if (x, y, z) = q then MARKED else col_status (data ! ?j) z)"
      using j k assms(6) q by (auto simp: d1_def col_status_or_mask unat_of_height)
  qed
  obtain data' where "foldM MarkVoxel_at (map (enc w) qs) d1 = Some data'"
    "length data' = length d1" "col_status (data' ! ?j) z =
      (if (x, y, z) \<in> set qs then MARKED else col_status (d1 ! ?j) z)"
    using Cons.IH [of d1] Cons.prems d1(1) by auto
  then show ?case using step d1 by auto
qed

section \<open>Properties\<close>

lemma getVoxel_cell:
  assumes "vg_wf g" "a < vg_size_x g" "b < vg_size_y g" "c < vg_size_z g"
  shows "getVoxel g a b c =
    Some (col_status (vg_data g ! (unat b * unat (vg_size_x g) + unat a)) (unat c))"
proof -
  have "\<not> out_of_grid g a b c" using assms(2-4) by (auto simp: out_of_grid_def)
  then show ?thesis using vg_index_less(3) [OF assms(1)] by (simp add: getVoxel_status [OF assms(1)])
qed

definition voxel_at :: "real \<Rightarrow> u32" where
  "voxel_at r = of_nat (cell_of r)"

lemma voxel_at_less:
  "0 \<le> r \<Longrightarrow> r < real (unat n) \<Longrightarrow> voxel_at r < n \<and> unat (voxel_at r) = cell_of r"
proof -
  assume r: "0 \<le> r" "r < real (unat n)"
  have n: "cell_of r < unat n" using r by (rule cell_of_less)
  also have "unat n < 2 ^ 32" using unsigned_less [of n, where 'a = nat] by simp
  finally have "unat (voxel_at r) = cell_of r" by (simp add: voxel_at_def unat_of_nat)
  with n show "voxel_at r < n \<and> unat (voxel_at r) = cell_of r" by (simp add: word_less_nat_alt)
qed

text \<open>C25. On a well-formed grid \<open>markVoxelLine\<close> between two points of the grid never leaves the
  memory of the grid; it marks the voxel of the start point, and that of the end point when the
  line is not longer than \<open>max_length\<close>; every other voxel keeps its status or is marked.\<close>

theorem markVoxelLine_marks:
  assumes "vg_wf g" "unat (vg_size_x g) \<le> 2 ^ 31" "unat (vg_size_y g) \<le> 2 ^ 31"
    and "in_box (vg_size_x g) (vg_size_y g) (vg_size_z g) x0 y0 z0"
    and "in_box (vg_size_x g) (vg_size_y g) (vg_size_z g) x1 y1 z1"
  shows "\<exists>g'. markVoxelLine g x0 y0 z0 x1 y1 z1 max_length = Some g' \<and> vg_wf g' \<and> same_shape g g' \<and>
    getVoxel g' (voxel_at x0) (voxel_at y0) (voxel_at z0) = Some MARKED \<and>
    (ray_dist x0 y0 z0 x1 y1 z1 \<le> real (unat max_length) \<longrightarrow>
      getVoxel g' (voxel_at x1) (voxel_at y1) (voxel_at z1) = Some MARKED) \<and>
    (\<forall>a b c. getVoxel g' a b c = getVoxel g a b c \<or> getVoxel g' a b c = Some MARKED)"
proof -
  let ?w = "vg_size_x g" and ?h = "vg_size_y g"
  have wf: "unat (vg_size_z g) \<le> 16" "unat ?w * unat ?h < 2 ^ 32"
    "length (vg_data g) = unat ?w * unat ?h" "cols_ok (vg_data g)"
    using assms(1) by (auto simp: vg_wf_cols word_le_nat_alt)
  obtain qs where qs: "raytraceLine3D ?w MarkVoxel_at x0 y0 z0 x1 y1 z1 max_length 0 (vg_data g) =
        foldM MarkVoxel_at (map (enc ?w) qs) (vg_data g)" "\<forall>q \<in> set qs. cell_in ?w ?h q"
      "qs \<noteq> []" "hd qs = cell3 x0 y0 z0"
      "ray_dist x0 y0 z0 x1 y1 z1 \<le> real (unat max_length) \<longrightarrow> last qs = cell3 x1 y1 z1"
    using raytraceLine3D_cells [OF assms(4,5,2,3) wf(1)] by metis
  obtain data' where data': "raytraceLine3D ?w MarkVoxel_at x0 y0 z0 x1 y1 z1 max_length 0 (vg_data g) = Some data'"
      "cols_ok data'" "length data' = length (vg_data g)"
    using mark_ray.ray_total [OF wf(4,3,2) assms(4,5,2,3) wf(1)] by metis
  define g' where "g' = g\<lparr>vg_data := data'\<rparr>"
  have wf': "vg_wf g'" using assms(1) data'(2,3) by (simp add: g'_def vg_wf_cols)
  have get: "getVoxel g' a b c =
      (if (unat a, unat b, unat c) \<in> set qs then Some MARKED else getVoxel g a b c)"
    if "a < ?w" "b < ?h" "c < vg_size_z g" for a b c
  proof -
    have lt: "unat a < unat ?w" "unat b < unat ?h" "unat c < 16"
      using that wf(1) by (auto simp: word_less_nat_alt)
    then have "col_status (data' ! (unat b * unat ?w + unat a)) (unat c) =
        (if (unat a, unat b, unat c) \<in> set qs then MARKED
         else col_status (vg_data g ! (unat b * unat ?w + unat a)) (unat c))"
      using mark_cells [OF qs(2) wf(2,3) lt] data'(1) qs(1) by auto
    then show ?thesis
      using that getVoxel_cell [OF wf', of a b c] getVoxel_cell [OF assms(1), of a b c]
      by (simp add: g'_def)
  qed
  have ends: "getVoxel g' (voxel_at x) (voxel_at y) (voxel_at z) = Some MARKED"
    if "in_box ?w ?h (vg_size_z g) x y z" "cell3 x y z \<in> set qs" for x y z
    using that voxel_at_less [of x ?w] voxel_at_less [of y ?h] voxel_at_less [of z "vg_size_z g"]
      get [of "voxel_at x" "voxel_at y" "voxel_at z"] by (simp add: in_box_def cell3_def)
  have "getVoxel g' a b c = getVoxel g a b c \<or> getVoxel g' a b c = Some MARKED" for a b c
  proof (cases "a < ?w \<and> b < ?h \<and> c < vg_size_z g")
    case False
    then have "out_of_grid g a b c" by (auto simp: out_of_grid_def)
    then show ?thesis by (simp add: getVoxel_def g'_def out_of_grid_def)
  qed (use get in auto)
  moreover have "\<not> line_out_of_grid g x0 y0 z0 x1 y1 z1"
    using assms(4,5) by (simp add: line_out_of_grid_def in_box_def not_le)
  then have "markVoxelLine g x0 y0 z0 x1 y1 z1 max_length = Some g'"
    by (simp add: markVoxelLine_def data'(1) g'_def)
  moreover have "cell3 x0 y0 z0 \<in> set qs" using qs(3,4) by (metis hd_in_set)
  moreover have "cell3 x1 y1 z1 \<in> set qs" if "ray_dist x0 y0 z0 x1 y1 z1 \<le> real (unat max_length)"
    using that qs(3,5) by (metis last_in_set)
  ultimately show ?thesis
    using wf' ends assms(4,5) by (intro exI [of _ g']) (simp add: g'_def same_shape_def)
qed

theorem markVoxelLine_marks_witness:
  "\<exists>g'. markVoxelLine (voxel_grid_new 4 4 8) 0 0 0 (3 + 1 / 2) 2 7 0xFFFFFFFF = Some g' \<and>
     getVoxel g' (voxel_at 0) (voxel_at 0) (voxel_at 0) = Some MARKED"
proof -
  have w: "vg_wf (voxel_grid_new 4 4 8)" by (rule vg_wf_new) simp
  have s: "unat (vg_size_x (voxel_grid_new 4 4 8)) \<le> 2 ^ 31" "unat (vg_size_y (voxel_grid_new 4 4 8)) \<le> 2 ^ 31"
    by (simp_all add: voxel_grid_new_def)
  have b: "in_box (vg_size_x (voxel_grid_new 4 4 8)) (vg_size_y (voxel_grid_new 4 4 8))
      (vg_size_z (voxel_grid_new 4 4 8)) 0 0 0"
    "in_box (vg_size_x (voxel_grid_new 4 4 8)) (vg_size_y (voxel_grid_new 4 4 8))
      (vg_size_z (voxel_grid_new 4 4 8)) (3 + 1 / 2) 2 7"
    by (simp_all add: in_box_def voxel_grid_new_def clamp_size_z_def word_less_nat_alt)
  from markVoxelLine_marks [OF w s b] show ?thesis by metis
qed

text \<open>\<open>clearVoxelLineInMap\<close> on a well-formed grid, with a costmap as large as the grid and
  between two points of the grid, stays inside both arrays for every threshold, \<open>max_length\<close> and
  \<open>min_length\<close>: it succeeds, keeps the grid well formed and the costmap's size.\<close>

theorem clearVoxelLineInMap_safe:
  assumes "vg_wf g" "unat (vg_size_x g) \<le> 2 ^ 31" "unat (vg_size_y g) \<le> 2 ^ 31"
    and "in_box (vg_size_x g) (vg_size_y g) (vg_size_z g) x0 y0 z0"
    and "in_box (vg_size_x g) (vg_size_y g) (vg_size_z g) x1 y1 z1"
    and "map_2d = Some cm" "length cm = length (vg_data g)"
  shows "\<exists>g' cm'. clearVoxelLineInMap g x0 y0 z0 x1 y1 z1 map_2d unknown_threshold mark_threshold
      free_cost unknown_cost max_length min_length = Some g' \<and> vg_wf g' \<and> same_shape g g' \<and>
    vg_costmap g' = Some cm' \<and> length cm' = length cm"
proof -
  have wf: "unat (vg_size_z g) \<le> 16" "unat (vg_size_x g) * unat (vg_size_y g) < 2 ^ 32"
    "length (vg_data g) = unat (vg_size_x g) * unat (vg_size_y g)" "cols_ok (vg_data g)"
    using assms(1) by (auto simp: vg_wf_cols word_le_nat_alt)
  have "length (snd (vg_data g, cm)) = length (fst (vg_data g, cm)) \<and> cols_ok (fst (vg_data g, cm))"
    "length (fst (vg_data g, cm)) = unat (vg_size_x g) * unat (vg_size_y g)"
    using wf assms(7) by simp_all
  from clear_map_ray.ray_total [OF this wf(2) assms(4,5,2,3) wf(1)]
  obtain dc where dc: "raytraceLine3D (vg_size_x g) (ClearVoxelInMap_at unknown_threshold mark_threshold
      free_cost unknown_cost) x0 y0 z0 x1 y1 z1 max_length min_length (vg_data g, cm) = Some dc"
    "length (snd dc) = length (fst dc)" "cols_ok (fst dc)" "length (fst dc) = length (vg_data g)"
    by fastforce
  have "\<not> line_out_of_grid (g\<lparr>vg_costmap := map_2d\<rparr>) x0 y0 z0 x1 y1 z1"
    using assms(4,5) by (simp add: line_out_of_grid_def in_box_def not_le)
  then show ?thesis
    using dc assms(1,6,7) by (simp add: clearVoxelLineInMap_def vg_wf_cols same_shape_def)
qed

theorem clearVoxelLineInMap_safe_witness:
  "\<exists>g' cm'. clearVoxelLineInMap (voxel_grid_new 2 2 4) 0 0 0 1 1 3 (Some [254, 254, 254, 254])
     15 0 0 255 0xFFFFFFFF 1 = Some g' \<and> vg_costmap g' = Some cm' \<and> length cm' = 4"
proof -
  have w: "vg_wf (voxel_grid_new 2 2 4)" by (rule vg_wf_new) simp
  have s: "unat (vg_size_x (voxel_grid_new 2 2 4)) \<le> 2 ^ 31" "unat (vg_size_y (voxel_grid_new 2 2 4)) \<le> 2 ^ 31"
    by (simp_all add: voxel_grid_new_def)
  have b: "in_box (vg_size_x (voxel_grid_new 2 2 4)) (vg_size_y (voxel_grid_new 2 2 4))
      (vg_size_z (voxel_grid_new 2 2 4)) 0 0 0"
    "in_box (vg_size_x (voxel_grid_new 2 2 4)) (vg_size_y (voxel_grid_new 2 2 4))
      (vg_size_z (voxel_grid_new 2 2 4)) 1 1 3"
    by (simp_all add: in_box_def voxel_grid_new_def clamp_size_z_def word_less_nat_alt)
  have l: "length [254, 254, 254, 254 :: u8] = length (vg_data (voxel_grid_new 2 2 4))"
    by (simp add: voxel_grid_new_def)
  from clearVoxelLineInMap_safe [OF w s b refl l] show ?thesis by fastforce
qed

end
