(* ===== verification/Costmap_2D.thy ===== *)
theory Costmap_2D
  imports Ray_Cells
begin

text \<open>
  \<open>nav2_costmap_2d::Costmap2D\<close>: the grid of 8-bit costs, its windows, its rolling origin and its
  coordinate transforms. The buffer is \<open>None\<close> while it is deleted; \<open>new unsigned char[n]\<close> does not
  initialise its cells, so the operations that allocate take the cells' initial contents as the
  argument \<open>garbage\<close>.
\<close>

section \<open>Costs\<close>

definition NO_INFORMATION :: u8 where "NO_INFORMATION = 255"
definition LETHAL_OBSTACLE :: u8 where "LETHAL_OBSTACLE = 254"
definition INSCRIBED_INFLATED_OBSTACLE :: u8 where "INSCRIBED_INFLATED_OBSTACLE = 253"
definition MAX_NON_OBSTACLE :: u8 where "MAX_NON_OBSTACLE = 252"
definition FREE_SPACE :: u8 where "FREE_SPACE = 0"

lemmas cost_values = NO_INFORMATION_def LETHAL_OBSTACLE_def INSCRIBED_INFLATED_OBSTACLE_def
  MAX_NON_OBSTACLE_def FREE_SPACE_def

section \<open>State\<close>

record costmap2d =
  cm_size_x :: u32
  cm_size_y :: u32
  cm_resolution :: real
  cm_origin_x :: real
  cm_origin_y :: real
  cm_costmap :: "u8 list option"
  cm_default :: u8

definition costmap2d_null :: "u8 \<Rightarrow> costmap2d" where
  "costmap2d_null uninit =
     \<lparr>cm_size_x = 0, cm_size_y = 0, cm_resolution = 0, cm_origin_x = 0, cm_origin_y = 0,
      cm_costmap = None, cm_default = uninit\<rparr>"

definition deleteMaps :: "costmap2d \<Rightarrow> costmap2d" where
  "deleteMaps cm = cm\<lparr>cm_costmap := None\<rparr>"

definition initMaps :: "(nat \<Rightarrow> u8) \<Rightarrow> costmap2d \<Rightarrow> u32 \<Rightarrow> u32 \<Rightarrow> costmap2d" where
  "initMaps garbage cm size_x size_y =
     cm\<lparr>cm_costmap := Some (map garbage [0..<unat (size_x * size_y)])\<rparr>"

definition resetMaps :: "costmap2d \<Rightarrow> costmap2d option" where
  "resetMaps cm = do {
     m \<leftarrow> cm_costmap cm;
     m' \<leftarrow> mem_set m 0 (unat (cm_size_x cm * cm_size_y cm)) (cm_default cm);
     Some (cm\<lparr>cm_costmap := Some m'\<rparr>)
   }"

definition resizeMap ::
    "(nat \<Rightarrow> u8) \<Rightarrow> costmap2d \<Rightarrow> u32 \<Rightarrow> u32 \<Rightarrow> real \<Rightarrow> real \<Rightarrow> real \<Rightarrow> costmap2d option" where
  "resizeMap garbage cm size_x size_y resolution origin_x origin_y =
     resetMaps (initMaps garbage
       (cm\<lparr>cm_size_x := size_x, cm_size_y := size_y, cm_resolution := resolution,
           cm_origin_x := origin_x, cm_origin_y := origin_y\<rparr>) size_x size_y)"

definition costmap2d_new ::
    "(nat \<Rightarrow> u8) \<Rightarrow> u32 \<Rightarrow> u32 \<Rightarrow> real \<Rightarrow> real \<Rightarrow> real \<Rightarrow> u8 \<Rightarrow> costmap2d option" where
  "costmap2d_new garbage cells_size_x cells_size_y resolution origin_x origin_y default_value =
     resetMaps (initMaps garbage
       \<lparr>cm_size_x = cells_size_x, cm_size_y = cells_size_y, cm_resolution = resolution,
        cm_origin_x = origin_x, cm_origin_y = origin_y, cm_costmap = None,
        cm_default = default_value\<rparr> cells_size_x cells_size_y)"

text \<open>\<open>std::round\<close> (halves away from zero) and the cast of its result to \<open>unsigned char\<close>.\<close>

definition std_round :: "real \<Rightarrow> int" where
  "std_round r = (if r < 0 then \<lceil>r - 1 / 2\<rceil> else \<lfloor>r + 1 / 2\<rfloor>)"

definition cast_u8 :: "int \<Rightarrow> u8 option" where
  "cast_u8 t = (if 0 \<le> t \<and> t < 256 then Some (word_of_int t) else None)"

definition OCC_GRID_UNKNOWN :: int where "OCC_GRID_UNKNOWN = -1"
definition OCC_GRID_FREE :: int where "OCC_GRID_FREE = 0"
definition OCC_GRID_OCCUPIED :: int where "OCC_GRID_OCCUPIED = 100"

definition occ_to_cost :: "int \<Rightarrow> u8 option" where
  "occ_to_cost data =
     (if data = OCC_GRID_UNKNOWN then Some NO_INFORMATION
      else cast_u8 (std_round
        (real_of_int data * real_of_int (uint LETHAL_OBSTACLE - uint FREE_SPACE) /
         real_of_int (OCC_GRID_OCCUPIED - OCC_GRID_FREE))))"

record occupancy_grid =
  og_width :: u32
  og_height :: u32
  og_resolution :: real
  og_origin_x :: real
  og_origin_y :: real
  og_data :: "int list"   \<comment> \<open>\<open>int8\<close> cells\<close>

fun occ_cells :: "nat \<Rightarrow> int list \<Rightarrow> u8 list option" where
  "occ_cells 0 data = Some []"
| "occ_cells (Suc n) [] = None"
| "occ_cells (Suc n) (d # data) = do { c \<leftarrow> occ_to_cost d; cs \<leftarrow> occ_cells n data; Some (c # cs) }"

definition costmap2d_of_grid :: "occupancy_grid \<Rightarrow> costmap2d option" where
  "costmap2d_of_grid occ = do {
     cells \<leftarrow> occ_cells (unat (og_width occ * og_height occ)) (og_data occ);
     Some \<lparr>cm_size_x = og_width occ, cm_size_y = og_height occ, cm_resolution = og_resolution occ,
           cm_origin_x = og_origin_x occ, cm_origin_y = og_origin_y occ,
           cm_costmap = Some cells, cm_default = FREE_SPACE\<rparr>
   }"

section \<open>Cells\<close>

definition getIndex :: "costmap2d \<Rightarrow> u32 \<Rightarrow> u32 \<Rightarrow> u32" where
  "getIndex cm mx my = my * cm_size_x cm + mx"

definition indexToCells :: "costmap2d \<Rightarrow> u32 \<Rightarrow> (u32 \<times> u32) option" where
  "indexToCells cm index =
     (if cm_size_x cm = 0 then None
      else let my = index div cm_size_x cm in Some (index - my * cm_size_x cm, my))"

definition getCost_index :: "costmap2d \<Rightarrow> u32 \<Rightarrow> u8 option" where
  "getCost_index cm undex = do { m \<leftarrow> cm_costmap cm; load m (unat undex) }"

definition getCost :: "costmap2d \<Rightarrow> u32 \<Rightarrow> u32 \<Rightarrow> u8 option" where
  "getCost cm mx my = do { m \<leftarrow> cm_costmap cm; load m (unat (getIndex cm mx my)) }"

definition setCost :: "costmap2d \<Rightarrow> u32 \<Rightarrow> u32 \<Rightarrow> u8 \<Rightarrow> costmap2d option" where
  "setCost cm mx my cost = do {
     m \<leftarrow> cm_costmap cm;
     m' \<leftarrow> store m (unat (getIndex cm mx my)) cost;
     Some (cm\<lparr>cm_costmap := Some m'\<rparr>)
   }"

text \<open>\<open>for (y = y0 * size_x + x0; y < yn * size_x + x0; y += size_x) memset(...)\<close>, in 32 bits: the
  loop need not end (\<open>size_x = 0\<close>, or a bound near \<open>2 ^ 32\<close>).\<close>

partial_function (option) reset_rows ::
    "u32 \<Rightarrow> u32 \<Rightarrow> nat \<Rightarrow> u8 \<Rightarrow> u32 \<Rightarrow> u8 list \<Rightarrow> u8 list option" where
  "reset_rows size_x stop len value y m =
     (if y < stop
      then Option.bind (mem_set m (unat y) len value) (reset_rows size_x stop len value (y + size_x))
      else Some m)"

definition resetMapToValue :: "costmap2d \<Rightarrow> u32 \<Rightarrow> u32 \<Rightarrow> u32 \<Rightarrow> u32 \<Rightarrow> u8 \<Rightarrow> costmap2d option" where
  "resetMapToValue cm x0 y0 xn yn value = do {
     m \<leftarrow> cm_costmap cm;
     m' \<leftarrow> reset_rows (cm_size_x cm) (yn * cm_size_x cm + x0) (unat (xn - x0)) value
       (y0 * cm_size_x cm + x0) m;
     Some (cm\<lparr>cm_costmap := Some m'\<rparr>)
   }"

definition resetMap :: "costmap2d \<Rightarrow> u32 \<Rightarrow> u32 \<Rightarrow> u32 \<Rightarrow> u32 \<Rightarrow> costmap2d option" where
  "resetMap cm x0 y0 xn yn = resetMapToValue cm x0 y0 xn yn (cm_default cm)"

section \<open>Windows\<close>

text \<open>The row loop of \<open>copyMapRegion\<close>; the two pointers advance without wrapping.\<close>

fun copy_rows ::
    "nat \<Rightarrow> 'a list \<Rightarrow> nat \<Rightarrow> nat \<Rightarrow> 'a list \<Rightarrow> nat \<Rightarrow> nat \<Rightarrow> nat \<Rightarrow> 'a list option" where
  "copy_rows 0 src sm sm_size_x dest dm dm_size_x len = Some dest"
| "copy_rows (Suc n) src sm sm_size_x dest dm dm_size_x len = do {
     dest' \<leftarrow> mem_cpy dest dm src sm len;
     copy_rows n src (sm + sm_size_x) sm_size_x dest' (dm + dm_size_x) dm_size_x len
   }"

definition copyMapRegion ::
    "'a list \<Rightarrow> u32 \<Rightarrow> u32 \<Rightarrow> u32 \<Rightarrow> 'a list \<Rightarrow> u32 \<Rightarrow> u32 \<Rightarrow> u32 \<Rightarrow> u32 \<Rightarrow> u32 \<Rightarrow> 'a list option" where
  "copyMapRegion source_map sm_lower_left_x sm_lower_left_y sm_size_x
     dest_map dm_lower_left_x dm_lower_left_y dm_size_x region_size_x region_size_y =
     copy_rows (unat region_size_y)
       source_map (unat (sm_lower_left_y * sm_size_x + sm_lower_left_x)) (unat sm_size_x)
       dest_map (unat (dm_lower_left_y * dm_size_x + dm_lower_left_x)) (unat dm_size_x)
       (unat region_size_x)"

definition copyWindow ::
    "costmap2d \<Rightarrow> costmap2d \<Rightarrow> u32 \<Rightarrow> u32 \<Rightarrow> u32 \<Rightarrow> u32 \<Rightarrow> u32 \<Rightarrow> u32 \<Rightarrow> (bool \<times> costmap2d) option" where
  "copyWindow cm source sx0 sy0 sxn syn dx0 dy0 =
     (let sz_x = sxn - sx0; sz_y = syn - sy0 in
      if cm_size_x source < sxn \<or> cm_size_y source < syn then Some (False, cm)
      else if cm_size_x cm < dx0 + sz_x \<or> cm_size_y cm < dy0 + sz_y then Some (False, cm)
      else do {
        src \<leftarrow> cm_costmap source;
        dst \<leftarrow> cm_costmap cm;
        dst' \<leftarrow> copyMapRegion src sx0 sy0 (cm_size_x source) dst dx0 dy0 (cm_size_x cm) sz_x sz_y;
        Some (True, cm\<lparr>cm_costmap := Some dst'\<rparr>)
      })"

text \<open>\<open>operator=\<close>; \<open>self\<close> says the two arguments are the same object.\<close>

definition assign_costmap :: "(nat \<Rightarrow> u8) \<Rightarrow> bool \<Rightarrow> costmap2d \<Rightarrow> costmap2d \<Rightarrow> costmap2d option" where
  "assign_costmap garbage self cm src_map =
     (if self then Some cm
      else do {
        let cm1 = (deleteMaps cm)\<lparr>cm_size_x := cm_size_x src_map, cm_size_y := cm_size_y src_map,
          cm_resolution := cm_resolution src_map, cm_origin_x := cm_origin_x src_map,
          cm_origin_y := cm_origin_y src_map\<rparr>;
        let cm2 = initMaps garbage cm1 (cm_size_x cm1) (cm_size_y cm1);
        dst \<leftarrow> cm_costmap cm2;
        src \<leftarrow> cm_costmap src_map;
        dst' \<leftarrow> mem_cpy dst 0 src 0 (unat (cm_size_x cm2 * cm_size_y cm2));
        Some (cm2\<lparr>cm_costmap := Some dst'\<rparr>)
      })"

definition costmap2d_copy :: "(nat \<Rightarrow> u8) \<Rightarrow> u8 \<Rightarrow> costmap2d \<Rightarrow> costmap2d option" where
  "costmap2d_copy garbage uninit src_map = assign_costmap garbage False (costmap2d_null uninit) src_map"

section \<open>World coordinates\<close>

text \<open>\<open>(w - origin) / resolution\<close>: a division by zero gives no number a cast could take.\<close>

definition cell_quot :: "real \<Rightarrow> real \<Rightarrow> real \<Rightarrow> real option" where
  "cell_quot w org res = (if res = 0 then None else Some ((w - org) / res))"

definition cellDistance :: "costmap2d \<Rightarrow> real \<Rightarrow> u32 option" where
  "cellDistance cm world_dist = do {
     q \<leftarrow> cell_quot world_dist 0 (cm_resolution cm);
     cast_uint (max 0 (real_of_int \<lceil>q\<rceil>))
   }"

definition mapToWorld :: "costmap2d \<Rightarrow> u32 \<Rightarrow> u32 \<Rightarrow> real \<times> real" where
  "mapToWorld cm mx my =
     (cm_origin_x cm + (real (unat mx) + 1 / 2) * cm_resolution cm,
      cm_origin_y cm + (real (unat my) + 1 / 2) * cm_resolution cm)"

text \<open>The outer option is undefined behaviour, the inner one the returned boolean with the cell.\<close>

definition worldToMap :: "costmap2d \<Rightarrow> real \<Rightarrow> real \<Rightarrow> (u32 \<times> u32) option option" where
  "worldToMap cm wx wy =
     (if wx < cm_origin_x cm \<or> wy < cm_origin_y cm then Some None
      else do {
        qx \<leftarrow> cell_quot wx (cm_origin_x cm) (cm_resolution cm);
        qy \<leftarrow> cell_quot wy (cm_origin_y cm) (cm_resolution cm);
        mx \<leftarrow> cast_uint qx;
        my \<leftarrow> cast_uint qy;
        Some (if mx < cm_size_x cm \<and> my < cm_size_y cm then Some (mx, my) else None)
      })"

definition worldToMapNoBounds :: "costmap2d \<Rightarrow> real \<Rightarrow> real \<Rightarrow> (int \<times> int) option" where
  "worldToMapNoBounds cm wx wy = do {
     qx \<leftarrow> cell_quot wx (cm_origin_x cm) (cm_resolution cm);
     qy \<leftarrow> cell_quot wy (cm_origin_y cm) (cm_resolution cm);
     mx \<leftarrow> cast_int qx;
     my \<leftarrow> cast_int qy;
     Some (sint mx, sint my)
   }"

definition enforce_axis :: "real \<Rightarrow> real \<Rightarrow> u32 \<Rightarrow> real \<Rightarrow> int option" where
  "enforce_axis w org sz res =
     (if w < org then Some 0
      else if res * real (unat sz) + org < w then Some (sint (sz - 1))
      else do { q \<leftarrow> cell_quot w org res; m \<leftarrow> cast_int q; Some (sint m) })"

definition worldToMapEnforceBounds :: "costmap2d \<Rightarrow> real \<Rightarrow> real \<Rightarrow> (int \<times> int) option" where
  "worldToMapEnforceBounds cm wx wy = do {
     mx \<leftarrow> enforce_axis wx (cm_origin_x cm) (cm_size_x cm) (cm_resolution cm);
     my \<leftarrow> enforce_axis wy (cm_origin_y cm) (cm_size_y cm) (cm_resolution cm);
     Some (mx, my)
   }"

definition getSizeInMetersX :: "costmap2d \<Rightarrow> real" where
  "getSizeInMetersX cm = (real (unat (cm_size_x cm - 1)) + 1 / 2) * cm_resolution cm"

definition getSizeInMetersY :: "costmap2d \<Rightarrow> real" where
  "getSizeInMetersY cm = (real (unat (cm_size_y cm - 1)) + 1 / 2) * cm_resolution cm"

text \<open>\<open>copyCostmapWindow\<close>: the own map is deleted before the window's bounds are checked.\<close>

definition copyCostmapWindow ::
    "(nat \<Rightarrow> u8) \<Rightarrow> bool \<Rightarrow> costmap2d \<Rightarrow> costmap2d \<Rightarrow> real \<Rightarrow> real \<Rightarrow> real \<Rightarrow> real \<Rightarrow>
     (bool \<times> costmap2d) option" where
  "copyCostmapWindow garbage self cm src_map win_origin_x win_origin_y win_size_x win_size_y =
     (if self then Some (False, cm)
      else do {
        let cm1 = deleteMaps cm;
        lower \<leftarrow> worldToMap src_map win_origin_x win_origin_y;
        case lower of
          None \<Rightarrow> Some (False, cm1)
        | Some (llx, lly) \<Rightarrow> do {
            upper \<leftarrow> worldToMap src_map (win_origin_x + win_size_x) (win_origin_y + win_size_y);
            case upper of
              None \<Rightarrow> Some (False, cm1)
            | Some (urx, ury) \<Rightarrow> do {
                let cm2 = cm1\<lparr>cm_size_x := urx - llx, cm_size_y := ury - lly,
                  cm_resolution := cm_resolution src_map, cm_origin_x := win_origin_x,
                  cm_origin_y := win_origin_y\<rparr>;
                let cm3 = initMaps garbage cm2 (cm_size_x cm2) (cm_size_y cm2);
                src \<leftarrow> cm_costmap src_map;
                dst \<leftarrow> cm_costmap cm3;
                dst' \<leftarrow> copyMapRegion src llx lly (cm_size_x src_map) dst 0 0 (cm_size_x cm3)
                  (cm_size_x cm3) (cm_size_y cm3);
                Some (True, cm3\<lparr>cm_costmap := Some dst'\<rparr>)
              }
          }
      })"

section \<open>The rolling origin\<close>

text \<open>Signed 32-bit additions, undefined on overflow.\<close>

definition int_add :: "int \<Rightarrow> int \<Rightarrow> int option" where
  "int_add a b = (if - (2 ^ 31) \<le> a + b \<and> a + b < 2 ^ 31 then Some (a + b) else None)"

definition updateOrigin :: "(nat \<Rightarrow> u8) \<Rightarrow> costmap2d \<Rightarrow> real \<Rightarrow> real \<Rightarrow> costmap2d option" where
  "updateOrigin garbage cm new_origin_x new_origin_y = do {
     qx \<leftarrow> cell_quot new_origin_x (cm_origin_x cm) (cm_resolution cm);
     qy \<leftarrow> cell_quot new_origin_y (cm_origin_y cm) (cm_resolution cm);
     cox \<leftarrow> cast_int qx;
     coy \<leftarrow> cast_int qy;
     let cell_ox = sint cox; let cell_oy = sint coy;
     let new_grid_ox = cm_origin_x cm + real_of_int cell_ox * cm_resolution cm;
     let new_grid_oy = cm_origin_y cm + real_of_int cell_oy * cm_resolution cm;
     let size_x = sint (cm_size_x cm); let size_y = sint (cm_size_y cm);
     ex \<leftarrow> int_add cell_ox size_x;
     ey \<leftarrow> int_add cell_oy size_y;
     let lower_left_x = min (max cell_ox 0) size_x;
     let lower_left_y = min (max cell_oy 0) size_y;
     let upper_right_x = min (max ex 0) size_x;
     let upper_right_y = min (max ey 0) size_y;
     let cell_size_x = (word_of_int (upper_right_x - lower_left_x) :: u32);
     let cell_size_y = (word_of_int (upper_right_y - lower_left_y) :: u32);
     let local_map = map garbage [0..<unat (cell_size_x * cell_size_y)];
     m \<leftarrow> cm_costmap cm;
     local_map' \<leftarrow> copyMapRegion m (word_of_int lower_left_x) (word_of_int lower_left_y)
       (cm_size_x cm) local_map 0 0 cell_size_x cell_size_x cell_size_y;
     cm1 \<leftarrow> resetMaps cm;
     start_x \<leftarrow> int_add lower_left_x (- cell_ox);
     start_y \<leftarrow> int_add lower_left_y (- cell_oy);
     m1 \<leftarrow> cm_costmap cm1;
     m2 \<leftarrow> copyMapRegion local_map' 0 0 cell_size_x m1 (word_of_int start_x)
       (word_of_int start_y) (cm_size_x cm) cell_size_x cell_size_y;
     Some (cm1\<lparr>cm_origin_x := new_grid_ox, cm_origin_y := new_grid_oy, cm_costmap := Some m2\<rparr>)
   }"

section \<open>Well-formed costmaps\<close>

definition cm_wf :: "costmap2d \<Rightarrow> bool" where
  "cm_wf cm \<longleftrightarrow> unat (cm_size_x cm) * unat (cm_size_y cm) < 2 ^ 32 \<and>
     (case cm_costmap cm of None \<Rightarrow> False
      | Some m \<Rightarrow> length m = unat (cm_size_x cm) * unat (cm_size_y cm))"

text \<open>The cost of the cell \<open>(x, y)\<close> of a buffer with rows of \<open>w\<close> cells.\<close>

definition cell_at :: "'a list \<Rightarrow> nat \<Rightarrow> nat \<Rightarrow> nat \<Rightarrow> 'a" where
  "cell_at m w x y = m ! (y * w + x)"

lemma cm_wf_obtain:
  assumes "cm_wf cm"
  obtains m where "cm_costmap cm = Some m" "length m = unat (cm_size_x cm) * unat (cm_size_y cm)"
    "unat (cm_size_x cm) * unat (cm_size_y cm) < 2 ^ 32"
  using assms by (auto simp: cm_wf_def split: option.splits)

lemma getIndex_nat:
  assumes "cm_wf cm" "mx < cm_size_x cm" "my < cm_size_y cm"
  shows "unat (getIndex cm mx my) = unat my * unat (cm_size_x cm) + unat mx"
    and "unat (getIndex cm mx my) < unat (cm_size_x cm) * unat (cm_size_y cm)"
  using word_cell_index [of "cm_size_x cm" "cm_size_y cm" mx my] assms
  by (simp_all add: getIndex_def cm_wf_def)

lemma getCost_cell:
  assumes "cm_wf cm" "mx < cm_size_x cm" "my < cm_size_y cm" "cm_costmap cm = Some m"
  shows "getCost cm mx my = Some (cell_at m (unat (cm_size_x cm)) (unat mx) (unat my))"
  using getIndex_nat [OF assms(1-3)] assms(1,4)
  by (simp add: getCost_def load_def cell_at_def cm_wf_def)

lemma getIndex_inj:
  assumes "cm_wf cm" "mx < cm_size_x cm" "my < cm_size_y cm" "a < cm_size_x cm" "b < cm_size_y cm"
  shows "getIndex cm mx my = getIndex cm a b \<longleftrightarrow> mx = a \<and> my = b"
proof
  assume "getIndex cm mx my = getIndex cm a b"
  then have "unat my * unat (cm_size_x cm) + unat mx = unat b * unat (cm_size_x cm) + unat a"
    using getIndex_nat(1) [OF assms(1-3)] getIndex_nat(1) [OF assms(1,4,5)] by simp
  then have "unat mx = unat a \<and> unat my = unat b"
    using assms(2,4) by (intro cell_index_inj) (simp_all add: word_less_nat_alt)
  then show "mx = a \<and> my = b" by (simp add: word_unat_eq_iff)
qed simp

section \<open>Row copies\<close>

lemma copy_rows_0: "copy_rows n src sm sw dest dm dw 0 = Some dest"
  by (induction n arbitrary: sm dm) (simp_all add: mem_cpy_def)

lemma copy_rows_cells:
  assumes "sx + len \<le> sw" "(sy + n) * sw \<le> length src"
    and "dx + len \<le> dw" "(dy + n) * dw \<le> length dest"
  shows "\<exists>dest'. copy_rows n src (sy * sw + sx) sw dest (dy * dw + dx) dw len = Some dest' \<and>
    length dest' = length dest \<and>
    (\<forall>x y. x < dw \<longrightarrow> y * dw + x < length dest \<longrightarrow> cell_at dest' dw x y =
      (if dx \<le> x \<and> x < dx + len \<and> dy \<le> y \<and> y < dy + n
       then cell_at src sw (sx + (x - dx)) (sy + (y - dy)) else cell_at dest dw x y))"
  using assms(2,4)
proof (induction n arbitrary: sy dy dest)
  case 0
  then show ?case by auto
next
  case (Suc n)
  have fit: "sy * sw + sx + len \<le> length src" "dy * dw + dx + len \<le> length dest"
    using Suc.prems assms(1,3) by (auto simp: algebra_simps)
  obtain d1 where d1: "mem_cpy dest (dy * dw + dx) src (sy * sw + sx) len = Some d1"
    using mem_cpy_total fit by blast
  have l1: "length d1 = length dest" using mem_cpy_length [OF d1] .
  have nth1: "cell_at d1 dw x y =
      (if dx \<le> x \<and> x < dx + len \<and> y = dy then cell_at src sw (sx + (x - dx)) sy
       else cell_at dest dw x y)" if x: "x < dw" and i: "y * dw + x < length dest" for x y
  proof (cases "y = dy")
    case True
    then show ?thesis
      using mem_cpy_nth [OF d1 i] by (auto simp: cell_at_def add.assoc)
  next
    case False
    have "\<not> (dy * dw + dx \<le> y * dw + x \<and> y * dw + x < dy * dw + dx + len)"
    proof
      assume a: "dy * dw + dx \<le> y * dw + x \<and> y * dw + x < dy * dw + dx + len"
      define k where "k = y * dw + x - dy * dw"
      have "k < dw" and "y * dw + x = dy * dw + k"
        using a assms(3) by (auto simp: k_def)
      then show False using cell_index_inj [of y dw x dy k] x False by simp
    qed
    then show ?thesis using mem_cpy_nth [OF d1 i] False by (auto simp: cell_at_def)
  qed
  have "\<exists>dest'. copy_rows n src (Suc sy * sw + sx) sw d1 (Suc dy * dw + dx) dw len = Some dest' \<and>
    length dest' = length d1 \<and>
    (\<forall>x y. x < dw \<longrightarrow> y * dw + x < length d1 \<longrightarrow> cell_at dest' dw x y =
      (if dx \<le> x \<and> x < dx + len \<and> Suc dy \<le> y \<and> y < Suc dy + n
       then cell_at src sw (sx + (x - dx)) (Suc sy + (y - Suc dy)) else cell_at d1 dw x y))"
    using Suc.prems l1 by (intro Suc.IH) auto
  then obtain d2 where d2: "copy_rows n src (Suc sy * sw + sx) sw d1 (Suc dy * dw + dx) dw len = Some d2"
    "length d2 = length d1"
    and nth2: "\<And>x y. x < dw \<Longrightarrow> y * dw + x < length d1 \<Longrightarrow> cell_at d2 dw x y =
      (if dx \<le> x \<and> x < dx + len \<and> Suc dy \<le> y \<and> y < Suc dy + n
       then cell_at src sw (sx + (x - dx)) (Suc sy + (y - Suc dy)) else cell_at d1 dw x y)"
    by blast
  have "cell_at d2 dw x y =
      (if dx \<le> x \<and> x < dx + len \<and> dy \<le> y \<and> y < dy + Suc n
       then cell_at src sw (sx + (x - dx)) (sy + (y - dy)) else cell_at dest dw x y)"
    if "x < dw" "y * dw + x < length dest" for x y
  proof -
    have "Suc sy + (y - Suc dy) = sy + (y - dy)" if "Suc dy \<le> y" using that by simp
    then show ?thesis
      using nth1 [OF that] nth2 [of x y] that l1 by (cases "y = dy") (auto simp: le_less)
  qed
  moreover have "copy_rows (Suc n) src (sy * sw + sx) sw dest (dy * dw + dx) dw len = Some d2"
    using d1 d2(1) by (simp add: ac_simps)
  ultimately show ?case using d2(2) l1 by (metis (no_types))
qed

text \<open>A region inside both maps, its corners given as words.\<close>

lemma copyMapRegion_cells:
  fixes sw sh dw dh sx sy dx dy rx ry :: u32
  assumes "unat sw * unat sh < 2 ^ 32" "length src = unat sw * unat sh"
    and "unat dw * unat dh < 2 ^ 32" "length dest = unat dw * unat dh"
    and "unat sx + unat rx \<le> unat sw" "unat sy + unat ry \<le> unat sh"
    and "unat dx + unat rx \<le> unat dw" "unat dy + unat ry \<le> unat dh"
  shows "\<exists>dest'. copyMapRegion src sx sy sw dest dx dy dw rx ry = Some dest' \<and>
    length dest' = length dest \<and>
    (\<forall>x y. x < unat dw \<longrightarrow> y < unat dh \<longrightarrow> cell_at dest' (unat dw) x y =
      (if unat dx \<le> x \<and> x < unat dx + unat rx \<and> unat dy \<le> y \<and> y < unat dy + unat ry
       then cell_at src (unat sw) (unat sx + (x - unat dx)) (unat sy + (y - unat dy))
       else cell_at dest (unat dw) x y))"
proof (cases "rx = 0 \<or> ry = 0")
  case True
  then have "copyMapRegion src sx sy sw dest dx dy dw rx ry = Some dest"
    by (auto simp: copyMapRegion_def copy_rows_0)
  then show ?thesis using True by auto
next
  case False
  then have pos: "0 < unat rx" "0 < unat ry" by (simp_all add: unat_gt_0)
  have "sx < sw" "sy < sh" "dx < dw" "dy < dh"
    using pos assms(5-8) by (simp_all add: word_less_nat_alt)
  then have s: "unat (sy * sw + sx) = unat sy * unat sw + unat sx"
    and d: "unat (dy * dw + dx) = unat dy * unat dw + unat dx"
    using word_cell_index(1) assms(1,3) by blast+
  have fits: "(unat sy + unat ry) * unat sw \<le> length src" "(unat dy + unat ry) * unat dw \<le> length dest"
    using assms(2,4,6,8) by (metis mult.commute mult_le_mono1)+
  obtain dest' where dest': "copyMapRegion src sx sy sw dest dx dy dw rx ry = Some dest'"
    "length dest' = length dest"
    "\<forall>x y. x < unat dw \<longrightarrow> y * unat dw + x < length dest \<longrightarrow> cell_at dest' (unat dw) x y =
      (if unat dx \<le> x \<and> x < unat dx + unat rx \<and> unat dy \<le> y \<and> y < unat dy + unat ry
       then cell_at src (unat sw) (unat sx + (x - unat dx)) (unat sy + (y - unat dy))
       else cell_at dest (unat dw) x y)"
    using copy_rows_cells [OF assms(5) fits(1) assms(7) fits(2)] by (auto simp: copyMapRegion_def s d)
  moreover have "y * unat dw + x < length dest" if "x < unat dw" "y < unat dh" for x y
    using cell_index_less [OF that] assms(4) by simp
  ultimately show ?thesis by auto
qed

lemma resetMaps_eq:
  assumes "cm_costmap cm = Some m" "length m = unat (cm_size_x cm) * unat (cm_size_y cm)"
    and "unat (cm_size_x cm) * unat (cm_size_y cm) < 2 ^ 32"
  shows "resetMaps cm = Some (cm\<lparr>cm_costmap := Some (replicate (length m) (cm_default cm))\<rparr>)"
  using assms by (auto simp: resetMaps_def mem_set_def unat_word_ariths)

lemma cell_at_replicate: "x < w \<Longrightarrow> y < h \<Longrightarrow> cell_at (replicate (w * h) v) w x y = v"
  using cell_index_less [of x w y h] by (simp add: cell_at_def)

section \<open>\<open>resetMapToValue\<close>\<close>

lemma reset_rows_cells:
  assumes "unat sx * unat sy + unat x0 < 2 ^ 32" "length m = unat sx * unat sy"
    and "unat x0 + len \<le> unat sx" "y0 + n \<le> unat sy" "0 < sx"
    and "unat y = y0 * unat sx + unat x0" "unat stop = (y0 + n) * unat sx + unat x0"
  shows "\<exists>m'. reset_rows sx stop len v y m = Some m' \<and> length m' = length m \<and>
    (\<forall>a b. a < unat sx \<longrightarrow> b < unat sy \<longrightarrow> cell_at m' (unat sx) a b =
      (if unat x0 \<le> a \<and> a < unat x0 + len \<and> y0 \<le> b \<and> b < y0 + n then v
       else cell_at m (unat sx) a b))"
  using assms(2,4,6,7)
proof (induction n arbitrary: y0 y m)
  case 0
  then have "\<not> y < stop" by (simp add: word_less_nat_alt)
  then show ?case by (auto simp: reset_rows.simps)
next
  case (Suc n)
  let ?w = "unat sx"
  have w: "0 < ?w" using assms(5) by (simp add: word_less_nat_alt)
  have lt: "y < stop" using Suc.prems(3,4) w by (simp add: word_less_nat_alt algebra_simps)
  have row: "Suc y0 * ?w \<le> length m"
    using Suc.prems(1,2) by (metis Suc_le_mono add_Suc_right le_add1 le_trans mult.commute mult_le_mono2)
  then have fit: "unat y + len \<le> length m" using Suc.prems(3) assms(3) by simp
  obtain m1 where m1: "mem_set m (unat y) len v = Some m1" using mem_set_total [OF fit] by blast
  have l1: "length m1 = length m" using mem_set_length [OF m1] .
  have nth1: "cell_at m1 ?w a b =
      (if unat x0 \<le> a \<and> a < unat x0 + len \<and> b = y0 then v else cell_at m ?w a b)"
    if ab: "a < ?w" "b < unat sy" for a b
  proof -
    have i: "b * ?w + a < length m" using cell_index_less [OF ab] Suc.prems(1) by simp
    have "(unat y \<le> b * ?w + a \<and> b * ?w + a < unat y + len) \<longleftrightarrow>
        (unat x0 \<le> a \<and> a < unat x0 + len \<and> b = y0)"
    proof (cases "b = y0")
      case False
      have "\<not> (unat y \<le> b * ?w + a \<and> b * ?w + a < unat y + len)"
      proof
        assume h: "unat y \<le> b * ?w + a \<and> b * ?w + a < unat y + len"
        define k where "k = b * ?w + a - y0 * ?w"
        have "k < ?w" "b * ?w + a = y0 * ?w + k"
          using h Suc.prems(3) assms(3) by (auto simp: k_def)
        then show False using cell_index_inj [of b ?w a y0 k] ab(1) False by simp
      qed
      then show ?thesis using False by simp
    qed (use Suc.prems(3) in auto)
    then show ?thesis using mem_set_nth [OF m1 i] by (auto simp: cell_at_def)
  qed
  have le: "(y0 + Suc n) * ?w \<le> ?w * unat sy"
    using Suc.prems(2) by (metis mult.commute mult_le_mono1)
  then have "unat y + ?w < 2 ^ 32"
    using Suc.prems(3) assms(1) by (simp add: algebra_simps)
  then have y': "unat (y + sx) = Suc y0 * ?w + unat x0"
    using Suc.prems(3) by (simp add: unat_word_ariths)
  have "\<exists>m'. reset_rows sx stop len v (y + sx) m1 = Some m' \<and> length m' = length m1 \<and>
    (\<forall>a b. a < ?w \<longrightarrow> b < unat sy \<longrightarrow> cell_at m' ?w a b =
      (if unat x0 \<le> a \<and> a < unat x0 + len \<and> Suc y0 \<le> b \<and> b < Suc y0 + n then v
       else cell_at m1 ?w a b))"
    using Suc.prems l1 y' by (intro Suc.IH) auto
  then obtain m2 where m2: "reset_rows sx stop len v (y + sx) m1 = Some m2" "length m2 = length m1"
    and nth2: "\<And>a b. a < ?w \<Longrightarrow> b < unat sy \<Longrightarrow> cell_at m2 ?w a b =
      (if unat x0 \<le> a \<and> a < unat x0 + len \<and> Suc y0 \<le> b \<and> b < Suc y0 + n then v
       else cell_at m1 ?w a b)"
    by blast
  have "reset_rows sx stop len v y m = Some m2"
    using lt m1 m2(1) by (simp add: reset_rows.simps [of sx stop len v y])
  then show ?case
    using m2(2) l1 nth1 nth2 by (intro exI [of _ m2]) auto
qed

end
