(* ===== verification/Costmap_Windows.thy ===== *)
theory Costmap_Windows
  imports Costmap_2D
begin

text \<open>
  What the window operations of \<open>Costmap2D\<close> do to the cells: resetting a rectangle, copying a window
  between costmaps, rolling the origin, and the coordinate transforms.
\<close>

section \<open>The costmap as a store of cells\<close>

text \<open>
  The interface the layers use: a write to one cell, what a read returns after it, and the
  invariant the write keeps.
\<close>

locale cell_store =
  fixes rd :: "'m \<Rightarrow> u32 \<Rightarrow> u32 \<Rightarrow> u8 option"
    and wr :: "'m \<Rightarrow> u32 \<Rightarrow> u32 \<Rightarrow> u8 \<Rightarrow> 'm option"
    and dims :: "'m \<Rightarrow> u32 \<times> u32"
    and inv :: "'m \<Rightarrow> bool"
  assumes wr_total: "inv s \<Longrightarrow> x < fst (dims s) \<Longrightarrow> y < snd (dims s) \<Longrightarrow> \<exists>s'. wr s x y v = Some s'"
    and wr_inv: "inv s \<Longrightarrow> wr s x y v = Some s' \<Longrightarrow> inv s' \<and> dims s' = dims s"
    and rd_wr: "inv s \<Longrightarrow> x < fst (dims s) \<Longrightarrow> y < snd (dims s) \<Longrightarrow> a < fst (dims s) \<Longrightarrow>
      b < snd (dims s) \<Longrightarrow> wr s x y v = Some s' \<Longrightarrow>
      rd s' a b = (if a = x \<and> b = y then Some v else rd s a b)"
begin

text \<open>Writing a list of cells with the same value.\<close>

lemma wr_all:
  assumes "inv s" "\<forall>(x, y) \<in> set ps. x < fst (dims s) \<and> y < snd (dims s)"
  shows "\<exists>s'. foldM (\<lambda>(x, y) s. wr s x y v) ps s = Some s' \<and> inv s' \<and> dims s' = dims s \<and>
    (\<forall>a b. a < fst (dims s) \<longrightarrow> b < snd (dims s) \<longrightarrow>
      rd s' a b = (if (a, b) \<in> set ps then Some v else rd s a b))"
  using assms
proof (induction ps arbitrary: s)
  case Nil
  then show ?case by simp
next
  case (Cons p ps)
  obtain x y where p: "p = (x, y)" by (cases p)
  have xy: "x < fst (dims s)" "y < snd (dims s)" using Cons.prems(2) p by auto
  obtain s1 where s1: "wr s x y v = Some s1" using wr_total [OF Cons.prems(1) xy] by blast
  note i1 = wr_inv [OF Cons.prems(1) s1]
  obtain s2 where s2: "foldM (\<lambda>(x, y) s. wr s x y v) ps s1 = Some s2" "inv s2" "dims s2 = dims s1"
    "\<forall>a b. a < fst (dims s1) \<longrightarrow> b < snd (dims s1) \<longrightarrow>
      rd s2 a b = (if (a, b) \<in> set ps then Some v else rd s1 a b)"
    using Cons.IH [of s1] Cons.prems(2) i1 by auto
  have "rd s2 a b = (if (a, b) \<in> set (p # ps) then Some v else rd s a b)"
    if "a < fst (dims s)" "b < snd (dims s)" for a b
    using s2(4) i1 that rd_wr [OF Cons.prems(1) xy that s1] p by auto
  then show ?case using s1 s2 i1 p by auto
qed

end

interpretation costmap: cell_store getCost setCost "\<lambda>cm. (cm_size_x cm, cm_size_y cm)" cm_wf
proof unfold_locales
  fix cm x y v
  assume "cm_wf cm" "x < fst (cm_size_x cm, cm_size_y cm)" "y < snd (cm_size_x cm, cm_size_y cm)"
  then show "\<exists>s'. setCost cm x y v = Some s'"
    using getIndex_nat [of cm x y] by (auto simp: setCost_def store_def elim!: cm_wf_obtain)
next
  fix cm x y v s'
  assume "cm_wf cm" "setCost cm x y v = Some s'"
  then show "cm_wf s' \<and> (cm_size_x s', cm_size_y s') = (cm_size_x cm, cm_size_y cm)"
    by (auto simp: setCost_def store_Some_iff cm_wf_def split: bind_splits)
next
  fix cm x y a b v s'
  assume a: "cm_wf cm" "x < fst (cm_size_x cm, cm_size_y cm)" "y < snd (cm_size_x cm, cm_size_y cm)"
    "a < fst (cm_size_x cm, cm_size_y cm)" "b < snd (cm_size_x cm, cm_size_y cm)"
    and s': "setCost cm x y v = Some s'"
  obtain m where m: "cm_costmap cm = Some m" "length m = unat (cm_size_x cm) * unat (cm_size_y cm)"
    using a(1) by (rule cm_wf_obtain)
  have s'_eq: "s' = cm\<lparr>cm_costmap := Some (m[unat (getIndex cm x y) := v])\<rparr>"
    using s' m by (auto simp: setCost_def store_Some_iff split: bind_splits)
  have gi: "getIndex s' a b = getIndex cm a b" by (simp add: s'_eq getIndex_def)
  have j: "unat (getIndex cm a b) < length m"
    using getIndex_nat(2) [of cm a b] a m by simp
  have ij: "unat (getIndex cm x y) = unat (getIndex cm a b) \<longleftrightarrow> a = x \<and> b = y"
    using getIndex_inj [of cm x y a b] a
      word_unat_eq_iff [of "getIndex cm x y" "getIndex cm a b"] by auto
  show "getCost s' a b = (if a = x \<and> b = y then Some v else getCost cm a b)"
    unfolding getCost_def gi using j ij m by (auto simp: s'_eq load_def nth_list_update)
qed

section \<open>Rectangles\<close>

lemma copyMapRegion_empty:
  "rx = 0 \<or> ry = 0 \<Longrightarrow> copyMapRegion src sx sy sw dest dx dy dw rx ry = Some dest"
  by (auto simp: copyMapRegion_def copy_rows_0)

lemma resetMapToValue_effect:
  assumes "cm_wf cm" "cm_costmap cm = Some m"
    and "unat (cm_size_x cm) * unat (cm_size_y cm) + unat (cm_size_x cm) < 2 ^ 32"
    and "x0 \<le> xn" "xn \<le> cm_size_x cm" "y0 \<le> yn" "yn \<le> cm_size_y cm" "0 < cm_size_x cm"
  shows "\<exists>m'. resetMapToValue cm x0 y0 xn yn v = Some (cm\<lparr>cm_costmap := Some m'\<rparr>) \<and>
    length m' = length m \<and>
    (\<forall>a b. a < unat (cm_size_x cm) \<longrightarrow> b < unat (cm_size_y cm) \<longrightarrow>
      cell_at m' (unat (cm_size_x cm)) a b =
        (if unat x0 \<le> a \<and> a < unat xn \<and> unat y0 \<le> b \<and> b < unat yn then v
         else cell_at m (unat (cm_size_x cm)) a b))"
proof -
  let ?w = "unat (cm_size_x cm)" and ?h = "unat (cm_size_y cm)"
  have n: "unat x0 \<le> unat xn" "unat xn \<le> ?w" "unat y0 \<le> unat yn" "unat yn \<le> ?h"
    using assms(4-7) by (simp_all add: word_le_nat_alt)
  have len: "unat (xn - x0) = unat xn - unat x0" using assms(4) by (simp add: unat_sub)
  have idx: "unat (k * cm_size_x cm + x0) = unat k * ?w + unat x0" if "unat k \<le> ?h" for k
  proof -
    have "unat k * ?w \<le> ?w * ?h" using that by (metis mult.commute mult_le_mono1)
    moreover have "unat x0 \<le> ?w" using n by linarith
    ultimately have lt: "unat k * ?w + unat x0 < 2 ^ 32" using assms(3) by linarith
    then show ?thesis by (simp add: unat_word_ariths)
  qed
  have lm: "length m = ?w * ?h" and bd: "?w * ?h + unat x0 < 2 ^ 32"
    and fit: "unat x0 + (unat xn - unat x0) \<le> ?w" "unat y0 + (unat yn - unat y0) \<le> ?h"
    using assms(1-3) n by (auto simp: cm_wf_def)
  obtain m' where "reset_rows (cm_size_x cm) (yn * cm_size_x cm + x0) (unat xn - unat x0) v
      (y0 * cm_size_x cm + x0) m = Some m'" "length m' = length m"
    "\<forall>a b. a < ?w \<longrightarrow> b < ?h \<longrightarrow> cell_at m' ?w a b =
      (if unat x0 \<le> a \<and> a < unat x0 + (unat xn - unat x0) \<and> unat y0 \<le> b \<and>
          b < unat y0 + (unat yn - unat y0) then v else cell_at m ?w a b)"
    using reset_rows_cells [OF bd lm fit assms(8), of "y0 * cm_size_x cm + x0"
        "yn * cm_size_x cm + x0" v] idx [of y0] idx [of yn] n by auto
  then show ?thesis using assms(2) n by (auto simp: resetMapToValue_def len)
qed

text \<open>On a well-formed costmap with room for one more row below \<open>2 ^ 32\<close>, \<open>resetMapToValue\<close> over
  a rectangle of the map returns, and afterwards exactly the cells of the rectangle
  \<open>[x0, xn) \<times> [y0, yn)\<close> hold the value, every other cell its old cost.\<close>

theorem resetMapToValue_cells:
  assumes "cm_wf cm" "cm_costmap cm = Some m"
    and "unat (cm_size_x cm) * unat (cm_size_y cm) + unat (cm_size_x cm) < 2 ^ 32"
    and "x0 \<le> xn" "xn \<le> cm_size_x cm" "y0 \<le> yn" "yn \<le> cm_size_y cm" "0 < cm_size_x cm"
  shows "\<exists>m'. resetMapToValue cm x0 y0 xn yn v = Some (cm\<lparr>cm_costmap := Some m'\<rparr>) \<and>
    length m' = length m \<and>
    (\<forall>a b. a < unat (cm_size_x cm) \<longrightarrow> b < unat (cm_size_y cm) \<longrightarrow>
      cell_at m' (unat (cm_size_x cm)) a b =
        (if unat x0 \<le> a \<and> a < unat xn \<and> unat y0 \<le> b \<and> b < unat yn then v
         else cell_at m (unat (cm_size_x cm)) a b))"
  using assms by (rule resetMapToValue_effect)

lemma copyWindow_effect:
  assumes "cm_wf cm" "cm_costmap cm = Some dst" "cm_wf source" "cm_costmap source = Some src"
    and "sx0 \<le> sxn" "sxn \<le> cm_size_x source" "sy0 \<le> syn" "syn \<le> cm_size_y source"
    and "unat dx0 + (unat sxn - unat sx0) \<le> unat (cm_size_x cm)"
    and "unat dy0 + (unat syn - unat sy0) \<le> unat (cm_size_y cm)"
  shows "\<exists>dst'. copyWindow cm source sx0 sy0 sxn syn dx0 dy0 =
      Some (True, cm\<lparr>cm_costmap := Some dst'\<rparr>) \<and> length dst' = length dst \<and>
    (\<forall>x y. x < unat (cm_size_x cm) \<longrightarrow> y < unat (cm_size_y cm) \<longrightarrow>
      cell_at dst' (unat (cm_size_x cm)) x y =
        (if unat dx0 \<le> x \<and> x < unat dx0 + (unat sxn - unat sx0) \<and>
            unat dy0 \<le> y \<and> y < unat dy0 + (unat syn - unat sy0)
         then cell_at src (unat (cm_size_x source)) (unat sx0 + (x - unat dx0))
                (unat sy0 + (y - unat dy0))
         else cell_at dst (unat (cm_size_x cm)) x y))"
proof -
  have sub: "unat (sxn - sx0) = unat sxn - unat sx0" "unat (syn - sy0) = unat syn - unat sy0"
    using assms(5,7) by (simp_all add: unat_sub)
  have lt32: "unat (cm_size_x cm) < 2 ^ 32" "unat (cm_size_y cm) < 2 ^ 32"
    by (rule u32_less)+
  have add: "unat (dx0 + (sxn - sx0)) = unat dx0 + (unat sxn - unat sx0)"
    "unat (dy0 + (syn - sy0)) = unat dy0 + (unat syn - unat sy0)"
    using lt32 assms(9,10) sub by (simp_all add: unat_word_ariths)
  have guards: "\<not> (cm_size_x source < sxn \<or> cm_size_y source < syn)"
    "\<not> (cm_size_x cm < dx0 + (sxn - sx0) \<or> cm_size_y cm < dy0 + (syn - sy0))"
    using assms(6,8-10) add by (simp_all add: word_less_nat_alt word_le_nat_alt)
  have fit: "unat sx0 + unat (sxn - sx0) \<le> unat (cm_size_x source)"
    "unat sy0 + unat (syn - sy0) \<le> unat (cm_size_y source)"
    "unat dx0 + unat (sxn - sx0) \<le> unat (cm_size_x cm)"
    "unat dy0 + unat (syn - sy0) \<le> unat (cm_size_y cm)"
    using assms(5-10) sub by (simp_all add: word_le_nat_alt)
  have wf: "unat (cm_size_x source) * unat (cm_size_y source) < 2 ^ 32"
    "length src = unat (cm_size_x source) * unat (cm_size_y source)"
    "unat (cm_size_x cm) * unat (cm_size_y cm) < 2 ^ 32"
    "length dst = unat (cm_size_x cm) * unat (cm_size_y cm)"
    using assms(1-4) by (auto simp: cm_wf_def)
  from copyMapRegion_cells [OF wf fit] obtain dst' where
    "copyMapRegion src sx0 sy0 (cm_size_x source) dst dx0 dy0 (cm_size_x cm)
      (sxn - sx0) (syn - sy0) = Some dst'" and rest: "length dst' = length dst"
    "\<forall>x y. x < unat (cm_size_x cm) \<longrightarrow> y < unat (cm_size_y cm) \<longrightarrow>
      cell_at dst' (unat (cm_size_x cm)) x y =
        (if unat dx0 \<le> x \<and> x < unat dx0 + unat (sxn - sx0) \<and>
            unat dy0 \<le> y \<and> y < unat dy0 + unat (syn - sy0)
         then cell_at src (unat (cm_size_x source)) (unat sx0 + (x - unat dx0))
                (unat sy0 + (y - unat dy0))
         else cell_at dst (unat (cm_size_x cm)) x y)"
    by blast
  then have "copyWindow cm source sx0 sy0 sxn syn dx0 dy0 = Some (True, cm\<lparr>cm_costmap := Some dst'\<rparr>)"
    using guards assms(2,4) by (simp add: copyWindow_def Let_def)
  then show ?thesis using rest unfolding sub by blast
qed

text \<open>\<open>copyWindow\<close> between well-formed costmaps copies the window cell by cell when the window
  lies inside the source and fits the destination (no wrap in \<open>dx0 + (sxn - sx0)\<close>): it
  returns true, and no cell outside of the destination window changes.\<close>

theorem copyWindow_cells:
  assumes "cm_wf cm" "cm_costmap cm = Some dst" "cm_wf source" "cm_costmap source = Some src"
    and "sx0 \<le> sxn" "sxn \<le> cm_size_x source" "sy0 \<le> syn" "syn \<le> cm_size_y source"
    and "unat dx0 + (unat sxn - unat sx0) \<le> unat (cm_size_x cm)"
    and "unat dy0 + (unat syn - unat sy0) \<le> unat (cm_size_y cm)"
  shows "\<exists>dst'. copyWindow cm source sx0 sy0 sxn syn dx0 dy0 =
      Some (True, cm\<lparr>cm_costmap := Some dst'\<rparr>) \<and> length dst' = length dst \<and>
    (\<forall>x y. x < unat (cm_size_x cm) \<longrightarrow> y < unat (cm_size_y cm) \<longrightarrow>
      cell_at dst' (unat (cm_size_x cm)) x y =
        (if unat dx0 \<le> x \<and> x < unat dx0 + (unat sxn - unat sx0) \<and>
            unat dy0 \<le> y \<and> y < unat dy0 + (unat syn - unat sy0)
         then cell_at src (unat (cm_size_x source)) (unat sx0 + (x - unat dx0))
                (unat sy0 + (y - unat dy0))
         else cell_at dst (unat (cm_size_x cm)) x y))"
  using assms by (rule copyWindow_effect)

section \<open>The rolling origin\<close>

lemma unat_of_int_pos: "0 \<le> k \<Longrightarrow> k < 2 ^ 32 \<Longrightarrow> unat (word_of_int k :: u32) = nat k"
  by (simp add: unat_eq_nat_uint uint_word_of_int take_bit_eq_mod)

lemma sint_small: "unat (w::u32) < 2 ^ 31 \<Longrightarrow> sint w = int (unat w)"
  using sint_delta [of "unat w" 0] by simp

text \<open>One axis of the window: first kept cell, number of kept cells, their new place.\<close>

definition win_low :: "int \<Rightarrow> int \<Rightarrow> int" where
  "win_low c n = min (max c 0) n"

definition win_len :: "int \<Rightarrow> int \<Rightarrow> int" where
  "win_len c n = min (max (c + n) 0) n - win_low c n"

lemma win_bounds:
  assumes "0 \<le> n"
  shows "0 \<le> win_low c n" "win_low c n \<le> n" "0 \<le> win_len c n" "win_low c n + win_len c n \<le> n"
    and "win_len c n \<noteq> 0 \<Longrightarrow> 0 \<le> win_low c n - c \<and> win_low c n - c + win_len c n \<le> n"
  using assms by (auto simp: win_low_def win_len_def min_def max_def split: if_splits)

lemma win_shift:
  assumes "0 \<le> n" "0 \<le> x" "x < n" "win_len c n \<noteq> 0"
  shows "win_low c n - c \<le> x \<and> x < win_low c n - c + win_len c n \<longleftrightarrow> 0 \<le> x + c \<and> x + c < n"
  using assms by (auto simp: win_low_def win_len_def min_def max_def)

lemma win_empty: "0 \<le> x \<Longrightarrow> x < n \<Longrightarrow> win_len c n = 0 \<Longrightarrow> \<not> (0 \<le> x + c \<and> x + c < n)"
  by (auto simp: win_low_def win_len_def min_def max_def split: if_splits)

text \<open>Copying the kept window out and back in, on the cells.\<close>

lemma roll_cells:
  fixes sx sy :: u32
  assumes w: "unat sx * unat sy < 2 ^ 32" and m: "length m = unat sx * unat sy"
    and lim: "unat sx < 2 ^ 31" "unat sy < 2 ^ 31"
    and lx: "lx = win_low cx (int (unat sx))" and ly: "ly = win_low cy (int (unat sy))"
    and rx: "rx = win_len cx (int (unat sx))" and ry: "ry = win_len cy (int (unat sy))"
  shows "\<exists>loc m2. copyMapRegion m (word_of_int lx) (word_of_int ly) sx
      (map garbage [0..<unat (word_of_int rx * word_of_int ry :: u32)]) 0 0 (word_of_int rx)
      (word_of_int rx) (word_of_int ry) = Some loc \<and>
    copyMapRegion loc 0 0 (word_of_int rx) (replicate (length m) d) (word_of_int (lx - cx))
      (word_of_int (ly - cy)) sx (word_of_int rx) (word_of_int ry) = Some m2 \<and>
    length m2 = length m \<and>
    (\<forall>x y. x < unat sx \<longrightarrow> y < unat sy \<longrightarrow> cell_at m2 (unat sx) x y =
      (if 0 \<le> int x + cx \<and> int x + cx < int (unat sx) \<and> 0 \<le> int y + cy \<and> int y + cy < int (unat sy)
       then cell_at m (unat sx) (nat (int x + cx)) (nat (int y + cy)) else d))"
proof (cases "rx = 0 \<or> ry = 0")
  case True
  have "cell_at (replicate (length m) d) (unat sx) x y = d" if "x < unat sx" "y < unat sy" for x y
    using that m by (simp add: cell_at_replicate)
  moreover have "\<not> (0 \<le> int x + cx \<and> int x + cx < int (unat sx) \<and> 0 \<le> int y + cy \<and>
      int y + cy < int (unat sy))" if "x < unat sx" "y < unat sy" for x y
    using True win_empty [of "int x" "int (unat sx)" cx] win_empty [of "int y" "int (unat sy)" cy]
      that rx ry by auto
  ultimately show ?thesis using True by (auto simp: copyMapRegion_empty)
next
  case False
  have bx: "0 \<le> lx" "lx \<le> int (unat sx)" "0 \<le> rx" "lx + rx \<le> int (unat sx)" "0 \<le> lx - cx"
    "lx - cx + rx \<le> int (unat sx)"
    using win_bounds [of "int (unat sx)" cx] False lx rx by auto
  have byy: "0 \<le> ly" "ly \<le> int (unat sy)" "0 \<le> ry" "ly + ry \<le> int (unat sy)" "0 \<le> ly - cy"
    "ly - cy + ry \<le> int (unat sy)"
    using win_bounds [of "int (unat sy)" cy] False ly ry by auto
  have u: "unat (word_of_int lx :: u32) = nat lx" "unat (word_of_int rx :: u32) = nat rx"
    "unat (word_of_int (lx - cx) :: u32) = nat (lx - cx)" "unat (word_of_int ly :: u32) = nat ly"
    "unat (word_of_int ry :: u32) = nat ry" "unat (word_of_int (ly - cy) :: u32) = nat (ly - cy)"
    using unat_of_int_pos [of lx] unat_of_int_pos [of rx] unat_of_int_pos [of "lx - cx"]
      unat_of_int_pos [of ly] unat_of_int_pos [of ry] unat_of_int_pos [of "ly - cy"] bx byy lim
    by simp_all
  have "nat rx * nat ry \<le> unat sx * unat sy" using bx byy by (intro mult_le_mono) linarith+
  then have r: "nat rx * nat ry < 2 ^ 32" using w by linarith
  let ?rx = "word_of_int rx :: u32" and ?ry = "word_of_int ry :: u32"
  let ?loc0 = "map garbage [0..<unat (?rx * ?ry)]"
  have l0: "length ?loc0 = unat ?rx * unat ?ry" using r u by (simp add: unat_word_ariths)
  have r': "unat ?rx * unat ?ry < 2 ^ 32" using r u by simp
  have "unat (word_of_int lx :: u32) + unat ?rx \<le> unat sx" "unat (word_of_int ly :: u32) + unat ?ry \<le> unat sy"
    "unat (0::u32) + unat ?rx \<le> unat ?rx" "unat (0::u32) + unat ?ry \<le> unat ?ry"
    using bx byy u by auto
  from copyMapRegion_cells [OF w m r' l0 this] obtain loc where
    loc: "copyMapRegion m (word_of_int lx) (word_of_int ly) sx ?loc0 0 0 ?rx ?rx ?ry = Some loc"
      "length loc = length ?loc0"
      "\<And>x y. x < nat rx \<Longrightarrow> y < nat ry \<Longrightarrow>
        cell_at loc (nat rx) x y = cell_at m (unat sx) (nat lx + x) (nat ly + y)"
    using u by auto
  have l1: "length loc = unat ?rx * unat ?ry" using loc(2) l0 by simp
  have lr: "length (replicate (length m) d) = unat sx * unat sy" using m by simp
  have "unat (0::u32) + unat ?rx \<le> unat ?rx" "unat (0::u32) + unat ?ry \<le> unat ?ry"
    "unat (word_of_int (lx - cx) :: u32) + unat ?rx \<le> unat sx"
    "unat (word_of_int (ly - cy) :: u32) + unat ?ry \<le> unat sy"
    using bx byy u by auto
  from copyMapRegion_cells [OF r' l1 w lr this] obtain m2 where
    m2: "copyMapRegion loc 0 0 ?rx (replicate (length m) d) (word_of_int (lx - cx))
        (word_of_int (ly - cy)) sx ?rx ?ry = Some m2" "length m2 = length m"
      "\<And>x y. x < unat sx \<Longrightarrow> y < unat sy \<Longrightarrow> cell_at m2 (unat sx) x y =
        (if nat (lx - cx) \<le> x \<and> x < nat (lx - cx) + nat rx \<and> nat (ly - cy) \<le> y \<and> y < nat (ly - cy) + nat ry
         then cell_at loc (nat rx) (x - nat (lx - cx)) (y - nat (ly - cy))
         else cell_at (replicate (length m) d) (unat sx) x y)"
    using u by auto
  have "cell_at m2 (unat sx) x y =
      (if 0 \<le> int x + cx \<and> int x + cx < int (unat sx) \<and> 0 \<le> int y + cy \<and> int y + cy < int (unat sy)
       then cell_at m (unat sx) (nat (int x + cx)) (nat (int y + cy)) else d)"
    if xy: "x < unat sx" "y < unat sy" for x y
  proof -
    have inx: "nat (lx - cx) \<le> x \<and> x < nat (lx - cx) + nat rx \<longleftrightarrow>
        0 \<le> int x + cx \<and> int x + cx < int (unat sx)"
      using win_shift [of "int (unat sx)" "int x" cx] xy False bx lx rx by auto
    have iny: "nat (ly - cy) \<le> y \<and> y < nat (ly - cy) + nat ry \<longleftrightarrow>
        0 \<le> int y + cy \<and> int y + cy < int (unat sy)"
      using win_shift [of "int (unat sy)" "int y" cy] xy False byy ly ry by auto
    have "cell_at (replicate (length m) d) (unat sx) x y = d"
      using xy m by (simp add: cell_at_replicate)
    moreover have "cell_at loc (nat rx) (x - nat (lx - cx)) (y - nat (ly - cy)) =
        cell_at m (unat sx) (nat (int x + cx)) (nat (int y + cy))"
      if "nat (lx - cx) \<le> x \<and> x < nat (lx - cx) + nat rx" "nat (ly - cy) \<le> y \<and> y < nat (ly - cy) + nat ry"
    proof -
      have "nat lx + (x - nat (lx - cx)) = nat (int x + cx)" "nat ly + (y - nat (ly - cy)) = nat (int y + cy)"
        using that bx byy by linarith+
      moreover have "x - nat (lx - cx) < nat rx" "y - nat (ly - cy) < nat ry" using that by linarith+
      ultimately show ?thesis using loc(3) [of "x - nat (lx - cx)" "y - nat (ly - cy)"] by simp
    qed
    ultimately show ?thesis using m2(3) [OF xy] inx iny by auto
  qed
  then show ?thesis using loc(1) m2(1,2) by blast
qed

text \<open>C18. Rolling the origin of a well-formed costmap by \<open>(cx, cy)\<close> cells (the new origin
  truncated to the grid; no signed overflow) keeps the size and moves the map: cell \<open>(x, y)\<close>
  afterwards holds what cell \<open>(x + cx, y + cy)\<close> held before when that was inside the map, the
  default value otherwise; the new origin is the old one plus whole cells.\<close>

theorem updateOrigin_cells:
  assumes "cm_wf cm" "cm_costmap cm = Some m" "cm_resolution cm \<noteq> 0"
    and "unat (cm_size_x cm) < 2 ^ 31" "unat (cm_size_y cm) < 2 ^ 31"
    and "cx = trunc ((nox - cm_origin_x cm) / cm_resolution cm)"
    and "cy = trunc ((noy - cm_origin_y cm) / cm_resolution cm)"
    and "\<bar>cx\<bar> + int (unat (cm_size_x cm)) < 2 ^ 31" "\<bar>cy\<bar> + int (unat (cm_size_y cm)) < 2 ^ 31"
  shows "\<exists>m'. updateOrigin garbage cm nox noy =
      Some (cm\<lparr>cm_origin_x := cm_origin_x cm + real_of_int cx * cm_resolution cm,
               cm_origin_y := cm_origin_y cm + real_of_int cy * cm_resolution cm,
               cm_costmap := Some m'\<rparr>) \<and> length m' = length m \<and>
    (\<forall>x y. x < unat (cm_size_x cm) \<longrightarrow> y < unat (cm_size_y cm) \<longrightarrow>
      cell_at m' (unat (cm_size_x cm)) x y =
        (if 0 \<le> int x + cx \<and> int x + cx < int (unat (cm_size_x cm)) \<and>
            0 \<le> int y + cy \<and> int y + cy < int (unat (cm_size_y cm))
         then cell_at m (unat (cm_size_x cm)) (nat (int x + cx)) (nat (int y + cy))
         else cm_default cm))"
proof -
  let ?sx = "cm_size_x cm" and ?sy = "cm_size_y cm"
  define lx ly where "lx = win_low cx (int (unat ?sx))" and "ly = win_low cy (int (unat ?sy))"
  define rx ry where "rx = win_len cx (int (unat ?sx))" and "ry = win_len cy (int (unat ?sy))"
  have w: "unat ?sx * unat ?sy < 2 ^ 32" "length m = unat ?sx * unat ?sy"
    using assms(1,2) by (auto simp: cm_wf_def)
  obtain loc m2 where roll:
    "copyMapRegion m (word_of_int lx) (word_of_int ly) ?sx
      (map garbage [0..<unat (word_of_int rx * word_of_int ry :: u32)]) 0 0 (word_of_int rx)
      (word_of_int rx) (word_of_int ry) = Some loc"
    "copyMapRegion loc 0 0 (word_of_int rx) (replicate (length m) (cm_default cm))
      (word_of_int (lx - cx)) (word_of_int (ly - cy)) ?sx (word_of_int rx) (word_of_int ry) = Some m2"
    and res: "length m2 = length m"
    "\<forall>x y. x < unat ?sx \<longrightarrow> y < unat ?sy \<longrightarrow> cell_at m2 (unat ?sx) x y =
      (if 0 \<le> int x + cx \<and> int x + cx < int (unat ?sx) \<and> 0 \<le> int y + cy \<and> int y + cy < int (unat ?sy)
       then cell_at m (unat ?sx) (nat (int x + cx)) (nat (int y + cy)) else cm_default cm)"
    using roll_cells [OF w assms(4,5) lx_def ly_def rx_def ry_def, of garbage "cm_default cm"] by blast
  have casts: "cast_int ((nox - cm_origin_x cm) / cm_resolution cm) = Some (word_of_int cx)"
    "cast_int ((noy - cm_origin_y cm) / cm_resolution cm) = Some (word_of_int cy)"
    using assms(6-9) by (auto simp: cast_int_def Let_def)
  have sint: "sint (word_of_int cx :: u32) = cx" "sint (word_of_int cy :: u32) = cy"
    using assms(8,9) by (simp_all add: sint_sbintrunc' signed_take_bit_int_eq_self)
  have adds: "int_add cx (int (unat ?sx)) = Some (cx + int (unat ?sx))"
    "int_add cy (int (unat ?sy)) = Some (cy + int (unat ?sy))"
    "int_add lx (- cx) = Some (lx - cx)" "int_add ly (- cy) = Some (ly - cy)"
    using assms(8,9) win_bounds(1,2) [of "int (unat ?sx)" cx] win_bounds(1,2) [of "int (unat ?sy)" cy]
    by (auto simp: int_add_def lx_def ly_def)
  note lr = lx_def [unfolded win_low_def, symmetric] ly_def [unfolded win_low_def, symmetric]
    rx_def [unfolded win_len_def, folded lx_def, symmetric]
    ry_def [unfolded win_len_def, folded ly_def, symmetric]
  have "updateOrigin garbage cm nox noy =
      Some (cm\<lparr>cm_origin_x := cm_origin_x cm + real_of_int cx * cm_resolution cm,
               cm_origin_y := cm_origin_y cm + real_of_int cy * cm_resolution cm,
               cm_costmap := Some m2\<rparr>)"
    unfolding updateOrigin_def cell_quot_def Let_def
    using assms(3) by (simp only: if_False bind.bind_lunit casts sint sint_small [OF assms(4)]
        sint_small [OF assms(5)] adds lr assms(2) roll(1) resetMaps_eq [OF assms(2) w(2,1)])
      (simp del: of_int_diff add: roll(2))
  then show ?thesis using res by blast
qed

section \<open>Sample costmaps for the witnesses\<close>

definition sample_map :: "u32 \<Rightarrow> u32 \<Rightarrow> u8 list \<Rightarrow> costmap2d" where
  "sample_map sx sy cells =
     \<lparr>cm_size_x = sx, cm_size_y = sy, cm_resolution = 1 / 2, cm_origin_x = 1, cm_origin_y = - 1,
      cm_costmap = Some cells, cm_default = 7\<rparr>"

lemma sample_wf:
  "length cells = unat sx * unat sy \<Longrightarrow> unat sx * unat sy < 2 ^ 32 \<Longrightarrow> cm_wf (sample_map sx sy cells)"
  by (simp add: cm_wf_def sample_map_def)

lemma sample_simps [simp]:
  "cm_size_x (sample_map sx sy cells) = sx" "cm_size_y (sample_map sx sy cells) = sy"
  "cm_costmap (sample_map sx sy cells) = Some cells" "cm_resolution (sample_map sx sy cells) = 1 / 2"
  "cm_origin_x (sample_map sx sy cells) = 1" "cm_origin_y (sample_map sx sy cells) = - 1"
  "cm_default (sample_map sx sy cells) = 7"
  by (simp_all add: sample_map_def)

theorem resetMapToValue_cells_witness:
  "\<exists>m'. resetMapToValue (sample_map 3 2 [1, 2, 3, 4, 5, 6]) 1 0 3 2 9 =
      Some (sample_map 3 2 [1, 2, 3, 4, 5, 6]\<lparr>cm_costmap := Some m'\<rparr>) \<and>
    cell_at m' 3 0 1 = 4 \<and> cell_at m' 3 2 1 = 9"
proof -
  have w: "cm_wf (sample_map 3 2 [1, 2, 3, 4, 5, 6])" by (rule sample_wf) simp_all
  have le: "(1::u32) \<le> 3" "(0::u32) \<le> 2" "(0::u32) < 3" by (simp_all add: word_le_nat_alt word_less_nat_alt)
  obtain m' where m': "resetMapToValue (sample_map 3 2 [1, 2, 3, 4, 5, 6]) 1 0 3 2 9 =
      Some (sample_map 3 2 [1, 2, 3, 4, 5, 6]\<lparr>cm_costmap := Some m'\<rparr>)"
    and cells: "\<And>a b. a < 3 \<Longrightarrow> b < 2 \<Longrightarrow> cell_at m' 3 a b =
      (if 1 \<le> a \<and> a < 3 \<and> b < 2 then 9 else cell_at [1, 2, 3, 4, 5, 6] 3 a b)"
    using resetMapToValue_cells [OF w, of "[1, 2, 3, 4, 5, 6]" 1 3 0 2 9] le by auto
  then show ?thesis using cells [of 0 1] cells [of 2 1] by (auto simp: cell_at_def)
qed

theorem copyWindow_cells_witness:
  "\<exists>dst'. copyWindow (sample_map 2 2 [0, 0, 0, 0]) (sample_map 3 2 [1, 2, 3, 4, 5, 6]) 2 0 3 2 1 0 =
      Some (True, sample_map 2 2 [0, 0, 0, 0]\<lparr>cm_costmap := Some dst'\<rparr>) \<and>
    cell_at dst' 2 1 1 = 6 \<and> cell_at dst' 2 0 1 = 0"
proof -
  have w: "cm_wf (sample_map 2 2 [0, 0, 0, 0])" by (rule sample_wf) simp_all
  have v: "cm_wf (sample_map 3 2 [1, 2, 3, 4, 5, 6])" by (rule sample_wf) simp_all
  have le: "(2::u32) \<le> 3" "(0::u32) \<le> 2" by (simp_all add: word_le_nat_alt)
  obtain dst' where "copyWindow (sample_map 2 2 [0, 0, 0, 0]) (sample_map 3 2 [1, 2, 3, 4, 5, 6]) 2 0 3 2 1 0 =
      Some (True, sample_map 2 2 [0, 0, 0, 0]\<lparr>cm_costmap := Some dst'\<rparr>)"
    and cells: "\<And>x y. x < 2 \<Longrightarrow> y < 2 \<Longrightarrow> cell_at dst' 2 x y =
      (if 1 \<le> x \<and> x < 2 \<and> y < 2 then cell_at [1, 2, 3, 4, 5, 6] 3 (2 + (x - 1)) y
       else cell_at [0, 0, 0, 0] 2 x y)"
    using copyWindow_cells [OF w _ v, of "[0, 0, 0, 0]" "[1, 2, 3, 4, 5, 6]" 2 3 0 2 1 0] le by auto
  then show ?thesis using cells [of 1 1] cells [of 0 1] by (auto simp: cell_at_def)
qed

theorem updateOrigin_cells_witness:
  "\<exists>m'. updateOrigin (\<lambda>_. 99) (sample_map 2 2 [1, 2, 3, 4]) (3 / 2) (- 1) =
      Some (sample_map 2 2 [1, 2, 3, 4]\<lparr>cm_origin_x := 3 / 2, cm_origin_y := - 1, cm_costmap := Some m'\<rparr>) \<and>
    cell_at m' 2 0 1 = 4 \<and> cell_at m' 2 1 1 = 7"
proof -
  have w: "cm_wf (sample_map 2 2 [1, 2, 3, 4])" by (rule sample_wf) simp_all
  have c: "1 = trunc ((3 / 2 - cm_origin_x (sample_map 2 2 [1, 2, 3, 4])) / cm_resolution (sample_map 2 2 [1, 2, 3, 4]))"
    "0 = trunc ((- 1 - cm_origin_y (sample_map 2 2 [1, 2, 3, 4])) / cm_resolution (sample_map 2 2 [1, 2, 3, 4]))"
    by (simp_all add: trunc_def)
  have r: "cm_resolution (sample_map 2 2 [1, 2, 3, 4]) \<noteq> 0" by simp
  obtain m' where "updateOrigin (\<lambda>_. 99) (sample_map 2 2 [1, 2, 3, 4]) (3 / 2) (- 1) =
      Some (sample_map 2 2 [1, 2, 3, 4]\<lparr>cm_origin_x := 3 / 2, cm_origin_y := - 1, cm_costmap := Some m'\<rparr>)"
    and cells: "\<And>x y. x < 2 \<Longrightarrow> y < 2 \<Longrightarrow> cell_at m' 2 x y =
      (if int x + 1 < 2 \<and> int y < 2 then cell_at [1, 2, 3, 4] 2 (nat (int x + 1)) y else 7)"
    using updateOrigin_cells [OF w _ r _ _ c, of "[1, 2, 3, 4]" "\<lambda>_. 99"] by auto
  then show ?thesis using cells [of 0 1] cells [of 1 1] by (auto simp: cell_at_def)
qed

section \<open>Coordinate transforms\<close>

lemma indexToCells_getIndex:
  assumes "cm_wf cm" "mx < cm_size_x cm" "my < cm_size_y cm"
  shows "indexToCells cm (getIndex cm mx my) = Some (mx, my)"
proof -
  have i: "unat (getIndex cm mx my) = unat my * unat (cm_size_x cm) + unat mx"
    using getIndex_nat(1) [OF assms] .
  have x: "unat mx < unat (cm_size_x cm)" using assms(2) by (simp add: word_less_nat_alt)
  have "unat (getIndex cm mx my div cm_size_x cm) = unat my"
    using i x by (simp add: unat_div)
  then have "getIndex cm mx my div cm_size_x cm = my" by (simp add: word_unat_eq_iff)
  moreover have "cm_size_x cm \<noteq> 0" using x by auto
  ultimately show ?thesis by (simp add: indexToCells_def Let_def getIndex_def)
qed

text \<open>C39. The cell of the centre of a cell is that cell: \<open>worldToMap\<close> inverts \<open>mapToWorld\<close> on every
  cell of the map, and \<open>indexToCells\<close> inverts \<open>getIndex\<close>.\<close>

theorem world_map_roundtrip:
  assumes "cm_wf cm" "0 < cm_resolution cm" "mx < cm_size_x cm" "my < cm_size_y cm"
  shows "worldToMap cm (fst (mapToWorld cm mx my)) (snd (mapToWorld cm mx my)) = Some (Some (mx, my))
    \<and> indexToCells cm (getIndex cm mx my) = Some (mx, my)"
proof -
  have cast: "cast_uint (real (unat w) + 1 / 2) = Some w" for w :: u32
  proof -
    have upper: "real (unat w) + 1 / 2 < real (Suc (unat w))" by simp
    have bound: "Suc (unat w) \<le> 2 ^ 32" using u32_less [of w] by (rule Suc_leI)
    have "cast_uint (real (unat w) + 1 / 2) = Some (of_nat (cell_of (real (unat w) + 1 / 2)))"
      by (rule cast_uint_cell [OF _ upper bound]) simp
    moreover have "\<lfloor>real (unat w) + 1 / 2\<rfloor> = int (unat w)" by (simp add: floor_unique)
    then have "cell_of (real (unat w) + 1 / 2) = unat w" by (simp add: cell_of_def)
    ultimately show ?thesis by simp
  qed
  have quot: "((org + (real (unat w) + 1 / 2) * res) - org) / res = real (unat w) + 1 / 2"
    and ge: "\<not> org + (real (unat w) + 1 / 2) * res < org" if "0 < res" for org res and w :: u32
    using that by (simp_all add: not_less)
  have "worldToMap cm (fst (mapToWorld cm mx my)) (snd (mapToWorld cm mx my)) = Some (Some (mx, my))"
    unfolding worldToMap_def mapToWorld_def cell_quot_def fst_conv snd_conv
    using assms(3,4) order_less_imp_not_eq2 [OF assms(2)]
    by (simp only: bind.simps quot [OF assms(2)] ge [OF assms(2)] cast Let_def simp_thms if_False if_True)
  moreover have "indexToCells cm (getIndex cm mx my) = Some (mx, my)"
    by (rule indexToCells_getIndex) fact+
  ultimately show ?thesis by simp
qed

theorem world_map_roundtrip_witness:
  "worldToMap (sample_map 3 2 [1, 2, 3, 4, 5, 6]) (9 / 4) (- 3 / 4) = Some (Some (2, 0)) \<and>
   indexToCells (sample_map 3 2 [1, 2, 3, 4, 5, 6]) 2 = Some (2, 0)"
proof -
  have w: "cm_wf (sample_map 3 2 [1, 2, 3, 4, 5, 6])" by (rule sample_wf) simp_all
  have lt: "(2::u32) < 3" "(0::u32) < 2" by (simp_all add: word_less_nat_alt)
  show ?thesis
    using world_map_roundtrip [OF w, of 2 0] lt by (simp add: mapToWorld_def getIndex_def)
qed

lemma enforce_bounds_effect:
  assumes "0 < cm_resolution cm" "0 < cm_size_x cm" "0 < cm_size_y cm"
    and "unat (cm_size_x cm) < 2 ^ 31" "unat (cm_size_y cm) < 2 ^ 31"
  shows "\<exists>mx my. worldToMapEnforceBounds cm wx wy = Some (mx, my) \<and>
    0 \<le> mx \<and> mx \<le> int (unat (cm_size_x cm)) \<and> 0 \<le> my \<and> my \<le> int (unat (cm_size_y cm)) \<and>
    (mx = int (unat (cm_size_x cm)) \<longleftrightarrow>
      wx = cm_resolution cm * real (unat (cm_size_x cm)) + cm_origin_x cm) \<and>
    (my = int (unat (cm_size_y cm)) \<longleftrightarrow>
      wy = cm_resolution cm * real (unat (cm_size_y cm)) + cm_origin_y cm)"
proof -
  have axis: "\<exists>m. enforce_axis w org sz res = Some m \<and> 0 \<le> m \<and> m \<le> int (unat sz) \<and>
      (m = int (unat sz) \<longleftrightarrow> w = res * real (unat sz) + org)"
    if sz: "0 < sz" "unat sz < 2 ^ 31" and res: "0 < res" for w org res and sz :: u32
  proof -
    have n: "0 < unat sz" using sz(1) by (simp add: word_less_nat_alt)
    consider "w < org" | "res * real (unat sz) + org < w" | "org \<le> w" "w \<le> res * real (unat sz) + org"
      by linarith
    then show ?thesis
    proof cases
      case 1
      moreover have "org < res * real (unat sz) + org" using res n by simp
      ultimately show ?thesis using n by (auto simp: enforce_axis_def)
    next
      case 2
      have "unat (sz - 1) = unat sz - 1" using n by (intro unat_minus_one) auto
      then have "sint (sz - 1) = int (unat sz) - 1" using sz(2) n by (simp add: sint_small)
      moreover have "\<not> w < org" using 2 res n by (smt (verit) mult_nonneg_nonneg of_nat_0_le_iff)
      ultimately show ?thesis using 2 n by (auto simp: enforce_axis_def)
    next
      case 3
      define q where "q = (w - org) / res"
      have q: "0 \<le> q" "q \<le> real (unat sz)" "q = real (unat sz) \<longleftrightarrow> w = res * real (unat sz) + org"
        using 3 res by (auto simp: q_def field_simps)
      have "q < real (Suc (unat sz))" using q(2) by simp
      moreover have "Suc (unat sz) \<le> 2 ^ 31" using sz(2) by (rule Suc_leI)
      ultimately have c: "cast_int q = Some (of_nat (cell_of q))" "cell_of q < Suc (unat sz)"
        using q(1) by (simp_all only: cast_int_cell [of q "Suc (unat sz)"] cell_of_less)
      have "sint (of_nat (cell_of q) :: u32) = int (cell_of q)"
        using c(2) sz(2) sint_delta [of "cell_of q" 0] by simp
      moreover have "cell_of q = unat sz \<longleftrightarrow> q = real (unat sz)"
        using q(1,2) by (auto simp: cell_of_def nat_eq_iff floor_eq_iff)
      ultimately show ?thesis
        using 3 res c q(3) by (auto simp: enforce_axis_def cell_quot_def q_def [symmetric])
    qed
  qed
  show ?thesis
    using axis [OF assms(2,4,1), of wx "cm_origin_x cm"] axis [OF assms(3,5,1), of wy "cm_origin_y cm"]
    by (auto simp: worldToMapEnforceBounds_def)
qed

text \<open>\<open>worldToMapEnforceBounds\<close> keeps a coordinate within \<open>0 .. size\<close>; it yields \<open>size\<close>, one past
  the last cell, exactly for the coordinate on the map's upper edge.\<close>

theorem worldToMapEnforceBounds_range:
  assumes "0 < cm_resolution cm" "0 < cm_size_x cm" "0 < cm_size_y cm"
    and "unat (cm_size_x cm) < 2 ^ 31" "unat (cm_size_y cm) < 2 ^ 31"
  shows "\<exists>mx my. worldToMapEnforceBounds cm wx wy = Some (mx, my) \<and>
    0 \<le> mx \<and> mx \<le> int (unat (cm_size_x cm)) \<and> 0 \<le> my \<and> my \<le> int (unat (cm_size_y cm)) \<and>
    (mx = int (unat (cm_size_x cm)) \<longleftrightarrow>
      wx = cm_resolution cm * real (unat (cm_size_x cm)) + cm_origin_x cm) \<and>
    (my = int (unat (cm_size_y cm)) \<longleftrightarrow>
      wy = cm_resolution cm * real (unat (cm_size_y cm)) + cm_origin_y cm)"
  using assms by (rule enforce_bounds_effect)

theorem worldToMapEnforceBounds_range_witness:
  "\<exists>my. worldToMapEnforceBounds (sample_map 3 2 [1, 2, 3, 4, 5, 6]) (5 / 2) 0 = Some (3, my)"
proof -
  have lt: "(0::u32) < 3" "(0::u32) < 2" by (simp_all add: word_less_nat_alt)
  have "\<exists>mx my. worldToMapEnforceBounds (sample_map 3 2 [1, 2, 3, 4, 5, 6]) (5 / 2) 0 = Some (mx, my) \<and> mx = 3"
    using worldToMapEnforceBounds_range [of "sample_map 3 2 [1, 2, 3, 4, 5, 6]" "5 / 2" 0] lt by auto
  then show ?thesis by auto
qed

end
