(* ===== verification/Costmap_Layers.thy ===== *)
theory Costmap_Layers
  imports Costmap_Windows
begin

text \<open>
  \<open>CostmapLayer\<close> and \<open>LayeredCostmap\<close>: how a layer's costs are combined into the master costmap inside a
  window, and the update cycle that runs all plugins and filters. A layer is a value of any type with
  its virtual methods as a record of functions.
\<close>

section \<open>\<open>CostmapLayer\<close>\<close>

record costmap_layer =
  cl_map :: costmap2d
  cl_enabled :: bool
  cl_current :: bool
  cl_has_extra :: bool
  cl_extra_min_x :: real
  cl_extra_max_x :: real
  cl_extra_min_y :: real
  cl_extra_max_y :: real

text \<open>The bounds \<open>min_x, min_y, max_x, max_y\<close> passed by pointers.\<close>

record bounds =
  b_min_x :: real
  b_min_y :: real
  b_max_x :: real
  b_max_y :: real

definition costmap_layer_new :: "u8 \<Rightarrow> bool \<Rightarrow> bool \<Rightarrow> costmap_layer" where
  "costmap_layer_new uninit enabled current =
     \<lparr>cl_map = costmap2d_null uninit, cl_enabled = enabled, cl_current = current, cl_has_extra = False,
      cl_extra_min_x = 10 ^ 6, cl_extra_max_x = - (10 ^ 6), cl_extra_min_y = 10 ^ 6,
      cl_extra_max_y = - (10 ^ 6)\<rparr>"

definition touch :: "real \<Rightarrow> real \<Rightarrow> bounds \<Rightarrow> bounds" where
  "touch x y b = \<lparr>b_min_x = min x (b_min_x b), b_min_y = min y (b_min_y b),
     b_max_x = max x (b_max_x b), b_max_y = max y (b_max_y b)\<rparr>"

definition layer_matchSize :: "(nat \<Rightarrow> u8) \<Rightarrow> costmap2d \<Rightarrow> costmap_layer \<Rightarrow> costmap_layer option" where
  "layer_matchSize garbage master l = do {
     m \<leftarrow> resizeMap garbage (cl_map l) (cm_size_x master) (cm_size_y master) (cm_resolution master)
       (cm_origin_x master) (cm_origin_y master);
     Some (l\<lparr>cl_map := m\<rparr>)
   }"

text \<open>The body of \<open>clearArea\<close>'s loops at one cell.\<close>

definition clear_cell ::
    "int \<Rightarrow> int \<Rightarrow> int \<Rightarrow> int \<Rightarrow> bool \<Rightarrow> costmap2d \<Rightarrow> int \<times> int \<Rightarrow> u8 list \<Rightarrow> u8 list option" where
  "clear_cell start_x start_y end_x end_y invert cm xy grid =
     (let (x, y) = xy; xrange = (start_x < x \<and> x < end_x) in
      if (xrange \<and> start_y < y \<and> y < end_y) = invert then Some grid
      else do {
        let index = unat (getIndex cm (word_of_int x) (word_of_int y));
        c \<leftarrow> load grid index;
        if c \<noteq> NO_INFORMATION then store grid index NO_INFORMATION else Some grid
      })"

definition clearArea :: "int \<Rightarrow> int \<Rightarrow> int \<Rightarrow> int \<Rightarrow> bool \<Rightarrow> costmap_layer \<Rightarrow> costmap_layer option" where
  "clearArea start_x start_y end_x end_y invert l = do {
     let cm = cl_map l;
     let xs = [0..sint (cm_size_x cm) - 1];
     let ys = [0..sint (cm_size_y cm) - 1];
     if xs = [] \<or> ys = [] then Some (l\<lparr>cl_current := False\<rparr>)
     else do {
       grid \<leftarrow> cm_costmap cm;
       grid' \<leftarrow> foldM (clear_cell start_x start_y end_x end_y invert cm) (List.product xs ys) grid;
       Some (l\<lparr>cl_current := False, cl_map := cm\<lparr>cm_costmap := Some grid'\<rparr>\<rparr>)
     }
   }"

definition addExtraBounds :: "real \<Rightarrow> real \<Rightarrow> real \<Rightarrow> real \<Rightarrow> costmap_layer \<Rightarrow> costmap_layer" where
  "addExtraBounds mx0 my0 mx1 my1 l =
     l\<lparr>cl_extra_min_x := min mx0 (cl_extra_min_x l), cl_extra_max_x := max mx1 (cl_extra_max_x l),
       cl_extra_min_y := min my0 (cl_extra_min_y l), cl_extra_max_y := max my1 (cl_extra_max_y l),
       cl_has_extra := True\<rparr>"

definition useExtraBounds :: "costmap_layer \<Rightarrow> bounds \<Rightarrow> costmap_layer \<times> bounds" where
  "useExtraBounds l b =
     (if \<not> cl_has_extra l then (l, b)
      else (l\<lparr>cl_extra_min_x := 10 ^ 6, cl_extra_min_y := 10 ^ 6, cl_extra_max_x := - (10 ^ 6),
              cl_extra_max_y := - (10 ^ 6), cl_has_extra := False\<rparr>,
            \<lparr>b_min_x = min (cl_extra_min_x l) (b_min_x b), b_min_y = min (cl_extra_min_y l) (b_min_y b),
             b_max_x = max (cl_extra_max_x l) (b_max_x b), b_max_y = max (cl_extra_max_y l) (b_max_y b)\<rparr>))"

section \<open>Combining costs\<close>

text \<open>The body of the inner loop of each update, on the layer's and the master's array at \<open>it\<close>.\<close>

type_synonym cell_op = "u8 list \<Rightarrow> nat \<Rightarrow> u8 list \<Rightarrow> u8 list option"

definition max_op :: cell_op where
  "max_op layer it master = do {
     c \<leftarrow> load layer it;
     if c = NO_INFORMATION then Some master
     else do {
       old_cost \<leftarrow> load master it;
       if old_cost = NO_INFORMATION \<or> old_cost < c then store master it c else Some master
     }
   }"

definition true_overwrite_op :: cell_op where
  "true_overwrite_op layer it master = do { c \<leftarrow> load layer it; store master it c }"

definition overwrite_op :: cell_op where
  "overwrite_op layer it master = do {
     c \<leftarrow> load layer it;
     if c \<noteq> NO_INFORMATION then store master it c else Some master
   }"

definition addition_op :: cell_op where
  "addition_op layer it master = do {
     c \<leftarrow> load layer it;
     if c = NO_INFORMATION then Some master
     else do {
       old_cost \<leftarrow> load master it;
       if old_cost = NO_INFORMATION then store master it c
       else
         let sum = uint old_cost + uint c in
         if uint INSCRIBED_INFLATED_OBSTACLE \<le> sum then store master it (INSCRIBED_INFLATED_OBSTACLE - 1)
         else store master it (word_of_int sum)
     }
   }"

text \<open>
  The loops, over \<open>int\<close> indices with the \<open>unsigned int\<close> cursor \<open>it = j * width + min_i\<close> that \<open>it++\<close>
  advances.
\<close>

definition update_row ::
    "cell_op \<Rightarrow> u8 list \<Rightarrow> u32 \<Rightarrow> int \<Rightarrow> int \<Rightarrow> int \<Rightarrow> u8 list \<Rightarrow> u8 list option" where
  "update_row f layer width min_i max_i j =
     foldM (\<lambda>i. f layer (unat (word_of_int j * width + word_of_int min_i + word_of_int (i - min_i) :: u32)))
       [min_i..max_i - 1]"

definition update_window ::
    "cell_op \<Rightarrow> costmap_layer \<Rightarrow> costmap2d \<Rightarrow> int \<Rightarrow> int \<Rightarrow> int \<Rightarrow> int \<Rightarrow> costmap2d option" where
  "update_window f l master min_i min_j max_i max_j =
     (if max_j \<le> min_j \<or> max_i \<le> min_i then Some master
      else do {
        layer \<leftarrow> cm_costmap (cl_map l);
        grid \<leftarrow> cm_costmap master;
        grid' \<leftarrow> foldM (update_row f layer (cm_size_x master) min_i max_i) [min_j..max_j - 1] grid;
        Some (master\<lparr>cm_costmap := Some grid'\<rparr>)
      })"

definition updateWithMax ::
    "costmap_layer \<Rightarrow> costmap2d \<Rightarrow> int \<Rightarrow> int \<Rightarrow> int \<Rightarrow> int \<Rightarrow> costmap2d option" where
  "updateWithMax l master min_i min_j max_i max_j =
     (if \<not> cl_enabled l then Some master else update_window max_op l master min_i min_j max_i max_j)"

definition updateWithOverwrite ::
    "costmap_layer \<Rightarrow> costmap2d \<Rightarrow> int \<Rightarrow> int \<Rightarrow> int \<Rightarrow> int \<Rightarrow> costmap2d option" where
  "updateWithOverwrite l master min_i min_j max_i max_j =
     (if \<not> cl_enabled l then Some master else update_window overwrite_op l master min_i min_j max_i max_j)"

definition updateWithAddition ::
    "costmap_layer \<Rightarrow> costmap2d \<Rightarrow> int \<Rightarrow> int \<Rightarrow> int \<Rightarrow> int \<Rightarrow> costmap2d option" where
  "updateWithAddition l master min_i min_j max_i max_j =
     (if \<not> cl_enabled l then Some master else update_window addition_op l master min_i min_j max_i max_j)"

text \<open>\<open>updateWithTrueOverwrite\<close> throws when the layer has no map yet.\<close>

datatype layer_error = NotInitialized

definition updateWithTrueOverwrite ::
    "costmap_layer \<Rightarrow> costmap2d \<Rightarrow> int \<Rightarrow> int \<Rightarrow> int \<Rightarrow> int \<Rightarrow> (layer_error + costmap2d) option" where
  "updateWithTrueOverwrite l master min_i min_j max_i max_j =
     (if \<not> cl_enabled l then Some (Inr master)
      else if cm_costmap (cl_map l) = None then Some (Inl NotInitialized)
      else map_option Inr (update_window true_overwrite_op l master min_i min_j max_i max_j))"

section \<open>\<open>LayeredCostmap\<close>\<close>

record 'l layer_ops =
  lo_matchSize :: "costmap2d \<Rightarrow> 'l \<Rightarrow> 'l option"
  lo_updateBounds :: "real \<Rightarrow> real \<Rightarrow> real \<Rightarrow> 'l \<Rightarrow> bounds \<Rightarrow> ('l \<times> bounds) option"
  lo_updateCosts :: "'l \<Rightarrow> costmap2d \<Rightarrow> int \<Rightarrow> int \<Rightarrow> int \<Rightarrow> int \<Rightarrow> ('l \<times> costmap2d) option"
  lo_onFootprintChanged :: "'l \<Rightarrow> 'l"
  lo_isCurrent :: "'l \<Rightarrow> bool"
  lo_isEnabled :: "'l \<Rightarrow> bool"

record 'l layered_costmap =
  lc_primary :: costmap2d
  lc_combined :: costmap2d
  lc_rolling :: bool
  lc_current :: bool
  lc_bounds :: bounds
  lc_bx0 :: int
  lc_bxn :: int
  lc_by0 :: int
  lc_byn :: int
  lc_initialized :: bool
  lc_size_locked :: bool
  lc_plugins :: "'l list"
  lc_filters :: "'l list"

definition layered_costmap_new :: "bool \<Rightarrow> bool \<Rightarrow> 'l layered_costmap" where
  "layered_costmap_new rolling_window track_unknown =
     (let c = (costmap2d_null 0)\<lparr>cm_default := (if track_unknown then 255 else 0)\<rparr> in
      \<lparr>lc_primary = c, lc_combined = c, lc_rolling = rolling_window, lc_current = False,
       lc_bounds = \<lparr>b_min_x = 0, b_min_y = 0, b_max_x = 0, b_max_y = 0\<rparr>,
       lc_bx0 = 0, lc_bxn = 0, lc_by0 = 0, lc_byn = 0, lc_initialized = False, lc_size_locked = False,
       lc_plugins = [], lc_filters = []\<rparr>)"

definition addPlugin :: "'l \<Rightarrow> 'l layered_costmap \<Rightarrow> 'l layered_costmap" where
  "addPlugin p lc = lc\<lparr>lc_plugins := lc_plugins lc @ [p]\<rparr>"

definition addFilter :: "'l \<Rightarrow> 'l layered_costmap \<Rightarrow> 'l layered_costmap" where
  "addFilter f lc = lc\<lparr>lc_filters := lc_filters lc @ [f]\<rparr>"

fun match_all :: "'l layer_ops \<Rightarrow> costmap2d \<Rightarrow> 'l list \<Rightarrow> 'l list option" where
  "match_all ops master [] = Some []"
| "match_all ops master (l # ls) = do {
     l' \<leftarrow> lo_matchSize ops master l;
     ls' \<leftarrow> match_all ops master ls;
     Some (l' # ls')
   }"

definition layered_resizeMap ::
    "'l layer_ops \<Rightarrow> (nat \<Rightarrow> u8) \<Rightarrow> 'l layered_costmap \<Rightarrow> u32 \<Rightarrow> u32 \<Rightarrow> real \<Rightarrow> real \<Rightarrow> real \<Rightarrow> bool \<Rightarrow>
     'l layered_costmap option" where
  "layered_resizeMap ops garbage lc size_x size_y resolution origin_x origin_y size_locked = do {
     p \<leftarrow> resizeMap garbage (lc_primary lc) size_x size_y resolution origin_x origin_y;
     c \<leftarrow> resizeMap garbage (lc_combined lc) size_x size_y resolution origin_x origin_y;
     ps \<leftarrow> match_all ops c (lc_plugins lc);
     fs \<leftarrow> match_all ops c (lc_filters lc);
     Some (lc\<lparr>lc_size_locked := size_locked, lc_primary := p, lc_combined := c, lc_plugins := ps,
              lc_filters := fs\<rparr>)
   }"

definition isOutofBounds :: "'l layered_costmap \<Rightarrow> real \<Rightarrow> real \<Rightarrow> bool option" where
  "isOutofBounds lc robot_x robot_y =
     map_option (\<lambda>c. c = None) (worldToMap (lc_combined lc) robot_x robot_y)"

text \<open>\<open>std::numeric_limits<double>::max()\<close>; \<open>lowest()\<close> is its negation.\<close>

definition DBL_MAX :: real where "DBL_MAX = (2 ^ 53 - 1) * 2 ^ 971"

fun bounds_all ::
    "'l layer_ops \<Rightarrow> real \<Rightarrow> real \<Rightarrow> real \<Rightarrow> 'l list \<Rightarrow> bounds \<Rightarrow> ('l list \<times> bounds) option" where
  "bounds_all ops x y yaw [] b = Some ([], b)"
| "bounds_all ops x y yaw (l # ls) b = do {
     (l', b') \<leftarrow> lo_updateBounds ops x y yaw l b;
     (ls', b'') \<leftarrow> bounds_all ops x y yaw ls b';
     Some (l' # ls', b'')
   }"

fun costs_all ::
    "'l layer_ops \<Rightarrow> int \<Rightarrow> int \<Rightarrow> int \<Rightarrow> int \<Rightarrow> 'l list \<Rightarrow> costmap2d \<Rightarrow> ('l list \<times> costmap2d) option" where
  "costs_all ops x0 y0 xn yn [] cm = Some ([], cm)"
| "costs_all ops x0 y0 xn yn (l # ls) cm = do {
     (l', cm') \<leftarrow> lo_updateCosts ops l cm x0 y0 xn yn;
     (ls', cm'') \<leftarrow> costs_all ops x0 y0 xn yn ls cm';
     Some (l' # ls', cm'')
   }"

definition roll_origin :: "(nat \<Rightarrow> u8) \<Rightarrow> 'l layered_costmap \<Rightarrow> real \<Rightarrow> real \<Rightarrow> 'l layered_costmap option" where
  "roll_origin garbage lc robot_x robot_y =
     (if lc_rolling lc then do {
        let new_origin_x = robot_x - getSizeInMetersX (lc_combined lc) / 2;
        let new_origin_y = robot_y - getSizeInMetersY (lc_combined lc) / 2;
        p \<leftarrow> updateOrigin garbage (lc_primary lc) new_origin_x new_origin_y;
        c \<leftarrow> updateOrigin garbage (lc_combined lc) new_origin_x new_origin_y;
        Some (lc\<lparr>lc_primary := p, lc_combined := c\<rparr>)
      } else Some lc)"

text \<open>The layers' turn on the window; a failing \<open>copyWindow\<close> throws.\<close>

datatype update_error = CanNotCopy

definition run_layers ::
    "'l layer_ops \<Rightarrow> 'l layered_costmap \<Rightarrow> int \<Rightarrow> int \<Rightarrow> int \<Rightarrow> int \<Rightarrow>
     (update_error + 'l layered_costmap) option" where
  "run_layers ops lc x0 y0 xn yn =
     (if lc_filters lc = [] then do {
        c \<leftarrow> resetMap (lc_combined lc) (word_of_int x0) (word_of_int y0) (word_of_int xn) (word_of_int yn);
        (ps, c') \<leftarrow> costs_all ops x0 y0 xn yn (lc_plugins lc) c;
        Some (Inr (lc\<lparr>lc_combined := c', lc_plugins := ps\<rparr>))
      } else do {
        p \<leftarrow> resetMap (lc_primary lc) (word_of_int x0) (word_of_int y0) (word_of_int xn) (word_of_int yn);
        (ps, p') \<leftarrow> costs_all ops x0 y0 xn yn (lc_plugins lc) p;
        (ok, c) \<leftarrow> copyWindow (lc_combined lc) p' (word_of_int x0) (word_of_int y0) (word_of_int xn)
          (word_of_int yn) (word_of_int x0) (word_of_int y0);
        if \<not> ok then Some (Inl CanNotCopy)
        else do {
          (fs, c') \<leftarrow> costs_all ops x0 y0 xn yn (lc_filters lc) c;
          Some (Inr (lc\<lparr>lc_primary := p', lc_combined := c', lc_plugins := ps, lc_filters := fs\<rparr>))
        }
      })"

definition updateMap ::
    "'l layer_ops \<Rightarrow> (nat \<Rightarrow> u8) \<Rightarrow> 'l layered_costmap \<Rightarrow> real \<Rightarrow> real \<Rightarrow> real \<Rightarrow>
     (update_error + 'l layered_costmap) option" where
  "updateMap ops garbage lc robot_x robot_y robot_yaw = do {
     lc1 \<leftarrow> roll_origin garbage lc robot_x robot_y;
     _ \<leftarrow> isOutofBounds lc1 robot_x robot_y;
     if lc_plugins lc1 = [] \<and> lc_filters lc1 = [] then Some (Inr lc1)
     else do {
       let b0 = \<lparr>b_min_x = DBL_MAX, b_min_y = DBL_MAX, b_max_x = - DBL_MAX, b_max_y = - DBL_MAX\<rparr>;
       (ps, b1) \<leftarrow> bounds_all ops robot_x robot_y robot_yaw (lc_plugins lc1) b0;
       (fs, b2) \<leftarrow> bounds_all ops robot_x robot_y robot_yaw (lc_filters lc1) b1;
       let lc2 = lc1\<lparr>lc_bounds := b2, lc_plugins := ps, lc_filters := fs\<rparr>;
       (x0', y0') \<leftarrow> worldToMapEnforceBounds (lc_combined lc2) (b_min_x b2) (b_min_y b2);
       (xn', yn') \<leftarrow> worldToMapEnforceBounds (lc_combined lc2) (b_max_x b2) (b_max_y b2);
       let x0 = max 0 x0';
       let xn = min (sint (cm_size_x (lc_combined lc2))) (xn' + 1);
       let y0 = max 0 y0';
       let yn = min (sint (cm_size_y (lc_combined lc2))) (yn' + 1);
       if xn < x0 \<or> yn < y0 then Some (Inr lc2)
       else do {
         r \<leftarrow> run_layers ops lc2 x0 y0 xn yn;
         case r of
           Inl e \<Rightarrow> Some (Inl e)
         | Inr lc3 \<Rightarrow> Some (Inr (lc3\<lparr>lc_bx0 := x0, lc_bxn := xn, lc_by0 := y0, lc_byn := yn,
                                     lc_initialized := True\<rparr>))
       }
     }
   }"

definition layered_isCurrent :: "'l layer_ops \<Rightarrow> 'l layered_costmap \<Rightarrow> bool \<times> 'l layered_costmap" where
  "layered_isCurrent ops lc =
     (let step = (\<lambda>cur l. cur \<and> (lo_isCurrent ops l \<or> \<not> lo_isEnabled ops l));
          c = foldl step (foldl step True (lc_plugins lc)) (lc_filters lc)
      in (c, lc\<lparr>lc_current := c\<rparr>))"

section \<open>Loops over cells\<close>

text \<open>A window of cells inside the map, as the layers get it.\<close>

definition window_ok :: "costmap2d \<Rightarrow> int \<Rightarrow> int \<Rightarrow> int \<Rightarrow> int \<Rightarrow> bool" where
  "window_ok cm x0 y0 xn yn \<longleftrightarrow> 0 \<le> x0 \<and> x0 \<le> xn \<and> xn \<le> uint (cm_size_x cm) \<and>
     0 \<le> y0 \<and> y0 \<le> yn \<and> yn \<le> uint (cm_size_y cm)"

definition same_dims :: "costmap2d \<Rightarrow> costmap2d \<Rightarrow> bool" where
  "same_dims cm cm' \<longleftrightarrow> cm_size_x cm' = cm_size_x cm \<and> cm_size_y cm' = cm_size_y cm"

definition in_window :: "int \<Rightarrow> int \<Rightarrow> int \<Rightarrow> int \<Rightarrow> u32 \<Rightarrow> u32 \<Rightarrow> bool" where
  "in_window x0 y0 xn yn x y \<longleftrightarrow> x0 \<le> uint x \<and> uint x < xn \<and> y0 \<le> uint y \<and> uint y < yn"

lemma unat_word_of_int: "0 \<le> i \<Longrightarrow> i < 2 ^ 32 \<Longrightarrow> unat (word_of_int i :: u32) = nat i"
  by (simp add: unat_eq_nat_uint uint_word_of_int take_bit_eq_mod)

lemma uint_word_of_int_small: "0 \<le> i \<Longrightarrow> i < 2 ^ 32 \<Longrightarrow> uint (word_of_int i :: u32) = i"
  by (simp add: uint_word_of_int take_bit_eq_mod)

lemma u32_uint_less: "uint (w::u32) < 2 ^ 32"
  using unsigned_less [of w, where 'a = int] by simp

text \<open>The array index of cell \<open>(i, j)\<close> of the loops.\<close>

definition cell_no :: "costmap2d \<Rightarrow> int \<times> int \<Rightarrow> nat" where
  "cell_no cm ji = unat (getIndex cm (word_of_int (snd ji)) (word_of_int (fst ji)))"

lemma cell_no_getIndex:
  assumes "cm_wf cm" "0 \<le> i" "i < uint (cm_size_x cm)" "0 \<le> j" "j < uint (cm_size_y cm)"
    and "x < cm_size_x cm" "y < cm_size_y cm"
  shows "cell_no cm (j, i) = unat (getIndex cm x y) \<longleftrightarrow> uint x = i \<and> uint y = j"
    and "cell_no cm (j, i) < unat (cm_size_x cm) * unat (cm_size_y cm)"
proof -
  have b: "i < 2 ^ 32" "j < 2 ^ 32"
    using assms(3,5) u32_uint_less [of "cm_size_x cm"] u32_uint_less [of "cm_size_y cm"] by linarith+
  have u: "uint (word_of_int i :: u32) = i" "uint (word_of_int j :: u32) = j"
    using uint_word_of_int_small assms(2,4) b by blast+
  have lt: "(word_of_int i :: u32) < cm_size_x cm" "(word_of_int j :: u32) < cm_size_y cm"
    using assms(3,5) by (simp_all add: word_less_def u)
  show "cell_no cm (j, i) < unat (cm_size_x cm) * unat (cm_size_y cm)"
    using getIndex_nat(2) [OF assms(1) lt] by (simp add: cell_no_def)
  have "cell_no cm (j, i) = unat (getIndex cm x y) \<longleftrightarrow> getIndex cm (word_of_int i) (word_of_int j) = getIndex cm x y"
    by (simp add: cell_no_def word_unat_eq_iff)
  also have "\<dots> \<longleftrightarrow> word_of_int i = x \<and> word_of_int j = y"
    by (rule getIndex_inj [OF assms(1) lt assms(6,7)])
  also have "\<dots> \<longleftrightarrow> uint x = i \<and> uint y = j"
    using u by (metis word_of_int_uint)
  finally show "cell_no cm (j, i) = unat (getIndex cm x y) \<longleftrightarrow> uint x = i \<and> uint y = j" .
qed

lemma cell_no_inj:
  assumes "cm_wf cm" "\<forall>(j, i) \<in> P. 0 \<le> i \<and> i < uint (cm_size_x cm) \<and> 0 \<le> j \<and> j < uint (cm_size_y cm)"
  shows "inj_on (cell_no cm) P"
proof (rule inj_onI)
  fix p q
  assume pq: "p \<in> P" "q \<in> P"
  obtain j i j' i' where e: "p = (j, i)" "q = (j', i')" by (metis prod.exhaust)
  have p: "p = (j, i)" "0 \<le> j" "j < uint (cm_size_y cm)" "0 \<le> i" "i < uint (cm_size_x cm)"
    and q: "q = (j', i')" "0 \<le> j'" "j' < uint (cm_size_y cm)" "0 \<le> i'" "i' < uint (cm_size_x cm)"
    using pq e assms(2) by auto
  assume eq: "cell_no cm p = cell_no cm q"
  have b: "i' < 2 ^ 32" "j' < 2 ^ 32"
    using q u32_uint_less [of "cm_size_x cm"] u32_uint_less [of "cm_size_y cm"] by linarith+
  have u: "uint (word_of_int i' :: u32) = i'" "uint (word_of_int j' :: u32) = j'"
    using uint_word_of_int_small q b by blast+
  have "(word_of_int i' :: u32) < cm_size_x cm" "(word_of_int j' :: u32) < cm_size_y cm"
    using q by (simp_all add: word_less_def u)
  then show "p = q"
    using cell_no_getIndex(1) [OF assms(1) p(4,5,2,3)] eq p(1) q(1) u by (auto simp: cell_no_def)
qed

text \<open>A loop over distinct cells of the map that rewrites each by a function of its cost.\<close>

lemma foldM_grid:
  assumes wf: "cm_wf cm" "cm_costmap cm = Some m" and d: "distinct ps"
    and ps: "\<forall>(j, i) \<in> set ps. 0 \<le> i \<and> i < uint (cm_size_x cm) \<and> 0 \<le> j \<and> j < uint (cm_size_y cm)"
    and h: "\<And>p m'. p \<in> set ps \<Longrightarrow> length m' = length m \<Longrightarrow>
      h p m' = Some (m'[cell_no cm p := g (cell_no cm p) (m' ! cell_no cm p)])"
  shows "\<exists>m'. foldM h ps m = Some m' \<and> cm_wf (cm\<lparr>cm_costmap := Some m'\<rparr>) \<and> length m' = length m \<and>
    (\<forall>x y. x < cm_size_x cm \<longrightarrow> y < cm_size_y cm \<longrightarrow>
      m' ! unat (getIndex cm x y) = (if (uint y, uint x) \<in> set ps
        then g (unat (getIndex cm x y)) (m ! unat (getIndex cm x y)) else m ! unat (getIndex cm x y)))"
proof -
  have len: "length m = unat (cm_size_x cm) * unat (cm_size_y cm)" using wf by (auto simp: cm_wf_def)
  obtain m' where m': "foldM h ps m = Some m'" "length m' = length m"
    "\<forall>k < length m. m' ! k = (if k \<in> cell_no cm ` set ps then g k (m ! k) else m ! k)"
    using foldM_cells [OF d cell_no_inj [OF wf(1) ps] h refl] by auto
  have "m' ! unat (getIndex cm x y) = (if (uint y, uint x) \<in> set ps
      then g (unat (getIndex cm x y)) (m ! unat (getIndex cm x y)) else m ! unat (getIndex cm x y))"
    if xy: "x < cm_size_x cm" "y < cm_size_y cm" for x y
  proof -
    have eq: "cell_no cm (j, i) = unat (getIndex cm x y) \<longleftrightarrow> uint x = i \<and> uint y = j"
      if "(j, i) \<in> set ps" for j i
      using that ps xy by (intro cell_no_getIndex(1) wf(1)) auto
    have "unat (getIndex cm x y) \<in> cell_no cm ` set ps \<longleftrightarrow> (uint y, uint x) \<in> set ps"
    proof
      assume "unat (getIndex cm x y) \<in> cell_no cm ` set ps"
      then obtain j i where "(j, i) \<in> set ps" "unat (getIndex cm x y) = cell_no cm (j, i)"
        by (metis imageE prod.exhaust)
      then show "(uint y, uint x) \<in> set ps" using eq [of j i] by simp
    next
      assume a: "(uint y, uint x) \<in> set ps"
      then have "unat (getIndex cm x y) = cell_no cm (uint y, uint x)" using eq [OF a] by simp
      then show "unat (getIndex cm x y) \<in> cell_no cm ` set ps" using a by blast
    qed
    then show ?thesis using m'(3) getIndex_nat(2) [OF wf(1) xy] len by auto
  qed
  moreover have "cm_wf (cm\<lparr>cm_costmap := Some m'\<rparr>)" using wf(1) m'(2) len by (simp add: cm_wf_def)
  ultimately show ?thesis using m' by blast
qed

lemma window_cells:
  assumes "window_ok cm x0 y0 xn yn"
  shows "distinct (List.product [y0..yn - 1] [x0..xn - 1])"
    and "\<forall>(j, i) \<in> set (List.product [y0..yn - 1] [x0..xn - 1]).
      0 \<le> i \<and> i < uint (cm_size_x cm) \<and> 0 \<le> j \<and> j < uint (cm_size_y cm)"
    and "(uint y, uint x) \<in> set (List.product [y0..yn - 1] [x0..xn - 1]) \<longleftrightarrow> in_window x0 y0 xn yn x y"
  using assms by (auto simp: window_ok_def in_window_def distinct_product)

section \<open>What a window update does\<close>

text \<open>Every cell of the window gets a combination of the layer's and the master's cost; no other changes.\<close>

definition combines ::
    "(u8 \<Rightarrow> u8 \<Rightarrow> u8) \<Rightarrow> costmap_layer \<Rightarrow> costmap2d \<Rightarrow> int \<Rightarrow> int \<Rightarrow> int \<Rightarrow> int \<Rightarrow> costmap2d \<Rightarrow> bool" where
  "combines g l master x0 y0 xn yn master' \<longleftrightarrow> cm_wf master' \<and> same_dims master master' \<and>
     (\<forall>x < cm_size_x master. \<forall>y < cm_size_y master. \<exists>c old.
       getCost (cl_map l) x y = Some c \<and> getCost master x y = Some old \<and>
       getCost master' x y = Some (if in_window x0 y0 xn yn x y then g c old else old))"

locale window_op =
  fixes f :: cell_op
    and g :: "u8 \<Rightarrow> u8 \<Rightarrow> u8"
  assumes cell: "it < length layer \<Longrightarrow> it < length master \<Longrightarrow>
      f layer it master = Some (master[it := g (layer ! it) (master ! it)])"
begin

lemma update_window_combines:
  assumes "cm_wf master" "cm_wf (cl_map l)" "same_dims master (cl_map l)" "window_ok master x0 y0 xn yn"
  shows "\<exists>master'. update_window f l master x0 y0 xn yn = Some master' \<and> combines g l master x0 y0 xn yn master'"
proof -
  obtain m where m: "cm_costmap master = Some m"
    "length m = unat (cm_size_x master) * unat (cm_size_y master)" using assms(1) by (rule cm_wf_obtain)
  obtain k where k: "cm_costmap (cl_map l) = Some k"
    "length k = unat (cm_size_x (cl_map l)) * unat (cm_size_y (cl_map l))" using assms(2) by (rule cm_wf_obtain)
  have len: "length k = length m" using m(2) k(2) assms(3) by (simp add: same_dims_def)
  have idx: "getIndex (cl_map l) x y = getIndex master x y" for x y
    using assms(3) by (simp add: same_dims_def getIndex_def)
  define h where "h = (\<lambda>(j, i). f k (unat (word_of_int j * cm_size_x master + word_of_int x0 +
      word_of_int (i - x0) :: u32)))"
  have h: "h p m' = Some (m'[cell_no master p := g (k ! cell_no master p) (m' ! cell_no master p)])"
    if "p \<in> set (List.product [y0..yn - 1] [x0..xn - 1])" "length m' = length m" for p m'
  proof -
    obtain j i where p: "p = (j, i)" by (cases p)
    have "word_of_int j * cm_size_x master + word_of_int x0 + word_of_int (i - x0) =
        (getIndex master (word_of_int i) (word_of_int j) :: u32)"
      by (simp add: getIndex_def add.assoc wi_hom_add)
    then have hp: "h p m' = f k (cell_no master p) m'" by (simp add: h_def p cell_no_def)
    have b: "0 \<le> i" "i < uint (cm_size_x master)" "0 \<le> j" "j < uint (cm_size_y master)"
      using that(1) p assms(4) by (auto simp: window_ok_def)
    have pos: "0 < cm_size_x master" "0 < cm_size_y master" using b by (simp_all add: word_less_def)
    have "cell_no master p < length m"
      using cell_no_getIndex(2) [OF assms(1) b pos] p m(2) by simp
    then show ?thesis unfolding hp using len that(2) by (intro cell) simp_all
  qed
  obtain m' where m': "foldM h (List.product [y0..yn - 1] [x0..xn - 1]) m = Some m'"
    "cm_wf (master\<lparr>cm_costmap := Some m'\<rparr>)"
    "\<forall>x y. x < cm_size_x master \<longrightarrow> y < cm_size_y master \<longrightarrow>
      m' ! unat (getIndex master x y) = (if (uint y, uint x) \<in> set (List.product [y0..yn - 1] [x0..xn - 1])
        then g (k ! unat (getIndex master x y)) (m ! unat (getIndex master x y))
        else m ! unat (getIndex master x y))"
    using foldM_grid [OF assms(1) m(1) window_cells(1,2) [OF assms(4)], where h = h and
        g = "\<lambda>i old. g (k ! i) old", OF h] by blast
  let ?cm' = "master\<lparr>cm_costmap := Some m'\<rparr>"
  have run: "update_window f l master x0 y0 xn yn = Some ?cm'"
  proof (cases "yn \<le> y0 \<or> xn \<le> x0")
    case True
    then have "List.product [y0..yn - 1] [x0..xn - 1] = []"
    proof
      assume "xn \<le> x0"
      then have "[x0..xn - 1] = []" by simp
      then have "set (List.product [y0..yn - 1] [x0..xn - 1]) = {}" by simp
      then show ?thesis by (simp only: set_empty)
    qed simp
    then show ?thesis using True m' m(1) by (simp add: update_window_def)
  next
    case False
    have "foldM (update_row f k (cm_size_x master) x0 xn) [y0..yn - 1] m =
        foldM h (List.product [y0..yn - 1] [x0..xn - 1]) m"
      unfolding h_def foldM_product [symmetric] update_row_def ..
    then show ?thesis using False m(1) k(1) m'(1) by (simp add: update_window_def)
  qed
  have "combines g l master x0 y0 xn yn ?cm'"
    unfolding combines_def
  proof (intro conjI allI impI)
    fix x y
    assume xy: "x < cm_size_x master" "y < cm_size_y master"
    have i: "unat (getIndex master x y) < length m" using getIndex_nat(2) [OF assms(1) xy] m(2) by simp
    have l': "length m' = length m" using m'(2) m(2) by (simp add: cm_wf_def)
    have "getIndex ?cm' x y = getIndex master x y" by (simp add: getIndex_def)
    then show "\<exists>c old. getCost (cl_map l) x y = Some c \<and> getCost master x y = Some old \<and>
        getCost ?cm' x y = Some (if in_window x0 y0 xn yn x y then g c old else old)"
      using i l' len m(1) k(1) m'(3) xy idx window_cells(3) [OF assms(4)] by (simp add: getCost_def load_def del: set_product)
  qed (use m'(2) in \<open>simp_all add: same_dims_def\<close>)
  then show ?thesis using run by blast
qed

end

definition max_cost :: "u8 \<Rightarrow> u8 \<Rightarrow> u8" where
  "max_cost c old = (if c = NO_INFORMATION then old else if old = NO_INFORMATION then c else max old c)"

definition overwrite_cost :: "u8 \<Rightarrow> u8 \<Rightarrow> u8" where
  "overwrite_cost c old = (if c = NO_INFORMATION then old else c)"

definition sum_cost :: "u8 \<Rightarrow> u8 \<Rightarrow> u8" where
  "sum_cost c old = (if c = NO_INFORMATION then old else if old = NO_INFORMATION then c
     else word_of_int (min (uint old + uint c) 252))"

interpretation max_update: window_op max_op max_cost
  by unfold_locales (auto simp: max_op_def max_cost_def load_def store_def max_def not_less)

interpretation true_overwrite: window_op true_overwrite_op "\<lambda>c old. c"
  by unfold_locales (simp add: true_overwrite_op_def load_def store_def)

interpretation overwrite: window_op overwrite_op overwrite_cost
  by unfold_locales (simp add: overwrite_op_def overwrite_cost_def load_def store_def)

interpretation addition: window_op addition_op sum_cost
  by unfold_locales
    (auto simp: addition_op_def sum_cost_def load_def store_def Let_def min_def cost_values not_le)

section \<open>The contract of \<open>updateCosts\<close>\<close>

text \<open>
  What \<open>LayeredCostmap\<close> relies on: on a window of the master that fits the layer, \<open>updateCosts\<close>
  returns, keeps the master well formed and the layer fitting, gives each cell of the window a function
  of its cost, and changes no other cell.
\<close>

definition applies ::
    "int \<Rightarrow> int \<Rightarrow> int \<Rightarrow> int \<Rightarrow> (u32 \<Rightarrow> u32 \<Rightarrow> u8 \<Rightarrow> u8) \<Rightarrow> costmap2d \<Rightarrow> costmap2d \<Rightarrow> bool" where
  "applies x0 y0 xn yn f cm cm' \<longleftrightarrow> cm_wf cm' \<and> same_dims cm cm' \<and>
     (\<forall>x < cm_size_x cm. \<forall>y < cm_size_y cm. \<exists>old. getCost cm x y = Some old \<and>
       getCost cm' x y = Some (if in_window x0 y0 xn yn x y then f x y old else old))"

lemma getCost_in_map:
  assumes "cm_wf cm" "x < cm_size_x cm" "y < cm_size_y cm"
  obtains c where "getCost cm x y = Some c"
  using assms getIndex_nat(2) [OF assms] by (rule_tac cm_wf_obtain [OF assms(1)]) (auto simp: getCost_def load_def)

lemma applies_id: "cm_wf cm \<Longrightarrow> applies x0 y0 xn yn (\<lambda>x y c. c) cm cm"
  by (auto simp: applies_def same_dims_def elim: getCost_in_map)

lemma applies_trans:
  assumes "applies x0 y0 xn yn f a b" "applies x0 y0 xn yn g b c"
  shows "applies x0 y0 xn yn (\<lambda>x y. g x y \<circ> f x y) a c"
  unfolding applies_def
proof (intro conjI allI impI)
  fix x y
  assume xy: "x < cm_size_x a" "y < cm_size_y a"
  then have xy': "x < cm_size_x b" "y < cm_size_y b" using assms(1) by (simp_all add: applies_def same_dims_def)
  obtain old where 1: "getCost a x y = Some old" "getCost b x y = Some (if in_window x0 y0 xn yn x y then f x y old else old)"
    using assms(1) xy unfolding applies_def by blast
  obtain old' where 2: "getCost b x y = Some old'" "getCost c x y = Some (if in_window x0 y0 xn yn x y then g x y old' else old')"
    using assms(2) xy' unfolding applies_def by blast
  show "\<exists>old. getCost a x y = Some old \<and>
      getCost c x y = Some (if in_window x0 y0 xn yn x y then (g x y \<circ> f x y) old else old)"
    using 1 2 by (intro exI [of _ old]) auto
qed (use assms in \<open>auto simp: applies_def same_dims_def\<close>)

lemma window_ok_dims: "same_dims cm cm' \<Longrightarrow> window_ok cm' x0 y0 xn yn = window_ok cm x0 y0 xn yn"
  by (simp add: same_dims_def window_ok_def)

lemma combines_applies:
  assumes "combines g l cm x0 y0 xn yn cm'"
  shows "applies x0 y0 xn yn (\<lambda>x y. g (the (getCost (cl_map l) x y))) cm cm'"
  unfolding applies_def
proof (intro conjI allI impI)
  fix x y
  assume "x < cm_size_x cm" "y < cm_size_y cm"
  then obtain c old where "getCost (cl_map l) x y = Some c" "getCost cm x y = Some old"
    "getCost cm' x y = Some (if in_window x0 y0 xn yn x y then g c old else old)"
    using assms unfolding combines_def by blast
  then show "\<exists>old. getCost cm x y = Some old \<and> getCost cm' x y =
      Some (if in_window x0 y0 xn yn x y then g (the (getCost (cl_map l) x y)) old else old)" by simp
qed (use assms in \<open>simp_all add: combines_def\<close>)

locale layer_costs =
  fixes costs :: "'l \<Rightarrow> costmap2d \<Rightarrow> int \<Rightarrow> int \<Rightarrow> int \<Rightarrow> int \<Rightarrow> ('l \<times> costmap2d) option"
    and fits :: "costmap2d \<Rightarrow> 'l \<Rightarrow> bool"
    and cost :: "'l \<Rightarrow> u32 \<Rightarrow> u32 \<Rightarrow> u8 \<Rightarrow> u8"
  assumes costs_step: "cm_wf cm \<Longrightarrow> window_ok cm x0 y0 xn yn \<Longrightarrow> fits cm l \<Longrightarrow>
      \<exists>l' cm'. costs l cm x0 y0 xn yn = Some (l', cm') \<and> fits cm l' \<and> applies x0 y0 xn yn (cost l') cm cm'"
    and fits_dims: "same_dims cm cm' \<Longrightarrow> fits cm' l = fits cm l"
begin

definition layers_cost :: "'l list \<Rightarrow> u32 \<Rightarrow> u32 \<Rightarrow> u8 \<Rightarrow> u8" where
  "layers_cost ls x y = fold (\<lambda>l. cost l x y) ls"

lemma costs_all_step:
  assumes "lo_updateCosts ops = costs" "cm_wf cm" "window_ok cm x0 y0 xn yn" "\<forall>l \<in> set ls. fits cm l"
  shows "\<exists>ls' cm'. costs_all ops x0 y0 xn yn ls cm = Some (ls', cm') \<and> (\<forall>l \<in> set ls'. fits cm l) \<and>
    applies x0 y0 xn yn (layers_cost ls') cm cm'"
  using assms(2-4)
proof (induction ls arbitrary: cm)
  case Nil
  then show ?case using applies_id [of cm x0 y0 xn yn] by (simp add: layers_cost_def [abs_def] id_def)
next
  case (Cons l ls)
  obtain l' cm1 where 1: "costs l cm x0 y0 xn yn = Some (l', cm1)" "fits cm l'"
    "applies x0 y0 xn yn (cost l') cm cm1" using costs_step [OF Cons.prems(1,2), of l] Cons.prems(3) by auto
  have d: "same_dims cm cm1" "cm_wf cm1" using 1(3) by (simp_all add: applies_def)
  obtain ls' cm2 where 2: "costs_all ops x0 y0 xn yn ls cm1 = Some (ls', cm2)" "\<forall>l \<in> set ls'. fits cm1 l"
    "applies x0 y0 xn yn (layers_cost ls') cm1 cm2"
    using Cons.IH [OF d(2)] Cons.prems(2,3) window_ok_dims [OF d(1)] fits_dims [OF d(1)] by auto
  have "(\<lambda>x y. layers_cost ls' x y \<circ> cost l' x y) = layers_cost (l' # ls')"
    by (simp add: layers_cost_def fun_eq_iff)
  then have "applies x0 y0 xn yn (layers_cost (l' # ls')) cm cm2"
    using applies_trans [OF 1(3) 2(3)] by simp
  then show ?case using 1 2 assms(1) fits_dims [OF d(1)] by auto
qed

end

definition layer_fits :: "costmap2d \<Rightarrow> costmap_layer \<Rightarrow> bool" where
  "layer_fits cm l \<longleftrightarrow> cm_wf (cl_map l) \<and> same_dims cm (cl_map l)"

lemma layer_fits_dims: "same_dims cm cm' \<Longrightarrow> layer_fits cm' l = layer_fits cm l"
  by (simp add: layer_fits_def same_dims_def)

definition layer_cost :: "(u8 \<Rightarrow> u8 \<Rightarrow> u8) \<Rightarrow> costmap_layer \<Rightarrow> u32 \<Rightarrow> u32 \<Rightarrow> u8 \<Rightarrow> u8" where
  "layer_cost g l x y old = (if cl_enabled l then g (the (getCost (cl_map l) x y)) old else old)"

lemma layer_cost_enabled: "cl_enabled l \<Longrightarrow> layer_cost g l = (\<lambda>x y. g (the (getCost (cl_map l) x y)))"
  "\<not> cl_enabled l \<Longrightarrow> layer_cost g l = (\<lambda>x y c. c)"
  by (auto simp: layer_cost_def fun_eq_iff)

interpretation max_layers: layer_costs
  "\<lambda>l cm x0 y0 xn yn. map_option (Pair l) (updateWithMax l cm x0 y0 xn yn)" layer_fits "layer_cost max_cost"
proof (unfold_locales, goal_cases)
  case (1 cm x0 y0 xn yn l)
  then obtain cm' where "update_window max_op l cm x0 y0 xn yn = Some cm'" "combines max_cost l cm x0 y0 xn yn cm'"
    using max_update.update_window_combines [of cm l x0 y0 xn yn] by (auto simp: layer_fits_def)
  then show ?case using 1 applies_id [of cm] combines_applies
    by (cases "cl_enabled l") (auto simp: updateWithMax_def layer_cost_enabled)
qed (rule layer_fits_dims)

interpretation overwrite_layers: layer_costs
  "\<lambda>l cm x0 y0 xn yn. map_option (Pair l) (updateWithOverwrite l cm x0 y0 xn yn)" layer_fits
  "layer_cost overwrite_cost"
proof (unfold_locales, goal_cases)
  case (1 cm x0 y0 xn yn l)
  then obtain cm' where "update_window overwrite_op l cm x0 y0 xn yn = Some cm'"
    "combines overwrite_cost l cm x0 y0 xn yn cm'"
    using overwrite.update_window_combines [of cm l x0 y0 xn yn] by (auto simp: layer_fits_def)
  then show ?case using 1 applies_id [of cm] combines_applies
    by (cases "cl_enabled l") (auto simp: updateWithOverwrite_def layer_cost_enabled)
qed (rule layer_fits_dims)

section \<open>The update of a window\<close>

text \<open>The size condition under which the \<open>unsigned int\<close> row cursors do not wrap.\<close>

definition rows_fit :: "costmap2d \<Rightarrow> bool" where
  "rows_fit cm \<longleftrightarrow> 0 < cm_size_x cm \<and> unat (cm_size_x cm) * unat (cm_size_y cm) + unat (cm_size_x cm) < 2 ^ 32"

lemma window_words:
  assumes "window_ok cm x0 y0 xn yn"
  shows "uint (word_of_int x0 :: u32) = x0" "uint (word_of_int y0 :: u32) = y0"
    "uint (word_of_int xn :: u32) = xn" "uint (word_of_int yn :: u32) = yn"
    "(word_of_int x0 :: u32) \<le> word_of_int xn" "(word_of_int xn :: u32) \<le> cm_size_x cm"
    "(word_of_int y0 :: u32) \<le> word_of_int yn" "(word_of_int yn :: u32) \<le> cm_size_y cm"
proof -
  have b: "x0 < 2 ^ 32" "xn < 2 ^ 32" "y0 < 2 ^ 32" "yn < 2 ^ 32" "0 \<le> x0" "0 \<le> xn" "0 \<le> y0" "0 \<le> yn"
    using assms u32_uint_less [of "cm_size_x cm"] u32_uint_less [of "cm_size_y cm"]
    unfolding window_ok_def by linarith+
  show u: "uint (word_of_int x0 :: u32) = x0" "uint (word_of_int y0 :: u32) = y0"
    "uint (word_of_int xn :: u32) = xn" "uint (word_of_int yn :: u32) = yn"
    using b by (simp_all only: uint_word_of_int_small)
  show "(word_of_int x0 :: u32) \<le> word_of_int xn" "(word_of_int xn :: u32) \<le> cm_size_x cm"
    "(word_of_int y0 :: u32) \<le> word_of_int yn" "(word_of_int yn :: u32) \<le> cm_size_y cm"
    using assms by (simp_all only: word_le_def u window_ok_def)
qed

lemma in_window_unat:
  assumes "window_ok cm x0 y0 xn yn"
  shows "in_window x0 y0 xn yn x y \<longleftrightarrow>
    unat (word_of_int x0 :: u32) \<le> unat x \<and> unat x < unat (word_of_int xn :: u32) \<and>
    unat (word_of_int y0 :: u32) \<le> unat y \<and> unat y < unat (word_of_int yn :: u32)"
  using window_words(1-4) [OF assms]
  by (simp add: in_window_def word_le_nat_alt [symmetric] word_less_nat_alt [symmetric] word_le_def word_less_def)

lemma resetMap_applies:
  assumes "cm_wf cm" "rows_fit cm" "window_ok cm x0 y0 xn yn"
  shows "\<exists>cm'. resetMap cm (word_of_int x0) (word_of_int y0) (word_of_int xn) (word_of_int yn) = Some cm' \<and>
    applies x0 y0 xn yn (\<lambda>x y c. cm_default cm) cm cm'"
proof -
  obtain m where m: "cm_costmap cm = Some m" using assms(1) by (rule cm_wf_obtain)
  obtain m' where m': "resetMap cm (word_of_int x0) (word_of_int y0) (word_of_int xn) (word_of_int yn) =
      Some (cm\<lparr>cm_costmap := Some m'\<rparr>)" "length m' = length m"
    "\<forall>a b. a < unat (cm_size_x cm) \<longrightarrow> b < unat (cm_size_y cm) \<longrightarrow> cell_at m' (unat (cm_size_x cm)) a b =
      (if unat (word_of_int x0 :: u32) \<le> a \<and> a < unat (word_of_int xn :: u32) \<and>
          unat (word_of_int y0 :: u32) \<le> b \<and> b < unat (word_of_int yn :: u32) then cm_default cm
       else cell_at m (unat (cm_size_x cm)) a b)"
    using resetMapToValue_effect [OF assms(1) m _ window_words(5-8) [OF assms(3)], of "cm_default cm"] assms(2)
    unfolding rows_fit_def resetMap_def by blast
  let ?cm' = "cm\<lparr>cm_costmap := Some m'\<rparr>"
  have wf: "cm_wf ?cm'" using assms(1) m m'(2) by (simp add: cm_wf_def)
  have "applies x0 y0 xn yn (\<lambda>x y c. cm_default cm) cm ?cm'"
    unfolding applies_def
  proof (intro conjI allI impI)
    fix x y
    assume xy: "x < cm_size_x cm" "y < cm_size_y cm"
    then have n: "unat x < unat (cm_size_x cm)" "unat y < unat (cm_size_y cm)" by (simp_all add: word_less_nat_alt)
    have "getCost ?cm' x y = Some (cell_at m' (unat (cm_size_x cm)) (unat x) (unat y))"
      using getCost_cell [OF wf, of x y m'] xy by simp
    then show "\<exists>old. getCost cm x y = Some old \<and>
        getCost ?cm' x y = Some (if in_window x0 y0 xn yn x y then cm_default cm else old)"
      using getCost_cell [OF assms(1) xy m] m'(3) n in_window_unat [OF assms(3), of x y] by simp
  qed (use wf in \<open>simp_all add: same_dims_def\<close>)
  then show ?thesis using m'(1) by blast
qed

text \<open>The window copied from the primary to the combined costmap.\<close>

lemma copyWindow_applies:
  assumes "cm_wf cm" "cm_wf src" "same_dims cm src" "window_ok cm x0 y0 xn yn"
  shows "\<exists>cm'. copyWindow cm src (word_of_int x0) (word_of_int y0) (word_of_int xn) (word_of_int yn)
      (word_of_int x0) (word_of_int y0) = Some (True, cm') \<and>
    applies x0 y0 xn yn (\<lambda>x y c. the (getCost src x y)) cm cm'"
proof -
  obtain m where m: "cm_costmap cm = Some m" using assms(1) by (rule cm_wf_obtain)
  obtain k where k: "cm_costmap src = Some k" using assms(2) by (rule cm_wf_obtain)
  have d: "cm_size_x src = cm_size_x cm" "cm_size_y src = cm_size_y cm" using assms(3) by (simp_all add: same_dims_def)
  note w = window_words(5-8) [OF assms(4)]
  have le: "unat (word_of_int x0 :: u32) \<le> unat (word_of_int xn :: u32)"
    "unat (word_of_int xn :: u32) \<le> unat (cm_size_x cm)"
    "unat (word_of_int y0 :: u32) \<le> unat (word_of_int yn :: u32)"
    "unat (word_of_int yn :: u32) \<le> unat (cm_size_y cm)"
    using w by (simp_all only: word_le_nat_alt)
  obtain m' where m': "copyWindow cm src (word_of_int x0) (word_of_int y0) (word_of_int xn) (word_of_int yn)
      (word_of_int x0) (word_of_int y0) = Some (True, cm\<lparr>cm_costmap := Some m'\<rparr>)" "length m' = length m"
    "\<forall>x y. x < unat (cm_size_x cm) \<longrightarrow> y < unat (cm_size_y cm) \<longrightarrow> cell_at m' (unat (cm_size_x cm)) x y =
      (if unat (word_of_int x0 :: u32) \<le> x \<and> x < unat (word_of_int x0 :: u32) + (unat (word_of_int xn :: u32) - unat (word_of_int x0 :: u32)) \<and>
          unat (word_of_int y0 :: u32) \<le> y \<and> y < unat (word_of_int y0 :: u32) + (unat (word_of_int yn :: u32) - unat (word_of_int y0 :: u32))
       then cell_at k (unat (cm_size_x src)) (unat (word_of_int x0 :: u32) + (x - unat (word_of_int x0 :: u32)))
              (unat (word_of_int y0 :: u32) + (y - unat (word_of_int y0 :: u32)))
       else cell_at m (unat (cm_size_x cm)) x y)"
    using copyWindow_effect [OF assms(1) m assms(2) k w(1) w(2) [folded d] w(3) w(4) [folded d],
        of "word_of_int x0" "word_of_int y0"] le by auto
  let ?cm' = "cm\<lparr>cm_costmap := Some m'\<rparr>"
  have wf: "cm_wf ?cm'" using assms(1) m m'(2) by (simp add: cm_wf_def)
  have "applies x0 y0 xn yn (\<lambda>x y c. the (getCost src x y)) cm ?cm'"
    unfolding applies_def
  proof (intro conjI allI impI)
    fix x y
    assume xy: "x < cm_size_x cm" "y < cm_size_y cm"
    then have n: "unat x < unat (cm_size_x cm)" "unat y < unat (cm_size_y cm)" by (simp_all add: word_less_nat_alt)
    have "getCost ?cm' x y = Some (cell_at m' (unat (cm_size_x cm)) (unat x) (unat y))"
      using getCost_cell [OF wf, of x y m'] xy by simp
    moreover have "getCost src x y = Some (cell_at k (unat (cm_size_x cm)) (unat x) (unat y))"
      using getCost_cell [OF assms(2), of x y k] xy k d by simp
    moreover have "cell_at m' (unat (cm_size_x cm)) (unat x) (unat y) = (if in_window x0 y0 xn yn x y
        then cell_at k (unat (cm_size_x cm)) (unat x) (unat y) else cell_at m (unat (cm_size_x cm)) (unat x) (unat y))"
      using m'(3) [rule_format, OF n] le d by (auto simp: in_window_unat [OF assms(4)])
    ultimately show "\<exists>old. getCost cm x y = Some old \<and>
        getCost ?cm' x y = Some (if in_window x0 y0 xn yn x y then the (getCost src x y) else old)"
      using getCost_cell [OF assms(1) xy m] by simp
  qed (use wf in \<open>simp_all add: same_dims_def\<close>)
  then show ?thesis using m'(1) by blast
qed

text \<open>Copying what was computed elsewhere is computing it here, when it does not depend on the old cost.\<close>

lemma applies_copy:
  assumes "applies x0 y0 xn yn (\<lambda>x y c. f x y) a b" "applies x0 y0 xn yn (\<lambda>x y c. the (getCost b x y)) p q"
    and "same_dims p a"
  shows "applies x0 y0 xn yn (\<lambda>x y c. f x y) p q"
  unfolding applies_def
proof (intro conjI allI impI)
  fix x y
  assume xy: "x < cm_size_x p" "y < cm_size_y p"
  then obtain old where 1: "getCost p x y = Some old"
    "getCost q x y = Some (if in_window x0 y0 xn yn x y then the (getCost b x y) else old)"
    using assms(2) unfolding applies_def by blast
  have "x < cm_size_x a" "y < cm_size_y a" using xy assms(3) by (simp_all add: same_dims_def)
  then obtain o' where "getCost b x y = Some (if in_window x0 y0 xn yn x y then f x y else o')"
    using assms(1) unfolding applies_def by blast
  then show "\<exists>old. getCost p x y = Some old \<and> getCost q x y = Some (if in_window x0 y0 xn yn x y then f x y else old)"
    using 1 by auto
qed (use assms(2) in \<open>simp_all add: applies_def\<close>)

text \<open>A layered costmap between updates.\<close>

definition lc_wf :: "'l layered_costmap \<Rightarrow> bool" where
  "lc_wf lc \<longleftrightarrow> cm_wf (lc_combined lc) \<and> cm_wf (lc_primary lc) \<and> same_dims (lc_combined lc) (lc_primary lc) \<and>
     cm_default (lc_primary lc) = cm_default (lc_combined lc) \<and> rows_fit (lc_combined lc) \<and>
     0 < cm_size_y (lc_combined lc) \<and> 0 < cm_resolution (lc_combined lc) \<and>
     unat (cm_size_x (lc_combined lc)) < 2 ^ 31 \<and> unat (cm_size_y (lc_combined lc)) < 2 ^ 31"

context layer_costs
begin

lemma run_layers_cells:
  assumes "lo_updateCosts ops = costs" "lc_wf lc" "window_ok (lc_combined lc) x0 y0 xn yn"
    and "\<forall>l \<in> set (lc_plugins lc) \<union> set (lc_filters lc). fits (lc_combined lc) l"
  shows "\<exists>lc'. run_layers ops lc x0 y0 xn yn = Some (Inr lc') \<and>
    (\<forall>l \<in> set (lc_plugins lc') \<union> set (lc_filters lc'). fits (lc_combined lc) l) \<and>
    applies x0 y0 xn yn (\<lambda>x y c. layers_cost (lc_plugins lc' @ lc_filters lc') x y (cm_default (lc_combined lc)))
      (lc_combined lc) (lc_combined lc')"
proof (cases "lc_filters lc = []")
  case True
  have wf: "cm_wf (lc_combined lc)" "rows_fit (lc_combined lc)" using assms(2) by (simp_all add: lc_wf_def)
  obtain c where c: "resetMap (lc_combined lc) (word_of_int x0) (word_of_int y0) (word_of_int xn) (word_of_int yn) = Some c"
    "applies x0 y0 xn yn (\<lambda>x y c. cm_default (lc_combined lc)) (lc_combined lc) c"
    using resetMap_applies [OF wf assms(3)] by blast
  have d: "same_dims (lc_combined lc) c" "cm_wf c" using c(2) by (simp_all add: applies_def)
  have ok: "window_ok c x0 y0 xn yn" using assms(3) window_ok_dims [OF d(1)] by simp
  obtain ps c' where ps: "costs_all ops x0 y0 xn yn (lc_plugins lc) c = Some (ps, c')" "\<forall>l \<in> set ps. fits c l"
    "applies x0 y0 xn yn (layers_cost ps) c c'"
    using costs_all_step [OF assms(1) d(2) ok, of "lc_plugins lc"] assms(4) fits_dims [OF d(1)] by auto
  have "applies x0 y0 xn yn (\<lambda>x y c. layers_cost ps x y (cm_default (lc_combined lc))) (lc_combined lc) c'"
    using applies_trans [OF c(2) ps(3)] by (simp add: comp_def)
  then show ?thesis
    using True c(1) ps(1,2) fits_dims [OF d(1)] by (simp add: run_layers_def)
next
  case False
  have wf: "cm_wf (lc_combined lc)" "cm_wf (lc_primary lc)" "rows_fit (lc_primary lc)"
    and sd: "same_dims (lc_combined lc) (lc_primary lc)"
    and def: "cm_default (lc_primary lc) = cm_default (lc_combined lc)"
    using assms(2) by (simp_all add: lc_wf_def rows_fit_def same_dims_def)
  have okp: "window_ok (lc_primary lc) x0 y0 xn yn" using assms(3) window_ok_dims [OF sd] by simp
  obtain p where p: "resetMap (lc_primary lc) (word_of_int x0) (word_of_int y0) (word_of_int xn) (word_of_int yn) = Some p"
    "applies x0 y0 xn yn (\<lambda>x y c. cm_default (lc_combined lc)) (lc_primary lc) p"
    using resetMap_applies [OF wf(2,3) okp] def by auto
  have dp: "same_dims (lc_primary lc) p" "cm_wf p" using p(2) by (simp_all add: applies_def)
  have ok1: "window_ok p x0 y0 xn yn" using okp window_ok_dims [OF dp(1)] by simp
  have f1: "fits p l = fits (lc_combined lc) l" for l using fits_dims [OF dp(1)] fits_dims [OF sd] by simp
  obtain ps p' where ps: "costs_all ops x0 y0 xn yn (lc_plugins lc) p = Some (ps, p')" "\<forall>l \<in> set ps. fits p l"
    "applies x0 y0 xn yn (layers_cost ps) p p'"
    using costs_all_step [OF assms(1) dp(2) ok1, of "lc_plugins lc"] assms(4) f1 by auto
  have ap: "applies x0 y0 xn yn (\<lambda>x y c. layers_cost ps x y (cm_default (lc_combined lc))) (lc_primary lc) p'"
    using applies_trans [OF p(2) ps(3)] by (simp add: comp_def)
  have dp': "same_dims (lc_combined lc) p'" "cm_wf p'" using ap sd by (simp_all add: applies_def same_dims_def)
  obtain c where c: "copyWindow (lc_combined lc) p' (word_of_int x0) (word_of_int y0) (word_of_int xn)
      (word_of_int yn) (word_of_int x0) (word_of_int y0) = Some (True, c)"
    "applies x0 y0 xn yn (\<lambda>x y c. the (getCost p' x y)) (lc_combined lc) c"
    using copyWindow_applies [OF wf(1) dp'(2,1) assms(3)] by blast
  have ac: "applies x0 y0 xn yn (\<lambda>x y c. layers_cost ps x y (cm_default (lc_combined lc))) (lc_combined lc) c"
    by (rule applies_copy [OF ap c(2) sd])
  have dc: "same_dims (lc_combined lc) c" "cm_wf c" using ac by (simp_all add: applies_def)
  have okc: "window_ok c x0 y0 xn yn" using assms(3) window_ok_dims [OF dc(1)] by simp
  obtain fs c' where fs: "costs_all ops x0 y0 xn yn (lc_filters lc) c = Some (fs, c')" "\<forall>l \<in> set fs. fits c l"
    "applies x0 y0 xn yn (layers_cost fs) c c'"
    using costs_all_step [OF assms(1) dc(2) okc, of "lc_filters lc"] assms(4) fits_dims [OF dc(1)] by auto
  have "applies x0 y0 xn yn (\<lambda>x y c. layers_cost (ps @ fs) x y (cm_default (lc_combined lc))) (lc_combined lc) c'"
    using applies_trans [OF ac fs(3)] by (simp add: comp_def layers_cost_def)
  then show ?thesis
    using False p(1) ps(1,2) c(1) fs(1,2) f1 fits_dims [OF dc(1)] by (auto simp: run_layers_def)
qed

lemma updateMap_cells_step:
  assumes "lo_updateCosts ops = costs" "roll_origin garbage lc rx ry = Some lc1" "isOutofBounds lc1 rx ry \<noteq> None"
    and "lc_wf lc1" "lc_plugins lc1 \<noteq> [] \<or> lc_filters lc1 \<noteq> []"
    and "bounds_all ops rx ry yaw (lc_plugins lc1)
      \<lparr>b_min_x = DBL_MAX, b_min_y = DBL_MAX, b_max_x = - DBL_MAX, b_max_y = - DBL_MAX\<rparr> = Some (ps, b1)"
    and "bounds_all ops rx ry yaw (lc_filters lc1) b1 = Some (fs, b)"
    and "\<forall>l \<in> set ps \<union> set fs. fits (lc_combined lc1) l"
  shows "\<exists>x0 y0 xe ye lc'. updateMap ops garbage lc rx ry yaw = Some (Inr lc') \<and>
    worldToMapEnforceBounds (lc_combined lc1) (b_min_x b) (b_min_y b) = Some (x0, y0) \<and>
    worldToMapEnforceBounds (lc_combined lc1) (b_max_x b) (b_max_y b) = Some (xe, ye) \<and>
    (let xn = min (int (unat (cm_size_x (lc_combined lc1)))) (xe + 1);
         yn = min (int (unat (cm_size_y (lc_combined lc1)))) (ye + 1)
     in if xn < x0 \<or> yn < y0 then lc_combined lc' = lc_combined lc1
        else lc_initialized lc' \<and> lc_bx0 lc' = x0 \<and> lc_by0 lc' = y0 \<and> lc_bxn lc' = xn \<and> lc_byn lc' = yn \<and>
          window_ok (lc_combined lc1) x0 y0 xn yn \<and>
          (\<forall>l \<in> set (lc_plugins lc') \<union> set (lc_filters lc'). fits (lc_combined lc1) l) \<and>
          applies x0 y0 xn yn (\<lambda>x y c. layers_cost (lc_plugins lc' @ lc_filters lc') x y (cm_default (lc_combined lc1)))
            (lc_combined lc1) (lc_combined lc'))"
proof -
  let ?c = "lc_combined lc1"
  have c: "0 < cm_resolution ?c" "0 < cm_size_x ?c" "0 < cm_size_y ?c" "unat (cm_size_x ?c) < 2 ^ 31"
    "unat (cm_size_y ?c) < 2 ^ 31" using assms(4) by (simp_all add: lc_wf_def rows_fit_def)
  have s: "sint (cm_size_x ?c) = int (unat (cm_size_x ?c))" "sint (cm_size_y ?c) = int (unat (cm_size_y ?c))"
    using c(4,5) by (simp_all only: sint_small)
  obtain x0 y0 where lo: "worldToMapEnforceBounds ?c (b_min_x b) (b_min_y b) = Some (x0, y0)" "0 \<le> x0" "0 \<le> y0"
    using enforce_bounds_effect [OF c, of "b_min_x b" "b_min_y b"] by blast
  obtain xe ye where hi: "worldToMapEnforceBounds ?c (b_max_x b) (b_max_y b) = Some (xe, ye)"
    using enforce_bounds_effect [OF c, of "b_max_x b" "b_max_y b"] by blast
  define xn yn where "xn = min (int (unat (cm_size_x ?c))) (xe + 1)"
    and "yn = min (int (unat (cm_size_y ?c))) (ye + 1)"
  define lc2 where "lc2 = lc1\<lparr>lc_bounds := b, lc_plugins := ps, lc_filters := fs\<rparr>"
  have run: "updateMap ops garbage lc rx ry yaw = (if xn < x0 \<or> yn < y0 then Some (Inr lc2)
      else do {
        r \<leftarrow> run_layers ops lc2 x0 y0 xn yn;
        case r of Inl e \<Rightarrow> Some (Inl e)
        | Inr lc3 \<Rightarrow> Some (Inr (lc3\<lparr>lc_bx0 := x0, lc_bxn := xn, lc_by0 := y0, lc_byn := yn, lc_initialized := True\<rparr>))
      })"
    using assms(2,3,5-7) lo hi by (auto simp: updateMap_def lc2_def xn_def yn_def s Let_def max_def)
  show ?thesis
  proof (cases "xn < x0 \<or> yn < y0")
    case True
    then show ?thesis using run lo(1) hi
      by (intro exI [of _ x0] exI [of _ y0] exI [of _ xe] exI [of _ ye] exI [of _ lc2])
        (simp add: Let_def xn_def [symmetric] yn_def [symmetric], simp add: lc2_def)
  next
    case False
    have l2: "lc_combined lc2 = ?c" "lc_plugins lc2 = ps" "lc_filters lc2 = fs" "lc_wf lc2"
      using assms(4) by (simp_all add: lc2_def lc_wf_def)
    have ok: "window_ok (lc_combined lc2) x0 y0 xn yn"
      using False lo(2,3) unfolding l2(1) by (auto simp: window_ok_def xn_def yn_def uint_nat not_less)
    obtain lc3 where lc3: "run_layers ops lc2 x0 y0 xn yn = Some (Inr lc3)"
      "\<forall>l \<in> set (lc_plugins lc3) \<union> set (lc_filters lc3). fits ?c l"
      "applies x0 y0 xn yn (\<lambda>x y c. layers_cost (lc_plugins lc3 @ lc_filters lc3) x y (cm_default ?c)) ?c (lc_combined lc3)"
      using run_layers_cells [OF assms(1) l2(4) ok] assms(8) by (auto simp: l2)
    let ?r = "lc3\<lparr>lc_bx0 := x0, lc_bxn := xn, lc_by0 := y0, lc_byn := yn, lc_initialized := True\<rparr>"
    have "updateMap ops garbage lc rx ry yaw = Some (Inr ?r)" using run False lc3(1) by simp
    then show ?thesis using False lo(1) hi lc3(2,3) ok l2(1)
      by (intro exI [of _ x0] exI [of _ y0] exI [of _ xe] exI [of _ ye] exI [of _ ?r])
        (simp add: Let_def xn_def [symmetric] yn_def [symmetric])
  qed
qed

end

section \<open>Properties\<close>

lemma swap_product: "(j, i) \<in> set (map prod.swap (List.product xs ys)) \<longleftrightarrow> i \<in> set xs \<and> j \<in> set ys"
  by auto

text \<open>\<open>clearArea\<close> on a well-formed layer makes unknown exactly the cells strictly inside the given
  area, or exactly those not strictly inside when inverted, keeps every other cost, and marks the
  layer not current.\<close>

theorem clearArea_cells:
  assumes "cm_wf (cl_map l)" "unat (cm_size_x (cl_map l)) < 2 ^ 31" "unat (cm_size_y (cl_map l)) < 2 ^ 31"
  shows "\<exists>l'. clearArea sx sy ex ey invert l = Some l' \<and> \<not> cl_current l' \<and> cm_wf (cl_map l') \<and>
    same_dims (cl_map l) (cl_map l') \<and>
    (\<forall>x < cm_size_x (cl_map l). \<forall>y < cm_size_y (cl_map l). getCost (cl_map l') x y =
      (if (sx < uint x \<and> uint x < ex \<and> sy < uint y \<and> uint y < ey) = invert
       then getCost (cl_map l) x y else Some NO_INFORMATION))"
proof -
  let ?cm = "cl_map l"
  obtain m where m: "cm_costmap ?cm = Some m" "length m = unat (cm_size_x ?cm) * unat (cm_size_y ?cm)"
    using assms(1) by (rule cm_wf_obtain)
  have sx: "sint (cm_size_x ?cm) = uint (cm_size_x ?cm)" "sint (cm_size_y ?cm) = uint (cm_size_y ?cm)"
    using sint_delta [OF assms(2), of 0] sint_delta [OF assms(3), of 0] by (simp_all add: uint_nat)
  let ?xs = "[0..uint (cm_size_x ?cm) - 1]" and ?ys = "[0..uint (cm_size_y ?cm) - 1]"
  define ps where "ps = map prod.swap (List.product ?xs ?ys)"
  define keep where "keep = (\<lambda>(j, i). (sx < i \<and> i < ex \<and> sy < j \<and> j < ey) = invert)"
  define g where "g = (\<lambda>k c::u8. if \<exists>p \<in> set ps. cell_no ?cm p = k \<and> keep p then c else NO_INFORMATION)"
  define h where "h = (\<lambda>p. clear_cell sx sy ex ey invert ?cm (prod.swap p))"
  have psin: "\<forall>(j, i) \<in> set ps. 0 \<le> i \<and> i < uint (cm_size_x ?cm) \<and> 0 \<le> j \<and> j < uint (cm_size_y ?cm)"
    unfolding ps_def by auto
  have dps: "distinct ps" unfolding ps_def distinct_map by (simp add: distinct_product)
  note inj = cell_no_inj [OF assms(1) psin]
  have gk: "g (cell_no ?cm p) c = (if keep p then c else NO_INFORMATION)" if "p \<in> set ps" for p c
    using that inj by (auto simp: g_def inj_on_def)
  have h: "h p m' = Some (m'[cell_no ?cm p := g (cell_no ?cm p) (m' ! cell_no ?cm p)])"
    if p: "p \<in> set ps" and len: "length m' = length m" for p m'
  proof -
    obtain j i where ji: "p = (j, i)" by (cases p)
    have b: "0 \<le> i" "i < uint (cm_size_x ?cm)" "0 \<le> j" "j < uint (cm_size_y ?cm)" using psin p ji by auto
    have pos: "0 < cm_size_x ?cm" "0 < cm_size_y ?cm" using b by (simp_all add: word_less_def)
    have "cell_no ?cm p < length m'" using cell_no_getIndex(2) [OF assms(1) b pos] ji m(2) len by simp
    moreover have idv: "m'[k := v] = m'" if "m' ! k = v" for k v using that by (metis list_update_id)
    ultimately show ?thesis
      unfolding gk [OF p]
      by (auto simp: idv h_def clear_cell_def ji keep_def cell_no_def load_def store_def Let_def)
  qed
  obtain m' where m': "foldM h ps m = Some m'" "cm_wf (?cm\<lparr>cm_costmap := Some m'\<rparr>)" "length m' = length m"
    "\<forall>x y. x < cm_size_x ?cm \<longrightarrow> y < cm_size_y ?cm \<longrightarrow>
      m' ! unat (getIndex ?cm x y) = (if (uint y, uint x) \<in> set ps
        then g (unat (getIndex ?cm x y)) (m ! unat (getIndex ?cm x y)) else m ! unat (getIndex ?cm x y))"
    using foldM_grid [OF assms(1) m(1) dps psin, where h = h and g = g, OF h] by blast
  have fold: "foldM (clear_cell sx sy ex ey invert ?cm) (List.product ?xs ?ys) m = foldM h ps m"
  proof -
    have "foldM f (map prod.swap xs) s = foldM (\<lambda>p. f (prod.swap p)) xs s" for f :: "int \<times> int \<Rightarrow> u8 list \<Rightarrow> u8 list option" and xs s
      by (induction xs arbitrary: s) (auto split: bind_splits intro: arg_cong [where f = "Option.bind _"])
    then show ?thesis by (simp add: ps_def h_def)
  qed
  have cells: "getCost (?cm\<lparr>cm_costmap := Some m'\<rparr>) x y = (if keep (uint y, uint x) then getCost ?cm x y
      else Some NO_INFORMATION)" if xy: "x < cm_size_x ?cm" "y < cm_size_y ?cm" for x y
  proof -
    have mem: "(uint y, uint x) \<in> set ps" using xy by (auto simp: ps_def swap_product word_less_def)
    have no: "cell_no ?cm (uint y, uint x) = unat (getIndex ?cm x y)" by (simp add: cell_no_def)
    have "getIndex (?cm\<lparr>cm_costmap := Some m'\<rparr>) x y = getIndex ?cm x y" by (simp add: getIndex_def)
    then show ?thesis
      using m'(3,4) xy mem gk [OF mem] no getIndex_nat(2) [OF assms(1) xy] m by (simp add: getCost_def load_def)
  qed
  show ?thesis
  proof (cases "?xs = [] \<or> ?ys = []")
    case True
    have "\<not> (x < cm_size_x ?cm \<and> y < cm_size_y ?cm)" for x y
    proof
      assume "x < cm_size_x ?cm \<and> y < cm_size_y ?cm"
      then have "uint x < uint (cm_size_x ?cm)" "uint y < uint (cm_size_y ?cm)" by (simp_all add: word_less_def)
      then have "0 \<le> uint (cm_size_x ?cm) - 1" "0 \<le> uint (cm_size_y ?cm) - 1"
        using uint_nonnegative [of x] uint_nonnegative [of y] by linarith+
      then show False using True by simp
    qed
    then show ?thesis
      using True assms(1) by (auto simp: clearArea_def sx Let_def same_dims_def)
  next
    case False
    then have "clearArea sx sy ex ey invert l = Some (l\<lparr>cl_current := False, cl_map := ?cm\<lparr>cm_costmap := Some m'\<rparr>\<rparr>)"
      using m(1) m'(1) fold by (simp add: clearArea_def sx Let_def)
    then show ?thesis using m'(2) cells by (auto simp: same_dims_def keep_def)
  qed
qed

text \<open>On a window inside the map, an enabled layer of the master's size combines each cell of the
  window with the layer's: \<open>updateWithMax\<close> takes the larger known cost, \<open>updateWithOverwrite\<close> the
  layer's cost when known, \<open>updateWithTrueOverwrite\<close> the layer's cost always, and
  \<open>updateWithAddition\<close> their sum capped one below INSCRIBED; no other cell changes. A layer without
  a map makes only \<open>updateWithTrueOverwrite\<close> throw.\<close>

theorem layer_updates_cells:
  assumes "cm_wf master" "layer_fits master l" "cl_enabled l" "window_ok master x0 y0 xn yn"
  shows "(\<exists>m. updateWithMax l master x0 y0 xn yn = Some m \<and> combines max_cost l master x0 y0 xn yn m) \<and>
    (\<exists>m. updateWithOverwrite l master x0 y0 xn yn = Some m \<and>
      combines overwrite_cost l master x0 y0 xn yn m) \<and>
    (\<exists>m. updateWithTrueOverwrite l master x0 y0 xn yn = Some (Inr m) \<and>
      combines (\<lambda>c old. c) l master x0 y0 xn yn m) \<and>
    (\<exists>m. updateWithAddition l master x0 y0 xn yn = Some m \<and> combines sum_cost l master x0 y0 xn yn m) \<and>
    updateWithTrueOverwrite (l\<lparr>cl_map := deleteMaps (cl_map l)\<rparr>) master x0 y0 xn yn = Some (Inl NotInitialized)"
proof -
  have fit: "cm_wf (cl_map l)" "same_dims master (cl_map l)" using assms(2) by (simp_all add: layer_fits_def)
  obtain k where "cm_costmap (cl_map l) = Some k" using cm_wf_obtain [OF fit(1)] by blast
  then show ?thesis
    using max_update.update_window_combines [OF assms(1) fit assms(4)]
      overwrite.update_window_combines [OF assms(1) fit assms(4)]
      true_overwrite.update_window_combines [OF assms(1) fit assms(4)]
      addition.update_window_combines [OF assms(1) fit assms(4)] assms(3)
    by (auto simp: updateWithMax_def updateWithOverwrite_def updateWithTrueOverwrite_def
        updateWithAddition_def deleteMaps_def)
qed

definition sample_layer :: "u8 list \<Rightarrow> costmap_layer" where
  "sample_layer cells = (costmap_layer_new 0 True True)\<lparr>cl_map := sample_map 3 2 cells\<rparr>"

theorem layer_updates_cells_witness:
  "\<exists>m. updateWithAddition (sample_layer [200, 255, 0, 0, 0, 254]) (sample_map 3 2 [100, 7, 3, 4, 5, 254])
      0 0 2 1 = Some m \<and> getCost m 0 0 = Some 252 \<and> getCost m 1 0 = Some 7 \<and> getCost m 2 1 = Some 254"
proof -
  let ?m = "sample_map 3 2 [100, 7, 3, 4, 5, 254]" and ?l = "sample_layer [200, 255, 0, 0, 0, 254]"
  have wf: "cm_wf ?m" by (rule sample_wf) simp_all
  have fit: "layer_fits ?m ?l" "cl_enabled ?l"
    using sample_wf [of "[200, 255, 0, 0, 0, 254]" 3 2]
    by (simp_all add: layer_fits_def sample_layer_def costmap_layer_new_def same_dims_def)
  have win: "window_ok ?m 0 0 2 1" by (simp add: window_ok_def)
  obtain m where m: "updateWithAddition ?l ?m 0 0 2 1 = Some m" "combines sum_cost ?l ?m 0 0 2 1 m"
    using layer_updates_cells [OF wf fit win] by blast
  have lt: "(0::u32) < 3" "(1::u32) < 3" "(2::u32) < 3" "(0::u32) < 2" "(1::u32) < 2"
    by (simp_all add: word_less_nat_alt)
  have c: "\<exists>c old. getCost (cl_map ?l) x y = Some c \<and> getCost ?m x y = Some old \<and>
      getCost m x y = Some (if in_window 0 0 2 1 x y then sum_cost c old else old)"
    if "x < 3" "y < 2" for x y
    using m(2) that unfolding combines_def by simp
  have "getCost m 0 0 = Some 252" "getCost m 1 0 = Some 7" "getCost m 2 1 = Some 254"
    using c [OF lt(1,4)] c [OF lt(2,4)] c [OF lt(3,5)]
    by (auto simp: sample_layer_def getCost_def getIndex_def load_def sum_cost_def in_window_def
        NO_INFORMATION_def)
  then show ?thesis using m(1) by blast
qed

theorem clearArea_cells_witness:
  "\<exists>l'. clearArea 0 (- 1) 2 5 False (sample_layer [1, 2, 3, 4, 5, 6]) = Some l' \<and>
    getCost (cl_map l') 1 0 = Some 255 \<and> getCost (cl_map l') 2 1 = Some 6"
proof -
  have wf: "cm_wf (cl_map (sample_layer [1, 2, 3, 4, 5, 6]))"
    using sample_wf [of "[1, 2, 3, 4, 5, 6]" 3 2] by (simp add: sample_layer_def)
  have d: "cm_size_x (cl_map (sample_layer [1, 2, 3, 4, 5, 6])) = 3"
    "cm_size_y (cl_map (sample_layer [1, 2, 3, 4, 5, 6])) = 2" by (simp_all add: sample_layer_def)
  obtain l' where l': "clearArea 0 (- 1) 2 5 False (sample_layer [1, 2, 3, 4, 5, 6]) = Some l'"
    "\<forall>x < 3. \<forall>y < 2. getCost (cl_map l') x y =
      (if (0 < uint x \<and> uint x < 2 \<and> - 1 < uint y \<and> uint y < 5) = False
       then getCost (cl_map (sample_layer [1, 2, 3, 4, 5, 6])) x y else Some NO_INFORMATION)"
    using clearArea_cells [OF wf, of 0 "- 1" 2 5 False, unfolded d] by auto
  have lt: "(1::u32) < 3" "(2::u32) < 3" "(0::u32) < 2" "(1::u32) < 2" by (simp_all add: word_less_nat_alt)
  have "getCost (cl_map l') 1 0 = Some 255" "getCost (cl_map l') 2 1 = Some 6"
    using l'(2) [rule_format, OF lt(1,3)] l'(2) [rule_format, OF lt(2,4)]
    by (simp_all add: NO_INFORMATION_def sample_layer_def getCost_def getIndex_def load_def)
  then show ?thesis using l'(1) by blast
qed

end
