(* ===== verification/Costmap_Polygon.thy ===== *)
theory Costmap_Polygon
  imports Costmap_Windows "HOL-Library.Multiset"
begin

text \<open>
  Lines and polygons on the costmap: the 2D Bresenham ray of \<open>costmap_2d.hpp\<close>, the outline of a
  polygon, the bubble sort of its cells, the column fill, and \<open>setConvexPolygonCost\<close>.
\<close>

section \<open>\<open>raytraceLine\<close>\<close>

fun bresenham2D_loop ::
    "(u32 \<Rightarrow> 's \<Rightarrow> 's option) \<Rightarrow> u32 \<Rightarrow> u32 \<Rightarrow> u32 \<Rightarrow> u32 \<Rightarrow> nat \<Rightarrow> u32 \<Rightarrow> u32 \<Rightarrow> 's \<Rightarrow> 's option" where
  "bresenham2D_loop act abs_da abs_db offset_a offset_b 0 error_b offset s = act offset s"
| "bresenham2D_loop act abs_da abs_db offset_a offset_b (Suc n) error_b offset s = do {
     s' \<leftarrow> act offset s;
     let off1 = offset + offset_a;
     let (eb, step) = err_round abs_da abs_db error_b;
     bresenham2D_loop act abs_da abs_db offset_a offset_b n eb
       (if step then off1 + offset_b else off1) s'
   }"

definition bresenham2D ::
    "(u32 \<Rightarrow> 's \<Rightarrow> 's option) \<Rightarrow> u32 \<Rightarrow> u32 \<Rightarrow> u32 \<Rightarrow> u32 \<Rightarrow> u32 \<Rightarrow> u32 \<Rightarrow> u32 \<Rightarrow> 's \<Rightarrow> 's option" where
  "bresenham2D act abs_da abs_db error_b offset_a offset_b offset max_length s =
     bresenham2D_loop act abs_da abs_db offset_a offset_b (unat (min max_length abs_da))
       error_b offset s"

text \<open>The distance of two cells and the starting coordinate, \<open>(unsigned int)(c0 + d / dist * min)\<close>.\<close>

definition hypot :: "u32 \<Rightarrow> u32 \<Rightarrow> real" where
  "hypot dx dy = sqrt (real_of_int (sint dx) * real_of_int (sint dx) +
     real_of_int (sint dy) * real_of_int (sint dy))"

definition min_coord :: "real \<Rightarrow> u32 \<Rightarrow> u32 \<Rightarrow> u32 \<Rightarrow> u32 option" where
  "min_coord dst min_length c0 d_full =
     (if 0 < dst
      then cast_uint (real (unat c0) + real_of_int (sint d_full) / dst * real (unat min_length))
      else Some c0)"

definition raytraceLine ::
    "(u32 \<Rightarrow> 's \<Rightarrow> 's option) \<Rightarrow> costmap2d \<Rightarrow> u32 \<Rightarrow> u32 \<Rightarrow> u32 \<Rightarrow> u32 \<Rightarrow> u32 \<Rightarrow> u32 \<Rightarrow> 's \<Rightarrow> 's option" where
  "raytraceLine act cm x0 y0 x1 y1 max_length min_length s = do {
     let dx_full = x1 - x0;
     let dy_full = y1 - y0;
     let dst = hypot dx_full dy_full;
     if dst < real (unat min_length) then Some s
     else do {
       min_x0 \<leftarrow> min_coord dst min_length x0 dx_full;
       min_y0 \<leftarrow> min_coord dst min_length y0 dy_full;
       let offset = min_y0 * cm_size_x cm + min_x0;
       let dx = x1 - min_x0;
       let dy = y1 - min_y0;
       let abs_dx = cabs dx;
       let abs_dy = cabs dy;
       let offset_dx = sign3 dx;
       let offset_dy = sign3 dy * cm_size_x cm;
       let scale = (if dst = 0 then 1 else min 1 (real (unat max_length) / dst));
       if abs_dy \<le> abs_dx then do {
         n \<leftarrow> cast_uint (scale * real (unat abs_dx));
         bresenham2D act abs_dx abs_dy (abs_dx div 2) offset_dx offset_dy offset n s
       } else do {
         n \<leftarrow> cast_uint (scale * real (unat abs_dy));
         bresenham2D act abs_dy abs_dx (abs_dy div 2) offset_dy offset_dx offset n s
       }
     }
   }"

text \<open>\<open>UINT_MAX\<close>, the default of \<open>max_length\<close>.\<close>

definition UINT_MAX :: u32 where "UINT_MAX = 4294967295"

section \<open>The cells of a ray\<close>

text \<open>The planar loop is the 3D loop seen through the column offset: heights never reach it.\<close>

lemma bresenham2D_loop_3D:
  "bresenham2D_loop act da db oa ob n eb off s =
   bresenham3D_loop (\<lambda>p. act (fst p)) GridOffset GridOffset ZOffset da db dc oa ob oc n eb ec (off, z) s"
proof (induction n arbitrary: eb ec off z s)
  case 0
  then show ?case by simp
next
  case (Suc n)
  obtain eb' sb where b: "err_round da db eb = (eb', sb)" by (cases "err_round da db eb")
  obtain ec' sc where c: "err_round da dc ec = (ec', sc)" by (cases "err_round da dc ec")
  obtain z' where z': "(if sc then apply_offset ZOffset oc (if sb then apply_offset GridOffset ob (off + oa, z)
      else (off + oa, z)) else (if sb then apply_offset GridOffset ob (off + oa, z) else (off + oa, z))) =
      (if sb then off + oa + ob else off + oa, z')"
    by (cases sb; cases sc) auto
  show ?case
  proof (cases "act off s")
    case None
    then show ?thesis by simp
  next
    case (Some s')
    show ?thesis
      by (simp only: bresenham2D_loop.simps bresenham3D_loop.simps Some bind.simps fst_conv b c Let_def
          split_conv apply_offset.simps(1) z' [unfolded apply_offset.simps(1)])
        (rule Suc.IH)
  qed
qed

lemma bresenham2D_3D:
  "bresenham2D act da db e oa ob off n s =
   bresenham3D (\<lambda>p. act (fst p)) GridOffset GridOffset ZOffset da db 0 e e oa ob oc (off, z) n s"
  by (simp add: bresenham2D_def bresenham3D_def bresenham2D_loop_3D)

definition flat :: "u32 \<Rightarrow> u32 \<Rightarrow> coords" where
  "flat x y = (unat x, unat y, 0)"

definition cell_offset :: "u32 \<Rightarrow> coords \<Rightarrow> u32" where
  "cell_offset w q = of_nat (coord AY q) * w + of_nat (coord AX q)"

lemma fst_enc: "fst (enc w q) = cell_offset w q"
  by (cases q) (simp add: cell_offset_def)

lemma foldM_map: "foldM f (map g xs) = foldM (\<lambda>x. f (g x)) xs"
proof (induction xs)
  case Nil
  show ?case by (rule ext) simp
next
  case (Cons x xs)
  show ?case by (rule ext) (simp add: Cons.IH)
qed

lemma hypot_bound:
  assumes "x0 < w" "y0 < h" "x1 < w" "y1 < h" "unat w \<le> 2 ^ 31" "unat h \<le> 2 ^ 31"
  shows "0 \<le> hypot (x1 - x0) (y1 - y0)" "hypot (x1 - x0) (y1 - y0) \<le> 2 ^ 32 - 1"
proof -
  have d: "\<bar>real_of_int (sint (b - a))\<bar> \<le> 2 ^ 31 - 1" if "a < n" "b < n" "unat n \<le> 2 ^ 31" for a b n :: u32
  proof -
    have lt: "unat a < 2 ^ 31" "unat b < 2 ^ 31" using that by (simp_all add: word_less_nat_alt)
    have "sint (b - a) = int (unat b) - int (unat a)"
      using sint_delta [OF lt(2,1)] by simp
    moreover have "\<bar>int (unat b) - int (unat a)\<bar> \<le> 2 ^ 31 - 1" using lt by simp
    ultimately have "\<bar>sint (b - a)\<bar> \<le> 2 ^ 31 - 1" by simp
    then have "real_of_int \<bar>sint (b - a)\<bar> \<le> real_of_int (2 ^ 31 - 1)" by (simp only: of_int_le_iff)
    then show ?thesis by simp
  qed
  have "hypot (x1 - x0) (y1 - y0) \<le> \<bar>real_of_int (sint (x1 - x0))\<bar> + \<bar>real_of_int (sint (y1 - y0))\<bar>"
    unfolding hypot_def power2_eq_square [symmetric] by (rule sqrt_sum_squares_le_sum_abs)
  also have "\<dots> \<le> (2 ^ 31 - 1) + (2 ^ 31 - 1)" using d assms by (intro add_mono) blast+
  finally show "hypot (x1 - x0) (y1 - y0) \<le> 2 ^ 32 - 1" by simp
  show "0 \<le> hypot (x1 - x0) (y1 - y0)" by (simp add: hypot_def)
qed

lemma sint_diff_small:
  assumes "a < n" "b < n" "unat (n::u32) \<le> 2 ^ 31"
  shows "real_of_int (sint (b - a)) = real (unat b) - real (unat a)"
proof -
  have "unat a < 2 ^ 31" "unat b < 2 ^ 31" using assms by (simp_all add: word_less_nat_alt)
  then show ?thesis using sint_delta [of "unat b" "unat a"] by simp
qed

lemma min_coord_cell:
  assumes "c0 < n" "c1 < n" "unat n \<le> 2 ^ 31" "0 \<le> dst" "real (unat ml) \<le> dst"
  shows "min_coord dst ml c0 (c1 - c0) = Some (of_nat (cell_of (ray_start dst ml (unat c0) (unat c1))))"
    and "cell_of (ray_start dst ml (unat c0) (unat c1)) < unat n"
proof -
  let ?r = "ray_start dst ml (real (unat c0)) (real (unat c1))"
  have lt: "real (unat c0) < real (unat n)" "real (unat c1) < real (unat n)"
    using assms(1,2) by (simp_all add: word_less_nat_alt)
  have r: "0 \<le> ?r" "?r < real (unat n)"
    using ray_start_between [of dst ml "real (unat c0)" "real (unat c1)" "real (unat n)"] assms(5) lt by simp_all
  show "cell_of ?r < unat n" using r by (rule cell_of_less)
  have "unat n \<le> 2 ^ 32" using assms(3) by simp
  then have "cast_uint ?r = Some (of_nat (cell_of ?r))" using r by (intro cast_uint_cell)
  moreover have "cell_of (real (unat c0)) = unat c0" by (simp add: cell_of_def)
  ultimately show "min_coord dst ml c0 (c1 - c0) = Some (of_nat (cell_of ?r))"
    using sint_diff_small [OF assms(1-3)]
    by (cases "0 < dst") (simp_all add: min_coord_def ray_start_def)
qed

text \<open>
  Between two cells of the map the ray performs all its casts and visits cells of the map only; an
  unlimited ray starts at the first cell and ends at the last.
\<close>

lemma raytraceLine_cells:
  assumes xy: "x0 < w" "y0 < h" "x1 < w" "y1 < h"
    and big: "unat w \<le> 2 ^ 31" "unat h \<le> 2 ^ 31" and w: "cm_size_x cm = w"
  shows "\<exists>qs. raytraceLine act cm x0 y0 x1 y1 max_length min_length st =
      foldM (\<lambda>q. act (cell_offset w q)) qs st \<and> (\<forall>q \<in> set qs. cell_in w h q) \<and>
      (min_length = 0 \<longrightarrow> qs \<noteq> [] \<and> hd qs = flat x0 y0 \<and>
        (max_length = UINT_MAX \<longrightarrow> last qs = flat x1 y1))"
proof -
  define D where "D = hypot (x1 - x0) (y1 - y0)"
  have D: "0 \<le> D" "D \<le> 2 ^ 32 - 1"
    unfolding D_def using hypot_bound [OF xy big] by auto
  show ?thesis
  proof (cases "D < real (unat min_length)")
    case True
    then have "raytraceLine act cm x0 y0 x1 y1 max_length min_length st = Some st"
      by (simp add: raytraceLine_def D_def)
    moreover have "min_length \<noteq> 0" using True D by auto
    ultimately show ?thesis by (intro exI [of _ "[]"]) simp
  next
    case False
    then have ml: "real (unat min_length) \<le> D" by simp
    define sx sy where "sx = cell_of (ray_start D min_length (real (unat x0)) (real (unat x1)))"
      and "sy = cell_of (ray_start D min_length (real (unat y0)) (real (unat y1)))"
    note mx = min_coord_cell [OF xy(1,3) big(1) D(1) ml, folded sx_def]
      and my = min_coord_cell [OF xy(2,4) big(2) D(1) ml, folded sy_def]
    define s e where "s = (sx, sy, 0::nat)" and "e = flat x1 y1"
    have s: "cell_in w h s" and e: "cell_in w h e"
      using mx(2) my(2) xy by (simp_all add: s_def e_def cell_in_def flat_def word_less_nat_alt)
    have lt: "coord a s < 2 ^ 31" "coord a e < 2 ^ 31" for a
      using s e big by (cases a; simp add: cell_in_def)+
    define dl where "dl a = cabs (of_nat (coord a e) - of_nat (coord a s) :: u32)" for a
    have dl: "unat (dl a) = gap a s e" for a using gap_cabs(1) lt by (simp add: dl_def)
    define st3 where "st3 a = sign3 (of_nat (coord a e) - of_nat (coord a s))" for a
    have st3: "st3 a = (if rises a s e then 1 else - 1)" for a
      using gap_cabs(2) lt by (simp add: st3_def)
    define sc where "sc = (if D = 0 then 1 else min 1 (real (unat max_length) / D))"
    have sc: "0 \<le> sc" "sc \<le> 1" using D(1) by (simp_all add: sc_def)
    define m where "m a = the (cast_uint (sc * real (unat (dl a))))" for a
    have m: "cast_uint (sc * real (unat (dl a))) = Some (m a)" "unat (m a) \<le> unat (dl a)"
      "sc = 1 \<longrightarrow> unat (m a) = unat (dl a)" for a
      using cast_scaled [OF sc, of "dl a"] by (auto simp: m_def)
    define run where "run a b = bresenham3D (\<lambda>p. act (fst p)) (functor_of a) (functor_of b) ZOffset
        (dl a) (dl b) 0 (dl a div 2) (dl a div 2) (stride w a (rises a s e))
        (stride w b (rises b s e)) (stride w AZ (rises AZ s e)) (enc w s) (m a) st" for a b
    let ?trace = "raytraceLine act cm x0 y0 x1 y1 max_length min_length st"
    have deltas: "x1 - of_nat sx = of_nat (coord AX e) - of_nat (coord AX s)"
      "y1 - of_nat sy = of_nat (coord AY e) - of_nat (coord AY s)"
      by (simp_all add: s_def e_def flat_def)
    have str: "sign3 (x1 - of_nat sx) = stride w AX (rises AX s e)"
      "sign3 (y1 - of_nat sy) * w = stride w AY (rises AY s e)"
      using st3 [of AX] st3 [of AY] by (simp_all add: deltas st3_def)
    have adl: "cabs (x1 - of_nat sx) = dl AX" "cabs (y1 - of_nat sy) = dl AY"
      by (simp_all only: deltas dl_def)
    have p: "enc w s = (of_nat sy * w + of_nat sx, line_mask)" by (simp add: s_def)
    have body: "?trace = (if dl AY \<le> dl AX then run AX AY else run AY AX)"
      unfolding raytraceLine_def Let_def D_def [symmetric] w run_def functor_of.simps str [symmetric] p
      using False by (simp only: mx(1) my(1) bind.bind_lunit adl sc_def [symmetric] m(1)
          bresenham2D_3D [where oc = "stride w AZ (rises AZ s e)" and z = line_mask] if_False)
    have g: "(dl a \<le> dl b) = (gap a s e \<le> gap b s e)" for a b
      by (simp only: word_le_nat_alt dl)
    have z: "gap AZ s e = 0" by (simp add: gap_def s_def e_def flat_def)
    obtain a b where ab: "distinct [a, b, AZ]" "gap b s e \<le> gap a s e" and run: "?trace = run a b"
    proof (cases "dl AY \<le> dl AX")
      case True
      with body g show ?thesis by (intro that [of AX AY]) simp_all
    next
      case False
      with body g show ?thesis by (intro that [of AY AX]) simp_all
    qed
    obtain qs where qs: "run a b = foldM (\<lambda>p. act (fst p)) (map (enc w) (s # qs)) st"
      "\<forall>q \<in> set (s # qs). cell_in w h q" "unat (m a) = gap a s e \<longrightarrow> last (s # qs) = e"
      using bresenham3D_cells [OF ab(1) s e big ab(2) _ dl dl, of 0 "m a" "\<lambda>p. act (fst p)" st]
        m(2) [of a] dl [of a] z
      unfolding run_def by auto
    have "s = flat x0 y0" if "min_length = 0"
      using that by (simp add: s_def sx_def sy_def ray_start_0 flat_def cell_of_def)
    moreover have "unat (m a) = gap a s e" if "max_length = UINT_MAX"
    proof -
      have "real (unat max_length) = 2 ^ 32 - 1" using that by (simp add: UINT_MAX_def)
      then have "sc = 1" using D by (auto simp: sc_def min_def)
      then show ?thesis using m(3) [of a] dl [of a] by simp
    qed
    ultimately show ?thesis
      using run qs by (intro exI [of _ "s # qs"]) (auto simp: e_def foldM_map fst_enc)
  qed
qed

section \<open>Polygons\<close>

record map_location =
  loc_x :: u32
  loc_y :: u32

definition MarkCell :: "u8 \<Rightarrow> u32 \<Rightarrow> u8 list \<Rightarrow> u8 list option" where
  "MarkCell value offset costmap = store costmap (unat offset) value"

definition PolygonOutlineCells ::
    "costmap2d \<Rightarrow> u32 \<Rightarrow> map_location list \<Rightarrow> map_location list option" where
  "PolygonOutlineCells cm offset cells = do {
     (x, y) \<leftarrow> indexToCells cm offset;
     Some (cells @ [\<lparr>loc_x = x, loc_y = y\<rparr>])
   }"

definition outline_ray ::
    "costmap2d \<Rightarrow> map_location \<Rightarrow> map_location \<Rightarrow> map_location list \<Rightarrow> map_location list option" where
  "outline_ray cm p q cells =
     raytraceLine (PolygonOutlineCells cm) cm (loc_x p) (loc_y p) (loc_x q) (loc_y q) UINT_MAX 0 cells"

text \<open>
  \<open>size() - 1\<close> of a vector, in the 64 bits of \<open>std::size_t\<close>: it wraps for an empty vector (no vector
  reaches \<open>2 ^ 64\<close> elements).
\<close>

definition size_minus_1 :: "'a list \<Rightarrow> nat" where
  "size_minus_1 xs = (if xs = [] then 2 ^ 64 - 1 else length xs - 1)"

function outline_edges ::
    "costmap2d \<Rightarrow> map_location list \<Rightarrow> nat \<Rightarrow> map_location list \<Rightarrow> map_location list option" where
  "outline_edges cm polygon i cells =
     (if i < size_minus_1 polygon then do {
        p \<leftarrow> load polygon i;
        q \<leftarrow> load polygon (i + 1);
        cells' \<leftarrow> outline_ray cm p q cells;
        outline_edges cm polygon (i + 1) cells'
      } else Some cells)"
  by pat_completeness auto
termination by (relation "measure (\<lambda>(cm, polygon, i, cells). size_minus_1 polygon - i)") auto

declare outline_edges.simps [simp del]

definition polygonOutlineCells ::
    "costmap2d \<Rightarrow> map_location list \<Rightarrow> map_location list \<Rightarrow> map_location list option" where
  "polygonOutlineCells cm polygon polygon_cells = do {
     cells \<leftarrow> outline_edges cm polygon 0 polygon_cells;
     if polygon \<noteq> [] then do {
       p \<leftarrow> load polygon (size_minus_1 polygon);
       q \<leftarrow> load polygon 0;
       outline_ray cm p q cells
     } else Some cells
   }"

text \<open>The number of pairs out of order by \<open>x\<close>; a swap of neighbours out of order lowers it.\<close>

fun inversions :: "map_location list \<Rightarrow> nat" where
  "inversions [] = 0"
| "inversions (c # cs) = length (filter (\<lambda>d. loc_x d < loc_x c) cs) + inversions cs"

lemma inversions_swap:
  assumes "loc_x b < loc_x a"
  shows "inversions (xs @ b # a # ys) < inversions (xs @ a # b # ys)"
proof (induction xs)
  case Nil
  then show ?case using assms less_not_sym [OF assms] by simp
next
  case (Cons c xs)
  have "length (filter P (xs @ b # a # ys)) = length (filter P (xs @ a # b # ys))" for P by simp
  then show ?case using Cons by simp
qed

lemma split_neighbours:
  assumes "Suc i < length xs"
  shows "xs = take i xs @ xs ! i # xs ! Suc i # drop (Suc (Suc i)) xs"
  using assms by (metis Cons_nth_drop_Suc Suc_lessD append_take_drop_id)

definition swap_next :: "'a list \<Rightarrow> nat \<Rightarrow> 'a list" where
  "swap_next xs i = (xs[i := xs ! (i + 1)])[i + 1 := xs ! i]"

lemma swap_next_split:
  assumes "Suc i < length xs"
  shows "swap_next xs i = take i xs @ xs ! Suc i # xs ! i # drop (Suc (Suc i)) xs"
proof -
  have "length (take i xs) = i" using assms by simp
  then show ?thesis
    unfolding swap_next_def
    by (subst (1) split_neighbours [OF assms]) (simp add: list_update_append nth_append)
qed

lemma swap_next_inversions:
  assumes "Suc i < length xs" "loc_x (xs ! Suc i) < loc_x (xs ! i)"
  shows "inversions (swap_next xs i) < inversions xs"
  using inversions_swap [OF assms(2), of "take i xs" "drop (Suc (Suc i)) xs"]
  by (simp only: swap_next_split [OF assms(1)] split_neighbours [OF assms(1), symmetric])

lemma swap_next_mset: "Suc i < length xs \<Longrightarrow> mset (swap_next xs i) = mset xs"
  by (simp add: swap_next_def mset_swap)

function bubble_sort :: "map_location list \<Rightarrow> nat \<Rightarrow> map_location list option" where
  "bubble_sort cells i =
     (if i < size_minus_1 cells then
        if i + 1 < length cells then
          if loc_x (cells ! (i + 1)) < loc_x (cells ! i)
          then bubble_sort (swap_next cells i) (if 0 < i then i - 1 else i)
          else bubble_sort cells (i + 1)
        else None
      else Some cells)"
  by pat_completeness auto
termination
  by (relation "measures [\<lambda>(cells, i). inversions cells, \<lambda>(cells, i). length cells - i]")
    (auto simp: swap_next_inversions)

declare bubble_sort.simps [simp del]

text \<open>The rest of a column: while the next cell has its \<open>x\<close>, it widens the column's range.\<close>

function column_range ::
    "map_location list \<Rightarrow> u32 \<Rightarrow> nat \<Rightarrow> map_location \<Rightarrow> map_location \<Rightarrow> nat \<times> map_location \<times> map_location"
  where
  "column_range cells x i min_pt max_pt =
     (if i < length cells \<and> loc_x (cells ! i) = x then
        if loc_y (cells ! i) < loc_y min_pt then column_range cells x (i + 1) (cells ! i) max_pt
        else if loc_y max_pt < loc_y (cells ! i) then column_range cells x (i + 1) min_pt (cells ! i)
        else column_range cells x (i + 1) min_pt max_pt
      else (i, min_pt, max_pt))"
  by pat_completeness auto
termination by (relation "measure (\<lambda>(cells, x, i, min_pt, max_pt). length cells - i)") auto

declare column_range.simps [simp del]

text \<open>\<open>for (y = min; y <= max; ++y)\<close> in 32 bits need not end, nor need the loop over \<open>x\<close>.\<close>

partial_function (option) fill_column ::
    "u32 \<Rightarrow> u32 \<Rightarrow> u32 \<Rightarrow> map_location list \<Rightarrow> map_location list option" where
  "fill_column x y_max y cells =
     (if y \<le> y_max then fill_column x y_max (y + 1) (cells @ [\<lparr>loc_x = x, loc_y = y\<rparr>]) else Some cells)"

partial_function (option) fill_columns ::
    "u32 \<Rightarrow> u32 \<Rightarrow> nat \<Rightarrow> map_location list \<Rightarrow> map_location list option" where
  "fill_columns x_max x i cells =
     (if x \<le> x_max then
        if size_minus_1 cells \<le> i then Some cells
        else Option.bind (load cells i) (\<lambda>p. Option.bind (load cells (i + 1)) (\<lambda>q.
          let (lo, hi) = (if loc_y p < loc_y q then (p, q) else (q, p));
              (i', min_pt, max_pt) = column_range cells x (i + 2) lo hi
          in Option.bind (fill_column x (loc_y max_pt) (loc_y min_pt) cells)
               (fill_columns x_max (x + 1) i')))
      else Some cells)"

definition convexFillCells ::
    "costmap2d \<Rightarrow> map_location list \<Rightarrow> map_location list \<Rightarrow> map_location list option" where
  "convexFillCells cm polygon polygon_cells =
     (if length polygon < 3 then Some polygon_cells
      else do {
        outline \<leftarrow> polygonOutlineCells cm polygon polygon_cells;
        cells \<leftarrow> bubble_sort outline 0;
        first \<leftarrow> load cells 0;
        final \<leftarrow> load cells (size_minus_1 cells);
        fill_columns (loc_x final) (loc_x first) 0 cells
      })"

fun map_polygon :: "costmap2d \<Rightarrow> (real \<times> real) list \<Rightarrow> map_location list option option" where
  "map_polygon cm [] = Some (Some [])"
| "map_polygon cm ((wx, wy) # polygon) = do {
     c \<leftarrow> worldToMap cm wx wy;
     case c of
       None \<Rightarrow> Some None
     | Some (mx, my) \<Rightarrow> do {
         rest \<leftarrow> map_polygon cm polygon;
         Some (map_option ((#) \<lparr>loc_x = mx, loc_y = my\<rparr>) rest)
       }
   }"

definition set_cells :: "costmap2d \<Rightarrow> u8 \<Rightarrow> map_location list \<Rightarrow> costmap2d option" where
  "set_cells cm cost_value cells =
     foldM (\<lambda>c cm. setCost cm (loc_x c) (loc_y c) cost_value) cells cm"

definition setConvexPolygonCost ::
    "costmap2d \<Rightarrow> (real \<times> real) list \<Rightarrow> u8 \<Rightarrow> (bool \<times> costmap2d) option" where
  "setConvexPolygonCost cm polygon cost_value = do {
     mp \<leftarrow> map_polygon cm polygon;
     case mp of
       None \<Rightarrow> Some (False, cm)
     | Some locs \<Rightarrow> do {
         polygon_cells \<leftarrow> convexFillCells cm locs [];
         cm' \<leftarrow> set_cells cm cost_value polygon_cells;
         Some (True, cm')
       }
   }"

section \<open>Outlines stay in the map\<close>

definition in_map :: "costmap2d \<Rightarrow> map_location \<Rightarrow> bool" where
  "in_map cm c \<longleftrightarrow> loc_x c < cm_size_x cm \<and> loc_y c < cm_size_y cm"

definition map_small :: "costmap2d \<Rightarrow> bool" where
  "map_small cm \<longleftrightarrow> cm_wf cm \<and> unat (cm_size_x cm) \<le> 2 ^ 31 \<and> unat (cm_size_y cm) \<le> 2 ^ 31"

definition loc_of :: "coords \<Rightarrow> map_location" where
  "loc_of q = \<lparr>loc_x = of_nat (coord AX q), loc_y = of_nat (coord AY q)\<rparr>"

lemma loc_of_flat [simp]: "loc_of (flat x y) = \<lparr>loc_x = x, loc_y = y\<rparr>"
  by (simp add: loc_of_def flat_def)

lemma loc_of_in_map:
  assumes "cell_in (cm_size_x cm) (cm_size_y cm) q"
  shows "in_map cm (loc_of q)"
  using assms u32_less [of "cm_size_x cm"] u32_less [of "cm_size_y cm"]
  by (simp add: cell_in_def in_map_def loc_of_def word_less_nat_alt unat_of_nat)

lemma PolygonOutlineCells_cell:
  assumes "map_small cm" "cell_in (cm_size_x cm) (cm_size_y cm) q"
  shows "PolygonOutlineCells cm (cell_offset (cm_size_x cm) q) cells = Some (cells @ [loc_of q])"
proof -
  have "cm_wf cm" using assms(1) by (simp add: map_small_def)
  moreover have "cell_offset (cm_size_x cm) q = getIndex cm (loc_x (loc_of q)) (loc_y (loc_of q))"
    by (simp add: cell_offset_def getIndex_def loc_of_def)
  ultimately show ?thesis
    using loc_of_in_map [OF assms(2)] indexToCells_getIndex [of cm "loc_x (loc_of q)" "loc_y (loc_of q)"]
    by (simp add: PolygonOutlineCells_def in_map_def)
qed

lemma outline_cells_foldM:
  assumes "map_small cm" "\<forall>q \<in> set qs. cell_in (cm_size_x cm) (cm_size_y cm) q"
  shows "foldM (\<lambda>q. PolygonOutlineCells cm (cell_offset (cm_size_x cm) q)) qs cells =
    Some (cells @ map loc_of qs)"
  using assms(2) by (induction qs arbitrary: cells) (simp_all add: PolygonOutlineCells_cell [OF assms(1)])

lemma outline_ray_cells:
  assumes "map_small cm" "in_map cm p" "in_map cm q"
  shows "\<exists>cs. outline_ray cm p q cells = Some (cells @ cs) \<and> (\<forall>c \<in> set cs. in_map cm c) \<and>
    p \<in> set cs \<and> q \<in> set cs"
proof -
  have big: "unat (cm_size_x cm) \<le> 2 ^ 31" "unat (cm_size_y cm) \<le> 2 ^ 31"
    using assms(1) by (simp_all add: map_small_def)
  obtain qs where qs: "outline_ray cm p q cells =
      foldM (\<lambda>q. PolygonOutlineCells cm (cell_offset (cm_size_x cm) q)) qs cells"
    "\<forall>q \<in> set qs. cell_in (cm_size_x cm) (cm_size_y cm) q"
    "qs \<noteq> []" "hd qs = flat (loc_x p) (loc_y p)" "last qs = flat (loc_x q) (loc_y q)"
    using raytraceLine_cells [OF _ _ _ _ big refl, of "loc_x p" "loc_y p" "loc_x q" "loc_y q"
        "PolygonOutlineCells cm" UINT_MAX 0 cells] assms(2,3)
    by (auto simp: outline_ray_def in_map_def)
  have "p = loc_of (hd qs)" "q = loc_of (last qs)" using qs(4,5) by simp_all
  then have "p \<in> loc_of ` set qs" "q \<in> loc_of ` set qs" using qs(3) by simp_all
  then show ?thesis
    using qs(1,2) outline_cells_foldM [OF assms(1) qs(2)] loc_of_in_map
    by (intro exI [of _ "map loc_of qs"]) auto
qed

lemma size_minus_1_nonempty: "xs \<noteq> [] \<Longrightarrow> size_minus_1 xs = length xs - 1"
  by (simp add: size_minus_1_def)

lemma outline_edges_cells:
  assumes "map_small cm" "\<forall>p \<in> set polygon. in_map cm p" "polygon \<noteq> []"
  shows "i < length polygon \<Longrightarrow> \<exists>cs. outline_edges cm polygon i cells = Some (cells @ cs) \<and>
    (\<forall>c \<in> set cs. in_map cm c) \<and> (\<forall>k. i \<le> k \<longrightarrow> Suc k < length polygon \<longrightarrow> polygon ! k \<in> set cs)"
proof (induction "length polygon - i" arbitrary: i cells)
  case 0
  then show ?case by simp
next
  case (Suc n)
  show ?case
  proof (cases "i < length polygon - 1")
    case False
    then show ?thesis
      using Suc.prems assms(3) by (intro exI [of _ "[]"]) (auto simp: outline_edges.simps size_minus_1_def)
  next
    case True
    then have si: "Suc i < length polygon" by simp
    have n: "n = length polygon - Suc i" using Suc.hyps(2) by linarith
    obtain cs where cs: "outline_ray cm (polygon ! i) (polygon ! Suc i) cells = Some (cells @ cs)"
      "\<forall>c \<in> set cs. in_map cm c" "polygon ! i \<in> set cs"
      using outline_ray_cells [OF assms(1), of "polygon ! i" "polygon ! Suc i" cells] assms(2) si
      by auto
    obtain ds where ds: "outline_edges cm polygon (Suc i) (cells @ cs) = Some ((cells @ cs) @ ds)"
      "\<forall>c \<in> set ds. in_map cm c"
      "\<forall>k. Suc i \<le> k \<longrightarrow> Suc k < length polygon \<longrightarrow> polygon ! k \<in> set ds"
      using Suc.hyps(1) [of "Suc i" "cells @ cs"] n si by auto
    have "outline_edges cm polygon i cells = Some (cells @ cs @ ds)"
      using True si assms(3) cs(1) ds(1)
      by (subst outline_edges.simps) (simp add: size_minus_1_def load_def)
    moreover have "polygon ! k \<in> set (cs @ ds)" if "i \<le> k" "Suc k < length polygon" for k
      using that cs(3) ds(3) by (cases "k = i") auto
    ultimately show ?thesis using cs(2) ds(2) by (intro exI [of _ "cs @ ds"]) auto
  qed
qed

lemma polygonOutlineCells_cells:
  assumes "map_small cm" "\<forall>p \<in> set polygon. in_map cm p" "polygon \<noteq> []"
  shows "\<exists>cs. polygonOutlineCells cm polygon cells = Some (cells @ cs) \<and>
    (\<forall>c \<in> set cs. in_map cm c) \<and> set polygon \<subseteq> set cs"
proof -
  obtain cs where cs: "outline_edges cm polygon 0 cells = Some (cells @ cs)"
    "\<forall>c \<in> set cs. in_map cm c" "\<forall>k. Suc k < length polygon \<longrightarrow> polygon ! k \<in> set cs"
    using outline_edges_cells [OF assms, of 0 cells] assms(3) by auto
  have l: "length polygon - 1 < length polygon" using assms(3) by simp
  obtain ds where ds: "outline_ray cm (polygon ! (length polygon - 1)) (polygon ! 0) (cells @ cs) =
      Some ((cells @ cs) @ ds)" "\<forall>c \<in> set ds. in_map cm c" "polygon ! (length polygon - 1) \<in> set ds"
    using outline_ray_cells [OF assms(1), of "polygon ! (length polygon - 1)" "polygon ! 0" "cells @ cs"]
      assms(2,3) l by auto
  have "p \<in> set (cs @ ds)" if p: "p \<in> set polygon" for p
  proof -
    obtain k where k: "k < length polygon" "p = polygon ! k" using p by (metis in_set_conv_nth)
    show ?thesis using k cs(3) ds(3) by (cases "Suc k < length polygon") (auto simp: less_Suc_eq not_less_eq
        intro: le_antisym dest: Suc_lessI)
  qed
  then show ?thesis
    using cs(1,2) ds(1,2) assms(3) l
    by (intro exI [of _ "cs @ ds"])
      (auto simp: polygonOutlineCells_def size_minus_1_nonempty load_def)
qed

section \<open>The sort by column\<close>

lemma swap_next_length [simp]: "length (swap_next xs i) = length xs"
  by (simp add: swap_next_def)

lemma swap_next_take: "j \<le> i \<Longrightarrow> take j (swap_next xs i) = take j xs"
  by (simp add: swap_next_def)

lemma sorted_take_one: "sorted (map f (take (Suc 0) xs))"
  by (cases xs) simp_all

lemma sorted_take_less: "sorted (map f (take m xs)) \<Longrightarrow> k \<le> m \<Longrightarrow> sorted (map f (take k xs))"
  by (metis min.absorb2 sorted_wrt_take take_map take_take min.commute)

lemma sorted_take_next:
  assumes "sorted (map f (take (Suc i) xs))" "Suc i < length xs" "f (xs ! i) \<le> (f (xs ! Suc i) :: 'b::linorder)"
  shows "sorted (map f (take (Suc (Suc i)) xs))"
proof -
  have "y \<le> f (xs ! i)" if "y \<in> set (map f (take (Suc i) xs))" for y
    using assms(1,2) that
    by (simp add: take_Suc_conv_app_nth sorted_append) auto
  then have "\<forall>y \<in> set (map f (take (Suc i) xs)). y \<le> f (xs ! Suc i)"
    using assms(3) order_trans by blast
  then show ?thesis
    unfolding take_Suc_conv_app_nth [OF assms(2)] map_append sorted_append
    using assms(1) by simp
qed

lemma bubble_sort_sorts:
  assumes "cells \<noteq> []" "i < length cells" "sorted (map loc_x (take (Suc i) cells))"
  shows "\<exists>s. bubble_sort cells i = Some s \<and> mset s = mset cells \<and> sorted (map loc_x s)"
  using assms
proof (induction cells i rule: bubble_sort.induct)
  case (1 cells i)
  show ?case
  proof (cases "i < length cells - 1")
    case False
    then have "take (Suc i) cells = cells" using 1(3,4) by simp
    then show ?thesis using False 1(3-5)
      by (subst bubble_sort.simps) (simp add: size_minus_1_nonempty)
  next
    case lt: True
    then have g: "i < size_minus_1 cells" "i + 1 < length cells"
      using 1(3) by (simp_all add: size_minus_1_nonempty)
    show ?thesis
    proof (cases "loc_x (cells ! (i + 1)) < loc_x (cells ! i)")
      case True
      let ?c = "swap_next cells i" and ?i = "if 0 < i then i - 1 else i"
      have "sorted (map loc_x (take (Suc ?i) ?c))"
        using sorted_take_less [OF 1(5)] sorted_take_one [of loc_x ?c]
        by (cases i) (auto simp: swap_next_take)
      moreover have "?c \<noteq> []" "?i < length ?c" using 1(3) g by (auto simp: swap_next_def)
      ultimately obtain s where "bubble_sort ?c ?i = Some s" "mset s = mset ?c" "sorted (map loc_x s)"
        using 1(1) [OF g True] by blast
      moreover have "bubble_sort cells i = bubble_sort ?c ?i"
        using g True by (subst bubble_sort.simps) simp
      ultimately show ?thesis using g(2) by (simp add: swap_next_mset)
    next
      case False
      then have "sorted (map loc_x (take (Suc (i + 1)) cells))"
        using sorted_take_next [OF 1(5)] g by simp
      then obtain s where "bubble_sort cells (i + 1) = Some s" "mset s = mset cells" "sorted (map loc_x s)"
        using 1(2) [OF g False] 1(3) g by blast
      moreover have "bubble_sort cells i = bubble_sort cells (i + 1)"
        using g False by (subst bubble_sort.simps) simp
      ultimately show ?thesis by simp
    qed
  qed
qed

section \<open>The fill\<close>

lemma column_range_from:
  assumes "column_range cells x i lo hi = (i', lo', hi')"
  shows "i \<le> i' \<and> lo' \<in> insert lo (set cells) \<and> hi' \<in> insert hi (set cells)"
  using assms
proof (induction cells x i lo hi rule: column_range.induct)
  case (1 cells x i lo hi)
  show ?case
  proof (cases "i < length cells \<and> loc_x (cells ! i) = x")
    case True
    then have m: "cells ! i \<in> set cells" by simp
    note eq = 1(4) [unfolded column_range.simps [of cells x i]]
    consider "loc_y (cells ! i) < loc_y lo"
      | "\<not> loc_y (cells ! i) < loc_y lo" "loc_y hi < loc_y (cells ! i)"
      | "\<not> loc_y (cells ! i) < loc_y lo" "\<not> loc_y hi < loc_y (cells ! i)" by blast
    then show ?thesis
    proof cases
      case c1: 1
      then show ?thesis using 1(1) [OF True c1] eq True m by auto
    next
      case 2
      then show ?thesis using 1(2) [OF True 2] eq True m by auto
    next
      case 3
      then show ?thesis using 1(3) [OF True 3] eq True m by auto
    qed
  next
    case False
    then show ?thesis using 1(4) by (simp add: column_range.simps [of cells x i] split: if_splits)
  qed
qed

lemma word_Suc_unat: "x < (m::u32) \<Longrightarrow> unat (x + 1) = Suc (unat x)"
  using u32_less [of m] by (simp add: word_less_nat_alt unat_word_ariths)

lemma fill_column_cells:
  assumes "y_max < h"
  shows "fill_column x y_max y cells =
    Some (cells @ map (\<lambda>k. \<lparr>loc_x = x, loc_y = of_nat k\<rparr>) [unat y..<Suc (unat y_max)])"
proof (induction "Suc (unat y_max) - unat y" arbitrary: y cells)
  case 0
  then show ?case by (subst fill_column.simps) (simp add: word_le_nat_alt)
next
  case (Suc n)
  then have le: "y \<le> y_max" by (simp add: word_le_nat_alt)
  have s: "unat (y + 1) = Suc (unat y)" using le assms by (intro word_Suc_unat) (rule le_less_trans)
  have "[unat y..<Suc (unat y_max)] = unat y # [Suc (unat y)..<Suc (unat y_max)]"
    using le by (intro upt_conv_Cons) (simp add: word_le_nat_alt)
  then show ?case
    using le s Suc.hyps(1) [of "y + 1"] Suc.hyps(2)
    by (subst fill_column.simps) (simp del: upt_Suc)
qed

lemma fill_columns_cells:
  assumes "\<forall>c \<in> set cells. in_map cm c" "x_max < cm_size_x cm" "cells \<noteq> []"
  shows "\<exists>cs. fill_columns x_max x i cells = Some (cells @ cs) \<and> (\<forall>c \<in> set cs. in_map cm c)"
  using assms(1,3)
proof (induction "Suc (unat x_max) - unat x" arbitrary: x i cells)
  case 0
  then show ?case by (intro exI [of _ "[]"]) (subst fill_columns.simps, simp add: word_le_nat_alt)
next
  case (Suc n)
  then have le: "x \<le> x_max" by (simp add: word_le_nat_alt)
  then have x: "x < cm_size_x cm" using assms(2) by (rule le_less_trans)
  show ?case
  proof (cases "size_minus_1 cells \<le> i")
    case True
    then show ?thesis using le by (intro exI [of _ "[]"]) (subst fill_columns.simps, simp)
  next
    case False
    then have i: "i + 1 < length cells" using Suc.prems(2) by (simp add: size_minus_1_nonempty)
    define lo hi where "lo = (if loc_y (cells ! i) < loc_y (cells ! (i + 1)) then cells ! i else cells ! (i + 1))"
      and "hi = (if loc_y (cells ! i) < loc_y (cells ! (i + 1)) then cells ! (i + 1) else cells ! i)"
    have lohi: "lo \<in> set cells" "hi \<in> set cells" using i by (auto simp: lo_def hi_def)
    obtain i' lo' hi' where r: "column_range cells x (i + 2) lo hi = (i', lo', hi')"
      by (metis prod_cases3)
    then have mem: "lo' \<in> set cells" "hi' \<in> set cells"
      using column_range_from [OF r] lohi by auto
    have hi': "loc_y hi' < cm_size_y cm" using mem(2) Suc.prems(1) by (auto simp: in_map_def)
    define col where "col = map (\<lambda>k. \<lparr>loc_x = x, loc_y = of_nat k\<rparr>) [unat (loc_y lo')..<Suc (unat (loc_y hi'))]"
    have col: "fill_column x (loc_y hi') (loc_y lo') cells = Some (cells @ col)"
      unfolding col_def by (rule fill_column_cells) fact
    have colm: "in_map cm c" if c: "c \<in> set col" for c
    proof -
      obtain k where k: "c = \<lparr>loc_x = x, loc_y = of_nat k\<rparr>" "k \<le> unat (loc_y hi')"
        using c by (auto simp: col_def)
      then have "k < unat (cm_size_y cm)" "k < 2 ^ 32"
        using hi' u32_less [of "cm_size_y cm"] by (simp_all add: word_less_nat_alt)
      then show ?thesis using k x by (simp add: in_map_def word_less_nat_alt unat_of_nat)
    qed
    have sx: "unat (x + 1) = Suc (unat x)" using x by (rule word_Suc_unat)
    have n: "n = Suc (unat x_max) - unat (x + 1)" using Suc.hyps(2) sx by linarith
    obtain cs where cs: "fill_columns x_max (x + 1) i' (cells @ col) = Some ((cells @ col) @ cs)"
      "\<forall>c \<in> set cs. in_map cm c"
      using Suc.hyps(1) [OF n, of "cells @ col" i'] Suc.prems colm by auto
    have "fill_columns x_max x i cells = Some (cells @ col @ cs)"
    proof -
      have "(if loc_y (cells ! i) < loc_y (cells ! (i + 1)) then (cells ! i, cells ! (i + 1))
          else (cells ! (i + 1), cells ! i)) = (lo, hi)" by (simp add: lo_def hi_def)
      then show ?thesis
        using le False i Suc_lessD [OF i [unfolded Suc_eq_plus1 [symmetric]]] col cs(1) r
        by (subst fill_columns.simps) (simp only: load_def if_True if_False bind.simps Let_def split_conv append_assoc)
    qed
    then show ?thesis using cs(2) colm by (intro exI [of _ "col @ cs"]) auto
  qed
qed

lemma convexFillCells_cells:
  assumes "map_small cm" "\<forall>p \<in> set polygon. in_map cm p"
  shows "\<exists>r. convexFillCells cm polygon [] = Some r \<and> (\<forall>c \<in> set r. in_map cm c) \<and>
    (3 \<le> length polygon \<longrightarrow> set polygon \<subseteq> set r)"
proof (cases "length polygon < 3")
  case True
  then show ?thesis by (simp add: convexFillCells_def)
next
  case False
  then have ne: "polygon \<noteq> []" by auto
  obtain cs where cs: "polygonOutlineCells cm polygon [] = Some cs" "\<forall>c \<in> set cs. in_map cm c"
    "set polygon \<subseteq> set cs"
    using polygonOutlineCells_cells [OF assms ne, of "[]"] by auto
  then have csn: "cs \<noteq> []" using ne by auto
  obtain so where so: "bubble_sort cs 0 = Some so" "mset so = mset cs"
    using bubble_sort_sorts [OF csn, of 0] csn sorted_take_one [of loc_x cs] by auto
  have so': "set so = set cs" "so \<noteq> []" using so(2) csn by (auto dest: mset_eq_setD)
  then have fin: "so ! (length so - 1) \<in> set so" by (intro nth_mem) simp
  obtain r where "fill_columns (loc_x (so ! (length so - 1))) (loc_x (so ! 0)) 0 so = Some (so @ r)"
    "\<forall>c \<in> set r. in_map cm c"
    using fill_columns_cells [of so cm "loc_x (so ! (length so - 1))" "loc_x (so ! 0)" 0] so' fin cs(2)
    by (auto simp: in_map_def)
  then show ?thesis
    using False cs so so'
    by (auto simp: convexFillCells_def load_def size_minus_1_nonempty)
qed

lemma worldToMap_in_map:
  assumes "worldToMap cm wx wy = Some (Some (mx, my))"
  shows "in_map cm \<lparr>loc_x = mx, loc_y = my\<rparr>"
  using assms by (auto simp: worldToMap_def in_map_def split: if_splits bind_splits)

lemma map_polygon_in_map:
  "map_polygon cm polygon = Some (Some locs) \<Longrightarrow>
    length locs = length polygon \<and> (\<forall>p \<in> set locs. in_map cm p)"
proof (induction polygon arbitrary: locs)
  case Nil
  then show ?case by simp
next
  case (Cons w polygon)
  then show ?case
    by (cases w) (auto split: bind_splits option.splits, erule worldToMap_in_map)
qed

lemma set_cells_cells:
  assumes "cm_wf cm" "\<forall>c \<in> set cells. in_map cm c"
  shows "\<exists>cm'. set_cells cm v cells = Some cm' \<and> cm_wf cm' \<and>
    cm_size_x cm' = cm_size_x cm \<and> cm_size_y cm' = cm_size_y cm \<and>
    (\<forall>x y. x < cm_size_x cm \<longrightarrow> y < cm_size_y cm \<longrightarrow> getCost cm' x y =
      (if \<lparr>loc_x = x, loc_y = y\<rparr> \<in> set cells then Some v else getCost cm x y))"
proof -
  let ?ps = "map (\<lambda>c. (loc_x c, loc_y c)) cells"
  have "(x, y) = (loc_x c, loc_y c) \<longleftrightarrow> c = \<lparr>loc_x = x, loc_y = y\<rparr>" for x y and c :: map_location
    by (cases c) auto
  then have "(x, y) \<in> set ?ps \<longleftrightarrow> \<lparr>loc_x = x, loc_y = y\<rparr> \<in> set cells" for x y
    by (auto simp: image_iff)
  moreover have "set_cells cm v cells = foldM (\<lambda>(x, y) s. setCost s x y v) ?ps cm"
    by (simp add: set_cells_def foldM_map)
  ultimately show ?thesis
    using costmap.wr_all [OF assms(1), of ?ps v] assms(2) by (auto simp: in_map_def)
qed

section \<open>Properties\<close>

text \<open>The bubble sort of \<open>convexFillCells\<close>, with its index stepping back after every swap,
  terminates on every list; started at 0 on a non-empty list it returns the same cells sorted by
  column, and on an empty one it reads out of bounds, \<open>size() - 1\<close> having wrapped.\<close>

theorem bubble_sort_correct:
  "(if cells = [] then bubble_sort cells 0 = None
    else \<exists>s. bubble_sort cells 0 = Some s \<and> mset s = mset cells \<and> sorted (map loc_x s))"
proof (cases "cells = []")
  case True
  then show ?thesis by (simp add: bubble_sort.simps size_minus_1_def)
next
  case False
  then show ?thesis using bubble_sort_sorts [OF False, of 0] sorted_take_one [of loc_x cells] by simp
qed

text \<open>Filling a polygon whose vertices lie in the map never leaves the arrays: it returns, every
  cell it collects is a cell of the map, and with at least three vertices every vertex is
  collected; an empty outline request reads out of bounds.\<close>

theorem convexFillCells_in_map:
  assumes "map_small cm" "\<forall>p \<in> set polygon. in_map cm p"
  shows "(\<exists>r. convexFillCells cm polygon [] = Some r \<and> (\<forall>c \<in> set r. in_map cm c) \<and>
      (if length polygon < 3 then r = [] else set polygon \<subseteq> set r)) \<and>
    polygonOutlineCells cm [] [] = None"
proof -
  have "polygonOutlineCells cm [] [] = None"
    by (simp add: polygonOutlineCells_def outline_edges.simps size_minus_1_def load_def)
  then show ?thesis
    using convexFillCells_cells [OF assms] by (auto simp: convexFillCells_def)
qed

lemma sample_map_small: "map_small (sample_map 3 2 [1, 2, 3, 4, 5, 6])"
  using sample_wf [of "[1, 2, 3, 4, 5, 6]" 3 2] by (simp add: map_small_def)

theorem convexFillCells_in_map_witness:
  "\<exists>r. convexFillCells (sample_map 3 2 [1, 2, 3, 4, 5, 6])
      [\<lparr>loc_x = 0, loc_y = 0\<rparr>, \<lparr>loc_x = 2, loc_y = 0\<rparr>, \<lparr>loc_x = 2, loc_y = 1\<rparr>] [] = Some r \<and>
    \<lparr>loc_x = 2, loc_y = 1\<rparr> \<in> set r"
  using convexFillCells_in_map [OF sample_map_small,
      of "[\<lparr>loc_x = 0, loc_y = 0\<rparr>, \<lparr>loc_x = 2, loc_y = 0\<rparr>, \<lparr>loc_x = 2, loc_y = 1\<rparr>]"]
  by (auto simp: in_map_def word_less_nat_alt)

text \<open>C24. \<open>setConvexPolygonCost\<close>, its coordinate casts in range, either finds a vertex outside the
  map, returns false and changes nothing, or returns true with a well-formed map of the same size
  where every vertex cell has the new cost and every other cell the new cost or its old one.\<close>

theorem setConvexPolygonCost_cells:
  assumes "map_small cm" "map_polygon cm polygon = Some mp"
  shows "\<exists>cm'. setConvexPolygonCost cm polygon v = Some (mp \<noteq> None, cm') \<and> cm_wf cm' \<and>
    (mp = None \<longrightarrow> cm' = cm) \<and>
    (\<forall>x y. x < cm_size_x cm \<longrightarrow> y < cm_size_y cm \<longrightarrow>
      getCost cm' x y \<in> {Some v, getCost cm x y} \<and>
      (\<forall>locs. mp = Some locs \<longrightarrow> 3 \<le> length locs \<longrightarrow> \<lparr>loc_x = x, loc_y = y\<rparr> \<in> set locs \<longrightarrow>
        getCost cm' x y = Some v))"
proof -
  have wf: "cm_wf cm" using assms(1) by (simp add: map_small_def)
  show ?thesis
  proof (cases mp)
    case None
    then show ?thesis using assms(2) wf by (simp add: setConvexPolygonCost_def)
  next
    case (Some locs)
    obtain r where r: "convexFillCells cm locs [] = Some r" "\<forall>c \<in> set r. in_map cm c"
      "3 \<le> length locs \<longrightarrow> set locs \<subseteq> set r"
      using convexFillCells_cells [OF assms(1)] map_polygon_in_map assms(2) Some by blast
    obtain cm' where "set_cells cm v r = Some cm'" "cm_wf cm'"
      "\<forall>x y. x < cm_size_x cm \<longrightarrow> y < cm_size_y cm \<longrightarrow> getCost cm' x y =
        (if \<lparr>loc_x = x, loc_y = y\<rparr> \<in> set r then Some v else getCost cm x y)"
      using set_cells_cells [OF wf r(2)] by blast
    then show ?thesis using assms(2) Some r by (intro exI [of _ cm']) (auto simp: setConvexPolygonCost_def)
  qed
qed

theorem setConvexPolygonCost_cells_witness:
  "\<exists>cm'. setConvexPolygonCost (sample_map 3 2 [1, 2, 3, 4, 5, 6])
      [(5 / 4, - 3 / 4), (9 / 4, - 3 / 4), (9 / 4, - 1 / 4)] 9 = Some (True, cm') \<and>
     getCost cm' 2 1 = Some 9"
proof -
  have "map_polygon (sample_map 3 2 [1, 2, 3, 4, 5, 6])
      [(5 / 4, - 3 / 4), (9 / 4, - 3 / 4), (9 / 4, - 1 / 4)] =
    Some (Some [\<lparr>loc_x = 0, loc_y = 0\<rparr>, \<lparr>loc_x = 2, loc_y = 0\<rparr>, \<lparr>loc_x = 2, loc_y = 1\<rparr>])"
    by (simp add: worldToMap_def cell_quot_def cast_uint_def trunc_def word_less_nat_alt)
  from setConvexPolygonCost_cells [OF sample_map_small this, of 9]
  obtain cm' where cm': "setConvexPolygonCost (sample_map 3 2 [1, 2, 3, 4, 5, 6])
      [(5 / 4, - 3 / 4), (9 / 4, - 3 / 4), (9 / 4, - 1 / 4)] 9 = Some (True, cm')"
    and cells: "\<And>(x::u32) (y::u32). x < 3 \<Longrightarrow> y < 2 \<Longrightarrow> (x = 2 \<and> y = 1 \<longrightarrow> getCost cm' 2 1 = Some 9)"
    by auto
  have "(2::u32) < 3" "(1::u32) < 2" by (simp_all add: word_less_nat_alt)
  then have "getCost cm' 2 1 = Some 9" using cells by blast
  then show ?thesis using cm' by blast
qed

end
