(* ===== verification/Obstacle_Layer.thy ===== *)
theory Obstacle_Layer
  imports Costmap_Layers Costmap_Polygon
begin

text \<open>
  \<open>ObstacleLayer\<close>: marking and clearing by sensor observations, the footprint, and \<open>updateCosts\<close>; and
  the update cycle of a \<open>LayeredCostmap\<close> of such layers. The observation buffers' contents and whether
  they are current are arguments.
\<close>

section \<open>State\<close>

record observation =
  ob_origin_x :: real
  ob_origin_y :: real
  ob_cloud :: "(real \<times> real \<times> real) list"
  ob_obstacle_max_range :: real
  ob_obstacle_min_range :: real
  ob_raytrace_max_range :: real
  ob_raytrace_min_range :: real

record obstacle_layer =
  ol_layer :: costmap_layer
  ol_rolling :: bool
  ol_min_height :: real
  ol_max_height :: real
  ol_footprint_clearing :: bool
  ol_footprint :: "(real \<times> real) list"
  ol_transformed_footprint :: "(real \<times> real) list"
  ol_was_reset :: bool
  ol_combination_method :: int
  ol_static_marking :: "observation list"
  ol_static_clearing :: "observation list"

definition ol_map :: "obstacle_layer \<Rightarrow> costmap2d" where
  "ol_map l = cl_map (ol_layer l)"

definition set_ol_map :: "costmap2d \<Rightarrow> obstacle_layer \<Rightarrow> obstacle_layer" where
  "set_ol_map cm l = l\<lparr>ol_layer := (ol_layer l)\<lparr>cl_map := cm\<rparr>\<rparr>"

section \<open>Observations\<close>

text \<open>A buffer is its observations and whether it is current.\<close>

type_synonym buffer = "observation list \<times> bool"

definition getMarkingObservations :: "buffer list \<Rightarrow> obstacle_layer \<Rightarrow> bool \<times> observation list" where
  "getMarkingObservations marking_buffers l =
     (foldl (\<lambda>current b. snd b \<and> current) True marking_buffers,
      concat (map fst marking_buffers) @ ol_static_marking l)"

definition getClearingObservations :: "buffer list \<Rightarrow> obstacle_layer \<Rightarrow> bool \<times> observation list" where
  "getClearingObservations clearing_buffers l =
     (foldl (\<lambda>current b. snd b \<and> current) True clearing_buffers,
      concat (map fst clearing_buffers) @ ol_static_clearing l)"

definition addStaticObservation :: "observation \<Rightarrow> bool \<Rightarrow> bool \<Rightarrow> obstacle_layer \<Rightarrow> obstacle_layer" where
  "addStaticObservation obs marking clearing l =
     (let l1 = (if marking then l\<lparr>ol_static_marking := ol_static_marking l @ [obs]\<rparr> else l)
      in if clearing then l1\<lparr>ol_static_clearing := ol_static_clearing l1 @ [obs]\<rparr> else l1)"

definition clearStaticObservations :: "bool \<Rightarrow> bool \<Rightarrow> obstacle_layer \<Rightarrow> obstacle_layer" where
  "clearStaticObservations marking clearing l =
     (let l1 = (if marking then l\<lparr>ol_static_marking := []\<rparr> else l)
      in if clearing then l1\<lparr>ol_static_clearing := []\<rparr> else l1)"

section \<open>Clearing\<close>

text \<open>
  At distance 0 the quotient is infinite or not a number for a non-negative range, and the minimum
  with 1 is 1; for a negative range the bounds stop being numbers.
\<close>

definition updateRaytraceBounds ::
    "real \<Rightarrow> real \<Rightarrow> real \<Rightarrow> real \<Rightarrow> real \<Rightarrow> real \<Rightarrow> bounds \<Rightarrow> bounds option" where
  "updateRaytraceBounds ox oy wx wy max_range min_range b = do {
     let dx = wx - ox; let dy = wy - oy;
     let full_distance = sqrt (dx * dx + dy * dy);
     if full_distance < min_range then Some b
     else if full_distance = 0 then if 0 \<le> max_range then Some (touch ox oy b) else None
     else do {
       let scale = min 1 (max_range / full_distance);
       Some (touch (ox + dx * scale) (oy + dy * scale) b)
     }
   }"

text \<open>
  The end of a ray clipped to the map. Every quotient divides by a difference that the guard before it
  makes non-zero when the origin lies in the map.
\<close>

definition clip_endpoint ::
    "real \<Rightarrow> real \<Rightarrow> real \<Rightarrow> real \<Rightarrow> real \<Rightarrow> real \<Rightarrow> real \<Rightarrow> real \<Rightarrow> real \<times> real" where
  "clip_endpoint ox oy origin_x origin_y map_end_x map_end_y wx wy =
     (let a = wx - ox; b = wy - oy;
          (wx1, wy1) = (if wx < origin_x then (origin_x, oy + b * ((origin_x - ox) / a)) else (wx, wy));
          (wx2, wy2) = (if wy1 < origin_y then (ox + a * ((origin_y - oy) / b), origin_y) else (wx1, wy1));
          (wx3, wy3) = (if map_end_x < wx2
                        then (map_end_x - 1 / 1000, oy + b * ((map_end_x - ox) / a)) else (wx2, wy2))
      in if map_end_y < wy3 then (ox + a * ((map_end_y - oy) / b), map_end_y - 1 / 1000) else (wx3, wy3))"

definition clear_ray ::
    "observation \<Rightarrow> u32 \<Rightarrow> u32 \<Rightarrow> real \<times> real \<times> real \<Rightarrow> costmap2d \<times> bounds \<Rightarrow> (costmap2d \<times> bounds) option" where
  "clear_ray obs x0 y0 pt s = do {
     let (cm, b) = s; let (px, py, pz) = pt;
     let ox = ob_origin_x obs; let oy = ob_origin_y obs;
     let map_end_x = cm_origin_x cm + real (unat (cm_size_x cm)) * cm_resolution cm;
     let map_end_y = cm_origin_y cm + real (unat (cm_size_y cm)) * cm_resolution cm;
     let (wx, wy) = clip_endpoint ox oy (cm_origin_x cm) (cm_origin_y cm) map_end_x map_end_y px py;
     c \<leftarrow> worldToMap cm wx wy;
     case c of
       None \<Rightarrow> Some (cm, b)
     | Some (x1, y1) \<Rightarrow> do {
         max_cells \<leftarrow> cellDistance cm (ob_raytrace_max_range obs);
         min_cells \<leftarrow> cellDistance cm (ob_raytrace_min_range obs);
         grid \<leftarrow> cm_costmap cm;
         grid' \<leftarrow> raytraceLine (MarkCell FREE_SPACE) cm x0 y0 x1 y1 max_cells min_cells grid;
         b' \<leftarrow> updateRaytraceBounds ox oy wx wy (ob_raytrace_max_range obs) (ob_raytrace_min_range obs) b;
         Some (cm\<lparr>cm_costmap := Some grid'\<rparr>, b')
       }
   }"

definition raytraceFreespace :: "observation \<Rightarrow> costmap2d \<times> bounds \<Rightarrow> (costmap2d \<times> bounds) option" where
  "raytraceFreespace obs s = do {
     let (cm, b) = s;
     c \<leftarrow> worldToMap cm (ob_origin_x obs) (ob_origin_y obs);
     case c of
       None \<Rightarrow> Some (cm, b)
     | Some (x0, y0) \<Rightarrow>
         foldM (clear_ray obs x0 y0) (ob_cloud obs) (cm, touch (ob_origin_x obs) (ob_origin_y obs) b)
   }"

section \<open>Marking\<close>

definition mark_point ::
    "obstacle_layer \<Rightarrow> u32 \<Rightarrow> u32 \<Rightarrow> u32 \<Rightarrow> u32 \<Rightarrow> real \<times> real \<times> real \<Rightarrow> costmap2d \<times> bounds \<Rightarrow>
     (costmap2d \<times> bounds) option" where
  "mark_point l x0 y0 max_cells min_cells pt s = do {
     let (cm, b) = s; let (px, py, pz) = pt;
     if pz < ol_min_height l then Some (cm, b)
     else if ol_max_height l < pz then Some (cm, b)
     else do {
       c \<leftarrow> worldToMap cm px py;
       case c of
         None \<Rightarrow> Some (cm, b)
       | Some (mx, my) \<Rightarrow> do {
           dst \<leftarrow> cast_uint (hypot (mx - x0) (my - y0));
           if max_cells < dst then Some (cm, b)
           else if dst < min_cells then Some (cm, b)
           else do {
             cm' \<leftarrow> setCost cm mx my LETHAL_OBSTACLE;
             Some (cm', touch px py b)
           }
         }
     }
   }"

definition mark_observation ::
    "obstacle_layer \<Rightarrow> observation \<Rightarrow> costmap2d \<times> bounds \<Rightarrow> (costmap2d \<times> bounds) option" where
  "mark_observation l obs s = do {
     let (cm, b) = s;
     max_cells \<leftarrow> cellDistance cm (ob_obstacle_max_range obs);
     min_cells \<leftarrow> cellDistance cm (ob_obstacle_min_range obs);
     c \<leftarrow> worldToMap cm (ob_origin_x obs) (ob_origin_y obs);
     case c of
       None \<Rightarrow> Some (cm, b)
     | Some (x0, y0) \<Rightarrow> foldM (mark_point l x0 y0 max_cells min_cells) (ob_cloud obs) (cm, b)
   }"

section \<open>Footprint\<close>

definition transformFootprint :: "real \<Rightarrow> real \<Rightarrow> real \<Rightarrow> (real \<times> real) list \<Rightarrow> (real \<times> real) list" where
  "transformFootprint x y theta footprint_spec =
     map (\<lambda>(px, py). (x + (px * cos theta - py * sin theta), y + (px * sin theta + py * cos theta)))
       footprint_spec"

definition updateFootprint :: "real \<Rightarrow> real \<Rightarrow> real \<Rightarrow> obstacle_layer \<Rightarrow> bounds \<Rightarrow> obstacle_layer \<times> bounds" where
  "updateFootprint robot_x robot_y robot_yaw l b =
     (if \<not> ol_footprint_clearing l then (l, b)
      else let fp = transformFootprint robot_x robot_y robot_yaw (ol_footprint l)
        in (l\<lparr>ol_transformed_footprint := fp\<rparr>, fold (\<lambda>(x, y). touch x y) fp b))"

section \<open>\<open>updateBounds\<close>, \<open>updateCosts\<close>, \<open>reset\<close>\<close>

definition obstacle_updateBounds ::
    "(nat \<Rightarrow> u8) \<Rightarrow> buffer list \<Rightarrow> buffer list \<Rightarrow> real \<Rightarrow> real \<Rightarrow> real \<Rightarrow> obstacle_layer \<Rightarrow> bounds \<Rightarrow>
     (obstacle_layer \<times> bounds) option" where
  "obstacle_updateBounds garbage marking_buffers clearing_buffers robot_x robot_y robot_yaw l b = do {
     cm0 \<leftarrow> (if ol_rolling l
             then updateOrigin garbage (ol_map l) (robot_x - getSizeInMetersX (ol_map l) / 2)
               (robot_y - getSizeInMetersY (ol_map l) / 2)
             else Some (ol_map l));
     let l0 = set_ol_map cm0 l;
     if \<not> cl_enabled (ol_layer l0) then Some (l0, b)
     else do {
       let (cl1, b1) = useExtraBounds (ol_layer l0) b;
       let (mcurrent, observations) = getMarkingObservations marking_buffers l0;
       let (current, clearing) = (if mcurrent then getClearingObservations clearing_buffers l0 else (False, []));
       let l1 = l0\<lparr>ol_layer := cl1\<lparr>cl_current := current\<rparr>\<rparr>;
       s2 \<leftarrow> foldM raytraceFreespace clearing (ol_map l1, b1);
       (cm3, b3) \<leftarrow> foldM (mark_observation l1) observations s2;
       Some (updateFootprint robot_x robot_y robot_yaw (set_ol_map cm3 l1) b3)
     }
   }"

definition obstacle_updateCosts ::
    "obstacle_layer \<Rightarrow> costmap2d \<Rightarrow> int \<Rightarrow> int \<Rightarrow> int \<Rightarrow> int \<Rightarrow> (obstacle_layer \<times> costmap2d) option" where
  "obstacle_updateCosts l master min_i min_j max_i max_j =
     (if \<not> cl_enabled (ol_layer l) then Some (l, master)
      else do {
        let l1 = (if \<not> cl_current (ol_layer l) \<and> ol_was_reset l
                  then l\<lparr>ol_was_reset := False, ol_layer := (ol_layer l)\<lparr>cl_current := True\<rparr>\<rparr> else l);
        l2 \<leftarrow> (if ol_footprint_clearing l1 then do {
                 (_, cm) \<leftarrow> setConvexPolygonCost (ol_map l1) (ol_transformed_footprint l1) FREE_SPACE;
                 Some (set_ol_map cm l1)
               } else Some l1);
        if ol_combination_method l2 = 0 then
          map_option (Pair l2) (updateWithOverwrite (ol_layer l2) master min_i min_j max_i max_j)
        else if ol_combination_method l2 = 1 then
          map_option (Pair l2) (updateWithMax (ol_layer l2) master min_i min_j max_i max_j)
        else Some (l2, master)
      })"

definition obstacle_reset :: "obstacle_layer \<Rightarrow> obstacle_layer option" where
  "obstacle_reset l = do {
     cm \<leftarrow> resetMaps (ol_map l);
     Some (l\<lparr>ol_layer := (ol_layer l)\<lparr>cl_map := cm, cl_current := False\<rparr>, ol_was_reset := True\<rparr>)
   }"

section \<open>Rays stay in the map\<close>

lemma segment_le:
  fixes c a s t M :: real
  assumes "0 \<le> t" "t \<le> s" "c \<le> M" "c + a * s \<le> M"
  shows "c + a * t \<le> M"
proof (cases "0 \<le> a")
  case True
  then have "a * t \<le> a * s" using assms(2) by (rule mult_left_mono [rotated])
  then show ?thesis using assms(4) by linarith
next
  case False
  then have "a * t \<le> 0" using assms(1) by (simp add: mult_nonpos_nonneg)
  then show ?thesis using assms(3) by linarith
qed

lemma hit_above:
  fixes c a s M :: real
  assumes "c \<le> M" "M < c + a * s" "0 \<le> s"
  shows "0 \<le> (M - c) / a" "(M - c) / a \<le> s" "c + a * ((M - c) / a) = M"
proof -
  have "0 < a * s" using assms by linarith
  then have a: "0 < a" using assms(3) by (simp add: zero_less_mult_iff)
  show "0 \<le> (M - c) / a" "c + a * ((M - c) / a) = M" using a assms(1) by simp_all
  show "(M - c) / a \<le> s" using a assms(2) by (simp add: pos_divide_le_eq mult.commute)
qed

lemma hit_below:
  fixes c a s M :: real
  assumes "M \<le> c" "c + a * s < M" "0 \<le> s"
  shows "0 \<le> (M - c) / a" "(M - c) / a \<le> s" "c + a * ((M - c) / a) = M"
proof -
  have "0 < (- a) * s" using assms by simp
  then have a: "a < 0" using assms(3) by (simp add: mult_less_0_iff)
  show "0 \<le> (M - c) / a" "c + a * ((M - c) / a) = M"
    using a assms(1) by (simp_all add: divide_nonpos_neg)
  show "(M - c) / a \<le> s" using a assms(2) by (simp add: neg_divide_le_eq mult.commute)
qed

text \<open>The clipped end point is never past the upper edges of the map.\<close>

lemma clip_endpoint_le:
  assumes "ox0 \<le> ox" "oy0 \<le> oy" "ox \<le> ex" "oy \<le> ey" "clip_endpoint ox oy ox0 oy0 ex ey wx wy = (x, y)"
  shows "x \<le> ex \<and> y \<le> ey"
proof -
  define a b where "a = wx - ox" and "b = wy - oy"
  define s1 where "s1 = (if wx < ox0 then (ox0 - ox) / a else 1)"
  have w: "wx = ox + a * 1" "wy = oy + b * 1" by (simp_all add: a_def b_def)
  have s1: "0 \<le> s1 \<and> (if wx < ox0 then (ox0, oy + b * ((ox0 - ox) / a)) else (wx, wy)) = (ox + a * s1, oy + b * s1)"
    using hit_below [OF assms(1), of a 1] w by (auto simp: s1_def)
  define s2 where "s2 = (if oy + b * s1 < oy0 then (oy0 - oy) / b else s1)"
  have s2: "0 \<le> s2 \<and> (if oy + b * s1 < oy0 then (ox + a * ((oy0 - oy) / b), oy0) else (ox + a * s1, oy + b * s1)) =
      (ox + a * s2, oy + b * s2)"
    using hit_below [OF assms(2), of b s1] s1 by (auto simp: s2_def)
  define s3 where "s3 = (if ex < ox + a * s2 then (ex - ox) / a else s2)"
  have s3: "0 \<le> s3" "s3 \<le> s2" "ox + a * s3 \<le> ex"
    using hit_above [OF assms(3), of a s2] s2 by (auto simp: s3_def)
  have e3: "(if ex < ox + a * s2 then (ex - 1 / 1000, oy + b * ((ex - ox) / a)) else (ox + a * s2, oy + b * s2)) =
      (if ex < ox + a * s2 then ex - 1 / 1000 else ox + a * s3, oy + b * s3)"
    by (simp add: s3_def)
  have xy: "(x, y) = (if ey < oy + b * s3 then (ox + a * ((ey - oy) / b), ey - 1 / 1000)
      else (if ex < ox + a * s2 then ex - 1 / 1000 else ox + a * s3, oy + b * s3))"
    using assms(5) unfolding clip_endpoint_def Let_def a_def [symmetric] b_def [symmetric]
    by (simp only: s1 s2 e3 split_conv)
  show ?thesis
  proof (cases "ey < oy + b * s3")
    case True
    have "ox + a * ((ey - oy) / b) \<le> ex"
      using hit_above [OF assms(4) True s3(1)] by (intro segment_le [OF _ _ assms(3) s3(3)])
    then show ?thesis using xy True by simp
  next
    case False
    then show ?thesis using xy s3(3) by auto
  qed
qed

definition good_map :: "costmap2d \<Rightarrow> bool" where
  "good_map cm \<longleftrightarrow> map_small cm \<and> 0 < cm_resolution cm"

definition map_end_x :: "costmap2d \<Rightarrow> real" where
  "map_end_x cm = cm_origin_x cm + real (unat (cm_size_x cm)) * cm_resolution cm"

definition map_end_y :: "costmap2d \<Rightarrow> real" where
  "map_end_y cm = cm_origin_y cm + real (unat (cm_size_y cm)) * cm_resolution cm"

lemma worldToMap_defined:
  assumes "good_map cm" "wx \<le> map_end_x cm" "wy \<le> map_end_y cm"
  shows "worldToMap cm wx wy \<noteq> None"
proof (cases "wx < cm_origin_x cm \<or> wy < cm_origin_y cm")
  case True
  then show ?thesis by (simp add: worldToMap_def)
next
  case False
  have r: "0 < cm_resolution cm" using assms(1) by (simp add: good_map_def)
  have cast: "\<exists>w. cast_uint q = Some w" if "0 \<le> q" "q \<le> real (unat (sz::u32))" "unat sz \<le> 2 ^ 31" for q sz
  proof -
    have "q < real (Suc (unat sz))" "Suc (unat sz) \<le> 2 ^ 32" using that(2,3) by simp_all
    then show ?thesis using cast_uint_nat [OF that(1)] by blast
  qed
  have q: "0 \<le> (w - o1) / cm_resolution cm" "(w - o1) / cm_resolution cm \<le> real n"
    if "o1 \<le> w" "w \<le> o1 + real n * cm_resolution cm" for w o1 n
    using that r by (simp_all add: pos_divide_le_eq)
  have sz: "unat (cm_size_x cm) \<le> 2 ^ 31" "unat (cm_size_y cm) \<le> 2 ^ 31"
    using assms(1) by (simp_all add: good_map_def map_small_def)
  have o: "cm_origin_x cm \<le> wx" "cm_origin_y cm \<le> wy" using False by simp_all
  have "\<exists>w. cast_uint ((wx - cm_origin_x cm) / cm_resolution cm) = Some w"
    by (rule cast [OF q [OF o(1) assms(2) [unfolded map_end_x_def]] sz(1)])
  moreover have "\<exists>w. cast_uint ((wy - cm_origin_y cm) / cm_resolution cm) = Some w"
    by (rule cast [OF q [OF o(2) assms(3) [unfolded map_end_y_def]] sz(2)])
  ultimately obtain mx my where "cast_uint ((wx - cm_origin_x cm) / cm_resolution cm) = Some mx"
    "cast_uint ((wy - cm_origin_y cm) / cm_resolution cm) = Some my" by blast
  then show ?thesis using False r by (simp add: worldToMap_def cell_quot_def)
qed

lemma worldToMap_in:
  "worldToMap cm wx wy = Some (Some (mx, my)) \<Longrightarrow> mx < cm_size_x cm \<and> my < cm_size_y cm"
  by (auto simp: worldToMap_def split: if_splits bind_splits)

lemma worldToMap_origin:
  assumes "good_map cm" "worldToMap cm wx wy = Some (Some (mx, my))"
  shows "cm_origin_x cm \<le> wx" "cm_origin_y cm \<le> wy" "wx \<le> map_end_x cm" "wy \<le> map_end_y cm"
proof -
  have r: "0 < cm_resolution cm" using assms(1) by (simp add: good_map_def)
  have o: "cm_origin_x cm \<le> wx" "cm_origin_y cm \<le> wy"
    and c: "cast_uint ((wx - cm_origin_x cm) / cm_resolution cm) = Some mx"
      "cast_uint ((wy - cm_origin_y cm) / cm_resolution cm) = Some my"
    and m: "mx < cm_size_x cm" "my < cm_size_y cm"
    using assms(2) r by (auto simp: worldToMap_def cell_quot_def split: if_splits bind_splits)
  have le: "w \<le> o1 + real (unat sz) * cm_resolution cm"
    if "o1 \<le> w" "cast_uint ((w - o1) / cm_resolution cm) = Some k" "k < sz" for w o1 k and sz :: u32
  proof -
    let ?q = "(w - o1) / cm_resolution cm"
    have q: "0 \<le> ?q" using that(1) r by simp
    have "0 \<le> \<lfloor>?q\<rfloor>" "\<lfloor>?q\<rfloor> < 2 ^ 32" "k = word_of_int \<lfloor>?q\<rfloor>"
      using that(2) q by (auto simp: cast_uint_def Let_def trunc_of_nonneg split: if_splits)
    then have "uint k = \<lfloor>?q\<rfloor>" by (simp add: uint_word_of_int take_bit_eq_mod)
    then have "\<lfloor>?q\<rfloor> + 1 \<le> int (unat sz)" using that(3) by (simp add: word_less_nat_alt uint_nat)
    then have "?q \<le> real (unat sz)" by linarith
    then show ?thesis using r by (simp add: pos_divide_le_eq)
  qed
  show "cm_origin_x cm \<le> wx" "cm_origin_y cm \<le> wy" "wx \<le> map_end_x cm" "wy \<le> map_end_y cm"
    using o le [OF o(1) c(1) m(1)] le [OF o(2) c(2) m(2)] by (simp_all add: map_end_x_def map_end_y_def)
qed

section \<open>Clearing keeps the map\<close>

text \<open>The frame of an operation on the map: only the array changes, and its cells only to \<open>v\<close>.\<close>

definition only_writes :: "u8 \<Rightarrow> costmap2d \<Rightarrow> costmap2d \<Rightarrow> bool" where
  "only_writes v cm cm' \<longleftrightarrow> (\<exists>m m'. cm_costmap cm = Some m \<and> cm' = cm\<lparr>cm_costmap := Some m'\<rparr> \<and>
     length m' = length m \<and> (\<forall>k < length m. m' ! k = m ! k \<or> m' ! k = v))"

lemma only_writes_refl: "cm_wf cm \<Longrightarrow> only_writes v cm cm"
  by (rule cm_wf_obtain [of cm], assumption) (auto simp: only_writes_def intro!: exI)

lemma only_writes_trans: "only_writes v a b \<Longrightarrow> only_writes v b c \<Longrightarrow> only_writes v a c"
proof -
  assume "only_writes v a b" "only_writes v b c"
  then obtain m m' m'' where m: "cm_costmap a = Some m" "b = a\<lparr>cm_costmap := Some m'\<rparr>" "length m' = length m"
    "\<forall>k < length m. m' ! k = m ! k \<or> m' ! k = v"
    "c = b\<lparr>cm_costmap := Some m''\<rparr>" "length m'' = length m'" "\<forall>k < length m'. m'' ! k = m' ! k \<or> m'' ! k = v"
    by (auto simp: only_writes_def)
  have "\<forall>k < length m. m'' ! k = m ! k \<or> m'' ! k = v" using m(3,4,7) by metis
  moreover have "c = a\<lparr>cm_costmap := Some m''\<rparr>" using m(2,5) by simp
  ultimately show ?thesis using m(1,3,6) by (auto simp: only_writes_def)
qed

lemma only_writes_map:
  assumes "only_writes v cm cm'"
  shows "cm_size_x cm' = cm_size_x cm" "cm_size_y cm' = cm_size_y cm" "cm_origin_x cm' = cm_origin_x cm"
    "cm_origin_y cm' = cm_origin_y cm" "cm_resolution cm' = cm_resolution cm" "cm_wf cm' = cm_wf cm"
    "good_map cm' = good_map cm" "worldToMap cm' wx wy = worldToMap cm wx wy"
    "cellDistance cm' d = cellDistance cm d" "map_end_x cm' = map_end_x cm" "map_end_y cm' = map_end_y cm"
    "same_dims cm cm'"
proof -
  obtain m m' where m: "cm_costmap cm = Some m" "cm' = cm\<lparr>cm_costmap := Some m'\<rparr>" "length m' = length m"
    using assms by (auto simp: only_writes_def)
  have wf: "cm_wf cm' = cm_wf cm" using m by (simp add: cm_wf_def)
  show "cm_size_x cm' = cm_size_x cm" "cm_size_y cm' = cm_size_y cm" "cm_origin_x cm' = cm_origin_x cm"
    "cm_origin_y cm' = cm_origin_y cm" "cm_resolution cm' = cm_resolution cm" "cm_wf cm' = cm_wf cm"
    "good_map cm' = good_map cm" "worldToMap cm' wx wy = worldToMap cm wx wy"
    "cellDistance cm' d = cellDistance cm d" "map_end_x cm' = map_end_x cm" "map_end_y cm' = map_end_y cm"
    "same_dims cm cm'"
    using wf by (simp_all add: m(2) good_map_def map_small_def worldToMap_def cellDistance_def
        map_end_x_def map_end_y_def same_dims_def)
qed

lemma only_writes_cost:
  assumes "only_writes v cm cm'" "cm_wf cm" "x < cm_size_x cm" "y < cm_size_y cm"
  shows "getCost cm' x y = getCost cm x y \<or> getCost cm' x y = Some v"
proof -
  obtain m m' where m: "cm_costmap cm = Some m" "cm' = cm\<lparr>cm_costmap := Some m'\<rparr>" "length m' = length m"
    "\<forall>k < length m. m' ! k = m ! k \<or> m' ! k = v" using assms(1) by (auto simp: only_writes_def)
  have "unat (getIndex cm x y) < length m"
    using getIndex_nat(2) [OF assms(2-4)] assms(2) m(1) by (simp add: cm_wf_def)
  moreover have "getIndex cm' x y = getIndex cm x y" by (simp add: m(2) getIndex_def)
  ultimately show ?thesis using m by (auto simp: getCost_def load_def)
qed

lemma grid_mark_cells:
  assumes "length m = unat w * unat h" "unat w * unat h < 2 ^ 32" "\<forall>q \<in> set qs. cell_in w h q"
  shows "\<exists>m'. foldM (\<lambda>q. MarkCell v (cell_offset w q)) qs m = Some m' \<and> length m' = length m \<and>
    (\<forall>k < length m. m' ! k = m ! k \<or> m' ! k = v)"
  using assms(1,3)
proof (induction qs arbitrary: m)
  case Nil
  then show ?case by simp
next
  case (Cons q qs)
  have q: "coord AX q < unat w" "coord AY q < unat h" using Cons.prems(2) by (simp_all add: cell_in_def)
  have lt: "(of_nat (coord AX q) :: u32) < w" "(of_nat (coord AY q) :: u32) < h"
    using q u32_less [of w] u32_less [of h] by (simp_all add: word_less_nat_alt unat_of_nat)
  have "unat (cell_offset w q) < length m"
    using word_cell_index(2,3) [OF assms(2) lt] Cons.prems(1) by (simp add: cell_offset_def)
  then have mk: "MarkCell v (cell_offset w q) m = Some (m[unat (cell_offset w q) := v])"
    by (simp add: MarkCell_def store_def)
  let ?m = "m[unat (cell_offset w q) := v]"
  obtain m' where m': "foldM (\<lambda>q. MarkCell v (cell_offset w q)) qs ?m = Some m'" "length m' = length ?m"
    "\<forall>k < length ?m. m' ! k = ?m ! k \<or> m' ! k = v" using Cons.IH [of ?m] Cons.prems by auto
  have "m' ! k = m ! k \<or> m' ! k = v" if "k < length m" for k
    using m'(3) [rule_format, of k] that by (cases "k = unat (cell_offset w q)") auto
  then show ?case using mk m' by simp
qed

definition bounds_le :: "bounds \<Rightarrow> bounds \<Rightarrow> bool" where
  "bounds_le b b' \<longleftrightarrow> b_min_x b' \<le> b_min_x b \<and> b_min_y b' \<le> b_min_y b \<and> b_max_x b \<le> b_max_x b' \<and>
     b_max_y b \<le> b_max_y b'"

lemma bounds_le_trans: "bounds_le a b \<Longrightarrow> bounds_le b c \<Longrightarrow> bounds_le a c"
  by (auto simp: bounds_le_def)

lemma bounds_le_touch: "bounds_le b (touch x y b)"
  by (simp add: bounds_le_def touch_def)

lemma updateRaytraceBounds_grows:
  "0 \<le> max_range \<Longrightarrow> \<exists>b'. updateRaytraceBounds ox oy wx wy max_range min_range b = Some b' \<and> bounds_le b b'"
  by (auto simp: updateRaytraceBounds_def Let_def bounds_le_touch) (simp_all add: bounds_le_def)

text \<open>What the casts of an observation need: its origin and ranges in cells are representable.\<close>

definition obs_ok :: "costmap2d \<Rightarrow> observation \<Rightarrow> bool" where
  "obs_ok cm obs \<longleftrightarrow> 0 \<le> ob_raytrace_max_range obs \<and> cellDistance cm (ob_raytrace_max_range obs) \<noteq> None \<and>
     cellDistance cm (ob_raytrace_min_range obs) \<noteq> None \<and>
     worldToMap cm (ob_origin_x obs) (ob_origin_y obs) \<noteq> None"

lemma clear_ray_writes:
  assumes "good_map cm" "obs_ok cm obs" "worldToMap cm (ob_origin_x obs) (ob_origin_y obs) = Some (Some (x0, y0))"
  shows "\<exists>cm' b'. clear_ray obs x0 y0 pt (cm, b) = Some (cm', b') \<and> only_writes FREE_SPACE cm cm' \<and> bounds_le b b'"
proof -
  obtain px py pz where pt: "pt = (px, py, pz)" by (cases pt)
  obtain wx wy where clip: "clip_endpoint (ob_origin_x obs) (ob_origin_y obs) (cm_origin_x cm) (cm_origin_y cm)
      (map_end_x cm) (map_end_y cm) px py = (wx, wy)" by fastforce
  have o: "cm_origin_x cm \<le> ob_origin_x obs" "cm_origin_y cm \<le> ob_origin_y obs"
    "ob_origin_x obs \<le> map_end_x cm" "ob_origin_y obs \<le> map_end_y cm"
    using worldToMap_origin [OF assms(1,3)] by blast+
  have le: "wx \<le> map_end_x cm" "wy \<le> map_end_y cm" using clip_endpoint_le [OF o clip] by simp_all
  have wf: "cm_wf cm" and big: "unat (cm_size_x cm) \<le> 2 ^ 31" "unat (cm_size_y cm) \<le> 2 ^ 31"
    using assms(1) by (simp_all add: good_map_def map_small_def)
  obtain c where c: "worldToMap cm wx wy = Some c" using worldToMap_defined [OF assms(1) le] by blast
  show ?thesis
  proof (cases c)
    case None
    then show ?thesis
      using c clip only_writes_refl [OF wf]
      by (simp add: clear_ray_def pt map_end_x_def map_end_y_def bounds_le_def)
  next
    case (Some xy)
    obtain x1 y1 where xy: "xy = (x1, y1)" by (cases xy)
    obtain mx mn where cells: "cellDistance cm (ob_raytrace_max_range obs) = Some mx"
      "cellDistance cm (ob_raytrace_min_range obs) = Some mn" using assms(2) by (auto simp: obs_ok_def)
    obtain m where m: "cm_costmap cm = Some m" "length m = unat (cm_size_x cm) * unat (cm_size_y cm)"
      "unat (cm_size_x cm) * unat (cm_size_y cm) < 2 ^ 32" using wf by (rule cm_wf_obtain)
    have in0: "x0 < cm_size_x cm" "y0 < cm_size_y cm" using worldToMap_in [OF assms(3)] by auto
    have in1: "x1 < cm_size_x cm" "y1 < cm_size_y cm" using worldToMap_in [OF c [unfolded Some xy]] by auto
    obtain qs where qs: "raytraceLine (MarkCell FREE_SPACE) cm x0 y0 x1 y1 mx mn m =
        foldM (\<lambda>q. MarkCell FREE_SPACE (cell_offset (cm_size_x cm) q)) qs m"
      "\<forall>q \<in> set qs. cell_in (cm_size_x cm) (cm_size_y cm) q"
      using raytraceLine_cells [OF in0 in1 big refl, of "MarkCell FREE_SPACE" mx mn m] by auto
    obtain m' where m': "foldM (\<lambda>q. MarkCell FREE_SPACE (cell_offset (cm_size_x cm) q)) qs m = Some m'"
      "length m' = length m" "\<forall>k < length m. m' ! k = m ! k \<or> m' ! k = FREE_SPACE"
      using grid_mark_cells [OF m(2,3) qs(2)] by auto
    obtain b' where b': "updateRaytraceBounds (ob_origin_x obs) (ob_origin_y obs) wx wy (ob_raytrace_max_range obs)
        (ob_raytrace_min_range obs) b = Some b'" "bounds_le b b'"
      using updateRaytraceBounds_grows assms(2) unfolding obs_ok_def by blast
    have "clear_ray obs x0 y0 pt (cm, b) = Some (cm\<lparr>cm_costmap := Some m'\<rparr>, b')"
      using c clip cells m(1) qs(1) m'(1) b'(1) Some xy
      by (simp add: clear_ray_def pt map_end_x_def map_end_y_def)
    moreover have "only_writes FREE_SPACE cm (cm\<lparr>cm_costmap := Some m'\<rparr>)"
      using m(1) m'(2,3) by (auto simp: only_writes_def)
    ultimately show ?thesis using b'(2) by blast
  qed
qed

lemma clear_rays_write:
  assumes "good_map cm" "obs_ok cm obs" "worldToMap cm (ob_origin_x obs) (ob_origin_y obs) = Some (Some (x0, y0))"
  shows "\<exists>cm' b'. foldM (clear_ray obs x0 y0) pts (cm, b) = Some (cm', b') \<and> only_writes FREE_SPACE cm cm' \<and>
    bounds_le b b'"
  using assms
proof (induction pts arbitrary: cm b)
  case Nil
  then show ?case using only_writes_refl [of cm] by (simp add: good_map_def map_small_def bounds_le_def)
next
  case (Cons pt pts)
  obtain cm1 b1 where 1: "clear_ray obs x0 y0 pt (cm, b) = Some (cm1, b1)" "only_writes FREE_SPACE cm cm1"
    "bounds_le b b1" using clear_ray_writes [OF Cons.prems] by blast
  note fr = only_writes_map [OF 1(2)]
  have "obs_ok cm1 obs" using Cons.prems(2) by (simp add: obs_ok_def fr)
  then obtain cm2 b2 where 2: "foldM (clear_ray obs x0 y0) pts (cm1, b1) = Some (cm2, b2)"
    "only_writes FREE_SPACE cm1 cm2" "bounds_le b1 b2"
    using Cons.IH [of cm1 b1] Cons.prems(1,3) fr by auto
  then show ?case
    using 1 only_writes_trans [OF 1(2) 2(2)] bounds_le_trans [OF 1(3) 2(3)] by simp
qed

lemma raytraceFreespace_writes:
  assumes "good_map cm" "obs_ok cm obs"
  shows "\<exists>cm' b'. raytraceFreespace obs (cm, b) = Some (cm', b') \<and> only_writes FREE_SPACE cm cm' \<and> bounds_le b b'"
proof -
  obtain c where c: "worldToMap cm (ob_origin_x obs) (ob_origin_y obs) = Some c"
    using assms(2) by (auto simp: obs_ok_def)
  show ?thesis
  proof (cases c)
    case None
    then show ?thesis using c assms(1) only_writes_refl [of cm]
      by (simp add: raytraceFreespace_def good_map_def map_small_def bounds_le_def)
  next
    case (Some xy)
    obtain x0 y0 where xy: "xy = (x0, y0)" by (cases xy)
    show ?thesis
      using clear_rays_write [OF assms c [unfolded Some xy], of "ob_cloud obs" "touch (ob_origin_x obs) (ob_origin_y obs) b"]
        bounds_le_trans [OF bounds_le_touch] c Some xy
      by (simp add: raytraceFreespace_def) blast
  qed
qed

section \<open>\<open>updateCosts\<close> keeps its contract\<close>

lemma set_cells_writes:
  assumes "cm_wf cm" "\<forall>c \<in> set cells. in_map cm c"
  shows "\<exists>cm'. set_cells cm v cells = Some cm' \<and> only_writes v cm cm'"
  using assms
proof (induction cells arbitrary: cm)
  case Nil
  then show ?case by (simp add: set_cells_def only_writes_refl)
next
  case (Cons c cells)
  obtain m where m: "cm_costmap cm = Some m" "length m = unat (cm_size_x cm) * unat (cm_size_y cm)"
    using Cons.prems(1) by (rule cm_wf_obtain)
  have i: "unat (getIndex cm (loc_x c) (loc_y c)) < length m"
    using getIndex_nat(2) [OF Cons.prems(1)] Cons.prems(2) m(2) by (simp add: in_map_def)
  let ?cm = "cm\<lparr>cm_costmap := Some (m[unat (getIndex cm (loc_x c) (loc_y c)) := v])\<rparr>"
  have 1: "setCost cm (loc_x c) (loc_y c) v = Some ?cm" using m(1) i by (simp add: setCost_def store_def)
  have w: "only_writes v cm ?cm" unfolding only_writes_def
    by (rule exI [of _ m], rule exI [of _ "m[unat (getIndex cm (loc_x c) (loc_y c)) := v]"])
      (simp add: m(1) nth_list_update [OF i])
  obtain cm' where "set_cells ?cm v cells = Some cm'" "only_writes v ?cm cm'"
    using Cons.IH [of ?cm] Cons.prems only_writes_map(6) [OF w] by (auto simp: in_map_def)
  then show ?case using 1 only_writes_trans [OF w] by (auto simp: set_cells_def)
qed

lemma polygon_writes:
  assumes "map_small cm" "map_polygon cm polygon \<noteq> None"
  shows "\<exists>ok cm'. setConvexPolygonCost cm polygon v = Some (ok, cm') \<and> only_writes v cm cm'"
proof -
  have wf: "cm_wf cm" using assms(1) by (simp add: map_small_def)
  obtain mp where mp: "map_polygon cm polygon = Some mp" using assms(2) by blast
  show ?thesis
  proof (cases mp)
    case None
    then show ?thesis using mp only_writes_refl [OF wf] by (auto simp: setConvexPolygonCost_def)
  next
    case (Some locs)
    obtain r where r: "convexFillCells cm locs [] = Some r" "\<forall>c \<in> set r. in_map cm c"
      using convexFillCells_cells [OF assms(1)] map_polygon_in_map mp Some by blast
    then show ?thesis using set_cells_writes [OF wf r(2), of v] mp Some by (auto simp: setConvexPolygonCost_def)
  qed
qed

lemma only_writes_polygon:
  assumes "only_writes v cm cm'"
  shows "map_polygon cm' polygon = map_polygon cm polygon"
  by (induction polygon) (auto simp: only_writes_map(8) [OF assms])

definition obstacle_fits :: "costmap2d \<Rightarrow> obstacle_layer \<Rightarrow> bool" where
  "obstacle_fits cm l \<longleftrightarrow> map_small (ol_map l) \<and> same_dims cm (ol_map l) \<and>
     map_polygon (ol_map l) (ol_transformed_footprint l) \<noteq> None"

text \<open>A cell of the master after \<open>updateCosts\<close>, from the layer's own cost after footprint clearing.\<close>

definition obstacle_cost :: "obstacle_layer \<Rightarrow> u32 \<Rightarrow> u32 \<Rightarrow> u8 \<Rightarrow> u8" where
  "obstacle_cost l =
     (if ol_combination_method l = 0 then layer_cost overwrite_cost (ol_layer l)
      else if ol_combination_method l = 1 then layer_cost max_cost (ol_layer l) else (\<lambda>x y c. c))"

lemma set_ol_map_map [simp]: "ol_map (set_ol_map cm l) = cm"
  by (simp add: ol_map_def set_ol_map_def)

lemma obstacle_clear_footprint:
  assumes "obstacle_fits cm l"
  shows "\<exists>l2. (if ol_footprint_clearing l then do {
      (_, cm) \<leftarrow> setConvexPolygonCost (ol_map l) (ol_transformed_footprint l) FREE_SPACE;
      Some (set_ol_map cm l)
    } else Some l) = Some l2 \<and> obstacle_fits cm l2 \<and> cl_enabled (ol_layer l2) = cl_enabled (ol_layer l)"
proof (cases "ol_footprint_clearing l")
  case True
  obtain ok cm' where cm': "setConvexPolygonCost (ol_map l) (ol_transformed_footprint l) FREE_SPACE = Some (ok, cm')"
    "only_writes FREE_SPACE (ol_map l) cm'" using polygon_writes assms unfolding obstacle_fits_def by blast
  have p: "ol_transformed_footprint (set_ol_map cm' l) = ol_transformed_footprint l"
    "cl_enabled (ol_layer (set_ol_map cm' l)) = cl_enabled (ol_layer l)" by (simp_all add: set_ol_map_def)
  have "map_small cm'" using assms only_writes_map(1,2,6) [OF cm'(2)] by (simp add: obstacle_fits_def map_small_def)
  moreover have "same_dims cm cm'" using assms only_writes_map(1,2) [OF cm'(2)] by (simp add: obstacle_fits_def same_dims_def)
  moreover have "map_polygon cm' (ol_transformed_footprint l) \<noteq> None"
    using assms only_writes_polygon [OF cm'(2)] by (simp add: obstacle_fits_def)
  ultimately have "obstacle_fits cm (set_ol_map cm' l)" unfolding obstacle_fits_def p by simp
  then show ?thesis using True cm'(1) p by simp
qed (use assms in simp)

lemma obstacle_costs_step:
  assumes "cm_wf cm" "window_ok cm x0 y0 xn yn" "obstacle_fits cm l"
  shows "\<exists>l' cm'. obstacle_updateCosts l cm x0 y0 xn yn = Some (l', cm') \<and> obstacle_fits cm l' \<and>
    applies x0 y0 xn yn (obstacle_cost l') cm cm'"
proof (cases "cl_enabled (ol_layer l)")
  case False
  then have "obstacle_cost l = (\<lambda>x y c. c)" by (auto simp: obstacle_cost_def layer_cost_enabled)
  then show ?thesis using False assms applies_id [OF assms(1)] by (simp add: obstacle_updateCosts_def)
next
  case True
  define l1 where "l1 = (if \<not> cl_current (ol_layer l) \<and> ol_was_reset l
    then l\<lparr>ol_was_reset := False, ol_layer := (ol_layer l)\<lparr>cl_current := True\<rparr>\<rparr> else l)"
  have f1: "obstacle_fits cm l1" using assms(3) by (simp add: l1_def obstacle_fits_def ol_map_def)
  obtain l2 where l2: "(if ol_footprint_clearing l1 then do {
      (_, cm) \<leftarrow> setConvexPolygonCost (ol_map l1) (ol_transformed_footprint l1) FREE_SPACE;
      Some (set_ol_map cm l1)
    } else Some l1) = Some l2" "obstacle_fits cm l2" using obstacle_clear_footprint [OF f1] by blast
  have fit: "layer_fits cm (ol_layer l2)"
    using l2(2) by (simp add: obstacle_fits_def layer_fits_def map_small_def ol_map_def)
  have run: "obstacle_updateCosts l cm x0 y0 xn yn =
      (if ol_combination_method l2 = 0 then map_option (Pair l2) (updateWithOverwrite (ol_layer l2) cm x0 y0 xn yn)
       else if ol_combination_method l2 = 1 then map_option (Pair l2) (updateWithMax (ol_layer l2) cm x0 y0 xn yn)
       else Some (l2, cm))"
    using True l2(1) by (simp add: obstacle_updateCosts_def Let_def l1_def [symmetric])
  show ?thesis
    using run l2(2) max_layers.costs_step [OF assms(1,2) fit] overwrite_layers.costs_step [OF assms(1,2) fit]
      applies_id [OF assms(1)] by (auto simp: obstacle_cost_def)
qed

interpretation obstacles: layer_costs obstacle_updateCosts obstacle_fits obstacle_cost
  by unfold_locales (rule obstacle_costs_step, auto simp: obstacle_fits_def same_dims_def)

section \<open>Properties\<close>

text \<open>C34. Clearing by an observation of a sensor whose ranges are representable in cells always returns:
  no ray, however far its end point, leaves the arrays of the map, each cell keeps its cost or becomes
  FREE, and the bounds only grow.\<close>

theorem raytraceFreespace_clears:
  assumes "good_map cm" "obs_ok cm obs"
  shows "\<exists>cm' b'. raytraceFreespace obs (cm, b) = Some (cm', b') \<and> good_map cm' \<and> same_dims cm cm' \<and>
    bounds_le b b' \<and> (\<forall>x < cm_size_x cm. \<forall>y < cm_size_y cm.
      getCost cm' x y = getCost cm x y \<or> getCost cm' x y = Some FREE_SPACE)"
proof -
  obtain cm' b' where 1: "raytraceFreespace obs (cm, b) = Some (cm', b')" "only_writes FREE_SPACE cm cm'"
    "bounds_le b b'" using raytraceFreespace_writes [OF assms] by blast
  have "cm_wf cm" using assms(1) by (simp add: good_map_def map_small_def)
  then show ?thesis
    using 1 assms(1) only_writes_map(7,12) [OF 1(2)] only_writes_cost [OF 1(2)] by blast
qed

text \<open>C6. An update of a layered costmap of obstacle layers and filters with any bounds: the window is
  inside the map, each of its cells becomes the default cost passed through the plugins and then the
  filters in order, by the window of the primary costmap when there are filters, and no other cell of
  the combined costmap changes; an empty window changes nothing.\<close>

theorem updateMap_cells:
  assumes "lo_updateCosts ops = obstacle_updateCosts" "roll_origin garbage lc rx ry = Some lc1"
    and "isOutofBounds lc1 rx ry \<noteq> None" "lc_wf lc1" "lc_plugins lc1 \<noteq> [] \<or> lc_filters lc1 \<noteq> []"
    and "bounds_all ops rx ry yaw (lc_plugins lc1)
      \<lparr>b_min_x = DBL_MAX, b_min_y = DBL_MAX, b_max_x = - DBL_MAX, b_max_y = - DBL_MAX\<rparr> = Some (ps, b1)"
    and "bounds_all ops rx ry yaw (lc_filters lc1) b1 = Some (fs, b)"
    and "\<forall>l \<in> set ps \<union> set fs. obstacle_fits (lc_combined lc1) l"
  shows "\<exists>x0 y0 xe ye lc'. updateMap ops garbage lc rx ry yaw = Some (Inr lc') \<and>
    worldToMapEnforceBounds (lc_combined lc1) (b_min_x b) (b_min_y b) = Some (x0, y0) \<and>
    worldToMapEnforceBounds (lc_combined lc1) (b_max_x b) (b_max_y b) = Some (xe, ye) \<and>
    (let xn = min (int (unat (cm_size_x (lc_combined lc1)))) (xe + 1);
         yn = min (int (unat (cm_size_y (lc_combined lc1)))) (ye + 1)
     in if xn < x0 \<or> yn < y0 then lc_combined lc' = lc_combined lc1
        else lc_initialized lc' \<and> lc_bx0 lc' = x0 \<and> lc_by0 lc' = y0 \<and> lc_bxn lc' = xn \<and> lc_byn lc' = yn \<and>
          window_ok (lc_combined lc1) x0 y0 xn yn \<and>
          (\<forall>l \<in> set (lc_plugins lc') \<union> set (lc_filters lc'). obstacle_fits (lc_combined lc1) l) \<and>
          applies x0 y0 xn yn
            (\<lambda>x y c. fold (\<lambda>l. obstacle_cost l x y) (lc_plugins lc' @ lc_filters lc') (cm_default (lc_combined lc1)))
            (lc_combined lc1) (lc_combined lc'))"
  by (rule obstacles.updateMap_cells_step [OF assms, unfolded obstacles.layers_cost_def])

definition sample_observation :: observation where
  "sample_observation = \<lparr>ob_origin_x = 5 / 4, ob_origin_y = - 3 / 4, ob_cloud = [(9, - 3 / 4, 0), (2, 40, 1)],
     ob_obstacle_max_range = 3, ob_obstacle_min_range = 0, ob_raytrace_max_range = 3, ob_raytrace_min_range = 0\<rparr>"

theorem raytraceFreespace_clears_witness:
  "\<exists>cm' b'. raytraceFreespace sample_observation (sample_map 3 2 [1, 2, 3, 4, 5, 6], \<lparr>b_min_x = 0, b_min_y = 0, b_max_x = 0, b_max_y = 0\<rparr>) = Some (cm', b') \<and>
    b_min_x b' \<le> 0 \<and> (getCost cm' 2 1 = Some 6 \<or> getCost cm' 2 1 = Some 0)"
proof -
  let ?m = "sample_map 3 2 [1, 2, 3, 4, 5, 6]"
  have g: "good_map ?m" using sample_map_small by (simp add: good_map_def)
  have o: "obs_ok ?m sample_observation"
    by (simp add: obs_ok_def sample_observation_def cellDistance_def worldToMap_def cell_quot_def
        cast_uint_def trunc_def word_less_nat_alt)
  have lt: "(2::u32) < 3" "(1::u32) < 2" by (simp_all add: word_less_nat_alt)
  obtain cm' b' where 1: "raytraceFreespace sample_observation (?m, \<lparr>b_min_x = 0, b_min_y = 0, b_max_x = 0, b_max_y = 0\<rparr>) = Some (cm', b')"
    "bounds_le \<lparr>b_min_x = 0, b_min_y = 0, b_max_x = 0, b_max_y = 0\<rparr> b'" "\<forall>x < cm_size_x ?m. \<forall>y < cm_size_y ?m.
      getCost cm' x y = getCost ?m x y \<or> getCost cm' x y = Some FREE_SPACE"
    using raytraceFreespace_clears [OF g o] by blast
  have "getCost cm' 2 1 = getCost ?m 2 1 \<or> getCost cm' 2 1 = Some FREE_SPACE"
    using 1(3) lt by simp
  then show ?thesis using 1(1,2) by (auto simp: getCost_def getIndex_def load_def FREE_SPACE_def bounds_le_def)
qed

definition sample_obstacles :: obstacle_layer where
  "sample_obstacles = \<lparr>ol_layer = addExtraBounds (5 / 4) (- 3 / 4) (7 / 4) (- 3 / 4) (sample_layer [255, 9, 9, 9, 9, 9]),
     ol_rolling = False, ol_min_height = 0, ol_max_height = 2, ol_footprint_clearing = False, ol_footprint = [],
     ol_transformed_footprint = [], ol_was_reset = False, ol_combination_method = 1, ol_static_marking = [],
     ol_static_clearing = []\<rparr>"

definition sample_ops :: "obstacle_layer layer_ops" where
  "sample_ops = \<lparr>lo_matchSize = (\<lambda>m l. Some l), lo_updateBounds = obstacle_updateBounds (\<lambda>n. 0) [] [],
     lo_updateCosts = obstacle_updateCosts, lo_onFootprintChanged = id,
     lo_isCurrent = (\<lambda>l. cl_current (ol_layer l)), lo_isEnabled = (\<lambda>l. cl_enabled (ol_layer l))\<rparr>"

definition sample_costmaps :: "obstacle_layer layered_costmap" where
  "sample_costmaps = (layered_costmap_new False False)\<lparr>lc_primary := sample_map 3 2 [1, 2, 3, 4, 5, 6],
     lc_combined := sample_map 3 2 [1, 2, 3, 4, 5, 6], lc_plugins := [sample_obstacles]\<rparr>"

theorem updateMap_cells_witness:
  "\<exists>lc'. updateMap sample_ops (\<lambda>n. 0) sample_costmaps (5 / 4) (- 3 / 4) 0 = Some (Inr lc') \<and>
    lc_bx0 lc' = 0 \<and> lc_bxn lc' = 2 \<and> lc_by0 lc' = 0 \<and> lc_byn lc' = 1 \<and> getCost (lc_combined lc') 2 1 = Some 6"
proof -
  let ?m = "sample_map 3 2 [1, 2, 3, 4, 5, 6]"
  let ?l = "sample_obstacles\<lparr>ol_layer := (sample_layer [255, 9, 9, 9, 9, 9])\<lparr>cl_has_extra := False,
    cl_extra_min_x := 10 ^ 6, cl_extra_max_x := - (10 ^ 6), cl_extra_min_y := 10 ^ 6, cl_extra_max_y := - (10 ^ 6)\<rparr>\<rparr>"
  have f: "lc_combined sample_costmaps = ?m" "lc_primary sample_costmaps = ?m" "lc_plugins sample_costmaps = [sample_obstacles]"
    "lc_filters sample_costmaps = []" "lc_rolling sample_costmaps = False"
    by (simp_all add: sample_costmaps_def layered_costmap_new_def Let_def)
  have wfm: "cm_wf ?m" by (rule sample_wf) simp_all
  have ops: "lo_updateCosts sample_ops = obstacle_updateCosts" by (simp add: sample_ops_def)
  have roll: "roll_origin (\<lambda>n. 0) sample_costmaps (5 / 4) (- 3 / 4) = Some sample_costmaps" by (simp add: roll_origin_def f)
  have out: "isOutofBounds sample_costmaps (5 / 4) (- 3 / 4) \<noteq> None"
    by (simp add: isOutofBounds_def f worldToMap_def cell_quot_def cast_uint_def trunc_def word_less_nat_alt)
  have wf: "lc_wf sample_costmaps" using wfm
    by (simp add: lc_wf_def f same_dims_def rows_fit_def word_less_nat_alt)
  have ne: "lc_plugins sample_costmaps \<noteq> [] \<or> lc_filters sample_costmaps \<noteq> []" by (simp add: f)
  have big: "(5 / 4 :: real) \<le> DBL_MAX" "- DBL_MAX \<le> 7 / 4" "- (3 / 4) \<le> DBL_MAX" "- DBL_MAX \<le> - (3 / 4)"
    by (simp_all add: DBL_MAX_def)
  let ?b = "\<lparr>b_min_x = 5 / 4, b_min_y = - 3 / 4, b_max_x = 7 / 4, b_max_y = - 3 / 4\<rparr>"
  have bnd: "bounds_all sample_ops (5 / 4) (- 3 / 4) 0 (lc_plugins sample_costmaps)
      \<lparr>b_min_x = DBL_MAX, b_min_y = DBL_MAX, b_max_x = - DBL_MAX, b_max_y = - DBL_MAX\<rparr> = Some ([?l], ?b)"
    using big by (simp add: f sample_ops_def obstacle_updateBounds_def sample_obstacles_def set_ol_map_def ol_map_def
        sample_layer_def costmap_layer_new_def addExtraBounds_def useExtraBounds_def getMarkingObservations_def
        getClearingObservations_def updateFootprint_def min_def max_def)
  have fbnd: "bounds_all sample_ops (5 / 4) (- 3 / 4) 0 (lc_filters sample_costmaps) ?b = Some ([], ?b)" by (simp add: f)
  have fit: "\<forall>l \<in> set [?l] \<union> set []. obstacle_fits (lc_combined sample_costmaps) l"
    using sample_wf [of "[255, 9, 9, 9, 9, 9]" 3 2]
    by (simp add: f obstacle_fits_def sample_obstacles_def ol_map_def sample_layer_def map_small_def same_dims_def)
  have lo: "worldToMapEnforceBounds ?m (5 / 4) (- (3 / 4)) = Some (0, 0)"
    "worldToMapEnforceBounds ?m (7 / 4) (- (3 / 4)) = Some (1, 0)"
    by (simp_all add: worldToMapEnforceBounds_def enforce_axis_def cell_quot_def cast_int_def trunc_def Let_def)
  have lt: "(2::u32) < 3" "(1::u32) < 2" by (simp_all add: word_less_nat_alt)
  obtain lc' where lc': "updateMap sample_ops (\<lambda>n. 0) sample_costmaps (5 / 4) (- 3 / 4) 0 = Some (Inr lc')"
    "lc_bx0 lc' = 0" "lc_bxn lc' = 2" "lc_by0 lc' = 0" "lc_byn lc' = 1"
    "applies 0 0 2 1 (\<lambda>x y c. fold (\<lambda>l. obstacle_cost l x y) (lc_plugins lc' @ lc_filters lc') (cm_default ?m)) ?m (lc_combined lc')"
    using updateMap_cells [OF ops roll out wf ne bnd fbnd fit] by (auto simp: f lo Let_def)
  have "\<exists>old. getCost ?m 2 1 = Some old \<and> getCost (lc_combined lc') 2 1 = Some (if in_window 0 0 2 1 2 1
      then fold (\<lambda>l. obstacle_cost l 2 1) (lc_plugins lc' @ lc_filters lc') (cm_default ?m) else old)"
    using lc'(6) lt unfolding applies_def sample_simps by blast
  then have "getCost (lc_combined lc') 2 1 = getCost ?m 2 1" by (auto simp: in_window_def)
  then show ?thesis using lc'(1-5) by (auto simp: getCost_def getIndex_def load_def)
qed

end
