(* ===== verification/Costmap_Queue.thy ===== *)
theory Costmap_Queue
  imports Costmap_Windows "HOL-Library.Multiset"
begin

text \<open>
  \<open>costmap_queue\<close>: the priority queue of bins \<open>MapBasedQueue\<close>, the wavefront \<open>CostmapQueue\<close> over the
  cells of a costmap, and its client \<open>MapGridCritic\<close>, which turns it into a map of Manhattan distances.
  \<open>None\<close> is an access outside a vector, or the back of an empty bin.
\<close>

section \<open>\<open>MapBasedQueue\<close>\<close>

text \<open>
  The \<open>std::map\<close> is the list of its bins in the order of their priorities. Its iterators stay valid
  under insertion, so an iterator is the key it points to, and \<open>None\<close> is \<open>end()\<close>.
\<close>

record 'a mbq =
  mq_reset_bins :: bool
  mq_bins :: "(real \<times> 'a list) list"
  mq_count :: u32
  mq_iter :: "real option"
  mq_last :: "real option"

definition mbq_reset :: "'a mbq \<Rightarrow> 'a mbq" where
  "mbq_reset q =
     (let q1 = (if mq_reset_bins q \<or> 0 < mq_count q then q\<lparr>mq_bins := [], mq_count := 0\<rparr> else q)
      in q1\<lparr>mq_iter := None, mq_last := None\<rparr>)"

definition mbq_new :: "bool \<Rightarrow> 'a mbq" where
  "mbq_new reset_bins =
     mbq_reset \<lparr>mq_reset_bins = reset_bins, mq_bins = [], mq_count = 0, mq_iter = None, mq_last = None\<rparr>"

fun bin_insert :: "real \<Rightarrow> (real \<times> 'a list) list \<Rightarrow> (real \<times> 'a list) list" where
  "bin_insert p [] = [(p, [])]"
| "bin_insert p ((k, xs) # bs) =
     (if p < k then (p, []) # (k, xs) # bs else if p = k then (k, xs) # bs else (k, xs) # bin_insert p bs)"

definition bin_update :: "real \<Rightarrow> ('a list \<Rightarrow> 'a list) \<Rightarrow> (real \<times> 'a list) list \<Rightarrow> (real \<times> 'a list) list" where
  "bin_update p f bs = map (\<lambda>(k, xs). (k, if k = p then f xs else xs)) bs"

definition mbq_enqueue :: "real \<Rightarrow> 'a \<Rightarrow> 'a mbq \<Rightarrow> 'a mbq" where
  "mbq_enqueue priority item q =
     (let bins1 = (if mq_last q = Some priority then mq_bins q
                   else if priority \<in> fst ` set (mq_bins q) then mq_bins q
                   else bin_insert priority (mq_bins q));
          q1 = q\<lparr>mq_last := Some priority, mq_bins := bin_update priority (\<lambda>xs. xs @ [item]) bins1,
                 mq_count := mq_count q + 1\<rparr>
      in case mq_iter q of
           None \<Rightarrow> q1\<lparr>mq_iter := Some priority\<rparr>
         | Some k \<Rightarrow> if priority < k then q1\<lparr>mq_iter := Some priority\<rparr> else q1)"

definition mbq_isEmpty :: "'a mbq \<Rightarrow> bool" where
  "mbq_isEmpty q \<longleftrightarrow> mq_count q = 0"

datatype 'a front_item = OutOfRange | Front 'a

definition mbq_front :: "'a mbq \<Rightarrow> 'a front_item option" where
  "mbq_front q =
     (case mq_iter q of
        None \<Rightarrow> Some OutOfRange
      | Some k \<Rightarrow> do { xs \<leftarrow> map_of (mq_bins q) k; if xs = [] then None else Some (Front (last xs)) })"

definition find_not_empty :: "real \<Rightarrow> (real \<times> 'a list) list \<Rightarrow> real option" where
  "find_not_empty k bs = map_option fst (find (\<lambda>(k', xs). k \<le> k' \<and> xs \<noteq> []) bs)"

definition mbq_pop :: "'a mbq \<Rightarrow> 'a mbq" where
  "mbq_pop q =
     (case mq_iter q of
        None \<Rightarrow> q
      | Some k \<Rightarrow>
          let q1 = (case map_of (mq_bins q) k of
                      Some (x # xs) \<Rightarrow> q\<lparr>mq_bins := bin_update k butlast (mq_bins q), mq_count := mq_count q - 1\<rparr>
                    | _ \<Rightarrow> q)
          in q1\<lparr>mq_iter := find_not_empty k (mq_bins q1)\<rparr>)"

section \<open>\<open>CostmapQueue\<close>\<close>

record cell_data =
  cd_distance :: real
  cd_index :: u32
  cd_x :: u32
  cd_y :: u32
  cd_src_x :: u32
  cd_src_y :: u32

definition absolute_difference :: "u32 \<Rightarrow> u32 \<Rightarrow> u32" where
  "absolute_difference x y = (if y < x then x - y else y - x)"

record costmap_queue =
  cq_queue :: "cell_data mbq"
  cq_seen :: "bool list"
  cq_max_distance :: int
  cq_manhattan :: bool
  cq_cached :: "real list list"
  cq_cached_max :: int

definition cached_distance :: "bool \<Rightarrow> nat \<Rightarrow> nat \<Rightarrow> real" where
  "cached_distance manhattan i j =
     (if manhattan then real (i + j) else sqrt (real i * real i + real j * real j))"

text \<open>
  \<open>max_distance_ + 2\<close> is a sum of \<open>int\<close>: an overflow is undefined, and a negative length of the vectors throws; both are
  \<open>None\<close>.
\<close>

definition computeCache :: "costmap2d \<Rightarrow> costmap_queue \<Rightarrow> costmap_queue option" where
  "computeCache cm cq =
     (let md = (if cq_max_distance cq = - 1 then sint (max (cm_size_x cm) (cm_size_y cm))
                else cq_max_distance cq);
          cq1 = cq\<lparr>cq_max_distance := md\<rparr>
      in if md = cq_cached_max cq1 then Some cq1
         else if md + 2 < 0 \<or> 2 ^ 31 \<le> md + 2 then None
         else let n = nat (md + 2) in
           Some (cq1\<lparr>cq_cached := map (\<lambda>i. map (cached_distance (cq_manhattan cq1) i) [0..<n]) [0..<n],
                     cq_cached_max := md\<rparr>))"

definition cq_reset :: "costmap2d \<Rightarrow> costmap_queue \<Rightarrow> costmap_queue option" where
  "cq_reset cm cq = do {
     cq1 \<leftarrow> computeCache cm (cq\<lparr>cq_seen := replicate (unat (cm_size_x cm * cm_size_y cm)) False\<rparr>);
     Some (cq1\<lparr>cq_queue := mbq_reset (cq_queue cq1)\<rparr>)
   }"

definition costmap_queue_new :: "costmap2d \<Rightarrow> bool \<Rightarrow> costmap_queue option" where
  "costmap_queue_new cm manhattan =
     cq_reset cm \<lparr>cq_queue = mbq_new True, cq_seen = [], cq_max_distance = - 1, cq_manhattan = manhattan,
       cq_cached = [], cq_cached_max = - 1\<rparr>"

definition distanceLookup :: "costmap_queue \<Rightarrow> u32 \<Rightarrow> u32 \<Rightarrow> u32 \<Rightarrow> u32 \<Rightarrow> real option" where
  "distanceLookup cq cur_x cur_y src_x src_y = do {
     row \<leftarrow> load (cq_cached cq) (unat (absolute_difference cur_x src_x));
     load row (unat (absolute_difference cur_y src_y))
   }"

text \<open>\<open>valid\<close> is the overridable \<open>validCellToQueue\<close>.\<close>

definition enqueueCell_src ::
    "(cell_data \<Rightarrow> bool) \<Rightarrow> u32 \<Rightarrow> u32 \<Rightarrow> u32 \<Rightarrow> u32 \<Rightarrow> u32 \<Rightarrow> costmap_queue \<Rightarrow> costmap_queue option" where
  "enqueueCell_src valid index cur_x cur_y src_x src_y cq = do {
     seen \<leftarrow> load (cq_seen cq) (unat index);
     if seen then Some cq
     else do {
       distance \<leftarrow> distanceLookup cq cur_x cur_y src_x src_y;
       let data = \<lparr>cd_distance = distance, cd_index = index, cd_x = cur_x, cd_y = cur_y,
                   cd_src_x = src_x, cd_src_y = src_y\<rparr>;
       if valid data then
         Some (cq\<lparr>cq_seen := (cq_seen cq)[unat index := True],
                  cq_queue := mbq_enqueue distance data (cq_queue cq)\<rparr>)
       else Some cq
     }
   }"

definition enqueueCell ::
    "costmap2d \<Rightarrow> (cell_data \<Rightarrow> bool) \<Rightarrow> u32 \<Rightarrow> u32 \<Rightarrow> costmap_queue \<Rightarrow> costmap_queue option" where
  "enqueueCell cm valid x y cq = enqueueCell_src valid (getIndex cm x y) x y x y cq"

text \<open>The result of \<open>getNextCell\<close>: the exception of \<open>front()\<close>, or the cell.\<close>

definition getNextCell ::
    "costmap2d \<Rightarrow> (cell_data \<Rightarrow> bool) \<Rightarrow> costmap_queue \<Rightarrow> (cell_data front_item \<times> costmap_queue) option" where
  "getNextCell cm valid cq = do {
     f \<leftarrow> mbq_front (cq_queue cq);
     case f of
       OutOfRange \<Rightarrow> Some (OutOfRange, cq)
     | Front c \<Rightarrow> do {
         let cq0 = cq\<lparr>cq_queue := mbq_pop (cq_queue cq)\<rparr>;
         let mx = cd_x c; let my = cd_y c; let sx = cd_src_x c; let sy = cd_src_y c;
         let index = cd_index c;
         cq1 \<leftarrow> (if 0 < mx then enqueueCell_src valid (index - 1) (mx - 1) my sx sy cq0 else Some cq0);
         cq2 \<leftarrow> (if 0 < my then enqueueCell_src valid (index - cm_size_x cm) mx (my - 1) sx sy cq1
                 else Some cq1);
         cq3 \<leftarrow> (if mx < cm_size_x cm - 1 then enqueueCell_src valid (index + 1) (mx + 1) my sx sy cq2
                 else Some cq2);
         cq4 \<leftarrow> (if my < cm_size_y cm - 1
                 then enqueueCell_src valid (index + cm_size_x cm) mx (my + 1) sx sy cq3 else Some cq3);
         Some (Front c, cq4)
       }
   }"

section \<open>\<open>MapGridCritic\<close>\<close>

record map_grid =
  mg_queue :: costmap_queue
  mg_values :: "real list"
  mg_obstacle_score :: real
  mg_unreachable_score :: real

definition mapgrid_reset :: "costmap2d \<Rightarrow> map_grid \<Rightarrow> map_grid option" where
  "mapgrid_reset cm mg = do {
     cq \<leftarrow> cq_reset cm (mg_queue mg);
     let n = unat (cm_size_x cm * cm_size_y cm);
     let obstacle = real n;
     let unreachable = obstacle + 1;
     Some (mg\<lparr>mg_queue := cq, mg_values := replicate n unreachable,
              mg_obstacle_score := obstacle, mg_unreachable_score := unreachable\<rparr>)
   }"

definition setAsObstacle :: "u32 \<Rightarrow> map_grid \<Rightarrow> map_grid option" where
  "setAsObstacle index mg = do {
     v \<leftarrow> store (mg_values mg) (unat index) (mg_obstacle_score mg);
     Some (mg\<lparr>mg_values := v\<rparr>)
   }"

definition mapgrid_getScore :: "costmap2d \<Rightarrow> map_grid \<Rightarrow> u32 \<Rightarrow> u32 \<Rightarrow> real option" where
  "mapgrid_getScore cm mg x y = load (mg_values mg) (unat (getIndex cm x y))"

text \<open>\<open>onInit\<close> builds the queue; the scores are set by the reset before every use.\<close>

definition mapgrid_new :: "costmap2d \<Rightarrow> map_grid option" where
  "mapgrid_new cm = map_option (\<lambda>cq. \<lparr>mg_queue = cq, mg_values = [], mg_obstacle_score = 0,
     mg_unreachable_score = 0\<rparr>) (costmap_queue_new cm True)"

text \<open>The loop over the queue; an exception of \<open>getNextCell\<close>, a bad access or no end is \<open>None\<close>.\<close>

partial_function (option) propogateManhattanDistances :: "costmap2d \<Rightarrow> map_grid \<Rightarrow> map_grid option" where
  "propogateManhattanDistances cm mg =
     (if mbq_isEmpty (cq_queue (mg_queue mg)) then Some mg
      else Option.bind (getNextCell cm (\<lambda>_. True) (mg_queue mg)) (\<lambda>(f, cq).
        case f of
          OutOfRange \<Rightarrow> None
        | Front c \<Rightarrow>
            Option.bind (store (mg_values mg) (unat (cd_index c))
                (real (unat (absolute_difference (cd_src_x c) (cd_x c) +
                             absolute_difference (cd_src_y c) (cd_y c)))))
              (\<lambda>v. propogateManhattanDistances cm (mg\<lparr>mg_queue := cq, mg_values := v\<rparr>))))"

section \<open>The priority queue as a multiset\<close>

text \<open>
  What the wavefront needs of its queue: inserting adds one entry, the front is an entry of least
  priority, and popping removes it. A 32-bit counter bounds the number of entries.
\<close>

locale priority_queue =
  fixes enq :: "real \<Rightarrow> 'a \<Rightarrow> 'q \<Rightarrow> 'q"
    and frnt :: "'q \<Rightarrow> 'a front_item option"
    and deq :: "'q \<Rightarrow> 'q"
    and isEmpty :: "'q \<Rightarrow> bool"
    and inv :: "'q \<Rightarrow> bool"
    and entries :: "'q \<Rightarrow> (real \<times> 'a) multiset"
  assumes enq: "inv q \<Longrightarrow> size (entries q) + 1 < 2 ^ 32 \<Longrightarrow>
      inv (enq p x q) \<and> entries (enq p x q) = add_mset (p, x) (entries q)"
    and frnt: "inv q \<Longrightarrow> entries q \<noteq> {#} \<Longrightarrow> \<exists>p x. frnt q = Some (Front x) \<and> (p, x) \<in># entries q \<and>
      (\<forall>e \<in># entries q. p \<le> fst e) \<and> inv (deq q) \<and> entries (deq q) = entries q - {#(p, x)#}"
    and isEmpty: "inv q \<Longrightarrow> isEmpty q \<longleftrightarrow> entries q = {#}"
    and frnt_empty: "inv q \<Longrightarrow> entries q = {#} \<Longrightarrow> frnt q = Some OutOfRange \<and> inv (deq q)"
    and entries_bound: "inv q \<Longrightarrow> size (entries q) < 2 ^ 32"
begin

text \<open>Popping never adds entries, and two pops come in the order of their priorities.\<close>

lemma deq_subset: "inv q \<Longrightarrow> entries q \<noteq> {#} \<Longrightarrow> entries (deq q) \<subset># entries q"
  using frnt [of q] by (metis Diff_eq_empty_iff_mset diff_subset_eq_self mset_subset_eq_insertD
      single_subset_iff subset_mset.less_le subset_mset.order_refl insert_DiffM2 multi_drop_mem_not_eq)

lemma frnt_order:
  assumes "inv q" "entries q \<noteq> {#}" "entries (deq q) \<noteq> {#}"
  shows "\<exists>p x p' x'. frnt q = Some (Front x) \<and> frnt (deq q) = Some (Front x') \<and>
    {#(p, x), (p', x')#} \<subseteq># entries q \<and> p \<le> p'"
proof -
  obtain p x where a: "frnt q = Some (Front x)" "(p, x) \<in># entries q" "\<forall>e \<in># entries q. p \<le> fst e"
    "inv (deq q)" "entries (deq q) = entries q - {#(p, x)#}" using frnt [OF assms(1,2)] by blast
  obtain p' x' where b: "frnt (deq q) = Some (Front x')" "(p', x') \<in># entries (deq q)"
    using frnt [OF a(4) assms(3)] by blast
  have "p \<le> p'" using a(3,5) b(2) in_diffD by fastforce
  moreover have "{#(p, x), (p', x')#} \<subseteq># entries q"
    using a(2,5) b(2) by (metis insert_DiffM mset_subset_eq_add_mset_cancel single_subset_iff)
  ultimately show ?thesis using a(1) b(1) by blast
qed

end

definition bin_entries :: "(real \<times> 'a list) list \<Rightarrow> (real \<times> 'a) list" where
  "bin_entries bs = concat (map (\<lambda>(k, xs). map (Pair k) xs) bs)"

definition mbq_entries :: "'a mbq \<Rightarrow> (real \<times> 'a) multiset" where
  "mbq_entries q = mset (bin_entries (mq_bins q))"

definition first_key :: "(real \<times> 'a list) list \<Rightarrow> real option" where
  "first_key bs = map_option fst (find (\<lambda>(k, xs). xs \<noteq> []) bs)"

definition sorted_bins :: "(real \<times> 'a list) list \<Rightarrow> bool" where
  "sorted_bins bs \<longleftrightarrow> sorted_wrt (<) (map fst bs)"

definition mbq_inv :: "'a mbq \<Rightarrow> bool" where
  "mbq_inv q \<longleftrightarrow> sorted_bins (mq_bins q) \<and> mq_count q = of_nat (length (bin_entries (mq_bins q))) \<and>
     length (bin_entries (mq_bins q)) < 2 ^ 32 \<and> mq_iter q = first_key (mq_bins q) \<and>
     (\<forall>p. mq_last q = Some p \<longrightarrow> p \<in> fst ` set (mq_bins q))"

lemma bin_entries_simps [simp]:
  "bin_entries [] = []" "bin_entries ((k, xs) # bs) = map (Pair k) xs @ bin_entries bs"
  by (simp_all add: bin_entries_def)

lemma first_key_simps [simp]:
  "first_key [] = None" "first_key ((k, xs) # bs) = (if xs \<noteq> [] then Some k else first_key bs)"
  by (simp_all add: first_key_def)

lemma sorted_bins_simps [simp]:
  "sorted_bins []" "sorted_bins ((k, xs) # bs) \<longleftrightarrow> (\<forall>b \<in> set bs. k < fst b) \<and> sorted_bins bs"
  by (auto simp: sorted_bins_def)

lemma bin_insert_set: "p \<notin> fst ` set bs \<Longrightarrow> set (bin_insert p bs) = insert (p, []) (set bs)"
  by (induction p bs rule: bin_insert.induct) auto

lemma bin_insert_facts:
  assumes "p \<notin> fst ` set bs" "sorted_bins bs"
  shows "sorted_bins (bin_insert p bs)" "bin_entries (bin_insert p bs) = bin_entries bs"
    and "first_key (bin_insert p bs) = first_key bs"
  using assms by (induction p bs rule: bin_insert.induct) (auto simp: bin_insert_set)

lemma bin_update_simps [simp]:
  "bin_update p f [] = []" "bin_update p f ((k, xs) # bs) = (k, if k = p then f xs else xs) # bin_update p f bs"
  by (simp_all add: bin_update_def)

lemma bin_update_keys [simp]: "map fst (bin_update p f bs) = map fst bs"
  by (induction bs) auto

lemma sorted_bin_update [simp]: "sorted_bins (bin_update p f bs) = sorted_bins bs"
  by (simp add: sorted_bins_def)

lemma bin_update_fresh: "p \<notin> fst ` set bs \<Longrightarrow> bin_update p f bs = bs"
  by (induction bs) auto

lemma bin_append_entries:
  "sorted_bins bs \<Longrightarrow> p \<in> fst ` set bs \<Longrightarrow>
    mset (bin_entries (bin_update p (\<lambda>xs. xs @ [x]) bs)) = add_mset (p, x) (mset (bin_entries bs))"
proof (induction bs)
  case Nil
  then show ?case by simp
next
  case (Cons b bs)
  obtain k xs where b: "b = (k, xs)" by (cases b)
  show ?case
  proof (cases "k = p")
    case True
    then have "p \<notin> fst ` set bs" using Cons.prems(1) b by auto
    then show ?thesis using b True by (simp add: bin_update_fresh)
  next
    case False
    then show ?thesis using Cons b by auto
  qed
qed

lemma first_key_mem: "first_key bs = Some k \<Longrightarrow> k \<in> fst ` set bs"
  by (induction bs) (auto split: if_splits)

lemma bin_append_first:
  "sorted_bins bs \<Longrightarrow> p \<in> fst ` set bs \<Longrightarrow> first_key (bin_update p (\<lambda>xs. xs @ [x]) bs) =
    (case first_key bs of None \<Rightarrow> Some p | Some k \<Rightarrow> Some (if p < k then p else k))"
proof (induction bs)
  case Nil
  then show ?case by simp
next
  case (Cons b bs)
  obtain k xs where b: "b = (k, xs)" by (cases b)
  have fk: "first_key bs = Some k' \<Longrightarrow> k < k'" for k'
    using Cons.prems(1) b first_key_mem [of bs k'] by auto
  show ?case
  proof (cases "k = p")
    case True
    then show ?thesis using b fk by (auto split: option.splits)
  next
    case False
    then have "k < p" using Cons.prems b by auto
    then show ?thesis using Cons b False by auto
  qed
qed

lemma first_key_Some:
  assumes "sorted_bins bs" "first_key bs = Some k"
  shows "\<exists>xs. map_of bs k = Some xs \<and> xs \<noteq> [] \<and> (\<forall>(k', ys) \<in> set bs. ys \<noteq> [] \<longrightarrow> k \<le> k')"
  using assms
proof (induction bs)
  case Nil
  then show ?case by simp
next
  case (Cons b bs)
  obtain k' ys where b: "b = (k', ys)" by (cases b)
  show ?case
  proof (cases "ys = []")
    case True
    then have fk: "first_key bs = Some k" using Cons.prems(2) b by simp
    then obtain xs where xs: "map_of bs k = Some xs" "xs \<noteq> []" "\<forall>(k', ys) \<in> set bs. ys \<noteq> [] \<longrightarrow> k \<le> k'"
      using Cons b by auto
    have "k' < k" using map_of_SomeD [OF xs(1)] Cons.prems(1) b by force
    then have "k' \<noteq> k" by simp
    then show ?thesis using xs b True by auto
  next
    case False
    then show ?thesis using Cons.prems b by (auto simp: less_imp_le)
  qed
qed

lemma first_key_None: "first_key bs = None \<longleftrightarrow> bin_entries bs = []"
  by (induction bs) (auto split: if_splits)

lemma bin_entries_ge: "\<forall>(k', ys) \<in> set bs. ys \<noteq> [] \<longrightarrow> k \<le> k' \<Longrightarrow> e \<in> set (bin_entries bs) \<Longrightarrow> k \<le> fst e"
  by (auto simp: bin_entries_def)

lemma bin_entries_mem: "map_of bs k = Some xs \<Longrightarrow> x \<in> set xs \<Longrightarrow> (k, x) \<in> set (bin_entries bs)"
  by (auto simp: bin_entries_def dest!: map_of_SomeD)

lemma bin_butlast_entries:
  "sorted_bins bs \<Longrightarrow> map_of bs k = Some xs \<Longrightarrow> xs \<noteq> [] \<Longrightarrow>
    mset (bin_entries bs) = add_mset (k, last xs) (mset (bin_entries (bin_update k butlast bs)))"
proof (induction bs)
  case Nil
  then show ?case by simp
next
  case (Cons b bs)
  obtain k' ys where b: "b = (k', ys)" by (cases b)
  show ?case
  proof (cases "k' = k")
    case True
    then have "k \<notin> fst ` set bs" "ys = xs" using Cons.prems b by auto
    moreover have "mset (map (Pair k) xs) = add_mset (k, last xs) (mset (map (Pair k) (butlast xs)))"
    proof -
      have "mset (map (Pair k) (butlast xs @ [last xs])) = add_mset (k, last xs) (mset (map (Pair k) (butlast xs)))"
        by simp
      then show ?thesis using Cons.prems(3) by simp
    qed
    ultimately show ?thesis using b True by (simp add: bin_update_fresh)
  next
    case False
    then show ?thesis using Cons b by auto
  qed
qed

lemma bin_update_ge:
  assumes "\<forall>(k', ys) \<in> set bs. ys \<noteq> [] \<longrightarrow> k \<le> k'" "map_of bs k = Some xs" "xs \<noteq> []" "sorted_bins bs"
  shows "find_not_empty k (bin_update k f bs) = first_key (bin_update k f bs)"
  using assms
proof (induction bs)
  case Nil
  then show ?case by simp
next
  case (Cons b bs)
  obtain k' ys where b: "b = (k', ys)" by (cases b)
  have rest: "find_not_empty k cs = first_key cs" if "\<forall>(k', ys) \<in> set cs. ys \<noteq> [] \<longrightarrow> k \<le> k'"
    for cs :: "(real \<times> 'a list) list"
    using that by (induction cs) (auto simp: find_not_empty_def first_key_def)
  show ?case
  proof (cases "k' = k")
    case True
    then have "bin_update k f bs = bs" using Cons.prems(4) b by (intro bin_update_fresh) auto
    then show ?thesis using True b rest [of "(k, f ys) # bs"] Cons.prems(1) by simp
  next
    case False
    then show ?thesis using Cons b
      by (auto simp: find_not_empty_def first_key_def)
  qed
qed

lemma mbq_enqueue_inv:
  assumes "mbq_inv q" "size (mbq_entries q) + 1 < 2 ^ 32"
  shows "mbq_inv (mbq_enqueue p x q) \<and> mbq_entries (mbq_enqueue p x q) = add_mset (p, x) (mbq_entries q)"
proof -
  define bins1 where "bins1 = (if mq_last q = Some p then mq_bins q
    else if p \<in> fst ` set (mq_bins q) then mq_bins q else bin_insert p (mq_bins q))"
  have b1: "sorted_bins bins1" "bin_entries bins1 = bin_entries (mq_bins q)"
    "first_key bins1 = first_key (mq_bins q)" "p \<in> fst ` set bins1"
    using assms(1) bin_insert_facts [of p "mq_bins q"] bin_insert_set [of p "mq_bins q"]
    by (auto simp: bins1_def mbq_inv_def)
  define bins2 where "bins2 = bin_update p (\<lambda>xs. xs @ [x]) bins1"
  have b2: "sorted_bins bins2" "mset (bin_entries bins2) = add_mset (p, x) (mbq_entries q)"
    using b1 bin_append_entries [of bins1 p x] by (simp_all add: bins2_def mbq_entries_def)
  have len: "length (bin_entries bins2) = Suc (length (bin_entries (mq_bins q)))"
    using arg_cong [OF b2(2), of size] by (simp add: mbq_entries_def)
  have fk: "first_key bins2 = (case first_key (mq_bins q) of None \<Rightarrow> Some p | Some k \<Rightarrow> Some (if p < k then p else k))"
    using bin_append_first [OF b1(1,4), of x] b1(3) by (simp add: bins2_def)
  have mem: "fst ` set bins2 = fst ` set bins1"
    by (metis bin_update_keys bins2_def list.set_map)
  have eq: "mbq_enqueue p x q = q\<lparr>mq_last := Some p, mq_bins := bins2, mq_count := mq_count q + 1,
      mq_iter := first_key bins2\<rparr>"
    using assms(1) fk
    by (auto simp: mbq_enqueue_def Let_def bins1_def [symmetric] bins2_def [symmetric] mbq_inv_def
        split: option.splits)
  show ?thesis
    using assms b1(4) b2 len mem
    by (simp add: eq mbq_inv_def mbq_entries_def)
qed

lemma mbq_pop_front:
  assumes "mbq_inv q" "mbq_entries q \<noteq> {#}"
  shows "\<exists>p x. mbq_front q = Some (Front x) \<and> (p, x) \<in># mbq_entries q \<and>
      (\<forall>e \<in># mbq_entries q. p \<le> fst e) \<and> mbq_inv (mbq_pop q) \<and>
      mbq_entries (mbq_pop q) = mbq_entries q - {#(p, x)#}"
proof -
  have s: "sorted_bins (mq_bins q)" using assms(1) by (simp add: mbq_inv_def)
  obtain k where k: "first_key (mq_bins q) = Some k"
    using assms(2) first_key_None [of "mq_bins q"] by (cases "first_key (mq_bins q)") (auto simp: mbq_entries_def)
  obtain xs where xs: "map_of (mq_bins q) k = Some xs" "xs \<noteq> []"
    "\<forall>(k', ys) \<in> set (mq_bins q). ys \<noteq> [] \<longrightarrow> k \<le> k'" using first_key_Some [OF s k] by blast
  have it: "mq_iter q = Some k" using assms(1) k by (simp add: mbq_inv_def)
  define bins2 where "bins2 = bin_update k butlast (mq_bins q)"
  have e: "mbq_entries q = add_mset (k, last xs) (mset (bin_entries bins2))"
    using bin_butlast_entries [OF s xs(1,2)] by (simp add: bins2_def mbq_entries_def)
  have len: "length (bin_entries (mq_bins q)) = Suc (length (bin_entries bins2))"
    using arg_cong [OF e, of size] by (simp add: mbq_entries_def)
  have fk: "find_not_empty k bins2 = first_key bins2"
    unfolding bins2_def by (rule bin_update_ge [OF xs(3,1,2) s])
  have mem: "fst ` set bins2 = fst ` set (mq_bins q)"
    by (metis bin_update_keys bins2_def list.set_map)
  have "mbq_front q = Some (Front (last xs))" using it xs by (simp add: mbq_front_def)
  moreover have pop: "mbq_pop q = q\<lparr>mq_bins := bins2, mq_count := mq_count q - 1, mq_iter := first_key bins2\<rparr>"
    using it xs fk by (cases xs) (simp_all add: mbq_pop_def bins2_def [symmetric])
  moreover have "\<forall>e \<in># mbq_entries q. k \<le> fst e"
    using bin_entries_ge [OF xs(3)] by (auto simp: mbq_entries_def)
  moreover have "(k, last xs) \<in># mbq_entries q" by (simp add: e)
  moreover have "mbq_inv (mbq_pop q)"
    using assms(1) s len mem by (simp add: pop mbq_inv_def bins2_def)
  moreover have "mbq_entries (mbq_pop q) = mbq_entries q - {#(k, last xs)#}"
    unfolding e by (simp add: pop mbq_entries_def)
  ultimately show ?thesis by blast
qed

lemma mbq_isEmpty_iff:
  assumes "mbq_inv q"
  shows "mbq_isEmpty q \<longleftrightarrow> mbq_entries q = {#}"
proof -
  have "unat (mq_count q) = length (bin_entries (mq_bins q))"
    using assms by (simp add: mbq_inv_def unat_of_nat)
  then have "mq_count q = 0 \<longleftrightarrow> length (bin_entries (mq_bins q)) = 0" by (metis unat_eq_0)
  then show ?thesis by (simp add: mbq_isEmpty_def mbq_entries_def)
qed

lemma mbq_front_empty:
  assumes "mbq_inv q" "mbq_entries q = {#}"
  shows "mbq_front q = Some OutOfRange \<and> mbq_inv (mbq_pop q)"
proof -
  have "mq_iter q = None"
    using assms first_key_None [of "mq_bins q"] by (simp add: mbq_inv_def mbq_entries_def)
  then show ?thesis using assms(1) by (simp add: mbq_front_def mbq_pop_def)
qed

interpretation bins: priority_queue mbq_enqueue mbq_front mbq_pop mbq_isEmpty mbq_inv mbq_entries
  by unfold_locales
    (simp_all add: mbq_enqueue_inv mbq_pop_front mbq_isEmpty_iff mbq_front_empty,
      simp add: mbq_inv_def mbq_entries_def)

lemma mbq_reset_inv:
  assumes "mbq_inv q"
  shows "mbq_inv (mbq_reset q) \<and> mbq_entries (mbq_reset q) = {#}"
proof -
  have "mbq_isEmpty q \<longleftrightarrow> mbq_entries q = {#}" by (rule mbq_isEmpty_iff [OF assms])
  then show ?thesis
    using assms first_key_None [of "mq_bins q"]
    by (auto simp: mbq_reset_def Let_def mbq_inv_def mbq_entries_def mbq_isEmpty_def word_gt_0)
qed

lemma mbq_new_inv: "mbq_inv (mbq_new b) \<and> mbq_entries (mbq_new b) = {#}"
  by (simp add: mbq_new_def mbq_reset_def Let_def mbq_inv_def mbq_entries_def)

section \<open>Manhattan distance on the grid\<close>

type_synonym cell = "u32 \<times> u32"

definition adiff :: "nat \<Rightarrow> nat \<Rightarrow> nat" where
  "adiff a b = (if b < a then a - b else b - a)"

definition mdist :: "cell \<Rightarrow> cell \<Rightarrow> nat" where
  "mdist c d = adiff (unat (fst c)) (unat (fst d)) + adiff (unat (snd c)) (unat (snd d))"

definition nearest :: "cell set \<Rightarrow> cell \<Rightarrow> nat" where
  "nearest S c = Min (mdist c ` S)"

definition grid_cells :: "costmap2d \<Rightarrow> cell set" where
  "grid_cells cm = {c. fst c < cm_size_x cm \<and> snd c < cm_size_y cm}"

definition neighbour :: "cell \<Rightarrow> cell \<Rightarrow> bool" where
  "neighbour c d \<longleftrightarrow> mdist c d = 1"

lemma unat_absolute_difference: "unat (absolute_difference x y) = adiff (unat x) (unat y)"
  by (auto simp: absolute_difference_def adiff_def word_less_nat_alt unat_sub word_le_nat_alt)

lemma adiff_sym: "adiff a b = adiff b a" by (simp add: adiff_def)

lemma mdist_sym: "mdist c d = mdist d c" by (simp add: mdist_def adiff_sym)

lemma mdist_0: "mdist c d = 0 \<longleftrightarrow> c = d"
  by (cases c; cases d) (auto simp: mdist_def adiff_def word_unat_eq_iff split: if_splits)

lemma mdist_triangle: "mdist c e \<le> mdist c d + mdist d e"
  by (auto simp: mdist_def adiff_def)

lemma nearest_le: "finite S \<Longrightarrow> s \<in> S \<Longrightarrow> nearest S c \<le> mdist c s"
  by (simp add: nearest_def)

lemma nearest_ex: "finite S \<Longrightarrow> S \<noteq> {} \<Longrightarrow> \<exists>s \<in> S. nearest S c = mdist c s"
proof -
  assume "finite S" "S \<noteq> {}"
  then have "Min (mdist c ` S) \<in> mdist c ` S" by (intro Min_in) simp_all
  then show ?thesis by (auto simp: nearest_def)
qed

lemma nearest_source: "finite S \<Longrightarrow> s \<in> S \<Longrightarrow> nearest S s = 0"
  using nearest_le [of S s s] mdist_0 [of s s] by simp

text \<open>Off the sources there is a neighbour one step closer to one of them.\<close>

lemma step_towards:
  assumes "x \<noteq> x'" "x < n" "x' < (n::u32)"
  shows "\<exists>y. y < n \<and> adiff (unat x) (unat y) = 1 \<and> adiff (unat y) (unat x') < adiff (unat x) (unat x')"
proof (cases "x < x'")
  case True
  have "unat (x + 1) = Suc (unat x)"
    using True u32_less [of x'] by (simp add: word_less_nat_alt unat_word_ariths)
  then show ?thesis
    using True assms by (intro exI [of _ "x + 1"]) (auto simp: adiff_def word_less_nat_alt)
next
  case False
  then have "unat x' < unat x" using assms(1) by (simp add: word_less_nat_alt word_unat_eq_iff)
  moreover from this have "unat (x - 1) = unat x - 1" by (intro unat_minus_one) auto
  ultimately show ?thesis
    using assms by (intro exI [of _ "x - 1"]) (auto simp: adiff_def word_less_nat_alt)
qed

lemma nearer_neighbour:
  assumes "finite S" "S \<noteq> {}" "S \<subseteq> grid_cells cm" "c \<in> grid_cells cm" "c \<notin> S"
  shows "\<exists>d \<in> grid_cells cm. neighbour c d \<and> nearest S d < nearest S c"
proof -
  obtain s where s: "s \<in> S" "nearest S c = mdist c s" using nearest_ex [OF assms(1,2)] by blast
  obtain cx cy sx sy where cs: "c = (cx, cy)" "s = (sx, sy)" by (cases c; cases s)
  have b: "cx < cm_size_x cm" "cy < cm_size_y cm" "sx < cm_size_x cm" "sy < cm_size_y cm"
    using assms(3,4) s(1) cs by (auto simp: grid_cells_def)
  have "\<exists>d \<in> grid_cells cm. neighbour c d \<and> mdist d s < mdist c s"
  proof (cases "cx = sx")
    case True
    then have "cy \<noteq> sy" using assms(5) s(1) cs by auto
    then obtain y where "y < cm_size_y cm" "adiff (unat cy) (unat y) = 1"
      "adiff (unat y) (unat sy) < adiff (unat cy) (unat sy)" using step_towards b by blast
    then show ?thesis using cs b True
      by (intro bexI [of _ "(cx, y)"]) (auto simp: grid_cells_def neighbour_def mdist_def adiff_def)
  next
    case False
    then obtain x where "x < cm_size_x cm" "adiff (unat cx) (unat x) = 1"
      "adiff (unat x) (unat sx) < adiff (unat cx) (unat sx)" using step_towards b by blast
    then show ?thesis using cs b
      by (intro bexI [of _ "(x, cy)"]) (auto simp: grid_cells_def neighbour_def mdist_def adiff_def)
  qed
  then show ?thesis using s nearest_le [OF assms(1) s(1)] by (metis le_less_trans)
qed

section \<open>The wavefront\<close>

definition cell_pos :: "cell_data \<Rightarrow> cell" where "cell_pos c = (cd_x c, cd_y c)"
definition cell_src :: "cell_data \<Rightarrow> cell" where "cell_src c = (cd_src_x c, cd_src_y c)"
definition cell_idx :: "costmap2d \<Rightarrow> cell \<Rightarrow> nat" where "cell_idx cm c = unat (getIndex cm (fst c) (snd c))"

definition seen_cell :: "costmap2d \<Rightarrow> costmap_queue \<Rightarrow> cell \<Rightarrow> bool" where
  "seen_cell cm cq c \<longleftrightarrow> cq_seen cq ! cell_idx cm c"

text \<open>An entry of the queue holds its cell's distance to its source, the nearest one.\<close>

definition entry_ok :: "costmap2d \<Rightarrow> cell set \<Rightarrow> real \<times> cell_data \<Rightarrow> bool" where
  "entry_ok cm S e \<longleftrightarrow> cell_pos (snd e) \<in> grid_cells cm \<and> cell_src (snd e) \<in> S \<and>
     cd_index (snd e) = getIndex cm (cd_x (snd e)) (cd_y (snd e)) \<and>
     fst e = real (nearest S (cell_pos (snd e))) \<and>
     mdist (cell_pos (snd e)) (cell_src (snd e)) = nearest S (cell_pos (snd e))"

definition cache_ok :: "costmap2d \<Rightarrow> costmap_queue \<Rightarrow> bool" where
  "cache_ok cm cq \<longleftrightarrow> (\<forall>i j. i < unat (cm_size_x cm) \<longrightarrow> j < unat (cm_size_y cm) \<longrightarrow>
     Option.bind (load (cq_cached cq) i) (\<lambda>row. load row j) = Some (real (i + j)))"

text \<open>The seen cells are those of the queue and the cells \<open>R\<close> already returned, each once.\<close>

definition wave_inv :: "costmap2d \<Rightarrow> cell set \<Rightarrow> cell list \<Rightarrow> costmap_queue \<Rightarrow> bool" where
  "wave_inv cm S R cq \<longleftrightarrow> mbq_inv (cq_queue cq) \<and> cache_ok cm cq \<and>
     length (cq_seen cq) = unat (cm_size_x cm) * unat (cm_size_y cm) \<and>
     (\<forall>e \<in># mbq_entries (cq_queue cq). entry_ok cm S e) \<and> set R \<subseteq> grid_cells cm \<and>
     image_mset (\<lambda>e. cell_idx cm (cell_pos (snd e))) (mbq_entries (cq_queue cq)) +
       mset (map (cell_idx cm) R) = mset_set {i. i < length (cq_seen cq) \<and> cq_seen cq ! i}"

definition closed :: "costmap2d \<Rightarrow> cell set \<Rightarrow> cell list \<Rightarrow> costmap_queue \<Rightarrow> bool" where
  "closed cm S R cq \<longleftrightarrow> (\<forall>s \<in> S. seen_cell cm cq s) \<and>
     (\<forall>r \<in> set R. \<forall>d \<in> grid_cells cm. neighbour r d \<longrightarrow> seen_cell cm cq d)"

lemma cell_idx_less:
  "cm_wf cm \<Longrightarrow> c \<in> grid_cells cm \<Longrightarrow> cell_idx cm c < unat (cm_size_x cm) * unat (cm_size_y cm)"
  using getIndex_nat(2) by (simp add: cell_idx_def grid_cells_def)

lemma cell_idx_inj:
  "cm_wf cm \<Longrightarrow> c \<in> grid_cells cm \<Longrightarrow> d \<in> grid_cells cm \<Longrightarrow> cell_idx cm c = cell_idx cm d \<longleftrightarrow> c = d"
  using getIndex_inj [of cm "fst c" "snd c" "fst d" "snd d"]
  by (auto simp: cell_idx_def grid_cells_def word_unat_eq_iff [symmetric] prod_eq_iff)

lemma wave_size:
  assumes "wave_inv cm S R cq"
  shows "size (mbq_entries (cq_queue cq)) + length R = card {i. i < length (cq_seen cq) \<and> cq_seen cq ! i}"
proof -
  have "size (mset_set {i. i < length (cq_seen cq) \<and> cq_seen cq ! i}) =
      size (image_mset (\<lambda>e. cell_idx cm (cell_pos (snd e))) (mbq_entries (cq_queue cq)) +
       mset (map (cell_idx cm) R))"
    using assms by (simp add: wave_inv_def)
  then show ?thesis by simp
qed

lemma card_seen_le: "card {i. i < length xs \<and> xs ! i} \<le> length xs"
  using card_mono [of "{..<length xs}" "{i. i < length xs \<and> xs ! i}"] by auto

lemma card_seen_less:
  assumes "j < length xs" "\<not> xs ! j"
  shows "card {i. i < length xs \<and> xs ! i} < length xs"
  using psubset_card_mono [of "{..<length xs}" "{i. i < length xs \<and> xs ! i}"] assms by auto

lemma seen_source:
  assumes "wave_inv cm S R cq" "cm_wf cm" "c \<in> grid_cells cm" "seen_cell cm cq c"
  shows "c \<in> set R \<or> (\<exists>e \<in># mbq_entries (cq_queue cq). cell_pos (snd e) = c)"
proof -
  have "cell_idx cm c < length (cq_seen cq)"
    using cell_idx_less [OF assms(2,3)] assms(1) by (simp add: wave_inv_def)
  then have "cell_idx cm c \<in># mset_set {i. i < length (cq_seen cq) \<and> cq_seen cq ! i}"
    using assms(4) by (simp add: seen_cell_def)
  then have "cell_idx cm c \<in># image_mset (\<lambda>e. cell_idx cm (cell_pos (snd e))) (mbq_entries (cq_queue cq)) +
      mset (map (cell_idx cm) R)"
    using assms(1) by (simp add: wave_inv_def)
  then consider r where "r \<in> set R" "cell_idx cm c = cell_idx cm r"
    | e where "e \<in># mbq_entries (cq_queue cq)" "cell_idx cm c = cell_idx cm (cell_pos (snd e))"
    by auto
  then show ?thesis
  proof cases
    case 1
    then show ?thesis using assms(1,3) cell_idx_inj [OF assms(2,3), of r] by (auto simp: wave_inv_def)
  next
    case 2
    then have "cell_pos (snd e) \<in> grid_cells cm" using assms(1) by (auto simp: wave_inv_def entry_ok_def)
    then show ?thesis using 2 cell_idx_inj [OF assms(2,3)] by auto
  qed
qed

text \<open>An unseen cell is farther from the sources than some cell that waits in the queue.\<close>

lemma unseen_farther:
  assumes "wave_inv cm S R cq" "closed cm S R cq" "cm_wf cm" "finite S" "S \<noteq> {}" "S \<subseteq> grid_cells cm"
    and "c \<in> grid_cells cm" "\<not> seen_cell cm cq c"
  shows "\<exists>e \<in># mbq_entries (cq_queue cq). nearest S (cell_pos (snd e)) < nearest S c"
  using assms(7,8)
proof (induction "nearest S c" arbitrary: c rule: less_induct)
  case less
  have "c \<notin> S" using less.prems(2) assms(2) by (auto simp: closed_def)
  then obtain d where d: "d \<in> grid_cells cm" "neighbour c d" "nearest S d < nearest S c"
    using nearer_neighbour [OF assms(4-6) less.prems(1)] by blast
  show ?case
  proof (cases "seen_cell cm cq d")
    case False
    then show ?thesis using less.hyps [OF d(3,1)] d(3) less_trans by blast
  next
    case True
    have "d \<notin> set R"
      using assms(2) less.prems d(2) by (auto simp: closed_def neighbour_def mdist_sym)
    then show ?thesis using seen_source [OF assms(1,3) d(1) True] d(3) by fastforce
  qed
qed

lemma distanceLookup_cells:
  assumes "cache_ok cm cq" "c \<in> grid_cells cm" "d \<in> grid_cells cm"
  shows "distanceLookup cq (fst c) (snd c) (fst d) (snd d) = Some (real (mdist c d))"
proof -
  have "adiff (unat (fst c)) (unat (fst d)) < unat (cm_size_x cm)"
    "adiff (unat (snd c)) (unat (snd d)) < unat (cm_size_y cm)"
    using assms(2,3) by (auto simp: grid_cells_def word_less_nat_alt adiff_def)
  then have "Option.bind (load (cq_cached cq) (adiff (unat (fst c)) (unat (fst d))))
      (\<lambda>row. load row (adiff (unat (snd c)) (unat (snd d)))) = Some (real (mdist c d))"
    using assms(1) unfolding cache_ok_def mdist_def by blast
  then show ?thesis by (simp add: distanceLookup_def unat_absolute_difference)
qed

lemma seen_set_insert:
  assumes "j < length xs" "\<not> xs ! j"
  shows "mset_set {i. i < length (xs[j := True]) \<and> xs[j := True] ! i} =
    add_mset j (mset_set {i. i < length xs \<and> xs ! i})"
proof -
  have "{i. i < length (xs[j := True]) \<and> xs[j := True] ! i} = insert j {i. i < length xs \<and> xs ! i}"
    using assms(1) by (auto simp: nth_list_update)
  then show ?thesis using assms by simp
qed

text \<open>Enqueuing a cell at its nearest distance keeps the invariant and makes the cell seen.\<close>

lemma enqueueCell_wave:
  assumes "wave_inv cm S R cq" "cm_wf cm" "S \<subseteq> grid_cells cm"
    and c: "c \<in> grid_cells cm" "s \<in> S" "index = getIndex cm (fst c) (snd c)"
    and near: "\<not> seen_cell cm cq c \<Longrightarrow> mdist c s = nearest S c"
  shows "\<exists>cq'. enqueueCell_src (\<lambda>_. True) index (fst c) (snd c) (fst s) (snd s) cq = Some cq' \<and>
    wave_inv cm S R cq' \<and> cq_seen cq' = (cq_seen cq)[cell_idx cm c := True] \<and>
    cq_manhattan cq' = cq_manhattan cq"
proof -
  let ?i = "cell_idx cm c"
  have ui: "unat index = ?i" by (simp add: c(3) cell_idx_def)
  have len: "?i < length (cq_seen cq)"
    using cell_idx_less [OF assms(2) c(1)] assms(1) by (simp add: wave_inv_def)
  show ?thesis
  proof (cases "cq_seen cq ! ?i")
    case True
    then have "(cq_seen cq)[?i := True] = cq_seen cq" using list_update_id [of "cq_seen cq" ?i] by simp
    then show ?thesis using True len assms(1) by (simp add: enqueueCell_src_def ui load_def)
  next
    case False
    have sg: "s \<in> grid_cells cm" using c(2) assms(3) by auto
    have near': "mdist c s = nearest S c" using near False by (simp add: seen_cell_def)
    have look: "distanceLookup cq (fst c) (snd c) (fst s) (snd s) = Some (real (nearest S c))"
      using distanceLookup_cells [OF _ c(1) sg] assms(1) near' by (simp add: wave_inv_def)
    define data where "data = \<lparr>cd_distance = real (nearest S c), cd_index = index, cd_x = fst c, cd_y = snd c,
      cd_src_x = fst s, cd_src_y = snd s\<rparr>"
    define cq' where "cq' = cq\<lparr>cq_seen := (cq_seen cq)[?i := True],
      cq_queue := mbq_enqueue (real (nearest S c)) data (cq_queue cq)\<rparr>"
    have run: "enqueueCell_src (\<lambda>_. True) index (fst c) (snd c) (fst s) (snd s) cq = Some cq'"
      using False len look by (simp add: enqueueCell_src_def ui load_def cq'_def data_def)
    have "size (mbq_entries (cq_queue cq)) < length (cq_seen cq)"
      using wave_size [OF assms(1)] card_seen_less [OF len False] by linarith
    moreover have "length (cq_seen cq) < 2 ^ 32"
      using assms(1,2) by (simp add: wave_inv_def cm_wf_def)
    ultimately have sz: "size (mbq_entries (cq_queue cq)) + 1 < 2 ^ 32" by linarith
    have q: "mbq_inv (cq_queue cq')"
      "mbq_entries (cq_queue cq') = add_mset (real (nearest S c), data) (mbq_entries (cq_queue cq))"
      using bins.enq [OF _ sz] assms(1) by (simp_all add: cq'_def wave_inv_def)
    have pos: "cell_pos data = c" "cell_src data = s"
      by (simp_all add: data_def cell_pos_def cell_src_def)
    have "entry_ok cm S (real (nearest S c), data)"
      using c near' pos by (simp add: entry_ok_def) (simp add: data_def)
    then have "wave_inv cm S R cq'"
      using assms(1) q seen_set_insert [OF len False] pos
      by (simp add: wave_inv_def) (simp add: cq'_def cache_ok_def)
    then show ?thesis using run by (simp add: cq'_def)
  qed
qed

definition seen_mono :: "costmap2d \<Rightarrow> costmap_queue \<Rightarrow> costmap_queue \<Rightarrow> bool" where
  "seen_mono cm cq cq' \<longleftrightarrow> (\<forall>c \<in> grid_cells cm. seen_cell cm cq c \<longrightarrow> seen_cell cm cq' c)"

lemma seen_mono_trans: "seen_mono cm a b \<Longrightarrow> seen_mono cm b c \<Longrightarrow> seen_mono cm a c"
  by (simp add: seen_mono_def)

text \<open>One guarded neighbour step of \<open>getNextCell\<close>.\<close>

lemma neighbour_step:
  assumes "wave_inv cm S R cq" "cm_wf cm" "S \<subseteq> grid_cells cm" "s \<in> S" "seen_mono cm cq0 cq"
    and nb: "b \<Longrightarrow> (cx, cy) \<in> grid_cells cm \<and> index = getIndex cm cx cy \<and> neighbour o1 (cx, cy)"
    and near: "\<And>d. neighbour o1 d \<Longrightarrow> d \<in> grid_cells cm \<Longrightarrow> \<not> seen_cell cm cq0 d \<Longrightarrow>
      mdist d s = nearest S d"
  shows "\<exists>cq'. (if b then enqueueCell_src (\<lambda>_. True) index cx cy (fst s) (snd s) cq
      else Some cq) = Some cq' \<and> wave_inv cm S R cq' \<and> seen_mono cm cq0 cq' \<and> seen_mono cm cq cq' \<and>
    (b \<longrightarrow> seen_cell cm cq' (cx, cy))"
proof (cases b)
  case False
  then show ?thesis using assms(1,5) by (simp add: seen_mono_def)
next
  case True
  define c where "c = (cx, cy)"
  have c: "c \<in> grid_cells cm" "index = getIndex cm (fst c) (snd c)" "neighbour o1 c"
    using nb [OF True] by (simp_all add: c_def)
  have "\<not> seen_cell cm cq c \<Longrightarrow> mdist c s = nearest S c"
    using near [OF c(3,1)] assms(5) c(1) by (auto simp: seen_mono_def)
  then obtain cq' where cq': "enqueueCell_src (\<lambda>_. True) index (fst c) (snd c) (fst s) (snd s) cq = Some cq'"
    "wave_inv cm S R cq'" "cq_seen cq' = (cq_seen cq)[cell_idx cm c := True]"
    using enqueueCell_wave [OF assms(1-3) c(1) assms(4) c(2)] by blast
  have "cell_idx cm c < length (cq_seen cq)"
    using cell_idx_less [OF assms(2) c(1)] assms(1) by (simp add: wave_inv_def)
  then have s: "seen_cell cm cq' d = (seen_cell cm cq d \<or> cell_idx cm d = cell_idx cm c)" for d
    using cq'(3) by (auto simp: seen_cell_def nth_list_update)
  then have "seen_mono cm cq cq'" by (simp add: seen_mono_def)
  then show ?thesis using cq' True s seen_mono_trans [OF assms(5)] by (auto simp: c_def)
qed

lemma neighbour_cases:
  assumes "neighbour (x, y) (x', y')"
  shows "(0 < x \<and> x' = x - 1 \<and> y' = y) \<or> (0 < y \<and> x' = x \<and> y' = y - 1) \<or>
    (x' = x + 1 \<and> x < x' \<and> y' = y) \<or> (x' = x \<and> y' = y + 1 \<and> y < y')"
proof -
  have step: "0 < a \<and> b = a - 1 \<or> b = a + 1 \<and> a < b" if "adiff (unat a) (unat b) = 1" for a b :: u32
  proof (cases "unat b < unat a")
    case True
    then have "unat a = Suc (unat b)" using that by (simp add: adiff_def)
    then have "unat (b + 1) = unat a" using u32_less [of a] by (simp add: unat_word_ariths)
    then have "a = b + 1" by (simp add: word_unat_eq_iff)
    then show ?thesis using True by (auto simp: word_less_nat_alt)
  next
    case False
    then have b: "unat b = Suc (unat a)" using that by (simp add: adiff_def split: if_splits)
    then have "unat (a + 1) = unat b" using u32_less [of b] by (simp add: unat_word_ariths)
    then have "b = a + 1" by (simp add: word_unat_eq_iff)
    then show ?thesis using b by (auto simp: word_less_nat_alt)
  qed
  have "adiff (unat x) (unat x') + adiff (unat y) (unat y') = 1"
    using assms by (simp add: neighbour_def mdist_def)
  then consider "adiff (unat x) (unat x') = 1" "adiff (unat y) (unat y') = 0"
    | "adiff (unat x) (unat x') = 0" "adiff (unat y) (unat y') = 1" by linarith
  then show ?thesis
  proof cases
    case 1
    have "y' = y" using 1(2) by (auto simp: adiff_def word_unat_eq_iff split: if_splits)
    then show ?thesis using step [OF 1(1)] by auto
  next
    case 2
    have "x' = x" using 2(1) by (auto simp: adiff_def word_unat_eq_iff split: if_splits)
    then show ?thesis using step [OF 2(2)] by auto
  qed
qed

lemma unat_pred: "0 < (x::u32) \<Longrightarrow> unat (x - 1) = unat x - 1"
  by (intro unat_minus_one) auto

lemma succ_in:
  assumes "(x::u32) < n - 1" "0 < n"
  shows "unat (x + 1) = Suc (unat x)" "x + 1 < n"
proof -
  have "unat x + 1 < unat n" using assms unat_pred [of n] by (simp add: word_less_nat_alt)
  then show "unat (x + 1) = Suc (unat x)" "x + 1 < n"
    using u32_less [of n] by (simp_all add: word_less_nat_alt unat_word_ariths)
qed

lemma succ_in_iff: "x < x + 1 \<Longrightarrow> x + 1 < n \<Longrightarrow> (x::u32) < n - 1"
proof -
  assume a: "x < x + 1" "x + 1 < n"
  have "unat (x + 1) = Suc (unat x)"
  proof (rule ccontr)
    assume "unat (x + 1) \<noteq> Suc (unat x)"
    then have "2 ^ 32 \<le> Suc (unat x)" by (cases "Suc (unat x) < 2 ^ 32") (simp_all add: unat_word_ariths)
    then have "Suc (unat x) = 2 ^ 32" using u32_less [of x] by linarith
    then have "unat (x + 1) = 0" by (simp add: unat_word_ariths)
    then show False using a(1) by (simp add: word_less_nat_alt)
  qed
  moreover have "unat (x + 1) < unat n" using a(2) by (simp only: word_less_nat_alt)
  then have "0 < unat n" by linarith
  then have "0 < n" by (simp add: word_less_nat_alt)
  ultimately show "x < n - 1" using a unat_pred [of n] by (simp add: word_less_nat_alt)
qed

lemma getNextCell_wave:
  assumes inv: "wave_inv cm S R cq" "closed cm S R cq" and wf: "cm_wf cm"
    and S: "finite S" "S \<noteq> {}" "S \<subseteq> grid_cells cm" and ne: "mbq_entries (cq_queue cq) \<noteq> {#}"
  obtains c cq' where "getNextCell cm (\<lambda>_. True) cq = Some (Front c, cq')"
    "wave_inv cm S (R @ [cell_pos c]) cq'" "closed cm S (R @ [cell_pos c]) cq'"
    "mdist (cell_pos c) (cell_src c) = nearest S (cell_pos c)" "cell_pos c \<in> grid_cells cm"
    "unat (cd_index c) = cell_idx cm (cell_pos c)" "cell_src c \<in> S"
proof -
  obtain p c where f: "mbq_front (cq_queue cq) = Some (Front c)" "(p, c) \<in># mbq_entries (cq_queue cq)"
    "\<forall>e \<in># mbq_entries (cq_queue cq). p \<le> fst e" "mbq_inv (mbq_pop (cq_queue cq))"
    "mbq_entries (mbq_pop (cq_queue cq)) = mbq_entries (cq_queue cq) - {#(p, c)#}"
    using bins.frnt [OF _ ne] inv(1) by (auto simp: wave_inv_def)
  have ok: "entry_ok cm S (p, c)" using inv(1) f(2) by (auto simp: wave_inv_def)
  obtain x y where xy: "cell_pos c = (x, y)" by (cases "cell_pos c")
  define s where "s = cell_src c"
  define R' where "R' = R @ [(x, y)]"
  define cq0 where "cq0 = cq\<lparr>cq_queue := mbq_pop (cq_queue cq)\<rparr>"
  have c: "(x, y) \<in> grid_cells cm" "s \<in> S" "cd_index c = getIndex cm x y" "cd_x c = x" "cd_y c = y"
    "p = real (nearest S (x, y))" "mdist (x, y) s = nearest S (x, y)"
    using ok xy by (auto simp: entry_ok_def s_def cell_pos_def)
  have g: "x < cm_size_x cm" "y < cm_size_y cm" using c(1) by (simp_all add: grid_cells_def)
  have pos: "0 < cm_size_x cm" "0 < cm_size_y cm"
    using g by (simp_all add: word_less_nat_alt)
  have seen0: "seen_cell cm cq0 d = seen_cell cm cq d" for d by (simp add: seen_cell_def cq0_def)
  have "wave_inv cm S R' cq0"
  proof -
    obtain M where M: "mbq_entries (cq_queue cq) = add_mset (p, c) M" using f(2) by (metis insert_DiffM)
    then have "mbq_entries (cq_queue cq0) = M" using f(5) by (simp add: cq0_def)
    moreover have "cq_seen cq0 = cq_seen cq" "cache_ok cm cq0 = cache_ok cm cq"
      "mbq_inv (cq_queue cq0)" using f(4) by (simp_all add: cq0_def cache_ok_def)
    ultimately show ?thesis
      using inv(1) M c(1) xy by (simp add: wave_inv_def R'_def union_mset_add_mset_left)
  qed
  note w0 = this
  have near: "mdist d s = nearest S d"
    if nd: "neighbour (x, y) d" and gd: "d \<in> grid_cells cm" and ud: "\<not> seen_cell cm cq0 d" for d
  proof -
    obtain e where e: "e \<in># mbq_entries (cq_queue cq)" "nearest S (cell_pos (snd e)) < nearest S d"
      using unseen_farther [OF inv wf S gd] ud seen0 by blast
    have "p \<le> fst e" using f(3) e(1) by blast
    moreover have "fst e = real (nearest S (cell_pos (snd e)))"
      using inv(1) e(1) by (auto simp: wave_inv_def entry_ok_def)
    ultimately have "nearest S (x, y) < nearest S d" using e(2) c(6) by simp
    moreover have "mdist d s \<le> mdist d (x, y) + mdist (x, y) s" by (rule mdist_triangle)
    moreover have "mdist d (x, y) = 1" using nd by (simp add: neighbour_def mdist_sym)
    moreover have "nearest S d \<le> mdist d s" using nearest_le [OF S(1) c(2)] .
    ultimately show ?thesis using c(7) by simp
  qed
  have west: "(x - 1, y) \<in> grid_cells cm \<and> getIndex cm x y - 1 = getIndex cm (x - 1) y \<and>
      neighbour (x, y) (x - 1, y)" if "0 < x"
    using that g unat_pred [OF that]
    by (auto simp: grid_cells_def getIndex_def word_less_nat_alt neighbour_def mdist_def adiff_def)
  have south: "(x, y - 1) \<in> grid_cells cm \<and> getIndex cm x y - cm_size_x cm = getIndex cm x (y - 1) \<and>
      neighbour (x, y) (x, y - 1)" if "0 < y"
    using that g unat_pred [OF that]
    by (auto simp: grid_cells_def getIndex_def word_less_nat_alt neighbour_def mdist_def adiff_def
        algebra_simps)
  have east: "(x + 1, y) \<in> grid_cells cm \<and> getIndex cm x y + 1 = getIndex cm (x + 1) y \<and>
      neighbour (x, y) (x + 1, y)" if "x < cm_size_x cm - 1"
    using g succ_in [OF that pos(1)]
    by (auto simp: grid_cells_def getIndex_def neighbour_def mdist_def adiff_def)
  have north: "(x, y + 1) \<in> grid_cells cm \<and> getIndex cm x y + cm_size_x cm = getIndex cm x (y + 1) \<and>
      neighbour (x, y) (x, y + 1)" if "y < cm_size_y cm - 1"
    using g succ_in [OF that pos(2)]
    by (auto simp: grid_cells_def getIndex_def neighbour_def mdist_def adiff_def algebra_simps)
  have refl: "seen_mono cm cq0 cq0" by (simp add: seen_mono_def)
  obtain cq1 where 1: "(if 0 < x then enqueueCell_src (\<lambda>_. True) (getIndex cm x y - 1) (x - 1) y
      (fst s) (snd s) cq0 else Some cq0) = Some cq1" "wave_inv cm S R' cq1" "seen_mono cm cq0 cq1"
    "0 < x \<Longrightarrow> seen_cell cm cq1 (x - 1, y)"
    using neighbour_step [OF w0 wf S(3) c(2) refl west near] by blast
  obtain cq2 where 2: "(if 0 < y then enqueueCell_src (\<lambda>_. True) (getIndex cm x y - cm_size_x cm) x (y - 1)
      (fst s) (snd s) cq1 else Some cq1) = Some cq2" "wave_inv cm S R' cq2" "seen_mono cm cq0 cq2"
    "seen_mono cm cq1 cq2" "0 < y \<Longrightarrow> seen_cell cm cq2 (x, y - 1)"
    using neighbour_step [OF 1(2) wf S(3) c(2) 1(3) south near] by blast
  obtain cq3 where 3: "(if x < cm_size_x cm - 1 then enqueueCell_src (\<lambda>_. True) (getIndex cm x y + 1) (x + 1) y
      (fst s) (snd s) cq2 else Some cq2) = Some cq3" "wave_inv cm S R' cq3" "seen_mono cm cq0 cq3"
    "seen_mono cm cq2 cq3" "x < cm_size_x cm - 1 \<Longrightarrow> seen_cell cm cq3 (x + 1, y)"
    using neighbour_step [OF 2(2) wf S(3) c(2) 2(3) east near] by blast
  obtain cq4 where 4: "(if y < cm_size_y cm - 1 then enqueueCell_src (\<lambda>_. True)
      (getIndex cm x y + cm_size_x cm) x (y + 1) (fst s) (snd s) cq3 else Some cq3) = Some cq4"
    "wave_inv cm S R' cq4" "seen_mono cm cq0 cq4" "seen_mono cm cq3 cq4"
    "y < cm_size_y cm - 1 \<Longrightarrow> seen_cell cm cq4 (x, y + 1)"
    using neighbour_step [OF 3(2) wf S(3) c(2) 3(3) north near] by blast
  have "getNextCell cm (\<lambda>_. True) cq = Some (Front c, cq4)"
  proof -
    have src: "cd_src_x c = fst s" "cd_src_y c = snd s" by (simp_all add: s_def cell_src_def)
    show ?thesis
      by (simp only: getNextCell_def f(1) bind.simps front_item.case Let_def cq0_def [symmetric] src
          c(3-5) 1(1) 2(1) 3(1) 4(1))
  qed
  moreover have "closed cm S R' cq4"
  proof -
    have nb: "seen_cell cm cq4 d" if d: "d \<in> grid_cells cm" "neighbour (x, y) d" for d
    proof -
      obtain x' y' where d': "d = (x', y')" by (cases d)
      then have lt: "x' < cm_size_x cm" "y' < cm_size_y cm" using d(1) by (simp_all add: grid_cells_def)
      from neighbour_cases [OF d(2) [unfolded d']] show ?thesis
        using 1(4) 2(4,5) 3(4,5) 4(4,5) d(1) lt succ_in_iff [of x "cm_size_x cm"] succ_in_iff [of y "cm_size_y cm"]
        unfolding d' seen_mono_def by (elim disjE) auto
    qed
    have mono: "seen_cell cm cq d \<Longrightarrow> d \<in> grid_cells cm \<Longrightarrow> seen_cell cm cq4 d" for d
      using 4(3) seen0 by (simp add: seen_mono_def)
    show ?thesis
      using inv(2) nb mono S(3) by (auto simp: closed_def R'_def)
  qed
  moreover have "unat (cd_index c) = cell_idx cm (cell_pos c)"
    using c(3) xy by (simp add: cell_idx_def)
  ultimately show thesis using that [of c cq4] 4(2) c(1,2,7) xy by (simp add: R'_def s_def)
qed

section \<open>The whole map\<close>

lemma wave_length:
  assumes "wave_inv cm S R cq"
  shows "length R \<le> unat (cm_size_x cm) * unat (cm_size_y cm)"
  using wave_size [OF assms] card_seen_le [of "cq_seen cq"] assms by (simp add: wave_inv_def)

lemma all_returned:
  assumes "wave_inv cm S R cq" "closed cm S R cq" "cm_wf cm" "finite S" "S \<noteq> {}" "S \<subseteq> grid_cells cm"
    and "mbq_entries (cq_queue cq) = {#}"
  shows "set R = grid_cells cm"
proof -
  have "c \<in> set R" if c: "c \<in> grid_cells cm" for c
    using unseen_farther [OF assms(1-6) c] seen_source [OF assms(1,3) c] assms(7) by auto
  then show ?thesis using assms(1) by (auto simp: wave_inv_def)
qed

text \<open>The values of the returned cells.\<close>

definition values_ok :: "costmap2d \<Rightarrow> cell set \<Rightarrow> cell list \<Rightarrow> real list \<Rightarrow> bool" where
  "values_ok cm S R vs \<longleftrightarrow> length vs = unat (cm_size_x cm) * unat (cm_size_y cm) \<and>
     (\<forall>r \<in> set R. vs ! cell_idx cm r = real (nearest S r))"

lemma manhattan_value:
  "cell_pos c \<in> grid_cells cm \<Longrightarrow> cell_src c \<in> grid_cells cm \<Longrightarrow> unat (cm_size_x cm) \<le> 2 ^ 31 \<Longrightarrow>
    unat (cm_size_y cm) \<le> 2 ^ 31 \<Longrightarrow>
    unat (absolute_difference (cd_src_x c) (cd_x c) + absolute_difference (cd_src_y c) (cd_y c)) =
      mdist (cell_pos c) (cell_src c)"
proof -
  assume a: "cell_pos c \<in> grid_cells cm" "cell_src c \<in> grid_cells cm" "unat (cm_size_x cm) \<le> 2 ^ 31"
    "unat (cm_size_y cm) \<le> 2 ^ 31"
  have "adiff (unat (cd_src_x c)) (unat (cd_x c)) < 2 ^ 31" "adiff (unat (cd_src_y c)) (unat (cd_y c)) < 2 ^ 31"
    using a by (auto simp: grid_cells_def cell_pos_def cell_src_def adiff_def word_less_nat_alt)
  then show ?thesis
    by (simp add: unat_word_ariths unat_absolute_difference mdist_def cell_pos_def cell_src_def adiff_sym)
qed

lemma propogate_wave:
  assumes wf: "cm_wf cm" and S: "finite S" "S \<noteq> {}" "S \<subseteq> grid_cells cm"
    and big: "unat (cm_size_x cm) \<le> 2 ^ 31" "unat (cm_size_y cm) \<le> 2 ^ 31"
    and inv: "wave_inv cm S R (mg_queue mg)" "closed cm S R (mg_queue mg)" "values_ok cm S R (mg_values mg)"
  shows "\<exists>mg'. propogateManhattanDistances cm mg = Some mg' \<and> mg_obstacle_score mg' = mg_obstacle_score mg \<and>
    mg_unreachable_score mg' = mg_unreachable_score mg \<and>
    (\<exists>R'. values_ok cm S R' (mg_values mg') \<and> set R' = grid_cells cm)"
  using inv
proof (induction "unat (cm_size_x cm) * unat (cm_size_y cm) - length R" arbitrary: R mg rule: less_induct)
  case less
  let ?q = "cq_queue (mg_queue mg)"
  have qi: "mbq_inv ?q" using less.prems(1) by (simp add: wave_inv_def)
  show ?case
  proof (cases "mbq_entries ?q = {#}")
    case True
    then have "mbq_isEmpty ?q" using bins.isEmpty [OF qi] by simp
    then have "propogateManhattanDistances cm mg = Some mg"
      by (simp add: propogateManhattanDistances.simps)
    then show ?thesis using all_returned [OF less.prems(1,2) wf S True] less.prems(3) by auto
  next
    case False
    then have ne: "\<not> mbq_isEmpty ?q" using bins.isEmpty [OF qi] by simp
    obtain c cq' where c: "getNextCell cm (\<lambda>_. True) (mg_queue mg) = Some (Front c, cq')"
      "wave_inv cm S (R @ [cell_pos c]) cq'" "closed cm S (R @ [cell_pos c]) cq'"
      "mdist (cell_pos c) (cell_src c) = nearest S (cell_pos c)" "cell_pos c \<in> grid_cells cm"
      "unat (cd_index c) = cell_idx cm (cell_pos c)" "cell_src c \<in> S"
      using getNextCell_wave [OF less.prems(1,2) wf S False] by blast
    let ?i = "cell_idx cm (cell_pos c)"
    define vs where "vs = (mg_values mg)[?i := real (nearest S (cell_pos c))]"
    define mg1 where "mg1 = mg\<lparr>mg_queue := cq', mg_values := vs\<rparr>"
    have "cell_src c \<in> grid_cells cm" using c(7) S(3) by auto
    then have val: "unat (absolute_difference (cd_src_x c) (cd_x c) + absolute_difference (cd_src_y c) (cd_y c)) =
        nearest S (cell_pos c)"
      using manhattan_value [OF c(5) _ big] c(4) by simp
    have len: "?i < length (mg_values mg)"
      using cell_idx_less [OF wf c(5)] less.prems(3) by (simp add: values_ok_def)
    have step: "propogateManhattanDistances cm mg = propogateManhattanDistances cm mg1"
      using ne len
      by (subst propogateManhattanDistances.simps) (simp add: c(1,6) val store_def mg1_def vs_def)
    have "vs ! cell_idx cm r = real (nearest S r)" if "r \<in> set (R @ [cell_pos c])" for r
    proof (cases "r = cell_pos c")
      case True
      then show ?thesis using len by (simp add: vs_def)
    next
      case False
      then have "r \<in> set R" using that by simp
      then have "r \<in> grid_cells cm" using less.prems(1) by (auto simp: wave_inv_def)
      then have "cell_idx cm r \<noteq> ?i" using cell_idx_inj [OF wf _ c(5)] False by blast
      then show ?thesis using less.prems(3) \<open>r \<in> set R\<close> by (simp add: vs_def values_ok_def)
    qed
    then have "values_ok cm S (R @ [cell_pos c]) (mg_values mg1)"
      using less.prems(3) by (simp add: values_ok_def mg1_def vs_def)
    moreover have "length (R @ [cell_pos c]) \<le> unat (cm_size_x cm) * unat (cm_size_y cm)"
      by (rule wave_length [OF c(2)])
    then have "unat (cm_size_x cm) * unat (cm_size_y cm) - length (R @ [cell_pos c]) <
        unat (cm_size_x cm) * unat (cm_size_y cm) - length R" by simp
    ultimately obtain mg' where "propogateManhattanDistances cm mg1 = Some mg'"
      "mg_obstacle_score mg' = mg_obstacle_score mg1" "mg_unreachable_score mg' = mg_unreachable_score mg1"
      "\<exists>R'. values_ok cm S R' (mg_values mg') \<and> set R' = grid_cells cm"
      using less.hyps [of "R @ [cell_pos c]" mg1] c(2,3) by (auto simp: mg1_def)
    then show ?thesis using step by (simp add: mg1_def)
  qed
qed

section \<open>Properties\<close>

definition enqueue_sources :: "costmap2d \<Rightarrow> cell list \<Rightarrow> costmap_queue \<Rightarrow> costmap_queue option" where
  "enqueue_sources cm = foldM (\<lambda>(x, y). enqueueCell cm (\<lambda>_. True) x y)"

definition small_dims :: "costmap2d \<Rightarrow> bool" where
  "small_dims cm \<longleftrightarrow> cm_wf cm \<and> unat (cm_size_x cm) < 2 ^ 31 - 2 \<and> unat (cm_size_y cm) < 2 ^ 31 - 2"

lemma cache_table:
  assumes "small_dims cm" "cq_cached cq = map (\<lambda>i. map (cached_distance True i) [0..<n]) [0..<n]"
    and "int n = sint (max (cm_size_x cm) (cm_size_y cm)) + 2"
  shows "cache_ok cm cq"
proof -
  have "unat (max (cm_size_x cm) (cm_size_y cm)) < 2 ^ 31" using assms(1) by (auto simp: small_dims_def max_def)
  then have "sint (max (cm_size_x cm) (cm_size_y cm)) = int (unat (max (cm_size_x cm) (cm_size_y cm)))"
    using sint_delta [of "unat (max (cm_size_x cm) (cm_size_y cm))" 0] by simp
  then have "unat (cm_size_x cm) \<le> n \<and> unat (cm_size_y cm) \<le> n"
    using assms(3) by (auto simp: max_def word_le_nat_alt split: if_splits)
  then show ?thesis by (auto simp: cache_ok_def assms(2) load_def cached_distance_def)
qed

text \<open>
  The critic in use on maps of one size, whatever they hold: built, reset, cells enqueued and taken, scores written.
  Each step of the propagation is a cell taken and a score written.
\<close>

definition same_size :: "costmap2d \<Rightarrow> costmap2d \<Rightarrow> bool" where
  "same_size cm cm' \<longleftrightarrow> cm_size_x cm = cm_size_x cm' \<and> cm_size_y cm = cm_size_y cm'"

inductive critic_state :: "costmap2d \<Rightarrow> map_grid \<Rightarrow> bool" for cm where
  new: "same_size cm cm' \<Longrightarrow> mapgrid_new cm' = Some mg \<Longrightarrow> critic_state cm mg"
| reset: "critic_state cm mg \<Longrightarrow> same_size cm cm' \<Longrightarrow> mapgrid_reset cm' mg = Some mg' \<Longrightarrow> critic_state cm mg'"
| enqueue:
    "critic_state cm mg \<Longrightarrow> enqueueCell cm' valid x y (mg_queue mg) = Some cq \<Longrightarrow> critic_state cm (mg\<lparr>mg_queue := cq\<rparr>)"
| next_cell:
    "critic_state cm mg \<Longrightarrow> getNextCell cm' valid (mg_queue mg) = Some (f, cq) \<Longrightarrow> critic_state cm (mg\<lparr>mg_queue := cq\<rparr>)"
| score: "critic_state cm mg \<Longrightarrow> critic_state cm (mg\<lparr>mg_values := vs\<rparr>)"

definition cache_kept :: "costmap2d \<Rightarrow> costmap_queue \<Rightarrow> bool" where
  "cache_kept cm cq \<longleftrightarrow>
     (let md = sint (max (cm_size_x cm) (cm_size_y cm)); n = nat (md + 2)
      in mq_reset_bins (cq_queue cq) \<and> cq_manhattan cq \<and> cq_max_distance cq = md \<and> cq_cached_max cq = md \<and>
         cq_cached cq = map (\<lambda>i. map (cached_distance True i) [0..<n]) [0..<n])"

lemma mbq_reset_bins_simps [simp]:
  "mq_reset_bins (mbq_reset q) = mq_reset_bins q" "mq_reset_bins (mbq_enqueue p x q) = mq_reset_bins q"
  "mq_reset_bins (mbq_pop q) = mq_reset_bins q" "mq_reset_bins (mbq_new b) = b"
  by (simp_all add: mbq_reset_def mbq_enqueue_def mbq_pop_def mbq_new_def Let_def split: option.split list.split)

lemma enqueueCell_src_cache:
  "enqueueCell_src valid i x y sx sy cq = Some cq' \<Longrightarrow> cache_kept cm cq' = cache_kept cm cq"
  by (auto simp: enqueueCell_src_def cache_kept_def Let_def split: if_splits bind_splits)

lemma getNextCell_cache:
  assumes "getNextCell cm' valid cq = Some (f, cq')"
  shows "cache_kept cm cq' = cache_kept cm cq"
proof (cases "mbq_front (cq_queue cq)")
  case None
  then show ?thesis
    using assms by (simp add: getNextCell_def)
next
  case (Some g)
  have pop: "cache_kept cm (cq\<lparr>cq_queue := mbq_pop (cq_queue cq)\<rparr>) = cache_kept cm cq"
    by (simp add: cache_kept_def)
  show ?thesis
    using assms Some pop
    by (cases g) (auto simp: getNextCell_def Let_def split: if_splits bind_splits dest!: enqueueCell_src_cache [where cm = cm])
qed

lemma small_max:
  assumes "small_dims cm"
  shows "0 \<le> sint (max (cm_size_x cm) (cm_size_y cm))" "sint (max (cm_size_x cm) (cm_size_y cm)) + 2 < 2 ^ 31"
proof -
  have "unat (max (cm_size_x cm) (cm_size_y cm)) < 2 ^ 31 - 2" using assms by (auto simp: small_dims_def max_def)
  then show "0 \<le> sint (max (cm_size_x cm) (cm_size_y cm))" "sint (max (cm_size_x cm) (cm_size_y cm)) + 2 < 2 ^ 31"
    using sint_delta [of "unat (max (cm_size_x cm) (cm_size_y cm))" 0] by simp_all
qed

lemma cq_reset_kept:
  assumes "cache_kept cm cq" "same_size cm cm'"
  shows "cq_reset cm' cq = Some (cq\<lparr>cq_seen := replicate (unat (cm_size_x cm * cm_size_y cm)) False,
    cq_queue := mbq_reset (cq_queue cq)\<rparr>)"
  using assms by (simp add: cq_reset_def computeCache_def cache_kept_def same_size_def Let_def)

lemma costmap_queue_new_kept:
  assumes "small_dims cm" "same_size cm cm'" "costmap_queue_new cm' True = Some cq"
  shows "cache_kept cm cq"
  using assms small_max [OF assms(1)]
  by (auto simp: costmap_queue_new_def cq_reset_def computeCache_def cache_kept_def same_size_def Let_def)

lemma mapgrid_new_total: "small_dims cm \<Longrightarrow> \<exists>mg. mapgrid_new cm = Some mg"
  using small_max [of cm] by (auto simp: mapgrid_new_def costmap_queue_new_def cq_reset_def computeCache_def Let_def)

lemma critic_state_cache:
  assumes "critic_state cm mg" "small_dims cm"
  shows "cache_kept cm (mg_queue mg)"
  using assms
proof (induction rule: critic_state.induct)
  case (new cm' mg)
  then show ?case
    using costmap_queue_new_kept by (auto simp: mapgrid_new_def)
next
  case (reset mg cm' mg')
  then show ?case
    using cq_reset_kept [of cm "mg_queue mg" cm'] by (auto simp: mapgrid_reset_def Let_def cache_kept_def)
next
  case (enqueue mg cm' valid x y cq)
  then show ?case
    using enqueueCell_src_cache by (simp add: enqueueCell_def)
next
  case (next_cell mg cm' valid f cq)
  then show ?case
    using getNextCell_cache by simp
next
  case (score mg vs)
  then show ?case
    by simp
qed

lemma mapgrid_start:
  assumes "small_dims cm" "critic_state cm mg0"
  shows "\<exists>mg. mapgrid_reset cm mg0 = Some mg \<and> wave_inv cm S [] (mg_queue mg) \<and>
    values_ok cm S [] (mg_values mg) \<and> \<not> Bex (grid_cells cm) (seen_cell cm (mg_queue mg))"
proof -
  let ?md = "sint (max (cm_size_x cm) (cm_size_y cm))" and ?sz = "unat (cm_size_x cm * cm_size_y cm)"
  have kept: "cache_kept cm (mg_queue mg0)"
    by (rule critic_state_cache [OF assms(2,1)])
  have sz: "?sz = unat (cm_size_x cm) * unat (cm_size_y cm)"
    using assms(1) by (simp add: small_dims_def cm_wf_def unat_word_ariths)
  define cq where "cq = (mg_queue mg0)\<lparr>cq_seen := replicate ?sz False, cq_queue := mbq_reset (cq_queue (mg_queue mg0))\<rparr>"
  have run: "mapgrid_reset cm mg0 = Some (mg0\<lparr>mg_queue := cq, mg_values := replicate ?sz (real ?sz + 1),
      mg_obstacle_score := real ?sz, mg_unreachable_score := real ?sz + 1\<rparr>)"
    using cq_reset_kept [OF kept] by (simp add: mapgrid_reset_def same_size_def cq_def Let_def)
  have q: "mbq_inv (cq_queue cq) \<and> mbq_entries (cq_queue cq) = {#}"
    using kept by (simp add: cq_def cache_kept_def mbq_reset_def mbq_inv_def mbq_entries_def Let_def)
  have "cache_ok cm cq"
    by (rule cache_table [OF assms(1), of _ "nat (?md + 2)"])
      (use small_max(1) [OF assms(1)] kept in \<open>simp_all add: cq_def cache_kept_def Let_def\<close>)
  have "{i. i < k \<and> replicate k False ! i} = {}" for k by auto
  then have emp: "mset_set {i. i < k \<and> replicate k False ! i} = {#}" for k by (simp only: mset_set.empty)
  have "wave_inv cm S [] cq"
    using q sz \<open>cache_ok cm cq\<close> by (simp add: wave_inv_def) (simp add: cq_def emp)
  moreover have "\<not> seen_cell cm cq c" if "c \<in> grid_cells cm" for c
    using cell_idx_less [OF _ that] assms(1) sz by (simp add: small_dims_def seen_cell_def cq_def)
  ultimately show ?thesis using run sz by (simp add: values_ok_def)
qed

lemma critic_used:
  assumes "small_dims cm"
  shows "\<exists>mg mg'. critic_state cm mg \<and> mapgrid_reset cm mg = Some mg' \<and> critic_state cm mg'"
proof -
  have same: "same_size cm cm"
    by (simp add: same_size_def)
  obtain mg where "mapgrid_new cm = Some mg"
    using mapgrid_new_total [OF assms] by blast
  from critic_state.new [OF same this] have mg: "critic_state cm mg" .
  then obtain mg' where "mapgrid_reset cm mg = Some mg'"
    using mapgrid_start [OF assms] by blast
  then show ?thesis
    using mg critic_state.reset [OF mg same] by blast
qed

lemma enqueue_sources_wave:
  assumes "wave_inv cm S [] cq" "cm_wf cm" "finite S" "S \<subseteq> grid_cells cm" "set ss \<subseteq> S"
  shows "\<exists>cq'. enqueue_sources cm ss cq = Some cq' \<and> wave_inv cm S [] cq' \<and>
    (\<forall>s \<in> set ss. seen_cell cm cq' s) \<and> seen_mono cm cq cq'"
  using assms(1,5)
proof (induction ss arbitrary: cq)
  case Nil
  then show ?case by (simp add: enqueue_sources_def seen_mono_def)
next
  case (Cons s ss)
  obtain x y where s: "s = (x, y)" by (cases s)
  have sS: "(x, y) \<in> S" "(x, y) \<in> grid_cells cm" using Cons.prems(2) assms(4) s by auto
  have near: "mdist (x, y) (x, y) = nearest S (x, y)"
    using nearest_source [OF assms(3) sS(1)] mdist_0 [of "(x, y)" "(x, y)"] by simp
  obtain cq1 where c1: "enqueueCell cm (\<lambda>_. True) x y cq = Some cq1" "wave_inv cm S [] cq1"
    "cq_seen cq1 = (cq_seen cq)[cell_idx cm (x, y) := True]"
    using enqueueCell_wave [OF Cons.prems(1) assms(2,4) sS(2,1), of "getIndex cm x y"] near
    by (auto simp: enqueueCell_def)
  have "cell_idx cm (x, y) < length (cq_seen cq)"
    using cell_idx_less [OF assms(2) sS(2)] Cons.prems(1) by (simp add: wave_inv_def)
  then have sn: "seen_cell cm cq1 (x, y)" "seen_mono cm cq cq1"
    using c1(3) by (auto simp: seen_cell_def seen_mono_def nth_list_update)
  obtain cq2 where c2: "enqueue_sources cm ss cq1 = Some cq2" "wave_inv cm S [] cq2"
    "\<forall>s \<in> set ss. seen_cell cm cq2 s" "seen_mono cm cq1 cq2"
    using Cons.IH [OF c1(2)] Cons.prems(2) by auto
  then show ?case
    using c1(1) sn sS(2) s seen_mono_trans [OF sn(2) c2(4)]
    by (auto simp: enqueue_sources_def seen_mono_def)
qed

text \<open>C16. A reset of the critic, the first or any later one while the costmap keeps its size - whatever the costmap holds
  and whatever was enqueued, taken and scored before - succeeds; with any non-empty list of source cells of the map
  enqueued after it, the wavefront ends, never leaves its vectors, and gives every cell of the map its Manhattan
  distance to the nearest source. The map is less than \<open>2 ^ 31 - 2\<close> cells wide and high. (After the costmap is
  resized the critic keeps the cache of the old size.)\<close>

theorem manhattan_distance_map:
  assumes "small_dims cm" "critic_state cm mg0" "ss \<noteq> []" "set ss \<subseteq> grid_cells cm"
  shows "\<exists>mg cq mg'. mapgrid_reset cm mg0 = Some mg \<and>
    enqueue_sources cm ss (mg_queue mg) = Some cq \<and>
    propogateManhattanDistances cm (mg\<lparr>mg_queue := cq\<rparr>) = Some mg' \<and>
    (\<forall>x < cm_size_x cm. \<forall>y < cm_size_y cm.
      mapgrid_getScore cm mg' x y = Some (real (Min (mdist (x, y) ` set ss))))"
proof -
  have wf: "cm_wf cm" using assms(1) by (simp add: small_dims_def)
  obtain mg where mg: "mapgrid_reset cm mg0 = Some mg"
    "wave_inv cm (set ss) [] (mg_queue mg)" "values_ok cm (set ss) [] (mg_values mg)"
    using mapgrid_start [OF assms(1,2)] by blast
  obtain cq where cq: "enqueue_sources cm ss (mg_queue mg) = Some cq" "wave_inv cm (set ss) [] cq"
    "\<forall>s \<in> set ss. seen_cell cm cq s"
    using enqueue_sources_wave [OF mg(2) wf _ assms(4)] by auto
  have "closed cm (set ss) [] cq" using cq(3) by (simp add: closed_def)
  then obtain mg' R' where mg': "propogateManhattanDistances cm (mg\<lparr>mg_queue := cq\<rparr>) = Some mg'"
    "values_ok cm (set ss) R' (mg_values mg')" "set R' = grid_cells cm"
    using propogate_wave [OF wf _ _ assms(4), of "[]" "mg\<lparr>mg_queue := cq\<rparr>"] cq(2) mg(3) assms(1,3)
    by (auto simp: small_dims_def)
  have "mapgrid_getScore cm mg' x y = Some (real (Min (mdist (x, y) ` set ss)))"
    if xy: "x < cm_size_x cm" "y < cm_size_y cm" for x y
  proof -
    have g: "(x, y) \<in> grid_cells cm" using xy by (simp add: grid_cells_def)
    then have "mg_values mg' ! cell_idx cm (x, y) = real (nearest (set ss) (x, y))"
      using mg'(2,3) by (simp add: values_ok_def)
    then show ?thesis
      using cell_idx_less [OF wf g] mg'(2)
      by (simp add: mapgrid_getScore_def load_def values_ok_def cell_idx_def nearest_def)
  qed
  then show ?thesis using mg(1) cq(1) mg'(1) by blast
qed

theorem manhattan_distance_map_witness:
  "\<exists>mg cq mg'. enqueue_sources (sample_map 3 2 [1, 2, 3, 4, 5, 6]) [(0, 0)] (mg_queue mg) = Some cq \<and>
    propogateManhattanDistances (sample_map 3 2 [1, 2, 3, 4, 5, 6]) (mg\<lparr>mg_queue := cq\<rparr>) = Some mg' \<and>
    mapgrid_getScore (sample_map 3 2 [1, 2, 3, 4, 5, 6]) mg' 2 1 = Some 3"
proof -
  have sd: "small_dims (sample_map 3 2 [1, 2, 3, 4, 5, 6])"
    using sample_wf [of "[1, 2, 3, 4, 5, 6]" 3 2] by (simp add: small_dims_def)
  have g: "set [(0, 0)] \<subseteq> grid_cells (sample_map 3 2 [1, 2, 3, 4, 5, 6])"
    by (simp add: grid_cells_def word_less_nat_alt)
  have lt: "(2::u32) < 3" "(1::u32) < 2" by (simp_all add: word_less_nat_alt)
  have "Min (mdist (2, 1) ` set [(0, 0)]) = 3" by (simp add: mdist_def adiff_def)
  then have m: "real (Min (mdist (2, 1) ` set [(0, 0)])) = 3" by simp
  obtain mg1 where used: "critic_state (sample_map 3 2 [1, 2, 3, 4, 5, 6]) mg1"
    using critic_used [OF sd] by blast
  obtain mg cq mg' where r: "enqueue_sources (sample_map 3 2 [1, 2, 3, 4, 5, 6]) [(0, 0)] (mg_queue mg) = Some cq"
    "propogateManhattanDistances (sample_map 3 2 [1, 2, 3, 4, 5, 6]) (mg\<lparr>mg_queue := cq\<rparr>) = Some mg'"
    "\<forall>x < 3. \<forall>y < 2. mapgrid_getScore (sample_map 3 2 [1, 2, 3, 4, 5, 6]) mg' x y =
      Some (real (Min (mdist (x, y) ` set [(0, 0)])))"
    using manhattan_distance_map [OF sd used _ g, unfolded sample_simps] by blast
  have "mapgrid_getScore (sample_map 3 2 [1, 2, 3, 4, 5, 6]) mg' 2 1 = Some 3"
    using r(3) lt m by metis
  then show ?thesis using r(1,2) by blast
qed

text \<open>C26. \<open>MapBasedQueue\<close> is a priority queue: an insertion adds one entry, the queue is empty exactly
  when it has no entries, and otherwise the front is an entry of least priority and popping removes
  that entry.\<close>

theorem mbq_least_first:
  assumes "mbq_inv q" "size (mbq_entries q) + 1 < 2 ^ 32"
  shows "mbq_inv (mbq_enqueue p x q) \<and>
    mbq_entries (mbq_enqueue p x q) = add_mset (p, x) (mbq_entries q) \<and>
    mbq_isEmpty q = (mbq_entries q = {#}) \<and>
    (\<not> mbq_isEmpty q \<longrightarrow> (\<exists>k y. mbq_front q = Some (Front y) \<and> (k, y) \<in># mbq_entries q \<and>
      (\<forall>e \<in># mbq_entries q. k \<le> fst e) \<and> mbq_inv (mbq_pop q) \<and>
      mbq_entries q = add_mset (k, y) (mbq_entries (mbq_pop q))))"
proof -
  have "\<exists>k y. mbq_front q = Some (Front y) \<and> (k, y) \<in># mbq_entries q \<and>
      (\<forall>e \<in># mbq_entries q. k \<le> fst e) \<and> mbq_inv (mbq_pop q) \<and>
      mbq_entries q = add_mset (k, y) (mbq_entries (mbq_pop q))" if "\<not> mbq_isEmpty q"
  proof -
    have "mbq_entries q \<noteq> {#}" using bins.isEmpty [OF assms(1)] that by simp
    from bins.frnt [OF assms(1) this] obtain k y where k: "mbq_front q = Some (Front y)"
      "(k, y) \<in># mbq_entries q" "\<forall>e \<in># mbq_entries q. k \<le> fst e" "mbq_inv (mbq_pop q)"
      "mbq_entries (mbq_pop q) = mbq_entries q - {#(k, y)#}" by blast
    have "mbq_entries q = add_mset (k, y) (mbq_entries (mbq_pop q))"
      unfolding k(5) using k(2) by (rule insert_DiffM [symmetric])
    then show ?thesis using k(1-4) by blast
  qed
  then show ?thesis using bins.enq [OF assms] bins.isEmpty [OF assms(1)] by blast
qed

theorem mbq_least_first_witness:
  "mbq_entries (mbq_enqueue 2 ''b'' (mbq_enqueue 1 ''a'' (mbq_new True))) = {#(2, ''b''), (1, ''a'')#} \<and>
   mbq_front (mbq_enqueue 2 ''b'' (mbq_enqueue 1 ''a'' (mbq_new True))) = Some (Front ''a'')"
proof -
  have 0: "mbq_inv (mbq_new True :: string mbq)" "mbq_entries (mbq_new True :: string mbq) = {#}"
    using mbq_new_inv by auto
  have 1: "mbq_inv (mbq_enqueue 1 ''a'' (mbq_new True))"
    "mbq_entries (mbq_enqueue 1 ''a'' (mbq_new True)) = {#(1, ''a'')#}"
    using mbq_least_first [OF 0(1), of 1 "''a''"] 0(2) by simp_all
  then have "mbq_entries (mbq_enqueue 2 ''b'' (mbq_enqueue 1 ''a'' (mbq_new True))) = {#(2, ''b''), (1, ''a'')#}"
    using mbq_least_first [OF 1(1), of 2 "''b''"] by simp
  moreover have "mbq_front (mbq_enqueue 2 ''b'' (mbq_enqueue 1 ''a'' (mbq_new True))) = Some (Front ''a'')"
    by (simp add: mbq_new_def mbq_reset_def mbq_enqueue_def mbq_front_def Let_def)
  ultimately show ?thesis by simp
qed

end
