(* ===== verification/Lifecycle_Manager.thy ===== *)
theory Lifecycle_Manager
  imports Nav_Prelude "HOL-Library.Sublist"
begin

text \<open>
  \<open>nav2_lifecycle_manager::LifecycleManager\<close> and the \<open>LifecycleServiceClient\<close> it calls: bring-up,
  pause, reset and shutdown of the managed nodes, the bonds that watch them, and the respawn check.
  The managed nodes, the bond library, the clock and \<open>rclcpp::ok\<close> are a parameter of the model, the
  \<open>world\<close>: each answer is a function of the history of all earlier questions, which the state logs.
  \<open>None\<close> is the dereference of a null client or bond pointer.
\<close>

section \<open>The outside\<close>

datatype transition = CONFIGURE | CLEANUP | ACTIVATE | DEACTIVATE | UNCONFIGURED_SHUTDOWN

datatype primary_state = UNCONFIGURED | INACTIVE | ACTIVE | FINALIZED | OTHER_STATE nat

datatype event =
    ReqChange string transition
  | ReqState string
  | WaitBond string
  | AskBroken string
  | AskOk
  | AskNow

text \<open>What a service call meets: no server, an interrupted wait, a failed request, a response.\<close>

datatype 'a reply = NotAvailable | Interrupted | RequestFailed | Response 'a

record world =
  w_change :: "event list \<Rightarrow> string \<Rightarrow> transition \<Rightarrow> bool reply"
  w_state :: "event list \<Rightarrow> string \<Rightarrow> primary_state reply"
  w_formed :: "event list \<Rightarrow> string \<Rightarrow> bool"
  w_broken :: "event list \<Rightarrow> string \<Rightarrow> bool"
  w_ok :: "event list \<Rightarrow> bool"
  w_now :: "event list \<Rightarrow> int"

text \<open>A call that may throw \<open>std::runtime_error\<close>.\<close>

datatype 'a call = Ret 'a | Throws

section \<open>State\<close>

text \<open>
  \<open>lm_clients\<close> and \<open>lm_bonds\<close> are the names with a non-null pointer in \<open>node_map_\<close> and \<open>bond_map_\<close>;
  times are in nanoseconds, \<open>bond_timeout_\<close> in milliseconds. \<open>lm_hist\<close> is the log of the questions.
\<close>

datatype init_timer = Armed | AutostartArmed | Cancelled

record lifecycle_manager =
  lm_node_names :: "string list"
  lm_clients :: "string set"
  lm_bonds :: "string set"
  lm_bond_timeout :: int
  lm_bond_timer :: bool
  lm_respawn_timer :: bool
  lm_autostart :: bool
  lm_attempt_respawn :: bool
  lm_system_active :: bool
  lm_respawn_start :: int
  lm_respawn_max :: int
  lm_init_timer :: init_timer
  lm_serving :: bool
  lm_hist :: "event list"

definition log_event :: "event \<Rightarrow> lifecycle_manager \<Rightarrow> lifecycle_manager" where
  "log_event e lm = lm\<lparr>lm_hist := lm_hist lm @ [e]\<rparr>"

section \<open>\<open>LifecycleServiceClient\<close>\<close>

text \<open>\<open>change_state\<close> returns whether there is a response; the \<open>success\<close> field in it is not read.\<close>

definition client_change_state ::
    "world \<Rightarrow> lifecycle_manager \<Rightarrow> string \<Rightarrow> transition \<Rightarrow> bool call \<times> lifecycle_manager" where
  "client_change_state W lm n t =
     ((case w_change W (lm_hist lm) n t of
         NotAvailable \<Rightarrow> Throws
       | Interrupted \<Rightarrow> Throws
       | RequestFailed \<Rightarrow> Ret False
       | Response success \<Rightarrow> Ret True),
      log_event (ReqChange n t) lm)"

definition client_get_state ::
    "world \<Rightarrow> lifecycle_manager \<Rightarrow> string \<Rightarrow> primary_state call \<times> lifecycle_manager" where
  "client_get_state W lm n =
     ((case w_state W (lm_hist lm) n of
         NotAvailable \<Rightarrow> Throws
       | Interrupted \<Rightarrow> Throws
       | RequestFailed \<Rightarrow> Throws
       | Response s \<Rightarrow> Ret s),
      log_event (ReqState n) lm)"

section \<open>One node\<close>

fun transition_state :: "transition \<Rightarrow> primary_state" where
  "transition_state CONFIGURE = INACTIVE"
| "transition_state CLEANUP = UNCONFIGURED"
| "transition_state ACTIVATE = ACTIVE"
| "transition_state DEACTIVATE = INACTIVE"
| "transition_state UNCONFIGURED_SHUTDOWN = FINALIZED"

definition createBondConnection :: "world \<Rightarrow> lifecycle_manager \<Rightarrow> string \<Rightarrow> bool \<times> lifecycle_manager" where
  "createBondConnection W lm n =
     (if n \<notin> lm_bonds lm \<and> 0 < lm_bond_timeout lm then
        let lm' = lm\<lparr>lm_bonds := insert n (lm_bonds lm)\<rparr>
        in (w_formed W (lm_hist lm) n, log_event (WaitBond n) lm')
      else (True, lm))"

definition changeStateForNode ::
    "world \<Rightarrow> lifecycle_manager \<Rightarrow> string \<Rightarrow> transition \<Rightarrow> (bool call \<times> lifecycle_manager) option" where
  "changeStateForNode W lm n t =
     (if n \<notin> lm_clients lm then None
      else case client_change_state W lm n t of
        (Throws, lm1) \<Rightarrow> Some (Throws, lm1)
      | (Ret False, lm1) \<Rightarrow> Some (Ret False, lm1)
      | (Ret True, lm1) \<Rightarrow>
          (case client_get_state W lm1 n of
             (Throws, lm2) \<Rightarrow> Some (Throws, lm2)
           | (Ret s, lm2) \<Rightarrow>
               if s \<noteq> transition_state t then Some (Ret False, lm2)
               else if t = ACTIVATE then
                 let (b, lm3) = createBondConnection W lm2 n in Some (Ret b, lm3)
               else if t = DEACTIVATE then
                 Some (Ret True, lm2\<lparr>lm_bonds := lm_bonds lm2 - {n}\<rparr>)
               else Some (Ret True, lm2)))"

section \<open>All nodes\<close>

fun change_nodes ::
    "world \<Rightarrow> transition \<Rightarrow> bool \<Rightarrow> string list \<Rightarrow> lifecycle_manager \<Rightarrow> (bool \<times> lifecycle_manager) option"
  where
  "change_nodes W t hard_change [] lm = Some (True, lm)"
| "change_nodes W t hard_change (n # ns) lm =
     (case changeStateForNode W lm n t of
        None \<Rightarrow> None
      | Some (Throws, lm') \<Rightarrow> Some (False, lm')
      | Some (Ret b, lm') \<Rightarrow>
          if \<not> b \<and> \<not> hard_change then Some (False, lm') else change_nodes W t hard_change ns lm')"

definition bring_up_order :: "transition \<Rightarrow> string list \<Rightarrow> string list" where
  "bring_up_order t names = (if t = CONFIGURE \<or> t = ACTIVATE then names else rev names)"

definition changeStateForAllNodes ::
    "world \<Rightarrow> transition \<Rightarrow> bool \<Rightarrow> lifecycle_manager \<Rightarrow> (bool \<times> lifecycle_manager) option" where
  "changeStateForAllNodes W t hard_change lm =
     change_nodes W t hard_change (bring_up_order t (lm_node_names lm)) lm"

text \<open>\<open>!a(t) || !b(t')\<close> over two rounds: the second round runs only after a first without failure.\<close>

definition both_rounds ::
    "world \<Rightarrow> transition \<Rightarrow> transition \<Rightarrow> bool \<Rightarrow> lifecycle_manager \<Rightarrow> (bool \<times> lifecycle_manager) option" where
  "both_rounds W t t' hard_change lm =
     (case changeStateForAllNodes W t hard_change lm of
        None \<Rightarrow> None
      | Some (False, lm1) \<Rightarrow> Some (False, lm1)
      | Some (True, lm1) \<Rightarrow> changeStateForAllNodes W t' hard_change lm1)"

definition createBondTimer :: "lifecycle_manager \<Rightarrow> lifecycle_manager" where
  "createBondTimer lm = (if lm_bond_timeout lm \<le> 0 then lm else lm\<lparr>lm_bond_timer := True\<rparr>)"

definition destroyBondTimer :: "lifecycle_manager \<Rightarrow> lifecycle_manager" where
  "destroyBondTimer lm = lm\<lparr>lm_bond_timer := False\<rparr>"

definition startup :: "world \<Rightarrow> lifecycle_manager \<Rightarrow> (bool \<times> lifecycle_manager) option" where
  "startup W lm = do {
     (ok, lm1) \<leftarrow> both_rounds W CONFIGURE ACTIVATE False lm;
     Some (if ok then (True, createBondTimer (lm1\<lparr>lm_system_active := True\<rparr>)) else (False, lm1))
   }"

definition shutdownAllNodes :: "world \<Rightarrow> lifecycle_manager \<Rightarrow> lifecycle_manager option" where
  "shutdownAllNodes W lm = do {
     (_, lm1) \<leftarrow> changeStateForAllNodes W DEACTIVATE False lm;
     (_, lm2) \<leftarrow> changeStateForAllNodes W CLEANUP False lm1;
     (_, lm3) \<leftarrow> changeStateForAllNodes W UNCONFIGURED_SHUTDOWN False lm2;
     Some lm3
   }"

definition destroyLifecycleServiceClients :: "lifecycle_manager \<Rightarrow> lifecycle_manager" where
  "destroyLifecycleServiceClients lm = lm\<lparr>lm_clients := {}\<rparr>"

definition deactivated :: "lifecycle_manager \<Rightarrow> lifecycle_manager" where
  "deactivated lm = destroyBondTimer (lm\<lparr>lm_system_active := False\<rparr>)"

definition shutdown :: "world \<Rightarrow> lifecycle_manager \<Rightarrow> (bool \<times> lifecycle_manager) option" where
  "shutdown W lm = do {
     lm1 \<leftarrow> shutdownAllNodes W (deactivated lm);
     Some (True, destroyLifecycleServiceClients lm1)
   }"

definition reset_nodes :: "world \<Rightarrow> bool \<Rightarrow> lifecycle_manager \<Rightarrow> (bool \<times> lifecycle_manager) option" where
  "reset_nodes W hard_reset lm = do {
     (ok, lm1) \<leftarrow> both_rounds W DEACTIVATE CLEANUP hard_reset (deactivated lm);
     Some (ok \<or> hard_reset, lm1)
   }"

definition pause :: "world \<Rightarrow> lifecycle_manager \<Rightarrow> (bool \<times> lifecycle_manager) option" where
  "pause W lm = changeStateForAllNodes W DEACTIVATE False (deactivated lm)"

definition resume :: "world \<Rightarrow> lifecycle_manager \<Rightarrow> (bool \<times> lifecycle_manager) option" where
  "resume W lm = do {
     (ok, lm1) \<leftarrow> changeStateForAllNodes W ACTIVATE False lm;
     Some (if ok then (True, createBondTimer (lm1\<lparr>lm_system_active := True\<rparr>)) else (False, lm1))
   }"

section \<open>The timers\<close>

fun check_bonds :: "world \<Rightarrow> string list \<Rightarrow> lifecycle_manager \<Rightarrow> lifecycle_manager option" where
  "check_bonds W [] lm = Some lm"
| "check_bonds W (n # ns) lm =
     (let lm1 = log_event AskOk lm in
      if \<not> w_ok W (lm_hist lm) then Some lm1
      else if n \<notin> lm_bonds lm1 then None
      else
        let lm2 = log_event (AskBroken n) lm1 in
        if w_broken W (lm_hist lm1) n then do {
          (_, lm3) \<leftarrow> reset_nodes W True lm2;
          let lm4 = lm3\<lparr>lm_bonds := {}\<rparr>;
          Some (if lm_attempt_respawn lm4 then lm4\<lparr>lm_respawn_timer := True\<rparr> else lm4)
        } else check_bonds W ns lm2)"

definition checkBondConnections :: "world \<Rightarrow> lifecycle_manager \<Rightarrow> lifecycle_manager option" where
  "checkBondConnections W lm =
     (if \<not> lm_system_active lm then Some lm
      else
        let lm1 = log_event AskOk lm in
        if \<not> w_ok W (lm_hist lm) \<or> lm_bonds lm1 = {} then Some lm1
        else check_bonds W (lm_node_names lm1) lm1)"

text \<open>The count of live servers, up to the first that throws; \<open>None\<close> in it when \<open>rclcpp\<close> shuts down.\<close>

fun count_live :: "world \<Rightarrow> string list \<Rightarrow> nat \<Rightarrow> lifecycle_manager \<Rightarrow> (nat option \<times> lifecycle_manager) option"
  where
  "count_live W [] live lm = Some (Some live, lm)"
| "count_live W (n # ns) live lm =
     (let lm1 = log_event AskOk lm in
      if \<not> w_ok W (lm_hist lm) then Some (None, lm1)
      else if n \<notin> lm_clients lm1 then None
      else case client_get_state W lm1 n of
        (Ret s, lm2) \<Rightarrow> count_live W ns (live + 1) lm2
      | (Throws, lm2) \<Rightarrow> Some (Some live, lm2))"

definition stop_respawn :: "lifecycle_manager \<Rightarrow> lifecycle_manager" where
  "stop_respawn lm = lm\<lparr>lm_respawn_start := 0, lm_respawn_timer := False\<rparr>"

definition respawn_begin :: "world \<Rightarrow> lifecycle_manager \<Rightarrow> lifecycle_manager" where
  "respawn_begin W lm =
     (if lm_respawn_start lm = 0
      then (log_event AskNow lm)\<lparr>lm_respawn_start := w_now W (lm_hist lm)\<rparr> else lm)"

definition checkBondRespawnConnection :: "world \<Rightarrow> lifecycle_manager \<Rightarrow> lifecycle_manager option" where
  "checkBondRespawnConnection W lm =
     (let lm1 = respawn_begin W lm in
      if lm_system_active lm1 then Some (stop_respawn lm1)
      else
        let lm2 = log_event AskOk lm1 in
        if \<not> w_ok W (lm_hist lm1) \<or> lm_node_names lm2 = [] then Some (stop_respawn lm2)
        else do {
          (live, lm3) \<leftarrow> count_live W (lm_node_names lm2) 0 lm2;
          case live of
            None \<Rightarrow> Some lm3
          | Some live_servers \<Rightarrow>
              if live_servers = length (lm_node_names lm3)
              then map_option snd (startup W (stop_respawn lm3))
              else
                let lm4 = log_event AskNow lm3 in
                Some (if lm_respawn_max lm4 \<le> w_now W (lm_hist lm3) - lm_respawn_start lm4
                      then stop_respawn lm4 else lm4)
        })"

section \<open>Construction, services and shutdown of \<open>rclcpp\<close>\<close>

definition lifecycle_manager_new ::
    "string list \<Rightarrow> bool \<Rightarrow> int \<Rightarrow> int \<Rightarrow> bool \<Rightarrow> lifecycle_manager" where
  "lifecycle_manager_new names autostart bond_timeout respawn_max attempt_respawn =
     \<lparr>lm_node_names = names, lm_clients = {}, lm_bonds = {}, lm_bond_timeout = bond_timeout,
      lm_bond_timer = False, lm_respawn_timer = False, lm_autostart = autostart,
      lm_attempt_respawn = attempt_respawn, lm_system_active = False, lm_respawn_start = 0,
      lm_respawn_max = respawn_max, lm_init_timer = Armed, lm_serving = False, lm_hist = []\<rparr>"

definition createLifecycleServiceClients :: "lifecycle_manager \<Rightarrow> lifecycle_manager" where
  "createLifecycleServiceClients lm = lm\<lparr>lm_clients := lm_clients lm \<union> set (lm_node_names lm)\<rparr>"

definition init_callback :: "lifecycle_manager \<Rightarrow> lifecycle_manager" where
  "init_callback lm =
     (createLifecycleServiceClients lm)\<lparr>
       lm_init_timer := (if lm_autostart lm then AutostartArmed else Cancelled), lm_serving := True\<rparr>"

definition autostart_callback :: "world \<Rightarrow> lifecycle_manager \<Rightarrow> lifecycle_manager option" where
  "autostart_callback W lm = map_option snd (startup W (lm\<lparr>lm_init_timer := Cancelled\<rparr>))"

datatype manage_command = STARTUP | RESET | SHUTDOWN | PAUSE | RESUME

fun managerCallback :: "world \<Rightarrow> manage_command \<Rightarrow> lifecycle_manager \<Rightarrow> (bool \<times> lifecycle_manager) option"
  where
  "managerCallback W STARTUP lm = startup W lm"
| "managerCallback W RESET lm = reset_nodes W False lm"
| "managerCallback W SHUTDOWN lm = shutdown W lm"
| "managerCallback W PAUSE lm = pause W lm"
| "managerCallback W RESUME lm = resume W lm"

definition isActiveCallback :: "lifecycle_manager \<Rightarrow> bool" where
  "isActiveCallback lm = lm_system_active lm"

definition onRclPreshutdown :: "lifecycle_manager \<Rightarrow> lifecycle_manager" where
  "onRclPreshutdown lm =
     (destroyBondTimer lm)\<lparr>lm_serving := False, lm_node_names := [], lm_clients := {}, lm_bonds := {}\<rparr>"

text \<open>
  One callback: services and timers run in one mutually exclusive callback group, so they do not
  interleave, and \<open>onRclPreshutdown\<close> joins their thread before it clears the maps. The outcome
  \<open>None\<close> is a crash.
\<close>

inductive lm_step :: "world \<Rightarrow> lifecycle_manager \<Rightarrow> lifecycle_manager option \<Rightarrow> bool" for W where
  init: "lm_init_timer lm = Armed \<Longrightarrow> lm_step W lm (Some (init_callback lm))"
| autostart: "lm_init_timer lm = AutostartArmed \<Longrightarrow> lm_serving lm \<Longrightarrow> lm_step W lm (autostart_callback W lm)"
| service: "lm_serving lm \<Longrightarrow> lm_step W lm (map_option snd (managerCallback W c lm))"
| bond_timer: "lm_bond_timer lm \<Longrightarrow> lm_serving lm \<Longrightarrow> lm_step W lm (checkBondConnections W lm)"
| respawn_timer: "lm_respawn_timer lm \<Longrightarrow> lm_serving lm \<Longrightarrow> lm_step W lm (checkBondRespawnConnection W lm)"
| preshutdown: "lm_step W lm (Some (onRclPreshutdown lm))"

inductive_cases lm_stepE: "lm_step W lm r"

inductive lm_reachable :: "world \<Rightarrow> lifecycle_manager \<Rightarrow> lifecycle_manager \<Rightarrow> bool" for W lm0 where
  start: "lm_reachable W lm0 lm0"
| step: "lm_reachable W lm0 lm \<Longrightarrow> lm_step W lm (Some lm') \<Longrightarrow> lm_reachable W lm0 lm'"

section \<open>What a round asks for\<close>

fun request :: "event \<Rightarrow> (string \<times> transition) list" where
  "request (ReqChange n t) = [(n, t)]"
| "request _ = []"

definition requests :: "lifecycle_manager \<Rightarrow> (string \<times> transition) list" where
  "requests lm = concat (map request (lm_hist lm))"

definition for_all :: "transition \<Rightarrow> string list \<Rightarrow> (string \<times> transition) list" where
  "for_all t ns = map (\<lambda>n. (n, t)) ns"

text \<open>The node reported a state in answer to a question of the log.\<close>

definition reported :: "world \<Rightarrow> lifecycle_manager \<Rightarrow> string \<Rightarrow> primary_state \<Rightarrow> bool" where
  "reported W lm n st \<longleftrightarrow> (\<exists>i < length (lm_hist lm). lm_hist lm ! i = ReqState n \<and>
     w_state W (take i (lm_hist lm)) n = Response st)"

text \<open>Only the bonds and the log change.\<close>

definition only_bonds :: "lifecycle_manager \<Rightarrow> lifecycle_manager \<Rightarrow> bool" where
  "only_bonds lm lm' \<longleftrightarrow> lm' = lm\<lparr>lm_bonds := lm_bonds lm', lm_hist := lm_hist lm'\<rparr> \<and>
     prefix (lm_hist lm) (lm_hist lm')"

lemma only_bonds_refl [simp]: "only_bonds lm lm"
  by (simp add: only_bonds_def)

lemma only_bonds_trans:
  assumes "only_bonds a b" "only_bonds b c"
  shows "only_bonds a c"
proof -
  obtain B h where b: "b = a\<lparr>lm_bonds := B, lm_hist := h\<rparr>" "prefix (lm_hist a) h"
    using assms(1) unfolding only_bonds_def by metis
  obtain C k where "c = b\<lparr>lm_bonds := C, lm_hist := k\<rparr>" "prefix (lm_hist b) k"
    using assms(2) unfolding only_bonds_def by metis
  then show ?thesis using b prefix_order.trans by (simp add: only_bonds_def)
qed

lemma only_bonds_fields:
  assumes "only_bonds lm lm'"
  shows "lm_node_names lm' = lm_node_names lm" "lm_clients lm' = lm_clients lm"
    "lm_bond_timeout lm' = lm_bond_timeout lm" "lm_bond_timer lm' = lm_bond_timer lm"
    "lm_respawn_timer lm' = lm_respawn_timer lm" "lm_autostart lm' = lm_autostart lm"
    "lm_attempt_respawn lm' = lm_attempt_respawn lm" "lm_system_active lm' = lm_system_active lm"
    "lm_respawn_start lm' = lm_respawn_start lm" "lm_respawn_max lm' = lm_respawn_max lm"
    "lm_init_timer lm' = lm_init_timer lm" "lm_serving lm' = lm_serving lm"
    "prefix (lm_hist lm) (lm_hist lm')"
  using assms unfolding only_bonds_def
  by (metis lifecycle_manager.select_convs lifecycle_manager.surjective lifecycle_manager.update_convs(3,14))+

lemma reported_mono: "reported W lm n st \<Longrightarrow> prefix (lm_hist lm) (lm_hist lm') \<Longrightarrow> reported W lm' n st"
  unfolding reported_def by (auto simp: prefix_def nth_append intro: exI)

lemma reported_at:
  assumes "lm_hist lm = h @ ReqState n # h'" "w_state W h n = Response st"
  shows "reported W lm n st"
  unfolding reported_def by (intro exI [of _ "length h"]) (simp add: assms)

text \<open>One node: one request, and the bond of an activated node when bonds are in use.\<close>

lemma changeStateForNode_result:
  assumes "changeStateForNode W lm n t = Some (r, lm')"
  shows "only_bonds lm lm'" "requests lm' = requests lm @ [(n, t)]"
    and "t \<noteq> DEACTIVATE \<Longrightarrow> lm_bonds lm \<subseteq> lm_bonds lm'"
    and "lm_bonds lm \<noteq> lm_bonds lm' \<Longrightarrow> lm_bonds lm \<noteq> {} \<or> 0 < lm_bond_timeout lm"
    and "r = Ret True \<Longrightarrow> t = ACTIVATE \<Longrightarrow> 0 < lm_bond_timeout lm \<Longrightarrow> n \<in> lm_bonds lm'"
  using assms
  by (auto simp: changeStateForNode_def client_change_state_def client_get_state_def log_event_def
      createBondConnection_def only_bonds_def requests_def Let_def
      split: if_splits reply.splits call.splits bool.splits)

lemma changeStateForNode_reported:
  assumes "changeStateForNode W lm n t = Some (Ret True, lm')"
  shows "reported W lm' n (transition_state t)"
  using assms
  by (intro reported_at [of _ "lm_hist lm @ [ReqChange n t]"
        _ "if t = ACTIVATE \<and> n \<notin> lm_bonds lm \<and> 0 < lm_bond_timeout lm then [WaitBond n] else []"])
    (auto simp: changeStateForNode_def client_change_state_def client_get_state_def log_event_def
      createBondConnection_def Let_def split: if_splits reply.splits call.splits bool.splits)

lemma changeStateForNode_total:
  "n \<in> lm_clients lm \<Longrightarrow> \<exists>r. changeStateForNode W lm n t = Some r"
  by (auto simp: changeStateForNode_def Let_def split: call.splits bool.splits prod.splits)

text \<open>A round: it asks a prefix of its nodes in order, all of them when it succeeds.\<close>

definition round_done ::
    "world \<Rightarrow> transition \<Rightarrow> string list \<Rightarrow> lifecycle_manager \<Rightarrow> bool" where
  "round_done W t ns lm \<longleftrightarrow> (\<forall>n \<in> set ns. reported W lm n (transition_state t) \<and>
     (t = ACTIVATE \<longrightarrow> 0 < lm_bond_timeout lm \<longrightarrow> n \<in> lm_bonds lm))"

lemma change_nodes_result:
  assumes "change_nodes W t hard ns lm = Some (b, lm')"
  shows "only_bonds lm lm' \<and> (\<exists>k \<le> length ns. requests lm' = requests lm @ for_all t (take k ns) \<and>
      (b \<longrightarrow> k = length ns)) \<and> (t \<noteq> DEACTIVATE \<longrightarrow> lm_bonds lm \<subseteq> lm_bonds lm') \<and>
    (lm_bonds lm \<noteq> lm_bonds lm' \<longrightarrow> lm_bonds lm \<noteq> {} \<or> 0 < lm_bond_timeout lm) \<and>
    (b \<longrightarrow> \<not> hard \<longrightarrow> round_done W t ns lm')"
  using assms
proof (induction ns arbitrary: lm)
  case Nil
  then show ?case by (simp add: for_all_def round_done_def)
next
  case (Cons n ns)
  obtain r lm1 where r: "changeStateForNode W lm n t = Some (r, lm1)"
    using Cons.prems by (auto split: option.splits)
  note n = changeStateForNode_result [OF r] and f = only_bonds_fields [OF changeStateForNode_result(1) [OF r]]
  show ?case
  proof (cases "change_nodes W t hard ns lm1 = Some (b, lm') \<and> (hard \<or> r = Ret True)")
    case True
    then have c: "change_nodes W t hard ns lm1 = Some (b, lm')" "hard \<or> r = Ret True" by auto
    note IH = Cons.IH [OF c(1)]
    obtain k where k: "k \<le> length ns" "requests lm' = requests lm1 @ for_all t (take k ns)"
      "b \<longrightarrow> k = length ns" using IH by blast
    have "\<exists>k \<le> length (n # ns). requests lm' = requests lm @ for_all t (take k (n # ns)) \<and>
        (b \<longrightarrow> k = length (n # ns))"
      using k n(2) by (intro exI [of _ "Suc k"]) (simp add: for_all_def)
    moreover have "round_done W t (n # ns) lm'" if "b" "\<not> hard"
    proof -
      have rt: "r = Ret True" using c(2) that by simp
      have o: "only_bonds lm1 lm'" and m: "t = ACTIVATE \<longrightarrow> lm_bonds lm1 \<subseteq> lm_bonds lm'"
        using IH by auto
      have "reported W lm' n (transition_state t)"
        using changeStateForNode_reported r rt only_bonds_fields(13) [OF o] reported_mono by blast
      moreover have "n \<in> lm_bonds lm'" if "t = ACTIVATE" "0 < lm_bond_timeout lm'"
        using n(5) rt that m only_bonds_fields(3) [OF o] f(3) by auto
      ultimately show ?thesis using IH that by (auto simp: round_done_def)
    qed
    moreover have "only_bonds lm lm'" using n(1) IH only_bonds_trans by blast
    ultimately show ?thesis using IH n(3,4) f(3) by auto
  next
    case False
    then have nb: "\<not> b" and lm': "lm' = lm1"
      using Cons.prems r by (cases r; auto split: if_splits)+
    have "requests lm1 = requests lm @ for_all t (take (Suc 0) (n # ns))" "Suc 0 \<le> length (n # ns)"
      using n(2) by (simp_all add: for_all_def)
    then have "\<exists>k \<le> length (n # ns). requests lm1 = requests lm @ for_all t (take k (n # ns))" by blast
    then show ?thesis unfolding lm' using nb n(1,3,4) by simp
  qed
qed

lemma change_nodes_defined: "set ns \<subseteq> lm_clients lm \<Longrightarrow> change_nodes W t hard ns lm \<noteq> None"
proof (induction ns arbitrary: lm)
  case Nil
  then show ?case by simp
next
  case (Cons n ns)
  obtain r lm1 where r: "changeStateForNode W lm n t = Some (r, lm1)"
    using changeStateForNode_total [of n lm W t] Cons.prems by auto
  have "set ns \<subseteq> lm_clients lm1"
    using only_bonds_fields(2) [OF changeStateForNode_result(1) [OF r]] Cons.prems by simp
  then show ?case using r Cons.IH [of lm1] by (cases r) (simp_all del: not_None_eq)
qed

lemma change_nodes_total: "set ns \<subseteq> lm_clients lm \<Longrightarrow> \<exists>r. change_nodes W t hard ns lm = Some r"
  using change_nodes_defined by (simp only: not_None_eq)

lemma changeStateForAllNodes_result:
  assumes "changeStateForAllNodes W t hard lm = Some (b, lm')"
  shows "only_bonds lm lm'"
    and "\<exists>k \<le> length (lm_node_names lm).
      requests lm' = requests lm @ for_all t (take k (bring_up_order t (lm_node_names lm))) \<and>
      (b \<longrightarrow> k = length (lm_node_names lm))"
    and "t \<noteq> DEACTIVATE \<Longrightarrow> lm_bonds lm \<subseteq> lm_bonds lm'"
    and "lm_bonds lm \<noteq> lm_bonds lm' \<Longrightarrow> lm_bonds lm \<noteq> {} \<or> 0 < lm_bond_timeout lm"
    and "b \<Longrightarrow> \<not> hard \<Longrightarrow> round_done W t (lm_node_names lm) lm'"
proof -
  have len: "length (bring_up_order t (lm_node_names lm)) = length (lm_node_names lm)"
    by (simp add: bring_up_order_def)
  have st: "set (bring_up_order t (lm_node_names lm)) = set (lm_node_names lm)"
    by (simp add: bring_up_order_def)
  note r = change_nodes_result [OF assms [unfolded changeStateForAllNodes_def], unfolded len round_done_def st]
  from r show "only_bonds lm lm'" by blast
  from r show "\<exists>k \<le> length (lm_node_names lm).
      requests lm' = requests lm @ for_all t (take k (bring_up_order t (lm_node_names lm))) \<and>
      (b \<longrightarrow> k = length (lm_node_names lm))" by blast
  from r show "t \<noteq> DEACTIVATE \<Longrightarrow> lm_bonds lm \<subseteq> lm_bonds lm'" by blast
  from r show "lm_bonds lm \<noteq> lm_bonds lm' \<Longrightarrow> lm_bonds lm \<noteq> {} \<or> 0 < lm_bond_timeout lm" by blast
  from r show "b \<Longrightarrow> \<not> hard \<Longrightarrow> round_done W t (lm_node_names lm) lm'"
    unfolding round_done_def by blast
qed

lemma changeStateForAllNodes_total:
  "set (lm_node_names lm) \<subseteq> lm_clients lm \<Longrightarrow> \<exists>r. changeStateForAllNodes W t hard lm = Some r"
  unfolding changeStateForAllNodes_def by (rule change_nodes_total) (simp add: bring_up_order_def)

lemma both_rounds_total:
  assumes "set (lm_node_names lm) \<subseteq> lm_clients lm"
  shows "\<exists>r. both_rounds W t t' hard lm = Some r"
proof -
  obtain b lm1 where r: "changeStateForAllNodes W t hard lm = Some (b, lm1)"
    using changeStateForAllNodes_total [OF assms, of W t hard] by auto
  note o = only_bonds_fields(1,2) [OF changeStateForAllNodes_result(1) [OF r]]
  show ?thesis
    using r o changeStateForAllNodes_total [of lm1 W t' hard] assms
    by (auto simp: both_rounds_def split: bool.splits)
qed

lemma both_rounds_bonds:
  assumes "both_rounds W t t' hard lm = Some (b, lm')"
  shows "only_bonds lm lm'" "t \<noteq> DEACTIVATE \<Longrightarrow> t' \<noteq> DEACTIVATE \<Longrightarrow> lm_bonds lm \<subseteq> lm_bonds lm'"
    and "lm_bonds lm \<noteq> lm_bonds lm' \<Longrightarrow> lm_bonds lm \<noteq> {} \<or> 0 < lm_bond_timeout lm"
proof -
  obtain c lm1 where r: "changeStateForAllNodes W t hard lm = Some (c, lm1)"
    using assms by (auto simp: both_rounds_def split: option.splits)
  note 1 = changeStateForAllNodes_result [OF r] and f = only_bonds_fields [OF changeStateForAllNodes_result(1) [OF r]]
  show "only_bonds lm lm'"
    using assms r 1(1) only_bonds_trans changeStateForAllNodes_result(1)
    by (auto simp: both_rounds_def split: bool.splits) blast
  show "t \<noteq> DEACTIVATE \<Longrightarrow> t' \<noteq> DEACTIVATE \<Longrightarrow> lm_bonds lm \<subseteq> lm_bonds lm'"
    using assms r 1(3) changeStateForAllNodes_result(3) [of W t' hard lm1 b lm']
    by (auto simp: both_rounds_def split: bool.splits)
  show "lm_bonds lm \<noteq> lm_bonds lm' \<Longrightarrow> lm_bonds lm \<noteq> {} \<or> 0 < lm_bond_timeout lm"
    using assms r 1(4) f(3) changeStateForAllNodes_result(4) [of W t' hard lm1 b lm']
    by (auto simp: both_rounds_def split: bool.splits)
qed

lemma both_rounds_requests:
  assumes "both_rounds W t t' hard lm = Some (b, lm')" "ns = lm_node_names lm"
  shows "\<exists>rs. requests lm' = requests lm @ rs \<and>
      prefix rs (for_all t (bring_up_order t ns) @ for_all t' (bring_up_order t' ns)) \<and>
      (b \<longrightarrow> rs = for_all t (bring_up_order t ns) @ for_all t' (bring_up_order t' ns)) \<and>
      (b \<longrightarrow> \<not> hard \<longrightarrow> round_done W t' ns lm')"
proof -
  have len: "length (bring_up_order u ns) = length ns" for u by (simp add: bring_up_order_def)
  obtain c lm1 where r: "changeStateForAllNodes W t hard lm = Some (c, lm1)"
    using assms(1) by (auto simp: both_rounds_def split: option.splits)
  obtain k where k: "requests lm1 = requests lm @ for_all t (take k (bring_up_order t ns))"
    "c \<longrightarrow> k = length ns"
    using changeStateForAllNodes_result(2) [OF r] assms(2) by auto
  have ns1: "lm_node_names lm1 = ns"
    using only_bonds_fields(1) [OF changeStateForAllNodes_result(1) [OF r]] assms(2) by simp
  have pre: "prefix (for_all u (take j xs)) (for_all u xs)" for u j xs
    unfolding for_all_def by (intro map_mono_prefix take_is_prefix)
  show ?thesis
  proof (cases c)
    case False
    then have "b = False \<and> lm' = lm1" using assms(1) r by (simp add: both_rounds_def)
    then show ?thesis
      using k(1) pre [of t k "bring_up_order t ns"] prefix_append [of _ "for_all t (bring_up_order t ns)"]
      by auto
  next
    case True
    then have r': "changeStateForAllNodes W t' hard lm1 = Some (b, lm')"
      using assms(1) r by (simp add: both_rounds_def)
    obtain j where j: "requests lm' = requests lm1 @ for_all t' (take j (bring_up_order t' ns))"
      "b \<longrightarrow> j = length ns"
      using changeStateForAllNodes_result(2) [OF r'] ns1 by auto
    have "requests lm' = requests lm @ for_all t (bring_up_order t ns) @
        for_all t' (take j (bring_up_order t' ns))"
      using j(1) k True by (simp add: len)
    moreover have "b \<Longrightarrow> \<not> hard \<Longrightarrow> round_done W t' ns lm'"
      using changeStateForAllNodes_result(5) [OF r'] ns1 by simp
    ultimately show ?thesis using pre [of t' j] j(2) by (auto simp: len)
  qed
qed

section \<open>The first failure\<close>

text \<open>
  The answers to one request, asked after the questions \<open>h\<close>: the service responds, the node then reports the state the
  transition leads to, and the bond, when one is to be made, is formed.
\<close>

definition answers :: "world \<Rightarrow> event list \<Rightarrow> bool \<Rightarrow> string \<Rightarrow> transition \<Rightarrow> bool" where
  "answers W h bond n t \<longleftrightarrow>
     (\<exists>success. w_change W h n t = Response success) \<and>
     w_state W (h @ [ReqChange n t]) n = Response (transition_state t) \<and>
     (bond \<longrightarrow> w_formed W (h @ [ReqChange n t, ReqState n]) n)"

text \<open>Request \<open>i\<close> of a sequence was made on the way from \<open>lm\<close> to \<open>lm'\<close>, and was answered well or not.\<close>

definition asked ::
    "world \<Rightarrow> lifecycle_manager \<Rightarrow> lifecycle_manager \<Rightarrow> (string \<times> transition) list \<Rightarrow> nat \<Rightarrow> bool \<Rightarrow> bool"
  where
  "asked W lm lm' rs i good \<longleftrightarrow>
     (let n = fst (rs ! i); t = snd (rs ! i);
          bond = (t = ACTIVATE \<and> 0 < lm_bond_timeout lm \<and> n \<notin> lm_bonds lm \<and> (n, ACTIVATE) \<notin> set (take i rs))
      in \<exists>h. prefix (h @ [ReqChange n t]) (lm_hist lm') \<and>
        concat (map request h) = requests lm @ take i rs \<and> good = answers W h bond n t)"

fun request_all ::
    "world \<Rightarrow> (string \<times> transition) list \<Rightarrow> lifecycle_manager \<Rightarrow> (bool \<times> lifecycle_manager) option" where
  "request_all W [] lm = Some (True, lm)"
| "request_all W ((n, t) # rs) lm =
     (case changeStateForNode W lm n t of
        None \<Rightarrow> None
      | Some (r, lm') \<Rightarrow> if r = Ret True then request_all W rs lm' else Some (False, lm'))"

lemma change_nodes_request_all: "change_nodes W t False ns lm = request_all W (for_all t ns) lm"
  by (induction ns arbitrary: lm) (auto simp: for_all_def split: option.splits call.splits)

lemma request_all_append:
  "request_all W (rs @ qs) lm =
     (case request_all W rs lm of
        None \<Rightarrow> None
      | Some (b, lm') \<Rightarrow> if b then request_all W qs lm' else Some (False, lm'))"
  by (induction W rs lm rule: request_all.induct) (auto split: option.splits)

lemma bring_up_request_all:
  assumes "lm_node_names lm = ns"
  shows "both_rounds W CONFIGURE ACTIVATE False lm = request_all W (for_all CONFIGURE ns @ for_all ACTIVATE ns) lm"
proof -
  have "lm_node_names lm1 = ns" if "changeStateForAllNodes W CONFIGURE False lm = Some (b, lm1)" for b lm1
    using only_bonds_fields(1) [OF changeStateForAllNodes_result(1) [OF that]] assms by simp
  then show ?thesis
    using assms
    by (auto simp: both_rounds_def changeStateForAllNodes_def bring_up_order_def change_nodes_request_all
        request_all_append split: option.splits bool.splits)
qed

lemma changeStateForNode_answers:
  assumes "changeStateForNode W lm n t = Some (r, lm')" "t \<noteq> DEACTIVATE"
  shows "r = Ret True \<longleftrightarrow>
      answers W (lm_hist lm) (t = ACTIVATE \<and> 0 < lm_bond_timeout lm \<and> n \<notin> lm_bonds lm) n t"
    and "prefix (lm_hist lm @ [ReqChange n t]) (lm_hist lm')"
    and "r = Ret True \<Longrightarrow> lm_bonds lm' =
      (if t = ACTIVATE \<and> 0 < lm_bond_timeout lm then insert n (lm_bonds lm) else lm_bonds lm)"
  using assms
  by (auto simp: changeStateForNode_def client_change_state_def client_get_state_def log_event_def
      createBondConnection_def answers_def Let_def split: if_splits reply.splits call.splits bool.splits)

lemma asked_first:
  assumes "changeStateForNode W lm n t = Some (r, lm1)" "t \<noteq> DEACTIVATE" "prefix (lm_hist lm1) (lm_hist lm')"
  shows "asked W lm lm' ((n, t) # rs) 0 (r = Ret True)"
  using changeStateForNode_answers(1,2) [OF assms(1,2)] prefix_order.trans [OF _ assms(3)]
  by (auto simp: asked_def requests_def intro!: exI [of _ "lm_hist lm"])

lemma asked_later:
  assumes r: "changeStateForNode W lm n t = Some (Ret True, lm1)" and t: "t \<noteq> DEACTIVATE"
    and later: "asked W lm1 lm' rs i good"
  shows "asked W lm lm' ((n, t) # rs) (Suc i) good"
proof -
  have "lm_bond_timeout lm1 = lm_bond_timeout lm" "requests lm1 = requests lm @ [(n, t)]"
    using only_bonds_fields(3) changeStateForNode_result(1,2) [OF r] by auto
  moreover have "(m, ACTIVATE) \<notin> set (take (Suc i) ((n, t) # rs)) \<and> m \<notin> lm_bonds lm \<longleftrightarrow>
      m \<notin> lm_bonds lm1 \<and> (m, ACTIVATE) \<notin> set (take i rs)" if "0 < lm_bond_timeout lm" for m
    using changeStateForNode_answers(3) [OF r t] that by auto
  then have "u = ACTIVATE \<and> 0 < lm_bond_timeout lm \<and> m \<notin> lm_bonds lm \<and> (m, ACTIVATE) \<notin> set (take (Suc i) ((n, t) # rs)) \<longleftrightarrow>
      u = ACTIVATE \<and> 0 < lm_bond_timeout lm \<and> m \<notin> lm_bonds lm1 \<and> (m, ACTIVATE) \<notin> set (take i rs)" for u m
    by blast
  ultimately show ?thesis
    using later unfolding asked_def Let_def nth_Cons_Suc take_Suc_Cons by simp
qed

lemma request_all_first_failure:
  assumes "request_all W rs lm = Some (b, lm')" "DEACTIVATE \<notin> snd ` set rs"
  shows "prefix (lm_hist lm) (lm_hist lm') \<and>
    (\<exists>k\<le>length rs. (b \<longleftrightarrow> k = length rs) \<and> requests lm' = requests lm @ take (Suc k) rs \<and>
      (\<forall>i<k. asked W lm lm' rs i True) \<and> (k < length rs \<longrightarrow> asked W lm lm' rs k False))"
  using assms
proof (induction W rs lm rule: request_all.induct)
  case (1 W lm)
  then show ?case by simp
next
  case (2 W n t rs lm)
  obtain r lm1 where r: "changeStateForNode W lm n t = Some (r, lm1)"
    using 2(2) by (auto split: option.splits)
  have t: "t \<noteq> DEACTIVATE" using 2(3) by auto
  have pre: "prefix (lm_hist lm) (lm_hist lm1)"
    using only_bonds_fields(13) [OF changeStateForNode_result(1) [OF r]] .
  show ?case
  proof (cases "r = Ret True")
    case False
    then have "b = False" "lm' = lm1" using 2(2) r by auto
    then show ?thesis
      using pre changeStateForNode_result(2) [OF r] asked_first [OF r t] False by (auto intro!: exI [of _ 0])
  next
    case True
    then have rest: "request_all W rs lm1 = Some (b, lm')" using 2(2) r by simp
    obtain k where k: "k \<le> length rs" "b \<longleftrightarrow> k = length rs" "requests lm' = requests lm1 @ take (Suc k) rs"
      "\<And>i. i < k \<Longrightarrow> asked W lm1 lm' rs i True" "k < length rs \<Longrightarrow> asked W lm1 lm' rs k False"
      "prefix (lm_hist lm1) (lm_hist lm')"
      using 2(1) [OF r _ True rest] 2(3) by auto
    have "asked W lm lm' ((n, t) # rs) i True" if "i < Suc k" for i
      using that asked_first [OF r t k(6), of rs] asked_later [OF _ t k(4), of lm n] r True by (cases i) simp_all
    moreover have "asked W lm lm' ((n, t) # rs) (Suc k) False" if "k < length rs"
      using asked_later [OF _ t k(5) [OF that]] r True by simp
    ultimately show ?thesis
      using k(1-3,6) pre changeStateForNode_result(2) [OF r] prefix_order.trans
      by (intro conjI exI [of _ "Suc k"]) auto
  qed
qed

section \<open>Bring-up and reset\<close>

text \<open>C19. \<open>startup\<close> asks the nodes in order to configure and then in order to activate, and stops at the first
  request that is not answered well - no response, another state reported, or a bond to be made that does not form:
  with \<open>k\<close> the number of requests answered well before it, it asked for these and the one that failed, and for nothing
  after. It returns true exactly when all are answered well; then every node reported ACTIVE, the system is marked
  active and, with bonds in use, every node has its bond and the bond timer runs; otherwise neither mark changes.\<close>

theorem startup_order:
  assumes "startup W lm = Some (b, lm')" "ns = lm_node_names lm" "rs = for_all CONFIGURE ns @ for_all ACTIVATE ns"
  shows "\<exists>k\<le>length rs. (b \<longleftrightarrow> k = length rs) \<and> requests lm' = requests lm @ take (Suc k) rs \<and>
      (\<forall>i<k. asked W lm lm' rs i True) \<and> (k < length rs \<longrightarrow> asked W lm lm' rs k False) \<and>
      (b \<longrightarrow> lm_system_active lm' \<and> (\<forall>n \<in> set ns. reported W lm' n ACTIVE) \<and>
        (0 < lm_bond_timeout lm \<longrightarrow> set ns \<subseteq> lm_bonds lm' \<and> lm_bond_timer lm')) \<and>
      (\<not> b \<longrightarrow> lm_system_active lm' = lm_system_active lm \<and> lm_bond_timer lm' = lm_bond_timer lm)"
proof -
  obtain lm1 where br: "both_rounds W CONFIGURE ACTIVATE False lm = Some (b, lm1)"
    and lm': "lm' = (if b then createBondTimer (lm1\<lparr>lm_system_active := True\<rparr>) else lm1)"
    using assms(1) by (auto simp: startup_def split: bind_splits if_splits)
  note f = only_bonds_fields [OF both_rounds_bonds(1) [OF br]]
  have h: "lm_hist lm' = lm_hist lm1" "lm_bonds lm' = lm_bonds lm1" "b \<Longrightarrow> lm_system_active lm'"
    "b \<Longrightarrow> 0 < lm_bond_timeout lm1 \<Longrightarrow> lm_bond_timer lm'" "requests lm' = requests lm1"
    by (simp_all add: lm' createBondTimer_def requests_def)
  have same: "asked W lm lm' = asked W lm lm1" "reported W lm' = reported W lm1"
    using h(1) by (auto simp: asked_def reported_def Let_def fun_eq_iff)
  have "\<not> b \<Longrightarrow> lm' = lm1" by (simp add: lm')
  moreover have "DEACTIVATE \<notin> snd ` set rs" by (auto simp: assms(3) for_all_def)
  ultimately show ?thesis
    using request_all_first_failure [of W rs lm b lm1] br bring_up_request_all [OF assms(2) [symmetric]] assms(3)
      both_rounds_requests [OF br assms(2)] h f(3,4,8)
    unfolding same by (auto simp: round_done_def)
qed

text \<open>A world in which every request succeeds, and sample managers.\<close>

definition last_change :: "event list \<Rightarrow> primary_state" where
  "last_change h = (case rev h of ReqChange n t # _ \<Rightarrow> transition_state t | _ \<Rightarrow> OTHER_STATE 0)"

definition good_world :: world where
  "good_world = \<lparr>w_change = (\<lambda>_ _ _. Response True), w_state = (\<lambda>h _. Response (last_change h)),
     w_formed = (\<lambda>_ _. True), w_broken = (\<lambda>_ _. False), w_ok = (\<lambda>_. True), w_now = (\<lambda>_. 5)\<rparr>"

definition sample_manager :: lifecycle_manager where
  "sample_manager = init_callback (lifecycle_manager_new [''map'', ''planner''] False 4000 10 True)"

lemmas manager_eval = sample_manager_def init_callback_def lifecycle_manager_new_def
  createLifecycleServiceClients_def changeStateForAllNodes_def bring_up_order_def
  changeStateForNode_def client_change_state_def client_get_state_def log_event_def
  createBondConnection_def both_rounds_def Let_def

theorem startup_order_witness:
  "\<exists>lm'. startup good_world sample_manager = Some (True, lm') \<and>
    reported good_world lm' ''planner'' ACTIVE \<and> lm_bond_timer lm'"
proof -
  have "\<exists>lm'. startup good_world sample_manager = Some (True, lm')"
    by (simp add: startup_def manager_eval good_world_def last_change_def)
  then obtain lm' where r: "startup good_world sample_manager = Some (True, lm')" by blast
  have "lm_node_names sample_manager = [''map'', ''planner'']" "lm_bond_timeout sample_manager = 4000"
    by (simp_all add: manager_eval)
  then show ?thesis using startup_order [OF r refl refl] r by auto
qed

text \<open>Answers without an exception, at every moment, for the nodes of a manager.\<close>

definition never_throws :: "world \<Rightarrow> string set \<Rightarrow> bool" where
  "never_throws W ns \<longleftrightarrow> (\<forall>n \<in> ns. \<forall>h t. w_change W h n t \<noteq> NotAvailable \<and>
     w_change W h n t \<noteq> Interrupted \<and> w_state W h n \<noteq> NotAvailable \<and>
     w_state W h n \<noteq> Interrupted \<and> w_state W h n \<noteq> RequestFailed)"

lemma changeStateForNode_no_throw:
  assumes "never_throws W {n}" "changeStateForNode W lm n t = Some (r, lm')"
  shows "r \<noteq> Throws"
proof -
  have "w_change W h n t \<notin> {NotAvailable, Interrupted} \<and>
      w_state W h n \<notin> {NotAvailable, Interrupted, RequestFailed}" for h t
    using assms(1) by (auto simp: never_throws_def)
  then show ?thesis
    using assms(2)
    by (auto simp: changeStateForNode_def client_change_state_def client_get_state_def Let_def
        split: if_splits reply.splits call.splits bool.splits prod.splits)
qed

lemma change_nodes_hard:
  assumes "never_throws W (set ns)" "change_nodes W t True ns lm = Some (b, lm')"
  shows "b"
  using assms
proof (induction ns arbitrary: lm)
  case Nil
  then show ?case by simp
next
  case (Cons n ns)
  have w: "never_throws W {n}" "never_throws W (set ns)"
    using Cons.prems(1) by (simp_all add: never_throws_def)
  obtain r lm1 where r: "changeStateForNode W lm n t = Some (r, lm1)"
    using Cons.prems(2) by (auto split: option.splits)
  obtain c where "r = Ret c" using changeStateForNode_no_throw [OF w(1) r] by (cases r) auto
  then have "change_nodes W t True ns lm1 = Some (b, lm')" using Cons.prems(2) r by simp
  then show ?case using Cons.IH [OF w(2)] by blast
qed

text \<open>A reset deactivates the nodes in reverse order, then cleans them up in reverse order, and
  leaves the system inactive with its bond timer stopped; it asks for a prefix of that sequence. A
  hard reset reports success whatever happens and, when no call throws, asks for the whole sequence
  although nodes fail; but when the last node's service is gone, the exception ends the first round
  and no other node is asked to do anything.\<close>

theorem reset_order:
  assumes "reset_nodes W hard lm = Some (b, lm')" "ns = lm_node_names lm"
  shows "\<not> lm_system_active lm' \<and> \<not> lm_bond_timer lm' \<and> (hard \<longrightarrow> b) \<and>
    (\<exists>rs. requests lm' = requests lm @ rs \<and>
      prefix rs (for_all DEACTIVATE (rev ns) @ for_all CLEANUP (rev ns)) \<and>
      (b \<and> \<not> hard \<or> hard \<and> never_throws W (set ns) \<longrightarrow>
        rs = for_all DEACTIVATE (rev ns) @ for_all CLEANUP (rev ns)) \<and>
      (ns \<noteq> [] \<and> (\<forall>h t. w_change W h (last ns) t = NotAvailable) \<longrightarrow> rs = [(last ns, DEACTIVATE)]))"
proof -
  let ?lm = "deactivated lm"
  have d: "lm_node_names ?lm = ns" "requests ?lm = requests lm" "lm_hist ?lm = lm_hist lm"
    "\<not> lm_system_active ?lm" "\<not> lm_bond_timer ?lm"
    using assms(2) by (simp_all add: deactivated_def destroyBondTimer_def requests_def)
  obtain c where br: "both_rounds W DEACTIVATE CLEANUP hard ?lm = Some (c, lm')" and b: "b = (c \<or> hard)"
    using assms(1) by (auto simp: reset_nodes_def split: bind_splits)
  note f = only_bonds_fields [OF both_rounds_bonds(1) [OF br]]
  obtain rs where rs: "requests lm' = requests lm @ rs"
    "prefix rs (for_all DEACTIVATE (rev ns) @ for_all CLEANUP (rev ns))"
    "c \<longrightarrow> rs = for_all DEACTIVATE (rev ns) @ for_all CLEANUP (rev ns)"
    using both_rounds_requests [OF br d(1) [symmetric]] d(2) by (auto simp: bring_up_order_def)
  have "c" if hd: hard and nt0: "never_throws W (set ns)"
  proof -
    obtain e lm1 where r: "changeStateForAllNodes W DEACTIVATE True ?lm = Some (e, lm1)"
      using br hd by (auto simp: both_rounds_def split: option.splits)
    have nt: "never_throws W (set (rev ns))" using nt0 by simp
    have e: e using r change_nodes_hard [OF nt] by (simp add: changeStateForAllNodes_def bring_up_order_def d(1))
    have "lm_node_names lm1 = ns"
      using only_bonds_fields(1) [OF changeStateForAllNodes_result(1) [OF r]] d(1) by simp
    then show c
      using br r e hd change_nodes_hard [OF nt]
      by (simp add: both_rounds_def changeStateForAllNodes_def bring_up_order_def)
  qed
  moreover have "rs = [(last ns, DEACTIVATE)]"
    if ne: "ns \<noteq> []" and na: "\<forall>h t. w_change W h (last ns) t = NotAvailable"
  proof -
    obtain ms m where ns: "ns = ms @ [m]" using ne by (metis rev_exhaust)
    have "lm' = log_event (ReqChange m DEACTIVATE) ?lm"
      using br na d(1) ns
      by (auto simp: both_rounds_def changeStateForAllNodes_def bring_up_order_def
          changeStateForNode_def client_change_state_def split: if_splits)
    then show ?thesis using rs(1) ns d(3) by (simp add: requests_def log_event_def)
  qed
  ultimately show ?thesis using rs b d f(4,8) by auto
qed

text \<open>The planner crashed: its services are gone.\<close>

definition crashed_world :: world where
  "crashed_world = good_world\<lparr>w_change := (\<lambda>_ n _. if n = ''planner'' then NotAvailable else Response True)\<rparr>"

theorem reset_order_witness:
  "\<exists>lm'. reset_nodes crashed_world True sample_manager = Some (True, lm') \<and>
    requests lm' = [(''planner'', DEACTIVATE)]"
proof -
  have "\<exists>lm'. reset_nodes crashed_world True sample_manager = Some (True, lm')"
    by (simp add: reset_nodes_def manager_eval deactivated_def destroyBondTimer_def
        crashed_world_def good_world_def)
  then obtain lm' where r: "reset_nodes crashed_world True sample_manager = Some (True, lm')" by blast
  have n: "[''map'', ''planner''] = lm_node_names sample_manager" "requests sample_manager = []"
    by (simp_all add: manager_eval requests_def)
  show ?thesis
    using reset_order [OF r n(1)] r n(2) by (auto simp: crashed_world_def)
qed

section \<open>No crash before shutdown\<close>

text \<open>
  While the system is active and bonds are in use, every node has its bond; bonds exist only when
  they are in use; and a manager that serves has its clients, until a shutdown destroys them.
\<close>

definition lm_inv :: "lifecycle_manager \<Rightarrow> bool" where
  "lm_inv lm \<longleftrightarrow>
     (lm_system_active lm \<longrightarrow> 0 < lm_bond_timeout lm \<longrightarrow> set (lm_node_names lm) \<subseteq> lm_bonds lm) \<and>
     (lm_bonds lm \<noteq> {} \<longrightarrow> 0 < lm_bond_timeout lm)"

definition has_clients :: "lifecycle_manager \<Rightarrow> bool" where
  "has_clients lm \<longleftrightarrow> set (lm_node_names lm) \<subseteq> lm_clients lm"

lemma lm_inv_both_rounds:
  assumes "both_rounds W t t' hard lm = Some (b, lm')" "lm_inv lm"
    and "lm_system_active lm \<Longrightarrow> t \<noteq> DEACTIVATE \<and> t' \<noteq> DEACTIVATE"
  shows "lm_inv lm'"
proof -
  note f = only_bonds_fields [OF both_rounds_bonds(1) [OF assms(1)]]
  show ?thesis
    using both_rounds_bonds(2,3) [OF assms(1)] assms(2,3) f(1,3,8) by (auto simp: lm_inv_def)
qed

lemma lm_inv_round:
  assumes "changeStateForAllNodes W t hard lm = Some (b, lm')" "lm_inv lm"
    and "lm_system_active lm \<Longrightarrow> t \<noteq> DEACTIVATE"
  shows "lm_inv lm'"
proof -
  note f = only_bonds_fields [OF changeStateForAllNodes_result(1) [OF assms(1)]]
  show ?thesis
    using changeStateForAllNodes_result(3,4) [OF assms(1)] assms(2,3) f(1,3,8) by (auto simp: lm_inv_def)
qed

lemma lm_inv_deactivated: "lm_inv lm \<Longrightarrow> lm_inv (deactivated lm) \<and> \<not> lm_system_active (deactivated lm)"
  by (simp add: lm_inv_def deactivated_def destroyBondTimer_def)

lemma lm_inv_frame:
  "lm_node_names lm' = lm_node_names lm \<Longrightarrow> lm_bonds lm' = lm_bonds lm \<Longrightarrow>
   lm_bond_timeout lm' = lm_bond_timeout lm \<Longrightarrow> lm_system_active lm' = lm_system_active lm \<Longrightarrow>
   lm_inv lm' = lm_inv lm"
  by (simp add: lm_inv_def)

lemma lm_inv_activated:
  assumes "round_done W ACTIVATE (lm_node_names lm) lm" "lm_inv lm"
  shows "lm_inv (createBondTimer (lm\<lparr>lm_system_active := True\<rparr>))"
  using assms by (auto simp: lm_inv_def createBondTimer_def round_done_def)

lemma startup_inv:
  assumes "startup W lm = Some (b, lm')" "lm_inv lm"
  shows "lm_inv lm'"
proof -
  obtain lm1 where br: "both_rounds W CONFIGURE ACTIVATE False lm = Some (b, lm1)"
    and lm': "lm' = (if b then createBondTimer (lm1\<lparr>lm_system_active := True\<rparr>) else lm1)"
    using assms(1) by (auto simp: startup_def split: bind_splits if_splits)
  have "lm_inv lm1" by (rule lm_inv_both_rounds [OF br assms(2)]) simp_all
  moreover have "round_done W ACTIVATE (lm_node_names lm1) lm1" if b
    using both_rounds_requests [OF br refl] only_bonds_fields(1) [OF both_rounds_bonds(1) [OF br]] that
    by auto
  ultimately show ?thesis using lm' lm_inv_activated by auto
qed

lemma resume_inv:
  assumes "resume W lm = Some (b, lm')" "lm_inv lm"
  shows "lm_inv lm'"
proof -
  obtain lm1 where r: "changeStateForAllNodes W ACTIVATE False lm = Some (b, lm1)"
    and lm': "lm' = (if b then createBondTimer (lm1\<lparr>lm_system_active := True\<rparr>) else lm1)"
    using assms(1) by (auto simp: resume_def split: bind_splits if_splits)
  have "lm_inv lm1" by (rule lm_inv_round [OF r assms(2)]) simp
  moreover have "round_done W ACTIVATE (lm_node_names lm1) lm1" if b
    using changeStateForAllNodes_result(5) [OF r]
      only_bonds_fields(1) [OF changeStateForAllNodes_result(1) [OF r]] that by auto
  ultimately show ?thesis using lm' lm_inv_activated by auto
qed

lemma reset_inv:
  assumes "reset_nodes W hard lm = Some (b, lm')" "lm_inv lm"
  shows "lm_inv lm' \<and> \<not> lm_system_active lm' \<and> lm_node_names lm' = lm_node_names lm \<and>
    lm_clients lm' = lm_clients lm \<and> lm_bond_timeout lm' = lm_bond_timeout lm \<and> lm_serving lm' = lm_serving lm"
proof -
  obtain c where br: "both_rounds W DEACTIVATE CLEANUP hard (deactivated lm) = Some (c, lm')"
    using assms(1) by (auto simp: reset_nodes_def split: bind_splits)
  note d = lm_inv_deactivated [OF assms(2)]
  have "lm_inv lm'" by (rule lm_inv_both_rounds [OF br]) (use d in auto)
  then show ?thesis
    using only_bonds_fields [OF both_rounds_bonds(1) [OF br]] d
    by (simp add: deactivated_def destroyBondTimer_def)
qed

lemma shutdown_inv:
  assumes "shutdown W lm = Some (b, lm')" "lm_inv lm"
  shows "lm_inv lm' \<and> lm_clients lm' = {} \<and> lm_node_names lm' = lm_node_names lm"
proof -
  obtain b1 lm1 b2 lm2 b3 lm3 where
    r: "changeStateForAllNodes W DEACTIVATE False (deactivated lm) = Some (b1, lm1)"
      "changeStateForAllNodes W CLEANUP False lm1 = Some (b2, lm2)"
      "changeStateForAllNodes W UNCONFIGURED_SHUTDOWN False lm2 = Some (b3, lm3)"
    and lm': "lm' = destroyLifecycleServiceClients lm3"
    using assms(1) by (auto simp: shutdown_def shutdownAllNodes_def split: bind_splits)
  note d = lm_inv_deactivated [OF assms(2)]
  note o = changeStateForAllNodes_result(1) [OF r(1)] changeStateForAllNodes_result(1) [OF r(2)]
    changeStateForAllNodes_result(1) [OF r(3)]
  have "lm_inv lm1" by (rule lm_inv_round [OF r(1)]) (use d in auto)
  then have "lm_inv lm2" by (rule lm_inv_round [OF r(2)]) simp
  then have "lm_inv lm3" by (rule lm_inv_round [OF r(3)]) simp
  then show ?thesis
    using only_bonds_fields(1) [OF o(1)] only_bonds_fields(1) [OF o(2)] only_bonds_fields(1) [OF o(3)]
    by (simp add: lm' lm_inv_def destroyLifecycleServiceClients_def deactivated_def destroyBondTimer_def)
qed

lemma pause_inv:
  assumes "pause W lm = Some (b, lm')" "lm_inv lm"
  shows "lm_inv lm'"
  using lm_inv_round [OF assms(1) [unfolded pause_def]] lm_inv_deactivated [OF assms(2)] by simp

lemma check_bonds_inv:
  assumes "check_bonds W ns lm = Some lm'" "lm_inv lm"
  shows "lm_inv lm'"
  using assms
proof (induction ns arbitrary: lm)
  case Nil
  then show ?case by simp
next
  case (Cons n ns)
  let ?lm1 = "log_event AskOk lm" and ?lm2 = "log_event (AskBroken n) (log_event AskOk lm)"
  have i: "lm_inv ?lm1" "lm_inv ?lm2"
    using Cons.prems(2) by (simp_all add: lm_inv_def log_event_def)
  show ?case
  proof (cases "w_ok W (lm_hist lm) \<and> n \<in> lm_bonds ?lm1 \<and> w_broken W (lm_hist ?lm1) n")
    case True
    then obtain b lm3 where r: "reset_nodes W True ?lm2 = Some (b, lm3)"
      and "lm_node_names lm' = lm_node_names lm3" "lm_bonds lm' = {}"
        "lm_system_active lm' = lm_system_active lm3"
      using Cons.prems(1) by (auto simp: Let_def split: bind_splits if_splits)
    then show ?thesis using reset_inv [OF r i(2)] by (simp add: lm_inv_def)
  next
    case False
    then have "lm' = ?lm1 \<or> check_bonds W ns ?lm2 = Some lm'"
      using Cons.prems(1) by (auto simp: Let_def split: if_splits)
    then show ?thesis using Cons.IH [OF _ i(2)] i(1) by auto
  qed
qed

lemma count_live_frame:
  assumes "count_live W ns k lm = Some (r, lm')"
  shows "\<exists>h. lm' = lm\<lparr>lm_hist := h\<rparr>"
  using assms
proof (induction ns arbitrary: k lm)
  case Nil
  then show ?case by (intro exI [of _ "lm_hist lm"]) simp
next
  case (Cons n ns)
  show ?case
  proof (cases "w_ok W (lm_hist lm) \<and> n \<in> lm_clients lm")
    case False
    then show ?thesis using Cons.prems by (auto simp: Let_def log_event_def split: if_splits)
  next
    case True
    obtain c lm2 where c: "client_get_state W (log_event AskOk lm) n = (c, lm2)"
      by (cases "client_get_state W (log_event AskOk lm) n")
    then obtain h where h: "lm2 = lm\<lparr>lm_hist := h\<rparr>"
      by (auto simp: client_get_state_def log_event_def)
    show ?thesis
    proof (cases c)
      case (Ret st)
      then have "count_live W ns (k + 1) lm2 = Some (r, lm')"
        using Cons.prems True c by (simp add: Let_def log_event_def)
      from Cons.IH [OF this] show ?thesis using h by auto
    next
      case Throws
      then have "lm' = lm2" using Cons.prems True c by (simp add: Let_def log_event_def)
      then show ?thesis using h by auto
    qed
  qed
qed

lemma respawn_begin_frame: "\<exists>t h. respawn_begin W lm = lm\<lparr>lm_respawn_start := t, lm_hist := h\<rparr>"
proof (cases "lm_respawn_start lm = 0")
  case True
  then show ?thesis
    by (intro exI [of _ "w_now W (lm_hist lm)"] exI [of _ "lm_hist lm @ [AskNow]"])
      (simp add: respawn_begin_def log_event_def)
next
  case False
  then show ?thesis
    by (intro exI [of _ "lm_respawn_start lm"] exI [of _ "lm_hist lm"]) (simp add: respawn_begin_def)
qed

text \<open>A respawn check either runs \<open>startup\<close> or changes only its own timer and the log.\<close>

lemma respawn_result:
  assumes "checkBondRespawnConnection W lm = Some lm'"
  shows "\<exists>t tm h. (let lm1 = lm\<lparr>lm_respawn_start := t, lm_respawn_timer := tm, lm_hist := h\<rparr> in
    lm' = lm1 \<or> (\<exists>b. startup W lm1 = Some (b, lm')))"
proof -
  obtain t h where lm1: "respawn_begin W lm = lm\<lparr>lm_respawn_start := t, lm_hist := h\<rparr>"
    using respawn_begin_frame by blast
  let ?lm1 = "respawn_begin W lm"
  let ?lm2 = "log_event AskOk ?lm1"
  have shape: "\<exists>t tm h. lm\<lparr>lm_respawn_start := t', lm_hist := h'\<rparr> =
      lm\<lparr>lm_respawn_start := t, lm_respawn_timer := tm, lm_hist := h\<rparr>"
    "stop_respawn (lm\<lparr>lm_respawn_start := t', lm_hist := h'\<rparr>) =
      lm\<lparr>lm_respawn_start := 0, lm_respawn_timer := False, lm_hist := h'\<rparr>" for t' h'
    by (intro exI [of _ t'] exI [of _ "lm_respawn_timer lm"] exI [of _ h'])
      (simp_all add: stop_respawn_def)
  show ?thesis
  proof (cases "lm_system_active ?lm1 \<or> \<not> w_ok W (lm_hist ?lm1) \<or> lm_node_names ?lm2 = []")
    case True
    then have "\<exists>h. lm' = lm\<lparr>lm_respawn_start := 0, lm_respawn_timer := False, lm_hist := h\<rparr>"
      using assms lm1 shape(2)
      by (auto simp: checkBondRespawnConnection_def Let_def log_event_def split: if_splits)
    then show ?thesis by (auto simp: Let_def)
  next
    case False
    then obtain live lm3 where c: "count_live W (lm_node_names ?lm2) 0 ?lm2 = Some (live, lm3)"
      and r: "(case live of None \<Rightarrow> Some lm3
        | Some live_servers \<Rightarrow>
            if live_servers = length (lm_node_names lm3) then map_option snd (startup W (stop_respawn lm3))
            else let lm4 = log_event AskNow lm3 in
              Some (if lm_respawn_max lm4 \<le> w_now W (lm_hist lm3) - lm_respawn_start lm4
                then stop_respawn lm4 else lm4)) = Some lm'"
      using assms by (auto simp: checkBondRespawnConnection_def Let_def split: bind_splits)
    obtain k where lm3: "lm3 = lm\<lparr>lm_respawn_start := t, lm_hist := k\<rparr>"
      using count_live_frame [OF c] lm1 by (auto simp: log_event_def)
    consider "live = None" "lm' = lm3" | b where "startup W (stop_respawn lm3) = Some (b, lm')"
      | "lm' = log_event AskNow lm3" | "lm' = stop_respawn (log_event AskNow lm3)"
      using r by (auto simp: Let_def split: option.splits if_splits)
    then show ?thesis
    proof cases
      case 1
      then show ?thesis using shape(1) [where t' = t and h' = k] lm3 by (auto simp: Let_def)
    next
      case 2
      then show ?thesis unfolding lm3 shape(2) by (auto simp: Let_def)
    next
      case 3
      then have "lm' = lm\<lparr>lm_respawn_start := t, lm_hist := k @ [AskNow]\<rparr>"
        by (simp add: lm3 log_event_def)
      then show ?thesis using shape(1) [where t' = t and h' = "k @ [AskNow]"] by (auto simp: Let_def)
    next
      case 4
      then have "lm' = lm\<lparr>lm_respawn_start := 0, lm_respawn_timer := False, lm_hist := k @ [AskNow]\<rparr>"
        using shape(2) [where t' = t and h' = "k @ [AskNow]"] by (simp add: lm3 log_event_def)
      then show ?thesis by (auto simp: Let_def)
    qed
  qed
qed

lemma respawn_inv:
  assumes "checkBondRespawnConnection W lm = Some lm'" "lm_inv lm"
  shows "lm_inv lm'"
proof -
  obtain t tm h where "lm' = lm\<lparr>lm_respawn_start := t, lm_respawn_timer := tm, lm_hist := h\<rparr> \<or>
      (\<exists>b. startup W (lm\<lparr>lm_respawn_start := t, lm_respawn_timer := tm, lm_hist := h\<rparr>) = Some (b, lm'))"
    using respawn_result [OF assms(1)] by (auto simp: Let_def)
  moreover have "lm_inv (lm\<lparr>lm_respawn_start := t, lm_respawn_timer := tm, lm_hist := h\<rparr>)"
    using assms(2) by (simp add: lm_inv_def)
  ultimately show ?thesis using startup_inv by blast
qed

lemma command_inv: "managerCallback W c lm = Some (b, lm') \<Longrightarrow> lm_inv lm \<Longrightarrow> lm_inv lm'"
  by (cases c) (simp_all add: startup_inv reset_inv shutdown_inv pause_inv resume_inv)

lemma lm_step_inv:
  assumes "lm_step W lm (Some lm')" "lm_inv lm"
  shows "lm_inv lm'"
  using assms
proof (cases rule: lm_step.cases)
  case init
  then show ?thesis using assms(2)
    by (simp add: lm_inv_def init_callback_def createLifecycleServiceClients_def)
next
  case autostart
  then have "map_option snd (startup W (lm\<lparr>lm_init_timer := Cancelled\<rparr>)) = Some lm'"
    by (simp only: autostart_callback_def)
  then obtain b where b: "startup W (lm\<lparr>lm_init_timer := Cancelled\<rparr>) = Some (b, lm')"
    by (auto simp: map_option_eq_Some)
  have "lm_inv (lm\<lparr>lm_init_timer := Cancelled\<rparr>)" using assms(2) by (simp add: lm_inv_def)
  then show ?thesis using startup_inv [OF b] by blast
next
  case (service c)
  from service(1) [symmetric] obtain b where "managerCallback W c lm = Some (b, lm')"
    by (auto simp: map_option_eq_Some)
  then show ?thesis using assms(2) command_inv by blast
next
  case bond_timer
  from bond_timer(1) [symmetric] have "lm' = lm \<or> lm' = log_event AskOk lm \<or>
      check_bonds W (lm_node_names lm) (log_event AskOk lm) = Some lm'"
    by (auto simp: checkBondConnections_def Let_def log_event_def split: if_splits)
  moreover have "lm_inv (log_event AskOk lm)" using assms(2) by (simp add: lm_inv_def log_event_def)
  ultimately show ?thesis using assms(2) check_bonds_inv by auto
next
  case respawn_timer
  show ?thesis by (rule respawn_inv [OF respawn_timer(1) [symmetric] assms(2)])
next
  case preshutdown
  then show ?thesis by (simp add: lm_inv_def onRclPreshutdown_def)
qed

lemma lm_reachable_inv: "lm_reachable W lm0 lm \<Longrightarrow> lm_inv lm0 \<Longrightarrow> lm_inv lm"
  by (induction rule: lm_reachable.induct) (auto intro: lm_step_inv)

lemma lm_new_inv: "lm_inv (lifecycle_manager_new names autostart timeout respawn attempt)"
  by (simp add: lm_inv_def lifecycle_manager_new_def)

section \<open>The crash\<close>

lemma has_clients_frame:
  "only_bonds lm lm' \<Longrightarrow> has_clients lm' = has_clients lm"
  by (simp add: has_clients_def only_bonds_fields)

lemma startup_defined: "has_clients lm \<Longrightarrow> \<exists>r. startup W lm = Some r"
  using both_rounds_total [of lm W CONFIGURE ACTIVATE False] by (auto simp: startup_def has_clients_def)

lemma reset_defined: "has_clients lm \<Longrightarrow> \<exists>r. reset_nodes W hard lm = Some r"
  using both_rounds_total [of "deactivated lm" W DEACTIVATE CLEANUP hard]
  by (auto simp: reset_nodes_def has_clients_def deactivated_def destroyBondTimer_def)

lemma round_defined:
  assumes "has_clients lm"
  obtains b lm' where "changeStateForAllNodes W t hard lm = Some (b, lm')" "has_clients lm'"
  using changeStateForAllNodes_total [of lm W t hard] assms changeStateForAllNodes_result(1)
    has_clients_frame by (fastforce simp: has_clients_def)

lemma deactivated_clients [simp]: "has_clients (deactivated lm) = has_clients lm"
  by (simp add: has_clients_def deactivated_def destroyBondTimer_def)

lemma shutdown_defined:
  assumes "has_clients lm"
  shows "shutdown W lm \<noteq> None"
proof -
  obtain b1 lm1 where 1: "changeStateForAllNodes W DEACTIVATE False (deactivated lm) = Some (b1, lm1)"
    "has_clients lm1" using assms by (auto intro: round_defined [of "deactivated lm" W DEACTIVATE False])
  obtain b2 lm2 where 2: "changeStateForAllNodes W CLEANUP False lm1 = Some (b2, lm2)"
    "has_clients lm2" using round_defined [OF 1(2)] .
  obtain b3 lm3 where 3: "changeStateForAllNodes W UNCONFIGURED_SHUTDOWN False lm2 = Some (b3, lm3)"
    "has_clients lm3" using round_defined [OF 2(2)] .
  show ?thesis using 1(1) 2(1) 3(1) by (simp add: shutdown_def shutdownAllNodes_def)
qed

lemma command_defined:
  assumes "has_clients lm"
  shows "managerCallback W c lm \<noteq> None"
proof (cases c)
  case PAUSE
  have "has_clients (deactivated lm)" using assms by simp
  then obtain b lm' where "changeStateForAllNodes W DEACTIVATE False (deactivated lm) = Some (b, lm')"
    by (rule round_defined)
  then show ?thesis using PAUSE by (simp add: pause_def)
next
  case RESUME
  obtain b lm' where "changeStateForAllNodes W ACTIVATE False lm = Some (b, lm')"
    using assms by (rule round_defined)
  then show ?thesis using RESUME by (simp add: resume_def)
qed (use startup_defined [OF assms] reset_defined [OF assms] shutdown_defined [OF assms] in auto)

lemma check_bonds_defined:
  assumes "has_clients lm" "set ns \<subseteq> lm_bonds lm"
  shows "check_bonds W ns lm \<noteq> None"
  using assms
proof (induction ns arbitrary: lm)
  case Nil
  then show ?case by simp
next
  case (Cons n ns)
  let ?lm2 = "log_event (AskBroken n) (log_event AskOk lm)"
  have h: "has_clients ?lm2" "set ns \<subseteq> lm_bonds ?lm2" "n \<in> lm_bonds lm" "lm_bonds (log_event AskOk lm) = lm_bonds lm"
    using Cons.prems by (simp_all add: has_clients_def log_event_def)
  obtain b lm3 where "reset_nodes W True ?lm2 = Some (b, lm3)" using reset_defined [OF h(1)] by fastforce
  then show ?case using Cons.IH [OF h(1,2)] h(3,4) by (auto simp: Let_def)
qed

lemma count_live_defined: "set ns \<subseteq> lm_clients lm \<Longrightarrow> count_live W ns k lm \<noteq> None"
proof (induction ns arbitrary: k lm)
  case Nil
  then show ?case by simp
next
  case (Cons n ns)
  obtain c lm2 where c: "client_get_state W (log_event AskOk lm) n = (c, lm2)"
    by (cases "client_get_state W (log_event AskOk lm) n")
  then have "lm_clients lm2 = lm_clients lm" by (auto simp: client_get_state_def log_event_def)
  then have "count_live W ns (k + 1) lm2 \<noteq> None" using Cons by simp
  then show ?case
    using c Cons.prems by (cases c) (simp_all add: Let_def log_event_def del: not_None_eq)
qed

lemma respawn_defined:
  assumes "has_clients lm"
  shows "checkBondRespawnConnection W lm \<noteq> None"
proof -
  obtain t h where lm1: "respawn_begin W lm = lm\<lparr>lm_respawn_start := t, lm_hist := h\<rparr>"
    using respawn_begin_frame by blast
  let ?lm2 = "log_event AskOk (respawn_begin W lm)"
  have 2: "set (lm_node_names ?lm2) \<subseteq> lm_clients ?lm2"
    using assms lm1 by (simp add: has_clients_def log_event_def)
  obtain live lm3 where c: "count_live W (lm_node_names ?lm2) 0 ?lm2 = Some (live, lm3)"
    using count_live_defined [OF 2] by fastforce
  have "has_clients (stop_respawn lm3)"
    using count_live_frame [OF c] 2 by (auto simp: has_clients_def stop_respawn_def)
  then obtain r where "startup W (stop_respawn lm3) = Some r" using startup_defined by blast
  then show ?thesis
    using c by (auto simp: checkBondRespawnConnection_def Let_def split: option.splits)
qed

lemma bond_timer_defined:
  assumes "has_clients lm" "lm_inv lm"
  shows "checkBondConnections W lm \<noteq> None"
proof (cases "lm_system_active lm \<and> lm_bonds lm \<noteq> {}")
  case True
  then have "set (lm_node_names lm) \<subseteq> lm_bonds (log_event AskOk lm)"
    using assms(2) by (auto simp: lm_inv_def log_event_def)
  moreover have "has_clients (log_event AskOk lm)" using assms(1) by (simp add: has_clients_def log_event_def)
  ultimately have "check_bonds W (lm_node_names lm) (log_event AskOk lm) \<noteq> None"
    using check_bonds_defined by blast
  then show ?thesis by (auto simp: checkBondConnections_def Let_def log_event_def)
next
  case False
  then show ?thesis by (auto simp: checkBondConnections_def Let_def log_event_def)
qed

lemma lm_step_defined:
  assumes "lm_step W lm r" "lm_inv lm" "has_clients lm"
  shows "r \<noteq> None"
  using assms(1)
proof (cases rule: lm_step.cases)
  case autostart
  have "has_clients (lm\<lparr>lm_init_timer := Cancelled\<rparr>)" using assms(3) by (simp add: has_clients_def)
  then show ?thesis using startup_defined autostart(1) by (fastforce simp: autostart_callback_def)
next
  case (service c)
  then show ?thesis using command_defined [OF assms(3), of W c] by auto
next
  case bond_timer
  then show ?thesis using bond_timer_defined [OF assms(3,2)] by simp
next
  case respawn_timer
  then show ?thesis using respawn_defined [OF assms(3)] by simp
qed auto

text \<open>C5. Whatever the nodes, the bonds and the clock answer, from construction on: while the system
  is active and bonds are in use every node has a bond, so no timer or service callback of a manager
  that has its clients dereferences a null pointer; a crash needs a manager that serves after its
  clients were destroyed.\<close>

theorem manager_no_crash:
  assumes "lm_reachable W (lifecycle_manager_new names autostart timeout respawn attempt) lm"
  shows "(lm_system_active lm \<longrightarrow> 0 < lm_bond_timeout lm \<longrightarrow> set (lm_node_names lm) \<subseteq> lm_bonds lm) \<and>
    (lm_step W lm None \<longrightarrow> lm_serving lm \<and> \<not> set (lm_node_names lm) \<subseteq> lm_clients lm)"
proof -
  have i: "lm_inv lm" using lm_reachable_inv [OF assms] lm_new_inv by blast
  have "lm_serving lm" if "lm_step W lm None" using that by (cases rule: lm_step.cases) auto
  then show ?thesis using i lm_step_defined [OF _ i] by (auto simp: lm_inv_def has_clients_def)
qed

lemma sample_manager_reachable:
  "lm_reachable W (lifecycle_manager_new [''map'', ''planner''] False 4000 10 True) sample_manager"
  unfolding sample_manager_def
  by (rule lm_reachable.step [OF lm_reachable.start], rule lm_step.init) (simp add: lifecycle_manager_new_def)

theorem manager_no_crash_witness:
  "\<not> lm_step crashed_world sample_manager None"
  using manager_no_crash [OF sample_manager_reachable, of crashed_world] by (auto simp: manager_eval)

text \<open>After a shutdown the manager still serves, but its clients are gone: bringing the nodes up
  again, pausing, resuming, resetting or shutting down once more dereferences a null client.\<close>

theorem command_after_shutdown_crashes:
  assumes "shutdown W lm = Some (b, lm')" "lm_node_names lm \<noteq> []" "lm_inv lm"
  shows "b \<and> managerCallback W c lm' = None"
proof -
  have lm': "lm_clients lm' = {}" "lm_node_names lm' \<noteq> []"
    using shutdown_inv [OF assms(1,3)] assms(2) by simp_all
  have crash: "changeStateForAllNodes W t hard l = None"
    if none: "lm_clients l = {}" and names: "lm_node_names l = lm_node_names lm'" for t hard l
  proof -
    obtain n ns where "bring_up_order t (lm_node_names l) = n # ns"
      using lm'(2) names by (cases "bring_up_order t (lm_node_names l)") (auto simp: bring_up_order_def split: if_splits)
    then show ?thesis using none by (simp add: changeStateForAllNodes_def changeStateForNode_def)
  qed
  have d: "changeStateForAllNodes W t hard (deactivated lm') = None" for t hard
    using crash [of "deactivated lm'"] lm'(1) by (simp add: deactivated_def destroyBondTimer_def)
  have "managerCallback W c lm' = None"
    using crash [OF lm'(1) refl] d
    by (cases c) (simp_all add: startup_def reset_nodes_def shutdown_def shutdownAllNodes_def pause_def
        resume_def both_rounds_def)
  moreover have b using assms(1) by (auto simp: shutdown_def split: bind_splits)
  ultimately show ?thesis by simp
qed

theorem command_after_shutdown_crashes_witness:
  "\<exists>lm'. shutdown good_world sample_manager = Some (True, lm') \<and> startup good_world lm' = None"
proof -
  have inv: "lm_inv sample_manager" by (rule lm_reachable_inv [OF sample_manager_reachable lm_new_inv])
  have "has_clients sample_manager" by (simp add: has_clients_def manager_eval)
  then obtain b lm' where r: "shutdown good_world sample_manager = Some (b, lm')"
    using shutdown_defined [of sample_manager good_world] by fastforce
  have "lm_node_names sample_manager \<noteq> []" by (simp add: manager_eval)
  from command_after_shutdown_crashes [OF r this inv, of STARTUP] show ?thesis using r by auto
qed

end
