(* ===== verification/Label_Trees.thy ===== *)
theory Label_Trees
  imports Nav_Prelude
begin

text \<open>
  \<open>EquivalenceLabelTrees\<close> of the denoise layer's image processing: the union-find forest over
  provisional labels, its flattening into a table of final labels, and the interface the labelling
  algorithm relies on. Labels are naturals; every label is below \<open>labels_size_\<close>, which is at most the
  largest value of the label type, so no label arithmetic wraps. That largest value is an argument.
\<close>

section \<open>State and operations\<close>

datatype connectivity = Way4 | Way8

record label_trees =
  lt_labels :: "nat list"
  lt_size :: nat
  lt_next :: nat

datatype label_error = LabelOverflow

definition maxLabels :: "nat \<Rightarrow> nat \<Rightarrow> nat \<Rightarrow> connectivity \<Rightarrow> nat" where
  "maxLabels label_max rows columns conn =
     (let max_labels = (case conn of Way4 \<Rightarrow> rows * columns div 2 + 1 | Way8 \<Rightarrow> rows * columns div 3 + 1)
      in min (max_labels + 1) label_max)"

definition lt_reset :: "nat \<Rightarrow> nat \<Rightarrow> nat \<Rightarrow> connectivity \<Rightarrow> label_trees" where
  "lt_reset label_max rows columns conn =
     \<lparr>lt_labels = [0], lt_size = min (maxLabels label_max rows columns conn) label_max, lt_next = 1\<rparr>"

definition makeLabel :: "label_trees \<Rightarrow> label_error + nat \<times> label_trees" where
  "makeLabel t =
     (if lt_next t = lt_size t then Inl LabelOverflow
      else Inr (lt_next t, t\<lparr>lt_labels := lt_labels t @ [lt_next t], lt_next := Suc (lt_next t)\<rparr>))"

function findRoot :: "nat list \<Rightarrow> nat \<Rightarrow> nat option" where
  "findRoot labels r0 =
     (case load labels r0 of
        None \<Rightarrow> None
      | Some p \<Rightarrow> if p < r0 then findRoot labels p else Some r0)"
  by pat_completeness auto
termination by (relation "measure snd") auto

function setRoot :: "nat \<Rightarrow> nat \<Rightarrow> nat list \<Rightarrow> nat list option" where
  "setRoot i r0 labels =
     (case load labels i of
        None \<Rightarrow> None
      | Some j \<Rightarrow> if j < i then setRoot j r0 (labels[i := r0]) else Some (labels[i := r0]))"
  by pat_completeness auto
termination by (relation "measure fst") auto

declare findRoot.simps [simp del] setRoot.simps [simp del]

definition unionTrees :: "nat \<Rightarrow> nat \<Rightarrow> label_trees \<Rightarrow> (nat \<times> label_trees) option" where
  "unionTrees i j t = do {
     root_i \<leftarrow> findRoot (lt_labels t) i;
     (r0, labels) \<leftarrow> (if i \<noteq> j then do {
         root_j \<leftarrow> findRoot (lt_labels t) j;
         labels' \<leftarrow> setRoot j (min root_i root_j) (lt_labels t);
         Some (min root_i root_j, labels')
       } else Some (root_i, lt_labels t));
     labels'' \<leftarrow> setRoot i r0 labels;
     Some (r0, t\<lparr>lt_labels := labels''\<rparr>)
   }"

text \<open>One round of the loop of \<open>getLabels\<close>; the state is the array and \<open>k\<close>.\<close>

definition flatten_label :: "nat \<Rightarrow> nat list \<times> nat \<Rightarrow> (nat list \<times> nat) option" where
  "flatten_label i s = do {
     let (labels, k) = s;
     p \<leftarrow> load labels i;
     if p < i then do { l \<leftarrow> load labels p; Some (labels[i := l], k) }
     else Some (labels[i := k], Suc k)
   }"

definition flatten_labels :: "label_trees \<Rightarrow> (nat list \<times> nat) option" where
  "flatten_labels t = foldM flatten_label [1..<lt_next t] (lt_labels t, 1)"

text \<open>
  The lookup table and its size \<open>k\<close>: \<open>resize(k)\<close> drops the entries from \<open>k\<close> on, and reading one of them afterwards is
  outside the vector.
\<close>

definition getLabels :: "label_trees \<Rightarrow> (nat list \<times> nat) option" where
  "getLabels t = map_option (\<lambda>(labels, k). (take k labels, k)) (flatten_labels t)"

section \<open>Roots\<close>

function rep :: "nat list \<Rightarrow> nat \<Rightarrow> nat" where
  "rep l i = (if l ! i < i then rep l (l ! i) else i)"
  by pat_completeness auto
termination by (relation "measure snd") auto

declare rep.simps [simp del]

definition forest :: "nat list \<Rightarrow> bool" where
  "forest l \<longleftrightarrow> 0 < length l \<and> (\<forall>k < length l. l ! k \<le> k \<and> (0 < k \<longrightarrow> 0 < l ! k))"

lemma forest_le: "forest l \<Longrightarrow> k < length l \<Longrightarrow> l ! k \<le> k"
  by (simp add: forest_def)

lemma rep_le: "rep l i \<le> i"
  by (induction l i rule: rep.induct) (subst rep.simps, fastforce)

lemma rep_root: "\<not> l ! rep l i < rep l i"
  by (induction l i rule: rep.induct) (subst (1 2) rep.simps, simp)

lemma rep_rep [simp]: "rep l (rep l i) = rep l i"
  using rep_root [of l i] by (simp add: rep.simps [of l "rep l i"])

lemma rep_pos: "forest l \<Longrightarrow> 0 < i \<Longrightarrow> i < length l \<Longrightarrow> 0 < rep l i"
proof (induction l i rule: rep.induct)
  case (1 l i)
  then show ?case by (subst rep.simps) (auto simp: forest_def)
qed

lemma findRoot_rep: "i < length l \<Longrightarrow> findRoot l i = Some (rep l i)"
proof (induction l i rule: rep.induct)
  case (1 l i)
  then show ?case by (subst findRoot.simps, subst rep.simps) (simp add: load_def)
qed

lemma rep_le_parent: "l ! i < i \<Longrightarrow> rep l i \<le> l ! i"
  using rep_le [of l "l ! i"] by (simp add: rep.simps [of l i])

text \<open>Redirecting a node to a root not above it moves the nodes below it.\<close>

lemma rep_update:
  assumes "i < length l" "r0 \<le> rep l i" "rep l r0 = r0" "l' = l[i := r0]" "\<forall>k < length l. l ! k \<le> k"
  shows "k < length l \<Longrightarrow> rep l' k = rep l k \<or> rep l k = rep l i \<and> rep l' k = r0"
proof (induction k rule: less_induct)
  case (less k)
  have ri: "rep l i \<le> i" by (rule rep_le)
  have rt: "rep l' r0 = r0"
  proof (cases "r0 = i")
    case True
    then show ?thesis using assms(1,4) by (subst rep.simps) simp
  next
    case False
    then have "l' ! r0 = l ! r0" using assms(4) by simp
    moreover have "\<not> l ! r0 < r0" using rep_root [of l r0] assms(3) by simp
    ultimately show ?thesis by (simp add: rep.simps [of l' r0])
  qed
  show ?case
  proof (cases "k = i")
    case True
    then have "l' ! k = r0" using assms(1,4) by simp
    moreover have "r0 \<le> k" using True assms(2) ri by simp
    ultimately have "rep l' k = r0" using rt by (cases "r0 = k") (simp_all add: rep.simps [of l' k])
    then show ?thesis using True by simp
  next
    case False
    then have same: "l' ! k = l ! k" using assms(4) by simp
    show ?thesis
    proof (cases "l ! k < k")
      case True
      then have e: "rep l' k = rep l' (l ! k)" "rep l k = rep l (l ! k)"
        using same by (simp_all add: rep.simps [of l' k] rep.simps [of l k])
      have "l ! k < length l" using True less.prems by simp
      then show ?thesis using less.IH [OF True] e by simp
    next
      case no: False
      then show ?thesis using same by (simp add: rep.simps [of l' k] rep.simps [of l k])
    qed
  qed
qed

lemma rep_below: "k < i \<Longrightarrow> rep (l[i := r0]) k = rep l k"
proof (induction k rule: less_induct)
  case (less k)
  then show ?case by (cases "l ! k < k") (simp_all add: rep.simps [of _ k])
qed

lemma setRoot_rep:
  assumes "forest l" "i < length l" "r0 \<le> rep l i" "rep l r0 = r0" "0 < r0 \<or> i = 0"
  shows "\<exists>l'. setRoot i r0 l = Some l' \<and> length l' = length l \<and> forest l' \<and> rep l' r0 = r0 \<and>
    (\<forall>k < length l. rep l' k = (if rep l k = rep l i then r0 else rep l k))"
  using assms
proof (induction i arbitrary: l rule: less_induct)
  case (less i)
  let ?l = "l[i := r0]"
  have le: "\<forall>k < length l. l ! k \<le> k" using less.prems(1) by (simp add: forest_def)
  have ri: "r0 \<le> i" using less.prems(3) rep_le [of l i] by simp
  note up = rep_update [OF less.prems(2,3,4) refl le]
  have f: "forest ?l"
    using less.prems(1,2,5) ri by (auto simp: forest_def nth_list_update)
  have rt: "rep ?l r0 = r0"
    using up [of r0] ri less.prems(2,4) by auto
  show ?case
  proof (cases "l ! i < i")
    case False
    then have e: "rep l i = i" by (simp add: rep.simps [of l i])
    have ii: "rep ?l i = r0"
      using less.prems(2) ri rt by (cases "r0 = i") (simp_all add: rep.simps [of ?l i])
    have "rep ?l k = (if rep l k = rep l i then r0 else rep l k)" if k: "k < length l" for k
      using k
    proof (induction k rule: less_induct)
      case (less k)
      show ?case
      proof (cases "k = i")
        case True
        then show ?thesis using ii by simp
      next
        case ki: False
        then have same: "?l ! k = l ! k" by simp
        show ?thesis
        proof (cases "l ! k < k")
          case True
          then have e2: "rep ?l k = rep ?l (l ! k)" "rep l k = rep l (l ! k)"
            using same by (simp_all add: rep.simps [of ?l k] rep.simps [of l k])
          have "l ! k < length l" using True less.prems by simp
          then show ?thesis using less.IH [OF True] e2 by simp
        next
          case no: False
          then show ?thesis using same e ki by (simp add: rep.simps [of ?l k] rep.simps [of l k])
        qed
      qed
    qed
    moreover have "setRoot i r0 l = Some ?l"
      using False less.prems(2) by (subst setRoot.simps) (simp add: load_def)
    ultimately show ?thesis using f rt by auto
  next
    case True
    let ?j = "l ! i"
    have ji: "?j < length l" using True less.prems(2) by simp
    have ej: "rep l i = rep l ?j" using True by (simp add: rep.simps [of l i])
    have rj: "rep ?l ?j = rep l ?j" using rep_below [OF True] .
    have "r0 \<le> rep ?l ?j" using rj less.prems(3) ej by auto
    moreover have "0 < r0 \<or> ?j = 0"
      using less.prems(1,2,5) True by (auto simp: forest_def)
    ultimately obtain l' where l': "setRoot ?j r0 ?l = Some l'" "length l' = length l" "forest l'" "rep l' r0 = r0"
      "\<forall>k < length l. rep l' k = (if rep ?l k = rep ?l ?j then r0 else rep ?l k)"
      using less.IH [OF True f] ji rt by auto
    have "rep l' k = (if rep l k = rep l i then r0 else rep l k)" if k: "k < length l" for k
      using l'(5) k up [OF k] rj ej by (auto split: if_splits)
    moreover have "setRoot i r0 l = Some l'"
      using True less.prems(2) l'(1) by (subst setRoot.simps) (simp add: load_def)
    ultimately show ?thesis using l' by auto
  qed
qed

section \<open>The interface of the labelling algorithm\<close>

definition lt_ok :: "label_trees \<Rightarrow> bool" where
  "lt_ok t \<longleftrightarrow> forest (lt_labels t) \<and> length (lt_labels t) = lt_next t"

text \<open>The labels in use, and the class of a label.\<close>

definition lt_used :: "label_trees \<Rightarrow> nat set" where
  "lt_used t = {1..<lt_next t}"

definition lt_class :: "label_trees \<Rightarrow> nat \<Rightarrow> nat" where
  "lt_class t l = rep (lt_labels t) l"

text \<open>
  What labelling relies on: a new label is not in use, is a class of its own and leaves the other
  classes alone, or none is left; a union returns the class of its arguments' union, which holds both.
\<close>

locale label_store =
  fixes ok :: "'t \<Rightarrow> bool"
    and used :: "'t \<Rightarrow> nat set"
    and class_of :: "'t \<Rightarrow> nat \<Rightarrow> nat"
    and make :: "'t \<Rightarrow> label_error + nat \<times> 't"
    and unite :: "nat \<Rightarrow> nat \<Rightarrow> 't \<Rightarrow> (nat \<times> 't) option"
  assumes make_law: "ok t \<Longrightarrow> make t = Inr (l, t') \<Longrightarrow>
      ok t' \<and> l \<noteq> 0 \<and> l \<notin> used t \<and> used t' = insert l (used t) \<and> (\<forall>k \<in> used t. class_of t' k = class_of t k) \<and>
      class_of t' l = l \<and> l \<notin> class_of t ` used t"
    and unite_law: "ok t \<Longrightarrow> i \<in> used t \<Longrightarrow> j \<in> used t \<Longrightarrow>
      \<exists>r t'. unite i j t = Some (r, t') \<and> ok t' \<and> used t' = used t \<and> r \<in> used t \<and>
        (r = class_of t i \<or> r = class_of t j) \<and> class_of t' r = r \<and>
        (\<forall>k \<in> used t. class_of t' k = (if class_of t k = class_of t i \<or> class_of t k = class_of t j then r
                                          else class_of t k))"
    and used_pos: "ok t \<Longrightarrow> 0 \<notin> used t"

lemma makeLabel_ok:
  assumes "lt_ok t" "makeLabel t = Inr (l, t')"
  shows "lt_ok t' \<and> l = lt_next t \<and> lt_next t' = Suc l \<and> lt_size t' = lt_size t \<and> 0 < l \<and>
    lt_class t' l = l \<and> (\<forall>k < l. lt_class t' k = lt_class t k)"
proof -
  have t': "l = lt_next t" "t' = t\<lparr>lt_labels := lt_labels t @ [l], lt_next := Suc l\<rparr>"
    using assms(2) by (auto simp: makeLabel_def split: if_splits)
  have "length (lt_labels t) = lt_next t" and f: "forest (lt_labels t)"
    using assms(1) by (simp_all add: lt_ok_def)
  then have len: "length (lt_labels t) = l" "forest (lt_labels t)" "0 < l"
    using t'(1) by (auto simp: forest_def)
  have "forest (lt_labels t @ [l])" using len by (auto simp: forest_def nth_append less_Suc_eq)
  moreover have "rep (lt_labels t @ [l]) l = l" using len(1) by (subst rep.simps) (simp add: nth_append)
  moreover have "rep (lt_labels t @ [l]) k = rep (lt_labels t) k" if "k < l" for k
    using that
  proof (induction k rule: less_induct)
    case (less k)
    then have "(lt_labels t @ [l]) ! k = lt_labels t ! k" using len(1) by (simp add: nth_append)
    then show ?case using less by (cases "lt_labels t ! k < k") (simp_all add: rep.simps [of _ k])
  qed
  ultimately show ?thesis using len t' by (auto simp: lt_ok_def lt_class_def)
qed

lemma unionTrees_ok:
  assumes "lt_ok t" "i \<in> lt_used t" "j \<in> lt_used t"
  shows "\<exists>r t'. unionTrees i j t = Some (r, t') \<and> lt_ok t' \<and> lt_next t' = lt_next t \<and> lt_size t' = lt_size t \<and>
    r \<in> lt_used t \<and> r = min (lt_class t i) (lt_class t j) \<and> lt_class t' r = r \<and>
    (\<forall>k \<in> lt_used t. lt_class t' k = (if lt_class t k = lt_class t i \<or> lt_class t k = lt_class t j then r
                                         else lt_class t k))"
proof -
  let ?l = "lt_labels t"
  define r where "r = min (rep ?l i) (rep ?l j)"
  have f: "forest ?l" "length ?l = lt_next t" using assms(1) by (simp_all add: lt_ok_def)
  have ij: "i < length ?l" "j < length ?l" "0 < i" "0 < j" using assms(2,3) f(2) by (auto simp: lt_used_def)
  have pos: "0 < rep ?l i" "0 < rep ?l j" using rep_pos [OF f(1)] ij by auto
  have rle: "r \<le> rep ?l i" "r \<le> rep ?l j" "rep ?l r = r" "0 < r"
    using pos by (auto simp: r_def min_def)
  have rused: "r \<in> lt_used t"
    using rle(4) rle(1) rep_le [of ?l i] assms(2) by (auto simp: lt_used_def)
  obtain l1 where l1: "(if i \<noteq> j then do { labels' \<leftarrow> setRoot j r ?l; Some (r, labels') } else Some (rep ?l i, ?l)) = Some (r, l1)"
    "length l1 = length ?l" "forest l1" "rep l1 r = r"
    "\<forall>k < length ?l. rep l1 k = (if i \<noteq> j \<and> rep ?l k = rep ?l j then r else rep ?l k)"
  proof (cases "i = j")
    case True
    then show ?thesis using that [of ?l] f rle by (auto simp: r_def)
  next
    case False
    obtain l1 where "setRoot j r ?l = Some l1" "length l1 = length ?l" "forest l1" "rep l1 r = r"
      "\<forall>k < length ?l. rep l1 k = (if rep ?l k = rep ?l j then r else rep ?l k)"
      using setRoot_rep [OF f(1) ij(2) rle(2,3)] rle(4) by auto
    then show ?thesis using False by (intro that [of l1]) auto
  qed
  have ri: "r \<le> rep l1 i" using l1(5) ij(1) rle by auto
  obtain l2 where l2: "setRoot i r l1 = Some l2" "length l2 = length ?l" "forest l2" "rep l2 r = r"
    "\<forall>k < length ?l. rep l2 k = (if rep l1 k = rep l1 i then r else rep l1 k)"
    using setRoot_rep [OF l1(3) _ ri l1(4)] ij(1) rle(4) l1(2) by auto
  have cls: "rep l2 k = (if rep ?l k = rep ?l i \<or> rep ?l k = rep ?l j then r else rep ?l k)" if k: "k < length ?l" for k
  proof (cases "i = j")
    case True
    then have e: "l1 = ?l" using l1(1) by simp
    show ?thesis using l2(5) k True unfolding e by auto
  next
    case False
    have k1: "rep l1 k = (if rep ?l k = rep ?l j then r else rep ?l k)" using l1(5) k False by simp
    have i1: "rep l1 i = (if rep ?l i = rep ?l j then r else rep ?l i)" using l1(5) ij(1) False by simp
    have k2: "rep l2 k = (if rep l1 k = rep l1 i then r else rep l1 k)" using l2(5) k by simp
    have "r = rep ?l i \<or> r = rep ?l j" by (auto simp: r_def min_def)
    then show ?thesis unfolding k2 k1 i1 by (simp split: if_splits)
  qed
  have "unionTrees i j t = Some (r, t\<lparr>lt_labels := l2\<rparr>)"
  proof (cases "i = j")
    case True
    then have e: "rep ?l j = r" "l1 = ?l" using l1(1) by auto
    show ?thesis using True l2(1) findRoot_rep [OF ij(2)] unfolding e(2) by (simp add: unionTrees_def e(1))
  next
    case False
    then have "setRoot j r ?l = Some l1" using l1(1) by (cases "setRoot j r ?l") simp_all
    then show ?thesis
      using False l2(1) findRoot_rep [OF ij(1)] findRoot_rep [OF ij(2)] by (simp add: unionTrees_def r_def [symmetric])
  qed
  then show ?thesis
    using l2(2,3,4) f(2) rused cls by (auto simp: lt_ok_def lt_class_def lt_used_def r_def)
qed

interpretation trees: label_store lt_ok lt_used lt_class makeLabel unionTrees
proof (unfold_locales, goal_cases)
  case (1 t l t')
  have "rep (lt_labels t) k \<noteq> l" if "k \<in> lt_used t" for k
    using that makeLabel_ok [OF 1] rep_le [of "lt_labels t" k] by (simp add: lt_used_def)
  then have "l \<notin> lt_class t ` lt_used t" by (auto simp: lt_class_def)
  then show ?case using makeLabel_ok [OF 1] by (auto simp: lt_used_def)
next
  case (2 t i j)
  obtain r t' where u: "unionTrees i j t = Some (r, t')" "lt_ok t'" "lt_next t' = lt_next t" "r \<in> lt_used t"
    "r = min (lt_class t i) (lt_class t j)" "lt_class t' r = r"
    "\<forall>k \<in> lt_used t. lt_class t' k = (if lt_class t k = lt_class t i \<or> lt_class t k = lt_class t j then r
                                         else lt_class t k)" using unionTrees_ok [OF 2] by blast
  have "lt_used t' = lt_used t" using u(3) by (simp add: lt_used_def)
  moreover have "r = lt_class t i \<or> r = lt_class t j" using u(5) by (auto simp: min_def)
  ultimately show ?case using u by blast
qed (auto simp: lt_used_def)

section \<open>Flattening\<close>

definition roots_upto :: "nat list \<Rightarrow> nat \<Rightarrow> nat" where
  "roots_upto l i = card {r \<in> {1..i}. l ! r = r}"

lemma roots_upto_Suc: "roots_upto l (Suc i) = roots_upto l i + (if l ! Suc i = Suc i then 1 else 0)"
proof -
  have "{r \<in> {1..Suc i}. l ! r = r} = (if l ! Suc i = Suc i then insert (Suc i) {r \<in> {1..i}. l ! r = r}
      else {r \<in> {1..i}. l ! r = r})" by (auto simp: le_Suc_eq)
  then show ?thesis by (simp add: roots_upto_def)
qed

lemma roots_upto_mono: "i \<le> j \<Longrightarrow> roots_upto l i \<le> roots_upto l j"
  unfolding roots_upto_def by (intro card_mono) auto

lemma roots_upto_less:
  assumes "i < j" "l ! j = j"
  shows "roots_upto l i < roots_upto l j"
proof -
  obtain j' where j': "j = Suc j'" using assms(1) by (cases j) auto
  then show ?thesis using roots_upto_Suc [of l j'] roots_upto_mono [of i j' l] assms by simp
qed

lemma root_parent: "forest l \<Longrightarrow> i < length l \<Longrightarrow> l ! rep l i = rep l i"
  using rep_root [of l i] rep_le [of l i] forest_le [of l "rep l i"] by simp

lemma flatten_loop:
  assumes f: "forest l"
  shows "n < length l \<Longrightarrow> \<exists>l'. foldM flatten_label [1..<Suc n] (l, 1) = Some (l', Suc (roots_upto l n)) \<and>
    length l' = length l \<and> l' ! 0 = 0 \<and> (\<forall>i. 1 \<le> i \<longrightarrow> i \<le> n \<longrightarrow> l' ! i = roots_upto l (rep l i)) \<and>
    (\<forall>i. n < i \<longrightarrow> i < length l \<longrightarrow> l' ! i = l ! i)"
proof (induction n)
  case 0
  have "l ! 0 = 0" using f forest_le [of l 0] by (simp add: forest_def)
  then show ?case by (simp add: roots_upto_def)
next
  case (Suc n)
  obtain l' where l': "foldM flatten_label [1..<Suc n] (l, 1) = Some (l', Suc (roots_upto l n))"
    "length l' = length l" "l' ! 0 = 0" "\<forall>i. 1 \<le> i \<longrightarrow> i \<le> n \<longrightarrow> l' ! i = roots_upto l (rep l i)"
    "\<forall>i. n < i \<longrightarrow> i < length l \<longrightarrow> l' ! i = l ! i" using Suc by auto
  let ?i = "Suc n"
  let ?v = "if l ! ?i < ?i then l' ! (l ! ?i) else Suc (roots_upto l n)"
  have p: "l' ! ?i = l ! ?i" "?i < length l'" using l'(2,5) Suc.prems by auto
  have le: "l ! ?i \<le> ?i" "0 < l ! ?i" using f Suc.prems by (auto simp: forest_def)
  have step: "flatten_label ?i (l', Suc (roots_upto l n)) = Some (l'[?i := ?v], Suc (roots_upto l ?i))"
    using p le Suc.prems l'(2) by (auto simp: flatten_label_def load_def roots_upto_Suc)
  have run: "foldM flatten_label [1..<Suc ?i] (l, 1) = Some (l'[?i := ?v], Suc (roots_upto l ?i))"
    using l'(1) step by (simp add: foldM_append)
  have val: "?v = roots_upto l (rep l ?i)"
  proof (cases "l ! ?i < ?i")
    case True
    have "1 \<le> l ! ?i" "l ! ?i \<le> n" using True le(2) by linarith+
    then have "l' ! (l ! ?i) = roots_upto l (rep l (l ! ?i))" using l'(4) by blast
    then show ?thesis using True by (simp add: rep.simps [of l ?i])
  next
    case False
    then have "l ! ?i = ?i" using le by simp
    then show ?thesis using False by (simp add: rep.simps [of l ?i] roots_upto_Suc)
  qed
  have "l'[?i := ?v] ! i = roots_upto l (rep l i)" if "1 \<le> i" "i \<le> ?i" for i
    using that l'(4) val p(2) by (cases "i = ?i") auto
  moreover have "l'[?i := ?v] ! i = l ! i" if "?i < i" "i < length l" for i using that l'(5) by simp
  moreover have "l'[?i := ?v] ! 0 = 0" using l'(3) by simp
  ultimately show ?case using run l'(2) by (intro exI [of _ "l'[?i := ?v]"]) simp
qed

text \<open>Two labels get the same final label exactly when they have one root; every final label is used.\<close>

lemma flatten_classes:
  assumes "lt_ok t"
  shows "\<exists>l' k. flatten_labels t = Some (l', k) \<and> length l' = lt_next t \<and> l' ! 0 = 0 \<and> 1 \<le> k \<and> k \<le> lt_next t \<and>
    (\<forall>i \<in> lt_used t. 1 \<le> l' ! i \<and> l' ! i < k) \<and>
    (\<forall>i \<in> lt_used t. \<forall>j \<in> lt_used t. l' ! i = l' ! j \<longleftrightarrow> lt_class t i = lt_class t j) \<and>
    (\<forall>m. 1 \<le> m \<longrightarrow> m < k \<longrightarrow> (\<exists>i \<in> lt_used t. l' ! i = m))"
proof -
  let ?l = "lt_labels t"
  have f: "forest ?l" "length ?l = lt_next t" using assms by (simp_all add: lt_ok_def)
  define n where "n = lt_next t - 1"
  have n: "lt_next t = Suc n" "n < length ?l" using f by (auto simp: n_def forest_def)
  obtain l' where l': "foldM flatten_label [1..<Suc n] (?l, 1) = Some (l', Suc (roots_upto ?l n))"
    "length l' = length ?l" "l' ! 0 = 0" "\<forall>i. 1 \<le> i \<longrightarrow> i \<le> n \<longrightarrow> l' ! i = roots_upto ?l (rep ?l i)"
    using flatten_loop [OF f(1) n(2)] by blast
  have used: "lt_used t = {1..n}" by (auto simp: lt_used_def n(1))
  have root: "?l ! rep ?l i = rep ?l i" "1 \<le> rep ?l i" "rep ?l i \<le> n" if "i \<in> {1..n}" for i
    using that n(2) root_parent [OF f(1), of i] rep_pos [OF f(1), of i] rep_le [of ?l i] by auto
  have val: "l' ! i = roots_upto ?l (rep ?l i)" if "i \<in> {1..n}" for i using l'(4) that by auto
  have ge1: "1 \<le> roots_upto ?l r" if "?l ! r = r" "1 \<le> r" for r
    using roots_upto_less [of 0 r ?l] that by auto
  have bound: "1 \<le> l' ! i \<and> l' ! i < Suc (roots_upto ?l n)" if i: "i \<in> {1..n}" for i
    using val [OF i] ge1 [OF root(1,2) [OF i]] roots_upto_mono [OF root(3) [OF i], of ?l] by auto
  have inj: "roots_upto ?l r = roots_upto ?l s \<longleftrightarrow> r = s" if "?l ! r = r" "?l ! s = s" for r s
    using roots_upto_less [of r s ?l] roots_upto_less [of s r ?l] that by (metis less_irrefl linorder_neqE_nat)
  have eqv: "l' ! i = l' ! j \<longleftrightarrow> lt_class t i = lt_class t j" if "i \<in> {1..n}" "j \<in> {1..n}" for i j
    using val that inj [OF root(1) [OF that(1)] root(1) [OF that(2)]] by (simp add: lt_class_def)
  have onto: "\<exists>r \<in> {1..m}. ?l ! r = r \<and> roots_upto ?l r = v" if "1 \<le> v" "v \<le> roots_upto ?l m" for v m
    using that
  proof (induction m)
    case 0
    then show ?case by (simp add: roots_upto_def)
  next
    case (Suc m)
    show ?case
    proof (cases "v \<le> roots_upto ?l m")
      case True
      then show ?thesis using Suc by fastforce
    next
      case False
      then have "?l ! Suc m = Suc m" "v = roots_upto ?l (Suc m)"
        using Suc.prems by (auto simp: roots_upto_Suc split: if_splits)
      then show ?thesis by auto
    qed
  qed
  have surj: "\<exists>i \<in> {1..n}. l' ! i = m" if m: "1 \<le> m" "m < Suc (roots_upto ?l n)" for m
  proof -
    obtain r where r: "r \<in> {1..n}" "?l ! r = r" "roots_upto ?l r = m" using onto [of m n] m by auto
    have "rep ?l r = r" using r(2) by (simp add: rep.simps [of ?l r])
    then show ?thesis using r val [OF r(1)] by auto
  qed
  have kle: "roots_upto ?l n \<le> n"
  proof -
    have "card {r \<in> {1..n}. ?l ! r = r} \<le> card {1..n}" by (rule card_mono) auto
    then show ?thesis by (simp add: roots_upto_def)
  qed
  show ?thesis
    using l'(1-3) f(2) bound eqv surj kle unfolding used flatten_labels_def n(1)
    by (intro exI [of _ l'] exI [of _ "Suc (roots_upto ?l n)"]) auto
qed

end
