(* ===== verification/Grid_Components.thy ===== *)
theory Grid_Components
  imports Label_Trees
begin

text \<open>
  Connected components of a set of pixels, and how they change when a scan adds one pixel: the steps of
  the labelling algorithm, proved over the interface of the label store.
\<close>

section \<open>Connectivity\<close>

fun adj :: "connectivity \<Rightarrow> nat \<times> nat \<Rightarrow> nat \<times> nat \<Rightarrow> bool" where
  "adj Way4 (r, c) (r', c') \<longleftrightarrow> r = r' \<and> (c' = Suc c \<or> c = Suc c') \<or> c = c' \<and> (r' = Suc r \<or> r = Suc r')"
| "adj Way8 (r, c) (r', c') \<longleftrightarrow> (r, c) \<noteq> (r', c') \<and> r \<le> Suc r' \<and> r' \<le> Suc r \<and> c \<le> Suc c' \<and> c' \<le> Suc c"

lemma adj_sym: "adj conn p q = adj conn q p"
  by (cases conn; cases p; cases q) auto

lemma adj_symD: "adj conn p q \<Longrightarrow> adj conn q p"
  by (simp add: adj_sym [of conn q p])

definition linked :: "connectivity \<Rightarrow> (nat \<times> nat) set \<Rightarrow> (nat \<times> nat) rel" where
  "linked conn S = {(p, q). p \<in> S \<and> q \<in> S \<and> adj conn p q}\<^sup>*"

lemma linked_refl [simp]: "(p, p) \<in> linked conn S"
  by (simp add: linked_def)

lemma linked_sym: "(p, q) \<in> linked conn S \<Longrightarrow> (q, p) \<in> linked conn S"
proof -
  have "sym {(p, q). p \<in> S \<and> q \<in> S \<and> adj conn p q}" by (rule symI) (auto intro: adj_symD)
  then have "sym (linked conn S)" unfolding linked_def by (rule sym_rtrancl)
  then show "(p, q) \<in> linked conn S \<Longrightarrow> (q, p) \<in> linked conn S" by (rule symD)
qed

lemma linked_trans: "(p, q) \<in> linked conn S \<Longrightarrow> (q, r) \<in> linked conn S \<Longrightarrow> (p, r) \<in> linked conn S"
  unfolding linked_def by (rule rtrancl_trans)

lemma linked_adj: "p \<in> S \<Longrightarrow> q \<in> S \<Longrightarrow> adj conn p q \<Longrightarrow> (p, q) \<in> linked conn S"
  unfolding linked_def by (rule r_into_rtrancl) simp

lemma linked_mono: "S \<subseteq> T \<Longrightarrow> linked conn S \<subseteq> linked conn T"
  unfolding linked_def by (rule rtrancl_mono) auto

lemma linked_in: "(p, q) \<in> linked conn S \<Longrightarrow> p \<in> S \<Longrightarrow> q \<in> S"
  unfolding linked_def by (induction rule: rtrancl_induct) auto

text \<open>What one more pixel \<open>e\<close> links.\<close>

lemma linked_insert_cases:
  assumes "p \<in> S" "e \<notin> S" "(p, x) \<in> linked conn (insert e S)"
  shows "x = e \<and> (\<exists>m \<in> S. adj conn e m \<and> (p, m) \<in> linked conn S) \<or>
    x \<in> S \<and> ((p, x) \<in> linked conn S \<or>
      (\<exists>m \<in> S. \<exists>n \<in> S. adj conn e m \<and> adj conn e n \<and> (p, m) \<in> linked conn S \<and> (n, x) \<in> linked conn S))"
  using assms(3) unfolding linked_def [of _ "insert e S"]
proof (induction rule: rtrancl_induct)
  case base
  then show ?case using assms(1) by simp
next
  case (step y z)
  have yz: "y \<in> insert e S" "z \<in> insert e S" "adj conn y z" using step.hyps(2) by auto
  show ?case
  proof (cases "z = e")
    case True
    show ?thesis
    proof (cases "y = e")
      case True
      then show ?thesis using step.IH \<open>z = e\<close> by auto
    next
      case False
      then have y: "y \<in> S" "adj conn e y" using yz True adj_symD by auto
      then show ?thesis using step.IH True False by blast
    qed
  next
    case False
    then have z: "z \<in> S" using yz by simp
    show ?thesis
    proof (cases "y = e")
      case True
      then have "adj conn e z" using yz by simp
      then show ?thesis using step.IH True z assms(2) linked_refl by blast
    next
      case ye: False
      then have y: "y \<in> S" using yz by simp
      have l: "(y, z) \<in> linked conn S" using linked_adj [OF y z] yz by simp
      then show ?thesis using step.IH ye z y linked_trans [OF _ l] by blast
    qed
  qed
qed

lemma linked_insert:
  assumes "p \<in> S" "q \<in> S" "e \<notin> S"
  shows "(p, q) \<in> linked conn (insert e S) \<longleftrightarrow> (p, q) \<in> linked conn S \<or>
    (\<exists>m \<in> S. \<exists>n \<in> S. adj conn e m \<and> adj conn e n \<and> (p, m) \<in> linked conn S \<and> (n, q) \<in> linked conn S)"
    (is "_ \<longleftrightarrow> ?r")
proof
  assume "(p, q) \<in> linked conn (insert e S)"
  then show ?r using linked_insert_cases [OF assms(1,3)] assms(2,3) by blast
next
  assume r: ?r
  have up: "linked conn S \<subseteq> linked conn (insert e S)" by (rule linked_mono) auto
  have e: "(m, e) \<in> linked conn (insert e S)" "(e, m) \<in> linked conn (insert e S)" if "m \<in> S" "adj conn e m" for m
    using that by (auto intro!: linked_adj intro: adj_symD)
  show "(p, q) \<in> linked conn (insert e S)" using r up e by (meson linked_trans subsetD)
qed

lemma linked_insert_new:
  assumes "p \<in> S" "e \<notin> S"
  shows "(p, e) \<in> linked conn (insert e S) \<longleftrightarrow> (\<exists>m \<in> S. adj conn e m \<and> (p, m) \<in> linked conn S)"
proof
  assume "(p, e) \<in> linked conn (insert e S)"
  then show "\<exists>m \<in> S. adj conn e m \<and> (p, m) \<in> linked conn S" using linked_insert_cases [OF assms] assms(2) by blast
next
  assume "\<exists>m \<in> S. adj conn e m \<and> (p, m) \<in> linked conn S"
  then obtain m where m: "m \<in> S" "adj conn e m" "(p, m) \<in> linked conn S" by blast
  have "(p, m) \<in> linked conn (insert e S)" using linked_mono [of S "insert e S"] m(3) by blast
  moreover have "(m, e) \<in> linked conn (insert e S)" using m by (auto intro!: linked_adj intro: adj_symD)
  ultimately show "(p, e) \<in> linked conn (insert e S)" by (rule linked_trans)
qed

section \<open>The steps of the scan\<close>

text \<open>
  A pixel-to-class function that separates the components of \<open>S\<close> separates those with \<open>e\<close> once the
  classes of the neighbours of \<open>e\<close> are one, the class of \<open>e\<close>.
\<close>

lemma separates_insert:
  assumes sep: "\<forall>p \<in> S. \<forall>q \<in> S. f p = f q \<longleftrightarrow> (p, q) \<in> linked conn S" and e: "e \<notin> S"
    and new: "\<forall>p \<in> S. g p = (if \<exists>m \<in> S. adj conn e m \<and> f p = f m then g e else f p)"
    and old: "\<forall>p \<in> S. (\<exists>m \<in> S. adj conn e m \<and> f p = f m) \<or> f p \<noteq> g e"
  shows "\<forall>p \<in> insert e S. \<forall>q \<in> insert e S. g p = g q \<longleftrightarrow> (p, q) \<in> linked conn (insert e S)"
proof -
  define N where "N p \<longleftrightarrow> (\<exists>m \<in> S. adj conn e m \<and> f p = f m)" for p
  have N: "N p \<longleftrightarrow> (\<exists>m \<in> S. adj conn e m \<and> (p, m) \<in> linked conn S)" if "p \<in> S" for p
    using sep that unfolding N_def by blast
  have g: "g p = (if N p then g e else f p)" "N p \<or> f p \<noteq> g e" if "p \<in> S" for p
    using new old that unfolding N_def by auto
  have ss: "g p = g q \<longleftrightarrow> (p, q) \<in> linked conn (insert e S)" if pq: "p \<in> S" "q \<in> S" for p q
  proof -
    have eq: "N p = N q" if "f p = f q" using that by (simp add: N_def)
    have "(p, q) \<in> linked conn (insert e S) \<longleftrightarrow> f p = f q \<or> N p \<and> N q"
      unfolding linked_insert [OF pq e] using N [OF pq(1)] N [OF pq(2)] sep pq linked_sym by blast
    also have "\<dots> \<longleftrightarrow> g p = g q" using g [OF pq(1)] g [OF pq(2)] eq by auto
    finally show ?thesis by simp
  qed
  have se: "g p = g e \<longleftrightarrow> (p, e) \<in> linked conn (insert e S)" if p: "p \<in> S" for p
    using g [OF p] N [OF p] linked_insert_new [OF p e] by auto
  show ?thesis using ss se linked_sym linked_refl by (metis insert_iff)
qed

context label_store
begin

text \<open>The labelling of the scanned pixels \<open>S\<close>.\<close>

definition labelled :: "connectivity \<Rightarrow> (nat \<times> nat) set \<Rightarrow> 't \<Rightarrow> (nat \<times> nat \<Rightarrow> nat) \<Rightarrow> bool" where
  "labelled conn S t L \<longleftrightarrow> ok t \<and> (\<forall>p \<in> S. L p \<in> used t) \<and> (\<forall>l \<in> used t. \<exists>p \<in> S. L p = l) \<and>
     (\<forall>p \<in> S. \<forall>q \<in> S. class_of t (L p) = class_of t (L q) \<longleftrightarrow> (p, q) \<in> linked conn S)"

lemma labelled_cong: "\<forall>p \<in> S. L p = L' p \<Longrightarrow> labelled conn S t L = labelled conn S t L'"
  by (auto simp: labelled_def)

lemma make_step:
  assumes "labelled conn S t L" "e \<notin> S" "\<forall>n \<in> S. \<not> adj conn e n" "make t = Inr (l, t')"
  shows "labelled conn (insert e S) t' (L(e := l))"
proof -
  have ok: "ok t" and us: "\<forall>p \<in> S. L p \<in> used t" "\<forall>l \<in> used t. \<exists>p \<in> S. L p = l"
    and sep: "\<forall>p \<in> S. \<forall>q \<in> S. class_of t (L p) = class_of t (L q) \<longleftrightarrow> (p, q) \<in> linked conn S"
    using assms(1) by (simp_all add: labelled_def)
  note m = make_law [OF ok assms(4)]
  have Le: "(L(e := l)) p = L p" if "p \<in> S" for p using that assms(2) by auto
  have cls: "class_of t' (L p) = class_of t (L p)" if "p \<in> S" for p using m us(1) that by blast
  have "\<forall>p \<in> insert e S. \<forall>q \<in> insert e S. class_of t' ((L(e := l)) p) = class_of t' ((L(e := l)) q) \<longleftrightarrow>
      (p, q) \<in> linked conn (insert e S)"
    by (rule separates_insert [OF sep assms(2)]) (use m us(1) cls assms(2,3) in auto)
  moreover have "\<forall>l' \<in> used t'. \<exists>p \<in> insert e S. (L(e := l)) p = l'"
    using m us(2) Le by (metis fun_upd_same insert_iff)
  ultimately show ?thesis using m us(1) assms(2) by (auto simp: labelled_def)
qed

lemma copy_step:
  assumes "labelled conn S t L" "e \<notin> S" "m \<in> S" "adj conn e m" "\<forall>n \<in> S. adj conn e n \<longrightarrow> (n, m) \<in> linked conn S"
  shows "labelled conn (insert e S) t (L(e := L m))"
proof -
  have ok: "ok t" and us: "\<forall>p \<in> S. L p \<in> used t" "\<forall>l \<in> used t. \<exists>p \<in> S. L p = l"
    and sep: "\<forall>p \<in> S. \<forall>q \<in> S. class_of t (L p) = class_of t (L q) \<longleftrightarrow> (p, q) \<in> linked conn S"
    using assms(1) by (simp_all add: labelled_def)
  have nb: "class_of t (L n) = class_of t (L m)" if "n \<in> S" "adj conn e n" for n using sep assms(3,5) that by blast
  have "\<forall>p \<in> insert e S. \<forall>q \<in> insert e S. class_of t ((L(e := L m)) p) = class_of t ((L(e := L m)) q) \<longleftrightarrow>
      (p, q) \<in> linked conn (insert e S)"
  proof (rule separates_insert [OF sep assms(2)])
    have nb': "(\<exists>n \<in> S. adj conn e n \<and> class_of t (L p) = class_of t (L n)) \<longleftrightarrow> class_of t (L p) = class_of t (L m)" for p
    proof
      assume "\<exists>n \<in> S. adj conn e n \<and> class_of t (L p) = class_of t (L n)"
      then obtain n where "n \<in> S" "adj conn e n" "class_of t (L p) = class_of t (L n)" by blast
      then show "class_of t (L p) = class_of t (L m)" using nb by simp
    qed (use assms(3,4) in blast)
    then show "\<forall>p \<in> S. class_of t ((L(e := L m)) p) = (if \<exists>n \<in> S. adj conn e n \<and> class_of t (L p) = class_of t (L n)
        then class_of t ((L(e := L m)) e) else class_of t (L p))"
      using assms(2) by auto
    show "\<forall>p \<in> S. (\<exists>n \<in> S. adj conn e n \<and> class_of t (L p) = class_of t (L n)) \<or>
        class_of t (L p) \<noteq> class_of t ((L(e := L m)) e)" unfolding nb' by simp
  qed
  moreover have "\<forall>l' \<in> used t. \<exists>p \<in> insert e S. (L(e := L m)) p = l'"
    using us(2) assms(2) by (metis fun_upd_other insert_iff)
  ultimately show ?thesis using ok us(1) assms(2,3) by (auto simp: labelled_def)
qed

lemma unite_step:
  assumes "labelled conn S t L" "e \<notin> S" "m \<in> S" "adj conn e m" "m' \<in> S" "adj conn e m'"
    and "\<forall>n \<in> S. adj conn e n \<longrightarrow> (n, m) \<in> linked conn S \<or> (n, m') \<in> linked conn S"
  shows "\<exists>r t'. unite (L m) (L m') t = Some (r, t') \<and> used t' = used t \<and> labelled conn (insert e S) t' (L(e := r))"
proof -
  have ok: "ok t" and us: "\<forall>p \<in> S. L p \<in> used t" "\<forall>l \<in> used t. \<exists>p \<in> S. L p = l"
    and sep: "\<forall>p \<in> S. \<forall>q \<in> S. class_of t (L p) = class_of t (L q) \<longleftrightarrow> (p, q) \<in> linked conn S"
    using assms(1) by (simp_all add: labelled_def)
  obtain r t' where u: "unite (L m) (L m') t = Some (r, t')" "ok t'" "used t' = used t" "r \<in> used t"
    "r = class_of t (L m) \<or> r = class_of t (L m')" "class_of t' r = r"
    "\<forall>k \<in> used t. class_of t' k = (if class_of t k = class_of t (L m) \<or> class_of t k = class_of t (L m') then r
                                      else class_of t k)"
    using unite_law [OF ok] us(1) assms(3,5) by blast
  have nb0: "class_of t (L n) = class_of t (L m) \<or> class_of t (L n) = class_of t (L m')"
    if "n \<in> S" "adj conn e n" for n using sep assms(3,5,7) that by blast
  have nb: "(\<exists>n \<in> S. adj conn e n \<and> class_of t (L p) = class_of t (L n)) \<longleftrightarrow>
      class_of t (L p) = class_of t (L m) \<or> class_of t (L p) = class_of t (L m')" for p
  proof
    assume "\<exists>n \<in> S. adj conn e n \<and> class_of t (L p) = class_of t (L n)"
    then obtain n where "n \<in> S" "adj conn e n" "class_of t (L p) = class_of t (L n)" by blast
    then show "class_of t (L p) = class_of t (L m) \<or> class_of t (L p) = class_of t (L m')" using nb0 by simp
  qed (use assms(3-6) in blast)
  have cls: "class_of t' (L p) = (if class_of t (L p) = class_of t (L m) \<or> class_of t (L p) = class_of t (L m') then r
      else class_of t (L p))" if "p \<in> S" for p using u(7) us(1) that by blast
  have "\<forall>p \<in> insert e S. \<forall>q \<in> insert e S. class_of t' ((L(e := r)) p) = class_of t' ((L(e := r)) q) \<longleftrightarrow>
      (p, q) \<in> linked conn (insert e S)"
  proof (rule separates_insert [OF sep assms(2)])
    show "\<forall>p \<in> S. class_of t' ((L(e := r)) p) = (if \<exists>n \<in> S. adj conn e n \<and> class_of t (L p) = class_of t (L n)
        then class_of t' ((L(e := r)) e) else class_of t (L p))"
      using cls nb u(6) assms(2) by auto
    show "\<forall>p \<in> S. (\<exists>n \<in> S. adj conn e n \<and> class_of t (L p) = class_of t (L n)) \<or>
        class_of t (L p) \<noteq> class_of t' ((L(e := r)) e)"
      using nb u(5,6) by auto
  qed
  moreover have "\<forall>l' \<in> used t'. \<exists>p \<in> insert e S. (L(e := r)) p = l'"
    using us(2) u(3) assms(2) by (metis fun_upd_other insert_iff)
  ultimately show ?thesis using u us(1) assms(2) by (auto simp: labelled_def)
qed

end

end
