(* ===== verification/Denoise_Image.thy ===== *)
theory Denoise_Image
  imports Grid_Components
begin

text \<open>
  The image processing of the denoise layer: images over a memory block, the sliding windows with their
  boundary policies, the two-pass labelling of connected components, histograms and dilation. A pointer
  is an integer index into the block it points to; reading outside of the block is \<open>None\<close>.
\<close>

section \<open>Images\<close>

record image =
  im_rows :: nat
  im_cols :: nat
  im_start :: nat
  im_step :: nat

definition im_empty :: "image \<Rightarrow> bool" where
  "im_empty im \<longleftrightarrow> im_rows im = 0 \<or> im_cols im = 0"

definition im_row :: "image \<Rightarrow> nat \<Rightarrow> nat" where
  "im_row im r = im_start im + r * im_step im"

text \<open>The order in which \<open>forEach\<close> and \<open>convert\<close> visit the pixels.\<close>

definition im_pixels :: "image \<Rightarrow> (nat \<times> nat) list" where
  "im_pixels im = List.product [0..<im_rows im] [0..<im_cols im]"

definition im_forEach :: "('a \<Rightarrow> 's \<Rightarrow> 's option) \<Rightarrow> image \<Rightarrow> 'a list \<Rightarrow> 's \<Rightarrow> 's option" where
  "im_forEach f im mem s = foldM (\<lambda>(r, c) s. do { v \<leftarrow> load mem (im_row im r + c); f v s }) (im_pixels im) s"

text \<open>\<open>forEach\<close> with a functor that rewrites its pixel.\<close>

definition im_update :: "('a \<Rightarrow> 'a option) \<Rightarrow> image \<Rightarrow> 'a list \<Rightarrow> 'a list option" where
  "im_update f im mem =
     foldM (\<lambda>(r, c) m. do { v \<leftarrow> load m (im_row im r + c); v' \<leftarrow> f v; store m (im_row im r + c) v' })
       (im_pixels im) mem"

datatype image_error = SizesDiffer

definition im_convert ::
    "('a \<Rightarrow> 'b \<Rightarrow> 'b option) \<Rightarrow> image \<Rightarrow> 'a list \<Rightarrow> image \<Rightarrow> 'b list \<Rightarrow> (image_error + 'b list) option" where
  "im_convert f src smem trg tmem =
     (if im_rows src \<noteq> im_rows trg \<or> im_cols src \<noteq> im_cols trg then Some (Inl SizesDiffer)
      else map_option Inr (foldM (\<lambda>(r, c) m. do {
             s \<leftarrow> load smem (im_row src r + c);
             t \<leftarrow> load m (im_row trg r + c);
             t' \<leftarrow> f s t;
             store m (im_row trg r + c) t'
           }) (im_pixels src) tmem))"

section \<open>Windows\<close>

text \<open>\<open>DoNothing\<close>, and \<open>ReplaceToZero\<close> with the starts of the two rows (the upper one may be null).\<close>

datatype border = DoNothing | ReplaceToZero "nat option" nat nat

definition deref :: "'a list \<Rightarrow> int \<Rightarrow> 'a option" where
  "deref mem p = (if 0 \<le> p then load mem (nat p) else None)"

definition replaceOutOfBounds :: "'a::zero list \<Rightarrow> int \<Rightarrow> nat \<Rightarrow> nat \<Rightarrow> 'a option" where
  "replaceOutOfBounds mem v begin end_p = (if v < int begin \<or> int end_p \<le> v then Some 0 else deref mem v)"

fun border_up :: "border \<Rightarrow> 'a::zero list \<Rightarrow> int \<Rightarrow> 'a option" where
  "border_up DoNothing mem v = deref mem v"
| "border_up (ReplaceToZero None down columns) mem v = Some 0"
| "border_up (ReplaceToZero (Some up) down columns) mem v = replaceOutOfBounds mem v up (up + columns)"

fun border_down :: "border \<Rightarrow> 'a::zero list \<Rightarrow> int \<Rightarrow> 'a option" where
  "border_down DoNothing mem v = deref mem v"
| "border_down (ReplaceToZero up down columns) mem v = replaceOutOfBounds mem v down (down + columns)"

record window =
  w_up :: int
  w_down :: int
  w_border :: border

definition win_a :: "window \<Rightarrow> 'a::zero list \<Rightarrow> 'a option" where
  "win_a w mem = border_up (w_border w) mem (w_up w - 1)"

definition win_b :: "window \<Rightarrow> 'a::zero list \<Rightarrow> 'a option" where
  "win_b w mem = border_up (w_border w) mem (w_up w)"

definition win_c :: "window \<Rightarrow> 'a::zero list \<Rightarrow> 'a option" where
  "win_c w mem = border_up (w_border w) mem (w_up w + 1)"

definition win_d :: "window \<Rightarrow> 'a::zero list \<Rightarrow> 'a option" where
  "win_d w mem = border_down (w_border w) mem (w_down w - 1)"

definition win_e :: "window \<Rightarrow> 'a list \<Rightarrow> 'a option" where
  "win_e w mem = deref mem (w_down w)"

definition win_next :: "window \<Rightarrow> window" where
  "win_next w = w\<lparr>w_up := w_up w + 1, w_down := w_down w + 1\<rparr>"

definition makeSafeWindow :: "nat option \<Rightarrow> nat \<Rightarrow> nat \<Rightarrow> nat \<Rightarrow> window" where
  "makeSafeWindow up_row down_row columns offset =
     \<lparr>w_up = (case up_row of None \<Rightarrow> 0 | Some u \<Rightarrow> int u) + int offset, w_down = int down_row + int offset,
      w_border = ReplaceToZero up_row down_row columns\<rparr>"

definition makeUnsafeWindow :: "nat \<Rightarrow> nat \<Rightarrow> window" where
  "makeUnsafeWindow up_row down_row = \<lparr>w_up = int up_row, w_down = int down_row, w_border = DoNothing\<rparr>"

section \<open>The label of a pixel\<close>

text \<open>Errors of the labelling: \<open>LabelOverflow\<close> is thrown, an access outside of memory is \<open>None\<close>.\<close>

type_synonym 'a labelling = "(label_error + 'a) option"

definition try_bind :: "'a labelling \<Rightarrow> ('a \<Rightarrow> 'b labelling) \<Rightarrow> 'b labelling" where
  "try_bind x f = (case x of None \<Rightarrow> None | Some (Inl e) \<Rightarrow> Some (Inl e) | Some (Inr a) \<Rightarrow> f a)"

fun try_fold :: "('x \<Rightarrow> 's \<Rightarrow> 's labelling) \<Rightarrow> 'x list \<Rightarrow> 's \<Rightarrow> 's labelling" where
  "try_fold f [] s = Some (Inr s)"
| "try_fold f (x # xs) s = try_bind (f x s) (try_fold f xs)"

definition set_label :: "nat list \<Rightarrow> window \<Rightarrow> nat \<times> label_trees \<Rightarrow> (nat list \<times> label_trees) labelling" where
  "set_label lbl wl vt = do {
     lbl' \<leftarrow> (if 0 \<le> w_down wl then store lbl (nat (w_down wl)) (fst vt) else None);
     Some (Inr (lbl', snd vt))
   }"

definition new_label :: "nat list \<Rightarrow> window \<Rightarrow> label_trees \<Rightarrow> (nat list \<times> label_trees) labelling" where
  "new_label lbl wl t = (case makeLabel t of Inl e \<Rightarrow> Some (Inl e) | Inr vt \<Rightarrow> set_label lbl wl vt)"

definition union_label ::
    "nat list \<Rightarrow> window \<Rightarrow> nat \<Rightarrow> nat \<Rightarrow> label_trees \<Rightarrow> (nat list \<times> label_trees) labelling" where
  "union_label lbl wl i j t = do { vt \<leftarrow> unionTrees i j t; set_label lbl wl vt }"

definition pass8 ::
    "(u8 \<Rightarrow> bool) \<Rightarrow> u8 list \<Rightarrow> window \<Rightarrow> nat list \<Rightarrow> window \<Rightarrow> label_trees \<Rightarrow> (nat list \<times> label_trees) labelling" where
  "pass8 is_bg img wi lbl wl t = do {
     e \<leftarrow> win_e wi img;
     if \<not> is_bg e then do {
       lb \<leftarrow> win_b wl lbl;
       if lb \<noteq> 0 then set_label lbl wl (lb, t)
       else do {
         c \<leftarrow> win_c wi img;
         if \<not> is_bg c then do {
           a \<leftarrow> win_a wi img;
           if \<not> is_bg a then do { lc \<leftarrow> win_c wl lbl; la \<leftarrow> win_a wl lbl; union_label lbl wl lc la t }
           else do {
             d \<leftarrow> win_d wi img;
             if \<not> is_bg d then do { lc \<leftarrow> win_c wl lbl; ld \<leftarrow> win_d wl lbl; union_label lbl wl lc ld t }
             else do { lc \<leftarrow> win_c wl lbl; set_label lbl wl (lc, t) }
           }
         } else do {
           a \<leftarrow> win_a wi img;
           if \<not> is_bg a then do { la \<leftarrow> win_a wl lbl; set_label lbl wl (la, t) }
           else do {
             d \<leftarrow> win_d wi img;
             if \<not> is_bg d then do { ld \<leftarrow> win_d wl lbl; set_label lbl wl (ld, t) }
             else new_label lbl wl t
           }
         }
       }
     } else set_label lbl wl (0, t)
   }"

definition pass4 ::
    "(u8 \<Rightarrow> bool) \<Rightarrow> u8 list \<Rightarrow> window \<Rightarrow> nat list \<Rightarrow> window \<Rightarrow> label_trees \<Rightarrow> (nat list \<times> label_trees) labelling" where
  "pass4 is_bg img wi lbl wl t = do {
     e \<leftarrow> win_e wi img;
     if \<not> is_bg e then do {
       b \<leftarrow> win_b wi img;
       d \<leftarrow> win_d wi img;
       if \<not> is_bg b then
         if \<not> is_bg d then do { ld \<leftarrow> win_d wl lbl; lb \<leftarrow> win_b wl lbl; union_label lbl wl ld lb t }
         else do { lb \<leftarrow> win_b wl lbl; set_label lbl wl (lb, t) }
       else if \<not> is_bg d then do { ld \<leftarrow> win_d wl lbl; set_label lbl wl (ld, t) }
       else new_label lbl wl t
     } else set_label lbl wl (0, t)
   }"

definition pixel_pass ::
    "connectivity \<Rightarrow> (u8 \<Rightarrow> bool) \<Rightarrow> u8 list \<Rightarrow> window \<Rightarrow> nat list \<Rightarrow> window \<Rightarrow> label_trees \<Rightarrow>
     (nat list \<times> label_trees) labelling" where
  "pixel_pass conn = (case conn of Way4 \<Rightarrow> pass4 | Way8 \<Rightarrow> pass8)"

section \<open>Connected components\<close>

text \<open>\<open>for (; img.anchor() < last; img.next(), lbl.next()) pass(...)\<close>\<close>

function scan_while ::
    "connectivity \<Rightarrow> (u8 \<Rightarrow> bool) \<Rightarrow> u8 list \<Rightarrow> int \<Rightarrow> window \<Rightarrow> window \<Rightarrow> nat list \<times> label_trees \<Rightarrow>
     (nat list \<times> label_trees) labelling" where
  "scan_while conn is_bg img last_p wi wl s =
     (if w_down wi < last_p
      then try_bind (pixel_pass conn is_bg img wi (fst s) wl (snd s))
             (scan_while conn is_bg img last_p (win_next wi) (win_next wl))
      else Some (Inr s))"
  by pat_completeness auto
termination by (relation "measure (\<lambda>(_, _, _, last_p, wi, _). nat (last_p - w_down wi))") (auto simp: win_next_def)

declare scan_while.simps [simp del]

definition scan_first_row ::
    "connectivity \<Rightarrow> (u8 \<Rightarrow> bool) \<Rightarrow> u8 list \<Rightarrow> image \<Rightarrow> nat list \<times> label_trees \<Rightarrow> (nat list \<times> label_trees) labelling" where
  "scan_first_row conn is_bg img im s =
     scan_while conn is_bg img (int (im_row im 0) + int (im_cols im))
       (makeSafeWindow None (im_row im 0) (im_cols im) 0) (makeSafeWindow None 0 (im_cols im) 0) s"

text \<open>The rows of the label image are \<open>columns\<close> apart.\<close>

definition scan_row ::
    "connectivity \<Rightarrow> (u8 \<Rightarrow> bool) \<Rightarrow> u8 list \<Rightarrow> image \<Rightarrow> nat \<Rightarrow> nat list \<times> label_trees \<Rightarrow>
     (nat list \<times> label_trees) labelling" where
  "scan_row conn is_bg img im row s =
     (let columns = im_cols im; up = im_row im row; current = im_row im (row + 1);
          label_mask = makeUnsafeWindow (row * columns) ((row + 1) * columns)
      in try_bind (pixel_pass conn is_bg img (makeSafeWindow (Some up) current columns 0) (fst s) label_mask (snd s))
        (\<lambda>s1. try_bind (scan_while conn is_bg img (int current + int columns - 1)
                  (makeUnsafeWindow (up + 1) (current + 1)) (win_next label_mask) s1)
          (\<lambda>s2. if columns > 1
            then pixel_pass conn is_bg img (makeSafeWindow (Some up) current columns (columns - 1)) (fst s2)
              (makeSafeWindow (Some (row * columns)) ((row + 1) * columns) columns (columns - 1)) (snd s2)
            else Some (Inr s2))))"

text \<open>The labels with the analysis and labelling phases; the count is the size of the label table.\<close>

definition connectedComponentsImpl ::
    "connectivity \<Rightarrow> (u8 \<Rightarrow> bool) \<Rightarrow> u8 list \<Rightarrow> image \<Rightarrow> nat list \<Rightarrow> label_trees \<Rightarrow> (nat list \<times> nat) labelling" where
  "connectedComponentsImpl conn is_bg img im lbl t =
     try_bind (scan_first_row conn is_bg img im (lbl, t))
       (\<lambda>s1. try_bind (try_fold (scan_row conn is_bg img im) [0..<im_rows im - 1] s1)
         (\<lambda>(lbl', t'). do {
            (labels_map, k) \<leftarrow> getLabels t';
            lbl'' \<leftarrow> im_update (load labels_map) \<lparr>im_rows = im_rows im, im_cols = im_cols im, im_start = 0, im_step = im_cols im\<rparr> lbl';
            Some (Inr (lbl'', k))
          }))"

text \<open>\<open>uninit\<close> is the content of the buffer before.\<close>

definition connectedComponents ::
    "nat \<Rightarrow> connectivity \<Rightarrow> (u8 \<Rightarrow> bool) \<Rightarrow> u8 list \<Rightarrow> image \<Rightarrow> (nat \<Rightarrow> nat) \<Rightarrow> (nat list \<times> nat) labelling" where
  "connectedComponents label_max conn is_bg img im uninit =
     (let pixels = im_rows im * im_cols im in
      if pixels = 0 then Some (Inr ([], 0))
      else connectedComponentsImpl conn is_bg img im (map uninit [0..<pixels])
        (lt_reset label_max (im_rows im) (im_cols im) conn))"

end
