(* ===== verification/Denoise_Scan.thy ===== *)
theory Denoise_Scan
  imports Denoise_Image
begin

text \<open>
  The labelling of connected components is correct: the windows read the neighbours the decision trees
  ask for, every step of the scan keeps the labelling of the scanned pixels, and the flattened labels
  separate the components. The scan throws exactly when more labels are needed than are reserved.
\<close>

section \<open>Pixels and views\<close>

definition pix :: "'a list \<Rightarrow> image \<Rightarrow> nat \<times> nat \<Rightarrow> 'a" where
  "pix mem im p = mem ! (im_row im (fst p) + snd p)"

definition im_ok :: "image \<Rightarrow> 'a list \<Rightarrow> bool" where
  "im_ok im mem \<longleftrightarrow> 0 < im_rows im \<and> 0 < im_cols im \<and> (\<forall>r < im_rows im. im_row im r + im_cols im \<le> length mem)"

definition label_image :: "image \<Rightarrow> image" where
  "label_image im = \<lparr>im_rows = im_rows im, im_cols = im_cols im, im_start = 0, im_step = im_cols im\<rparr>"

lemma label_image_simps [simp]:
  "im_rows (label_image im) = im_rows im" "im_cols (label_image im) = im_cols im"
  "im_row (label_image im) r = r * im_cols im"
  by (simp_all add: label_image_def im_row_def)

lemma label_image_ok: "0 < im_rows im \<Longrightarrow> 0 < im_cols im \<Longrightarrow> length lbl = im_rows im * im_cols im \<Longrightarrow>
    im_ok (label_image im) lbl"
  using mult_le_mono1 [of "Suc _" "im_rows im" "im_cols im"] by (auto simp: im_ok_def add.commute Suc_le_eq)

text \<open>What a window at pixel \<open>(r, c)\<close> must read, the neighbours outside of the image as 0.\<close>

definition view :: "'a::zero list \<Rightarrow> image \<Rightarrow> window \<Rightarrow> nat \<Rightarrow> nat \<Rightarrow> bool" where
  "view mem im w r c \<longleftrightarrow> w_down w = int (im_row im r + c) \<and> win_e w mem = Some (pix mem im (r, c)) \<and>
     win_b w mem = Some (if 0 < r then pix mem im (r - 1, c) else 0) \<and>
     win_a w mem = Some (if 0 < r \<and> 0 < c then pix mem im (r - 1, c - 1) else 0) \<and>
     win_c w mem = Some (if 0 < r \<and> Suc c < im_cols im then pix mem im (r - 1, Suc c) else 0) \<and>
     win_d w mem = Some (if 0 < c then pix mem im (r, c - 1) else 0)"

text \<open>What suffices of the label window: the neighbours outside of the image are not read.\<close>

definition inner_view :: "'a::zero list \<Rightarrow> image \<Rightarrow> window \<Rightarrow> nat \<Rightarrow> nat \<Rightarrow> bool" where
  "inner_view mem im w r c \<longleftrightarrow> w_down w = int (im_row im r + c) \<and>
     win_b w mem = Some (if 0 < r then pix mem im (r - 1, c) else 0) \<and>
     (0 < r \<longrightarrow> 0 < c \<longrightarrow> win_a w mem = Some (pix mem im (r - 1, c - 1))) \<and>
     (0 < r \<longrightarrow> Suc c < im_cols im \<longrightarrow> win_c w mem = Some (pix mem im (r - 1, Suc c))) \<and>
     (0 < c \<longrightarrow> win_d w mem = Some (pix mem im (r, c - 1)))"

lemma view_inner: "view mem im w r c \<Longrightarrow> inner_view mem im w r c"
  by (simp add: view_def inner_view_def)

lemma deref_int: "k < length mem \<Longrightarrow> deref mem (int k) = Some (mem ! k)"
  by (simp add: deref_def load_def)

lemma replace_in: "begin \<le> k \<Longrightarrow> k < e \<Longrightarrow> k < length mem \<Longrightarrow> replaceOutOfBounds mem (int k) begin e = Some (mem ! k)"
  by (simp add: replaceOutOfBounds_def deref_int)

lemma safe_view:
  assumes "im_ok im mem" "r < im_rows im" "c < im_cols im"
  shows "view mem im (makeSafeWindow (if r = 0 then None else Some (im_row im (r - 1))) (im_row im r) (im_cols im) c) r c"
proof -
  let ?w = "makeSafeWindow (if r = 0 then None else Some (im_row im (r - 1))) (im_row im r) (im_cols im) c"
  have down: "im_row im r + im_cols im \<le> length mem" and up: "0 < r \<Longrightarrow> im_row im (r - 1) + im_cols im \<le> length mem"
    using assms by (simp_all add: im_ok_def)
  have d: "replaceOutOfBounds mem (int (im_row im r) + int c - 1) (im_row im r) (im_row im r + im_cols im) =
      Some (if 0 < c then mem ! (im_row im r + (c - 1)) else 0)"
  proof (cases c)
    case 0
    then show ?thesis by (simp add: replaceOutOfBounds_def)
  next
    case (Suc k)
    then have "int (im_row im r) + int c - 1 = int (im_row im r + k)" by simp
    then show ?thesis using Suc assms(3) down replace_in [of "im_row im r" "im_row im r + k" _ mem] by simp
  qed
  have u: "replaceOutOfBounds mem (int (im_row im (r - 1)) + int c - 1) (im_row im (r - 1)) (im_row im (r - 1) + im_cols im) =
      Some (if 0 < c then mem ! (im_row im (r - 1) + (c - 1)) else 0)" if "0 < r"
  proof (cases c)
    case 0
    then show ?thesis by (simp add: replaceOutOfBounds_def)
  next
    case (Suc k)
    then have "int (im_row im (r - 1)) + int c - 1 = int (im_row im (r - 1) + k)" by simp
    then show ?thesis using Suc assms(3) up [OF that] replace_in [of "im_row im (r - 1)" "im_row im (r - 1) + k" _ mem] by simp
  qed
  have b: "replaceOutOfBounds mem (int (im_row im (r - 1)) + int c) (im_row im (r - 1)) (im_row im (r - 1) + im_cols im) =
      Some (mem ! (im_row im (r - 1) + c))" if "0 < r"
    using assms(3) up [OF that] replace_in [of "im_row im (r - 1)" "im_row im (r - 1) + c" _ mem] by simp
  have n: "replaceOutOfBounds mem (int (im_row im (r - 1)) + int c + 1) (im_row im (r - 1)) (im_row im (r - 1) + im_cols im) =
      Some (if Suc c < im_cols im then mem ! (im_row im (r - 1) + Suc c) else 0)" if "0 < r"
  proof (cases "Suc c < im_cols im")
    case True
    have "int (im_row im (r - 1)) + int c + 1 = int (im_row im (r - 1) + Suc c)" by simp
    then show ?thesis using True up [OF that] replace_in [of "im_row im (r - 1)" "im_row im (r - 1) + Suc c" _ mem] by (simp add: algebra_simps)
  next
    case False
    then show ?thesis by (simp add: replaceOutOfBounds_def)
  qed
  have e: "deref mem (int (im_row im r) + int c) = Some (mem ! (im_row im r + c))"
    using deref_int [of "im_row im r + c" mem] down assms(3) by simp
  show ?thesis
    using d e u b n
    by (cases "r = 0") (simp_all add: view_def makeSafeWindow_def win_a_def win_b_def win_c_def win_d_def win_e_def pix_def)
qed

lemma unsafe_inner_view:
  assumes "im_ok im mem" "0 < r" "r < im_rows im" "c < im_cols im"
  shows "inner_view mem im (makeUnsafeWindow (im_row im (r - 1) + c) (im_row im r + c)) r c"
proof -
  have up: "im_row im (r - 1) + im_cols im \<le> length mem" and down: "im_row im r + im_cols im \<le> length mem"
    using assms by (simp_all add: im_ok_def)
  have b: "deref mem (int (im_row im (r - 1)) + int c) = Some (mem ! (im_row im (r - 1) + c))"
    using deref_int [of "im_row im (r - 1) + c" mem] up assms(4) by simp
  have n: "deref mem (int (im_row im (r - 1)) + int c + 1) = Some (mem ! (im_row im (r - 1) + Suc c))" if "Suc c < im_cols im"
    using deref_int [of "im_row im (r - 1) + Suc c" mem] up that by (simp add: algebra_simps)
  have a: "deref mem (int (im_row im (r - 1)) + int c - 1) = Some (mem ! (im_row im (r - 1) + (c - 1)))"
    "deref mem (int (im_row im r) + int c - 1) = Some (mem ! (im_row im r + (c - 1)))" if "0 < c"
    using deref_int [of "im_row im (r - 1) + (c - 1)" mem] deref_int [of "im_row im r + (c - 1)" mem] up down assms(4) that
    by (simp_all add: of_nat_diff algebra_simps)
  show ?thesis
    using assms(2) b n a
    by (simp add: inner_view_def makeUnsafeWindow_def win_a_def win_b_def win_c_def win_d_def pix_def)
qed

lemma unsafe_view:
  assumes "im_ok im mem" "0 < r" "r < im_rows im" "0 < c" "Suc c < im_cols im"
  shows "view mem im (makeUnsafeWindow (im_row im (r - 1) + c) (im_row im r + c)) r c"
proof -
  have "im_row im r + im_cols im \<le> length mem" using assms by (simp add: im_ok_def)
  then have "deref mem (int (im_row im r) + int c) = Some (mem ! (im_row im r + c))"
    using deref_int [of "im_row im r + c" mem] assms(5) by simp
  then show ?thesis
    using unsafe_inner_view [of im mem r c] assms
    by (simp add: inner_view_def view_def makeUnsafeWindow_def win_e_def pix_def)
qed

lemma next_safe: "win_next (makeSafeWindow u d n k) = makeSafeWindow u d n (Suc k)"
  by (simp add: win_next_def makeSafeWindow_def)

lemma next_unsafe: "win_next (makeUnsafeWindow u d) = makeUnsafeWindow (Suc u) (Suc d)"
  by (simp add: win_next_def makeUnsafeWindow_def)

lemma w_down_simps [simp]: "w_down (makeSafeWindow u d n k) = int d + int k" "w_down (makeUnsafeWindow u' d) = int d"
  by (simp_all add: makeSafeWindow_def makeUnsafeWindow_def)

section \<open>The invariant of the scan\<close>

definition fgs :: "(u8 \<Rightarrow> bool) \<Rightarrow> u8 list \<Rightarrow> image \<Rightarrow> (nat \<times> nat) set" where
  "fgs is_bg img im = {p. fst p < im_rows im \<and> snd p < im_cols im \<and> \<not> is_bg (pix img im p)}"

definition before :: "nat \<Rightarrow> nat \<Rightarrow> (nat \<times> nat) set" where
  "before r c = {p. fst p < r \<or> fst p = r \<and> snd p < c}"

text \<open>The pixels that get a label of their own: no neighbour was scanned before.\<close>

definition fresh :: "connectivity \<Rightarrow> (nat \<times> nat) set \<Rightarrow> (nat \<times> nat) set" where
  "fresh conn F = {p \<in> F. \<forall>n \<in> F \<inter> before (fst p) (snd p). \<not> adj conn p n}"

definition scan_inv ::
    "connectivity \<Rightarrow> (nat \<times> nat) set \<Rightarrow> image \<Rightarrow> nat \<Rightarrow> nat \<Rightarrow> nat list \<Rightarrow> label_trees \<Rightarrow> bool" where
  "scan_inv conn F im r c lbl t \<longleftrightarrow> length lbl = im_rows im * im_cols im \<and>
     (\<forall>p \<in> before r c. fst p < im_rows im \<longrightarrow> snd p < im_cols im \<longrightarrow> (pix lbl (label_image im) p = 0 \<longleftrightarrow> p \<notin> F)) \<and>
     trees.labelled conn (F \<inter> before r c) t (pix lbl (label_image im)) \<and>
     lt_next t = Suc (card (fresh conn F \<inter> before r c))"

lemma before_Suc: "before r (Suc c) = insert (r, c) (before r c)"
  by (auto simp: before_def less_Suc_eq)

lemma before_row: "F \<subseteq> {..<R} \<times> {..<C} \<Longrightarrow> F \<inter> before r C = F \<inter> before (Suc r) 0"
  by (auto simp: before_def less_Suc_eq)

lemma not_before [simp]: "(r, c) \<notin> before r c"
  by (simp add: before_def)

lemma fgs_bound: "fgs is_bg img im \<subseteq> {..<im_rows im} \<times> {..<im_cols im}"
  by (auto simp: fgs_def)

lemma finite_fgs: "finite (fgs is_bg img im)"
  by (rule finite_subset [OF fgs_bound]) simp

lemma fresh_sub: "fresh conn F \<subseteq> F"
  by (auto simp: fresh_def)

lemma neighbours8: "n \<in> before r c \<and> adj Way8 (r, c) n \<longleftrightarrow>
    0 < r \<and> 0 < c \<and> n = (r - 1, c - 1) \<or> 0 < r \<and> n = (r - 1, c) \<or> 0 < r \<and> n = (r - 1, Suc c) \<or> 0 < c \<and> n = (r, c - 1)"
  by (cases n) (auto simp: before_def)

lemma neighbours4: "n \<in> before r c \<and> adj Way4 (r, c) n \<longleftrightarrow> 0 < r \<and> n = (r - 1, c) \<or> 0 < c \<and> n = (r, c - 1)"
  by (cases n) (auto simp: before_def)

lemma pix_label_update:
  assumes "length lbl = im_rows im * im_cols im" "r < im_rows im" "c < im_cols im" "fst p < im_rows im" "snd p < im_cols im"
  shows "pix (lbl[r * im_cols im + c := v]) (label_image im) p = ((pix lbl (label_image im))((r, c) := v)) p"
proof -
  have lt: "r * im_cols im + c < length lbl" using cell_index_less [of c "im_cols im" r "im_rows im"] assms(1-3) by (simp add: mult.commute)
  have "r * im_cols im + c = fst p * im_cols im + snd p \<longleftrightarrow> p = (r, c)"
    using cell_index_inj [of r "im_cols im" c "fst p" "snd p"] assms(3,5) by (cases p) auto
  then show ?thesis using lt by (auto simp: pix_def)
qed

section \<open>One pixel\<close>

lemma card_fresh_Suc:
  assumes "finite F" "(r, c) \<in> F"
  shows "card (fresh conn F \<inter> before r (Suc c)) =
    card (fresh conn F \<inter> before r c) + (if (r, c) \<in> fresh conn F then 1 else 0)"
proof -
  have "finite (fresh conn F \<inter> before r c)" using assms(1) fresh_sub by (meson finite_Int finite_subset)
  moreover have "fresh conn F \<inter> before r (Suc c) = (if (r, c) \<in> fresh conn F
      then insert (r, c) (fresh conn F \<inter> before r c) else fresh conn F \<inter> before r c)"
    by (auto simp: before_Suc)
  ultimately show ?thesis by simp
qed

text \<open>Storing the label of a foreground and of a background pixel.\<close>

lemma set_label_store:
  assumes "w_down wl = int (r * im_cols im + c)" "length lbl = im_rows im * im_cols im" "r < im_rows im" "c < im_cols im"
  shows "set_label lbl wl (v, t) = Some (Inr (lbl[r * im_cols im + c := v], t))"
proof -
  have "r * im_cols im + c < length lbl"
    using cell_index_less [of c "im_cols im" r "im_rows im"] assms(2-4) by (simp add: mult.commute)
  moreover have "nat (w_down wl) = r * im_cols im + c" "0 \<le> w_down wl" unfolding assms(1) by (simp_all only: nat_int of_nat_0_le_iff)
  ultimately show ?thesis by (simp add: set_label_def store_def)
qed

lemma set_label_fg:
  assumes "scan_inv conn F im r c lbl t0" "(r, c) \<in> F" "F \<subseteq> {..<im_rows im} \<times> {..<im_cols im}" "finite F"
    and "w_down wl = int (r * im_cols im + c)"
    and "trees.labelled conn (insert (r, c) (F \<inter> before r c)) t ((pix lbl (label_image im))((r, c) := v))"
    and "lt_next t = lt_next t0 + (if (r, c) \<in> fresh conn F then 1 else 0)"
  shows "\<exists>lbl'. set_label lbl wl (v, t) = Some (Inr (lbl', t)) \<and> scan_inv conn F im r (Suc c) lbl' t"
proof -
  let ?L = "pix lbl (label_image im)" and ?l' = "lbl[r * im_cols im + c := v]"
  have rc: "r < im_rows im" "c < im_cols im" using assms(2,3) by auto
  have len: "length lbl = im_rows im * im_cols im" using assms(1) by (simp add: scan_inv_def)
  note up = pix_label_update [OF len rc]
  have S: "F \<inter> before r (Suc c) = insert (r, c) (F \<inter> before r c)" using assms(2) by (auto simp: before_Suc)
  have "v \<noteq> 0"
    using assms(6) trees.used_pos unfolding trees.labelled_def by (metis fun_upd_same insertI1)
  then have "\<forall>p \<in> before r (Suc c). fst p < im_rows im \<longrightarrow> snd p < im_cols im \<longrightarrow>
      (pix ?l' (label_image im) p = 0 \<longleftrightarrow> p \<notin> F)"
    using assms(1,2) up by (auto simp: scan_inv_def before_Suc)
  moreover have "trees.labelled conn (F \<inter> before r (Suc c)) t (pix ?l' (label_image im))"
    unfolding S using assms(6)
  proof (rule trees.labelled_cong [THEN iffD1, rotated])
    show "\<forall>p \<in> insert (r, c) (F \<inter> before r c). (?L((r, c) := v)) p = pix ?l' (label_image im) p"
    proof
      fix p
      assume "p \<in> insert (r, c) (F \<inter> before r c)"
      then have "fst p < im_rows im" "snd p < im_cols im" using assms(2,3) by auto
      then show "(?L((r, c) := v)) p = pix ?l' (label_image im) p" using up by simp
    qed
  qed
  moreover have "lt_next t = Suc (card (fresh conn F \<inter> before r (Suc c)))"
    using assms(1,7) card_fresh_Suc [OF assms(4,2)] by (simp add: scan_inv_def)
  ultimately show ?thesis
    using set_label_store [OF assms(5) len rc] len by (simp add: scan_inv_def)
qed

lemma set_label_bg:
  assumes "scan_inv conn F im r c lbl t" "(r, c) \<notin> F" "F \<subseteq> {..<im_rows im} \<times> {..<im_cols im}"
    and "r < im_rows im" "c < im_cols im" "w_down wl = int (r * im_cols im + c)"
  shows "\<exists>lbl'. set_label lbl wl (0, t) = Some (Inr (lbl', t)) \<and> scan_inv conn F im r (Suc c) lbl' t"
proof -
  let ?L = "pix lbl (label_image im)" and ?l' = "lbl[r * im_cols im + c := 0]"
  have len: "length lbl = im_rows im * im_cols im" using assms(1) by (simp add: scan_inv_def)
  note up = pix_label_update [OF len assms(4,5)]
  have S: "F \<inter> before r (Suc c) = F \<inter> before r c" "fresh conn F \<inter> before r (Suc c) = fresh conn F \<inter> before r c"
    using assms(2) fresh_sub by (auto simp: before_Suc)
  have "\<forall>p \<in> before r (Suc c). fst p < im_rows im \<longrightarrow> snd p < im_cols im \<longrightarrow>
      (pix ?l' (label_image im) p = 0 \<longleftrightarrow> p \<notin> F)"
    using assms(1,2) up by (auto simp: scan_inv_def before_Suc)
  moreover have "trees.labelled conn (F \<inter> before r c) t (pix ?l' (label_image im))"
  proof (rule trees.labelled_cong [THEN iffD1])
    show "\<forall>p \<in> F \<inter> before r c. ?L p = pix ?l' (label_image im) p"
    proof
      fix p
      assume p: "p \<in> F \<inter> before r c"
      then have "fst p < im_rows im" "snd p < im_cols im" "p \<noteq> (r, c)" using assms(2,3) by auto
      then show "?L p = pix ?l' (label_image im) p" using up by simp
    qed
    show "trees.labelled conn (F \<inter> before r c) t ?L" using assms(1) by (simp add: scan_inv_def)
  qed
  ultimately show ?thesis
    using set_label_store [OF assms(6) len assms(4,5)] len assms(1) S by (simp add: scan_inv_def)
qed

text \<open>The three kinds of outcome of a foreground pixel \<open>e = (r, c)\<close> with scanned neighbours.\<close>

definition scan_next ::
    "connectivity \<Rightarrow> (nat \<times> nat) set \<Rightarrow> image \<Rightarrow> nat \<Rightarrow> nat \<Rightarrow> label_trees \<Rightarrow> (nat list \<times> label_trees) labelling \<Rightarrow> bool" where
  "scan_next conn F im r c t res \<longleftrightarrow>
     (if (r, c) \<in> fresh conn F \<and> lt_next t = lt_size t then res = Some (Inl LabelOverflow)
      else \<exists>lbl' t'. res = Some (Inr (lbl', t')) \<and> scan_inv conn F im r (Suc c) lbl' t' \<and> lt_size t' = lt_size t)"

lemma fresh_iff: "(r, c) \<in> fresh conn F \<longleftrightarrow> (r, c) \<in> F \<and> (\<forall>n \<in> F \<inter> before r c. \<not> adj conn (r, c) n)"
  by (auto simp: fresh_def)

lemma copy_next:
  assumes "scan_inv conn F im r c lbl t" "(r, c) \<in> F" "F \<subseteq> {..<im_rows im} \<times> {..<im_cols im}" "finite F"
    and "w_down wl = int (r * im_cols im + c)" "m \<in> F \<inter> before r c" "adj conn (r, c) m"
    and "\<forall>n \<in> F \<inter> before r c. adj conn (r, c) n \<longrightarrow> (n, m) \<in> linked conn (F \<inter> before r c)"
    and "v = pix lbl (label_image im) m"
  shows "scan_next conn F im r c t (set_label lbl wl (v, t))"
proof -
  have l: "trees.labelled conn (F \<inter> before r c) t (pix lbl (label_image im))" using assms(1) by (simp add: scan_inv_def)
  have "trees.labelled conn (insert (r, c) (F \<inter> before r c)) t ((pix lbl (label_image im))((r, c) := v))"
    unfolding assms(9) by (rule trees.copy_step [OF l _ assms(6-8)]) simp
  moreover have nf: "(r, c) \<notin> fresh conn F" using assms(6,7) by (auto simp: fresh_iff)
  ultimately show ?thesis using set_label_fg [OF assms(1-5), of t v] by (auto simp: scan_next_def)
qed

lemma union_next:
  assumes "scan_inv conn F im r c lbl t" "(r, c) \<in> F" "F \<subseteq> {..<im_rows im} \<times> {..<im_cols im}" "finite F"
    and "w_down wl = int (r * im_cols im + c)" "m \<in> F \<inter> before r c" "adj conn (r, c) m" "m' \<in> F \<inter> before r c" "adj conn (r, c) m'"
    and "\<forall>n \<in> F \<inter> before r c. adj conn (r, c) n \<longrightarrow>
      (n, m) \<in> linked conn (F \<inter> before r c) \<or> (n, m') \<in> linked conn (F \<inter> before r c)"
    and "i = pix lbl (label_image im) m" "j = pix lbl (label_image im) m'"
  shows "scan_next conn F im r c t (union_label lbl wl i j t)"
proof -
  have l: "trees.labelled conn (F \<inter> before r c) t (pix lbl (label_image im))" using assms(1) by (simp add: scan_inv_def)
  obtain v t' where u: "unionTrees i j t = Some (v, t')"
    "trees.labelled conn (insert (r, c) (F \<inter> before r c)) t' ((pix lbl (label_image im))((r, c) := v))"
    using trees.unite_step [OF l _ assms(6-10)] assms(11,12) by auto
  have "lt_ok t" "i \<in> lt_used t" "j \<in> lt_used t" using l assms(6,8,11,12) by (auto simp: trees.labelled_def)
  from unionTrees_ok [OF this] have "lt_next t' = lt_next t" "lt_size t' = lt_size t" using u(1) by auto
  moreover have nf: "(r, c) \<notin> fresh conn F" using assms(6,7) by (auto simp: fresh_iff)
  ultimately show ?thesis using set_label_fg [OF assms(1-5) u(2)] u(1) by (auto simp: scan_next_def union_label_def)
qed

lemma new_next:
  assumes "scan_inv conn F im r c lbl t" "(r, c) \<in> F" "F \<subseteq> {..<im_rows im} \<times> {..<im_cols im}" "finite F"
    and "w_down wl = int (r * im_cols im + c)" "\<forall>n \<in> F \<inter> before r c. \<not> adj conn (r, c) n"
  shows "scan_next conn F im r c t (new_label lbl wl t)"
proof -
  have l: "trees.labelled conn (F \<inter> before r c) t (pix lbl (label_image im))" using assms(1) by (simp add: scan_inv_def)
  have fr: "(r, c) \<in> fresh conn F" using assms(2,6) by (simp add: fresh_iff)
  show ?thesis
  proof (cases "makeLabel t")
    case (Inl e)
    then show ?thesis using fr by (auto simp: makeLabel_def new_label_def scan_next_def split: if_splits)
  next
    case (Inr vt)
    obtain v t' where vt: "vt = (v, t')" by (cases vt)
    have ok: "lt_ok t" using l by (simp add: trees.labelled_def)
    note m = makeLabel_ok [OF ok Inr [unfolded vt]]
    have "trees.labelled conn (insert (r, c) (F \<inter> before r c)) t' ((pix lbl (label_image im))((r, c) := v))"
      by (rule trees.make_step [OF l _ assms(6) Inr [unfolded vt]]) simp
    moreover have "lt_next t \<noteq> lt_size t" using Inr by (auto simp: makeLabel_def split: if_splits)
    ultimately show ?thesis
      using set_label_fg [OF assms(1-5), of t' v] fr m Inr vt by (auto simp: scan_next_def new_label_def)
  qed
qed

text \<open>What the windows at \<open>(r, c)\<close> tell about the neighbours.\<close>

lemma view_fg:
  assumes "view img im wi r c" "is_bg 0" "F = fgs is_bg img im" "r < im_rows im" "c < im_cols im"
  obtains e b a n d where "win_e wi img = Some e" "win_b wi img = Some b" "win_a wi img = Some a"
    "win_c wi img = Some n" "win_d wi img = Some d"
    "\<not> is_bg e \<longleftrightarrow> (r, c) \<in> F" "\<not> is_bg b \<longleftrightarrow> 0 < r \<and> (r - 1, c) \<in> F"
    "\<not> is_bg a \<longleftrightarrow> 0 < r \<and> 0 < c \<and> (r - 1, c - 1) \<in> F" "\<not> is_bg n \<longleftrightarrow> 0 < r \<and> (r - 1, Suc c) \<in> F"
    "\<not> is_bg d \<longleftrightarrow> 0 < c \<and> (r, c - 1) \<in> F"
proof (rule that)
  note v = assms(1) [unfolded view_def]
  show "win_e wi img = Some (pix img im (r, c))"
    "win_b wi img = Some (if 0 < r then pix img im (r - 1, c) else 0)"
    "win_a wi img = Some (if 0 < r \<and> 0 < c then pix img im (r - 1, c - 1) else 0)"
    "win_c wi img = Some (if 0 < r \<and> Suc c < im_cols im then pix img im (r - 1, Suc c) else 0)"
    "win_d wi img = Some (if 0 < c then pix img im (r, c - 1) else 0)" using v by blast+
qed (use assms in \<open>auto simp: fgs_def\<close>)

lemma pass8_next:
  assumes inv: "scan_inv Way8 F im r c lbl t" and F: "F = fgs is_bg img im" and bg: "is_bg 0"
    and rc: "r < im_rows im" "c < im_cols im"
    and vi: "view img im wi r c" and vl: "inner_view lbl (label_image im) wl r c"
  shows "scan_next Way8 F im r c t (pass8 is_bg img wi lbl wl t)"
proof -
  let ?L = "pix lbl (label_image im)" and ?S = "F \<inter> before r c"
  have Fb: "F \<subseteq> {..<im_rows im} \<times> {..<im_cols im}" and fin: "finite F" by (simp_all add: F fgs_bound finite_fgs)
  have wd: "w_down wl = int (r * im_cols im + c)" using vl by (simp add: inner_view_def)
  obtain e b a n d where w: "win_e wi img = Some e" "win_b wi img = Some b" "win_a wi img = Some a"
    "win_c wi img = Some n" "win_d wi img = Some d"
    and fg: "\<not> is_bg e \<longleftrightarrow> (r, c) \<in> F" "\<not> is_bg b \<longleftrightarrow> 0 < r \<and> (r - 1, c) \<in> F"
    "\<not> is_bg a \<longleftrightarrow> 0 < r \<and> 0 < c \<and> (r - 1, c - 1) \<in> F" "\<not> is_bg n \<longleftrightarrow> 0 < r \<and> (r - 1, Suc c) \<in> F"
    "\<not> is_bg d \<longleftrightarrow> 0 < c \<and> (r, c - 1) \<in> F" using view_fg [OF vi bg F rc] by blast
  obtain lb where lb: "win_b wl lbl = Some lb" "lb = (if 0 < r then ?L (r - 1, c) else 0)"
    using vl by (simp add: inner_view_def)
  have "0 < r \<Longrightarrow> ?L (r - 1, c) = 0 \<longleftrightarrow> (r - 1, c) \<notin> F"
    using inv rc by (simp add: scan_inv_def before_def)
  then have lb0: "lb \<noteq> 0 \<longleftrightarrow> \<not> is_bg b" using lb(2) fg(2) by auto
  have la: "win_a wl lbl = Some (?L (r - 1, c - 1))" if "\<not> is_bg a" using vl that fg by (simp add: inner_view_def)
  have ln: "win_c wl lbl = Some (?L (r - 1, Suc c))" if "\<not> is_bg n" using vl that fg Fb by (auto simp: inner_view_def)
  have ld: "win_d wl lbl = Some (?L (r, c - 1))" if "\<not> is_bg d" using vl that fg by (simp add: inner_view_def)
  have Sb: "\<not> is_bg b \<Longrightarrow> (r - 1, c) \<in> ?S \<and> adj Way8 (r, c) (r - 1, c)"
    and Sa: "\<not> is_bg a \<Longrightarrow> (r - 1, c - 1) \<in> ?S \<and> adj Way8 (r, c) (r - 1, c - 1)"
    and Sn: "\<not> is_bg n \<Longrightarrow> (r - 1, Suc c) \<in> ?S \<and> adj Way8 (r, c) (r - 1, Suc c)"
    and Sd: "\<not> is_bg d \<Longrightarrow> (r, c - 1) \<in> ?S \<and> adj Way8 (r, c) (r, c - 1)"
    using fg by (auto simp: before_def)
  have nb: "\<not> is_bg a \<and> p = (r - 1, c - 1) \<or> \<not> is_bg b \<and> p = (r - 1, c) \<or> \<not> is_bg n \<and> p = (r - 1, Suc c) \<or>
      \<not> is_bg d \<and> p = (r, c - 1)" if "p \<in> ?S" "adj Way8 (r, c) p" for p
    using that neighbours8 [of p r c] fg by auto
  have link: "(p, q) \<in> linked Way8 ?S" if "p \<in> ?S" "q \<in> ?S" "p = q \<or> adj Way8 p q" for p q
    using that linked_adj by (cases "p = q") auto
  have single: "\<forall>p \<in> ?S. adj Way8 (r, c) p \<longrightarrow> (p, q) \<in> linked Way8 ?S"
    if "\<And>p. p \<in> ?S \<Longrightarrow> adj Way8 (r, c) p \<Longrightarrow> p = q" for q using that by (metis linked_refl)
  show ?thesis
  proof (cases "is_bg e")
    case True
    have "(r, c) \<notin> F" using True fg(1) by simp
    then show ?thesis using True w set_label_bg [OF inv _ Fb rc wd] fresh_sub by (auto simp: pass8_def scan_next_def)
  next
    case e: False
    then have eF: "(r, c) \<in> F" using fg(1) by simp
    note copy = copy_next [OF inv eF Fb fin wd] and union = union_next [OF inv eF Fb fin wd]
    show ?thesis
    proof (cases "is_bg b")
      case False
      have "scan_next Way8 F im r c t (set_label lbl wl (lb, t))"
      proof (rule copy)
        show "\<forall>p \<in> ?S. adj Way8 (r, c) p \<longrightarrow> (p, (r - 1, c)) \<in> linked Way8 ?S"
        proof (intro ballI impI)
          fix p
          assume p: "p \<in> ?S" "adj Way8 (r, c) p"
          have "p = (r - 1, c) \<or> adj Way8 p (r - 1, c)" using nb [OF p] fg(2-5) False by auto
          then show "(p, (r - 1, c)) \<in> linked Way8 ?S" using p(1) Sb [OF False] by (intro link) auto
        qed
        show "lb = ?L (r - 1, c)" using lb(2) False fg(2) by auto
      qed (use Sb False in auto)
      then show ?thesis using e False w lb(1) lb0 by (simp add: pass8_def)
    next
      case b: True
      show ?thesis
      proof (cases "is_bg n")
        case n: False
        show ?thesis
        proof (cases "is_bg a")
          case a: False
          have "scan_next Way8 F im r c t (union_label lbl wl (?L (r - 1, Suc c)) (?L (r - 1, c - 1)) t)"
          proof (rule union)
            show "\<forall>p \<in> ?S. adj Way8 (r, c) p \<longrightarrow>
                (p, (r - 1, Suc c)) \<in> linked Way8 ?S \<or> (p, (r - 1, c - 1)) \<in> linked Way8 ?S"
            proof (intro ballI impI)
              fix p
              assume p: "p \<in> ?S" "adj Way8 (r, c) p"
              then consider "p = (r - 1, Suc c)" | "p = (r - 1, c - 1)" | "p = (r, c - 1)" using nb [OF p] b by blast
              then show "(p, (r - 1, Suc c)) \<in> linked Way8 ?S \<or> (p, (r - 1, c - 1)) \<in> linked Way8 ?S"
              proof cases
                case 3
                have "(p, (r - 1, c - 1)) \<in> linked Way8 ?S"
                  using p Sa [OF a] fg(3) a by (intro link) (auto simp: 3)
                then show ?thesis ..
              qed simp_all
            qed
          qed (use Sn n Sa a in auto)
          then show ?thesis using e b n a w lb(1) lb0 ln la by (simp add: pass8_def)
        next
          case a: True
          show ?thesis
          proof (cases "is_bg d")
            case d: False
            have "scan_next Way8 F im r c t (union_label lbl wl (?L (r - 1, Suc c)) (?L (r, c - 1)) t)"
            proof (rule union)
              show "\<forall>p \<in> ?S. adj Way8 (r, c) p \<longrightarrow>
                  (p, (r - 1, Suc c)) \<in> linked Way8 ?S \<or> (p, (r, c - 1)) \<in> linked Way8 ?S"
                using nb a b by (metis linked_refl)
            qed (use Sn n Sd d in auto)
            then show ?thesis using e b n a d w lb(1) lb0 ln ld by (simp add: pass8_def)
          next
            case d: True
            have "scan_next Way8 F im r c t (set_label lbl wl (?L (r - 1, Suc c), t))"
            proof (rule copy)
              show "\<forall>p \<in> ?S. adj Way8 (r, c) p \<longrightarrow> (p, (r - 1, Suc c)) \<in> linked Way8 ?S"
                by (rule single) (use nb a b d in blast)
            qed (use Sn n in auto)
            then show ?thesis using e b n a d w lb(1) lb0 ln by (simp add: pass8_def)
          qed
        qed
      next
        case n: True
        show ?thesis
        proof (cases "is_bg a")
          case a: False
          have "scan_next Way8 F im r c t (set_label lbl wl (?L (r - 1, c - 1), t))"
          proof (rule copy)
            show "\<forall>p \<in> ?S. adj Way8 (r, c) p \<longrightarrow> (p, (r - 1, c - 1)) \<in> linked Way8 ?S"
            proof (intro ballI impI)
              fix p
              assume p: "p \<in> ?S" "adj Way8 (r, c) p"
              have "0 < r" "0 < c" using fg(3) a by auto
              moreover have "p = (r - 1, c - 1) \<or> p = (r, c - 1)" using nb [OF p] b n by blast
              ultimately have "p = (r - 1, c - 1) \<or> adj Way8 p (r - 1, c - 1)" by auto
              then show "(p, (r - 1, c - 1)) \<in> linked Way8 ?S" using p(1) Sa [OF a] by (intro link) blast+
            qed
          qed (use Sa a in auto)
          then show ?thesis using e b n a w lb(1) lb0 la by (simp add: pass8_def)
        next
          case a: True
          show ?thesis
          proof (cases "is_bg d")
            case d: False
            have "scan_next Way8 F im r c t (set_label lbl wl (?L (r, c - 1), t))"
            proof (rule copy)
              show "\<forall>p \<in> ?S. adj Way8 (r, c) p \<longrightarrow> (p, (r, c - 1)) \<in> linked Way8 ?S"
                by (rule single) (use nb a b n in blast)
            qed (use Sd d in auto)
            then show ?thesis using e b n a d w lb(1) lb0 ld by (simp add: pass8_def)
          next
            case d: True
            have "\<forall>p \<in> ?S. \<not> adj Way8 (r, c) p" using nb a b n d by blast
            then show ?thesis using new_next [OF inv eF Fb fin wd] e b n a d w lb(1) lb0 by (simp add: pass8_def)
          qed
        qed
      qed
    qed
  qed
qed

lemma pass4_next:
  assumes inv: "scan_inv Way4 F im r c lbl t" and F: "F = fgs is_bg img im" and bg: "is_bg 0"
    and rc: "r < im_rows im" "c < im_cols im"
    and vi: "view img im wi r c" and vl: "inner_view lbl (label_image im) wl r c"
  shows "scan_next Way4 F im r c t (pass4 is_bg img wi lbl wl t)"
proof -
  let ?L = "pix lbl (label_image im)" and ?S = "F \<inter> before r c"
  have Fb: "F \<subseteq> {..<im_rows im} \<times> {..<im_cols im}" and fin: "finite F" by (simp_all add: F fgs_bound finite_fgs)
  have wd: "w_down wl = int (r * im_cols im + c)" using vl by (simp add: inner_view_def)
  obtain e b a n d where w: "win_e wi img = Some e" "win_b wi img = Some b" "win_d wi img = Some d"
    and fg: "\<not> is_bg e \<longleftrightarrow> (r, c) \<in> F" "\<not> is_bg b \<longleftrightarrow> 0 < r \<and> (r - 1, c) \<in> F" "\<not> is_bg d \<longleftrightarrow> 0 < c \<and> (r, c - 1) \<in> F"
    using view_fg [OF vi bg F rc] by blast
  have lb: "win_b wl lbl = Some (?L (r - 1, c))" if "\<not> is_bg b" using vl that fg by (simp add: inner_view_def)
  have ld: "win_d wl lbl = Some (?L (r, c - 1))" if "\<not> is_bg d" using vl that fg by (simp add: inner_view_def)
  have Sb: "\<not> is_bg b \<Longrightarrow> (r - 1, c) \<in> ?S \<and> adj Way4 (r, c) (r - 1, c)"
    and Sd: "\<not> is_bg d \<Longrightarrow> (r, c - 1) \<in> ?S \<and> adj Way4 (r, c) (r, c - 1)"
    using fg by (auto simp: before_def)
  have nb: "\<not> is_bg b \<and> p = (r - 1, c) \<or> \<not> is_bg d \<and> p = (r, c - 1)" if "p \<in> ?S" "adj Way4 (r, c) p" for p
    using that neighbours4 [of p r c] fg by auto
  have single: "\<forall>p \<in> ?S. adj Way4 (r, c) p \<longrightarrow> (p, q) \<in> linked Way4 ?S"
    if "\<And>p. p \<in> ?S \<Longrightarrow> adj Way4 (r, c) p \<Longrightarrow> p = q" for q using that by (metis linked_refl)
  show ?thesis
  proof (cases "is_bg e")
    case True
    have "(r, c) \<notin> F" using True fg(1) by simp
    then show ?thesis using True w set_label_bg [OF inv _ Fb rc wd] fresh_sub by (auto simp: pass4_def scan_next_def)
  next
    case e: False
    then have eF: "(r, c) \<in> F" using fg(1) by simp
    note copy = copy_next [OF inv eF Fb fin wd] and union = union_next [OF inv eF Fb fin wd]
    show ?thesis
    proof (cases "is_bg b"; cases "is_bg d")
      assume bd: "is_bg b" "is_bg d"
      then have "\<forall>p \<in> ?S. \<not> adj Way4 (r, c) p" using nb by blast
      then show ?thesis using new_next [OF inv eF Fb fin wd] e bd w by (simp add: pass4_def)
    next
      assume bd: "is_bg b" "\<not> is_bg d"
      have "scan_next Way4 F im r c t (set_label lbl wl (?L (r, c - 1), t))"
      proof (rule copy)
        show "\<forall>p \<in> ?S. adj Way4 (r, c) p \<longrightarrow> (p, (r, c - 1)) \<in> linked Way4 ?S"
          by (rule single) (use nb bd in blast)
      qed (use Sd bd in auto)
      then show ?thesis using e bd w ld by (simp add: pass4_def)
    next
      assume bd: "\<not> is_bg b" "is_bg d"
      have "scan_next Way4 F im r c t (set_label lbl wl (?L (r - 1, c), t))"
      proof (rule copy)
        show "\<forall>p \<in> ?S. adj Way4 (r, c) p \<longrightarrow> (p, (r - 1, c)) \<in> linked Way4 ?S"
          by (rule single) (use nb bd in blast)
      qed (use Sb bd in auto)
      then show ?thesis using e bd w lb by (simp add: pass4_def)
    next
      assume bd: "\<not> is_bg b" "\<not> is_bg d"
      have "scan_next Way4 F im r c t (union_label lbl wl (?L (r, c - 1)) (?L (r - 1, c)) t)"
      proof (rule union)
        show "\<forall>p \<in> ?S. adj Way4 (r, c) p \<longrightarrow>
            (p, (r, c - 1)) \<in> linked Way4 ?S \<or> (p, (r - 1, c)) \<in> linked Way4 ?S"
          using nb by (metis linked_refl)
      qed (use Sb Sd bd in auto)
      then show ?thesis using e bd w lb ld by (simp add: pass4_def)
    qed
  qed
qed

lemma pixel_pass_next:
  assumes "scan_inv conn F im r c lbl t" "F = fgs is_bg img im" "is_bg 0" "r < im_rows im" "c < im_cols im"
    and "view img im wi r c" "inner_view lbl (label_image im) wl r c"
  shows "scan_next conn F im r c t (pixel_pass conn is_bg img wi lbl wl t)"
  using pass4_next pass8_next assms by (cases conn) (simp_all add: pixel_pass_def)

section \<open>The whole scan\<close>

text \<open>The state or the error after the pixels before \<open>(r, c)\<close>, for \<open>sz\<close> reserved labels.\<close>

definition outcome ::
    "connectivity \<Rightarrow> (nat \<times> nat) set \<Rightarrow> image \<Rightarrow> nat \<Rightarrow> nat \<Rightarrow> nat \<Rightarrow> (nat list \<times> label_trees) labelling \<Rightarrow> bool" where
  "outcome conn F im r c sz res \<longleftrightarrow>
     (if card (fresh conn F \<inter> before r c) < sz
      then \<exists>lbl t. res = Some (Inr (lbl, t)) \<and> scan_inv conn F im r c lbl t \<and> lt_size t = sz
      else res = Some (Inl LabelOverflow))"

lemma scan_inv_row:
  assumes "F \<subseteq> {..<im_rows im} \<times> {..<im_cols im}"
  shows "scan_inv conn F im r (im_cols im) lbl t = scan_inv conn F im (Suc r) 0 lbl t"
proof -
  have f: "fresh conn F \<subseteq> {..<im_rows im} \<times> {..<im_cols im}" using fresh_sub assms by blast
  have b: "(\<forall>p \<in> before r (im_cols im). fst p < im_rows im \<longrightarrow> snd p < im_cols im \<longrightarrow> Q p) =
      (\<forall>p \<in> before (Suc r) 0. fst p < im_rows im \<longrightarrow> snd p < im_cols im \<longrightarrow> Q p)" for Q
    by (auto simp: before_def less_Suc_eq)
  show ?thesis
    unfolding scan_inv_def before_row [OF assms] before_row [OF f] b ..
qed

lemma outcome_row:
  assumes "F \<subseteq> {..<im_rows im} \<times> {..<im_cols im}"
  shows "outcome conn F im r (im_cols im) sz res = outcome conn F im (Suc r) 0 sz res"
proof -
  have "fresh conn F \<subseteq> {..<im_rows im} \<times> {..<im_cols im}" using fresh_sub assms by blast
  then show ?thesis unfolding outcome_def scan_inv_row [OF assms] by (simp add: before_row)
qed

lemma before_mono: "r < r' \<or> r = r' \<and> c \<le> c' \<Longrightarrow> before r c \<subseteq> before r' c'"
  by (auto simp: before_def)

lemma outcome_bind:
  assumes "outcome conn F im r c sz res" "finite F" "r < r' \<or> r = r' \<and> c \<le> c'"
    and "\<And>lbl t. scan_inv conn F im r c lbl t \<Longrightarrow> lt_size t = sz \<Longrightarrow> lt_next t \<le> sz \<Longrightarrow>
      outcome conn F im r' c' sz (f (lbl, t))"
  shows "outcome conn F im r' c' sz (try_bind res f)"
proof -
  have "finite (fresh conn F \<inter> before r' c')" using assms(2) fresh_sub by (meson finite_Int finite_subset)
  then have "card (fresh conn F \<inter> before r c) \<le> card (fresh conn F \<inter> before r' c')"
    using before_mono [OF assms(3)] by (intro card_mono) auto
  then show ?thesis using assms(1,4) by (auto simp: outcome_def try_bind_def scan_inv_def split: if_splits)
qed

lemma scan_next_outcome:
  assumes "scan_next conn F im r c t res" "scan_inv conn F im r c lbl t" "lt_size t = sz" "lt_next t \<le> sz"
    and "finite F" "(r, c) \<in> F \<or> (r, c) \<notin> fresh conn F"
  shows "outcome conn F im r (Suc c) sz res"
proof -
  have n: "lt_next t = Suc (card (fresh conn F \<inter> before r c))" using assms(2) by (simp add: scan_inv_def)
  have k: "card (fresh conn F \<inter> before r (Suc c)) = card (fresh conn F \<inter> before r c) + (if (r, c) \<in> fresh conn F then 1 else 0)"
  proof (cases "(r, c) \<in> F")
    case True
    then show ?thesis by (rule card_fresh_Suc [OF assms(5)])
  next
    case False
    then show ?thesis using fresh_sub by (auto simp: before_Suc intro: arg_cong [where f = card])
  qed
  show ?thesis using assms(1,3,4) n k by (auto simp: scan_next_def outcome_def)
qed

lemma scan_while_outcome:
  assumes F: "F = fgs is_bg img im" "is_bg 0" "r < im_rows im" and n: "n \<le> im_cols im"
    and W: "\<And>k. win_next (W k) = W (Suc k)" "\<And>k. w_down (W k) = int (im_row im r + k)"
    and V: "\<And>k. win_next (V k) = V (Suc k)"
    and vW: "\<And>k. c0 \<le> k \<Longrightarrow> k < n \<Longrightarrow> view img im (W k) r k"
    and vV: "\<And>k lbl. c0 \<le> k \<Longrightarrow> k < n \<Longrightarrow> length (lbl :: nat list) = im_rows im * im_cols im \<Longrightarrow>
      inner_view lbl (label_image im) (V k) r k"
  shows "c0 \<le> c \<Longrightarrow> c \<le> n \<Longrightarrow> scan_inv conn F im r c lbl t \<Longrightarrow> lt_size t = sz \<Longrightarrow> lt_next t \<le> sz \<Longrightarrow>
    outcome conn F im r n sz (scan_while conn is_bg img (int (im_row im r + n)) (W c) (V c) (lbl, t))"
proof (induction "n - c" arbitrary: c lbl t)
  case 0
  then have "c = n" by simp
  then show ?case using 0 W(2) [of c] by (subst scan_while.simps) (auto simp: outcome_def scan_inv_def)
next
  case (Suc m)
  have cn: "c < n" using Suc.hyps(2) by simp
  have len: "length lbl = im_rows im * im_cols im" using Suc.prems(3) by (simp add: scan_inv_def)
  have fin: "finite F" by (simp add: F(1) finite_fgs)
  have "scan_next conn F im r c t (pixel_pass conn is_bg img (W c) lbl (V c) t)"
    using cn n by (intro pixel_pass_next [OF Suc.prems(3) F _ vW [OF Suc.prems(1) cn] vV [OF Suc.prems(1) cn len]]) simp
  then have 1: "outcome conn F im r (Suc c) sz (pixel_pass conn is_bg img (W c) lbl (V c) t)"
    using Suc.prems fresh_sub by (intro scan_next_outcome [where t = t and lbl = lbl]) (auto simp: fin)
  have "scan_while conn is_bg img (int (im_row im r + n)) (W c) (V c) (lbl, t) =
      try_bind (pixel_pass conn is_bg img (W c) lbl (V c) t)
        (scan_while conn is_bg img (int (im_row im r + n)) (W (Suc c)) (V (Suc c)))"
    using cn W V by (subst scan_while.simps) simp
  also have "outcome conn F im r n sz \<dots>"
  proof (rule outcome_bind [OF 1 fin])
    show "r < r \<or> r = r \<and> Suc c \<le> n" using cn by simp
    fix lbl' t'
    assume s: "scan_inv conn F im r (Suc c) lbl' t'" "lt_size t' = sz" "lt_next t' \<le> sz"
    then show "outcome conn F im r n sz
        (scan_while conn is_bg img (int (im_row im r + n)) (W (Suc c)) (V (Suc c)) (lbl', t'))"
      using s Suc cn by (intro Suc.hyps(1)) auto
  qed
  finally show ?case .
qed

lemma scan_first_row_outcome:
  assumes "im_ok im img" "F = fgs is_bg img im" "is_bg 0" "scan_inv conn F im 0 0 lbl t" "lt_size t = sz" "lt_next t \<le> sz"
  shows "outcome conn F im 0 (im_cols im) sz (scan_first_row conn is_bg img im (lbl, t))"
proof -
  have pos: "0 < im_rows im" "0 < im_cols im" using assms(1) by (simp_all add: im_ok_def)
  let ?W = "\<lambda>k. makeSafeWindow None (im_row im 0) (im_cols im) k"
  let ?V = "\<lambda>k. makeSafeWindow None 0 (im_cols im) k"
  have "outcome conn F im 0 (im_cols im) sz
      (scan_while conn is_bg img (int (im_row im 0 + im_cols im)) (?W 0) (?V 0) (lbl, t))"
  proof (rule scan_while_outcome [where c0 = 0 and W = ?W and V = ?V])
    show "view img im (?W k) 0 k" if "k < im_cols im" for k using safe_view [OF assms(1) pos(1) that] by simp
    show "inner_view lbl (label_image im) (?V k) 0 k" if "k < im_cols im" "length lbl = im_rows im * im_cols im" for k lbl
      using safe_view [OF label_image_ok [OF pos that(2)], of 0 k] pos that(1) by (simp add: view_inner)
  qed (use assms pos in \<open>auto simp: next_safe\<close>)
  then show ?thesis by (simp add: scan_first_row_def)
qed

lemma scan_row_outcome:
  assumes "im_ok im img" "F = fgs is_bg img im" "is_bg 0" "Suc row < im_rows im"
    and "scan_inv conn F im (Suc row) 0 lbl t" "lt_size t = sz" "lt_next t \<le> sz"
  shows "outcome conn F im (Suc row) (im_cols im) sz (scan_row conn is_bg img im row (lbl, t))"
proof -
  let ?r = "Suc row" and ?C = "im_cols im"
  have pos: "0 < im_rows im" "0 < ?C" using assms(1) by (simp_all add: im_ok_def)
  have fin: "finite F" by (simp add: assms(2) finite_fgs)
  have len: "length lbl = im_rows im * ?C" using assms(5) by (simp add: scan_inv_def)
  let ?V = "\<lambda>k. makeUnsafeWindow (row * ?C + k) (?r * ?C + k)"
  have vV: "inner_view lbl (label_image im) (?V k) ?r k" if "length lbl = im_rows im * ?C" "k < ?C" for lbl k
    using unsafe_inner_view [OF label_image_ok [OF pos that(1)], of ?r k] assms(4) that(2) by simp
  have "view img im (makeSafeWindow (Some (im_row im row)) (im_row im ?r) ?C 0) ?r 0"
    using safe_view [OF assms(1,4) pos(2)] by simp
  then have "scan_next conn F im ?r 0 t (pixel_pass conn is_bg img (makeSafeWindow (Some (im_row im row)) (im_row im ?r) ?C 0) lbl (?V 0) t)"
    using vV [OF len, of 0] pos by (intro pixel_pass_next assms) auto
  then have 0: "outcome conn F im ?r (Suc 0) sz
      (pixel_pass conn is_bg img (makeSafeWindow (Some (im_row im row)) (im_row im ?r) ?C 0) lbl (?V 0) t)"
    using assms(5-7) fresh_sub by (intro scan_next_outcome [where t = t and lbl = lbl]) (auto simp: fin)
  have next_V: "win_next (makeUnsafeWindow (row * ?C) ((row + 1) * ?C)) = ?V 1" by (simp add: next_unsafe)
  show ?thesis
    unfolding scan_row_def Let_def fst_conv snd_conv next_V
  proof (rule outcome_bind [where r = ?r and c = "Suc 0"])
    show "outcome conn F im ?r (Suc 0) sz (pixel_pass conn is_bg img (makeSafeWindow (Some (im_row im row)) (im_row im (row + 1)) ?C 0)
        lbl (makeUnsafeWindow (row * ?C) ((row + 1) * ?C)) t)" using 0 by simp
    show "?r < ?r \<or> ?r = ?r \<and> Suc 0 \<le> ?C" using pos by simp
  next
    fix lbl1 t1
    assume s1: "scan_inv conn F im ?r (Suc 0) lbl1 t1" "lt_size t1 = sz" and n1: "lt_next t1 \<le> sz"
    show "outcome conn F im ?r ?C sz
        (try_bind (scan_while conn is_bg img (int (im_row im (row + 1)) + int ?C - 1)
            (makeUnsafeWindow (im_row im row + 1) (im_row im (row + 1) + 1)) (?V 1) (lbl1, t1))
          (\<lambda>s2. if 1 < ?C
            then pixel_pass conn is_bg img (makeSafeWindow (Some (im_row im row)) (im_row im (row + 1)) ?C (?C - 1)) (fst s2)
              (makeSafeWindow (Some (row * ?C)) ((row + 1) * ?C) ?C (?C - 1)) (snd s2)
            else Some (Inr s2)))"
    proof (cases "1 < ?C")
      case False
      then have "?C = 1" using pos by simp
      then show ?thesis
        using s1 n1 by (subst scan_while.simps) (auto simp: makeUnsafeWindow_def try_bind_def outcome_def scan_inv_def)
    next
      case True
      let ?W = "\<lambda>k. makeUnsafeWindow (im_row im row + k) (im_row im ?r + k)"
      have e: "int (im_row im (row + 1)) + int ?C - 1 = int (im_row im ?r + (?C - 1))" using True by simp
      have w1: "makeUnsafeWindow (im_row im row + 1) (im_row im (row + 1) + 1) = ?W 1" by simp
      have 1: "outcome conn F im ?r (?C - 1) sz
          (scan_while conn is_bg img (int (im_row im ?r + (?C - 1))) (?W 1) (?V 1) (lbl1, t1))"
      proof (rule scan_while_outcome [where c0 = 1 and W = ?W and V = ?V])
        show "view img im (?W k) ?r k" if "1 \<le> k" "k < ?C - 1" for k
          using unsafe_view [OF assms(1), of ?r k] assms(4) that by simp
        show "inner_view lbl (label_image im) (?V k) ?r k"
          if "1 \<le> k" "k < ?C - 1" "length lbl = im_rows im * ?C" for k lbl using vV [OF that(3)] that(2) by simp
      qed (use assms s1 n1 True in \<open>auto simp: next_unsafe\<close>)
      show ?thesis
        unfolding e w1
      proof (rule outcome_bind [OF 1 fin])
        show "?r < ?r \<or> ?r = ?r \<and> ?C - 1 \<le> ?C" by simp
        fix lbl2 t2
        assume s2: "scan_inv conn F im ?r (?C - 1) lbl2 t2" "lt_size t2 = sz" and n2: "lt_next t2 \<le> sz"
        have len2: "length lbl2 = im_rows im * ?C" using s2 by (simp add: scan_inv_def)
        have "scan_next conn F im ?r (?C - 1) t2
            (pixel_pass conn is_bg img (makeSafeWindow (Some (im_row im row)) (im_row im ?r) ?C (?C - 1)) lbl2
              (makeSafeWindow (Some (row * ?C)) (?r * ?C) ?C (?C - 1)) t2)"
        proof (rule pixel_pass_next [OF s2(1) assms(2,3,4)])
          show "?C - 1 < ?C" using pos by simp
          then show "view img im (makeSafeWindow (Some (im_row im row)) (im_row im ?r) ?C (?C - 1)) ?r (?C - 1)"
            using safe_view [OF assms(1,4)] by simp
          show "inner_view lbl2 (label_image im) (makeSafeWindow (Some (row * ?C)) (?r * ?C) ?C (?C - 1)) ?r (?C - 1)"
            using safe_view [OF label_image_ok [OF pos len2], of ?r "?C - 1"] assms(4) pos by (simp add: view_inner)
        qed
        then have "outcome conn F im ?r (Suc (?C - 1)) sz
            (pixel_pass conn is_bg img (makeSafeWindow (Some (im_row im row)) (im_row im ?r) ?C (?C - 1)) lbl2
              (makeSafeWindow (Some (row * ?C)) (?r * ?C) ?C (?C - 1)) t2)"
          using s2 n2 fresh_sub by (intro scan_next_outcome [where t = t2 and lbl = lbl2]) (auto simp: fin)
        then show "outcome conn F im ?r ?C sz
            (if 1 < ?C then pixel_pass conn is_bg img (makeSafeWindow (Some (im_row im row)) (im_row im (row + 1)) ?C (?C - 1))
                (fst (lbl2, t2)) (makeSafeWindow (Some (row * ?C)) ((row + 1) * ?C) ?C (?C - 1)) (snd (lbl2, t2))
             else Some (Inr (lbl2, t2)))" using True by simp
      qed
    qed
  qed (rule fin)
qed

lemma scan_rows_outcome:
  assumes F: "im_ok im img" "F = fgs is_bg img im" "is_bg 0"
  shows "m < im_rows im \<Longrightarrow> k \<le> m \<Longrightarrow> scan_inv conn F im (Suc k) 0 lbl t \<Longrightarrow> lt_size t = sz \<Longrightarrow> lt_next t \<le> sz \<Longrightarrow>
    outcome conn F im (Suc m) 0 sz (try_fold (scan_row conn is_bg img im) [k..<m] (lbl, t))"
proof (induction "m - k" arbitrary: k lbl t)
  case 0
  then have "k = m" by simp
  then show ?case using 0 by (auto simp: outcome_def scan_inv_def)
next
  case (Suc d)
  have km: "k < m" using Suc.hyps(2) by simp
  have Fb: "F \<subseteq> {..<im_rows im} \<times> {..<im_cols im}" and fin: "finite F" by (simp_all add: F(2) fgs_bound finite_fgs)
  have 1: "outcome conn F im (Suc (Suc k)) 0 sz (scan_row conn is_bg img im k (lbl, t))"
    using scan_row_outcome [OF F] Suc.prems km unfolding outcome_row [OF Fb, symmetric] by auto
  have "outcome conn F im (Suc m) 0 sz
      (try_bind (scan_row conn is_bg img im k (lbl, t)) (try_fold (scan_row conn is_bg img im) [Suc k..<m]))"
  proof (rule outcome_bind [OF 1 fin])
    show "Suc (Suc k) < Suc m \<or> Suc (Suc k) = Suc m \<and> (0::nat) \<le> 0" using km by auto
    fix lbl' t'
    assume s: "scan_inv conn F im (Suc (Suc k)) 0 lbl' t'" "lt_size t' = sz" "lt_next t' \<le> sz"
    then show "outcome conn F im (Suc m) 0 sz (try_fold (scan_row conn is_bg img im) [Suc k..<m] (lbl', t'))"
      using s Suc km by (intro Suc.hyps(1)) auto
  qed
  then show ?case using km by (simp add: upt_conv_Cons)
qed

lemma scan_outcome:
  assumes "im_ok im img" "F = fgs is_bg img im" "is_bg 0" "length lbl = im_rows im * im_cols im"
    and "sz = lt_size (lt_reset label_max (im_rows im) (im_cols im) conn)" "0 < label_max"
  shows "outcome conn F im (im_rows im) 0 sz
    (try_bind (scan_first_row conn is_bg img im (lbl, lt_reset label_max (im_rows im) (im_cols im) conn))
      (try_fold (scan_row conn is_bg img im) [0..<im_rows im - 1]))"
proof -
  let ?t = "lt_reset label_max (im_rows im) (im_cols im) conn"
  have Fb: "F \<subseteq> {..<im_rows im} \<times> {..<im_cols im}" and fin: "finite F" by (simp_all add: assms(2) fgs_bound finite_fgs)
  have pos: "0 < im_rows im" using assms(1) by (simp add: im_ok_def)
  have "trees.labelled conn {} ?t (pix lbl (label_image im))"
    by (simp add: trees.labelled_def lt_ok_def lt_used_def lt_reset_def forest_def)
  then have i: "scan_inv conn F im 0 0 lbl ?t" using assms(4) by (simp add: scan_inv_def before_def lt_reset_def)
  have sz: "lt_next ?t \<le> sz" "lt_size ?t = sz"
    using assms(5,6) by (auto simp: lt_reset_def maxLabels_def Let_def split: connectivity.splits)
  have 0: "outcome conn F im (Suc 0) 0 sz (scan_first_row conn is_bg img im (lbl, ?t))"
    using scan_first_row_outcome [OF assms(1-3) i sz(2,1)] unfolding outcome_row [OF Fb] .
  have m: "im_rows im = Suc (im_rows im - 1)" using pos by simp
  show ?thesis
  proof (subst (1) m, rule outcome_bind [OF 0 fin])
    show "Suc 0 < Suc (im_rows im - 1) \<or> Suc 0 = Suc (im_rows im - 1) \<and> (0::nat) \<le> 0" by auto
    fix lbl' t'
    assume s: "scan_inv conn F im (Suc 0) 0 lbl' t'" "lt_size t' = sz" "lt_next t' \<le> sz"
    then show "outcome conn F im (Suc (im_rows im - 1)) 0 sz (try_fold (scan_row conn is_bg img im) [0..<im_rows im - 1] (lbl', t'))"
      using s pos by (intro scan_rows_outcome [OF assms(1-3)]) auto
  qed
qed

section \<open>Loops over the pixels of an image\<close>

text \<open>Rows do not overlap.\<close>

definition im_flat :: "image \<Rightarrow> bool" where
  "im_flat im \<longleftrightarrow> im_cols im \<le> im_step im"

lemma pixel_inj:
  assumes "im_flat im" "c < im_cols im" "c' < im_cols im" "im_row im r + c = im_row im r' + c'"
  shows "r = r' \<and> c = c'"
proof -
  have "r * im_step im + c = r' * im_step im + c'" using assms(4) by (simp add: im_row_def)
  moreover have "c < im_step im" "c' < im_step im" using assms(1-3) by (simp_all add: im_flat_def)
  ultimately have "c = c' \<and> r = r'" by (rule cell_index_inj)
  then show ?thesis by simp
qed

lemma pixels_set: "p \<in> set (im_pixels im) \<longleftrightarrow> fst p < im_rows im \<and> snd p < im_cols im"
  by (cases p) (auto simp: im_pixels_def)

lemma pixels_distinct: "distinct (im_pixels im)"
  by (simp add: im_pixels_def distinct_product)

lemma pixel_in: "im_ok im mem \<Longrightarrow> r < im_rows im \<Longrightarrow> c < im_cols im \<Longrightarrow> im_row im r + c < length mem"
  by (fastforce simp: im_ok_def)

text \<open>A loop that rewrites each pixel rewrites exactly the pixels.\<close>

lemma pixel_loop:
  assumes "im_ok im mem" "im_flat im"
    and "\<And>r c m. r < im_rows im \<Longrightarrow> c < im_cols im \<Longrightarrow> length m = length mem \<Longrightarrow>
      h (r, c) m = Some (m[im_row im r + c := g (r, c) (m ! (im_row im r + c))])"
  shows "\<exists>mem'. foldM h (im_pixels im) mem = Some mem' \<and> length mem' = length mem \<and>
    (\<forall>r < im_rows im. \<forall>c < im_cols im. pix mem' im (r, c) = g (r, c) (pix mem im (r, c))) \<and>
    (\<forall>k < length mem. (\<forall>r < im_rows im. \<forall>c < im_cols im. k \<noteq> im_row im r + c) \<longrightarrow> mem' ! k = mem ! k)"
proof -
  let ?pos = "\<lambda>p. im_row im (fst p) + snd p"
  define inv_pos where "inv_pos k = (THE p. p \<in> set (im_pixels im) \<and> ?pos p = k)" for k
  have inj: "inj_on ?pos (set (im_pixels im))"
  proof (rule inj_onI)
    fix p q
    assume "p \<in> set (im_pixels im)" "q \<in> set (im_pixels im)" "?pos p = ?pos q"
    then show "p = q"
      using pixel_inj [OF assms(2), of "snd p" "snd q" "fst p" "fst q"] by (simp add: pixels_set prod_eq_iff)
  qed
  have ip: "inv_pos (?pos p) = p" if "p \<in> set (im_pixels im)" for p
    unfolding inv_pos_def using that inj by (intro the_equality) (auto simp: inj_on_def)
  obtain mem' where m: "foldM h (im_pixels im) mem = Some mem'" "length mem' = length mem"
    "\<forall>k < length mem. mem' ! k = (if k \<in> ?pos ` set (im_pixels im) then g (inv_pos k) (mem ! k) else mem ! k)"
  proof -
    have "h p m = Some (m[?pos p := (\<lambda>k v. g (inv_pos k) v) (?pos p) (m ! ?pos p)])"
      if "p \<in> set (im_pixels im)" "length m = length mem" for p m
      using assms(3) [of "fst p" "snd p" m] that ip [OF that(1)] by (simp add: pixels_set)
    from foldM_cells [OF pixels_distinct inj this refl, where m = mem] show ?thesis using that by blast
  qed
  have "pix mem' im (r, c) = g (r, c) (pix mem im (r, c))" if "r < im_rows im" "c < im_cols im" for r c
  proof -
    have p: "(r, c) \<in> set (im_pixels im)" using that by (simp add: pixels_set)
    have "im_row im r + c \<in> ?pos ` set (im_pixels im)" using p by (rule rev_image_eqI) simp
    then show ?thesis using m(3) pixel_in [OF assms(1) that] ip [OF p] by (simp add: pix_def)
  qed
  moreover have "mem' ! k = mem ! k" if "k < length mem" "\<forall>r < im_rows im. \<forall>c < im_cols im. k \<noteq> im_row im r + c" for k
  proof -
    have "k \<notin> ?pos ` set (im_pixels im)"
    proof
      assume "k \<in> ?pos ` set (im_pixels im)"
      then obtain p where "k = ?pos p" "fst p < im_rows im" "snd p < im_cols im" by (auto simp: pixels_set)
      then show False using that(2) by blast
    qed
    then show ?thesis using m(3) that(1) by simp
  qed
  ultimately show ?thesis using m(1,2) by blast
qed

section \<open>Labelling is correct\<close>

text \<open>The labels of an image: 0 for the background, equal labels for linked pixels, no label unused.\<close>

definition components ::
    "connectivity \<Rightarrow> (nat \<times> nat) set \<Rightarrow> image \<Rightarrow> nat list \<Rightarrow> nat \<Rightarrow> bool" where
  "components conn F im labels k \<longleftrightarrow> length labels = im_rows im * im_cols im \<and> 0 < k \<and>
     (\<forall>r < im_rows im. \<forall>c < im_cols im. pix labels (label_image im) (r, c) < k \<and>
        (pix labels (label_image im) (r, c) = 0 \<longleftrightarrow> (r, c) \<notin> F)) \<and>
     (\<forall>p \<in> F. \<forall>q \<in> F. pix labels (label_image im) p = pix labels (label_image im) q \<longleftrightarrow> (p, q) \<in> linked conn F) \<and>
     (\<forall>m. 0 < m \<longrightarrow> m < k \<longrightarrow> (\<exists>p \<in> F. pix labels (label_image im) p = m))"

lemma try_bind_case: "try_bind x (\<lambda>(a, b). f a b) = try_bind x (\<lambda>s. f (fst s) (snd s))"
  by (simp add: case_prod_beta')

text \<open>The group of a pixel; the groups are as many as the fresh pixels when no two labels had to be united.\<close>

definition component :: "connectivity \<Rightarrow> (nat \<times> nat) set \<Rightarrow> nat \<times> nat \<Rightarrow> (nat \<times> nat) set" where
  "component conn F p = {q \<in> F. (p, q) \<in> linked conn F}"

definition no_unions :: "connectivity \<Rightarrow> (nat \<times> nat) set \<Rightarrow> bool" where
  "no_unions conn F \<longleftrightarrow> card (fresh conn F) = card (component conn F ` F)"

lemma card_image_same:
  assumes "\<forall>p \<in> F. \<forall>q \<in> F. f p = f q \<longleftrightarrow> g p = g q"
  shows "card (f ` F) = card (g ` F)"
proof -
  have g: "g (inv_into F f (f p)) = g p" if "p \<in> F" for p
    using assms that inv_into_into [of "f p" f F] f_inv_into_f [of "f p" f F] by blast
  have "(\<lambda>x. g (inv_into F f x)) ` f ` F = g ` F"
    unfolding image_image using g by (rule image_cong [OF refl])
  moreover have "inj_on (\<lambda>x. g (inv_into F f x)) (f ` F)"
    using g assms by (auto intro!: inj_onI)
  ultimately show ?thesis
    using card_image by metis
qed

text \<open>Every pixel is rewritten once, from the label it had after the scan; a label outside the table ends it.\<close>

lemma relabel:
  assumes "im_ok im lbl" "im_flat im"
  shows "if \<forall>r < im_rows im. \<forall>c < im_cols im. pix lbl im (r, c) < length tab
    then \<exists>labels. im_update (load tab) im lbl = Some labels \<and> length labels = length lbl \<and>
      (\<forall>r < im_rows im. \<forall>c < im_cols im. pix labels im (r, c) = tab ! pix lbl im (r, c))
    else im_update (load tab) im lbl = None"
proof -
  let ?pos = "\<lambda>p. im_row im (fst p) + snd p"
  define h where "h = (\<lambda>(r, c) m. do { v \<leftarrow> load m (im_row im r + c); v' \<leftarrow> load tab v; store m (im_row im r + c) v' })"
  have "if \<forall>p \<in> set ps. m ! ?pos p < length tab
    then \<exists>m'. foldM h ps m = Some m' \<and> length m' = length m \<and>
      (\<forall>p \<in> set (im_pixels im). m' ! ?pos p = (if p \<in> set ps then tab ! (m ! ?pos p) else m ! ?pos p))
    else foldM h ps m = None"
    if "distinct ps" "set ps \<subseteq> set (im_pixels im)" "length m = length lbl" for ps m
    using that
  proof (induction ps arbitrary: m)
    case Nil
    then show ?case by simp
  next
    case (Cons p ps)
    have pin: "p \<in> set (im_pixels im)" using Cons.prems(2) by simp
    then have i: "?pos p < length m"
      using Cons.prems(3) pixel_in [OF assms(1), of "fst p" "snd p"] by (simp add: pixels_set)
    show ?case
    proof (cases "m ! ?pos p < length tab")
      case False
      then have "h p m = None" using i by (cases p) (simp add: h_def load_def)
      then show ?thesis using False by simp
    next
      case True
      let ?m = "m[?pos p := tab ! (m ! ?pos p)]"
      have 1: "h p m = Some ?m" using i True by (cases p) (simp add: h_def load_def store_def)
      have ne: "?pos q \<noteq> ?pos p" if "q \<in> set (im_pixels im)" "q \<noteq> p" for q
        using pixel_inj [OF assms(2), of "snd q" "snd p" "fst q" "fst p"] that pin by (auto simp: pixels_set prod_eq_iff)
      have same: "?m ! ?pos q = m ! ?pos q" if "q \<in> set ps" for q
      proof -
        have "?pos q \<noteq> ?pos p" using ne [of q] Cons.prems(1,2) that by auto
        then show ?thesis by simp
      qed
      note IH = Cons.IH [of ?m]
      show ?thesis
      proof (cases "\<forall>q \<in> set ps. m ! ?pos q < length tab")
        case False
        then have "foldM h ps ?m = None" using IH Cons.prems same by (auto split: if_splits)
        then show ?thesis using False 1 by auto
      next
        case all: True
        then have below: "\<forall>q \<in> set ps. ?m ! ?pos q < length tab" using same by simp
        have "\<exists>m'. foldM h ps ?m = Some m' \<and> length m' = length ?m \<and>
          (\<forall>q \<in> set (im_pixels im). m' ! ?pos q = (if q \<in> set ps then tab ! (?m ! ?pos q) else ?m ! ?pos q))"
          by (rule IH [unfolded if_P [OF below]]) (use Cons.prems in auto)
        then obtain m' where m': "foldM h ps ?m = Some m'" "length m' = length ?m"
          "\<forall>q \<in> set (im_pixels im). m' ! ?pos q = (if q \<in> set ps then tab ! (?m ! ?pos q) else ?m ! ?pos q)"
          by blast
        have "m' ! ?pos q = (if q \<in> set (p # ps) then tab ! (m ! ?pos q) else m ! ?pos q)"
          if q: "q \<in> set (im_pixels im)" for q
          using m'(3) q ne [OF q] i Cons.prems(1) by (cases "q = p") auto
        then show ?thesis using 1 m'(1,2) all True by auto
      qed
    qed
  qed
  from this [OF pixels_distinct order_refl refl]
  have r: "if \<forall>p \<in> set (im_pixels im). lbl ! ?pos p < length tab
    then \<exists>m'. foldM h (im_pixels im) lbl = Some m' \<and> length m' = length lbl \<and>
      (\<forall>p \<in> set (im_pixels im). m' ! ?pos p = tab ! (lbl ! ?pos p))
    else foldM h (im_pixels im) lbl = None"
    by (auto split: if_splits)
  have pixs: "(\<forall>p \<in> set (im_pixels im). P p) \<longleftrightarrow> (\<forall>r < im_rows im. \<forall>c < im_cols im. P (r, c))" for P
    by (auto simp: pixels_set)
  have "im_update (load tab) im lbl = foldM h (im_pixels im) lbl"
    by (simp add: im_update_def h_def)
  then show ?thesis
    using r unfolding pixs by (auto simp: pix_def split: if_splits)
qed

lemma connectedComponents_effect:
  assumes "im_ok im img" "F = fgs is_bg img im" "is_bg 0" "0 < label_max"
    and "sz = lt_size (lt_reset label_max (im_rows im) (im_cols im) conn)"
  shows "if \<not> card (fresh conn F) < sz then connectedComponents label_max conn is_bg img im uninit = Some (Inl LabelOverflow)
    else if no_unions conn F
    then \<exists>labels k. connectedComponents label_max conn is_bg img im uninit = Some (Inr (labels, k)) \<and>
      components conn F im labels k \<and> k \<le> sz
    else connectedComponents label_max conn is_bg img im uninit = None"
proof -
  let ?li = "label_image im" and ?n = "im_rows im * im_cols im"
  let ?t = "lt_reset label_max (im_rows im) (im_cols im) conn" and ?lbl = "map uninit [0..<?n]"
  have Fb: "F \<subseteq> {..<im_rows im} \<times> {..<im_cols im}" by (simp add: assms(2) fgs_bound)
  have pos: "0 < im_rows im" "0 < im_cols im" using assms(1) by (simp_all add: im_ok_def)
  have FB: "F \<inter> before (im_rows im) 0 = F" "fresh conn F \<inter> before (im_rows im) 0 = fresh conn F"
    using Fb fresh_sub [of conn F] by (auto simp: before_def)
  let ?fin = "\<lambda>(lbl', t'). do {
      (labels_map, k) \<leftarrow> getLabels t';
      lbl'' \<leftarrow> im_update (load labels_map) ?li lbl';
      Some (Inr (lbl'', k))
    }"
  have run: "connectedComponents label_max conn is_bg img im uninit =
      try_bind (try_bind (scan_first_row conn is_bg img im (?lbl, ?t))
        (try_fold (scan_row conn is_bg img im) [0..<im_rows im - 1])) ?fin"
    using pos by (simp add: connectedComponents_def connectedComponentsImpl_def label_image_def try_bind_def
        split: option.splits sum.splits)
  have out: "outcome conn F im (im_rows im) 0 sz (try_bind (scan_first_row conn is_bg img im (?lbl, ?t))
        (try_fold (scan_row conn is_bg img im) [0..<im_rows im - 1]))"
    by (rule scan_outcome [OF assms(1-3) _ assms(5,4)]) simp
  show ?thesis
  proof (cases "card (fresh conn F) < sz")
    case False
    then show ?thesis using out unfolding run outcome_def FB by (simp add: try_bind_def)
  next
    case True
    obtain lbl t where s: "try_bind (scan_first_row conn is_bg img im (?lbl, ?t))
        (try_fold (scan_row conn is_bg img im) [0..<im_rows im - 1]) = Some (Inr (lbl, t))"
      "scan_inv conn F im (im_rows im) 0 lbl t" using out True unfolding outcome_def FB by auto
    have len: "length lbl = ?n" and l0: "\<And>r c. r < im_rows im \<Longrightarrow> c < im_cols im \<Longrightarrow> pix lbl ?li (r, c) = 0 \<longleftrightarrow> (r, c) \<notin> F"
      and lab: "trees.labelled conn F t (pix lbl ?li)" and nx: "lt_next t = Suc (card (fresh conn F))"
      using s(2) unfolding scan_inv_def FB by (auto simp: before_def)
    have ok: "lt_ok t" and us: "\<forall>p \<in> F. pix lbl ?li p \<in> lt_used t" "\<forall>l \<in> lt_used t. \<exists>p \<in> F. pix lbl ?li p = l"
      and sep: "\<forall>p \<in> F. \<forall>q \<in> F. lt_class t (pix lbl ?li p) = lt_class t (pix lbl ?li q) \<longleftrightarrow> (p, q) \<in> linked conn F"
      using lab by (simp_all add: trees.labelled_def)
    obtain tab k where g: "flatten_labels t = Some (tab, k)" "length tab = lt_next t" "tab ! 0 = 0" "1 \<le> k" "k \<le> lt_next t"
      "\<forall>i \<in> lt_used t. 1 \<le> tab ! i \<and> tab ! i < k"
      "\<forall>i \<in> lt_used t. \<forall>j \<in> lt_used t. tab ! i = tab ! j \<longleftrightarrow> lt_class t i = lt_class t j"
      "\<forall>m. 1 \<le> m \<longrightarrow> m < k \<longrightarrow> (\<exists>i \<in> lt_used t. tab ! i = m)"
      using flatten_classes [OF ok] by blast
    have gl: "getLabels t = Some (take k tab, k)"
      using g(1) by (simp add: getLabels_def)
    have inr: "fst p < im_rows im \<and> snd p < im_cols im" if "p \<in> F" for p using that Fb by auto
    have liok: "im_ok ?li lbl" by (rule label_image_ok [OF pos len])
    have flat: "im_flat ?li" by (simp add: im_flat_def label_image_def)
    have dims: "im_rows ?li = im_rows im" "im_cols ?li = im_cols im" by (simp_all add: label_image_def)
    have comp: "component conn F p = component conn F q \<longleftrightarrow> tab ! pix lbl ?li p = tab ! pix lbl ?li q" if "p \<in> F" "q \<in> F" for p q
    proof -
      have "component conn F a = {b \<in> F. lt_class t (pix lbl ?li a) = lt_class t (pix lbl ?li b)}" if "a \<in> F" for a
        using sep that by (auto simp: component_def)
      then show ?thesis using that g(7) us(1) by auto
    qed
    have "(\<lambda>p. tab ! pix lbl ?li p) ` F = {1..<k}"
      using us g(6,8) by (auto simp: image_iff) (metis Suc_le_eq)
    then have groups: "card (component conn F ` F) = k - 1"
      using card_image_same [of F "component conn F" "\<lambda>p. tab ! pix lbl ?li p"] comp by simp
    have fits: "no_unions conn F \<longleftrightarrow> k = lt_next t"
      using groups nx g(4) by (auto simp: no_unions_def)
    note upd = relabel [OF liok flat, of "take k tab", unfolded dims]
    show ?thesis
    proof (cases "no_unions conn F")
      case False
      then have "k < lt_next t" using fits g(5) by simp
      then have "k \<in> lt_used t" using g(4) by (simp add: lt_used_def)
      then obtain p where "p \<in> F" "pix lbl ?li p = k" using us(2) by blast
      then have "\<exists>r < im_rows im. \<exists>c < im_cols im. \<not> pix lbl ?li (r, c) < length (take k tab)"
        using inr by (intro exI [of _ "fst p"] exI [of _ "snd p"] conjI) auto
      then have "im_update (load (take k tab)) ?li lbl = None" using upd by (auto split: if_splits)
      then show ?thesis
        unfolding run s(1) using gl False True by (simp add: try_bind_def)
    next
      case nu: True
      then have all: "take k tab = tab" using fits g(2) by simp
      have "\<forall>r < im_rows im. \<forall>c < im_cols im. pix lbl ?li (r, c) < length tab"
        using l0 us(1) g(2) nx by (auto simp: lt_used_def) (metis less_Suc_eq_0_disj)
      then obtain labels where lb: "im_update (load tab) ?li lbl = Some labels" "length labels = ?n"
        "\<And>r c. r < im_rows im \<Longrightarrow> c < im_cols im \<Longrightarrow> pix labels ?li (r, c) = tab ! pix lbl ?li (r, c)"
        using upd len unfolding all by auto
      have res: "connectedComponents label_max conn is_bg img im uninit = Some (Inr (labels, k))"
        unfolding run s(1) using gl lb(1) all by (simp add: try_bind_def)
      have lp: "pix labels ?li p = tab ! pix lbl ?li p" if "p \<in> F" for p
        using lb(3) [of "fst p" "snd p"] inr [OF that] by simp
      have "components conn F im labels k"
        unfolding components_def
      proof (intro conjI allI impI ballI)
        fix r c
        assume rc: "r < im_rows im" "c < im_cols im"
        show "pix labels ?li (r, c) < k"
          using lb(3) [OF rc] l0 [OF rc] us(1) g(3,4,6) by (cases "(r, c) \<in> F") auto
        show "pix labels ?li (r, c) = 0 \<longleftrightarrow> (r, c) \<notin> F"
          using lb(3) [OF rc] l0 [OF rc] us(1) g(3,6) by (cases "(r, c) \<in> F") fastforce+
      next
        fix p q
        assume "p \<in> F" "q \<in> F"
        then show "pix labels ?li p = pix labels ?li q \<longleftrightarrow> (p, q) \<in> linked conn F"
          using lp us(1) g(7) sep by simp
      next
        fix m
        assume "0 < m" "m < k"
        then have "1 \<le> m" "m < k" by simp_all
        then obtain i where "i \<in> lt_used t" "tab ! i = m" using g(8) by blast
        then show "\<exists>p \<in> F. pix labels ?li p = m" using us(2) lp by fastforce
      qed (use lb(2) g(4) in auto)
      then show ?thesis using True nu res g(5) nx by auto
    qed
  qed
qed

end
