(* ===== verification/Denoise_Layer.thy ===== *)
theory Denoise_Layer
  imports Denoise_Scan Costmap_Windows
begin

text \<open>
  The denoise layer: groups of obstacle pixels smaller than a size are removed from the window of the
  costmap, by connected components or, for single pixels, by a dilation.
\<close>

section \<open>Removing groups\<close>

datatype denoise_error = LabelError label_error | ImageError image_error

definition histogram :: "image \<Rightarrow> nat list \<Rightarrow> nat \<Rightarrow> nat \<Rightarrow> nat list option" where
  "histogram im mem image_max bin_max =
     (if im_empty im then Some []
      else im_forEach (\<lambda>pixel h. do { v \<leftarrow> load h pixel; store h pixel (min (v + 1) bin_max) }) im mem
        (replicate (image_max + 1) 0))"

text \<open>
  \<open>groups_count - 1\<close> wraps to the largest label for an empty image, whose histogram has no bins; then
  \<open>front()\<close> is an access outside.
\<close>

definition removeGroupsImpl ::
    "nat \<Rightarrow> connectivity \<Rightarrow> (u8 \<Rightarrow> bool) \<Rightarrow> nat \<Rightarrow> (nat \<Rightarrow> nat) \<Rightarrow> image \<Rightarrow> u8 list \<Rightarrow>
     (denoise_error + u8 list) option" where
  "removeGroupsImpl label_max conn is_bg minimal_group_size uninit im img = do {
     cc \<leftarrow> connectedComponents label_max conn is_bg img im uninit;
     case cc of
       Inl e \<Rightarrow> Some (Inl (LabelError e))
     | Inr (labels, groups_count) \<Rightarrow> do {
         let lim = \<lparr>im_rows = im_rows im, im_cols = im_cols im, im_start = 0, im_step = im_cols im\<rparr>;
         let max_label_value = (if groups_count = 0 then label_max else groups_count - 1);
         sizes \<leftarrow> histogram lim labels max_label_value (minimal_group_size + 1);
         groups_sizes \<leftarrow> store sizes 0 0;
         let noise_labels_table = map (\<lambda>bin_value. bin_value < minimal_group_size) groups_sizes;
         r \<leftarrow> im_convert (\<lambda>src trg. if \<not> is_bg trg then do {
                  noise \<leftarrow> load noise_labels_table src;
                  Some (if noise then 0 else trg)
                } else Some trg) lim labels im img;
         case r of Inl e \<Rightarrow> Some (Inl (ImageError e)) | Inr img' \<Rightarrow> Some (Inr img')
       }
   }"

text \<open>The result is whether it succeeded, with the image; or the exception.\<close>

definition tryRemoveGroupsWithLabelType ::
    "nat \<Rightarrow> connectivity \<Rightarrow> (u8 \<Rightarrow> bool) \<Rightarrow> nat \<Rightarrow> (nat \<Rightarrow> nat) \<Rightarrow> image \<Rightarrow> u8 list \<Rightarrow> bool \<Rightarrow>
     (denoise_error + bool \<times> u8 list) option" where
  "tryRemoveGroupsWithLabelType label_max conn is_bg minimal_group_size uninit im img throw_on_label_overflow = do {
     r \<leftarrow> removeGroupsImpl label_max conn is_bg minimal_group_size uninit im img;
     case r of
       Inr img' \<Rightarrow> Some (Inr (True, img'))
     | Inl (LabelError e) \<Rightarrow> if throw_on_label_overflow then Some (Inl (LabelError e)) else Some (Inr (False, img))
     | Inl e \<Rightarrow> Some (Inl e)
   }"

text \<open>The state is whether the stored trees have 16-bit labels; it survives an exception.\<close>

definition removeGroupsPickLabelType ::
    "connectivity \<Rightarrow> (u8 \<Rightarrow> bool) \<Rightarrow> nat \<Rightarrow> (nat \<Rightarrow> nat) \<Rightarrow> image \<Rightarrow> u8 list \<Rightarrow> bool \<Rightarrow>
     (bool \<times> (denoise_error + u8 list)) option" where
  "removeGroupsPickLabelType conn is_bg minimal_group_size uninit im img is16 = do {
     r \<leftarrow> (if is16 then tryRemoveGroupsWithLabelType (2 ^ 16 - 1) conn is_bg minimal_group_size uninit im img False
           else Some (Inr (False, img)));
     case r of
       Inl e \<Rightarrow> Some (is16, Inl e)
     | Inr (success, img1) \<Rightarrow>
         if success then Some (is16, Inr img1)
         else do {
           r' \<leftarrow> tryRemoveGroupsWithLabelType (2 ^ 32 - 1) conn is_bg minimal_group_size uninit im img1 True;
           case r' of Inl e \<Rightarrow> Some (False, Inl e) | Inr (_, img2) \<Rightarrow> Some (False, Inr img2)
         }
   }"

section \<open>Dilation\<close>

type_synonym triple = "u8 \<times> u8 \<times> u8"

definition overlay :: "u8 list \<Rightarrow> triple \<Rightarrow> bool \<Rightarrow> nat \<Rightarrow> bool \<Rightarrow> triple option" where
  "overlay inp shape left i right = do {
     let (s0, s1, s2) = shape;
     x \<leftarrow> (if left then do { v \<leftarrow> load inp (i - 1); Some (v AND s0) } else Some 0);
     v \<leftarrow> load inp i;
     let y = v AND s1;
     z \<leftarrow> (if right then do { v \<leftarrow> load inp (i + 1); Some (v AND s2) } else Some 0);
     Some (x, y, z)
   }"

definition touch_pixel ::
    "(u8 \<Rightarrow> triple \<Rightarrow> u8) \<Rightarrow> u8 list \<Rightarrow> triple \<Rightarrow> bool \<Rightarrow> nat \<Rightarrow> bool \<Rightarrow> nat \<Rightarrow> u8 list \<Rightarrow> u8 list option" where
  "touch_pixel touch_fn inp shape left i right j out = do {
     ov \<leftarrow> overlay inp shape left i right;
     res \<leftarrow> load out j;
     store out j (touch_fn res ov)
   }"

definition probe_row ::
    "(u8 \<Rightarrow> triple \<Rightarrow> u8) \<Rightarrow> u8 list \<Rightarrow> triple \<Rightarrow> nat \<Rightarrow> nat \<Rightarrow> nat \<Rightarrow> u8 list \<Rightarrow> u8 list option" where
  "probe_row touch_fn inp shape columns i j out =
     (if columns = 1 then touch_pixel touch_fn inp shape False i False j out
      else do {
        out1 \<leftarrow> touch_pixel touch_fn inp shape False i True j out;
        out2 \<leftarrow> foldM (\<lambda>c. touch_pixel touch_fn inp shape True (i + c) True (j + c)) [1..<columns - 1] out1;
        touch_pixel touch_fn inp shape True (i + (columns - 1)) False (j + (columns - 1)) out2
      })"

definition probeRows ::
    "(u8 \<Rightarrow> triple \<Rightarrow> u8) \<Rightarrow> u8 list \<Rightarrow> image \<Rightarrow> nat \<Rightarrow> image \<Rightarrow> nat \<Rightarrow> triple \<Rightarrow> u8 list \<Rightarrow> u8 list option" where
  "probeRows touch_fn inp iim first_input_row oim first_output_row shape =
     foldM (\<lambda>r. probe_row touch_fn inp shape (im_cols iim) (im_row iim (r + first_input_row)) (im_row oim (r + first_output_row)))
       [0..<im_rows iim - max first_input_row first_output_row]"

text \<open>The structuring element as its three rows; it is 3 by 3 by its type.\<close>

type_synonym shape = "triple \<times> triple \<times> triple"

definition morphologyOperation ::
    "(triple \<Rightarrow> u8) \<Rightarrow> u8 list \<Rightarrow> image \<Rightarrow> image \<Rightarrow> shape \<Rightarrow> u8 list \<Rightarrow> (denoise_error + u8 list) option" where
  "morphologyOperation aggregate inp iim oim shape out =
     (if im_rows iim \<noteq> im_rows oim \<or> im_cols iim \<noteq> im_cols oim then Some (Inl (ImageError SizesDiffer))
      else if im_empty iim then Some (Inr out)
      else do {
        let (top, centre, bottom) = shape;
        let set_fn = (\<lambda>res lst. aggregate lst);
        let update_fn = (\<lambda>res lst. aggregate (res, aggregate lst, 0));
        out1 \<leftarrow> probeRows set_fn inp iim 0 oim 0 centre out;
        if im_rows iim > 1 then do {
          out2 \<leftarrow> probeRows update_fn inp iim 0 oim 1 top out1;
          out3 \<leftarrow> probeRows update_fn inp iim 1 oim 0 bottom out2;
          Some (Inr out3)
        } else Some (Inr out1)
      })"

definition createShape :: "connectivity \<Rightarrow> shape" where
  "createShape conn = (let u = 255; i = 0 in
     case conn of Way8 \<Rightarrow> ((u, u, u), (u, i, u), (u, u, u)) | Way4 \<Rightarrow> ((i, u, i), (u, i, u), (i, u, i)))"

definition dilate ::
    "u8 list \<Rightarrow> image \<Rightarrow> image \<Rightarrow> connectivity \<Rightarrow> (triple \<Rightarrow> u8) \<Rightarrow> u8 list \<Rightarrow> (denoise_error + u8 list) option" where
  "dilate inp iim oim conn max_function = morphologyOperation max_function inp iim oim (createShape conn)"

section \<open>The layer\<close>

record denoise_layer =
  dn_enabled :: bool
  dn_minimal_group_size :: nat
  dn_connectivity :: connectivity
  dn_no_information_is_obstacle :: bool
  dn_is16 :: bool
  dn_current :: bool

text \<open>\<open>onInitialize\<close> from the values of the parameters.\<close>

definition denoise_onInitialize :: "bool \<Rightarrow> int \<Rightarrow> int \<Rightarrow> denoise_layer" where
  "denoise_onInitialize enabled minimal_group_size group_connectivity_type =
     \<lparr>dn_enabled = enabled,
      dn_minimal_group_size = (if minimal_group_size \<le> 1 then 1 else nat minimal_group_size),
      dn_connectivity = (if group_connectivity_type = 4 then Way4 else Way8),
      dn_no_information_is_obstacle = False, dn_is16 = True, dn_current = True\<rparr>"

definition denoise_reset :: "denoise_layer \<Rightarrow> denoise_layer" where
  "denoise_reset l = l\<lparr>dn_current := False\<rparr>"

definition isBackground :: "bool \<Rightarrow> u8 \<Rightarrow> bool" where
  "isBackground no_information_is_obstacle pixel \<longleftrightarrow>
     \<not> (pixel = LETHAL_OBSTACLE \<or> pixel = INSCRIBED_INFLATED_OBSTACLE \<or>
        pixel = NO_INFORMATION \<and> no_information_is_obstacle)"

definition replace_to_free :: "u8 \<Rightarrow> u8" where
  "replace_to_free v = (if v = NO_INFORMATION then FREE_SPACE else v)"

text \<open>The two lambdas \<open>max\<close> of \<open>removeSinglePixels\<close>.\<close>

definition neighbour_max :: "bool \<Rightarrow> triple \<Rightarrow> u8" where
  "neighbour_max no_information_is_obstacle lst =
     (let (x, y, z) = lst in
      if \<not> no_information_is_obstacle
      then max (replace_to_free x) (max (replace_to_free y) (replace_to_free z))
      else max x (max y z))"

definition removeSinglePixels ::
    "connectivity \<Rightarrow> bool \<Rightarrow> (nat \<Rightarrow> u8) \<Rightarrow> image \<Rightarrow> u8 list \<Rightarrow> (denoise_error + u8 list) option" where
  "removeSinglePixels conn no_information_is_obstacle uninit im img = do {
     let oim = \<lparr>im_rows = im_rows im, im_cols = im_cols im, im_start = 0, im_step = im_cols im\<rparr>;
     d \<leftarrow> dilate img im oim conn (neighbour_max no_information_is_obstacle) (map uninit [0..<im_rows im * im_cols im]);
     case d of
       Inl e \<Rightarrow> Some (Inl e)
     | Inr out \<Rightarrow> do {
         r \<leftarrow> im_convert (\<lambda>maxNeighbor v.
             Some (if \<not> isBackground no_information_is_obstacle v \<and> isBackground no_information_is_obstacle maxNeighbor
                   then FREE_SPACE else v)) oim out im img;
         case r of Inl e \<Rightarrow> Some (Inl (ImageError e)) | Inr img' \<Rightarrow> Some (Inr img')
       }
   }"

text \<open>The layer and the image or the exception; \<open>uninit\<close> is the content of the buffer.\<close>

definition denoise ::
    "(nat \<Rightarrow> nat) \<Rightarrow> image \<Rightarrow> u8 list \<Rightarrow> denoise_layer \<Rightarrow> (denoise_layer \<times> (denoise_error + u8 list)) option" where
  "denoise uninit im img l =
     (if im_empty im then Some (l, Inr img)
      else if dn_minimal_group_size l \<le> 1 then Some (l, Inr img)
      else if dn_minimal_group_size l = 2 then
        map_option (Pair l) (removeSinglePixels (dn_connectivity l) (dn_no_information_is_obstacle l)
          (\<lambda>n. of_nat (uninit n)) im img)
      else do {
        (is16, r) \<leftarrow> removeGroupsPickLabelType (dn_connectivity l) (isBackground (dn_no_information_is_obstacle l))
          (dn_minimal_group_size l) uninit im img (dn_is16 l);
        Some (l\<lparr>dn_is16 := is16\<rparr>, r)
      })"

text \<open>\<open>min_y * step + min_x\<close> is computed in \<open>int\<close>.\<close>

definition denoise_updateCosts ::
    "(nat \<Rightarrow> nat) \<Rightarrow> costmap2d \<Rightarrow> int \<Rightarrow> int \<Rightarrow> int \<Rightarrow> int \<Rightarrow> denoise_layer \<Rightarrow> (denoise_layer \<times> costmap2d) option" where
  "denoise_updateCosts uninit master min_x min_y max_x max_y l =
     (if \<not> dn_enabled l then Some (l, master)
      else if max_x \<le> min_x \<or> max_y \<le> min_y then Some (l, master)
      else do {
        let l1 = l\<lparr>dn_no_information_is_obstacle := (cm_default master \<noteq> NO_INFORMATION)\<rparr>;
        master_array \<leftarrow> cm_costmap master;
        let step = sint (cm_size_x master);
        let start = min_y * step + min_x;
        if start < 0 \<or> 2 ^ 31 \<le> start \<or> 2 ^ 31 \<le> min_y * step \<or> step < 0 then None
        else do {
          let roi = \<lparr>im_rows = nat (max_y - min_y), im_cols = nat (max_x - min_x), im_start = nat start, im_step = nat step\<rparr>;
          (l2, r) \<leftarrow> denoise uninit roi master_array l1;
          case r of
            Inl e \<Rightarrow> Some (l2\<lparr>dn_current := True\<rparr>, master)
          | Inr array \<Rightarrow> Some (l2\<lparr>dn_current := True\<rparr>, master\<lparr>cm_costmap := Some array\<rparr>)
        }
      })"

end
