(* ===== verification/Denoise_Groups.thy ===== *)
theory Denoise_Groups
  imports Denoise_Layer
begin

text \<open>
  Both ways of removing groups compute one specification: an obstacle pixel whose component has fewer
  pixels than the minimal size becomes 0, every other byte of the memory stays.
\<close>

section \<open>The specification\<close>

definition denoised ::
    "connectivity \<Rightarrow> (u8 \<Rightarrow> bool) \<Rightarrow> nat \<Rightarrow> image \<Rightarrow> u8 list \<Rightarrow> u8 list \<Rightarrow> bool" where
  "denoised conn is_bg n im img img' \<longleftrightarrow> length img' = length img \<and>
     (\<forall>r < im_rows im. \<forall>c < im_cols im. pix img' im (r, c) =
        (if (r, c) \<in> fgs is_bg img im \<and> card (component conn (fgs is_bg img im) (r, c)) < n then 0
         else pix img im (r, c))) \<and>
     (\<forall>k < length img. (\<forall>r < im_rows im. \<forall>c < im_cols im. k \<noteq> im_row im r + c) \<longrightarrow> img' ! k = img ! k)"

text \<open>The specification determines the result.\<close>

lemma denoised_unique:
  assumes "denoised conn is_bg n im img a" "denoised conn is_bg n im img b"
  shows "a = b"
proof (rule nth_equalityI)
  show "length a = length b" using assms by (simp add: denoised_def)
  fix k
  assume k: "k < length a"
  show "a ! k = b ! k"
  proof (cases "\<exists>r < im_rows im. \<exists>c < im_cols im. k = im_row im r + c")
    case True
    then obtain r c where rc: "r < im_rows im" "c < im_cols im" "k = im_row im r + c" by blast
    then have "pix a im (r, c) = pix b im (r, c)" using assms by (simp add: denoised_def)
    then show ?thesis by (simp add: pix_def rc(3))
  next
    case False
    then have "a ! k = img ! k" "b ! k = img ! k" using assms k by (auto simp: denoised_def)
    then show ?thesis by simp
  qed
qed

section \<open>Histograms\<close>

lemma count_loop:
  fixes L :: "'p \<Rightarrow> nat"
  assumes "\<forall>p \<in> set ps. L p < length h" "\<forall>v < length h. h ! v \<le> b"
  shows "\<exists>h'. foldM (\<lambda>p h. do { v \<leftarrow> load h (L p); store h (L p) (min (v + 1) b) }) ps h = Some h' \<and>
    length h' = length h \<and> (\<forall>v < length h. h' ! v = min (h ! v + length (filter (\<lambda>p. L p = v) ps)) b)"
  using assms
proof (induction ps arbitrary: h)
  case Nil
  then show ?case by simp
next
  case (Cons p ps)
  let ?h = "h[L p := min (h ! L p + 1) b]"
  have p: "L p < length h" using Cons.prems(1) by simp
  obtain h' where h': "foldM (\<lambda>p h. do { v \<leftarrow> load h (L p); store h (L p) (min (v + 1) b) }) ps ?h = Some h'"
    "length h' = length ?h" "\<forall>v < length ?h. h' ! v = min (?h ! v + length (filter (\<lambda>p. L p = v) ps)) b"
  proof -
    have "\<forall>p \<in> set ps. L p < length ?h" "\<forall>v < length ?h. ?h ! v \<le> b"
      using Cons.prems by (auto simp: nth_list_update)
    from Cons.IH [OF this] show ?thesis using that by blast
  qed
  have "h' ! v = min (h ! v + length (filter (\<lambda>p. L p = v) (p # ps))) b" if "v < length h" for v
    using h'(3) that p by (cases "L p = v") auto
  then show ?case using p h' by (simp add: load_def store_def)
qed

lemma load_foldM:
  assumes "\<And>x. x \<in> set xs \<Longrightarrow> load mem (i x) = Some (mem ! i x)"
  shows "foldM (\<lambda>x s. do { v \<leftarrow> load mem (i x); f v s }) xs s = foldM (\<lambda>x. f (mem ! i x)) xs s"
  using assms
proof (induction xs arbitrary: s)
  case (Cons x xs)
  then show ?case by (cases "f (mem ! i x) s") simp_all
qed simp

lemma histogram_counts:
  assumes "im_ok im mem" "\<forall>r < im_rows im. \<forall>c < im_cols im. pix mem im (r, c) \<le> m"
  shows "\<exists>h. histogram im mem m b = Some h \<and> length h = Suc m \<and>
    (\<forall>v \<le> m. h ! v = min (card {p. fst p < im_rows im \<and> snd p < im_cols im \<and> pix mem im p = v}) b)"
proof -
  let ?i = "\<lambda>p. im_row im (fst p) + snd p"
  let ?h = "replicate (m + 1) (0::nat)"
  have L: "\<forall>p \<in> set (im_pixels im). pix mem im p < length ?h"
    using assms(2) by (auto simp: pixels_set less_Suc_eq_le)
  have z: "?h ! v = 0" if "v < length ?h" for v using that by (simp del: replicate_Suc)
  have Z: "\<forall>v < length ?h. ?h ! v \<le> b" using z by simp
  obtain h where h: "foldM (\<lambda>p h. do { v \<leftarrow> load h (pix mem im p); store h (pix mem im p) (min (v + 1) b) }) (im_pixels im) ?h = Some h"
    "length h = length ?h" "\<forall>v < length ?h. h ! v = min (?h ! v + length (filter (\<lambda>p. pix mem im p = v) (im_pixels im))) b"
    using count_loop [OF L Z] by blast
  have ld: "load mem (?i p) = Some (mem ! ?i p)" if "p \<in> set (im_pixels im)" for p
    using that pixel_in [OF assms(1), of "fst p" "snd p"] by (simp add: pixels_set load_def)
  have "im_forEach (\<lambda>pixel h. do { v \<leftarrow> load h pixel; store h pixel (min (v + 1) b) }) im mem ?h = Some h"
  proof -
    have "foldM (\<lambda>p s. do { v \<leftarrow> load mem (?i p); (\<lambda>pixel h. do { v \<leftarrow> load h pixel; store h pixel (min (v + 1) b) }) v s })
        (im_pixels im) ?h = Some h"
      using h(1) by (subst load_foldM [OF ld]) (simp_all add: pix_def)
    then show ?thesis by (simp add: im_forEach_def case_prod_beta')
  qed
  moreover have "length (filter (\<lambda>p. pix mem im p = v) (im_pixels im)) =
      card {p. fst p < im_rows im \<and> snd p < im_cols im \<and> pix mem im p = v}" for v
  proof -
    have "{p. fst p < im_rows im \<and> snd p < im_cols im \<and> pix mem im p = v} = set (filter (\<lambda>p. pix mem im p = v) (im_pixels im))"
      by (auto simp: pixels_set)
    then show ?thesis using distinct_card [of "filter (\<lambda>p. pix mem im p = v) (im_pixels im)"] pixels_distinct by simp
  qed
  moreover have "\<not> im_empty im" using assms(1) by (simp add: im_ok_def im_empty_def)
  ultimately show ?thesis using h(2,3) z by (auto simp: histogram_def less_Suc_eq_le)
qed

section \<open>Conversion\<close>

lemma convert_pixels:
  assumes "im_ok src smem" "im_ok trg tmem" "im_flat trg" "im_rows src = im_rows trg" "im_cols src = im_cols trg"
    and "\<And>r c v. r < im_rows trg \<Longrightarrow> c < im_cols trg \<Longrightarrow> f (pix smem src (r, c)) v = Some (g (pix smem src (r, c)) v)"
  shows "\<exists>tmem'. im_convert f src smem trg tmem = Some (Inr tmem') \<and> length tmem' = length tmem \<and>
    (\<forall>r < im_rows trg. \<forall>c < im_cols trg. pix tmem' trg (r, c) = g (pix smem src (r, c)) (pix tmem trg (r, c))) \<and>
    (\<forall>k < length tmem. (\<forall>r < im_rows trg. \<forall>c < im_cols trg. k \<noteq> im_row trg r + c) \<longrightarrow> tmem' ! k = tmem ! k)"
proof -
  let ?h = "\<lambda>(r, c) m. do {
      s \<leftarrow> load smem (im_row src r + c);
      t \<leftarrow> load m (im_row trg r + c);
      t' \<leftarrow> f s t;
      store m (im_row trg r + c) t'
    }"
  have px: "im_pixels src = im_pixels trg" using assms(4,5) by (simp add: im_pixels_def)
  have h: "?h (r, c) m = Some (m[im_row trg r + c := g (pix smem src (r, c)) (m ! (im_row trg r + c))])"
    if "r < im_rows trg" "c < im_cols trg" "length m = length tmem" for r c m
    using pixel_in [OF assms(1), of r c] pixel_in [OF assms(2), of r c] that assms(4-6)
    by (simp add: load_def store_def pix_def)
  show ?thesis
    using pixel_loop [OF assms(2,3), where h = ?h and g = "\<lambda>p. g (pix smem src p)", OF h] assms(4,5)
    unfolding im_convert_def px by auto
qed

section \<open>Groups\<close>

lemma component_sub: "component conn F p \<subseteq> F"
  by (auto simp: component_def)

lemma removeGroupsImpl_effect:
  assumes "im_ok im img" "im_flat im" "is_bg 0" "0 < label_max"
    and "F = fgs is_bg img im" "sz = lt_size (lt_reset label_max (im_rows im) (im_cols im) conn)"
  shows "if \<not> card (fresh conn F) < sz
    then removeGroupsImpl label_max conn is_bg n uninit im img = Some (Inl (LabelError LabelOverflow))
    else if no_unions conn F
    then \<exists>img'. removeGroupsImpl label_max conn is_bg n uninit im img = Some (Inr img') \<and> denoised conn is_bg n im img img'
    else removeGroupsImpl label_max conn is_bg n uninit im img = None"
proof (cases "card (fresh conn F) < sz \<and> no_unions conn F")
  case False
  then show ?thesis
    using connectedComponents_effect [OF assms(1,5,3,4,6), of uninit] by (auto simp: removeGroupsImpl_def split: if_splits)
next
  case True
  let ?li = "label_image im"
  obtain labels k where cc: "connectedComponents label_max conn is_bg img im uninit = Some (Inr (labels, k))"
    "components conn F im labels k"
    using connectedComponents_effect [OF assms(1,5,3,4,6), of uninit] True by auto
  have pos: "0 < im_rows im" "0 < im_cols im" using assms(1) by (simp_all add: im_ok_def)
  have len: "length labels = im_rows im * im_cols im" and k: "0 < k"
    and lk: "\<And>r c. r < im_rows im \<Longrightarrow> c < im_cols im \<Longrightarrow> pix labels ?li (r, c) < k \<and> (pix labels ?li (r, c) = 0 \<longleftrightarrow> (r, c) \<notin> F)"
    and sep: "\<And>p q. p \<in> F \<Longrightarrow> q \<in> F \<Longrightarrow> pix labels ?li p = pix labels ?li q \<longleftrightarrow> (p, q) \<in> linked conn F"
    using cc(2) unfolding components_def by blast+
  have lok: "im_ok ?li labels" by (rule label_image_ok [OF pos len])
  have Fb: "F \<subseteq> {..<im_rows im} \<times> {..<im_cols im}" by (simp add: assms(5) fgs_bound)
  obtain h where h: "histogram ?li labels (k - 1) (n + 1) = Some h" "length h = Suc (k - 1)"
    "\<forall>v \<le> k - 1. h ! v = min (card {p. fst p < im_rows im \<and> snd p < im_cols im \<and> pix labels ?li p = v}) (n + 1)"
    using histogram_counts [OF lok, of "k - 1" "n + 1"] lk by fastforce
  define noise where "noise = map (\<lambda>b. b < n) (h[0 := 0])"
  have nlen: "length noise = k" using h(2) k by (simp add: noise_def)
  have nz: "noise ! v \<longleftrightarrow> card (component conn F p) < n" if "p \<in> F" "v = pix labels ?li p" for p v
  proof -
    have p: "fst p < im_rows im" "snd p < im_cols im" using that(1) Fb by auto
    have v: "v < k" "v \<noteq> 0" using lk [OF p] that by auto
    have "{q. fst q < im_rows im \<and> snd q < im_cols im \<and> pix labels ?li q = v} = component conn F p"
    proof (rule set_eqI)
      fix q
      show "q \<in> {q. fst q < im_rows im \<and> snd q < im_cols im \<and> pix labels ?li q = v} \<longleftrightarrow> q \<in> component conn F p"
      proof (cases "q \<in> F")
        case True
        then show ?thesis using sep [OF that(1) True] that(2) Fb by (auto simp: component_def)
      next
        case False
        then show ?thesis using lk [of "fst q" "snd q"] v(2) by (auto simp: component_def)
      qed
    qed
    then show ?thesis using h(2,3) v by (auto simp: noise_def)
  qed
  let ?f = "\<lambda>src trg. if \<not> is_bg trg then do { nz \<leftarrow> load noise src; Some (if nz then 0 else trg) } else Some trg"
  let ?g = "\<lambda>src trg. if \<not> is_bg trg \<and> noise ! src then 0 else trg"
  have f: "?f (pix labels ?li (r, c)) v = Some (?g (pix labels ?li (r, c)) v)"
    if "r < im_rows im" "c < im_cols im" for r c v
    using lk [OF that] nlen by (simp add: load_def)
  obtain img' where img': "im_convert ?f ?li labels im img = Some (Inr img')" "length img' = length img"
    "\<forall>r < im_rows im. \<forall>c < im_cols im. pix img' im (r, c) = ?g (pix labels ?li (r, c)) (pix img im (r, c))"
    "\<forall>k < length img. (\<forall>r < im_rows im. \<forall>c < im_cols im. k \<noteq> im_row im r + c) \<longrightarrow> img' ! k = img ! k"
    using convert_pixels [OF lok assms(1,2), of ?f ?g] f by auto
  have "pix img' im (r, c) = (if (r, c) \<in> F \<and> card (component conn F (r, c)) < n then 0 else pix img im (r, c))"
    if rc: "r < im_rows im" "c < im_cols im" for r c
  proof -
    have "(r, c) \<in> F \<longleftrightarrow> \<not> is_bg (pix img im (r, c))" using rc by (simp add: assms(5) fgs_def)
    then show ?thesis using img'(3) rc nz [of "(r, c)", OF _ refl] by auto
  qed
  then have "denoised conn is_bg n im img img'" using img'(2,4) by (simp add: denoised_def assms(5))
  moreover have "removeGroupsImpl label_max conn is_bg n uninit im img = Some (Inr img')"
  proof -
    have "h \<noteq> []" using h(2) by auto
    then show ?thesis
      using cc(1) h(1) k img'(1) [unfolded noise_def] by (simp add: removeGroupsImpl_def store_def label_image_def)
  qed
  ultimately show ?thesis using True by simp
qed

lemma lt_size_mono: "a \<le> b \<Longrightarrow> lt_size (lt_reset a r c conn) \<le> lt_size (lt_reset b r c conn)"
  by (auto simp: lt_reset_def maxLabels_def Let_def)

text \<open>With 16-bit labels first and 32-bit labels when they do not suffice.\<close>

lemma pickLabelType_effect:
  assumes "im_ok im img" "im_flat im" "is_bg 0" "F = fgs is_bg img im"
    and "sz = lt_size (lt_reset (2 ^ 32 - 1) (im_rows im) (im_cols im) conn)"
  shows "if \<not> card (fresh conn F) < sz
    then removeGroupsPickLabelType conn is_bg n uninit im img is16 = Some (False, Inl (LabelError LabelOverflow))
    else if no_unions conn F
    then \<exists>st img'. removeGroupsPickLabelType conn is_bg n uninit im img is16 = Some (st, Inr img') \<and> denoised conn is_bg n im img img'
    else removeGroupsPickLabelType conn is_bg n uninit im img is16 = None"
proof -
  let ?sz16 = "lt_size (lt_reset (2 ^ 16 - 1) (im_rows im) (im_cols im) conn)"
  let ?run = "\<lambda>label_max. tryRemoveGroupsWithLabelType label_max conn is_bg n uninit im img"
  have le: "?sz16 \<le> sz" unfolding assms(5) by (rule lt_size_mono) simp
  note e16 = removeGroupsImpl_effect [OF assms(1-3) _ assms(4) refl, of "2 ^ 16 - 1" conn n uninit]
  note e32 = removeGroupsImpl_effect [OF assms(1-3) _ assms(4,5), of n uninit]
  have t32: "if \<not> card (fresh conn F) < sz then ?run (2 ^ 32 - 1) True = Some (Inl (LabelError LabelOverflow))
    else if no_unions conn F
    then \<exists>img'. ?run (2 ^ 32 - 1) True = Some (Inr (True, img')) \<and> denoised conn is_bg n im img img'
    else ?run (2 ^ 32 - 1) True = None"
    using e32 by (auto simp: tryRemoveGroupsWithLabelType_def split: if_splits)
  have t16: "if \<not> card (fresh conn F) < ?sz16 then ?run (2 ^ 16 - 1) False = Some (Inr (False, img))
    else if no_unions conn F
    then \<exists>img'. ?run (2 ^ 16 - 1) False = Some (Inr (True, img')) \<and> denoised conn is_bg n im img img'
    else ?run (2 ^ 16 - 1) False = None"
    using e16 by (auto simp: tryRemoveGroupsWithLabelType_def split: if_splits)
  show ?thesis
  proof (cases "is16 \<and> card (fresh conn F) < ?sz16")
    case True
    then have "card (fresh conn F) < sz" using le by simp
    then show ?thesis using t16 True by (auto simp: removeGroupsPickLabelType_def split: if_splits)
  next
    case False
    then have first: "(if is16 then ?run (2 ^ 16 - 1) False else Some (Inr (False, img))) = Some (Inr (False, img))"
      using t16 by auto
    show ?thesis unfolding removeGroupsPickLabelType_def first using t32 by (auto split: if_splits)
  qed
qed

end
