(* ===== verification/Denoise_Single.thy ===== *)
theory Denoise_Single
  imports Denoise_Groups
begin

text \<open>
  The fast removal of single pixels is the removal of groups smaller than two: the dilated image is an
  obstacle at exactly the pixels that have an obstacle neighbour.
\<close>

section \<open>Rows\<close>

lemma foldM_cong:
  assumes "\<And>x s. x \<in> set xs \<Longrightarrow> f x s = g x s"
  shows "foldM f xs s = foldM g xs s"
  using assms
proof (induction xs arbitrary: s)
  case (Cons x xs)
  then show ?case by (cases "g x s") simp_all
qed simp

lemma probe_row_foldM:
  assumes "0 < n"
  shows "probe_row f inp s n i j out =
    foldM (\<lambda>c. touch_pixel f inp s (0 < c) (i + c) (Suc c < n) (j + c)) [0..<n] out"
proof (cases "n = 1")
  case True
  then show ?thesis by (cases "touch_pixel f inp s False i False j out") (simp_all add: probe_row_def)
next
  case False
  then have n: "[0..<n] = 0 # [1..<n - 1] @ [n - 1]"
    using assms by (cases n; cases "n - 1") (simp_all add: upt_conv_Cons upt_Suc_append)
  have mid: "foldM (\<lambda>c. touch_pixel f inp s (0 < c) (i + c) (Suc c < n) (j + c)) [1..<n - 1] out' =
      foldM (\<lambda>c. touch_pixel f inp s True (i + c) True (j + c)) [1..<n - 1] out'" for out'
  proof (rule foldM_cong)
    fix x s'
    assume "x \<in> set [1..<n - 1]"
    then have "0 < x" "Suc x < n" by auto
    then show "touch_pixel f inp s (0 < x) (i + x) (Suc x < n) (j + x) s' =
        touch_pixel f inp s True (i + x) True (j + x) s'" by simp
  qed
  have last: "foldM (\<lambda>c. touch_pixel f inp s (0 < c) (i + c) (Suc c < n) (j + c)) [n - 1] out' =
      touch_pixel f inp s True (i + (n - 1)) False (j + (n - 1)) out'" for out'
    using False assms
    by (cases "touch_pixel f inp s True (i + (n - 1)) False (j + (n - 1)) out'") simp_all
  have tail: "foldM (\<lambda>c. touch_pixel f inp s True (i + c) True (j + c)) [1..<n - 1] out' \<bind>
      touch_pixel f inp s True (i + (n - 1)) False (j + (n - 1)) =
      foldM (\<lambda>c. touch_pixel f inp s (0 < c) (i + c) (Suc c < n) (j + c)) ([1..<n - 1] @ [n - 1]) out'" for out'
    unfolding foldM_append mid by (cases "foldM (\<lambda>c. touch_pixel f inp s True (i + c) True (j + c)) [1..<n - 1] out'")
      (simp_all only: last Option.bind.simps)
  have "probe_row f inp s n i j out =
      touch_pixel f inp s False i True j out \<bind> (\<lambda>out1.
        foldM (\<lambda>c. touch_pixel f inp s True (i + c) True (j + c)) [1..<n - 1] out1 \<bind>
        touch_pixel f inp s True (i + (n - 1)) False (j + (n - 1)))"
    using False by (simp only: probe_row_def if_False)
  also have "\<dots> = foldM (\<lambda>c. touch_pixel f inp s (0 < c) (i + c) (Suc c < n) (j + c)) (0 # [1..<n - 1] @ [n - 1]) out"
  proof -
    have "Suc 0 < n" using False assms by simp
    then show ?thesis
      unfolding foldM.simps(2) [of _ 0] tail by (simp only: add_0_right less_irrefl One_nat_def)
  qed
  finally show ?thesis unfolding n .
qed

text \<open>What is laid over a pixel of row \<open>r\<close> of the input.\<close>

definition laid :: "u8 list \<Rightarrow> image \<Rightarrow> triple \<Rightarrow> nat \<Rightarrow> nat \<Rightarrow> triple" where
  "laid inp im s r c =
     (if 0 < c then pix inp im (r, c - 1) AND fst s else 0, pix inp im (r, c) AND fst (snd s),
      if Suc c < im_cols im then pix inp im (r, Suc c) AND snd (snd s) else 0)"

lemma overlay_laid:
  assumes "im_ok im inp" "r < im_rows im" "c < im_cols im"
  shows "overlay inp s (0 < c) (im_row im r + c) (Suc c < im_cols im) = Some (laid inp im s r c)"
proof -
  have l: "im_row im r + k < length inp" if "k < im_cols im" for k using pixel_in [OF assms(1,2) that] .
  have p: "0 < c \<Longrightarrow> im_row im r + c - 1 = im_row im r + (c - 1)" by simp
  obtain s0 s1 s2 where s: "s = (s0, s1, s2)" by (cases s)
  show ?thesis
    using l [of "c - 1"] l [of c] l [of "Suc c"] assms(3) p
    by (auto simp: overlay_def laid_def s load_def pix_def)
qed

lemma probeRows_cells:
  assumes "im_ok im inp" "im_ok oim out" "im_flat oim" "im_rows oim = im_rows im" "im_cols oim = im_cols im"
  shows "\<exists>out'. probeRows f inp im i oim j s out = Some out' \<and> length out' = length out \<and>
    (\<forall>r < im_rows im. \<forall>c < im_cols im. pix out' oim (r, c) =
      (if j \<le> r \<and> r - j < im_rows im - max i j then f (pix out oim (r, c)) (laid inp im s (r - j + i) c)
       else pix out oim (r, c)))"
proof -
  let ?R = "im_rows im" and ?C = "im_cols im" and ?m = "im_rows im - max i j"
  let ?pos = "\<lambda>p. im_row oim (fst p + j) + snd p"
  let ?h = "\<lambda>p. touch_pixel f inp s (0 < snd p) (im_row im (fst p + i) + snd p) (Suc (snd p) < ?C) (?pos p)"
  let ?ps = "List.product [0..<?m] [0..<?C]"
  have pos: "0 < ?R" "0 < ?C" using assms(1) by (simp_all add: im_ok_def)
  have in_ps: "fst p + i < ?R" "fst p + j < ?R" "snd p < ?C" if "p \<in> set ?ps" for p using that by (auto simp: max_def split: if_splits)
  have inj: "inj_on ?pos (set ?ps)"
  proof (rule inj_onI)
    fix p q
    assume pq: "p \<in> set ?ps" "q \<in> set ?ps" "?pos p = ?pos q"
    then have "fst p + j = fst q + j \<and> snd p = snd q"
      using in_ps(3) [OF pq(1)] in_ps(3) [OF pq(2)] assms(5)
      by (intro pixel_inj [OF assms(3)]) simp_all
    then show "p = q" by (simp add: prod_eq_iff)
  qed
  define inv_pos where "inv_pos k = (THE p. p \<in> set ?ps \<and> ?pos p = k)" for k
  have ip: "inv_pos (?pos p) = p" if "p \<in> set ?ps" for p
    unfolding inv_pos_def using that inj by (intro the_equality) (auto simp: inj_on_def)
  let ?g = "\<lambda>k v. f v (laid inp im s (fst (inv_pos k) + i) (snd (inv_pos k)))"
  have h: "?h p m = Some (m[?pos p := ?g (?pos p) (m ! ?pos p)])" if "p \<in> set ?ps" "length m = length out" for p m
  proof -
    have "?pos p < length m"
      using pixel_in [OF assms(2), of "fst p + j" "snd p"] in_ps [OF that(1)] that(2) assms(4,5) by simp
    moreover have "overlay inp s (0 < snd p) (im_row im (fst p + i) + snd p) (Suc (snd p) < ?C) =
        Some (laid inp im s (fst p + i) (snd p))" using in_ps [OF that(1)] by (intro overlay_laid assms(1))
    ultimately show ?thesis unfolding ip [OF that(1)] by (simp add: touch_pixel_def load_def store_def)
  qed
  have dps: "distinct ?ps" by (simp add: distinct_product)
  obtain out' where o: "foldM ?h ?ps out = Some out'" "length out' = length out"
    "\<forall>k < length out. out' ! k = (if k \<in> ?pos ` set ?ps then ?g k (out ! k) else out ! k)"
    using foldM_cells [OF dps inj h refl] by blast
  have run: "probeRows f inp im i oim j s out = Some out'"
  proof -
    have "probeRows f inp im i oim j s out = foldM (\<lambda>r. foldM (\<lambda>c. ?h (r, c)) [0..<?C]) [0..<?m] out"
      unfolding probeRows_def by (rule foldM_cong) (simp add: probe_row_foldM [OF pos(2)])
    also have "\<dots> = foldM ?h ?ps out" unfolding foldM_product by (simp add: case_prod_beta')
    finally show ?thesis using o(1) by simp
  qed
  have "pix out' oim (r, c) = (if j \<le> r \<and> r - j < ?m then f (pix out oim (r, c)) (laid inp im s (r - j + i) c)
       else pix out oim (r, c))" if rc: "r < ?R" "c < ?C" for r c
  proof -
    have k: "im_row oim r + c < length out" using pixel_in [OF assms(2)] rc assms(4,5) by simp
    show ?thesis
    proof (cases "j \<le> r \<and> r - j < ?m")
      case True
      then have p: "(r - j, c) \<in> set ?ps" using rc by simp
      have e: "?pos (r - j, c) = im_row oim r + c" using True by simp
      have "im_row oim r + c \<in> ?pos ` set ?ps" using imageI [OF p, of ?pos] unfolding e .
      then show ?thesis using True o(3) k ip [OF p] e by (simp add: pix_def)
    next
      case False
      have "im_row oim r + c \<notin> ?pos ` set ?ps"
      proof
        assume "im_row oim r + c \<in> ?pos ` set ?ps"
        then obtain p where p: "p \<in> set ?ps" "im_row oim r + c = ?pos p" by blast
        then have "r = fst p + j" using pixel_inj [OF assms(3), of c "snd p" r "fst p + j"] in_ps [OF p(1)] rc assms(5) by simp
        then show False using False p(1) by auto
      qed
      then show ?thesis using False o(3) k by (auto simp: pix_def)
    qed
  qed
  then show ?thesis using run o(2) by blast
qed

section \<open>Obstacle neighbours\<close>

definition obst :: "bool \<Rightarrow> u8 \<Rightarrow> bool" where
  "obst ni v \<longleftrightarrow> \<not> isBackground ni v"

lemma u8_ge_253: "(253::u8) \<le> v \<longleftrightarrow> v = 253 \<or> v = 254 \<or> v = 255"
proof
  assume "(253::u8) \<le> v"
  then have "253 \<le> unat v" "unat v < 256" using unsigned_less [of v, where 'a = nat] by (simp_all add: word_le_nat_alt)
  then have "unat v = 253 \<or> unat v = 254 \<or> unat v = 255" by linarith
  then show "v = 253 \<or> v = 254 \<or> v = 255" by (auto simp: word_unat_eq_iff)
qed (auto simp: word_le_nat_alt)

lemma obst_ge: "obst True v \<longleftrightarrow> 253 \<le> v"
  unfolding u8_ge_253 by (auto simp: obst_def isBackground_def cost_values)

lemma obst_replaced: "obst False v \<longleftrightarrow> 253 \<le> replace_to_free v"
  unfolding u8_ge_253 by (auto simp: obst_def isBackground_def cost_values replace_to_free_def)

lemma obst_max: "obst ni (neighbour_max ni (x, y, z)) \<longleftrightarrow> obst ni x \<or> obst ni y \<or> obst ni z"
proof (cases ni)
  case True
  then show ?thesis by (simp add: neighbour_max_def obst_ge le_max_iff_disj)
next
  case False
  have "replace_to_free (neighbour_max False (x, y, z)) = neighbour_max False (x, y, z)"
    by (auto simp: neighbour_max_def replace_to_free_def max_def cost_values)
  then show ?thesis using False unfolding obst_replaced [symmetric]
    by (simp add: obst_replaced) (simp add: neighbour_max_def le_max_iff_disj)
qed

lemma obst_masks [simp]: "\<not> obst ni 0" "obst ni (v AND 255) = obst ni v" "\<not> obst ni (v AND 0)"
proof -
  have "(255::u8) = - 1" by simp
  then have "(v AND 255 :: u8) = v" by (simp only: and.right_neutral)
  then show "obst ni (v AND 255) = obst ni v" by simp
  show "\<not> obst ni 0" "\<not> obst ni (v AND 0)" by (simp_all add: obst_def isBackground_def cost_values)
qed

lemma obst_laid:
  "obst ni (neighbour_max ni (laid inp im s r c)) \<longleftrightarrow>
    0 < c \<and> obst ni (pix inp im (r, c - 1) AND fst s) \<or> obst ni (pix inp im (r, c) AND fst (snd s)) \<or>
    Suc c < im_cols im \<and> obst ni (pix inp im (r, Suc c) AND snd (snd s))"
  by (auto simp: laid_def obst_max)

text \<open>Having a neighbour with a property, spelt out.\<close>

lemma near4:
  assumes "r < R" "c < C"
  shows "(\<exists>q. adj Way4 (r, c) q \<and> fst q < R \<and> snd q < C \<and> P q) \<longleftrightarrow>
    0 < c \<and> P (r, c - 1) \<or> Suc c < C \<and> P (r, Suc c) \<or> 0 < r \<and> P (r - 1, c) \<or> Suc r < R \<and> P (Suc r, c)"
proof -
  have nb: "adj Way4 (r, c) q \<longleftrightarrow> 0 < c \<and> q = (r, c - 1) \<or> q = (r, Suc c) \<or> 0 < r \<and> q = (r - 1, c) \<or> q = (Suc r, c)" for q
    by (cases q) auto
  have "c - 1 < C" "r - 1 < R" using assms by simp_all
  then show ?thesis unfolding nb using assms by (simp add: conj_disj_distribR ex_disj_distrib)
qed

lemma near8:
  assumes "r < R" "c < C"
  shows "(\<exists>q. adj Way8 (r, c) q \<and> fst q < R \<and> snd q < C \<and> P q) \<longleftrightarrow>
    (0 < c \<and> P (r, c - 1) \<or> Suc c < C \<and> P (r, Suc c)) \<or>
    0 < r \<and> (0 < c \<and> P (r - 1, c - 1) \<or> P (r - 1, c) \<or> Suc c < C \<and> P (r - 1, Suc c)) \<or>
    Suc r < R \<and> (0 < c \<and> P (Suc r, c - 1) \<or> P (Suc r, c) \<or> Suc c < C \<and> P (Suc r, Suc c))"
proof -
  have one: "b \<le> Suc a \<and> a \<le> Suc b \<longleftrightarrow> 0 < b \<and> a = b - 1 \<or> a = b \<or> a = Suc b" for a b :: nat
    by arith
  have way8: "adj Way8 (r, c) q \<longleftrightarrow> (r, c) \<noteq> q \<and> (r \<le> Suc (fst q) \<and> fst q \<le> Suc r) \<and> (c \<le> Suc (snd q) \<and> snd q \<le> Suc c)" for q
    by (cases q) auto
  have nb: "adj Way8 (r, c) q \<longleftrightarrow> (0 < c \<and> q = (r, c - 1) \<or> q = (r, Suc c)) \<or>
      (0 < r \<and> 0 < c \<and> q = (r - 1, c - 1) \<or> 0 < r \<and> q = (r - 1, c) \<or> 0 < r \<and> q = (r - 1, Suc c)) \<or>
      (0 < c \<and> q = (Suc r, c - 1) \<or> q = (Suc r, c) \<or> q = (Suc r, Suc c))" for q
    unfolding way8 one by (cases q) auto
  have "c - 1 < C" "r - 1 < R" using assms by simp_all
  then show ?thesis unfolding nb using assms
    by (cases "0 < c"; cases "0 < r"; cases "Suc c < C"; cases "Suc r < R")
      (simp_all add: conj_disj_distribR ex_disj_distrib disj_ac)
qed

text \<open>The dilated image.\<close>

lemma dilate_obst:
  assumes "im_ok im inp" "length out = im_rows im * im_cols im"
  shows "\<exists>out'. dilate inp im (label_image im) conn (neighbour_max ni) out = Some (Inr out') \<and>
    length out' = length out \<and> (\<forall>r < im_rows im. \<forall>c < im_cols im. obst ni (pix out' (label_image im) (r, c)) \<longleftrightarrow>
      (\<exists>q. adj conn (r, c) q \<and> fst q < im_rows im \<and> snd q < im_cols im \<and> obst ni (pix inp im q)))"
proof -
  let ?R = "im_rows im" and ?C = "im_cols im" and ?o = "label_image im" and ?m = "neighbour_max ni"
  have pos: "0 < ?R" "0 < ?C" using assms(1) by (simp_all add: im_ok_def)
  have ook: "im_ok ?o (b :: u8 list)" if "length b = length out" for b
    using label_image_ok [OF pos] that assms(2) by simp
  have flat: "im_flat ?o" by (simp add: im_flat_def label_image_def)
  have ne: "\<not> im_empty im" using pos by (simp add: im_empty_def)
  obtain top centre bottom where sh: "createShape conn = (top, centre, bottom)" by (cases "createShape conn")
  let ?ob = "\<lambda>q. obst ni (pix inp im q)"
  let ?set = "\<lambda>res lst. ?m lst" and ?upd = "\<lambda>res lst. ?m (res, ?m lst, 0)"
  obtain o1 where o1: "probeRows ?set inp im 0 ?o 0 centre out = Some o1" "length o1 = length out"
    "\<forall>r < ?R. \<forall>c < ?C. pix o1 ?o (r, c) = (if 0 \<le> r \<and> r - 0 < ?R - max 0 0 then ?m (laid inp im centre (r - 0 + 0) c) else pix out ?o (r, c))"
    using probeRows_cells [OF assms(1) ook [OF refl] flat, of ?set 0 0 centre] by auto
  have p1: "obst ni (pix o1 ?o (r, c)) \<longleftrightarrow> obst ni (?m (laid inp im centre r c))" if "r < ?R" "c < ?C" for r c
    using o1(3) that by simp
  obtain o3 where o3: "dilate inp im ?o conn ?m out = Some (Inr o3)" "length o3 = length out"
    and p3: "\<And>r c. r < ?R \<Longrightarrow> c < ?C \<Longrightarrow> obst ni (pix o3 ?o (r, c)) \<longleftrightarrow> obst ni (?m (laid inp im centre r c)) \<or>
      0 < r \<and> obst ni (?m (laid inp im top (r - 1) c)) \<or> Suc r < ?R \<and> obst ni (?m (laid inp im bottom (Suc r) c))"
  proof (cases "?R > 1")
    case False
    then have "dilate inp im ?o conn ?m out = Some (Inr o1)"
      using o1(1) ne sh by (simp add: dilate_def morphologyOperation_def)
    then show ?thesis using that [of o1] o1(2) p1 False by auto
  next
    case True
    obtain o2 where o2: "probeRows ?upd inp im 0 ?o 1 top o1 = Some o2" "length o2 = length o1"
      "\<forall>r < ?R. \<forall>c < ?C. pix o2 ?o (r, c) = (if 1 \<le> r \<and> r - 1 < ?R - max 0 1
        then ?upd (pix o1 ?o (r, c)) (laid inp im top (r - 1 + 0) c) else pix o1 ?o (r, c))"
      using probeRows_cells [OF assms(1) ook [OF o1(2)] flat, of ?upd 0 1 top] by auto
    have len2: "length o2 = length out" using o2(2) o1(2) by simp
    obtain o3 where o3: "probeRows ?upd inp im 1 ?o 0 bottom o2 = Some o3" "length o3 = length o2"
      "\<forall>r < ?R. \<forall>c < ?C. pix o3 ?o (r, c) = (if 0 \<le> r \<and> r - 0 < ?R - max 1 0
        then ?upd (pix o2 ?o (r, c)) (laid inp im bottom (r - 0 + 1) c) else pix o2 ?o (r, c))"
      using probeRows_cells [OF assms(1) ook [OF len2] flat, of ?upd 1 0 bottom] by auto
    have run: "dilate inp im ?o conn ?m out = Some (Inr o3)"
      using o1(1) o2(1) o3(1) ne sh True by (simp add: dilate_def morphologyOperation_def)
    have p2: "obst ni (pix o2 ?o (r, c)) \<longleftrightarrow> obst ni (?m (laid inp im centre r c)) \<or>
        0 < r \<and> obst ni (?m (laid inp im top (r - 1) c))" if "r < ?R" "c < ?C" for r c
      using o2(3) p1 [OF that] that by (cases "0 < r") (auto simp: obst_max)
    have "obst ni (pix o3 ?o (r, c)) \<longleftrightarrow> obst ni (?m (laid inp im centre r c)) \<or>
      0 < r \<and> obst ni (?m (laid inp im top (r - 1) c)) \<or> Suc r < ?R \<and> obst ni (?m (laid inp im bottom (Suc r) c))"
      if "r < ?R" "c < ?C" for r c
      using o3(3) p2 [OF that] that by (cases "Suc r < ?R") (auto simp: obst_max)
    then show ?thesis using that [of o3] run o3(2) len2 by simp
  qed
  have "obst ni (pix o3 ?o (r, c)) \<longleftrightarrow> (\<exists>q. adj conn (r, c) q \<and> fst q < ?R \<and> snd q < ?C \<and> obst ni (pix inp im q))"
    if rc: "r < ?R" "c < ?C" for r c
  proof (cases conn)
    case Way4
    then have s: "top = (0, 255, 0)" "centre = (255, 0, 255)" "bottom = (0, 255, 0)"
      using sh by (auto simp: createShape_def)
    have "obst ni (pix o3 ?o (r, c)) \<longleftrightarrow> 0 < c \<and> ?ob (r, c - 1) \<or> Suc c < ?C \<and> ?ob (r, Suc c) \<or>
        0 < r \<and> ?ob (r - 1, c) \<or> Suc r < ?R \<and> ?ob (Suc r, c)"
      unfolding p3 [OF rc] obst_laid s using rc by simp
    then show ?thesis unfolding Way4 near4 [OF rc] .
  next
    case Way8
    then have s: "top = (255, 255, 255)" "centre = (255, 0, 255)" "bottom = (255, 255, 255)"
      using sh by (auto simp: createShape_def)
    have "obst ni (pix o3 ?o (r, c)) \<longleftrightarrow> (0 < c \<and> ?ob (r, c - 1) \<or> Suc c < ?C \<and> ?ob (r, Suc c)) \<or>
        0 < r \<and> (0 < c \<and> ?ob (r - 1, c - 1) \<or> ?ob (r - 1, c) \<or> Suc c < ?C \<and> ?ob (r - 1, Suc c)) \<or>
        Suc r < ?R \<and> (0 < c \<and> ?ob (Suc r, c - 1) \<or> ?ob (Suc r, c) \<or> Suc c < ?C \<and> ?ob (Suc r, Suc c))"
      unfolding p3 [OF rc] obst_laid s using rc by simp
    then show ?thesis unfolding Way8 near8 [OF rc] .
  qed
  then show ?thesis using o3 by blast
qed

text \<open>A component is a single pixel exactly when the pixel has no neighbour.\<close>

lemma single_component:
  assumes "finite F" "p \<in> F"
  shows "card (component conn F p) < 2 \<longleftrightarrow> (\<forall>q \<in> F. \<not> adj conn p q)"
proof
  assume card: "card (component conn F p) < 2"
  show "\<forall>q \<in> F. \<not> adj conn p q"
  proof (intro ballI notI)
    fix q
    assume q: "q \<in> F" "adj conn p q"
    then have "{p, q} \<subseteq> component conn F p"
      using assms(2) linked_adj [OF assms(2) q] by (simp add: component_def)
    moreover have "p \<noteq> q" using q(2) by (cases conn; cases p) auto
    moreover have "finite (component conn F p)" using assms(1) component_sub by (rule finite_subset [rotated])
    ultimately have "2 \<le> card (component conn F p)" using card_mono [of "component conn F p" "{p, q}"] by simp
    then show False using card by simp
  qed
next
  assume none: "\<forall>q \<in> F. \<not> adj conn p q"
  have "q = p" if "(p, q) \<in> linked conn F" for q
    using that unfolding linked_def by (induction rule: rtrancl_induct) (use none in auto)
  then have "component conn F p = {p}" using assms(2) by (auto simp: component_def)
  then show "card (component conn F p) < 2" by simp
qed

lemma removeSinglePixels_effect:
  assumes "im_ok im img" "im_flat im"
  shows "\<exists>img'. removeSinglePixels conn ni uninit im img = Some (Inr img') \<and>
    denoised conn (isBackground ni) 2 im img img'"
proof -
  let ?o = "label_image im" and ?F = "fgs (isBackground ni) img im"
  have pos: "0 < im_rows im" "0 < im_cols im" using assms(1) by (simp_all add: im_ok_def)
  obtain out where out: "dilate img im ?o conn (neighbour_max ni) (map uninit [0..<im_rows im * im_cols im]) = Some (Inr out)"
    "length out = im_rows im * im_cols im"
    "\<forall>r < im_rows im. \<forall>c < im_cols im. obst ni (pix out ?o (r, c)) \<longleftrightarrow>
      (\<exists>q. adj conn (r, c) q \<and> fst q < im_rows im \<and> snd q < im_cols im \<and> obst ni (pix img im q))"
    using dilate_obst [OF assms(1), of "map uninit [0..<im_rows im * im_cols im]" conn ni] by auto
  let ?g = "\<lambda>m v. if \<not> isBackground ni v \<and> isBackground ni m then FREE_SPACE else v"
  have ook: "im_ok ?o out" by (rule label_image_ok [OF pos out(2)])
  obtain img' where img': "im_convert (\<lambda>m v. Some (?g m v)) ?o out im img = Some (Inr img')" "length img' = length img"
    "\<forall>r < im_rows im. \<forall>c < im_cols im. pix img' im (r, c) = ?g (pix out ?o (r, c)) (pix img im (r, c))"
    "\<forall>k < length img. (\<forall>r < im_rows im. \<forall>c < im_cols im. k \<noteq> im_row im r + c) \<longrightarrow> img' ! k = img ! k"
    using convert_pixels [OF ook assms(1,2), of "\<lambda>m v. Some (?g m v)" ?g] by auto
  have "pix img' im (r, c) = (if (r, c) \<in> ?F \<and> card (component conn ?F (r, c)) < 2 then 0 else pix img im (r, c))"
    if rc: "r < im_rows im" "c < im_cols im" for r c
  proof -
    have F: "q \<in> ?F \<longleftrightarrow> fst q < im_rows im \<and> snd q < im_cols im \<and> obst ni (pix img im q)" for q
      by (simp add: fgs_def obst_def)
    have bg: "isBackground ni (pix out ?o (r, c)) \<longleftrightarrow> (\<forall>q \<in> ?F. \<not> adj conn (r, c) q)"
    proof -
      have "obst ni (pix out ?o (r, c)) \<longleftrightarrow> (\<exists>q \<in> ?F. adj conn (r, c) q)"
        using out(3) rc unfolding Bex_def F by blast
      then show ?thesis by (auto simp: obst_def)
    qed
    show ?thesis
    proof (cases "(r, c) \<in> ?F")
      case True
      then have "\<not> isBackground ni (pix img im (r, c))" by (simp add: fgs_def)
      then show ?thesis using img'(3) rc bg True single_component [OF finite_fgs True, of conn] by (simp add: FREE_SPACE_def)
    next
      case False
      then have "isBackground ni (pix img im (r, c))" using rc by (simp add: fgs_def)
      then show ?thesis using img'(3) rc False by simp
    qed
  qed
  then have "denoised conn (isBackground ni) 2 im img img'" using img'(2,4) by (simp add: denoised_def)
  then show ?thesis using out(1) img'(1) by (simp add: removeSinglePixels_def label_image_def)
qed

end
