(* ===== verification/Denoise_Labels.thy ===== *)
theory Denoise_Labels
  imports Denoise_Single
begin

text \<open>
  How many labels an image needs. The pixels that get a label of their own are pairwise not adjacent, so
  at most one of every two pixels along a snake (4-connected) or one of every 2 by 2 block (8-connected)
  does. The labels reserved suffice, but for 8-connected windows of one row or column.
\<close>

section \<open>Pixels with labels of their own\<close>

lemma fresh_apart:
  assumes "p \<in> fresh conn F" "q \<in> fresh conn F"
  shows "\<not> adj conn p q"
proof (cases "p = q")
  case True
  then show ?thesis by (cases conn; cases p) auto
next
  case False
  then have "q \<in> before (fst p) (snd p) \<or> p \<in> before (fst q) (snd q)"
    by (auto simp: before_def prod_eq_iff)
  then show ?thesis using assms adj_sym [of conn p q] by (auto simp: fresh_def)
qed

lemma card_inj_below:
  assumes "inj_on f S" "\<And>p. p \<in> S \<Longrightarrow> f p < (n::nat)"
  shows "card S \<le> n"
proof -
  have "card S = card (f ` S)" using assms(1) by (simp add: card_image)
  also have "\<dots> \<le> card {..<n}" using assms(2) by (intro card_mono) auto
  finally show ?thesis by simp
qed

text \<open>The position of a pixel along the rows, odd rows backwards.\<close>

definition snake :: "nat \<Rightarrow> nat \<times> nat \<Rightarrow> nat" where
  "snake C p = fst p * C + (if even (fst p) then snd p else C - Suc (snd p))"

lemma snake_col: "snd p < C \<Longrightarrow> (if even (fst p) then snd p else C - Suc (snd p)) < C"
  by (cases "even (fst p)") simp_all

lemma snake_less: "fst p < R \<Longrightarrow> snd p < C \<Longrightarrow> snake C p < R * C"
  using snake_col [of p C] mult_le_mono1 [of "Suc (fst p)" R C] by (simp add: snake_def)

lemma snake_inj:
  assumes "snd p < C" "snd q < C" "snake C p = snake C q"
  shows "p = q"
proof -
  let ?s = "\<lambda>p. if even (fst p) then snd p else C - Suc (snd p)"
  have "?s p = ?s q \<and> fst p = fst q"
    using assms(3) snake_col [OF assms(1)] snake_col [OF assms(2)] unfolding snake_def by (rule cell_index_inj)
  then show ?thesis using assms(1,2) by (auto simp: prod_eq_iff split: if_splits)
qed

lemma snake_step:
  assumes "snd p < C" "snd q < C" "snake C q = Suc (snake C p)"
  shows "adj Way4 p q"
proof -
  let ?s = "\<lambda>p. if even (fst p) then snd p else C - Suc (snd p)"
  have e: "fst q * C + ?s q = Suc (fst p * C + ?s p)" using assms(3) unfolding snake_def .
  have s: "?s p < C" "?s q < C" by (rule snake_col [OF assms(1)], rule snake_col [OF assms(2)])
  obtain r c r' c' where pq: "p = (r, c)" "q = (r', c')" by (cases p; cases q)
  show ?thesis
  proof (cases "Suc (?s p) < C")
    case True
    have "?s q = Suc (?s p) \<and> fst q = fst p"
      using e s(2) True by (intro cell_index_inj) simp_all
    then show ?thesis using assms(1,2) by (auto simp: pq split: if_splits)
  next
    case False
    then have last: "?s p = C - 1" "0 < C" using s(1) by auto
    then have "fst q * C + ?s q = Suc (fst p) * C + 0" using e by simp
    then have "?s q = 0 \<and> fst q = Suc (fst p)" using s(2) last(2) by (intro cell_index_inj)
    then show ?thesis using last assms(1,2) by (auto simp: pq split: if_splits)
  qed
qed

lemma fresh4_bound:
  assumes "F \<subseteq> {..<R} \<times> {..<C}"
  shows "card (fresh Way4 F) \<le> (R * C + 1) div 2"
proof (rule card_inj_below)
  let ?S = "fresh Way4 F"
  have b: "fst p < R" "snd p < C" if "p \<in> ?S" for p using that assms fresh_sub [of Way4 F] by auto
  show "inj_on (\<lambda>p. snake C p div 2) ?S"
  proof (rule inj_onI)
    fix p q
    assume pq: "p \<in> ?S" "q \<in> ?S" "snake C p div 2 = snake C q div 2"
    have "snake C p = snake C q \<or> snake C q = Suc (snake C p) \<or> snake C p = Suc (snake C q)"
      using pq(3) by linarith
    then show "p = q"
      using snake_inj [of p C q] snake_step [of p C q] snake_step [of q C p] b [OF pq(1)] b [OF pq(2)]
        fresh_apart [OF pq(1,2)] fresh_apart [OF pq(2,1)] by auto
  qed
  fix p
  assume p: "p \<in> ?S"
  then show "snake C p div 2 < (R * C + 1) div 2" using snake_less [OF b [OF p]] by linarith
qed

lemma fresh8_bound:
  assumes "F \<subseteq> {..<R} \<times> {..<C}"
  shows "card (fresh Way8 F) \<le> ((R + 1) div 2) * ((C + 1) div 2)"
proof (rule card_inj_below)
  let ?S = "fresh Way8 F" and ?w = "(C + 1) div 2"
  have b: "fst p < R" "snd p < C" if "p \<in> ?S" for p using that assms fresh_sub [of Way8 F] by auto
  show "inj_on (\<lambda>p. fst p div 2 * ?w + snd p div 2) ?S"
  proof (rule inj_onI)
    fix p q
    assume pq: "p \<in> ?S" "q \<in> ?S" "fst p div 2 * ?w + snd p div 2 = fst q div 2 * ?w + snd q div 2"
    have "snd p div 2 < ?w" "snd q div 2 < ?w" using b(2) [OF pq(1)] b(2) [OF pq(2)] by linarith+
    then have e: "snd p div 2 = snd q div 2 \<and> fst p div 2 = fst q div 2"
      using pq(3) by (intro cell_index_inj)
    then have "fst p \<le> Suc (fst q) \<and> fst q \<le> Suc (fst p) \<and> snd p \<le> Suc (snd q) \<and> snd q \<le> Suc (snd p)" by linarith
    then show "p = q" using fresh_apart [OF pq(1,2)] by (cases p; cases q) auto
  qed
  fix p
  assume p: "p \<in> ?S"
  have lt: "fst p div 2 < (R + 1) div 2" "snd p div 2 < ?w" using b [OF p] by linarith+
  have "Suc (fst p div 2) * ?w \<le> ((R + 1) div 2) * ?w" using lt(1) by (intro mult_le_mono1) simp
  then show "fst p div 2 * ?w + snd p div 2 < ((R + 1) div 2) * ?w" using lt(2) unfolding mult_Suc by linarith
qed

section \<open>The labels reserved\<close>

lemma blocks_third:
  assumes "2 \<le> R" "2 \<le> C"
  shows "((R + 1) div 2) * ((C + 1) div 2) < R * C div 3 + (2::nat)"
proof -
  define a b where "a = (R + 1) div 2" and "b = (C + 1) div 2"
  have a: "2 * a \<le> R + 1" "1 \<le> a" "R \<le> 2 * a" and b: "2 * b \<le> C + 1" "1 \<le> b" "C \<le> 2 * b"
    using assms unfolding a_def b_def by linarith+
  have "3 * (a * b) \<le> R * C + 3"
  proof (cases "a = 1 \<or> b = 1")
    case True
    then have "a = 1 \<and> 2 * C \<le> R * C \<or> b = 1 \<and> R * 2 \<le> R * C" using assms by (auto intro: mult_le_mono)
    then show ?thesis using a b by auto
  next
    case False
    then have ge: "2 \<le> a" "2 \<le> b" using a(2) b(2) by simp_all
    then obtain x y where xy: "a = x + 2" "b = y + 2" by (metis le_Suc_ex add.commute)
    have "(2 * a - 1) * (2 * b - 1) \<le> R * C" using a(1) b(1) by (intro mult_le_mono) simp_all
    moreover have "(2 * a - 1) * (2 * b - 1) = 4 * (x * y) + 6 * x + 6 * y + 9" by (simp add: xy algebra_simps)
    moreover have "3 * (a * b) = 3 * (x * y) + 6 * x + 6 * y + 12" by (simp add: xy algebra_simps)
    ultimately show ?thesis by simp
  qed
  then have "3 * (a * b) \<le> R * C + 3" .
  then have "a * b < R * C div 3 + 2" by linarith
  then show ?thesis by (simp add: a_def b_def)
qed

lemma enough_labels:
  assumes "F \<subseteq> {..<R} \<times> {..<C}" "R * C < 2 ^ 32" "conn = Way4 \<or> 2 \<le> R \<and> 2 \<le> C"
  shows "card (fresh conn F) < lt_size (lt_reset (2 ^ 32 - 1) R C conn)"
proof (cases conn)
  case Way4
  then show ?thesis using fresh4_bound [OF assms(1)] assms(2)
    by (auto simp: lt_reset_def maxLabels_def Let_def)
next
  case Way8
  then have "2 \<le> R" "2 \<le> C" using assms(3) by simp_all
  from blocks_third [OF this] have "card (fresh Way8 F) < R * C div 3 + 2" using fresh8_bound [OF assms(1)] by simp
  moreover have "R * C div 3 + 2 < 2 ^ 32 - 1" using assms(2) by simp
  ultimately show ?thesis unfolding Way8 by (simp add: lt_reset_def maxLabels_def Let_def)
qed

text \<open>In a single row no two pixels one apart are neighbours.\<close>

definition comb :: "nat \<Rightarrow> (nat \<times> nat) set" where
  "comb n = {p. fst p = 0 \<and> snd p < n \<and> even (snd p)}"

lemma comb_fresh: "fresh conn (comb n) = comb n"
proof -
  have "\<not> adj conn p q" if mem: "p \<in> comb n" "q \<in> comb n" "q \<in> before (fst p) (snd p)" for p q
  proof -
    obtain c c' where pq: "p = (0, c)" "q = (0, c')" "even c" "even c'" "c' < c"
      using mem by (cases p; cases q) (auto simp: comb_def before_def)
    then have "Suc c' < c" by presburger
    then show ?thesis by (cases conn) (simp_all add: pq)
  qed
  then show ?thesis by (auto simp: fresh_def)
qed

lemma comb_card: "card (comb n) = (n + 1) div 2"
proof -
  have "comb n = (\<lambda>k. (0, 2 * k)) ` {..<(n + 1) div 2}"
    by (auto simp: comb_def image_iff elim!: evenE)
  then show ?thesis by (simp add: card_image inj_on_def)
qed

lemma comb_overflows:
  assumes "n = 5 \<or> 7 \<le> n"
  shows "\<not> card (fresh Way8 (comb n)) < lt_size (lt_reset m 1 n Way8)"
proof -
  have "n div 3 + 2 \<le> (n + 1) div 2"
  proof (cases "12 \<le> n")
    case True
    then show ?thesis by linarith
  next
    case False
    then have "n = 5 \<or> n = 7 \<or> n = 8 \<or> n = 9 \<or> n = 10 \<or> n = 11" using assms by linarith
    then show ?thesis by (elim disjE) simp_all
  qed
  then show ?thesis unfolding comb_fresh comb_card by (simp add: lt_reset_def maxLabels_def Let_def)
qed

end
