(* ===== verification/Denoise_Props.thy ===== *)
theory Denoise_Props
  imports Denoise_Labels Costmap_Layers
begin

text \<open>
  What the denoise layer guarantees: the labelling of components, the removal of small groups, the
  agreement of its two algorithms, the labels it needs, and its effect on the master costmap.
\<close>

section \<open>Groups\<close>

lemma background_zero: "isBackground ni 0"
  by (simp add: isBackground_def cost_values)

lemma denoised_small:
  assumes "n \<le> 1"
  shows "denoised conn is_bg n im img img"
proof -
  have "\<not> card (component conn (fgs is_bg img im) p) < n" if "p \<in> fgs is_bg img im" for p
  proof -
    have "finite (component conn (fgs is_bg img im) p)" using finite_fgs component_sub by (rule finite_subset [rotated])
    moreover have "p \<in> component conn (fgs is_bg img im) p" using that by (simp add: component_def)
    ultimately have "0 < card (component conn (fgs is_bg img im) p)" by (auto simp: card_gt_0_iff)
    then show ?thesis using assms by simp
  qed
  then show ?thesis by (auto simp: denoised_def)
qed

lemma pickLabelType_enough:
  assumes "im_ok im img" "im_flat im" "is_bg 0" "im_rows im * im_cols im < 2 ^ 32"
    and "conn = Way4 \<or> 2 \<le> im_rows im \<and> 2 \<le> im_cols im"
  shows "if no_unions conn (fgs is_bg img im)
    then \<exists>st img'. removeGroupsPickLabelType conn is_bg n uninit im img is16 = Some (st, Inr img') \<and>
      denoised conn is_bg n im img img'
    else removeGroupsPickLabelType conn is_bg n uninit im img is16 = None"
  using pickLabelType_effect [of im img is_bg "fgs is_bg img im" _ conn n uninit is16, OF assms(1-3) refl refl]
    enough_labels [OF fgs_bound [of is_bg img im] assms(4,5)] by simp

lemma denoise_effect:
  assumes "im_ok im img" "im_flat im" "im_rows im * im_cols im < 2 ^ 32"
    and "dn_connectivity l = Way4 \<or> 2 \<le> im_rows im \<and> 2 \<le> im_cols im"
    and "ni = dn_no_information_is_obstacle l" "conn = dn_connectivity l"
  shows "if dn_minimal_group_size l \<le> 2 \<or> no_unions conn (fgs (isBackground ni) img im)
    then \<exists>st img'. denoise uninit im img l = Some (l\<lparr>dn_is16 := st\<rparr>, Inr img') \<and>
      denoised conn (isBackground ni) (dn_minimal_group_size l) im img img'
    else denoise uninit im img l = None"
proof -
  have ne: "\<not> im_empty im" using assms(1) by (simp add: im_ok_def im_empty_def)
  have same: "l\<lparr>dn_is16 := dn_is16 l\<rparr> = l" by simp
  consider (small) "dn_minimal_group_size l \<le> 1" | (single) "dn_minimal_group_size l = 2"
    | (groups) "\<not> dn_minimal_group_size l \<le> 2" by linarith
  then show ?thesis
  proof cases
    case small
    then show ?thesis using ne denoised_small [OF small] same by (auto simp: denoise_def intro!: exI [of _ "dn_is16 l"])
  next
    case single
    then show ?thesis
      using ne same removeSinglePixels_effect [OF assms(1,2), of conn ni "\<lambda>n. of_nat (uninit n)"] assms(5,6)
      by (auto simp: denoise_def intro!: exI [of _ "dn_is16 l"])
  next
    case groups
    then show ?thesis
      using ne pickLabelType_enough [of im img "isBackground ni" conn "dn_minimal_group_size l" uninit "dn_is16 l",
          OF assms(1,2) background_zero assms(3)] assms(4-6)
      by (auto simp: denoise_def split: if_splits)
  qed
qed

text \<open>The window of the master costmap as the image the layer works on.\<close>

definition roi :: "costmap2d \<Rightarrow> int \<Rightarrow> int \<Rightarrow> int \<Rightarrow> int \<Rightarrow> image" where
  "roi cm x0 y0 xn yn = \<lparr>im_rows = nat (yn - y0), im_cols = nat (xn - x0),
     im_start = nat (y0 * uint (cm_size_x cm) + x0), im_step = unat (cm_size_x cm)\<rparr>"

lemma roi_row:
  assumes "window_ok cm x0 y0 xn yn" "r < im_rows (roi cm x0 y0 xn yn)"
  shows "im_row (roi cm x0 y0 xn yn) r = (nat y0 + r) * unat (cm_size_x cm) + nat x0"
proof -
  have "y0 * uint (cm_size_x cm) + x0 = int (nat y0 * unat (cm_size_x cm) + nat x0)"
    using assms(1) by (simp add: window_ok_def uint_nat)
  then have "nat (y0 * uint (cm_size_x cm) + x0) = nat y0 * unat (cm_size_x cm) + nat x0"
    by (simp only: nat_int)
  then show ?thesis by (simp add: im_row_def roi_def algebra_simps)
qed

lemma roi_ok:
  assumes "cm_wf cm" "cm_costmap cm = Some m" "window_ok cm x0 y0 xn yn" "x0 < xn" "y0 < yn"
  shows "im_ok (roi cm x0 y0 xn yn) m" "im_flat (roi cm x0 y0 xn yn)"
    "im_rows (roi cm x0 y0 xn yn) * im_cols (roi cm x0 y0 xn yn) < 2 ^ 32"
proof -
  let ?X = "unat (cm_size_x cm)" and ?Y = "unat (cm_size_y cm)" and ?i = "roi cm x0 y0 xn yn"
  have X: "nat xn \<le> ?X" "nat yn \<le> ?Y" "int (nat x0) = x0" "int (nat y0) = y0"
    using assms(3) by (simp_all add: window_ok_def nat_le_iff uint_nat)
  have d: "im_rows ?i = nat yn - nat y0" "im_cols ?i = nat xn - nat x0" "im_step ?i = ?X"
    using assms(3) by (simp_all add: roi_def window_ok_def nat_diff_distrib)
  have pos: "nat x0 < nat xn" "nat y0 < nat yn" using assms(3-5) by (auto simp: window_ok_def)
  have len: "length m = ?X * ?Y" "?X * ?Y < 2 ^ 32" using assms(1,2) by (auto simp: cm_wf_def)
  have "im_row ?i r + im_cols ?i \<le> length m" if "r < im_rows ?i" for r
  proof -
    have "Suc (nat y0 + r) * ?X \<le> ?Y * ?X" using that d(1) X(2) by (intro mult_le_mono1) simp
    moreover have "nat x0 + im_cols ?i \<le> ?X" unfolding d(2) using X(1) pos by linarith
    ultimately show ?thesis using roi_row [OF assms(3) that] len(1) by (simp add: mult.commute)
  qed
  moreover have "0 < im_rows ?i" "0 < im_cols ?i" unfolding d(1,2) using pos by linarith+
  ultimately show "im_ok ?i m" unfolding im_ok_def by blast
  show "im_flat ?i" unfolding im_flat_def d using X by linarith
  have "im_rows ?i * im_cols ?i \<le> ?Y * ?X" unfolding d using X by (intro mult_le_mono) linarith+
  then show "im_rows ?i * im_cols ?i < 2 ^ 32" using len(2) by (simp add: mult.commute)
qed

text \<open>The pointer arithmetic stays within \<open>int\<close> when the whole map does.\<close>

definition map_int :: "costmap2d \<Rightarrow> bool" where
  "map_int cm \<longleftrightarrow> unat (cm_size_x cm) * unat (cm_size_y cm) < 2 ^ 31 \<and> unat (cm_size_x cm) < 2 ^ 31"

lemma roi_start:
  assumes "window_ok cm x0 y0 xn yn" "map_int cm" "x0 < xn" "y0 < yn"
  shows "sint (cm_size_x cm) = uint (cm_size_x cm)" "0 \<le> y0 * uint (cm_size_x cm) + x0"
    "y0 * uint (cm_size_x cm) + x0 < 2 ^ 31" "y0 * uint (cm_size_x cm) < 2 ^ 31"
proof -
  let ?X = "uint (cm_size_x cm)" and ?Y = "uint (cm_size_y cm)"
  have m: "?X * ?Y < 2 ^ 31" "?X < 2 ^ 31"
  proof -
    have "int (unat (cm_size_x cm) * unat (cm_size_y cm)) < 2 ^ 31" "int (unat (cm_size_x cm)) < 2 ^ 31"
      using assms(2) unfolding map_int_def by (simp_all only: of_nat_less_numeral_power_cancel_iff)
    then show "?X * ?Y < 2 ^ 31" "?X < 2 ^ 31" by (simp_all add: uint_nat)
  qed
  show "sint (cm_size_x cm) = ?X" 
  proof -
    have "- (2 ^ 31) \<le> ?X" by (rule order_trans [OF _ uint_ge_0]) simp
    then show ?thesis using m(2) by (simp add: sint_uint signed_take_bit_int_eq_self)
  qed
  show "0 \<le> y0 * ?X + x0" using assms(1) by (simp add: window_ok_def)
  have "(y0 + 1) * ?X \<le> ?Y * ?X" using assms(1,4) by (intro mult_right_mono) (auto simp: window_ok_def)
  then have "y0 * ?X + ?X \<le> ?X * ?Y" by (simp add: algebra_simps)
  moreover have "x0 < ?X" "0 \<le> x0" using assms(1,3) by (auto simp: window_ok_def)
  ultimately show "y0 * ?X + x0 < 2 ^ 31" "y0 * ?X < 2 ^ 31" using m(1) by linarith+
qed

lemma updateCosts_unfold:
  assumes "cm_costmap cm = Some m" "window_ok cm x0 y0 xn yn" "map_int cm" "x0 < xn" "y0 < yn" "dn_enabled l"
  shows "denoise_updateCosts uninit cm x0 y0 xn yn l =
    (case denoise uninit (roi cm x0 y0 xn yn) m (l\<lparr>dn_no_information_is_obstacle := (cm_default cm \<noteq> NO_INFORMATION)\<rparr>) of
       None \<Rightarrow> None
     | Some (l2, Inl e) \<Rightarrow> Some (l2\<lparr>dn_current := True\<rparr>, cm)
     | Some (l2, Inr m') \<Rightarrow> Some (l2\<lparr>dn_current := True\<rparr>, cm\<lparr>cm_costmap := Some m'\<rparr>))"
proof -
  note b = roi_start [OF assms(2-5)]
  have "nat (uint (cm_size_x cm)) = unat (cm_size_x cm)" by (simp add: uint_nat)
  then show ?thesis
    using assms(1,4-6) b by (simp add: denoise_updateCosts_def roi_def Let_def not_less [symmetric] split: option.split sum.split prod.split)
qed

lemma merged_eq:
  assumes "r = i \<or> r = j"
  shows "(if a = i \<or> a = j then r else a) = (if b = i \<or> b = j then r else b) \<longleftrightarrow> a = b \<or> {a, b} = {i, j}"
  using assms by (auto simp: doubleton_eq_iff)

section \<open>Properties\<close>

text \<open>Uniting the trees of two labels and flattening the forest gives final labels in which
  exactly the labels of the two united trees, and those that shared a tree before, are equal. The final
  labels of the labels in use are the numbers 1 to \<open>k - 1\<close>, none of them unused, and label 0 stays 0. But the table
  that is returned has only \<open>k\<close> entries: when the two trees were different, the last label in use is outside.\<close>

theorem union_getLabels:
  assumes "lt_ok t" "i \<in> lt_used t" "j \<in> lt_used t"
  shows "\<exists>r t' table k. unionTrees i j t = Some (r, t') \<and> flatten_labels t' = Some (table, k) \<and> table ! 0 = 0 \<and>
    getLabels t' = Some (take k table, k) \<and>
    (\<forall>a \<in> lt_used t. \<forall>b \<in> lt_used t. table ! a = table ! b \<longleftrightarrow> lt_class t a = lt_class t b \<or>
      {lt_class t a, lt_class t b} = {lt_class t i, lt_class t j}) \<and> (\<lambda>a. table ! a) ` lt_used t = {1..<k} \<and>
    (lt_class t i \<noteq> lt_class t j \<longrightarrow> k \<in> lt_used t)"
proof -
  obtain r t' where u: "unionTrees i j t = Some (r, t')" "lt_ok t'" "lt_used t' = lt_used t"
    "r = lt_class t i \<or> r = lt_class t j"
    "\<forall>k \<in> lt_used t. lt_class t' k = (if lt_class t k = lt_class t i \<or> lt_class t k = lt_class t j then r else lt_class t k)"
    using trees.unite_law [OF assms] by blast
  obtain table k where g: "flatten_labels t' = Some (table, k)" "table ! 0 = 0"
    "\<forall>i \<in> lt_used t. 1 \<le> table ! i \<and> table ! i < k"
    "\<forall>i \<in> lt_used t. \<forall>j \<in> lt_used t. table ! i = table ! j \<longleftrightarrow> lt_class t' i = lt_class t' j"
    "\<forall>m. 1 \<le> m \<longrightarrow> m < k \<longrightarrow> (\<exists>i \<in> lt_used t. table ! i = m)" "1 \<le> k" "k \<le> lt_next t'"
    using flatten_classes [OF u(2)] unfolding u(3) by blast
  have eq: "table ! a = table ! b \<longleftrightarrow> lt_class t a = lt_class t b \<or>
      {lt_class t a, lt_class t b} = {lt_class t i, lt_class t j}" if ab: "a \<in> lt_used t" "b \<in> lt_used t" for a b
  proof -
    have "table ! a = table ! b \<longleftrightarrow> lt_class t' a = lt_class t' b" using g(4) ab by blast
    moreover have "lt_class t' a = (if lt_class t a = lt_class t i \<or> lt_class t a = lt_class t j then r else lt_class t a)"
      "lt_class t' b = (if lt_class t b = lt_class t i \<or> lt_class t b = lt_class t j then r else lt_class t b)"
      using u(5) ab by blast+
    ultimately show ?thesis using merged_eq [OF u(4), of "lt_class t a" "lt_class t b"] by simp
  qed
  have img: "(\<lambda>a. table ! a) ` lt_used t = {1..<k}" using g(3,5) by fastforce
  have used: "lt_used t = {1..<lt_next t'}" using u(3) by (simp add: lt_used_def)
  have "k \<in> lt_used t" if "lt_class t i \<noteq> lt_class t j"
  proof (rule ccontr)
    assume "k \<notin> lt_used t"
    then have "k = lt_next t'" using g(6,7) used by simp
    then have "card ((\<lambda>a. table ! a) ` lt_used t) = card (lt_used t)" using img used by simp
    then have "inj_on (\<lambda>a. table ! a) (lt_used t)" using used by (simp add: eq_card_imp_inj_on)
    moreover have "table ! i = table ! j" using eq [OF assms(2,3)] by simp
    ultimately have "i = j" using assms(2,3) by (simp add: inj_on_def)
    then show False using that by simp
  qed
  then show ?thesis using u(1) g(1,2) eq img by (auto simp: getLabels_def)
qed

text \<open>C9. What labelling the connected components of an image does, for every image. When as many pixels as the labels
  reserved or more have no neighbour scanned before them, it throws the overflow exception. Otherwise, when these
  pixels are as many as the groups, that is, no two labels were found to belong together, it returns labels that are 0
  exactly on the background, equal exactly for linked pixels, and use every number below the count of groups. And
  otherwise, when labels had to be united, it reads past the end of the table of labels, which was shrunk to the number
  of groups while pixels still hold larger labels.\<close>

theorem connectedComponents_labels:
  assumes "im_ok im img" "is_bg 0" "0 < label_max" "F = fgs is_bg img im"
  shows "if \<not> card (fresh conn F) < lt_size (lt_reset label_max (im_rows im) (im_cols im) conn)
    then connectedComponents label_max conn is_bg img im uninit = Some (Inl LabelOverflow)
    else if no_unions conn F
    then \<exists>labels k. connectedComponents label_max conn is_bg img im uninit = Some (Inr (labels, k)) \<and>
      components conn F im labels k
    else connectedComponents label_max conn is_bg img im uninit = None"
  using connectedComponents_effect [OF assms(1,4,2,3) refl, of conn uninit] by (auto split: if_splits)


text \<open>C1. On a window of the map with at least two rows and columns, or with 4-connectivity, the layer never runs out of
  labels. When the minimal group size is at most 2, or when in the window no labels have to be united - the obstacle
  cells without an obstacle among the neighbours scanned before them are as many as the groups - the layer gives every
  obstacle cell whose group has fewer cells than the minimal size the cost 0, changes no other byte of the master
  costmap, and is current afterwards. In all other cases it reads past the end of the table of labels.\<close>

theorem denoise_updateCosts_cells:
  assumes "cm_wf cm" "cm_costmap cm = Some m" "window_ok cm x0 y0 xn yn" "map_int cm" "x0 < xn" "y0 < yn"
    and "dn_enabled l" "dn_connectivity l = Way4 \<or> 2 \<le> xn - x0 \<and> 2 \<le> yn - y0"
    and "is_bg = isBackground (cm_default cm \<noteq> NO_INFORMATION)"
  shows "if dn_minimal_group_size l \<le> 2 \<or> no_unions (dn_connectivity l) (fgs is_bg m (roi cm x0 y0 xn yn))
    then \<exists>l' m'. denoise_updateCosts uninit cm x0 y0 xn yn l = Some (l', cm\<lparr>cm_costmap := Some m'\<rparr>) \<and> dn_current l' \<and>
      denoised (dn_connectivity l) is_bg (dn_minimal_group_size l) (roi cm x0 y0 xn yn) m m'
    else denoise_updateCosts uninit cm x0 y0 xn yn l = None"
proof -
  let ?l = "l\<lparr>dn_no_information_is_obstacle := (cm_default cm \<noteq> NO_INFORMATION)\<rparr>" and ?i = "roi cm x0 y0 xn yn"
  have c: "dn_connectivity ?l = Way4 \<or> 2 \<le> im_rows ?i \<and> 2 \<le> im_cols ?i"
    using assms(8) by (auto simp: roi_def)
  note e = denoise_effect [of ?i m ?l _ _ uninit, OF roi_ok [OF assms(1-3,5,6)] c refl refl]
  show ?thesis
  proof (cases "dn_minimal_group_size l \<le> 2 \<or> no_unions (dn_connectivity l) (fgs is_bg m ?i)")
    case True
    then obtain st m' where "denoise uninit ?i m ?l = Some (?l\<lparr>dn_is16 := st\<rparr>, Inr m')"
      "denoised (dn_connectivity l) is_bg (dn_minimal_group_size l) ?i m m'"
      using e assms(9) by auto
    then show ?thesis unfolding updateCosts_unfold [OF assms(2-7)] if_P [OF True]
      by (intro exI [of _ "?l\<lparr>dn_is16 := st, dn_current := True\<rparr>"] exI [of _ m']) simp
  next
    case False
    then have "denoise uninit ?i m ?l = None" using e assms(9) by simp
    then show ?thesis using False updateCosts_unfold [OF assms(2-7)] by simp
  qed
qed

text \<open>On a window of one row, of 5 or of at least 7 cells, with 8-connectivity and obstacles in every other
  cell, the labels reserved do not suffice even with 32 bits: the exception is swallowed, the groups of
  one cell stay in the master costmap, and the layer is current.\<close>

theorem one_row_overflow:
  assumes "cm_wf cm" "cm_costmap cm = Some m" "window_ok cm x0 y0 xn yn" "map_int cm"
    and "dn_enabled l" "dn_connectivity l = Way8" "2 < dn_minimal_group_size l"
    and "yn = y0 + 1" "xn - x0 = 5 \<or> 7 \<le> xn - x0"
    and "fgs (isBackground (cm_default cm \<noteq> NO_INFORMATION)) m (roi cm x0 y0 xn yn) = comb (nat (xn - x0))"
  shows "\<exists>l'. denoise_updateCosts uninit cm x0 y0 xn yn l = Some (l', cm) \<and> dn_current l'"
proof -
  let ?ni = "cm_default cm \<noteq> NO_INFORMATION" and ?i = "roi cm x0 y0 xn yn"
  let ?l = "l\<lparr>dn_no_information_is_obstacle := ?ni\<rparr>"
  have x: "x0 < xn" "y0 < yn" "nat (xn - x0) = 5 \<or> 7 \<le> nat (xn - x0)" using assms(8,9) by auto
  note ok = roi_ok [OF assms(1-3) x(1,2)]
  have d: "im_rows ?i = 1" "im_cols ?i = nat (xn - x0)" using assms(8) by (simp_all add: roi_def)
  have "removeGroupsPickLabelType Way8 (isBackground ?ni) (dn_minimal_group_size l) uninit ?i m (dn_is16 l) =
      Some (False, Inl (LabelError LabelOverflow))"
    using pickLabelType_effect [of ?i m "isBackground ?ni" "fgs (isBackground ?ni) m ?i" _ Way8
        "dn_minimal_group_size l" uninit "dn_is16 l", OF ok(1,2) background_zero refl refl]
      comb_overflows [OF x(3)] unfolding assms(10) d by simp
  moreover have "\<not> im_empty ?i" using ok(1) by (simp add: im_ok_def im_empty_def)
  ultimately have "denoise uninit ?i m ?l = Some (?l\<lparr>dn_is16 := False\<rparr>, Inl (LabelError LabelOverflow))"
    using assms(6,7) by (simp add: denoise_def)
  then show ?thesis using updateCosts_unfold [OF assms(2-4) x(1,2) assms(5)] by simp
qed

section \<open>Witnesses\<close>

theorem union_getLabels_witness:
  "\<exists>r t' table k. unionTrees 1 3 \<lparr>lt_labels = [0, 1, 2, 3], lt_size = 9, lt_next = 4\<rparr> = Some (r, t') \<and>
    getLabels t' = Some (take k table, k) \<and> k = 3 \<and> table ! 1 = table ! 3 \<and> table ! 1 \<noteq> table ! 2"
proof -
  let ?t = "\<lparr>lt_labels = [0, 1, 2, 3], lt_size = 9, lt_next = 4\<rparr>"
  have ok: "lt_ok ?t" by (auto simp: lt_ok_def forest_def less_Suc_eq)
  have used: "1 \<in> lt_used ?t" "2 \<in> lt_used ?t" "3 \<in> lt_used ?t" by (simp_all add: lt_used_def)
  have cl: "lt_class ?t 1 = 1" "lt_class ?t 2 = 2" "lt_class ?t 3 = 3" by (simp_all add: lt_class_def rep.simps)
  obtain r t' table k where u: "unionTrees 1 3 ?t = Some (r, t')" "flatten_labels t' = Some (table, k)" "table ! 0 = 0"
    "getLabels t' = Some (take k table, k)"
    "\<forall>a \<in> lt_used ?t. \<forall>b \<in> lt_used ?t. table ! a = table ! b \<longleftrightarrow> lt_class ?t a = lt_class ?t b \<or>
      {lt_class ?t a, lt_class ?t b} = {lt_class ?t 1, lt_class ?t 3}"
    "(\<lambda>a. table ! a) ` lt_used ?t = {1..<k}"
    using union_getLabels [OF ok used(1,3)] by (elim exE conjE) (rule that)
  have tab: "table ! 1 = table ! 3" "table ! 1 \<noteq> table ! 2"
    using u(5) used cl by (auto simp: doubleton_eq_iff)
  have "lt_used ?t = {1, 2, 3}" by (auto simp: lt_used_def)
  then have "{1..<k} = {table ! 1, table ! 2}" using u(6) tab(1) by auto
  then have "card {1..<k} = card {table ! 1, table ! 2}" by (rule arg_cong)
  then have "k = 3" using tab(2) by simp
  then show ?thesis using u(1,4) tab by blast
qed

lemma few:
  "(k::nat) < 2 \<longleftrightarrow> k = 0 \<or> k = 1" "(k::nat) < 3 \<longleftrightarrow> k = 0 \<or> k = 1 \<or> k = 2"
  "(k::nat) < 5 \<longleftrightarrow> k = 0 \<or> k = 1 \<or> k = 2 \<or> k = 3 \<or> k = 4"
  by linarith+

text \<open>No labels have to be united when a colouring that is constant on neighbours separates the fresh pixels.\<close>

lemma no_unions_colour:
  assumes "\<forall>p \<in> F. \<forall>q \<in> F. adj conn p q \<longrightarrow> g p = g q" "inj_on g (fresh conn F)"
    and "\<forall>p \<in> F. \<exists>r \<in> fresh conn F. (r, p) \<in> linked conn F"
  shows "no_unions conn F"
proof -
  have g: "g p = g q" if "(p, q) \<in> linked conn F" for p q
    using that unfolding linked_def by (induction rule: rtrancl_induct) (use assms(1) in auto)
  have self: "p \<in> component conn F p" if "p \<in> F" for p using that by (simp add: component_def)
  have R: "fresh conn F \<subseteq> F" by (rule fresh_sub)
  have "inj_on (component conn F) (fresh conn F)"
  proof (rule inj_onI)
    fix p q
    assume pq: "p \<in> fresh conn F" "q \<in> fresh conn F" "component conn F p = component conn F q"
    then have "q \<in> component conn F p" using self R by blast
    then show "p = q" using g [of p q] inj_onD [OF assms(2) _ pq(1,2)] by (simp add: component_def)
  qed
  moreover have "component conn F ` F = component conn F ` fresh conn F"
  proof
    show "component conn F ` F \<subseteq> component conn F ` fresh conn F"
    proof
      fix x
      assume "x \<in> component conn F ` F"
      then obtain p r where p: "p \<in> F" "x = component conn F p" "r \<in> fresh conn F" "(r, p) \<in> linked conn F"
        using assms(3) by blast
      then have "component conn F p = component conn F r"
        using linked_trans linked_sym unfolding component_def by blast
      then show "x \<in> component conn F ` fresh conn F" using p by blast
    qed
  qed (use R in blast)
  ultimately show ?thesis by (simp add: no_unions_def card_image)
qed

lemma no_unions_single: "no_unions conn {p}"
proof -
  have "fresh conn {p} = {p}" by (auto simp: fresh_def before_def)
  then show ?thesis by (intro no_unions_colour [where g = "\<lambda>p. p"]) auto
qed

lemma no_unions_sample: "no_unions Way8 {(0, 0), (0, 2), (1, 2)}"
proof -
  let ?F = "{(0, 0), (0, 2), (1, 2)} :: (nat \<times> nat) set"
  have fr: "fresh Way8 ?F = {(0, 0), (0, 2)}" by (auto simp: fresh_def before_def)
  have l: "((0, 2), (1, 2)) \<in> linked Way8 ?F" by (rule linked_adj) simp_all
  show ?thesis
  proof (rule no_unions_colour [where g = snd])
    show "\<forall>p \<in> ?F. \<forall>q \<in> ?F. adj Way8 p q \<longrightarrow> snd p = snd q" by simp
    show "inj_on snd (fresh Way8 ?F)" unfolding fr by simp
    show "\<forall>p \<in> ?F. \<exists>r \<in> fresh Way8 ?F. (r, p) \<in> linked Way8 ?F" unfolding fr using l by simp
  qed
qed

definition sample_image :: image where
  "sample_image = \<lparr>im_rows = 2, im_cols = 3, im_start = 0, im_step = 3\<rparr>"

lemma sample_image_ok: "im_ok sample_image [254, 0, 254, 0, 0, 254 :: u8]" "im_flat sample_image"
  by (auto simp: im_ok_def im_flat_def im_row_def sample_image_def few)

lemma sample_fgs:
  "fgs (isBackground False) [254, 0, 254, 0, 0, 254] sample_image = {(0, 0), (0, 2), (1, 2)}"
proof -
  have "p \<in> fgs (isBackground False) [254, 0, 254, 0, 0, 254] sample_image \<longleftrightarrow> p \<in> {(0, 0), (0, 2), (1, 2)}" for p
    by (cases p) (auto simp: fgs_def sample_image_def pix_def im_row_def isBackground_def cost_values few)
  then show ?thesis by blast
qed

theorem connectedComponents_labels_witness:
  "\<exists>labels k. connectedComponents 255 Way8 (isBackground False) [254, 0, 254, 0, 0, 254] sample_image (\<lambda>n. n) =
      Some (Inr (labels, k)) \<and> pix labels (label_image sample_image) (0, 2) = pix labels (label_image sample_image) (1, 2)"
proof -
  let ?F = "{(0, 0), (0, 2), (1, 2)} :: (nat \<times> nat) set"
  have "fresh Way8 ?F \<subseteq> {(0, 0), (0, 2)}" by (auto simp: fresh_def before_def)
  then have "card (fresh Way8 ?F) \<le> 2" using card_mono [of "{(0, 0), (0, 2)}" "fresh Way8 ?F"] by simp
  then have "card (fresh Way8 ?F) < lt_size (lt_reset 255 (im_rows sample_image) (im_cols sample_image) Way8)"
    by (simp add: sample_image_def lt_reset_def maxLabels_def)
  then obtain labels k where
    "connectedComponents 255 Way8 (isBackground False) [254, 0, 254, 0, 0, 254] sample_image (\<lambda>n. n) = Some (Inr (labels, k))"
    and c: "components Way8 ?F sample_image labels k"
    using connectedComponents_labels [where conn = Way8 and uninit = "\<lambda>n. n" and label_max = 255,
        OF sample_image_ok(1) background_zero _ sample_fgs [symmetric]] no_unions_sample
    by auto
  moreover have "((0, 2), (1, 2)) \<in> linked Way8 ?F" by (rule linked_adj) simp_all
  ultimately show ?thesis unfolding components_def by blast
qed


definition sample_denoiser :: denoise_layer where
  "sample_denoiser = denoise_onInitialize True 3 8"

lemma sample_denoiser_simps [simp]:
  "dn_enabled sample_denoiser" "dn_minimal_group_size sample_denoiser = 3" "dn_connectivity sample_denoiser = Way8"
  by (simp_all add: sample_denoiser_def denoise_onInitialize_def)

theorem denoise_updateCosts_cells_witness:
  "\<exists>l' m'. denoise_updateCosts (\<lambda>n. 0) (sample_map 3 2 [254, 0, 9, 0, 0, 8]) 0 0 3 2 sample_denoiser =
      Some (l', (sample_map 3 2 [254, 0, 9, 0, 0, 8])\<lparr>cm_costmap := Some m'\<rparr>) \<and> m' ! 0 = 0 \<and> m' ! 2 = 9"
proof -
  let ?m = "[254, 0, 9, 0, 0, 8] :: u8 list"
  let ?cm = "sample_map 3 2 ?m"
  have wf: "cm_wf ?cm" by (rule sample_wf) simp_all
  have w: "window_ok ?cm 0 0 3 2" "map_int ?cm" by (simp_all add: window_ok_def map_int_def)
  have roi: "roi ?cm 0 0 3 2 = sample_image" by (simp add: roi_def sample_image_def)
  have c: "dn_connectivity sample_denoiser = Way4 \<or> 2 \<le> (3::int) - 0 \<and> 2 \<le> (2::int) - 0" by simp
  have F: "fgs (isBackground True) ?m sample_image = {(0, 0)}"
  proof -
    have "p \<in> fgs (isBackground True) ?m sample_image \<longleftrightarrow> p \<in> {(0, 0)}" for p
      by (cases p) (auto simp: fgs_def sample_image_def pix_def im_row_def isBackground_def cost_values few)
    then show ?thesis by blast
  qed
  have "card (component Way8 {(0, 0)} (0, 0)) \<le> card {(0 :: nat, 0 :: nat)}" by (intro card_mono component_sub) simp
  then have card: "card (component Way8 {(0, 0)} (0, 0)) < 3" by simp
  obtain l' m' where r: "denoise_updateCosts (\<lambda>n. 0) ?cm 0 0 3 2 sample_denoiser = Some (l', ?cm\<lparr>cm_costmap := Some m'\<rparr>)"
    "denoised Way8 (isBackground True) 3 sample_image ?m m'"
    using denoise_updateCosts_cells [where uninit = "\<lambda>n. 0" and is_bg = "isBackground True" and m = ?m, OF wf _ w _ _ _ c]
    unfolding roi F by (auto simp: NO_INFORMATION_def no_unions_single)
  have p: "\<forall>r < 2. \<forall>c < 3. pix m' sample_image (r, c) =
      (if (r, c) \<in> {(0, 0)} \<and> card (component Way8 {(0, 0)} (r, c)) < 3 then 0 else pix ?m sample_image (r, c))"
    using r(2) unfolding denoised_def F by (simp add: sample_image_def)
  have "pix m' sample_image (0, 0) = 0" "pix m' sample_image (0, 2) = pix ?m sample_image (0, 2)"
    using p card by simp_all
  then have "m' ! 0 = 0" "m' ! 2 = 9" by (simp_all add: pix_def im_row_def sample_image_def eval_nat_numeral)
  then show ?thesis using r(1) by blast
qed

theorem one_row_overflow_witness:
  "\<exists>l'. denoise_updateCosts (\<lambda>n. 0) (sample_map 5 1 [254, 0, 254, 0, 254]) 0 0 5 1 sample_denoiser =
      Some (l', sample_map 5 1 [254, 0, 254, 0, 254])"
proof -
  let ?m = "[254, 0, 254, 0, 254] :: u8 list"
  let ?cm = "sample_map 5 1 ?m"
  have wf: "cm_wf ?cm" by (rule sample_wf) simp_all
  have w: "window_ok ?cm 0 0 5 1" "map_int ?cm" by (simp_all add: window_ok_def map_int_def)
  have F: "fgs (isBackground (cm_default ?cm \<noteq> NO_INFORMATION)) ?m (roi ?cm 0 0 5 1) = comb (nat (5 - 0))"
  proof -
    have "p \<in> fgs (isBackground True) ?m (roi ?cm 0 0 5 1) \<longleftrightarrow> p \<in> comb 5" for p
      by (cases p) (auto simp: fgs_def roi_def comb_def pix_def im_row_def isBackground_def cost_values few)
    then show ?thesis by (auto simp: NO_INFORMATION_def)
  qed
  show ?thesis using one_row_overflow [OF wf _ w _ _ _ _ _ F, of "sample_denoiser" "\<lambda>n. 0"] by auto
qed

end
