(* ===== verification/BT_Control.thy ===== *)
theory BT_Control
  imports Nav_Prelude
begin

text \<open>
  The control nodes of the behaviour trees: \<open>PipelineSequence\<close>, \<open>RecoveryNode\<close> and \<open>RoundRobinNode\<close>.
  The behaviour tree library is not part of the repository: executing the tick of a child and halting
  children are arguments. The children share one state, with the blackboard and everything they act on.
\<close>

section \<open>Children\<close>

datatype node_status = IDLE | RUNNING | SUCCESS | FAILURE

datatype bt_error = BehaviorTreeException | LogicError | RuntimeError

text \<open>A tick returns a status or throws, with the new state; \<open>None\<close> is a tick that does not return.\<close>

type_synonym 's ticked = "((bt_error + node_status) \<times> 's) option"

text \<open>
  \<open>executeTick\<close> of a child, \<open>ControlNode::haltChild\<close>, \<open>ControlNode::haltChildren\<close> and
  \<open>ControlNode::halt\<close>, the last with the status of the node itself.
\<close>

record 's bt_children =
  ch_tick :: "nat \<Rightarrow> 's \<Rightarrow> 's ticked"
  ch_haltChild :: "nat \<Rightarrow> 's \<Rightarrow> 's"
  ch_haltChildren :: "'s \<Rightarrow> 's"
  ch_halt :: "node_status \<times> 's \<Rightarrow> node_status \<times> 's"

text \<open>A \<open>while\<close> loop whose body exits with a result or goes on.\<close>

partial_function (option) loop_until :: "('a \<Rightarrow> ('b + 'a) option) \<Rightarrow> 'a \<Rightarrow> 'b option" where
  "loop_until body a = (case body a of None \<Rightarrow> None | Some (Inl b) \<Rightarrow> Some b | Some (Inr a') \<Rightarrow> loop_until body a')"

section \<open>PipelineSequence\<close>

text \<open>The state of the node is \<open>last_child_ticked_\<close>; the list holds the children still to tick.\<close>

fun pipeline_loop :: "'s bt_children \<Rightarrow> nat list \<Rightarrow> nat \<times> 's \<Rightarrow> (nat \<times> 's) ticked" where
  "pipeline_loop ops [] (last_ticked, s) = Some (Inr SUCCESS, 0, ch_haltChildren ops s)"
| "pipeline_loop ops (i # is) (last_ticked, s) =
     (case ch_tick ops i s of
        None \<Rightarrow> None
      | Some (Inl e, s1) \<Rightarrow> Some (Inl e, last_ticked, s1)
      | Some (Inr status, s1) \<Rightarrow>
          (case status of
             FAILURE \<Rightarrow> Some (Inr FAILURE, 0, ch_haltChildren ops s1)
           | SUCCESS \<Rightarrow> pipeline_loop ops is (last_ticked, s1)
           | RUNNING \<Rightarrow> if last_ticked \<le> i then Some (Inr RUNNING, i, s1)
                        else pipeline_loop ops is (last_ticked, s1)
           | IDLE \<Rightarrow> Some (Inl RuntimeError, last_ticked, s1)))"

definition pipeline_tick :: "'s bt_children \<Rightarrow> nat \<Rightarrow> nat \<times> 's \<Rightarrow> (nat \<times> 's) ticked" where
  "pipeline_tick ops children = pipeline_loop ops [0..<children]"

definition pipeline_halt :: "'s bt_children \<Rightarrow> node_status \<Rightarrow> nat \<times> 's \<Rightarrow> node_status \<times> nat \<times> 's" where
  "pipeline_halt ops status = (\<lambda>(last_ticked, s). let (status', s') = ch_halt ops (status, s) in (status', 0, s'))"

section \<open>RecoveryNode\<close>

record recovery_node =
  rc_current :: u32
  rc_number :: u32
  rc_retry :: u32
  rc_status :: node_status

text \<open>The argument is the value of the port \<open>number_of_retries\<close>, if it is set.\<close>

definition recovery_new :: "u32 option \<Rightarrow> recovery_node" where
  "recovery_new number =
     \<lparr>rc_current = 0, rc_number = (case number of None \<Rightarrow> 1 | Some n \<Rightarrow> n), rc_retry = 0, rc_status = IDLE\<rparr>"

definition recovery_halt :: "'s bt_children \<Rightarrow> recovery_node \<times> 's \<Rightarrow> recovery_node \<times> 's" where
  "recovery_halt ops = (\<lambda>(r, s). let (status, s') = ch_halt ops (rc_status r, s) in
     (r\<lparr>rc_status := status, rc_retry := 0, rc_current := 0\<rparr>, s'))"

text \<open>One evaluation of the loop's condition, with the body or what follows the loop.\<close>

definition recovery_round ::
    "'s bt_children \<Rightarrow> u32 \<Rightarrow> recovery_node \<times> 's \<Rightarrow>
     (((bt_error + node_status) \<times> recovery_node \<times> 's) + recovery_node \<times> 's) option" where
  "recovery_round ops children_count = (\<lambda>(r, s).
     if rc_current r < children_count \<and> rc_retry r \<le> rc_number r then
       (case ch_tick ops (unat (rc_current r)) s of
          None \<Rightarrow> None
        | Some (Inl e, s1) \<Rightarrow> Some (Inl (Inl e, r, s1))
        | Some (Inr child_status, s1) \<Rightarrow> Some (
            if rc_current r = 0 then
              (case child_status of
                 SUCCESS \<Rightarrow> Inl (Inr SUCCESS, recovery_halt ops (r, s1))
               | FAILURE \<Rightarrow>
                   if rc_retry r < rc_number r
                   then Inr (r\<lparr>rc_current := rc_current r + 1\<rparr>, ch_haltChild ops 0 s1)
                   else Inl (Inr FAILURE, recovery_halt ops (r, s1))
               | RUNNING \<Rightarrow> Inl (Inr RUNNING, r, s1)
               | IDLE \<Rightarrow> Inl (Inl LogicError, r, s1))
            else if rc_current r = 1 then
              (case child_status of
                 SUCCESS \<Rightarrow> Inr (r\<lparr>rc_retry := rc_retry r + 1, rc_current := rc_current r - 1\<rparr>, ch_haltChild ops 1 s1)
               | FAILURE \<Rightarrow> Inl (Inr FAILURE, recovery_halt ops (r, s1))
               | RUNNING \<Rightarrow> Inl (Inr RUNNING, r, s1)
               | IDLE \<Rightarrow> Inl (Inl LogicError, r, s1))
            else Inr (r, s1)))
     else Some (Inl (Inr FAILURE, recovery_halt ops (r, s))))"

definition recovery_tick :: "'s bt_children \<Rightarrow> nat \<Rightarrow> recovery_node \<times> 's \<Rightarrow> (recovery_node \<times> 's) ticked" where
  "recovery_tick ops children = (\<lambda>(r, s).
     let children_count = word_of_nat children in
     if children_count \<noteq> 2 then Some (Inl BehaviorTreeException, r, s)
     else loop_until (recovery_round ops children_count) (r\<lparr>rc_status := RUNNING\<rparr>, s))"

section \<open>RoundRobinNode\<close>

record round_robin =
  rr_current :: u32
  rr_failed :: u32
  rr_status :: node_status

definition round_robin_new :: round_robin where
  "round_robin_new = \<lparr>rr_current = 0, rr_failed = 0, rr_status = IDLE\<rparr>"

definition round_robin_halt :: "'s bt_children \<Rightarrow> round_robin \<times> 's \<Rightarrow> round_robin \<times> 's" where
  "round_robin_halt ops = (\<lambda>(r, s). let (status, s') = ch_halt ops (rr_status r, s) in
     (r\<lparr>rr_status := status, rr_current := 0, rr_failed := 0\<rparr>, s'))"

text \<open>\<open>if (++current_child_idx_ >= num_children) current_child_idx_ = 0\<close>\<close>

definition next_child :: "nat \<Rightarrow> u32 \<Rightarrow> u32" where
  "next_child num_children i = (if num_children \<le> unat (i + 1) then 0 else i + 1)"

text \<open>\<open>children_nodes_\<close> is read outside when the index is not below the number of children.\<close>

definition round_robin_round ::
    "'s bt_children \<Rightarrow> nat \<Rightarrow> round_robin \<times> 's \<Rightarrow>
     (((bt_error + node_status) \<times> round_robin \<times> 's) + round_robin \<times> 's) option" where
  "round_robin_round ops num_children = (\<lambda>(r, s).
     if unat (rr_failed r) < num_children then
       if unat (rr_current r) < num_children then
         (case ch_tick ops (unat (rr_current r)) s of
            None \<Rightarrow> None
          | Some (Inl e, s1) \<Rightarrow> Some (Inl (Inl e, r, s1))
          | Some (Inr child_status, s1) \<Rightarrow> Some (
              case child_status of
                SUCCESS \<Rightarrow> Inl (Inr SUCCESS, r\<lparr>rr_current := next_child num_children (rr_current r), rr_failed := 0\<rparr>,
                  ch_haltChildren ops s1)
              | FAILURE \<Rightarrow> Inr (r\<lparr>rr_current := next_child num_children (rr_current r), rr_failed := rr_failed r + 1\<rparr>, s1)
              | RUNNING \<Rightarrow> Inl (Inr RUNNING, r, s1)
              | IDLE \<Rightarrow> Inl (Inl LogicError, r, s1)))
       else None
     else Some (Inl (Inr FAILURE, round_robin_halt ops (r, s))))"

definition round_robin_tick :: "'s bt_children \<Rightarrow> nat \<Rightarrow> round_robin \<times> 's \<Rightarrow> (round_robin \<times> 's) ticked" where
  "round_robin_tick ops children = (\<lambda>(r, s).
     loop_until (round_robin_round ops children) (r\<lparr>rr_status := RUNNING\<rparr>, s))"

section \<open>Completion\<close>

text \<open>
  Ticked again and again, a node gets to success or failure after running finitely often, without
  throwing. The relation takes the tick, so that a control node and its children are judged alike.
\<close>

inductive completes :: "('s \<Rightarrow> 's ticked) \<Rightarrow> 's \<Rightarrow> bool" for t where
  completes_now: "t s = Some (Inr st, s') \<Longrightarrow> st = SUCCESS \<or> st = FAILURE \<Longrightarrow> completes t s"
| completes_later: "t s = Some (Inr RUNNING, s') \<Longrightarrow> completes t s' \<Longrightarrow> completes t s"

inductive_cases completesE: "completes t s"

inductive_simps completes_step: "completes t s"

lemma completes_same:
  assumes "t a = t b" "completes t b"
  shows "completes t a"
  using assms(2) by (cases rule: completes.cases) (auto simp: assms(1) intro: completes_now completes_later)

text \<open>Children that complete in every state that satisfies an invariant of all their operations.\<close>

definition live_children :: "'s bt_children \<Rightarrow> nat \<Rightarrow> ('s \<Rightarrow> bool) \<Rightarrow> bool" where
  "live_children ops n good \<longleftrightarrow>
     (\<forall>s i. good s \<longrightarrow> i < n \<longrightarrow> completes (ch_tick ops i) s) \<and>
     (\<forall>s i x s'. good s \<longrightarrow> i < n \<longrightarrow> ch_tick ops i s = Some (x, s') \<longrightarrow> good s') \<and>
     (\<forall>s i. good s \<longrightarrow> i < n \<longrightarrow> good (ch_haltChild ops i s)) \<and>
     (\<forall>s. good s \<longrightarrow> good (ch_haltChildren ops s)) \<and>
     (\<forall>s st. good s \<longrightarrow> good (snd (ch_halt ops (st, s))))"

lemma live_childrenD:
  assumes "live_children ops n good" "good s"
  shows "i < n \<Longrightarrow> completes (ch_tick ops i) s" "i < n \<Longrightarrow> ch_tick ops i s = Some (x, s') \<Longrightarrow> good s'"
    "i < n \<Longrightarrow> good (ch_haltChild ops i s)" "good (ch_haltChildren ops s)" "good (snd (ch_halt ops (st, s)))"
  using assms by (auto simp: live_children_def)

section \<open>Invariants\<close>

definition recovery_ok :: "recovery_node \<Rightarrow> bool" where
  "recovery_ok r \<longleftrightarrow> (rc_current r = 0 \<and> rc_retry r \<le> rc_number r) \<or> (rc_current r = 1 \<and> rc_retry r < rc_number r)"

definition round_robin_ok :: "nat \<Rightarrow> round_robin \<Rightarrow> bool" where
  "round_robin_ok n r \<longleftrightarrow> (if n = 0 then rr_current r = 0 \<and> rr_failed r = 0
     else unat (rr_current r) < n \<and> unat (rr_failed r) < n)"

end
