(* ===== verification/BT_Control_Props.thy ===== *)
theory BT_Control_Props
  imports BT_Control
begin

text \<open>
  The control nodes against reference definitions by structural recursion, which also show that their
  loops end, and the completion of a node whose children complete.
\<close>

section \<open>Loops\<close>

lemma loop_until_exit [simp]: "body a = Some (Inl b) \<Longrightarrow> loop_until body a = Some b"
  by (simp add: loop_until.simps)

lemma loop_until_next: "body a = Some (Inr a') \<Longrightarrow> loop_until body a = loop_until body a'"
  by (subst loop_until.simps) simp

lemma loop_until_none [simp]: "body a = None \<Longrightarrow> loop_until body a = None"
  by (simp add: loop_until.simps)

lemma tick_cases:
  fixes t :: "'s ticked"
  obtains (stuck) "t = None" | (throws) e s' where "t = Some (Inl e, s')" | (returns) st s' where "t = Some (Inr st, s')"
  by (cases t) (metis old.prod.exhaust sum.exhaust)+

section \<open>Recovery\<close>

text \<open>How far the ticks of a node got: finished, or waiting for a child with a number of retries left.\<close>

datatype 's progress = Finished node_status 's | Waiting nat nat 's | Thrown bt_error nat nat 's

text \<open>
  Try the first child; if it fails and retries are left, run the recovery and try again. The number is
  the retries left, for \<open>recover\<close> after the recovery that runs.
\<close>

function (sequential) attempt :: "'s bt_children \<Rightarrow> nat \<Rightarrow> 's \<Rightarrow> 's progress option"
  and recover :: "'s bt_children \<Rightarrow> nat \<Rightarrow> 's \<Rightarrow> 's progress option" where
  "attempt ops k s =
     (case ch_tick ops 0 s of
        None \<Rightarrow> None
      | Some (Inl e, s') \<Rightarrow> Some (Thrown e 0 k s')
      | Some (Inr SUCCESS, s') \<Rightarrow> Some (Finished SUCCESS s')
      | Some (Inr RUNNING, s') \<Rightarrow> Some (Waiting 0 k s')
      | Some (Inr IDLE, s') \<Rightarrow> Some (Thrown LogicError 0 k s')
      | Some (Inr FAILURE, s') \<Rightarrow>
          (case k of 0 \<Rightarrow> Some (Finished FAILURE s') | Suc j \<Rightarrow> recover ops j (ch_haltChild ops 0 s')))"
| "recover ops k s =
     (case ch_tick ops 1 s of
        None \<Rightarrow> None
      | Some (Inl e, s') \<Rightarrow> Some (Thrown e 1 k s')
      | Some (Inr SUCCESS, s') \<Rightarrow> attempt ops k (ch_haltChild ops 1 s')
      | Some (Inr RUNNING, s') \<Rightarrow> Some (Waiting 1 k s')
      | Some (Inr IDLE, s') \<Rightarrow> Some (Thrown LogicError 1 k s')
      | Some (Inr FAILURE, s') \<Rightarrow> Some (Finished FAILURE s'))"
  by pat_completeness auto
termination by (relation "measure (\<lambda>x. case x of Inl (_, k, _) \<Rightarrow> 2 * k | Inr (_, k, _) \<Rightarrow> Suc (2 * k))") auto

declare attempt.simps [simp del] recover.simps [simp del]

text \<open>The node that waits for child \<open>c\<close> with \<open>k\<close> retries left, and the retries a node has left.\<close>

definition recovery_at :: "u32 \<Rightarrow> nat \<Rightarrow> nat \<Rightarrow> recovery_node" where
  "recovery_at number c k = \<lparr>rc_current = word_of_nat c, rc_number = number,
     rc_retry = word_of_nat (unat number - k - c), rc_status = RUNNING\<rparr>"

definition retries_left :: "recovery_node \<Rightarrow> nat" where
  "retries_left r = unat (rc_number r) - unat (rc_retry r) - unat (rc_current r)"

fun recovery_result ::
    "'s bt_children \<Rightarrow> u32 \<Rightarrow> 's progress \<Rightarrow> (bt_error + node_status) \<times> recovery_node \<times> 's" where
  "recovery_result ops number (Finished st s) = (Inr st, recovery_halt ops (recovery_at number 0 0, s))"
| "recovery_result ops number (Waiting c k s) = (Inr RUNNING, recovery_at number c k, s)"
| "recovery_result ops number (Thrown e c k s) = (Inl e, recovery_at number c k, s)"

lemma recovery_at_simps [simp]:
  "rc_number (recovery_at number c k) = number" "rc_status (recovery_at number c k) = RUNNING"
  "rc_current (recovery_at number c k) = word_of_nat c"
  by (simp_all add: recovery_at_def)

lemma recovery_halt_at: "0 < c \<or> 0 < k \<Longrightarrow> recovery_halt ops (recovery_at number c k, s) = recovery_halt ops (recovery_at number 0 0, s)"
  by (simp add: recovery_halt_def recovery_at_def)

lemma retry_at:
  assumes "k + c \<le> unat number"
  shows "unat (rc_retry (recovery_at number c k)) = unat number - k - c"
proof -
  have "unat number - k - c < 2 ^ 32" using unsigned_less [of number, where 'a = nat] by simp
  then show ?thesis by (simp add: recovery_at_def unsigned_of_nat take_bit_nat_eq_self)
qed

lemma recovery_at_ok:
  assumes "recovery_ok r"
  shows "r\<lparr>rc_status := RUNNING\<rparr> = recovery_at (rc_number r) (unat (rc_current r)) (retries_left r)"
    and "retries_left r + unat (rc_current r) \<le> unat (rc_number r)" "unat (rc_current r) \<le> 1"
proof -
  have c: "unat (rc_current r) \<le> 1" "unat (rc_current r) + unat (rc_retry r) \<le> unat (rc_number r)"
    using assms by (auto simp: recovery_ok_def word_le_nat_alt word_less_nat_alt)
  then show "retries_left r + unat (rc_current r) \<le> unat (rc_number r)" "unat (rc_current r) \<le> 1"
    by (simp_all add: retries_left_def)
  have "unat (rc_number r) - retries_left r - unat (rc_current r) = unat (rc_retry r)"
    using c(2) by (simp add: retries_left_def)
  then show "r\<lparr>rc_status := RUNNING\<rparr> = recovery_at (rc_number r) (unat (rc_current r)) (retries_left r)"
    by (simp add: recovery_at_def)
qed

lemma recovery_loop:
  "k \<le> unat number \<Longrightarrow> loop_until (recovery_round ops 2) (recovery_at number 0 k, s) =
     map_option (recovery_result ops number) (attempt ops k s)"
  "Suc k \<le> unat number \<Longrightarrow> loop_until (recovery_round ops 2) (recovery_at number 1 k, s) =
     map_option (recovery_result ops number) (recover ops k s)"
proof (induction ops k s and ops k s rule: attempt_recover.induct)
  case (1 ops k s)
  let ?r = "recovery_at number 0 k"
  have rt: "unat (rc_retry ?r) = unat number - k" using retry_at [of k 0 number] 1(2) by simp
  then have le: "rc_retry ?r \<le> number" "rc_retry ?r < number \<longleftrightarrow> 0 < k"
    using 1(2) by (auto simp: word_le_nat_alt word_less_nat_alt)
  have two: "(0::u32) < 2" by simp
  show ?case
  proof (cases "ch_tick ops 0 s" rule: tick_cases)
    case (returns st s')
    show ?thesis
    proof (cases "st = FAILURE \<and> 0 < k")
      case True
      then obtain j where t: "st = FAILURE" "k = Suc j" by (cases k) auto
      have "recovery_round ops 2 (?r, s) = Some (Inr (recovery_at number 1 j, ch_haltChild ops 0 s'))"
        using le two t returns by (simp add: recovery_round_def) (simp add: recovery_at_def)
      then show ?thesis using 1(1) [OF returns refl refl _ t(2)] 1(2) t returns
        by (simp add: loop_until_next attempt.simps [of ops "Suc j" s])
    next
      case False
      then show ?thesis using returns le two
        by (cases st; cases k) (simp_all add: recovery_round_def attempt.simps recovery_halt_at)
    qed
  qed (use le two in \<open>simp_all add: recovery_round_def attempt.simps\<close>)
next
  case (2 ops k s)
  let ?r = "recovery_at number 1 k"
  have rt: "unat (rc_retry ?r) = unat number - k - 1" using retry_at [of k 1 number] 2(2) by simp
  then have le: "rc_retry ?r \<le> number" using 2(2) by (auto simp: word_le_nat_alt)
  have two: "(1::u32) < 2" "(1::u32) \<noteq> 0" by (simp_all add: word_less_nat_alt)
  show ?case
  proof (cases "ch_tick ops 1 s" rule: tick_cases)
    case (returns st s')
    show ?thesis
    proof (cases "st = SUCCESS")
      case True
      have "unat (rc_retry ?r) + 1 < 2 ^ 32" using rt unsigned_less [of number, where 'a = nat] 2(2) by simp
      then have "unat (rc_retry ?r + 1) = unat (rc_retry ?r) + 1" by (simp add: unat_word_ariths)
      then have "rc_retry ?r + 1 = rc_retry (recovery_at number 0 k)"
        using rt retry_at [of k 0 number] 2(2) by (simp add: word_unat_eq_iff)
      then have "recovery_round ops 2 (?r, s) = Some (Inr (recovery_at number 0 k, ch_haltChild ops 1 s'))"
        using le two True returns by (simp add: recovery_round_def)
      then show ?thesis using 2(1) [OF returns refl refl True] 2(2) True returns
        by (simp add: loop_until_next recover.simps [of ops k s])
    next
      case False
      then show ?thesis using returns le two
        by (cases st) (simp_all add: recovery_round_def recover.simps recovery_halt_at)
    qed
  qed (use le two in \<open>simp_all add: recovery_round_def recover.simps\<close>)
qed

lemma recovery_tick_effect:
  assumes "recovery_ok r"
  shows "recovery_tick ops 2 (r, s) = map_option (recovery_result ops (rc_number r))
    (if rc_current r = 0 then attempt ops (retries_left r) s else recover ops (retries_left r) s)"
proof -
  note at = recovery_at_ok [OF assms]
  have run: "recovery_tick ops 2 (r, s) =
      loop_until (recovery_round ops 2) (recovery_at (rc_number r) (unat (rc_current r)) (retries_left r), s)"
    by (simp add: recovery_tick_def at(1))
  show ?thesis
  proof (cases "rc_current r = 0")
    case True
    then show ?thesis unfolding run using recovery_loop(1) [of "retries_left r" "rc_number r" ops s] at(2) by simp
  next
    case False
    then have one: "rc_current r = 1" using assms by (simp add: recovery_ok_def)
    then show ?thesis unfolding run using recovery_loop(2) [of "retries_left r" "rc_number r" ops s] at(2) by simp
  qed
qed

text \<open>What the outcome can be when \<open>k\<close> retries were left.\<close>

fun progress_ok :: "nat \<Rightarrow> 's progress \<Rightarrow> bool" where
  "progress_ok k (Finished st s) \<longleftrightarrow> st = SUCCESS \<or> st = FAILURE"
| "progress_ok k (Waiting c j s) \<longleftrightarrow> c \<le> 1 \<and> j + c \<le> k"
| "progress_ok k (Thrown e c j s) \<longleftrightarrow> c \<le> 1 \<and> j + c \<le> k"

lemma progress_mono: "progress_ok k p \<Longrightarrow> k \<le> k' \<Longrightarrow> progress_ok k' p"
  by (cases p) auto

lemma progress_bounds:
  "attempt ops k s = Some p \<Longrightarrow> progress_ok k p"
  "recover ops k s = Some p \<Longrightarrow> progress_ok (Suc k) p"
proof (induction ops k s and ops k s rule: attempt_recover.induct)
  case (1 ops k s)
  show ?case
  proof (cases "ch_tick ops 0 s" rule: tick_cases)
    case (returns st s')
    show ?thesis
    proof (cases "st = FAILURE \<and> 0 < k")
      case True
      then obtain j where t: "st = FAILURE" "k = Suc j" by (cases k) auto
      then show ?thesis using 1(1) [OF returns refl refl _ t(2)] 1(2) returns
        by (simp add: attempt.simps [of ops "Suc j" s])
    next
      case False
      then show ?thesis using 1(2) returns by (cases st; cases k) (auto simp: attempt.simps)
    qed
  qed (use 1(2) in \<open>auto simp: attempt.simps\<close>)
next
  case (2 ops k s)
  show ?case
  proof (cases "ch_tick ops 1 s" rule: tick_cases)
    case (returns st s')
    show ?thesis
    proof (cases "st = SUCCESS")
      case True
      have "progress_ok k p" using 2(1) [OF returns refl refl True] 2(2) True returns
        by (simp add: recover.simps [of ops k s])
      then show ?thesis by (rule progress_mono) simp
    next
      case False
      then show ?thesis using 2(2) returns by (cases st) (auto simp: recover.simps)
    qed
  qed (use 2(2) in \<open>auto simp: recover.simps\<close>)
qed

lemma recovery_at_is_ok:
  assumes "c \<le> 1" "j + c \<le> unat number"
  shows "recovery_ok (recovery_at number c j)"
proof (cases "c = 0")
  case True
  then show ?thesis using retry_at [OF assms(2)] by (simp add: recovery_ok_def word_le_nat_alt)
next
  case False
  then have "c = 1" using assms(1) by simp
  then show ?thesis using retry_at [OF assms(2)] assms(2) by (simp add: recovery_ok_def word_less_nat_alt)
qed

lemma recovery_halt_simps [simp]:
  "rc_current (fst (recovery_halt ops rs)) = 0" "rc_retry (fst (recovery_halt ops rs)) = 0"
  "rc_number (fst (recovery_halt ops rs)) = rc_number (fst rs)"
  by (simp_all add: recovery_halt_def case_prod_beta' Let_def)

lemma recovery_halt_ok: "recovery_ok (fst (recovery_halt ops rs))"
  by (simp add: recovery_ok_def)

lemma recovery_keeps:
  assumes "recovery_ok r" "recovery_tick ops 2 (r, s) = Some (res, r', s')"
  shows "recovery_ok r'" "rc_number r' = rc_number r" "res \<noteq> Inr IDLE"
proof -
  obtain p where p: "(if rc_current r = 0 then attempt ops (retries_left r) s else recover ops (retries_left r) s) = Some p"
    "recovery_result ops (rc_number r) p = (res, r', s')"
    using assms(2) unfolding recovery_tick_effect [OF assms(1)] by (auto simp: map_option_case split: option.splits)
  have "progress_ok (retries_left r + unat (rc_current r)) p"
  proof (cases "rc_current r = 0")
    case False
    then have "rc_current r = 1" using assms(1) by (simp add: recovery_ok_def)
    then show ?thesis using p(1) progress_bounds(2) by auto
  qed (use p(1) progress_bounds(1) in auto)
  then have ok: "progress_ok (unat (rc_number r)) p" using recovery_at_ok(2) [OF assms(1)] by (rule progress_mono)
  have "recovery_ok r' \<and> rc_number r' = rc_number r \<and> res \<noteq> Inr IDLE"
  proof (cases p)
    case (Finished st t)
    then have "r' = fst (recovery_halt ops (recovery_at (rc_number r) 0 0, t))" "res = Inr st"
      using p(2) by auto
    then show ?thesis using ok Finished by (auto simp: recovery_halt_ok)
  next
    case (Waiting c j t)
    then show ?thesis using p(2) ok recovery_at_is_ok by auto
  next
    case (Thrown e c j t)
    then show ?thesis using p(2) ok recovery_at_is_ok by auto
  qed
  then show "recovery_ok r'" "rc_number r' = rc_number r" "res \<noteq> Inr IDLE" by simp_all
qed

section \<open>Round robin\<close>

text \<open>Child \<open>i\<close> after \<open>f\<close> failures of the children before it.\<close>

function cycle_children ::
    "'s bt_children \<Rightarrow> nat \<Rightarrow> nat \<Rightarrow> nat \<Rightarrow> 's \<Rightarrow> ((bt_error + node_status) \<times> (nat \<times> nat) \<times> 's) option" where
  "cycle_children ops n f i s =
     (if n \<le> f then Some (Inr FAILURE, (0, 0), snd (ch_halt ops (RUNNING, s)))
      else case ch_tick ops i s of
        None \<Rightarrow> None
      | Some (Inl e, s') \<Rightarrow> Some (Inl e, (i, f), s')
      | Some (Inr st, s') \<Rightarrow>
          (case st of
             SUCCESS \<Rightarrow> Some (Inr SUCCESS, (Suc i mod n, 0), ch_haltChildren ops s')
           | FAILURE \<Rightarrow> cycle_children ops n (Suc f) (Suc i mod n) s'
           | RUNNING \<Rightarrow> Some (Inr RUNNING, (i, f), s')
           | IDLE \<Rightarrow> Some (Inl LogicError, (i, f), s')))"
  by pat_completeness auto
termination by (relation "measure (\<lambda>(_, n, f, _). n - f)") auto

declare cycle_children.simps [simp del]

definition rr_view :: "round_robin \<Rightarrow> nat \<times> nat" where
  "rr_view r = (unat (rr_current r), unat (rr_failed r))"

lemma next_child_nat:
  assumes "unat i < n" "n < 2 ^ 32"
  shows "unat (next_child n i) = Suc (unat i) mod n"
proof -
  have "unat i + 1 < 2 ^ 32" using assms by simp
  then have "unat (i + 1) = Suc (unat i)" by (simp add: unat_word_ariths)
  then show ?thesis using assms(1) by (cases "Suc (unat i) = n") (auto simp: next_child_def)
qed

lemma round_robin_loop:
  assumes "n < 2 ^ 32" "unat (rr_failed r) \<le> n" "unat (rr_current r) < n" "rr_status r = RUNNING"
  shows "map_option (\<lambda>(x, r', s'). (x, rr_view r', s')) (loop_until (round_robin_round ops n) (r, s)) =
    cycle_children ops n (unat (rr_failed r)) (unat (rr_current r)) s"
  using assms(2-)
proof (induction "n - unat (rr_failed r)" arbitrary: r s rule: less_induct)
  case less
  let ?f = "unat (rr_failed r)" and ?i = "unat (rr_current r)"
  show ?case
  proof (cases "?f < n")
    case False
    then show ?thesis using less.prems
      by (simp add: round_robin_round_def cycle_children.simps round_robin_halt_def case_prod_beta' rr_view_def Let_def)
  next
    case True
    show ?thesis
    proof (cases "ch_tick ops ?i s" rule: tick_cases)
      case (returns st s')
      show ?thesis
      proof (cases "st = FAILURE")
        case True
        let ?r = "r\<lparr>rr_current := next_child n (rr_current r), rr_failed := rr_failed r + 1\<rparr>"
        have "?f + 1 < 2 ^ 32" using \<open>?f < n\<close> assms(1) by simp
        then have f: "unat (rr_failed ?r) = Suc ?f" by (simp add: unat_word_ariths)
        have i: "unat (rr_current ?r) = Suc ?i mod n" using next_child_nat [OF less.prems(2) assms(1)] by simp
        have "round_robin_round ops n (r, s) = Some (Inr (?r, s'))"
          using True returns \<open>?f < n\<close> less.prems by (simp add: round_robin_round_def)
        moreover have "map_option (\<lambda>(x, r', s'). (x, rr_view r', s')) (loop_until (round_robin_round ops n) (?r, s')) =
            cycle_children ops n (Suc ?f) (Suc ?i mod n) s'"
          using less.hyps [of ?r s'] f i \<open>?f < n\<close> less.prems by simp
        ultimately show ?thesis using True returns \<open>?f < n\<close>
          by (simp add: loop_until_next cycle_children.simps [of ops n ?f ?i s])
      next
        case False
        then show ?thesis using returns \<open>?f < n\<close> less.prems next_child_nat [OF less.prems(2) assms(1)]
          by (cases st) (simp_all add: round_robin_round_def cycle_children.simps [of ops n ?f ?i s] rr_view_def)
      qed
    qed (use \<open>?f < n\<close> less.prems in \<open>simp_all add: round_robin_round_def cycle_children.simps [of ops n ?f ?i s] rr_view_def\<close>)
  qed
qed

lemma round_robin_tick_effect:
  assumes "n < 2 ^ 32" "round_robin_ok n r"
  shows "map_option (\<lambda>(x, r', s'). (x, rr_view r', s')) (round_robin_tick ops n (r, s)) =
    cycle_children ops n (unat (rr_failed r)) (unat (rr_current r)) s"
proof (cases "n = 0")
  case True
  then show ?thesis using assms
    by (simp add: round_robin_tick_def round_robin_round_def cycle_children.simps round_robin_halt_def case_prod_beta'
        rr_view_def Let_def)
next
  case False
  then have "unat (rr_failed r) \<le> n" "unat (rr_current r) < n" using assms(2) by (simp_all add: round_robin_ok_def)
  then show ?thesis using round_robin_loop [OF assms(1), of "r\<lparr>rr_status := RUNNING\<rparr>" ops s]
    by (simp add: round_robin_tick_def)
qed

lemma cycle_bounds:
  assumes "cycle_children ops n f i s = Some (x, (i', f'), s')" "i < n"
  shows "(i', f') = (0, 0) \<or> i' < n \<and> f' < n" "x \<noteq> Inr IDLE"
  using assms
proof (induction ops n f i s arbitrary: x i' f' s' rule: cycle_children.induct)
  case (1 ops n f i s)
  {
    case 1
    show ?case
    proof (cases "ch_tick ops i s" rule: tick_cases)
      case (returns st t)
      then show ?thesis using 1 "1.IH" by (cases st) (auto simp: cycle_children.simps [of ops n f i s] split: if_splits)
    qed (use 1 in \<open>auto simp: cycle_children.simps [of ops n f i s] split: if_splits\<close>)
  next
    case 2
    show ?case
    proof (cases "ch_tick ops i s" rule: tick_cases)
      case (returns st t)
      then show ?thesis using 2 "1.IH" by (cases st) (auto simp: cycle_children.simps [of ops n f i s] split: if_splits)
    qed (use 2 in \<open>auto simp: cycle_children.simps [of ops n f i s] split: if_splits\<close>)
  }
qed

lemma round_robin_keeps:
  assumes "n < 2 ^ 32" "round_robin_ok n r" "round_robin_tick ops n (r, s) = Some (res, r', s')"
  shows "round_robin_ok n r'" "res \<noteq> Inr IDLE"
proof -
  have c: "cycle_children ops n (unat (rr_failed r)) (unat (rr_current r)) s = Some (res, rr_view r', s')"
    using round_robin_tick_effect [OF assms(1,2), of ops s] assms(3) by simp
  have "round_robin_ok n r' \<and> res \<noteq> Inr IDLE"
  proof (cases "n = 0")
    case True
    then show ?thesis using c
      by (auto simp: cycle_children.simps rr_view_def round_robin_ok_def unat_eq_0)
  next
    case False
    then have i: "unat (rr_current r) < n" using assms(2) by (simp add: round_robin_ok_def)
    show ?thesis using cycle_bounds [OF c [unfolded rr_view_def] i] False by (auto simp: round_robin_ok_def)
  qed
  then show "round_robin_ok n r'" "res \<noteq> Inr IDLE" by simp_all
qed

section \<open>Nodes that complete\<close>

text \<open>
  The nodes whose tick is a loop over one child at a time: a running child leaves the node waiting, a
  finished one ends the tick with success or failure, or brings the loop nearer to its end.
\<close>

locale looping_node =
  fixes tick :: "'s bt_children \<Rightarrow> 'r \<times> 's \<Rightarrow> ('r \<times> 's) ticked"
    and body :: "'s bt_children \<Rightarrow> 'r \<times> 's \<Rightarrow> (((bt_error + node_status) \<times> 'r \<times> 's) + 'r \<times> 's) option"
    and ready :: "'r \<Rightarrow> bool"
    and child :: "'r \<Rightarrow> nat"
    and left :: "'r \<Rightarrow> nat"
    and children :: nat
  assumes loops: "ready r \<Longrightarrow> tick ops (r, s) = loop_until (body ops) (r, s)"
    and child_in: "ready r \<Longrightarrow> child r < children"
    and waits: "ready r \<Longrightarrow> ch_tick ops (child r) s = Some (Inr RUNNING, s') \<Longrightarrow>
      body ops (r, s) = Some (Inl (Inr RUNNING, r, s'))"
    and moves: "ready r \<Longrightarrow> ch_tick ops (child r) s = Some (Inr st, s') \<Longrightarrow> st = SUCCESS \<or> st = FAILURE \<Longrightarrow>
      (\<exists>st' rs. body ops (r, s) = Some (Inl (Inr st', rs)) \<and> (st' = SUCCESS \<or> st' = FAILURE)) \<or>
      (\<exists>r' s''. body ops (r, s) = Some (Inr (r', s'')) \<and> (s'' = s' \<or> s'' = ch_haltChild ops (child r) s') \<and>
        (ready r' \<and> left r' < left r \<or> (\<exists>st' rs. body ops (r', s'') = Some (Inl (Inr st', rs)) \<and> (st' = SUCCESS \<or> st' = FAILURE))))"

context looping_node begin

lemma node_completes:
  assumes "live_children ops children good" "good s" "ready r"
  shows "completes (tick ops) (r, s)"
  using assms(2,3)
proof (induction "left r" arbitrary: r s rule: less_induct)
  case less
  have "completes (ch_tick ops (child r)) s"
    using live_childrenD(1) [OF assms(1) less.prems(1) child_in [OF less.prems(2)]] .
  then show ?case using less.prems(1)
  proof (induction rule: completes.induct)
    case (completes_later s s')
    have run: "tick ops (r, s) = Some (Inr RUNNING, r, s')"
      using loops [OF less.prems(2)] waits [OF less.prems(2) completes_later.hyps(1)] by simp
    have "good s'"
      using live_childrenD(2) [OF assms(1) completes_later.prems child_in [OF less.prems(2)] completes_later.hyps(1)] .
    then show ?case by (rule completes.completes_later [OF run completes_later.IH])
  next
    case (completes_now s st s')
    note m = moves [OF less.prems(2) completes_now.hyps]
    have g: "good s'" "good (ch_haltChild ops (child r) s')"
    proof -
      show "good s'" using live_childrenD(2) [OF assms(1) completes_now.prems child_in [OF less.prems(2)] completes_now.hyps(1)] .
      then show "good (ch_haltChild ops (child r) s')" by (rule live_childrenD(3) [OF assms(1) _ child_in [OF less.prems(2)]])
    qed
    have step: "completes (tick ops) (r, s)" if "body ops (r, s) = Some (Inr (r', s''))" "loop_until (body ops) (r', s'') = tick ops (r', s'')"
      "completes (tick ops) (r', s'')" for r' s''
      using that loops [OF less.prems(2)] by (intro completes_same [of _ "(r, s)" "(r', s'')"]) (simp_all add: loop_until_next)
    have exits: "completes (tick ops) (r, s)" if "loop_until (body ops) (r, s) = Some (Inr st', rs)" "st' = SUCCESS \<or> st' = FAILURE" for st' rs
      using that loops [OF less.prems(2)] by (intro completes.completes_now) simp_all
    from m consider (exit) st' rs where "body ops (r, s) = Some (Inl (Inr st', rs))" "st' = SUCCESS \<or> st' = FAILURE"
      | (nearer) r' s'' where "body ops (r, s) = Some (Inr (r', s''))" "s'' = s' \<or> s'' = ch_haltChild ops (child r) s'"
          "ready r'" "left r' < left r"
      | (last) r' s'' st' rs where "body ops (r, s) = Some (Inr (r', s''))" "body ops (r', s'') = Some (Inl (Inr st', rs))"
          "st' = SUCCESS \<or> st' = FAILURE" by blast
    then show ?case
    proof cases
      case exit
      then show ?thesis by (intro exits [of st' rs]) simp_all
    next
      case nearer
      then have "good s''" using g by blast
      then show ?thesis using nearer less.hyps [OF nearer(4) _ nearer(3)] loops [OF nearer(3)] by (intro step [of r' s'']) simp_all
    next
      case last
      then show ?thesis by (intro exits [of st' rs]) (simp_all add: loop_until_next)
    qed
  qed
qed

end

definition recovery_ready :: "recovery_node \<Rightarrow> bool" where
  "recovery_ready r \<longleftrightarrow> recovery_ok r \<and> rc_status r = RUNNING"

definition recovery_left :: "recovery_node \<Rightarrow> nat" where
  "recovery_left r = 2 * (unat (rc_number r) - unat (rc_retry r)) - unat (rc_current r)"

lemma recovery_fails_over:
  assumes "recovery_ready r" "rc_current r = 0" "rc_retry r < rc_number r"
  shows "recovery_ready (r\<lparr>rc_current := rc_current r + 1\<rparr>)"
    "recovery_left (r\<lparr>rc_current := rc_current r + 1\<rparr>) < recovery_left r"
  using assms by (auto simp: recovery_ready_def recovery_ok_def recovery_left_def word_less_nat_alt)

lemma recovery_tries_again:
  assumes "recovery_ready r" "rc_current r = 1"
  shows "recovery_ready (r\<lparr>rc_retry := rc_retry r + 1, rc_current := rc_current r - 1\<rparr>)"
    "recovery_left (r\<lparr>rc_retry := rc_retry r + 1, rc_current := rc_current r - 1\<rparr>) < recovery_left r"
proof -
  have lt: "unat (rc_retry r) < unat (rc_number r)" using assms by (auto simp: recovery_ready_def recovery_ok_def word_less_nat_alt)
  then have "unat (rc_retry r) + 1 < 2 ^ 32" using unsigned_less [of "rc_number r", where 'a = nat] by simp
  then have s: "unat (rc_retry r + 1) = Suc (unat (rc_retry r))" by (simp add: unat_word_ariths)
  show "recovery_ready (r\<lparr>rc_retry := rc_retry r + 1, rc_current := rc_current r - 1\<rparr>)"
  proof -
    have "rc_retry r + 1 \<le> rc_number r" "rc_retry r \<le> rc_number r"
      using lt s by (simp_all add: word_le_nat_alt)
    then show ?thesis using assms by (simp add: recovery_ready_def recovery_ok_def)
  qed
  show "recovery_left (r\<lparr>rc_retry := rc_retry r + 1, rc_current := rc_current r - 1\<rparr>) < recovery_left r"
    using assms(2) lt s by (simp add: recovery_left_def)
qed

lemma recovery_ready_cases:
  assumes "recovery_ready r"
  shows "(rc_current r = 0 \<or> rc_current r = 1) \<and> rc_current r < 2 \<and> rc_retry r \<le> rc_number r"
  using assms by (auto simp: recovery_ready_def recovery_ok_def word_less_nat_alt word_le_nat_alt)

interpretation recovering: looping_node "\<lambda>ops. recovery_tick ops 2" "\<lambda>ops. recovery_round ops 2" recovery_ready
  "\<lambda>r. unat (rc_current r)" recovery_left 2
proof
  fix r :: recovery_node and ops :: "'a bt_children" and s
  assume r: "recovery_ready r"
  note c = recovery_ready_cases [OF r]
  have "r\<lparr>rc_status := RUNNING\<rparr> = r" using r by (simp add: recovery_ready_def)
  then show "recovery_tick ops 2 (r, s) = loop_until (recovery_round ops 2) (r, s)" by (simp add: recovery_tick_def)
  show "unat (rc_current r) < 2" using c by (auto simp: word_less_nat_alt)
  fix s'
  show "ch_tick ops (unat (rc_current r)) s = Some (Inr RUNNING, s') \<Longrightarrow>
      recovery_round ops 2 (r, s) = Some (Inl (Inr RUNNING, r, s'))"
    using c by (auto simp: recovery_round_def)
  fix st
  assume t: "ch_tick ops (unat (rc_current r)) s = Some (Inr st, s')" "st = SUCCESS \<or> st = FAILURE"
  show "(\<exists>st' rs. recovery_round ops 2 (r, s) = Some (Inl (Inr st', rs)) \<and> (st' = SUCCESS \<or> st' = FAILURE)) \<or>
      (\<exists>r' s''. recovery_round ops 2 (r, s) = Some (Inr (r', s'')) \<and>
        (s'' = s' \<or> s'' = ch_haltChild ops (unat (rc_current r)) s') \<and>
        (recovery_ready r' \<and> recovery_left r' < recovery_left r \<or>
         (\<exists>st' rs. recovery_round ops 2 (r', s'') = Some (Inl (Inr st', rs)) \<and> (st' = SUCCESS \<or> st' = FAILURE))))"
  proof (cases "rc_current r = 0")
    case True
    then show ?thesis using t c recovery_fails_over [OF r True]
      by (cases "st = FAILURE \<and> rc_retry r < rc_number r") (auto simp: recovery_round_def)
  next
    case False
    then have "rc_current r = 1" using c by blast
    then show ?thesis using t c recovery_tries_again [OF r] by (cases "st = FAILURE") (auto simp: recovery_round_def)
  qed
qed

definition round_robin_ready :: "nat \<Rightarrow> round_robin \<Rightarrow> bool" where
  "round_robin_ready n r \<longleftrightarrow> n < 2 ^ 32 \<and> unat (rr_current r) < n \<and> unat (rr_failed r) < n \<and> rr_status r = RUNNING"

interpretation cycling: looping_node "\<lambda>ops. round_robin_tick ops n" "\<lambda>ops. round_robin_round ops n" "round_robin_ready n"
  "\<lambda>r. unat (rr_current r)" "\<lambda>r. n - unat (rr_failed r)" n for n
proof
  fix r :: round_robin and ops :: "'a bt_children" and s
  assume r: "round_robin_ready n r"
  have "r\<lparr>rr_status := RUNNING\<rparr> = r" using r by (simp add: round_robin_ready_def)
  then show "round_robin_tick ops n (r, s) = loop_until (round_robin_round ops n) (r, s)" by (simp add: round_robin_tick_def)
  show "unat (rr_current r) < n" using r by (simp add: round_robin_ready_def)
  fix s'
  show "ch_tick ops (unat (rr_current r)) s = Some (Inr RUNNING, s') \<Longrightarrow>
      round_robin_round ops n (r, s) = Some (Inl (Inr RUNNING, r, s'))"
    using r by (simp add: round_robin_round_def round_robin_ready_def)
  fix st
  assume t: "ch_tick ops (unat (rr_current r)) s = Some (Inr st, s')" "st = SUCCESS \<or> st = FAILURE"
  let ?r = "r\<lparr>rr_current := next_child n (rr_current r), rr_failed := rr_failed r + 1\<rparr>"
  have b: "n < 2 ^ 32" "unat (rr_current r) < n" "unat (rr_failed r) < n" "rr_status r = RUNNING"
    using r by (simp_all add: round_robin_ready_def)
  then have f: "unat (rr_failed r + 1) = Suc (unat (rr_failed r))" by (simp add: unat_word_ariths)
  have i: "unat (next_child n (rr_current r)) < n" using next_child_nat [OF b(2,1)] b(2) by simp
  show "(\<exists>st' rs. round_robin_round ops n (r, s) = Some (Inl (Inr st', rs)) \<and> (st' = SUCCESS \<or> st' = FAILURE)) \<or>
      (\<exists>r' s''. round_robin_round ops n (r, s) = Some (Inr (r', s'')) \<and>
        (s'' = s' \<or> s'' = ch_haltChild ops (unat (rr_current r)) s') \<and>
        (round_robin_ready n r' \<and> n - unat (rr_failed r') < n - unat (rr_failed r) \<or>
         (\<exists>st' rs. round_robin_round ops n (r', s'') = Some (Inl (Inr st', rs)) \<and> (st' = SUCCESS \<or> st' = FAILURE))))"
  proof (cases "st = SUCCESS")
    case True
    then show ?thesis using t b by (auto simp: round_robin_round_def)
  next
    case False
    then have run: "round_robin_round ops n (r, s) = Some (Inr (?r, s'))" using t b by (simp add: round_robin_round_def)
    have "round_robin_ready n ?r \<and> n - unat (rr_failed ?r) < n - unat (rr_failed r) \<or>
         (\<exists>st' rs. round_robin_round ops n (?r, s') = Some (Inl (Inr st', rs)) \<and> (st' = SUCCESS \<or> st' = FAILURE))"
    proof (cases "Suc (unat (rr_failed r)) < n")
      case True
      then have "n - Suc (unat (rr_failed r)) < n - unat (rr_failed r)" by linarith
      then show ?thesis using b f i True by (simp add: round_robin_ready_def)
    next
      case False
      then show ?thesis using f by (simp add: round_robin_round_def)
    qed
    then show ?thesis using run by blast
  qed
qed

lemma recovery_completes:
  assumes "live_children ops 2 good" "good s" "recovery_ok r"
  shows "completes (recovery_tick ops 2) (r, s)"
proof -
  have "recovery_ready (r\<lparr>rc_status := RUNNING\<rparr>)" using assms(3) by (simp add: recovery_ready_def recovery_ok_def)
  then have "completes (recovery_tick ops 2) (r\<lparr>rc_status := RUNNING\<rparr>, s)"
    by (rule recovering.node_completes [OF assms(1,2)])
  then show ?thesis by (rule completes_same [rotated]) (simp add: recovery_tick_def)
qed

lemma round_robin_completes:
  assumes "live_children ops n good" "good s" "round_robin_ok n r" "n < 2 ^ 32"
  shows "completes (round_robin_tick ops n) (r, s)"
proof (cases "n = 0")
  case True
  then have "round_robin_tick ops n (r, s) = Some (Inr FAILURE, round_robin_halt ops (r\<lparr>rr_status := RUNNING\<rparr>, s))"
    by (simp add: round_robin_tick_def round_robin_round_def)
  then show ?thesis by (rule completes_now) simp
next
  case False
  then have "round_robin_ready n (r\<lparr>rr_status := RUNNING\<rparr>)"
    using assms(3,4) by (simp add: round_robin_ready_def round_robin_ok_def)
  then have "completes (round_robin_tick ops n) (r\<lparr>rr_status := RUNNING\<rparr>, s)"
    by (rule cycling.node_completes [OF assms(1,2)])
  then show ?thesis by (rule completes_same [rotated]) (simp add: round_robin_tick_def)
qed

section \<open>Pipelines\<close>

text \<open>The state after the first \<open>i\<close> children were ticked in order and each let the tick go on.\<close>

primrec passed :: "'s bt_children \<Rightarrow> nat \<Rightarrow> nat \<Rightarrow> 's \<Rightarrow> 's option" where
  "passed ops last_ticked 0 s = Some s"
| "passed ops last_ticked (Suc i) s =
     (case passed ops last_ticked i s of
        None \<Rightarrow> None
      | Some s1 \<Rightarrow> (case ch_tick ops i s1 of
          Some (Inr st, s2) \<Rightarrow> if st = SUCCESS \<or> st = RUNNING \<and> i < last_ticked then Some s2 else None
        | _ \<Rightarrow> None))"

text \<open>How a tick ends at child \<open>i\<close>, the first that does not let it go on.\<close>

fun pipeline_stop ::
    "'s bt_children \<Rightarrow> nat \<Rightarrow> nat \<Rightarrow> (bt_error + node_status) \<times> 's \<Rightarrow> ((bt_error + node_status) \<times> nat \<times> 's)" where
  "pipeline_stop ops last_ticked i (Inl e, s) = (Inl e, last_ticked, s)"
| "pipeline_stop ops last_ticked i (Inr st, s) =
     (case st of
        FAILURE \<Rightarrow> (Inr FAILURE, 0, ch_haltChildren ops s)
      | RUNNING \<Rightarrow> (Inr RUNNING, i, s)
      | _ \<Rightarrow> (Inl RuntimeError, last_ticked, s))"

definition stops :: "nat \<Rightarrow> nat \<Rightarrow> bt_error + node_status \<Rightarrow> bool" where
  "stops last_ticked i x \<longleftrightarrow> x \<noteq> Inr SUCCESS \<and> (x = Inr RUNNING \<longrightarrow> last_ticked \<le> i)"

lemma pipeline_loop_step:
  assumes "ch_tick ops i s = Some (x, s')"
  shows "pipeline_loop ops (i # is) (l, s) =
    (if stops l i x then Some (pipeline_stop ops l i (x, s')) else pipeline_loop ops is (l, s'))"
proof (cases x)
  case (Inr st)
  then show ?thesis using assms by (cases st) (simp_all add: stops_def)
qed (use assms in \<open>simp add: stops_def\<close>)

lemma passed_Suc:
  assumes "passed ops l i s = Some s1" "ch_tick ops i s1 = Some (x, s2)" "\<not> stops l i x"
  shows "passed ops l (Suc i) s = Some s2"
  using assms by (cases x) (auto simp: stops_def)

lemma pipeline_from:
  assumes "passed ops l i s = Some si" "i \<le> n"
  shows "(\<exists>sn. passed ops l n s = Some sn \<and> pipeline_loop ops [i..<n] (l, si) = Some (Inr SUCCESS, 0, ch_haltChildren ops sn)) \<or>
    (\<exists>k s1. k < n \<and> passed ops l k s = Some s1 \<and>
      (ch_tick ops k s1 = None \<and> pipeline_loop ops [i..<n] (l, si) = None \<or>
       (\<exists>x s2. ch_tick ops k s1 = Some (x, s2) \<and> stops l k x \<and>
          pipeline_loop ops [i..<n] (l, si) = Some (pipeline_stop ops l k (x, s2)))))"
  using assms
proof (induction "n - i" arbitrary: i si)
  case 0
  then show ?case by simp
next
  case (Suc m)
  then have lt: "i < n" by simp
  then have l: "[i..<n] = i # [Suc i..<n]" by (rule upt_conv_Cons)
  show ?case
  proof (cases "ch_tick ops i si")
    case None
    then show ?thesis using lt l Suc.prems(1) by auto
  next
    case (Some xs)
    obtain x s' where x: "xs = (x, s')" by (cases xs)
    note step = pipeline_loop_step [OF Some [unfolded x], of "[Suc i..<n]" l]
    show ?thesis
    proof (cases "stops l i x")
      case True
      then show ?thesis using lt l Suc.prems(1) Some x step by auto
    next
      case False
      have "m = n - Suc i" "Suc i \<le> n" using Suc.hyps(2) lt by auto
      from Suc.hyps(1) [OF this(1) passed_Suc [OF Suc.prems(1) Some [unfolded x] False] this(2)]
      show ?thesis unfolding l step using False by simp
    qed
  qed
qed

section \<open>Properties\<close>

text \<open>C8. A tick of the recovery node always ends when the ticks of its children do, and does what the
  structural recursion does: try the first child; when it fails and retries are left, halt it, run the
  second, halt that when it succeeds, and try again with one retry less. A running child leaves the node
  waiting at it, the node halts when it is done, and its counters stay in range.\<close>

theorem recovery_refines:
  assumes "recovery_ok r"
  shows "recovery_tick ops 2 (r, s) = map_option (recovery_result ops (rc_number r))
      (if rc_current r = 0 then attempt ops (retries_left r) s else recover ops (retries_left r) s) \<and>
    (\<forall>res r' s'. recovery_tick ops 2 (r, s) = Some (res, r', s') \<longrightarrow> recovery_ok r' \<and> rc_number r' = rc_number r)"
  using recovery_tick_effect [OF assms, of ops s] recovery_keeps(1,2) [OF assms] by auto

text \<open>A tick of the round robin node ticks the children in cyclic order from the current one until one does
  not fail, and gives up after as many failures in a row as there are children; a success moves on to the
  next child and halts all of them, a running child keeps its turn.\<close>

theorem round_robin_refines:
  assumes "n < 2 ^ 32" "round_robin_ok n r"
  shows "map_option (\<lambda>(x, r', s'). (x, rr_view r', s')) (round_robin_tick ops n (r, s)) =
      cycle_children ops n (unat (rr_failed r)) (unat (rr_current r)) s \<and>
    (\<forall>res r' s'. round_robin_tick ops n (r, s) = Some (res, r', s') \<longrightarrow> round_robin_ok n r')"
  using round_robin_tick_effect [OF assms, of ops s] round_robin_keeps(1) [OF assms] by auto

text \<open>C21. When every child, ticked again and again, gets to success or failure, so do the recovery node and the
  round robin node, from every state they can be in.\<close>

theorem control_nodes_complete:
  assumes "live_children ops n good" "good s" "n < 2 ^ 32"
  shows "(n = 2 \<longrightarrow> recovery_ok r \<longrightarrow> completes (recovery_tick ops n) (r, s)) \<and>
    (round_robin_ok n rr \<longrightarrow> completes (round_robin_tick ops n) (rr, s))"
  using recovery_completes [of ops good s r] round_robin_completes [OF assms(1,2) _ assms(3), of rr] assms(1,2) by blast

text \<open>A tick of the pipeline sequence either ticks all children in order, each of them succeeding or still
  running before the last child ticked, and then halts all and succeeds, or stops at the first child that
  does neither: a failure halts all and fails, a child running at or after the last one ticked becomes
  the last one ticked, and an exception leaves the node as it was.\<close>

theorem pipeline_tick_outcome:
  "(\<exists>sn. passed ops l n s = Some sn \<and> pipeline_tick ops n (l, s) = Some (Inr SUCCESS, 0, ch_haltChildren ops sn)) \<or>
   (\<exists>k s1. k < n \<and> passed ops l k s = Some s1 \<and>
      (ch_tick ops k s1 = None \<and> pipeline_tick ops n (l, s) = None \<or>
       (\<exists>x s2. ch_tick ops k s1 = Some (x, s2) \<and> stops l k x \<and>
          pipeline_tick ops n (l, s) = Some (pipeline_stop ops l k (x, s2)))))"
  unfolding pipeline_tick_def using pipeline_from [of ops l 0 s s n] by simp

text \<open>C40. The new nodes are in range, and a tick that returns never gives the status \<open>IDLE\<close> for any of the three
  nodes, whatever the children do; a recovery node without exactly two children throws.\<close>

theorem control_status_type:
  "recovery_ok (recovery_new number) \<and> round_robin_ok n round_robin_new \<and>
   (\<forall>r s. recovery_ok r \<longrightarrow> recovery_tick ops 2 (r, s) \<notin> (\<lambda>rs. Some (Inr IDLE, rs)) ` UNIV) \<and>
   (\<forall>r s. n < 2 ^ 32 \<longrightarrow> round_robin_ok n r \<longrightarrow> round_robin_tick ops n (r, s) \<notin> (\<lambda>rs. Some (Inr IDLE, rs)) ` UNIV) \<and>
   (\<forall>l s. pipeline_tick ops n (l, s) \<notin> (\<lambda>ls. Some (Inr IDLE, ls)) ` UNIV) \<and>
   (\<forall>r s. n < 2 ^ 32 \<longrightarrow> n \<noteq> 2 \<longrightarrow> recovery_tick ops n (r, s) = Some (Inl BehaviorTreeException, r, s))"
proof (intro conjI allI impI)
  show "recovery_ok (recovery_new number)" by (simp add: recovery_ok_def recovery_new_def)
  show "round_robin_ok n round_robin_new" by (simp add: round_robin_ok_def round_robin_new_def)
  show "recovery_tick ops 2 (r, s) \<notin> (\<lambda>rs. Some (Inr IDLE, rs)) ` UNIV" if "recovery_ok r" for r s
  proof
    assume "recovery_tick ops 2 (r, s) \<in> (\<lambda>rs. Some (Inr IDLE, rs)) ` UNIV"
    then obtain r' s' where "recovery_tick ops 2 (r, s) = Some (Inr IDLE, r', s')" by auto
    from recovery_keeps(3) [OF that this] show False by simp
  qed
  show "round_robin_tick ops n (r, s) \<notin> (\<lambda>rs. Some (Inr IDLE, rs)) ` UNIV" if "n < 2 ^ 32" "round_robin_ok n r" for r s
  proof
    assume "round_robin_tick ops n (r, s) \<in> (\<lambda>rs. Some (Inr IDLE, rs)) ` UNIV"
    then obtain r' s' where "round_robin_tick ops n (r, s) = Some (Inr IDLE, r', s')" by auto
    from round_robin_keeps(2) [OF that this] show False by simp
  qed
  show "pipeline_tick ops n (l, s) \<notin> (\<lambda>ls. Some (Inr IDLE, ls)) ` UNIV" for l s
  proof -
    have "fst (pipeline_stop ops l k xs) \<noteq> Inr IDLE" for k xs
      by (cases "(ops, l, k, xs)" rule: pipeline_stop.cases) (auto split: node_status.split)
    then have ne: "pipeline_stop ops l k xs \<noteq> (Inr IDLE, ls)" for k xs ls by (metis fst_conv)
    from pipeline_from [of ops l 0 s s n] show ?thesis by (auto simp: pipeline_tick_def ne)
  qed
  show "recovery_tick ops n (r, s) = Some (Inl BehaviorTreeException, r, s)" if "n < 2 ^ 32" "n \<noteq> 2" for r s
  proof -
    have "unat (word_of_nat n :: u32) = n" using that(1) by (simp add: unsigned_of_nat take_bit_nat_eq_self)
    then have "(word_of_nat n :: u32) \<noteq> 2" using that(2) by auto
    then show ?thesis by (simp add: recovery_tick_def)
  qed
qed

section \<open>Witnesses\<close>

text \<open>Children that return what a script says, and succeed when it is used up.\<close>

definition scripted :: "node_status list bt_children" where
  "scripted = \<lparr>ch_tick = (\<lambda>i s. case s of [] \<Rightarrow> Some (Inr SUCCESS, []) | x # xs \<Rightarrow> Some (Inr x, xs)),
     ch_haltChild = (\<lambda>i s. s), ch_haltChildren = (\<lambda>s. s), ch_halt = (\<lambda>(st, s). (IDLE, s))\<rparr>"

lemma scripted_live: "live_children scripted n (\<lambda>s. IDLE \<notin> set s)"
proof -
  have "IDLE \<notin> set s \<Longrightarrow> completes (ch_tick scripted i) s" for i s
  proof (induction s)
    case Nil
    then show ?case by (intro completes_now [of _ _ SUCCESS "[]"]) (simp_all add: scripted_def)
  next
    case (Cons x xs)
    have t: "ch_tick scripted i (x # xs) = Some (Inr x, xs)" by (simp add: scripted_def)
    show ?case
    proof (cases "x = RUNNING")
      case True
      then show ?thesis using Cons t by (subst completes_step) simp
    next
      case False
      then have "x = SUCCESS \<or> x = FAILURE" using Cons.prems by (cases x) auto
      then show ?thesis using t by (subst completes_step) auto
    qed
  qed
  then show ?thesis by (auto simp: live_children_def scripted_def split: list.splits)
qed

theorem recovery_refines_witness:
  "recovery_tick scripted 2 (recovery_new (Some 1), [FAILURE, SUCCESS, FAILURE, SUCCESS]) =
    Some (Inr FAILURE, (recovery_new (Some 1)), [SUCCESS])"
proof -
  have ok: "recovery_ok (recovery_new (Some 1))" by (simp add: recovery_ok_def recovery_new_def)
  have "retries_left (recovery_new (Some 1)) = Suc 0" "rc_number (recovery_new (Some 1)) = 1" "rc_current (recovery_new (Some 1)) = 0"
    by (simp_all add: retries_left_def recovery_new_def)
  then show ?thesis
    using recovery_refines [OF ok, of scripted "[FAILURE, SUCCESS, FAILURE, SUCCESS]"]
    by (simp add: attempt.simps recover.simps scripted_def recovery_halt_def recovery_at_def recovery_new_def)
qed

theorem round_robin_refines_witness:
  "\<exists>r'. round_robin_tick scripted 3 (round_robin_new, [FAILURE, FAILURE, SUCCESS]) = Some (Inr SUCCESS, r', []) \<and>
    rr_view r' = (0, 0)"
proof -
  have ok: "(3::nat) < 2 ^ 32" "round_robin_ok 3 round_robin_new" by (simp_all add: round_robin_ok_def round_robin_new_def)
  have "map_option (\<lambda>(x, r', s'). (x, rr_view r', s')) (round_robin_tick scripted 3 (round_robin_new, [FAILURE, FAILURE, SUCCESS])) =
      cycle_children scripted 3 0 0 [FAILURE, FAILURE, SUCCESS]"
    using round_robin_refines [OF ok, of scripted "[FAILURE, FAILURE, SUCCESS]"] by (simp add: round_robin_new_def)
  also have "\<dots> = Some (Inr SUCCESS, (0, 0), [])" by (simp add: cycle_children.simps scripted_def)
  finally show ?thesis by auto
qed

theorem control_nodes_complete_witness:
  "completes (recovery_tick scripted 2) (recovery_new None, [RUNNING, FAILURE, RUNNING, SUCCESS, FAILURE]) \<and>
   completes (round_robin_tick scripted 2) (round_robin_new, [RUNNING, FAILURE, RUNNING, SUCCESS, FAILURE])"
proof -
  let ?s = "[RUNNING, FAILURE, RUNNING, SUCCESS, FAILURE]"
  have "IDLE \<notin> set ?s" "(2::nat) < 2 ^ 32" "recovery_ok (recovery_new None)" "round_robin_ok 2 round_robin_new"
    by (simp_all add: recovery_ok_def recovery_new_def round_robin_ok_def round_robin_new_def)
  then show ?thesis using control_nodes_complete [OF scripted_live, of ?s 2 "recovery_new None" round_robin_new] by blast
qed

theorem control_status_type_witness:
  "round_robin_tick scripted 2 (round_robin_new, [RUNNING]) \<notin> (\<lambda>rs. Some (Inr IDLE, rs)) ` UNIV \<and>
   recovery_tick scripted 3 (recovery_new None, []) = Some (Inl BehaviorTreeException, recovery_new None, [])"
  using control_status_type [of None 2 scripted] control_status_type [of None 3 scripted] by simp

end
