(* ===== verification/BT_Decorators.thy ===== *)
theory BT_Decorators
  imports BT_Control
begin

text \<open>
  The decorator nodes that gate the ticks of their child: rate, distance, speed and goal controllers, the
  single trigger, the path check on approach and the goal updater. What a tick reads from the clock, the
  transforms, the odometry and the blackboard, in the order it reads it, is an argument. Times are in
  seconds.
\<close>

section \<open>Children and poses\<close>

text \<open>\<open>child_node_->executeTick()\<close>, \<open>child_node_->status()\<close> and \<open>resetChild()\<close>.\<close>

record 's bt_child =
  dc_tick :: "'s \<Rightarrow> 's ticked"
  dc_status :: "'s \<Rightarrow> node_status"
  dc_reset :: "'s \<Rightarrow> 's"

text \<open>The switch over the status of the child; on success the node may still change.\<close>

definition tick_child :: "'s bt_child \<Rightarrow> 'd \<Rightarrow> ('d \<Rightarrow> node_status \<times> 'd) \<Rightarrow> 's \<Rightarrow> ('d \<times> 's) ticked" where
  "tick_child child d on_success s =
     (case dc_tick child s of
        None \<Rightarrow> None
      | Some (Inl e, s1) \<Rightarrow> Some (Inl e, d, s1)
      | Some (Inr child_state, s1) \<Rightarrow> Some (
          case child_state of
            RUNNING \<Rightarrow> (Inr RUNNING, d, s1)
          | SUCCESS \<Rightarrow> (let (st, d') = on_success d in (Inr st, d', s1))
          | _ \<Rightarrow> (Inr FAILURE, d, s1)))"

record pose =
  po_x :: real
  po_y :: real
  po_z :: real
  po_orientation :: "real \<times> real \<times> real \<times> real"

definition euclidean_distance :: "pose \<Rightarrow> pose \<Rightarrow> bool \<Rightarrow> real" where
  "euclidean_distance pos1 pos2 is_3d =
     (let dx = po_x pos1 - po_x pos2; dy = po_y pos1 - po_y pos2 in
      if is_3d then (let dz = po_z pos1 - po_z pos2 in sqrt (dx\<^sup>2 + dy\<^sup>2 + dz\<^sup>2))
      else sqrt (dx\<^sup>2 + dy\<^sup>2))"

definition calculate_path_length :: "pose list \<Rightarrow> nat \<Rightarrow> real" where
  "calculate_path_length path start_index =
     (if length path \<le> start_index + 1 then 0
      else fold (\<lambda>idx path_length. path_length + euclidean_distance (path ! idx) (path ! (idx + 1)) False)
        [start_index..<length path - 1] 0)"

text \<open>\<open>blackboard->get(key, value)\<close> leaves the variable as it was when there is no entry.\<close>

definition bb_get :: "'a option \<Rightarrow> 'a \<Rightarrow> 'a" where
  "bb_get entry value = (case entry of None \<Rightarrow> value | Some v \<Rightarrow> v)"

section \<open>RateController\<close>

text \<open>The period of a rate of 0 is infinite, here \<open>None\<close>.\<close>

record rate_controller =
  rt_start :: real
  rt_period :: "real option"
  rt_first :: bool
  rt_status :: node_status

definition rate_new :: "real \<Rightarrow> rate_controller" where
  "rate_new hz = \<lparr>rt_start = 0, rt_period = (if hz = 0 then None else Some (1 / hz)), rt_first = False, rt_status = IDLE\<rparr>"

text \<open>The readings of the clock at the start of an iteration, for the elapsed time, and after a success.\<close>

definition rate_tick ::
    "real \<times> real \<times> real \<Rightarrow> 's bt_child \<Rightarrow> rate_controller \<times> 's \<Rightarrow> (rate_controller \<times> 's) ticked" where
  "rate_tick env child = (\<lambda>(d, s).
     let (now1, now2, now3) = env;
         d1 = (if rt_status d = IDLE then d\<lparr>rt_start := now1, rt_first := True\<rparr> else d);
         d2 = d1\<lparr>rt_status := RUNNING\<rparr>;
         seconds = now2 - rt_start d2
     in if rt_first d2 \<or> dc_status child s = RUNNING \<or> (case rt_period d2 of None \<Rightarrow> False | Some p \<Rightarrow> p \<le> seconds)
        then tick_child child (d2\<lparr>rt_first := False\<rparr>) (\<lambda>d. (SUCCESS, d\<lparr>rt_start := now3\<rparr>)) s
        else Some (Inr (rt_status d2), d2, s))"

section \<open>DistanceController\<close>

record distance_controller =
  di_start :: pose
  di_distance :: real
  di_first :: bool
  di_status :: node_status

definition distance_new :: "pose \<Rightarrow> real option \<Rightarrow> distance_controller" where
  "distance_new origin distance = \<lparr>di_start = origin, di_distance = bb_get distance 1, di_first = False, di_status = IDLE\<rparr>"

text \<open>The poses \<open>getCurrentPose\<close> returns, \<open>None\<close> when the pose is not available.\<close>

definition distance_tick ::
    "pose option \<times> pose option \<times> pose option \<Rightarrow> 's bt_child \<Rightarrow> distance_controller \<times> 's \<Rightarrow> (distance_controller \<times> 's) ticked"
  where
  "distance_tick env child = (\<lambda>(d, s).
     let (pose1, pose2, pose3) = env in
     case (if di_status d = IDLE
           then (case pose1 of None \<Rightarrow> None | Some p \<Rightarrow> Some (d\<lparr>di_start := p, di_first := True\<rparr>)) else Some d) of
       None \<Rightarrow> Some (Inr FAILURE, d, s)
     | Some d1 \<Rightarrow>
         let d2 = d1\<lparr>di_status := RUNNING\<rparr> in
         (case pose2 of
            None \<Rightarrow> Some (Inr FAILURE, d2, s)
          | Some current_pose \<Rightarrow>
              let travelled = euclidean_distance (di_start d2) current_pose False in
              if di_first d2 \<or> dc_status child s = RUNNING \<or> di_distance d2 \<le> travelled
              then tick_child child (d2\<lparr>di_first := False\<rparr>)
                (\<lambda>d. case pose3 of None \<Rightarrow> (FAILURE, d) | Some p \<Rightarrow> (SUCCESS, d\<lparr>di_start := p\<rparr>)) s
              else Some (Inr (di_status d2), d2, s)))"

section \<open>GoalUpdatedController\<close>

record 'g goal_controller =
  gu_goal :: 'g
  gu_goals :: "'g list"
  gu_updated :: bool
  gu_status :: node_status

text \<open>The entries \<open>goals\<close> and \<open>goal\<close> of the blackboard, and a new message.\<close>

type_synonym 'g goal_entries = "'g list option \<times> 'g option"

definition goal_updated_refresh :: "'g \<Rightarrow> 'g goal_entries \<times> 'g goal_entries \<Rightarrow> 'g goal_controller \<Rightarrow> 'g goal_controller" where
  "goal_updated_refresh new_message env d =
     (let (first, current) = env;
          d1 = (if gu_status d = IDLE
                then d\<lparr>gu_goals := bb_get (fst first) (gu_goals d), gu_goal := bb_get (snd first) (gu_goal d), gu_updated := True\<rparr>
                else d);
          d2 = d1\<lparr>gu_status := RUNNING\<rparr>;
          current_goals = bb_get (fst current) [];
          current_goal = bb_get (snd current) new_message
      in if gu_goal d2 \<noteq> current_goal \<or> gu_goals d2 \<noteq> current_goals
         then d2\<lparr>gu_goal := current_goal, gu_goals := current_goals, gu_updated := True\<rparr> else d2)"

definition goal_updated_tick ::
    "'g \<Rightarrow> 'g goal_entries \<times> 'g goal_entries \<Rightarrow> 's bt_child \<Rightarrow> 'g goal_controller \<times> 's \<Rightarrow> ('g goal_controller \<times> 's) ticked"
  where
  "goal_updated_tick new_message env child = (\<lambda>(d, s).
     let d1 = goal_updated_refresh new_message env d
     in if dc_status child s = RUNNING \<or> gu_updated d1
        then tick_child child (d1\<lparr>gu_updated := False\<rparr>) (Pair SUCCESS) s
        else Some (Inr (gu_status d1), d1, s))"

section \<open>SpeedController\<close>

record 'g speed_controller =
  sp_start :: real
  sp_first :: bool
  sp_period :: real
  sp_min_rate :: real
  sp_max_rate :: real
  sp_d_rate :: real
  sp_min_speed :: real
  sp_max_speed :: real
  sp_d_speed :: real
  sp_goal :: 'g
  sp_goals :: "'g list"
  sp_status :: node_status

text \<open>The constructor throws for rates that are not positive.\<close>

definition speed_new ::
    "'g \<Rightarrow> real option \<Rightarrow> real option \<Rightarrow> real option \<Rightarrow> real option \<Rightarrow> bt_error + 'g speed_controller" where
  "speed_new new_message min_rate_port max_rate_port min_speed_port max_speed_port =
     (let min_rate = bb_get min_rate_port (1 / 10); max_rate = bb_get max_rate_port 1;
          min_speed = bb_get min_speed_port 0; max_speed = bb_get max_speed_port (1 / 2)
      in if min_rate \<le> 0 \<or> max_rate \<le> 0 then Inl BehaviorTreeException
         else Inr \<lparr>sp_start = 0, sp_first = False, sp_period = 1, sp_min_rate = min_rate, sp_max_rate = max_rate,
           sp_d_rate = max_rate - min_rate, sp_min_speed = min_speed, sp_max_speed = max_speed,
           sp_d_speed = max_speed - min_speed, sp_goal = new_message, sp_goals = [], sp_status = IDLE\<rparr>)"

text \<open>A division by a speed range of 0, which gives an infinity or no number, is left out as \<open>None\<close>.\<close>

definition getScaledRate :: "'g speed_controller \<Rightarrow> real \<Rightarrow> real option" where
  "getScaledRate d speed =
     (if sp_d_speed d = 0 then None
      else Some (max (min (((speed - sp_min_speed d) / sp_d_speed d) * sp_d_rate d + sp_min_rate d) (sp_max_rate d))
        (sp_min_rate d)))"

definition updatePeriod :: "real \<times> real \<Rightarrow> 'g speed_controller \<Rightarrow> 'g speed_controller option" where
  "updatePeriod velocity d = do {
     let speed = sqrt ((fst velocity)\<^sup>2 + (snd velocity)\<^sup>2);
     rate \<leftarrow> getScaledRate d speed;
     Some (d\<lparr>sp_period := 1 / rate\<rparr>)
   }"

text \<open>The reads of the blackboard, the readings of the clock, and the smoothed velocity.\<close>

record 'g speed_env =
  se_first :: "'g goal_entries"
  se_current :: "'g goal_entries"
  se_now_idle :: real
  se_now_goal :: real
  se_now_elapsed :: real
  se_now_update :: real
  se_velocity :: "real \<times> real"

definition speed_refresh :: "'g \<Rightarrow> 'g speed_env \<Rightarrow> 'g speed_controller \<Rightarrow> 'g speed_controller" where
  "speed_refresh new_message env d =
     (let d1 = (if sp_status d = IDLE
                then d\<lparr>sp_goals := bb_get (fst (se_first env)) (sp_goals d), sp_goal := bb_get (snd (se_first env)) (sp_goal d),
                  sp_period := 1 / sp_max_rate d, sp_start := se_now_idle env, sp_first := True\<rparr>
                else d);
          current_goals = bb_get (fst (se_current env)) [];
          current_goal = bb_get (snd (se_current env)) new_message;
          d2 = (if sp_goal d1 \<noteq> current_goal \<or> sp_goals d1 \<noteq> current_goals
                then d1\<lparr>sp_period := 1 / sp_max_rate d1, sp_start := se_now_goal env, sp_first := True,
                  sp_goal := current_goal, sp_goals := current_goals\<rparr> else d1)
      in d2\<lparr>sp_status := RUNNING\<rparr>)"

definition speed_tick ::
    "'g \<Rightarrow> 'g speed_env \<Rightarrow> 's bt_child \<Rightarrow> 'g speed_controller \<times> 's \<Rightarrow> ('g speed_controller \<times> 's) ticked" where
  "speed_tick new_message env child = (\<lambda>(d, s).
     let d1 = speed_refresh new_message env d;
         elapsed = se_now_elapsed env - sp_start d1
     in if sp_first d1 \<or> dc_status child s = RUNNING \<or> sp_period d1 \<le> elapsed
        then (let d2 = d1\<lparr>sp_first := False\<rparr> in
          case (if sp_period d2 \<le> elapsed
                then map_option (\<lambda>d. d\<lparr>sp_start := se_now_update env\<rparr>) (updatePeriod (se_velocity env) d2) else Some d2) of
            None \<Rightarrow> None
          | Some d3 \<Rightarrow> tick_child child d3 (Pair SUCCESS) s)
        else Some (Inr (sp_status d1), d1, s))"

section \<open>SingleTrigger\<close>

record single_trigger =
  st_first :: bool
  st_status :: node_status

definition single_new :: single_trigger where
  "single_new = \<lparr>st_first = True, st_status = IDLE\<rparr>"

definition single_tick :: "'s bt_child \<Rightarrow> single_trigger \<times> 's \<Rightarrow> (single_trigger \<times> 's) ticked" where
  "single_tick child = (\<lambda>(d, s).
     let d1 = (if st_status d = IDLE then d\<lparr>st_first := True\<rparr> else d);
         d2 = d1\<lparr>st_status := RUNNING\<rparr>
     in if st_first d2
        then (case dc_tick child s of
            None \<Rightarrow> None
          | Some (Inl e, s1) \<Rightarrow> Some (Inl e, d2, s1)
          | Some (Inr child_state, s1) \<Rightarrow> Some (
              case child_state of
                RUNNING \<Rightarrow> (Inr RUNNING, d2, s1)
              | SUCCESS \<Rightarrow> (Inr SUCCESS, d2\<lparr>st_first := False\<rparr>, s1)
              | _ \<Rightarrow> (Inr FAILURE, d2\<lparr>st_first := False\<rparr>, s1)))
        else Some (Inr FAILURE, d2, s))"

section \<open>PathLongerOnApproach\<close>

record path_longer =
  pl_new :: "pose list"
  pl_old :: "pose list"
  pl_prox_len :: real
  pl_length_factor :: real
  pl_first :: bool
  pl_status :: node_status

definition isPathUpdated :: "pose list \<Rightarrow> pose list \<Rightarrow> bool" where
  "isPathUpdated new_path old_path \<longleftrightarrow> length old_path \<noteq> 0 \<and> length new_path \<noteq> 0 \<and> length new_path \<noteq> length old_path \<and>
     (po_x (last old_path), po_y (last old_path), po_z (last old_path)) =
     (po_x (last new_path), po_y (last new_path), po_z (last new_path))"

definition isRobotInGoalProximity :: "pose list \<Rightarrow> real \<Rightarrow> bool" where
  "isRobotInGoalProximity old_path prox_leng \<longleftrightarrow> calculate_path_length old_path 0 < prox_leng"

definition isNewPathLonger :: "pose list \<Rightarrow> pose list \<Rightarrow> real \<Rightarrow> bool" where
  "isNewPathLonger new_path old_path length_factor \<longleftrightarrow>
     length_factor * calculate_path_length old_path 0 < calculate_path_length new_path 0"

text \<open>The ports \<open>path\<close>, \<open>prox_len\<close> and \<open>length_factor\<close>.\<close>

definition path_longer_tick ::
    "pose list option \<times> real option \<times> real option \<Rightarrow> 's bt_child \<Rightarrow> path_longer \<times> 's \<Rightarrow> (path_longer \<times> 's) ticked"
  where
  "path_longer_tick env child = (\<lambda>(d, s).
     let (path, prox_len, length_factor) = env;
         d1 = d\<lparr>pl_new := bb_get path (pl_new d), pl_prox_len := bb_get prox_len (pl_prox_len d),
                pl_length_factor := bb_get length_factor (pl_length_factor d)\<rparr>;
         d2 = (if pl_first d1 = False \<and> (pl_old d1 = [] \<or> pl_new d1 = [] \<or> last (pl_old d1) \<noteq> last (pl_new d1))
               then d1\<lparr>pl_first := True\<rparr> else d1);
         d3 = d2\<lparr>pl_status := RUNNING\<rparr>
     in if isPathUpdated (pl_new d3) (pl_old d3) \<and> isRobotInGoalProximity (pl_old d3) (pl_prox_len d3) \<and>
           isNewPathLonger (pl_new d3) (pl_old d3) (pl_length_factor d3) \<and> \<not> pl_first d3
        then (case dc_tick child s of
            None \<Rightarrow> None
          | Some (Inl e, s1) \<Rightarrow> Some (Inl e, d3, s1)
          | Some (Inr child_state, s1) \<Rightarrow> Some (
              case child_state of
                RUNNING \<Rightarrow> (Inr child_state, d3, s1)
              | IDLE \<Rightarrow> (Inr FAILURE, d3\<lparr>pl_old := pl_new d3\<rparr>, s1)
              | _ \<Rightarrow> (Inr child_state, d3\<lparr>pl_old := pl_new d3\<rparr>, dc_reset child s1)))
        else Some (Inr SUCCESS, d3\<lparr>pl_old := pl_new d3, pl_first := False\<rparr>, s))"

section \<open>GoalUpdater\<close>

text \<open>A stamped goal; the state is the last goal received, and the port \<open>output_goal\<close>.\<close>

type_synonym 'g stamped = "int \<times> 'g"

record 'g goal_updater =
  gr_last :: "'g stamped"
  gr_output :: "'g stamped option"

definition callback_updated_goal :: "'g stamped \<Rightarrow> 'g goal_updater \<Rightarrow> 'g goal_updater" where
  "callback_updated_goal msg d = d\<lparr>gr_last := msg\<rparr>"

text \<open>The port \<open>input_goal\<close>, and the messages that \<open>spin_some\<close> delivers.\<close>

definition goal_updater_tick ::
    "'g stamped \<Rightarrow> 'g stamped option \<times> 'g stamped list \<Rightarrow> 's bt_child \<Rightarrow> 'g goal_updater \<times> 's \<Rightarrow> ('g goal_updater \<times> 's) ticked"
  where
  "goal_updater_tick new_message env child = (\<lambda>(d, s).
     let (input_goal, messages) = env;
         goal = bb_get input_goal new_message;
         d1 = fold callback_updated_goal messages d;
         goal' = (if fst (gr_last d1) \<noteq> 0 \<and> fst goal < fst (gr_last d1) then gr_last d1 else goal);
         d2 = d1\<lparr>gr_output := Some goal'\<rparr>
     in (case dc_tick child s of None \<Rightarrow> None | Some (x, s1) \<Rightarrow> Some (x, d2, s1)))"

end
