(* ===== verification/BT_Decorator_Props.thy ===== *)
theory BT_Decorator_Props
  imports BT_Decorators
begin

text \<open>
  What the gating decorators guarantee: a child that was started is ticked until it completes, the rate
  controller keeps to its period, and the speed controller's period stays between its bounds.
\<close>

section \<open>Completion under any readings\<close>

text \<open>Whatever each tick reads, the node gets to success or failure after running finitely often.\<close>

inductive completes_all :: "('e \<Rightarrow> 's \<Rightarrow> 's ticked) \<Rightarrow> 's \<Rightarrow> bool" for t where
  completes_any: "(\<And>e. \<exists>st s'. t e s = Some (Inr st, s') \<and>
    (st = SUCCESS \<or> st = FAILURE \<or> st = RUNNING \<and> completes_all t s')) \<Longrightarrow> completes_all t s"

text \<open>\<open>executeTick\<close> of the child stores the status it returns.\<close>

definition stores_status :: "'s bt_child \<Rightarrow> bool" where
  "stores_status child \<longleftrightarrow> (\<forall>s st s'. dc_tick child s = Some (Inr st, s') \<longrightarrow> dc_status child s' = st)"

text \<open>
  The contract of a gate: when the node is idle, or it runs and so does the child, a tick either gives up
  before ticking the child or ticks it once, runs on exactly when the child does, and then is running. \<open>fit\<close> is
  what the node's own data must satisfy.
\<close>

locale gated_decorator =
  fixes tick :: "'e \<Rightarrow> 's bt_child \<Rightarrow> 'd \<times> 's \<Rightarrow> ('d \<times> 's) ticked"
    and fit :: "'d \<Rightarrow> bool"
    and idle :: "'d \<Rightarrow> bool"
    and running :: "'d \<Rightarrow> bool"
  assumes opens: "fit d \<Longrightarrow> idle d \<or> running d \<and> dc_status child s = RUNNING \<Longrightarrow>
      (\<exists>d'. tick e child (d, s) = Some (Inr FAILURE, d', s)) \<or>
      (case dc_tick child s of
         None \<Rightarrow> tick e child (d, s) = None
       | Some (Inl x, s') \<Rightarrow> \<exists>d'. tick e child (d, s) = Some (Inl x, d', s')
       | Some (Inr st, s') \<Rightarrow> \<exists>r d'. tick e child (d, s) = Some (Inr r, d', s') \<and>
           (if st = RUNNING then r = RUNNING \<and> fit d' \<and> running d' else r = SUCCESS \<or> r = FAILURE))"

context gated_decorator begin

lemma gate_completes:
  assumes "completes (dc_tick child) s" "stores_status child" "fit d" "idle d \<or> running d \<and> dc_status child s = RUNNING"
  shows "completes_all (\<lambda>e. tick e child) (d, s)"
  using assms(1,3,4)
proof (induction arbitrary: d rule: completes.induct)
  case (completes_now s st s')
  have "st \<noteq> RUNNING" using completes_now.hyps(2) by auto
  show ?case
  proof (rule completes_any)
    fix e
    show "\<exists>st s'. tick e child (d, s) = Some (Inr st, s') \<and>
        (st = SUCCESS \<or> st = FAILURE \<or> st = RUNNING \<and> completes_all (\<lambda>e. tick e child) s')"
      using opens [OF completes_now.prems, of e] completes_now.hyps(1) \<open>st \<noteq> RUNNING\<close> by auto
  qed
next
  case (completes_later s s')
  have status: "dc_status child s' = RUNNING" using assms(2) completes_later.hyps(1) by (auto simp: stores_status_def)
  show ?case
  proof (rule completes_any)
    fix e
    show "\<exists>st s'. tick e child (d, s) = Some (Inr st, s') \<and>
        (st = SUCCESS \<or> st = FAILURE \<or> st = RUNNING \<and> completes_all (\<lambda>e. tick e child) s')"
      using opens [OF completes_later.prems, of e] completes_later.hyps(1) completes_later.IH status by auto
  qed
qed

end

lemma tick_child_cases:
  "tick_child child d f s =
    (case dc_tick child s of
       None \<Rightarrow> None
     | Some (Inl e, s1) \<Rightarrow> Some (Inl e, d, s1)
     | Some (Inr st, s1) \<Rightarrow> Some (if st = RUNNING then (Inr RUNNING, d, s1)
         else if st = SUCCESS then (Inr (fst (f d)), snd (f d), s1) else (Inr FAILURE, d, s1)))"
  by (auto simp: tick_child_def Let_def case_prod_beta' split: option.split sum.split node_status.split)

text \<open>A gate that is open forwards the tick.\<close>

lemma tick_child_opens:
  assumes "\<And>d. fst (f d) = SUCCESS \<or> fst (f d) = FAILURE" "fit d" "running d"
  shows "case dc_tick child s of
      None \<Rightarrow> tick_child child d f s = None
    | Some (Inl x, s') \<Rightarrow> \<exists>d'. tick_child child d f s = Some (Inl x, d', s')
    | Some (Inr st, s') \<Rightarrow> \<exists>r d'. tick_child child d f s = Some (Inr r, d', s') \<and>
        (if st = RUNNING then r = RUNNING \<and> fit d' \<and> running d' else r = SUCCESS \<or> r = FAILURE)"
  using assms by (auto simp: tick_child_cases split: option.split sum.split)

lemma rate_tick_open:
  assumes "rt_status d = IDLE \<or> rt_status d = RUNNING \<and> dc_status child s = RUNNING"
  shows "\<exists>d'. rt_status d' = RUNNING \<and>
    rate_tick e child (d, s) = tick_child child d' (\<lambda>d. (SUCCESS, d\<lparr>rt_start := snd (snd e)\<rparr>)) s"
  using assms by (cases "rt_status d = IDLE")
    (simp_all add: rate_tick_def Let_def case_prod_beta', (rule exI, rule conjI [rotated], rule refl, simp)+)

lemma distance_tick_open:
  assumes "di_status d = IDLE \<or> di_status d = RUNNING \<and> dc_status child s = RUNNING"
    and "\<not> (di_status d = IDLE \<and> fst e = None \<or> fst (snd e) = None)"
  shows "\<exists>d'. di_status d' = RUNNING \<and> distance_tick e child (d, s) =
    tick_child child d' (\<lambda>d. case snd (snd e) of None \<Rightarrow> (FAILURE, d) | Some p \<Rightarrow> (SUCCESS, d\<lparr>di_start := p\<rparr>)) s"
  using assms by (cases "di_status d = IDLE"; cases "fst e"; cases "fst (snd e)")
    (simp_all add: distance_tick_def Let_def case_prod_beta', (rule exI, rule conjI [rotated], rule refl, simp)+)

lemma goal_updated_refresh_simps [simp]:
  "gu_status (goal_updated_refresh new_message e d) = RUNNING"
  "gu_status d = IDLE \<Longrightarrow> gu_updated (goal_updated_refresh new_message e d)"
  by (simp_all add: goal_updated_refresh_def Let_def case_prod_beta')

lemma goal_updated_tick_open:
  assumes "gu_status d = IDLE \<or> gu_status d = RUNNING \<and> dc_status child s = RUNNING"
  shows "\<exists>d'. gu_status d' = RUNNING \<and> goal_updated_tick new_message e child (d, s) = tick_child child d' (Pair SUCCESS) s"
  using assms by (intro exI [of _ "goal_updated_refresh new_message e d\<lparr>gu_updated := False\<rparr>"])
    (auto simp: goal_updated_tick_def Let_def)

interpretation rate: gated_decorator rate_tick "\<lambda>d. True" "\<lambda>d. rt_status d = IDLE" "\<lambda>d. rt_status d = RUNNING"
proof
  fix d :: rate_controller and child :: "'a bt_child" and s and e :: "real \<times> real \<times> real"
  assume "rt_status d = IDLE \<or> rt_status d = RUNNING \<and> dc_status child s = RUNNING"
  from rate_tick_open [OF this, of e] obtain d' where d': "rt_status d' = RUNNING"
    "rate_tick e child (d, s) = tick_child child d' (\<lambda>d. (SUCCESS, d\<lparr>rt_start := snd (snd e)\<rparr>)) s" by blast
  show "(\<exists>d'. rate_tick e child (d, s) = Some (Inr FAILURE, d', s)) \<or>
      (case dc_tick child s of
         None \<Rightarrow> rate_tick e child (d, s) = None
       | Some (Inl x, s') \<Rightarrow> \<exists>d'. rate_tick e child (d, s) = Some (Inl x, d', s')
       | Some (Inr st, s') \<Rightarrow> \<exists>r d'. rate_tick e child (d, s) = Some (Inr r, d', s') \<and>
           (if st = RUNNING then r = RUNNING \<and> True \<and> rt_status d' = RUNNING else r = SUCCESS \<or> r = FAILURE))"
    unfolding d'(2) by (rule disjI2, rule tick_child_opens) (simp_all add: d'(1))
qed

interpretation distance: gated_decorator distance_tick "\<lambda>d. True" "\<lambda>d. di_status d = IDLE" "\<lambda>d. di_status d = RUNNING"
proof
  fix d :: distance_controller and child :: "'a bt_child" and s and e :: "pose option \<times> pose option \<times> pose option"
  assume d: "di_status d = IDLE \<or> di_status d = RUNNING \<and> dc_status child s = RUNNING"
  show "(\<exists>d'. distance_tick e child (d, s) = Some (Inr FAILURE, d', s)) \<or>
      (case dc_tick child s of
         None \<Rightarrow> distance_tick e child (d, s) = None
       | Some (Inl x, s') \<Rightarrow> \<exists>d'. distance_tick e child (d, s) = Some (Inl x, d', s')
       | Some (Inr st, s') \<Rightarrow> \<exists>r d'. distance_tick e child (d, s) = Some (Inr r, d', s') \<and>
           (if st = RUNNING then r = RUNNING \<and> True \<and> di_status d' = RUNNING else r = SUCCESS \<or> r = FAILURE))"
  proof (cases "di_status d = IDLE \<and> fst e = None \<or> fst (snd e) = None")
    case True
    then have "\<exists>d'. distance_tick e child (d, s) = Some (Inr FAILURE, d', s)"
      by (auto simp: distance_tick_def Let_def case_prod_beta' split: option.split)
    then show ?thesis by blast
  next
    case False
    from distance_tick_open [OF d this] obtain d' where d': "di_status d' = RUNNING" "distance_tick e child (d, s) =
        tick_child child d' (\<lambda>d. case snd (snd e) of None \<Rightarrow> (FAILURE, d) | Some p \<Rightarrow> (SUCCESS, d\<lparr>di_start := p\<rparr>)) s"
      by blast
    show ?thesis unfolding d'(2) by (rule disjI2, rule tick_child_opens) (simp_all add: d'(1) split: option.split)
  qed
qed

interpretation goal_updated: gated_decorator "goal_updated_tick new_message" "\<lambda>d. True" "\<lambda>d. gu_status d = IDLE"
  "\<lambda>d. gu_status d = RUNNING" for new_message :: 'g
proof
  fix d :: "'g goal_controller" and child :: "'a bt_child" and s and e :: "'g goal_entries \<times> 'g goal_entries"
  assume "gu_status d = IDLE \<or> gu_status d = RUNNING \<and> dc_status child s = RUNNING"
  from goal_updated_tick_open [OF this, of new_message e] obtain d' where d': "gu_status d' = RUNNING"
    "goal_updated_tick new_message e child (d, s) = tick_child child d' (Pair SUCCESS) s" by blast
  show "(\<exists>d'. goal_updated_tick new_message e child (d, s) = Some (Inr FAILURE, d', s)) \<or>
      (case dc_tick child s of
         None \<Rightarrow> goal_updated_tick new_message e child (d, s) = None
       | Some (Inl x, s') \<Rightarrow> \<exists>d'. goal_updated_tick new_message e child (d, s) = Some (Inl x, d', s')
       | Some (Inr st, s') \<Rightarrow> \<exists>r d'. goal_updated_tick new_message e child (d, s) = Some (Inr r, d', s') \<and>
           (if st = RUNNING then r = RUNNING \<and> True \<and> gu_status d' = RUNNING else r = SUCCESS \<or> r = FAILURE))"
    unfolding d'(2) by (rule disjI2, rule tick_child_opens) (simp_all add: d'(1))
qed

definition speed_fit :: "'g speed_controller \<Rightarrow> bool" where
  "speed_fit d \<longleftrightarrow> sp_d_speed d \<noteq> 0"

lemma speed_refresh_simps [simp]:
  "sp_status (speed_refresh new_message e d) = RUNNING"
  "sp_status d = IDLE \<Longrightarrow> sp_first (speed_refresh new_message e d)"
  "sp_min_rate (speed_refresh new_message e d) = sp_min_rate d" "sp_max_rate (speed_refresh new_message e d) = sp_max_rate d"
  "sp_d_rate (speed_refresh new_message e d) = sp_d_rate d" "sp_d_speed (speed_refresh new_message e d) = sp_d_speed d"
  "sp_min_speed (speed_refresh new_message e d) = sp_min_speed d"
  by (simp_all add: speed_refresh_def Let_def)

lemma speed_tick_open:
  assumes "speed_fit d" "sp_status d = IDLE \<or> sp_status d = RUNNING \<and> dc_status child s = RUNNING"
  shows "\<exists>d'. speed_fit d' \<and> sp_status d' = RUNNING \<and> speed_tick new_message e child (d, s) = tick_child child d' (Pair SUCCESS) s"
proof -
  let ?d = "speed_refresh new_message e d\<lparr>sp_first := False\<rparr>"
  have gate: "sp_first (speed_refresh new_message e d) \<or> dc_status child s = RUNNING" using assms(2) by auto
  obtain d' where d': "(if sp_period ?d \<le> se_now_elapsed e - sp_start ?d
      then map_option (\<lambda>d. d\<lparr>sp_start := se_now_update e\<rparr>) (updatePeriod (se_velocity e) ?d) else Some ?d) = Some d'"
    "speed_fit d'" "sp_status d' = RUNNING"
    using assms(1) that
    by (cases "sp_period ?d \<le> se_now_elapsed e - sp_start ?d")
      (auto simp: updatePeriod_def getScaledRate_def speed_fit_def Let_def)
  then have "speed_tick new_message e child (d, s) = tick_child child d' (Pair SUCCESS) s"
    using gate by (auto simp: speed_tick_def Let_def split: if_splits)
  then show ?thesis using d'(2,3) by blast
qed

interpretation speed: gated_decorator "speed_tick new_message" speed_fit "\<lambda>d. sp_status d = IDLE"
  "\<lambda>d. sp_status d = RUNNING" for new_message :: 'g
proof
  fix d :: "'g speed_controller" and child :: "'a bt_child" and s and e :: "'g speed_env"
  assume "speed_fit d" "sp_status d = IDLE \<or> sp_status d = RUNNING \<and> dc_status child s = RUNNING"
  from speed_tick_open [OF this] obtain d' where d': "speed_fit d'" "sp_status d' = RUNNING"
    "speed_tick new_message e child (d, s) = tick_child child d' (Pair SUCCESS) s" by blast
  show "(\<exists>d'. speed_tick new_message e child (d, s) = Some (Inr FAILURE, d', s)) \<or>
      (case dc_tick child s of
         None \<Rightarrow> speed_tick new_message e child (d, s) = None
       | Some (Inl x, s') \<Rightarrow> \<exists>d'. speed_tick new_message e child (d, s) = Some (Inl x, d', s')
       | Some (Inr st, s') \<Rightarrow> \<exists>r d'. speed_tick new_message e child (d, s) = Some (Inr r, d', s') \<and>
           (if st = RUNNING then r = RUNNING \<and> speed_fit d' \<and> sp_status d' = RUNNING else r = SUCCESS \<or> r = FAILURE))"
    unfolding d'(3) by (rule disjI2, rule tick_child_opens) (simp_all add: d'(1,2))
qed

text \<open>The single trigger is a gate that does not close while its child runs; it reads nothing.\<close>

interpretation single: gated_decorator "\<lambda>_::unit. single_tick" "\<lambda>d. True"
  "\<lambda>d. st_status d = IDLE" "\<lambda>d. st_status d = RUNNING \<and> st_first d"
proof
  fix d :: single_trigger and child :: "'a bt_child" and s and e :: unit
  assume "st_status d = IDLE \<or> (st_status d = RUNNING \<and> st_first d) \<and> dc_status child s = RUNNING"
  then show "(\<exists>d'. single_tick child (d, s) = Some (Inr FAILURE, d', s)) \<or>
      (case dc_tick child s of
         None \<Rightarrow> single_tick child (d, s) = None
       | Some (Inl x, s') \<Rightarrow> \<exists>d'. single_tick child (d, s) = Some (Inl x, d', s')
       | Some (Inr st, s') \<Rightarrow> \<exists>r d'. single_tick child (d, s) = Some (Inr r, d', s') \<and>
           (if st = RUNNING then r = RUNNING \<and> True \<and> st_status d' = RUNNING \<and> st_first d' else r = SUCCESS \<or> r = FAILURE))"
    by (auto simp: single_tick_def Let_def split: option.split sum.split node_status.split)
qed

section \<open>Sequences of ticks\<close>

fun tick_runs :: "('e \<Rightarrow> 's \<Rightarrow> 's ticked) \<Rightarrow> 'e list \<Rightarrow> 's \<Rightarrow> ((bt_error + node_status) list \<times> 's) option" where
  "tick_runs t [] s = Some ([], s)"
| "tick_runs t (e # es) s =
     (case t e s of None \<Rightarrow> None | Some (x, s1) \<Rightarrow> map_option (\<lambda>(xs, s2). (x # xs, s2)) (tick_runs t es s1))"

lemma rate_shut:
  assumes "rt_status d \<noteq> IDLE" "\<not> rt_first d" "dc_status child s \<noteq> RUNNING" "rt_period d = Some p" "fst (snd e) < rt_start d + p"
  shows "rate_tick e child (d, s) = Some (Inr RUNNING, d\<lparr>rt_status := RUNNING\<rparr>, s)"
  using assms by (cases e) (simp add: rate_tick_def Let_def)

lemma rate_waits:
  assumes "rt_status d \<noteq> IDLE" "\<not> rt_first d" "dc_status child s \<noteq> RUNNING" "rt_period d = Some p"
    and "\<forall>e \<in> set es. fst (snd e) < rt_start d + p"
  shows "\<exists>d'. tick_runs (\<lambda>e. rate_tick e child) es (d, s) = Some (replicate (length es) (Inr RUNNING), d', s)"
  using assms
proof (induction es arbitrary: d)
  case Nil
  then show ?case by simp
next
  case (Cons e es)
  have "\<exists>d'. tick_runs (\<lambda>e. rate_tick e child) es (d\<lparr>rt_status := RUNNING\<rparr>, s) = Some (replicate (length es) (Inr RUNNING), d', s)"
    by (rule Cons.IH) (use Cons.prems in auto)
  then show ?case using rate_shut [OF Cons.prems(1-4), of e] Cons.prems(5) by auto
qed

lemma rate_success:
  assumes "rate_tick e child (d, s) = Some (Inr SUCCESS, d', s')"
  shows "dc_tick child s = Some (Inr SUCCESS, s')" "rt_start d' = snd (snd e)" "\<not> rt_first d'" "rt_period d' = rt_period d"
proof -
  obtain now1 now2 now3 where e: "e = (now1, now2, now3)" by (cases e)
  define d1 where "d1 = (if rt_status d = IDLE then d\<lparr>rt_start := now1, rt_first := True\<rparr> else d)\<lparr>rt_status := RUNNING\<rparr>"
  have d1: "rt_status d1 = RUNNING" "rt_period d1 = rt_period d" by (simp_all add: d1_def)
  have "rate_tick e child (d, s) = (if rt_first d1 \<or> dc_status child s = RUNNING \<or>
        (case rt_period d1 of None \<Rightarrow> False | Some p \<Rightarrow> p \<le> now2 - rt_start d1)
      then tick_child child (d1\<lparr>rt_first := False\<rparr>) (\<lambda>d. (SUCCESS, d\<lparr>rt_start := now3\<rparr>)) s
      else Some (Inr (rt_status d1), d1, s))"
    unfolding e rate_tick_def d1_def Let_def by simp
  then have t: "tick_child child (d1\<lparr>rt_first := False\<rparr>) (\<lambda>d. (SUCCESS, d\<lparr>rt_start := now3\<rparr>)) s = Some (Inr SUCCESS, d', s')"
    unfolding assms using d1(1) by (auto split: if_splits)
  show "dc_tick child s = Some (Inr SUCCESS, s')" "rt_start d' = snd (snd e)" "\<not> rt_first d'" "rt_period d' = rt_period d"
    using t d1(2) unfolding tick_child_cases e by (auto split: option.splits sum.splits if_splits)
qed

section \<open>The period of the speed controller\<close>

definition speed_rates :: "'g speed_controller \<Rightarrow> bool" where
  "speed_rates d \<longleftrightarrow> 0 < sp_min_rate d \<and> sp_min_rate d \<le> sp_max_rate d"

definition period_in_range :: "'g speed_controller \<Rightarrow> bool" where
  "period_in_range d \<longleftrightarrow> 1 / sp_max_rate d \<le> sp_period d \<and> sp_period d \<le> 1 / sp_min_rate d"

lemma max_rate_range: "speed_rates d \<Longrightarrow> sp_period d = 1 / sp_max_rate d \<Longrightarrow> period_in_range d"
  by (simp add: speed_rates_def period_in_range_def frac_le)

lemma refresh_range:
  assumes "speed_rates d" "sp_status d = IDLE \<or> period_in_range d"
  shows "period_in_range (speed_refresh new_message e d)"
  using assms by (auto simp: speed_refresh_def Let_def period_in_range_def speed_rates_def frac_le)

lemma update_range:
  assumes "speed_rates d" "updatePeriod v d = Some d'"
  shows "period_in_range d'"
proof -
  obtain rate where rate: "getScaledRate d (sqrt ((fst v)\<^sup>2 + (snd v)\<^sup>2)) = Some rate" "d' = d\<lparr>sp_period := 1 / rate\<rparr>"
    using assms(2) by (auto simp: updatePeriod_def Let_def bind_eq_Some_conv)
  then have "sp_min_rate d \<le> rate" "rate \<le> sp_max_rate d"
    using assms(1) by (auto simp: getScaledRate_def speed_rates_def split: if_splits)
  then show ?thesis using assms(1) rate(2) by (auto simp: period_in_range_def speed_rates_def intro!: frac_le)
qed

lemma tick_child_data:
  assumes "tick_child child d (Pair SUCCESS) s = Some (x, d', s')"
  shows "d' = d"
  using assms unfolding tick_child_cases by (auto split: option.splits sum.splits if_splits)

lemma speed_tick_range:
  assumes "speed_rates d" "sp_status d = IDLE \<or> period_in_range d" "speed_tick new_message e child (d, s) = Some (x, d', s')"
  shows "period_in_range d' \<and> speed_rates d'"
proof -
  let ?d = "speed_refresh new_message e d"
  have r: "period_in_range ?d" "speed_rates ?d" using refresh_range [OF assms(1,2)] assms(1) by (simp_all add: speed_rates_def)
  then have r': "period_in_range (?d\<lparr>sp_first := False\<rparr>)" "speed_rates (?d\<lparr>sp_first := False\<rparr>)"
    by (simp_all add: period_in_range_def speed_rates_def)
  show ?thesis
  proof (cases "sp_first ?d \<or> dc_status child s = RUNNING \<or> sp_period ?d \<le> se_now_elapsed e - sp_start ?d")
    case False
    then have "d' = ?d" using assms(3) by (simp add: speed_tick_def Let_def)
    then show ?thesis using r by simp
  next
    case True
    then obtain d3 where d3: "(if sp_period ?d \<le> se_now_elapsed e - sp_start ?d
        then map_option (\<lambda>d. d\<lparr>sp_start := se_now_update e\<rparr>) (updatePeriod (se_velocity e) (?d\<lparr>sp_first := False\<rparr>))
        else Some (?d\<lparr>sp_first := False\<rparr>)) = Some d3" "tick_child child d3 (Pair SUCCESS) s = Some (x, d', s')"
      using assms(3) by (auto simp: speed_tick_def Let_def split: option.splits if_splits)
    have "period_in_range d3 \<and> speed_rates d3"
    proof (cases "sp_period ?d \<le> se_now_elapsed e - sp_start ?d")
      case True
      then obtain d2 where d2: "updatePeriod (se_velocity e) (?d\<lparr>sp_first := False\<rparr>) = Some d2" "d3 = d2\<lparr>sp_start := se_now_update e\<rparr>"
        using d3(1) by auto
      have "speed_rates d2" using d2(1) r'(2) by (auto simp: updatePeriod_def Let_def bind_eq_Some_conv speed_rates_def)
      then show ?thesis using update_range [OF r'(2) d2(1)] d2(2) by (simp add: period_in_range_def speed_rates_def)
    next
      case False
      then show ?thesis using d3(1) r' by simp
    qed
    then show ?thesis using tick_child_data [OF d3(2)] by simp
  qed
qed

section \<open>Properties\<close>

text \<open>C38. A child that gets to success or failure when ticked again and again also does so under each of the
  gates: started from idle, the rate, distance, goal and speed controllers and the single trigger get to
  success or failure after running finitely often, whatever the clock, the poses, the goals and the speed
  read at each tick are.\<close>

theorem decorators_complete:
  assumes "completes (dc_tick child) s" "stores_status child"
  shows "(rt_status rt = IDLE \<longrightarrow> completes_all (\<lambda>e. rate_tick e child) (rt, s)) \<and>
    (di_status di = IDLE \<longrightarrow> completes_all (\<lambda>e. distance_tick e child) (di, s)) \<and>
    (gu_status gu = IDLE \<longrightarrow> completes_all (\<lambda>e. goal_updated_tick new_message e child) (gu, s)) \<and>
    (sp_d_speed sp \<noteq> 0 \<longrightarrow> sp_status sp = IDLE \<longrightarrow> completes_all (\<lambda>e. speed_tick new_message e child) (sp, s)) \<and>
    (st_status st = IDLE \<longrightarrow> completes_all (\<lambda>_::unit. single_tick child) (st, s))"
  using rate.gate_completes [OF assms, of rt] distance.gate_completes [OF assms, of di]
    goal_updated.gate_completes [OF assms, of gu new_message] speed.gate_completes [OF assms, of sp new_message]
    single.gate_completes [OF assms, of st]
  by (simp add: speed_fit_def)

text \<open>After the child of a rate controller has succeeded, every tick that comes before its period is over
  returns running without ticking the child, however many there are.\<close>

theorem rate_limited:
  assumes "stores_status child" "rt_period d = Some p" "rate_tick e child (d, s) = Some (Inr SUCCESS, d1, s1)"
    and "\<forall>e' \<in> set es. fst (snd e') < snd (snd e) + p"
  shows "\<exists>d2. tick_runs (\<lambda>e. rate_tick e child) es (d1\<lparr>rt_status := SUCCESS\<rparr>, s1) =
    Some (replicate (length es) (Inr RUNNING), d2, s1)"
proof (rule rate_waits)
  note r = rate_success [OF assms(3)]
  show "dc_status child s1 \<noteq> RUNNING" using assms(1) r(1) by (auto simp: stores_status_def)
  show "rt_period (d1\<lparr>rt_status := SUCCESS\<rparr>) = Some p" using r(4) assms(2) by simp
  show "\<forall>e' \<in> set es. fst (snd e') < rt_start (d1\<lparr>rt_status := SUCCESS\<rparr>) + p" using r(2) assms(4) by simp
qed (use rate_success [OF assms(3)] in simp_all)

text \<open>The period of the speed controller always stays between those of its largest and its smallest rate,
  whatever speeds and goals are read: from idle, and from every state a tick leaves it in.\<close>

theorem speed_period_bounds:
  assumes "0 < sp_min_rate d" "sp_min_rate d \<le> sp_max_rate d"
    and "sp_status d = IDLE \<or> 1 / sp_max_rate d \<le> sp_period d \<and> sp_period d \<le> 1 / sp_min_rate d"
    and "speed_tick new_message e child (d, s) = Some (x, d', s')"
  shows "1 / sp_max_rate d' \<le> sp_period d' \<and> sp_period d' \<le> 1 / sp_min_rate d' \<and> 0 < sp_min_rate d' \<and> sp_min_rate d' \<le> sp_max_rate d'"
  using speed_tick_range [OF _ _ assms(4)] assms(1-3) by (auto simp: speed_rates_def period_in_range_def)

section \<open>Witnesses\<close>

text \<open>A child that returns what a script says and remembers it.\<close>

definition script_child :: "(node_status \<times> node_status list) bt_child" where
  "script_child = \<lparr>dc_tick = (\<lambda>(st, s). case s of [] \<Rightarrow> Some (Inr SUCCESS, SUCCESS, []) | x # xs \<Rightarrow> Some (Inr x, x, xs)),
     dc_status = fst, dc_reset = (\<lambda>(st, s). (IDLE, s))\<rparr>"

lemma script_stores: "stores_status script_child"
  by (auto simp: stores_status_def script_child_def split: list.splits)

lemma script_completes: "completes (dc_tick script_child) (IDLE, [RUNNING, FAILURE])"
proof (rule completes_later)
  show "dc_tick script_child (IDLE, [RUNNING, FAILURE]) = Some (Inr RUNNING, RUNNING, [FAILURE])"
    by (simp add: script_child_def)
  show "completes (dc_tick script_child) (RUNNING, [FAILURE])"
    by (rule completes_now [of _ _ FAILURE "(FAILURE, [])"]) (simp_all add: script_child_def)
qed

theorem decorators_complete_witness:
  "completes_all (\<lambda>e. rate_tick e script_child) (rate_new 10, IDLE, [RUNNING, FAILURE]) \<and>
   completes_all (\<lambda>_::unit. single_tick script_child) (single_new, IDLE, [RUNNING, FAILURE])"
  using decorators_complete [OF script_completes script_stores, of "rate_new 10" _ "_ :: unit goal_controller" _ "_ :: unit speed_controller" single_new]
  by (simp add: rate_new_def single_new_def)

theorem rate_limited_witness:
  "\<exists>d1 d2. rate_tick (0, 0, 5) script_child (rate_new (1 / 2), IDLE, [SUCCESS, FAILURE]) = Some (Inr SUCCESS, d1, SUCCESS, [FAILURE]) \<and>
    tick_runs (\<lambda>e. rate_tick e script_child) [(0, 5, 0), (0, 6, 0)] (d1\<lparr>rt_status := SUCCESS\<rparr>, SUCCESS, [FAILURE]) =
      Some ([Inr RUNNING, Inr RUNNING], d2, SUCCESS, [FAILURE])"
proof -
  obtain d1 where t: "rate_tick (0, 0, 5) script_child (rate_new (1 / 2), IDLE, [SUCCESS, FAILURE]) = Some (Inr SUCCESS, d1, SUCCESS, [FAILURE])"
    by (simp add: rate_tick_def rate_new_def tick_child_def script_child_def Let_def)
  have p: "rt_period (rate_new (1 / 2)) = Some 2" by (simp add: rate_new_def)
  show ?thesis using rate_limited [OF script_stores p t, of "[(0, 5, 0), (0, 6, 0)]"] t by auto
qed

theorem speed_period_bounds_witness:
  "\<exists>d d' s'. speed_new () None None None None = Inr d \<and>
    speed_tick () \<lparr>se_first = (None, None), se_current = (None, None), se_now_idle = 0, se_now_goal = 0, se_now_elapsed = 9,
      se_now_update = 9, se_velocity = (0, 0)\<rparr> script_child (d, IDLE, []) = Some (Inr SUCCESS, d', s') \<and>
    1 \<le> sp_period d' \<and> sp_period d' \<le> 10"
proof -
  let ?e = "\<lparr>se_first = (None, None), se_current = (None, None), se_now_idle = 0, se_now_goal = 0, se_now_elapsed = 9,
      se_now_update = 9, se_velocity = (0, 0)\<rparr> :: unit speed_env"
  obtain d where d: "speed_new () None None None None = Inr d" by (simp add: speed_new_def bb_get_def Let_def)
  then have f: "sp_min_rate d = 1 / 10" "sp_max_rate d = 1" "sp_d_speed d = 1 / 2" "sp_status d = IDLE" "sp_min_speed d = 0"
    by (auto simp: speed_new_def bb_get_def Let_def)
  have "speed_fit d" "sp_status d = IDLE \<or> sp_status d = RUNNING \<and> dc_status script_child (IDLE, []) = RUNNING"
    using f by (simp_all add: speed_fit_def)
  then obtain d0 where "speed_tick () ?e script_child (d, IDLE, []) = tick_child script_child d0 (Pair SUCCESS) (IDLE, [])"
    using speed_tick_open [of d script_child "(IDLE, [])" "()" ?e] by blast
  then have t: "speed_tick () ?e script_child (d, IDLE, []) = Some (Inr SUCCESS, d0, SUCCESS, [])"
    by (simp add: tick_child_def script_child_def)
  have r: "sp_min_rate d0 = sp_min_rate d" "sp_max_rate d0 = sp_max_rate d"
    using t f by (auto simp: speed_tick_def Let_def tick_child_def script_child_def updatePeriod_def getScaledRate_def split: if_splits)
  show ?thesis using speed_period_bounds [OF _ _ _ t] f r d t by auto
qed

end
