(* ===== verification/Route_Types.thy ===== *)
theory Route_Types
  imports Nav_Prelude
begin

text \<open>
  The data of the route server (\<open>nav2_route/types.hpp\<close>, \<open>nav2_core/route_exceptions.hpp\<close>). A graph is a
  vector of nodes, a \<open>NodePtr\<close> is the index of a node in it, and an edge is stored in the node it starts
  from. Edges do not change while a route is planned and tracked, so an \<open>EdgePtr\<close> is the edge it points to.
  A \<open>float\<close> is the real number it denotes. The result of a floating point addition is the exact sum rounded by
  the argument \<open>rnd\<close>; an infinite result is any number above \<open>FLT_MAX\<close>, which compares as infinity does.
\<close>

section \<open>Exceptions\<close>

text \<open>
  The exceptions of the route server, and those of the C++ library it meets: \<open>Out_of_range\<close> of
  \<open>vector::at\<close>, \<open>Bad_any_cast\<close> of \<open>std::any_cast\<close>.
\<close>

datatype route_exception =
    OperationFailed | NoValidRouteCouldBeFound | TimedOut | RouteTFError | NoValidGraph
  | IndeterminantNodesOnGraph | InvalidEdgeScorerUse | Out_of_range | Bad_any_cast

section \<open>Metadata\<close>

text \<open>
  \<open>Metadata\<close> maps keys to values of any type. The values are those a graph file has: numbers by their C++
  type, text, truth values, arrays and nested metadata. The list is the map in the order an iteration over
  it gives.
\<close>

datatype any_value =
    Any_uint u32 | Any_int u32 | Any_float real | Any_bool bool | Any_string string
  | Any_array "any_value list" | Any_metadata "(string \<times> any_value) list"

type_synonym metadata = "(string \<times> any_value) list"

definition getValue_float :: "metadata \<Rightarrow> string \<Rightarrow> real \<Rightarrow> route_exception + real" where
  "getValue_float mdata key d =
     (case map_of mdata key of
        None \<Rightarrow> Inr d
      | Some (Any_float r) \<Rightarrow> Inr r
      | Some _ \<Rightarrow> Inl Bad_any_cast)"

definition getValue_string :: "metadata \<Rightarrow> string \<Rightarrow> string \<Rightarrow> route_exception + string" where
  "getValue_string mdata key d =
     (case map_of mdata key of
        None \<Rightarrow> Inr d
      | Some (Any_string s) \<Rightarrow> Inr s
      | Some _ \<Rightarrow> Inl Bad_any_cast)"

definition setValue :: "metadata \<Rightarrow> string \<Rightarrow> any_value \<Rightarrow> metadata" where
  "setValue mdata key v =
     (if key \<in> fst ` set mdata
      then map (\<lambda>(k, w). if k = key then (k, v) else (k, w)) mdata
      else mdata @ [(key, v)])"

section \<open>Operations\<close>

datatype operation_trigger = NODE | ON_ENTER | ON_EXIT

record operation =
  op_type :: string
  op_trigger :: operation_trigger
  op_metadata :: metadata

section \<open>Graphs\<close>

record coordinates =
  frame_id :: string
  co_x :: real
  co_y :: real

record edge_cost =
  ec_cost :: real
  overridable :: bool

record dir_edge =
  edgeid :: u32
  e_start :: nat
  e_end :: nat
  edge_cost :: edge_cost
  e_metadata :: metadata
  e_operations :: "operation list"

record search_state =
  parent_edge :: "dir_edge option"
  integrated_cost :: real
  traversal_cost :: real

record node =
  nodeid :: u32
  coords :: coordinates
  neighbors :: "dir_edge list"
  n_metadata :: metadata
  n_operations :: "operation list"
  search_state :: search_state

type_synonym graph = "node list"

definition FLT_MAX :: real where
  "FLT_MAX = (2 ^ 24 - 1) * 2 ^ 104"

definition SearchState_reset :: search_state where
  "SearchState_reset =
     \<lparr>parent_edge = None, integrated_cost = FLT_MAX, traversal_cost = FLT_MAX\<rparr>"

definition addEdge ::
  "graph \<Rightarrow> nat \<Rightarrow> edge_cost \<Rightarrow> nat \<Rightarrow> u32 \<Rightarrow> metadata \<Rightarrow> operation list \<Rightarrow> graph" where
  "addEdge g i c target eid mdata ops =
     g[i := (g ! i)\<lparr>neighbors := neighbors (g ! i) @
       [\<lparr>edgeid = eid, e_start = i, e_end = target, edge_cost = c, e_metadata = mdata,
         e_operations = ops\<rparr>]\<rparr>]"

section \<open>Routes and requests\<close>

record route =
  start_node :: nat
  edges :: "dir_edge list"
  route_cost :: real

text \<open>Of the poses of a request the scorers use the yaw only.\<close>

record route_request =
  start_nodeid :: u32
  goal_nodeid :: u32
  start_yaw :: real
  goal_yaw :: real
  use_poses :: bool

datatype edge_type = EDGE_NONE | EDGE_START | EDGE_END

section \<open>Well-formed graphs\<close>

text \<open>
  What the loader of graphs establishes when the ids in the file are distinct: edges start at the node that
  stores them and end in the graph.
\<close>

definition wf_graph :: "graph \<Rightarrow> bool" where
  "wf_graph g \<longleftrightarrow> distinct (map nodeid g) \<and>
     (\<forall>i<length g. \<forall>e\<in>set (neighbors (g ! i)). e_start e = i \<and> e_end e < length g)"

text \<open>Two graphs that differ at most in the state of a search.\<close>

definition clear_state :: "node \<Rightarrow> node" where
  "clear_state nd = nd\<lparr>search_state := SearchState_reset\<rparr>"

definition same_graph :: "graph \<Rightarrow> graph \<Rightarrow> bool" where
  "same_graph g g' \<longleftrightarrow> map clear_state g = map clear_state g'"

definition upd_state :: "nat \<Rightarrow> search_state \<Rightarrow> graph \<Rightarrow> graph" where
  "upd_state i s g = g[i := (g ! i)\<lparr>search_state := s\<rparr>]"

lemma clear_state_fields [simp]:
  "nodeid (clear_state nd) = nodeid nd" "coords (clear_state nd) = coords nd"
  "neighbors (clear_state nd) = neighbors nd" "n_metadata (clear_state nd) = n_metadata nd"
  "n_operations (clear_state nd) = n_operations nd"
  by (simp_all add: clear_state_def)

lemma same_graph_refl [simp]: "same_graph g g"
  by (simp add: same_graph_def)

lemma same_graph_sym: "same_graph g g' \<Longrightarrow> same_graph g' g"
  by (simp add: same_graph_def)

lemma same_graph_trans [trans]: "same_graph g g' \<Longrightarrow> same_graph g' g'' \<Longrightarrow> same_graph g g''"
  by (simp add: same_graph_def)

lemma same_graph_length: "same_graph g g' \<Longrightarrow> length g' = length g"
  by (metis length_map same_graph_def)

lemma same_graph_nth:
  assumes "same_graph g g'" "i < length g"
  shows "clear_state (g' ! i) = clear_state (g ! i)"
proof -
  have "map clear_state g' ! i = map clear_state g ! i"
    using assms(1) by (simp add: same_graph_def)
  then show ?thesis
    using assms same_graph_length [OF assms(1)] by simp
qed

lemma same_graph_fields:
  assumes "same_graph g g'" "i < length g"
  shows "nodeid (g' ! i) = nodeid (g ! i)" "coords (g' ! i) = coords (g ! i)"
    "neighbors (g' ! i) = neighbors (g ! i)" "n_metadata (g' ! i) = n_metadata (g ! i)"
    "n_operations (g' ! i) = n_operations (g ! i)"
  using same_graph_nth [OF assms] clear_state_fields by metis+

lemma same_graph_upd_state: "same_graph g (upd_state i s g)"
  by (cases "i < length g")
    (auto simp: same_graph_def upd_state_def map_update clear_state_def intro!: nth_equalityI
      simp: nth_list_update)

lemma same_graph_map_state:
  "same_graph g (map (\<lambda>nd. nd\<lparr>search_state := s nd\<rparr>) g)"
  by (simp add: same_graph_def clear_state_def)

lemma length_upd_state [simp]: "length (upd_state i s g) = length g"
  by (simp add: upd_state_def)

lemma search_state_upd_state:
  "j < length g \<Longrightarrow>
   search_state (upd_state i s g ! j) = (if i = j then s else search_state (g ! j))"
  by (simp add: upd_state_def nth_list_update)

lemma wf_graph_same: "same_graph g g' \<Longrightarrow> wf_graph g \<Longrightarrow> wf_graph g'"
proof -
  assume sg: "same_graph g g'" and wf: "wf_graph g"
  have "map nodeid g' = map nodeid g"
    using same_graph_fields(1) [OF sg] same_graph_length [OF sg]
    by (intro nth_equalityI) simp_all
  then show "wf_graph g'"
    using wf same_graph_fields(3) [OF sg] same_graph_length [OF sg] by (simp add: wf_graph_def)
qed

lemma wf_graph_edge:
  assumes "wf_graph g" "i < length g" "e \<in> set (neighbors (g ! i))"
  shows "e_start e = i" "e_end e < length g"
  using assms by (auto simp: wf_graph_def)

lemma wf_graph_id:
  assumes "wf_graph g" "i < length g" "j < length g" "nodeid (g ! i) = nodeid (g ! j)"
  shows "i = j"
  using assms nth_eq_iff_index_eq [of "map nodeid g" i j] by (simp add: wf_graph_def)

text \<open>Adding an edge between two nodes of a well-formed graph keeps it well-formed.\<close>

lemma wf_graph_addEdge:
  assumes "wf_graph g" "i < length g" "target < length g"
  shows "wf_graph (addEdge g i c target eid mdata ops)"
proof -
  have "map nodeid (addEdge g i c target eid mdata ops) = map nodeid g"
    by (intro nth_equalityI) (auto simp: addEdge_def nth_list_update assms)
  then show ?thesis
    using assms unfolding wf_graph_def
    by (auto simp: addEdge_def nth_list_update split: if_splits)
qed

lemma FLT_MAX_pos: "0 < FLT_MAX"
  by (simp add: FLT_MAX_def)

end
