(* ===== verification/Route_Operations.thy ===== *)
theory Route_Operations
  imports Route_Types
begin

text \<open>
  The operations manager of the route server (\<open>operations_manager.cpp\<close>) and the operations that need no
  costmap (\<open>plugins/route_operations\<close>). An operation changes the world: the states of all operations and
  whatever they publish or call, a type of its own here. \<open>None\<close> is an access outside the edges of the route.
\<close>

record pose =
  p_x :: real
  p_y :: real

text \<open>The result of an operation and of all operations of an update of the tracker.\<close>

record operation_result =
  reroute :: bool
  res_blocked :: "u32 list"

record operations_result = operation_result +
  operations_triggered :: "string list"

definition OperationResult_new :: operation_result where
  "OperationResult_new = \<lparr>reroute = False, res_blocked = []\<rparr>"

definition OperationsResult_new :: operations_result where
  "OperationsResult_new = \<lparr>reroute = False, res_blocked = [], operations_triggered = []\<rparr>"

record 'w route_operation =
  op_name :: string
  perform :: "nat option \<Rightarrow> dir_edge option \<Rightarrow> dir_edge option \<Rightarrow> route \<Rightarrow> pose \<Rightarrow> metadata option \<Rightarrow>
    'w \<Rightarrow> (route_exception + operation_result) \<times> 'w"

record 'w operations_manager =
  change_operations :: "'w route_operation list"
  query_operations :: "'w route_operation list"
  graph_operations :: "string \<rightharpoonup> 'w route_operation"

text \<open>What a tracker knows of its progress.\<close>

record tracking_state =
  last_node :: "nat option"
  next_node :: "nat option"
  current_edge :: "dir_edge option"
  route_edges_idx :: int
  within_radius :: bool

definition RouteTrackingState_new :: tracking_state where
  "RouteTrackingState_new = \<lparr>last_node = None, next_node = None, current_edge = None,
     route_edges_idx = -1, within_radius = False\<rparr>"

section \<open>The operations of the graph\<close>

fun findGraphOperationsToProcess ::
  "operation list option \<Rightarrow> operation_trigger \<Rightarrow> operation list \<Rightarrow> operation list" where
  "findGraphOperationsToProcess None trigger ops = ops"
| "findGraphOperationsToProcess (Some op_vec) trigger ops =
     ops @ filter (\<lambda>op. op_trigger op = trigger) op_vec"

definition findGraphOperations ::
  "graph \<Rightarrow> nat option \<Rightarrow> dir_edge option \<Rightarrow> dir_edge option \<Rightarrow> operation list" where
  "findGraphOperations g nd edge_enter edge_exit =
     (let ops = findGraphOperationsToProcess (map_option (\<lambda>i. n_operations (g ! i)) nd) NODE [];
          ops = findGraphOperationsToProcess (map_option e_operations edge_enter) ON_ENTER ops
      in findGraphOperationsToProcess (map_option e_operations edge_exit) ON_EXIT ops)"

definition updateResult :: "string \<Rightarrow> operation_result \<Rightarrow> operations_result \<Rightarrow> operations_result" where
  "updateResult name op_result result =
     result\<lparr>reroute := reroute result \<or> reroute op_result,
       res_blocked := res_blocked result @ res_blocked op_result,
       operations_triggered := operations_triggered result @ [name]\<rparr>"

fun processGraphOperations ::
  "(string \<rightharpoonup> 'w route_operation) \<Rightarrow> nat option \<Rightarrow> dir_edge option \<Rightarrow> dir_edge option \<Rightarrow> route \<Rightarrow>
   pose \<Rightarrow> operation list \<Rightarrow> operations_result \<Rightarrow> 'w \<Rightarrow> (route_exception + operations_result) \<times> 'w" where
  "processGraphOperations gops nd ent ext route pose [] result w = (Inr result, w)"
| "processGraphOperations gops nd ent ext route pose (op # ops) result w =
     (case gops (op_type op) of
        None \<Rightarrow> (Inl OperationFailed, w)
      | Some plugin \<Rightarrow>
          (case perform plugin nd ent ext route pose (Some (op_metadata op)) w of
             (Inl x, w') \<Rightarrow> (Inl x, w')
           | (Inr r, w') \<Rightarrow>
               processGraphOperations gops nd ent ext route pose ops
                 (updateResult (op_name plugin) r result) w'))"

fun processOperationsPluginVector ::
  "'w route_operation list \<Rightarrow> operations_result \<Rightarrow> nat option \<Rightarrow> dir_edge option \<Rightarrow> dir_edge option \<Rightarrow>
   route \<Rightarrow> pose \<Rightarrow> 'w \<Rightarrow> (route_exception + operations_result) \<times> 'w" where
  "processOperationsPluginVector [] result nd ent ext route pose w = (Inr result, w)"
| "processOperationsPluginVector (plugin # ps) result nd ent ext route pose w =
     (case perform plugin nd ent ext route pose None w of
        (Inl x, w') \<Rightarrow> (Inl x, w')
      | (Inr r, w') \<Rightarrow>
          processOperationsPluginVector ps (updateResult (op_name plugin) r result)
            nd ent ext route pose w')"

text \<open>The edge the robot leaves; \<open>prev_edge\<close> is the edge a rerouted robot was already on.\<close>

definition exited_edge :: "tracking_state \<Rightarrow> route \<Rightarrow> dir_edge option \<Rightarrow> dir_edge option option" where
  "exited_edge state route prev_edge =
     (let i = route_edges_idx state
      in if i = 0 \<and> prev_edge \<noteq> None then Some prev_edge
         else if 0 < i
         then (if nat (i - 1) < length (edges route) then Some (Some (edges route ! nat (i - 1))) else None)
         else Some None)"

definition operations_process ::
  "'w operations_manager \<Rightarrow> graph \<Rightarrow> bool \<Rightarrow> tracking_state \<Rightarrow> route \<Rightarrow> pose \<Rightarrow> dir_edge option \<Rightarrow> 'w \<Rightarrow>
   ((route_exception + operations_result) \<times> 'w) option" where
  "operations_process om g status_change state route pose prev_edge w =
     (let nd = last_node state; ent = current_edge state
      in case exited_edge state route prev_edge of
           None \<Rightarrow> None
         | Some ext \<Rightarrow>
             let (r1, w1) =
               (if status_change
                then
                  (case processGraphOperations (graph_operations om) nd ent ext route pose
                     (findGraphOperations g nd ent ext) OperationsResult_new w of
                     (Inl x, w1) \<Rightarrow> (Inl x, w1)
                   | (Inr r, w1) \<Rightarrow>
                       processOperationsPluginVector (change_operations om) r nd ent ext route pose w1)
                else (Inr OperationsResult_new, w))
             in Some (case r1 of
                  Inl x \<Rightarrow> (Inl x, w1)
                | Inr r \<Rightarrow>
                    processOperationsPluginVector (query_operations om) r nd ent ext route pose w1))"

section \<open>Operations\<close>

text \<open>\<open>ReroutingService\<close>: its state is the atomic flag a service call sets.\<close>

definition ReroutingService_serviceCb :: "bool \<Rightarrow> bool \<times> bool" where
  "ReroutingService_serviceCb flag = (True, True)"

definition ReroutingService_perform :: "bool \<Rightarrow> operation_result \<times> bool" where
  "ReroutingService_perform flag =
     (if flag then (OperationResult_new\<lparr>reroute := True\<rparr>, False) else (OperationResult_new, flag))"

text \<open>\<open>AdjustSpeedLimit\<close> publishes a percentage of the maximal speed; the state is what it published.\<close>

definition AdjustSpeedLimit_perform ::
  "string \<Rightarrow> dir_edge option \<Rightarrow> real list \<Rightarrow> (route_exception + operation_result) \<times> real list" where
  "AdjustSpeedLimit_perform speed_tag edge_entered published =
     (case edge_entered of
        None \<Rightarrow> (Inr OperationResult_new, published)
      | Some e \<Rightarrow>
          (case getValue_float (e_metadata e) speed_tag 100 of
             Inl x \<Rightarrow> (Inl x, published)
           | Inr speed_limit \<Rightarrow> (Inr OperationResult_new, published @ [speed_limit])))"

text \<open>
  \<open>TimeMarker\<close> writes the time an edge took to the metadata of the edge, here given as the write to do.
  Times are seconds; \<open>curr_edge_\<close> is not initialised before the first call.
\<close>

record time_marker =
  edge_start_time :: real
  tm_curr_edge :: u32

definition TimeMarker_perform ::
  "real \<Rightarrow> dir_edge option \<Rightarrow> dir_edge option \<Rightarrow> time_marker \<Rightarrow>
   operation_result \<times> (u32 \<times> real) option \<times> time_marker" where
  "TimeMarker_perform now edge_entered edge_exited tm =
     (let tm' = \<lparr>edge_start_time = now,
            tm_curr_edge = (case edge_entered of Some e \<Rightarrow> edgeid e | None \<Rightarrow> 0)\<rparr>
      in case edge_exited of
           None \<Rightarrow> (OperationResult_new, None, tm')
         | Some e \<Rightarrow>
             if edgeid e \<noteq> tm_curr_edge tm then (OperationResult_new, None, tm')
             else (OperationResult_new,
               (if edge_start_time tm > 1 / 1000 then Some (edgeid e, now - edge_start_time tm) else None),
               tm'))"

section \<open>Lemmas\<close>

lemma findGraphOperations_parts:
  "findGraphOperations g nd ent ext =
     (case nd of None \<Rightarrow> [] | Some i \<Rightarrow> filter (\<lambda>op. op_trigger op = NODE) (n_operations (g ! i))) @
     (case ent of None \<Rightarrow> [] | Some e \<Rightarrow> filter (\<lambda>op. op_trigger op = ON_ENTER) (e_operations e)) @
     (case ext of None \<Rightarrow> [] | Some e \<Rightarrow> filter (\<lambda>op. op_trigger op = ON_EXIT) (e_operations e))"
  by (simp add: findGraphOperations_def split: option.splits)

lemma exited_edge_in:
  assumes "route_edges_idx state \<le> int (length (edges route))"
  shows "exited_edge state route prev_edge \<noteq> None"
  using assms by (auto simp: exited_edge_def Let_def nat_less_iff)

lemma operations_process_total:
  assumes "route_edges_idx state \<le> int (length (edges route))"
  shows "operations_process om g sc state route pose prev_edge w \<noteq> None"
  using exited_edge_in [OF assms, of prev_edge]
  by (auto simp: operations_process_def Let_def split: option.splits prod.splits)

text \<open>A reroute an operation asks for is not lost, and names and blocked ids are collected in order.\<close>

lemma updateResult_fields [simp]:
  "reroute (updateResult n r R) \<longleftrightarrow> reroute R \<or> reroute r"
  "res_blocked (updateResult n r R) = res_blocked R @ res_blocked r"
  "operations_triggered (updateResult n r R) = operations_triggered R @ [n]"
  by (simp_all add: updateResult_def)

end
