(* ===== verification/Route_Tracker.thy ===== *)
theory Route_Tracker
  imports Route_Operations
begin

text \<open>
  The route tracker (\<open>route_tracker.cpp\<close>, \<open>utils.hpp\<close>). What an iteration of its loop reads - whether the
  process is shut down, cancel and preempt requests, the pose of the robot - is the record \<open>tick\<close>; the
  feedback it publishes is a list. \<open>None\<close> is a null pointer followed or an access outside the route.
\<close>

section \<open>Geometry\<close>

definition vlen :: "real \<Rightarrow> real \<Rightarrow> real" where
  "vlen x y = sqrt (x * x + y * y)"

definition normalizedDot :: "real \<Rightarrow> real \<Rightarrow> real \<Rightarrow> real \<Rightarrow> real" where
  "normalizedDot v1x v1y v2x v2y =
     (let mag1 = vlen v1x v1y; mag2 = vlen v2x v2y
      in if mag1 < 1 / 10 ^ 6 \<or> mag2 < 1 / 10 ^ 6 then 0
         else (v1x / mag1) * (v2x / mag2) + (v1y / mag1) * (v2y / mag2))"

definition findClosestPoint :: "pose \<Rightarrow> coordinates \<Rightarrow> coordinates \<Rightarrow> coordinates" where
  "findClosestPoint p s f =
     (let vx = co_x f - co_x s; vy = co_y f - co_y s;
          ux = co_x s - p_x p; uy = co_y s - p_y p;
          uv = vx * ux + vy * uy; vv = vx * vx + vy * vy
      in if vv < 1 / 10 ^ 6 then s
         else
           let t = - uv / vv
           in if 0 < t \<and> t < 1
              then \<lparr>frame_id = ''map'', co_x = (1 - t) * co_x s + t * co_x f,
                co_y = (1 - t) * co_y s + t * co_y f\<rparr>
              else if t \<le> 0 then s else f)"

definition utils_distance :: "coordinates \<Rightarrow> pose \<Rightarrow> real" where
  "utils_distance c p = vlen (co_x c - p_x p) (co_y c - p_y p)"

section \<open>State\<close>

record rerouting_state =
  blocked_ids :: "u32 list"
  first_time :: bool
  curr_edge :: "dir_edge option"
  closest_pt_on_edge :: coordinates
  rerouting_start_id :: u32
  rerouting_start_pose :: pose

definition Coordinates_new :: coordinates where
  "Coordinates_new = \<lparr>frame_id = ''map'', co_x = 0, co_y = 0\<rparr>"

definition Pose_new :: pose where
  "Pose_new = \<lparr>p_x = 0, p_y = 0\<rparr>"

definition unset_id :: u32 where
  "unset_id = - 1"

definition ReroutingState_reset :: rerouting_state where
  "ReroutingState_reset = \<lparr>blocked_ids = [], first_time = True, curr_edge = None,
     closest_pt_on_edge = Coordinates_new, rerouting_start_id = unset_id,
     rerouting_start_pose = Pose_new\<rparr>"

datatype tracker_result = EXITED | INTERRUPTED | COMPLETED

record feedback =
  fb_rerouted :: bool
  fb_next_node :: u32
  fb_last_node :: u32
  fb_edge :: u32
  fb_operations :: "string list"

record tick =
  ok :: bool
  cancel_requested :: bool
  preempt_requested :: bool
  robot_pose :: "pose option"

record 'w tracker =
  radius_threshold :: real
  boundary_radius_threshold :: real
  aggregate_blocked_ids :: bool
  operations_manager :: "'w operations_manager"

record 'w tracking =
  t_state :: tracking_state
  t_rerouting :: rerouting_state
  t_feedback :: "feedback list"
  t_world :: 'w

datatype track_status = Tracking | Finished tracker_result | Threw route_exception

section \<open>Achieving nodes\<close>

definition isStartOrEndNode :: "tracking_state \<Rightarrow> route \<Rightarrow> bool" where
  "isStartOrEndNode state route \<longleftrightarrow>
     route_edges_idx state = int (length (edges route)) - 1 \<or>
     (route_edges_idx state = -1 \<and> current_edge state = None)"

definition passed_bisector :: "coordinates \<Rightarrow> coordinates \<Rightarrow> coordinates \<Rightarrow> real \<Rightarrow> real \<Rightarrow> bool" where
  "passed_bisector lst nxt fut dx dy =
     (let nx = co_x nxt - co_x lst; ny = co_y nxt - co_y lst; n_mag = vlen nx ny;
          mx = co_x fut - co_x nxt; my = co_y fut - co_y nxt; m_mag = vlen mx my
      in if n_mag < 1 / 10 ^ 6 \<or> m_mag < 1 / 10 ^ 6 then True
         else normalizedDot (nx * m_mag + mx * n_mag) (ny * m_mag + my * n_mag) dx dy \<le> 0)"

definition nodeAchieved ::
  "'w tracker \<Rightarrow> graph \<Rightarrow> pose \<Rightarrow> tracking_state \<Rightarrow> route \<Rightarrow> (bool \<times> tracking_state) option" where
  "nodeAchieved tr g p state route =
     (case next_node state of
        None \<Rightarrow> None
      | Some nxt \<Rightarrow>
          let dx = co_x (coords (g ! nxt)) - p_x p; dy = co_y (coords (g ! nxt)) - p_y p;
              dist_mag = vlen dx dy;
              is_boundary_node = isStartOrEndNode state route;
              in_radius = (dist_mag \<le> (if is_boundary_node then boundary_radius_threshold tr
                                       else radius_threshold tr))
          in if dist_mag < 1 / 10 ^ 4 \<or> (\<not> in_radius \<and> within_radius state) then Some (True, state)
             else
               let state = state\<lparr>within_radius := in_radius\<rparr>
               in if is_boundary_node then Some (in_radius, state)
                  else if in_radius
                  then
                    (case current_edge state of
                       None \<Rightarrow> None
                     | Some e \<Rightarrow>
                         let i = route_edges_idx state + 1
                         in if 0 \<le> i \<and> i < int (length (edges route))
                            then Some (passed_bisector (coords (g ! e_start e)) (coords (g ! nxt))
                                   (coords (g ! e_end (edges route ! nat i))) dx dy, state)
                            else None)
                  else Some (False, state))"

definition advance_state :: "route \<Rightarrow> tracking_state \<Rightarrow> bool \<times> tracking_state" where
  "advance_state route state =
     (let st = state\<lparr>within_radius := False, last_node := next_node state,
            route_edges_idx := route_edges_idx state + 1\<rparr>;
          i = route_edges_idx st
      in if i < int (length (edges route))
         then (False, st\<lparr>current_edge := Some (edges route ! nat i),
                next_node := Some (e_end (edges route ! nat i))\<rparr>)
         else (True, st\<lparr>current_edge := None, next_node := None\<rparr>))"

section \<open>The loop\<close>

definition track_start :: "graph \<Rightarrow> route \<Rightarrow> rerouting_state \<Rightarrow> 'w \<Rightarrow> 'w tracking" where
  "track_start g route rerouting_info w =
     (let state = RouteTrackingState_new\<lparr>next_node := Some (start_node route)\<rparr>;
          start_id = nodeid (g ! start_node route)
      in case curr_edge rerouting_info of
           Some e \<Rightarrow>
             \<lparr>t_state = state\<lparr>current_edge := Some e, last_node := Some (e_start e)\<rparr>,
              t_rerouting = rerouting_info,
              t_feedback = [\<lparr>fb_rerouted = True, fb_next_node = start_id,
                fb_last_node = nodeid (g ! e_start e), fb_edge = edgeid e, fb_operations = []\<rparr>],
              t_world = w\<rparr>
         | None \<Rightarrow>
             \<lparr>t_state = state, t_rerouting = rerouting_info,
              t_feedback = [\<lparr>fb_rerouted = True, fb_next_node = start_id, fb_last_node = 0,
                fb_edge = 0, fb_operations = []\<rparr>],
              t_world = w\<rparr>)"

definition update_rerouting ::
  "'w tracker \<Rightarrow> graph \<Rightarrow> tracking_state \<Rightarrow> operations_result \<Rightarrow> pose \<Rightarrow> rerouting_state \<Rightarrow>
   rerouting_state" where
  "update_rerouting tr g state result p rinfo =
     (let rinfo = rinfo\<lparr>blocked_ids :=
            (if \<not> aggregate_blocked_ids tr then res_blocked result
             else blocked_ids rinfo @ res_blocked result)\<rparr>;
          rinfo =
            (case last_node state of
               Some l \<Rightarrow> rinfo\<lparr>rerouting_start_id := nodeid (g ! l), rerouting_start_pose := p\<rparr>
             | None \<Rightarrow> rinfo\<lparr>rerouting_start_id := unset_id, rerouting_start_pose := Pose_new\<rparr>)
      in rinfo\<lparr>curr_edge := current_edge state\<rparr>)"

text \<open>The feedback of an update; \<open>None\<close> when a node it names is missing.\<close>

definition publish_progress ::
  "graph \<Rightarrow> bool \<Rightarrow> tracking_state \<Rightarrow> string list \<Rightarrow> feedback list \<Rightarrow> feedback list option" where
  "publish_progress g status_change state ops fbs =
     (if status_change \<or> ops \<noteq> [] then
        (case current_edge state of
           None \<Rightarrow> Some fbs
         | Some e \<Rightarrow>
             (case (next_node state, last_node state) of
                (Some n, Some l) \<Rightarrow>
                  Some (fbs @ [\<lparr>fb_rerouted = False, fb_next_node = nodeid (g ! n),
                    fb_last_node = nodeid (g ! l), fb_edge = edgeid e, fb_operations = ops\<rparr>])
              | _ \<Rightarrow> None))
      else Some fbs)"

definition finish_update ::
  "'w tracker \<Rightarrow> graph \<Rightarrow> bool \<Rightarrow> bool \<Rightarrow> pose \<Rightarrow> operations_result \<Rightarrow> 'w tracking \<Rightarrow>
   (track_status \<times> 'w tracking) option" where
  "finish_update tr g status_change completed p result run =
     (if completed then
        (case last_node (t_state run) of
           None \<Rightarrow> None
         | Some l \<Rightarrow>
             Some (Finished COMPLETED, run\<lparr>t_feedback := t_feedback run @
               [\<lparr>fb_rerouted = False, fb_next_node = 0, fb_last_node = nodeid (g ! l), fb_edge = 0,
                 fb_operations = operations_triggered result\<rparr>]\<rparr>))
      else
        (case publish_progress g status_change (t_state run) (operations_triggered result)
                (t_feedback run) of
           None \<Rightarrow> None
         | Some fbs \<Rightarrow>
             let run = run\<lparr>t_feedback := fbs\<rparr>
             in if reroute result
                then Some (Finished INTERRUPTED,
                  run\<lparr>t_rerouting := update_rerouting tr g (t_state run) result p (t_rerouting run)\<rparr>)
                else Some (Tracking, run)))"

definition track_step ::
  "'w tracker \<Rightarrow> graph \<Rightarrow> route \<Rightarrow> tick \<Rightarrow> 'w tracking \<Rightarrow> (track_status \<times> 'w tracking) option" where
  "track_step tr g route tk run =
     (if \<not> ok tk then Some (Finished EXITED, run)
      else if cancel_requested tk \<or> preempt_requested tk then Some (Finished INTERRUPTED, run)
      else
        (case robot_pose tk of
           None \<Rightarrow> Some (Threw RouteTFError, run)
         | Some p \<Rightarrow>
             (case nodeAchieved tr g p (t_state run) route of
                None \<Rightarrow> None
              | Some (status_change, state1) \<Rightarrow>
                  let (completed, state2) =
                        (if status_change then advance_state route state1 else (False, state1))
                  in
                  (case operations_process (operations_manager tr) g status_change state2 route p
                          (curr_edge (t_rerouting run)) (t_world run) of
                     None \<Rightarrow> None
                   | Some (Inl x, w) \<Rightarrow> Some (Threw x, run\<lparr>t_state := state2, t_world := w\<rparr>)
                   | Some (Inr result, w) \<Rightarrow>
                       finish_update tr g status_change completed p result
                         (run\<lparr>t_state := state2, t_world := w\<rparr>)))))"

fun track_loop ::
  "'w tracker \<Rightarrow> graph \<Rightarrow> route \<Rightarrow> tick list \<Rightarrow> 'w tracking \<Rightarrow> (track_status \<times> 'w tracking) option" where
  "track_loop tr g route [] run = Some (Tracking, run)"
| "track_loop tr g route (tk # tks) run =
     (case track_step tr g route tk run of
        None \<Rightarrow> None
      | Some (Tracking, run') \<Rightarrow> track_loop tr g route tks run'
      | Some (st, run') \<Rightarrow> Some (st, run'))"

text \<open>The part of \<open>trackRoute\<close> that some ticks give; it is still tracking when they run out.\<close>

definition trackRoute ::
  "'w tracker \<Rightarrow> graph \<Rightarrow> route \<Rightarrow> rerouting_state \<Rightarrow> tick list \<Rightarrow> 'w \<Rightarrow>
   (track_status \<times> 'w tracking) option" where
  "trackRoute tr g route rerouting_info tks w =
     track_loop tr g route tks (track_start g route rerouting_info w)"

end
