(* ===== verification/Route_Scorers.thy ===== *)
theory Route_Scorers
  imports Route_Types
begin

text \<open>
  The edge scorer of the route server (\<open>edge_scorer.cpp\<close>) and the edge cost functions it runs
  (\<open>plugins/edge_cost_functions\<close>) except the costmap scorer. An edge cost function is given the edge, the
  request, the type of the edge and the cost it may overwrite, and gives its verdict with the new cost, or
  throws. \<open>atan2\<close> and the distance of two angles (package \<open>angles\<close>) are arguments.

  The only comparison the planner makes with a cost is false for an infinite cost and for not-a-number
  alike, so both are a number above \<open>FLT_MAX\<close> here.
\<close>

type_synonym edge_cost_function =
  "graph \<Rightarrow> dir_edge \<Rightarrow> route_request \<Rightarrow> edge_type \<Rightarrow> real \<Rightarrow> route_exception + (bool \<times> real)"

definition FLT_INF :: real where
  "FLT_INF = 2 ^ 128"

definition fdiv :: "real \<Rightarrow> real \<Rightarrow> real" where
  "fdiv a b = (if b \<noteq> 0 then a / b else if a < 0 then - FLT_INF else FLT_INF)"

definition hypotf :: "real \<Rightarrow> real \<Rightarrow> real" where
  "hypotf x y = sqrt (x\<^sup>2 + y\<^sup>2)"

definition edge_span :: "graph \<Rightarrow> dir_edge \<Rightarrow> real" where
  "edge_span g e =
     hypotf (co_x (coords (g ! e_end e)) - co_x (coords (g ! e_start e)))
            (co_y (coords (g ! e_end e)) - co_y (coords (g ! e_start e)))"

section \<open>Distance, time and penalties\<close>

definition DistanceScorer_score :: "real \<Rightarrow> string \<Rightarrow> edge_cost_function" where
  "DistanceScorer_score weight speed_tag g e req ty cost =
     (case getValue_float (e_metadata e) speed_tag 1 of
        Inl x \<Rightarrow> Inl x
      | Inr speed_val \<Rightarrow> Inr (True, fdiv (weight * edge_span g e) speed_val))"

definition TimeScorer_score :: "real \<Rightarrow> real \<Rightarrow> string \<Rightarrow> string \<Rightarrow> edge_cost_function" where
  "TimeScorer_score weight max_vel time_tag speed_tag g e req ty cost =
     (case getValue_float (e_metadata e) time_tag 0 of
        Inl x \<Rightarrow> Inl x
      | Inr time \<Rightarrow>
          if 0 < time then Inr (True, weight * time)
          else
            (case getValue_float (e_metadata e) speed_tag 0 of
               Inl x \<Rightarrow> Inl x
             | Inr v \<Rightarrow>
                 let velocity = (if v \<le> 0 then max_vel else v)
                 in Inr (True, fdiv (weight * edge_span g e) velocity)))"

definition PenaltyScorer_score :: "real \<Rightarrow> string \<Rightarrow> edge_cost_function" where
  "PenaltyScorer_score weight penalty_tag g e req ty cost =
     (case getValue_float (e_metadata e) penalty_tag 0 of
        Inl x \<Rightarrow> Inl x
      | Inr penalty_val \<Rightarrow> Inr (True, weight * penalty_val))"

section \<open>Closed edges and dynamic penalties\<close>

record dynamic_edges =
  closed_edges :: "u32 set"
  dynamic_penalties :: "u32 \<rightharpoonup> real"

definition DynamicEdges_configure :: dynamic_edges where
  "DynamicEdges_configure = \<lparr>closed_edges = {}, dynamic_penalties = Map.empty\<rparr>"

fun close_edges :: "u32 list \<Rightarrow> u32 set \<Rightarrow> u32 set" where
  "close_edges [] S = S"
| "close_edges (e # es) S = close_edges es (insert e S)"

fun open_edges :: "u32 list \<Rightarrow> u32 set \<Rightarrow> u32 set" where
  "open_edges [] S = S"
| "open_edges (e # es) S = open_edges es (if e \<in> S then S - {e} else S)"

fun adjust_costs :: "(u32 \<times> real) list \<Rightarrow> (u32 \<rightharpoonup> real) \<Rightarrow> (u32 \<rightharpoonup> real)" where
  "adjust_costs [] m = m"
| "adjust_costs ((e, c) # es) m = adjust_costs es (m(e \<mapsto> c))"

definition closedEdgesCb ::
  "u32 list \<Rightarrow> u32 list \<Rightarrow> (u32 \<times> real) list \<Rightarrow> dynamic_edges \<Rightarrow> bool \<times> dynamic_edges" where
  "closedEdgesCb to_close to_open adjust d =
     (True,
      d\<lparr>closed_edges := open_edges to_open (close_edges to_close (closed_edges d)),
        dynamic_penalties := adjust_costs adjust (dynamic_penalties d)\<rparr>)"

definition DynamicEdgesScorer_score :: "dynamic_edges \<Rightarrow> edge_cost_function" where
  "DynamicEdgesScorer_score d g e req ty cost =
     (if edgeid e \<in> closed_edges d then Inr (False, cost)
      else
        (case dynamic_penalties d (edgeid e) of
           None \<Rightarrow> Inr (True, cost)
         | Some p \<Rightarrow> Inr (True, p)))"

section \<open>Semantic classes\<close>

fun metadataKeyScorer :: "(string \<rightharpoonup> real) \<Rightarrow> metadata \<Rightarrow> real \<Rightarrow> real" where
  "metadataKeyScorer semantic_info [] score = score"
| "metadataKeyScorer semantic_info ((k, v) # mdata) score =
     metadataKeyScorer semantic_info mdata
       (case semantic_info k of None \<Rightarrow> score | Some c \<Rightarrow> score + c)"

definition metadataValueScorer ::
  "(string \<rightharpoonup> real) \<Rightarrow> string \<Rightarrow> metadata \<Rightarrow> real \<Rightarrow> route_exception + real" where
  "metadataValueScorer semantic_info key mdata score =
     (case getValue_string mdata key [] of
        Inl x \<Rightarrow> Inl x
      | Inr cl \<Rightarrow> Inr (case semantic_info cl of None \<Rightarrow> score | Some c \<Rightarrow> score + c))"

definition SemanticScorer_score :: "real \<Rightarrow> string \<Rightarrow> (string \<rightharpoonup> real) \<Rightarrow> edge_cost_function" where
  "SemanticScorer_score weight key semantic_info g e req ty cost =
     (let node_mdata = n_metadata (g ! e_end e); edge_mdata = e_metadata e
      in if key = []
         then Inr (True, weight *
                metadataKeyScorer semantic_info edge_mdata
                  (metadataKeyScorer semantic_info node_mdata 0))
         else
           (case metadataValueScorer semantic_info key node_mdata 0 of
              Inl x \<Rightarrow> Inl x
            | Inr s \<Rightarrow>
                (case metadataValueScorer semantic_info key edge_mdata s of
                   Inl x \<Rightarrow> Inl x
                 | Inr s' \<Rightarrow> Inr (True, weight * s'))))"

section \<open>Orientation at the ends of a route\<close>

definition orientation_score ::
  "(real \<Rightarrow> real \<Rightarrow> real) \<Rightarrow> (real \<Rightarrow> real \<Rightarrow> real) \<Rightarrow> real \<Rightarrow> real \<Rightarrow> bool \<Rightarrow> real \<Rightarrow> graph \<Rightarrow>
   dir_edge \<Rightarrow> real \<Rightarrow> bool \<times> real" where
  "orientation_score atan2 shortest_angular_distance tolerance weight use_threshold yaw g e cost =
     (let edge_orientation =
            atan2 (co_y (coords (g ! e_end e)) - co_y (coords (g ! e_start e)))
                  (co_x (coords (g ! e_end e)) - co_x (coords (g ! e_start e)));
          d_yaw = \<bar>shortest_angular_distance edge_orientation yaw\<bar>
      in if use_threshold \<and> tolerance < d_yaw then (False, cost) else (True, weight * d_yaw))"

definition GoalOrientationScorer_score ::
  "(real \<Rightarrow> real \<Rightarrow> real) \<Rightarrow> (real \<Rightarrow> real \<Rightarrow> real) \<Rightarrow> real \<Rightarrow> real \<Rightarrow> bool \<Rightarrow>
   edge_cost_function" where
  "GoalOrientationScorer_score at2 sad tolerance weight use_threshold g e req ty cost =
     (if \<not> use_poses req then Inl InvalidEdgeScorerUse
      else if ty = EDGE_END
      then Inr (orientation_score at2 sad tolerance weight use_threshold (goal_yaw req) g e cost)
      else Inr (True, cost))"

definition StartPoseOrientationScorer_score ::
  "(real \<Rightarrow> real \<Rightarrow> real) \<Rightarrow> (real \<Rightarrow> real \<Rightarrow> real) \<Rightarrow> real \<Rightarrow> real \<Rightarrow> bool \<Rightarrow>
   edge_cost_function" where
  "StartPoseOrientationScorer_score at2 sad tolerance weight use_threshold g e req ty cost =
     (if \<not> use_poses req then Inl InvalidEdgeScorerUse
      else if ty = EDGE_START
      then Inr (orientation_score at2 sad tolerance weight use_threshold (start_yaw req) g e cost)
      else Inr (True, cost))"

section \<open>The edge scorer\<close>

fun score_plugins ::
  "(real \<Rightarrow> real) \<Rightarrow> edge_cost_function list \<Rightarrow> graph \<Rightarrow> dir_edge \<Rightarrow> route_request \<Rightarrow> edge_type \<Rightarrow>
   real \<Rightarrow> route_exception + real option" where
  "score_plugins rnd [] g e req ty total_score = Inr (Some total_score)"
| "score_plugins rnd (plugin # plugins) g e req ty total_score =
     (case plugin g e req ty 0 of
        Inl x \<Rightarrow> Inl x
      | Inr (ok, curr_score) \<Rightarrow>
          if ok then score_plugins rnd plugins g e req ty (rnd (total_score + curr_score))
          else Inr None)"

definition EdgeScorer_score ::
  "(real \<Rightarrow> real) \<Rightarrow> edge_cost_function list \<Rightarrow> graph \<Rightarrow> dir_edge \<Rightarrow> route_request \<Rightarrow> edge_type \<Rightarrow>
   route_exception + real option" where
  "EdgeScorer_score rnd plugins g e req ty = score_plugins rnd plugins g e req ty 0"

definition numPlugins :: "edge_cost_function list \<Rightarrow> nat" where
  "numPlugins plugins = length plugins"

section \<open>What the planner relies on\<close>

text \<open>An edge cost function looks at the graph of the file, not at the state of the search.\<close>

locale cost_function =
  fixes score :: edge_cost_function
  assumes score_static:
    "same_graph g g' \<Longrightarrow> e_start e < length g \<Longrightarrow> e_end e < length g \<Longrightarrow>
     score g' e req ty c = score g e req ty c"

lemma edge_span_static:
  assumes "same_graph g g'" "e_start e < length g" "e_end e < length g"
  shows "edge_span g' e = edge_span g e"
  using assms by (simp add: edge_span_def same_graph_fields)

lemma orientation_static:
  assumes "same_graph g g'" "e_start e < length g" "e_end e < length g"
  shows "orientation_score at2 sad tol w u yaw g' e c = orientation_score at2 sad tol w u yaw g e c"
  using assms by (simp add: orientation_score_def same_graph_fields)

interpretation distance_cost: cost_function "DistanceScorer_score weight tag" for weight :: real and tag
  by unfold_locales (simp add: DistanceScorer_score_def edge_span_static split: sum.splits)

interpretation time_cost: cost_function "TimeScorer_score weight v tt st"
  for weight v :: real and tt st
  by unfold_locales (simp add: TimeScorer_score_def edge_span_static Let_def split: sum.splits)

interpretation penalty_cost: cost_function "PenaltyScorer_score weight tag" for weight :: real and tag
  by unfold_locales (simp add: PenaltyScorer_score_def)

interpretation dynamic_cost: cost_function "DynamicEdgesScorer_score d" for d :: dynamic_edges
  by unfold_locales (simp add: DynamicEdgesScorer_score_def)

interpretation semantic_cost: cost_function "SemanticScorer_score weight key info"
  for weight :: real and key info
  by unfold_locales (simp add: SemanticScorer_score_def same_graph_fields)

interpretation goal_orientation_cost: cost_function "GoalOrientationScorer_score at2 sad tol weight u"
  for at2 sad :: "real \<Rightarrow> real \<Rightarrow> real" and tol weight u
  by unfold_locales (simp add: GoalOrientationScorer_score_def orientation_static)

interpretation start_orientation_cost:
  cost_function "StartPoseOrientationScorer_score at2 sad tol weight u"
  for at2 sad :: "real \<Rightarrow> real \<Rightarrow> real" and tol weight u
  by unfold_locales (simp add: StartPoseOrientationScorer_score_def orientation_static)

lemma score_plugins_static:
  assumes "\<forall>p\<in>set plugins. cost_function p" "same_graph g g'"
    "e_start e < length g" "e_end e < length g"
  shows "score_plugins rnd plugins g' e req ty t = score_plugins rnd plugins g e req ty t"
  using assms(1)
proof (induction plugins arbitrary: t)
  case (Cons p ps)
  have "p g' e req ty 0 = p g e req ty 0"
    using Cons.prems assms(2-4) by (simp add: cost_function.score_static)
  then show ?case
    using Cons by (simp split: sum.splits prod.splits)
qed simp

text \<open>
  Closing, opening and pricing edges at run time: an edge is closed exactly when the request closes it, or it
  was closed before, and the request does not open it; the last price given wins and opening does not reset
  it.
\<close>

lemma close_edges_set: "close_edges es S = S \<union> set es"
  by (induction es arbitrary: S) auto

lemma open_edges_set: "open_edges es S = S - set es"
  by (induction es arbitrary: S) auto

lemma adjust_costs_map: "adjust_costs es m = m ++ map_of (rev es)"
proof (induction es arbitrary: m)
  case (Cons p es)
  then show ?case
    by (cases p) (simp add: map_add_def fun_eq_iff split: option.splits)
qed simp

lemma dynamic_edges_score:
  assumes "closedEdgesCb cl op ad d = (ok, d')"
  shows "DynamicEdgesScorer_score d' g e req ty c =
    Inr (if edgeid e \<in> (closed_edges d \<union> set cl) - set op then (False, c)
         else (True, case (dynamic_penalties d ++ map_of (rev ad)) (edgeid e) of
                       None \<Rightarrow> c | Some p \<Rightarrow> p))"
  using assms
  by (auto simp: closedEdgesCb_def DynamicEdgesScorer_score_def close_edges_set open_edges_set
      adjust_costs_map split: option.splits)

text \<open>With the default plugins costs are not negative when weights, speeds and penalties are not.\<close>

lemma score_plugins_nonneg:
  assumes "\<forall>p\<in>set plugins. \<forall>c'. p g e req ty 0 = Inr (True, c') \<longrightarrow> 0 \<le> c'"
    and "\<And>x. 0 \<le> x \<Longrightarrow> 0 \<le> rnd x" and "0 \<le> t"
    and "score_plugins rnd plugins g e req ty t = Inr (Some s)"
  shows "0 \<le> s"
  using assms(1,3,4)
proof (induction plugins arbitrary: t)
  case (Cons p ps)
  then obtain ok c' where p: "p g e req ty 0 = Inr (ok, c')" "ok"
    by (auto split: sum.splits prod.splits if_splits)
  then have "0 \<le> rnd (t + c')"
    using Cons.prems(1,2) assms(2) by force
  then show ?case
    using Cons p by auto
qed simp

lemma fdiv_nonneg: "0 \<le> a \<Longrightarrow> 0 \<le> b \<Longrightarrow> 0 \<le> fdiv a b"
  by (simp add: fdiv_def FLT_INF_def)

lemma edge_span_nonneg: "0 \<le> edge_span g e"
  by (simp add: edge_span_def hypotf_def)

lemma distance_score_nonneg:
  assumes "0 \<le> weight"
    and "\<And>v. map_of (e_metadata e) tag = Some (Any_float v) \<Longrightarrow> 0 \<le> v"
    and "DistanceScorer_score weight tag g e req ty c = Inr (ok, c')"
  shows "0 \<le> c'"
  using assms
  by (auto simp: DistanceScorer_score_def getValue_float_def edge_span_nonneg fdiv_nonneg
      split: option.splits any_value.splits)

lemma dynamic_score_nonneg:
  assumes "\<And>i p. dynamic_penalties d i = Some p \<Longrightarrow> 0 \<le> p" and "0 \<le> c"
    and "DynamicEdgesScorer_score d g e req ty c = Inr (ok, c')"
  shows "0 \<le> c'"
  using assms by (auto simp: DynamicEdgesScorer_score_def split: option.splits if_splits)

end
