(* ===== verification/Route_Planner.thy ===== *)
theory Route_Planner
  imports Route_Scorers "HOL-Library.Multiset"
begin

text \<open>
  The route planner (\<open>route_planner.cpp\<close>): Dijkstra's search over the nodes of the graph, in place in their
  search states, with a priority queue that may hold outdated entries, a bound on the iterations, and the
  route read back along the parent edges.
\<close>

section \<open>The priority queue\<close>

text \<open>
  \<open>std::priority_queue\<close> with \<open>NodeComparator\<close> gives an entry of least cost; which one of several is not
  specified, so the index it takes is the argument \<open>top_index\<close>, with the law of the locale \<open>node_queue\<close>.
\<close>

type_synonym node_element = "real \<times> nat"

type_synonym node_queue = "node_element list"

definition addNode :: "real \<Rightarrow> nat \<Rightarrow> node_queue \<Rightarrow> node_queue" where
  "addNode cost nd q = q @ [(cost, nd)]"

definition getNextNode ::
  "(node_queue \<Rightarrow> nat) \<Rightarrow> node_queue \<Rightarrow> node_element \<times> node_queue" where
  "getNextNode top_index q =
     (let i = top_index q in (q ! i, take i q @ drop (Suc i) q))"

fun first_least :: "node_queue \<Rightarrow> nat" where
  "first_least [] = 0"
| "first_least [x] = 0"
| "first_least (x # y # q) =
     (let i = first_least (y # q) in if fst x \<le> fst ((y # q) ! i) then 0 else Suc i)"

section \<open>The planner\<close>

text \<open>What the planner uses and does not change: rounding, the queue's choice, the edge cost functions.\<close>

record planner_env =
  rounding :: "real \<Rightarrow> real"
  top_index :: "node_queue \<Rightarrow> nat"
  plugins :: "edge_cost_function list"

record planner =
  max_iterations :: nat
  start_id :: u32
  goal_id :: u32
  queue :: node_queue

definition planner_new :: planner where
  "planner_new = \<lparr>max_iterations = 0, start_id = 0, goal_id = 0, queue = []\<rparr>"

text \<open>The parameter is a 64-bit integer, the bound an \<open>int\<close>.\<close>

definition configure :: "int \<Rightarrow> planner \<Rightarrow> planner" where
  "configure param P =
     (let m = sint (word_of_int param :: u32)
      in P\<lparr>max_iterations := (if m \<le> 0 then 2 ^ 31 - 1 else nat m)\<rparr>)"

definition resetSearchStates :: "graph \<Rightarrow> graph" where
  "resetSearchStates g = map (\<lambda>nd. nd\<lparr>search_state := SearchState_reset\<rparr>) g"

definition isGoal :: "planner \<Rightarrow> graph \<Rightarrow> nat \<Rightarrow> bool" where
  "isGoal P g nd \<longleftrightarrow> nodeid (g ! nd) = goal_id P"

definition isStart :: "planner \<Rightarrow> graph \<Rightarrow> nat \<Rightarrow> bool" where
  "isStart P g nd \<longleftrightarrow> nodeid (g ! nd) = start_id P"

definition classifyEdge :: "planner \<Rightarrow> graph \<Rightarrow> dir_edge \<Rightarrow> edge_type" where
  "classifyEdge P g e =
     (if isStart P g (e_start e) then EDGE_START
      else if isGoal P g (e_end e) then EDGE_END
      else EDGE_NONE)"

definition getTraversalCost ::
  "planner_env \<Rightarrow> planner \<Rightarrow> graph \<Rightarrow> u32 list \<Rightarrow> route_request \<Rightarrow> dir_edge \<Rightarrow>
   route_exception + real option" where
  "getTraversalCost env P g blocked_ids req e =
     (if list_ex (\<lambda>i. i = edgeid e \<or> i = nodeid (g ! e_end e)) blocked_ids then Inr None
      else if \<not> overridable (edge_cost e) \<or> numPlugins (plugins env) = 0
      then (if ec_cost (edge_cost e) \<le> 0 then Inl NoValidGraph
            else Inr (Some (ec_cost (edge_cost e))))
      else EdgeScorer_score (rounding env) (plugins env) g e req (classifyEdge P g e))"

text \<open>The loop over the edges of the current node: what it throws, the graph, the queue.\<close>

fun relax_edges ::
  "planner_env \<Rightarrow> planner \<Rightarrow> u32 list \<Rightarrow> route_request \<Rightarrow> real \<Rightarrow> dir_edge list \<Rightarrow> graph \<Rightarrow> node_queue \<Rightarrow>
   route_exception option \<times> graph \<times> node_queue" where
  "relax_edges env P blocked_ids req curr_cost [] g q = (None, g, q)"
| "relax_edges env P blocked_ids req curr_cost (e # es) g q =
     (case getTraversalCost env P g blocked_ids req e of
        Inl x \<Rightarrow> (Some x, g, q)
      | Inr None \<Rightarrow> relax_edges env P blocked_ids req curr_cost es g q
      | Inr (Some t) \<Rightarrow>
          let potential_cost = rounding env (curr_cost + t); neighbor = e_end e
          in if potential_cost < integrated_cost (search_state (g ! neighbor))
             then relax_edges env P blocked_ids req curr_cost es
                    (upd_state neighbor
                      \<lparr>parent_edge = Some e, integrated_cost = potential_cost,
                       traversal_cost = t\<rparr> g)
                    (addNode potential_cost neighbor q)
             else relax_edges env P blocked_ids req curr_cost es g q)"

function search_loop ::
  "planner_env \<Rightarrow> planner \<Rightarrow> u32 list \<Rightarrow> route_request \<Rightarrow> nat \<Rightarrow> graph \<Rightarrow> node_queue \<Rightarrow>
   route_exception option \<times> graph \<times> node_queue" where
  "search_loop env P blocked_ids req iterations g q =
     (if q \<noteq> [] \<and> iterations < max_iterations P
      then
        let ((curr_cost, nd), q1) = getNextNode (top_index env) q
        in if curr_cost \<noteq> integrated_cost (search_state (g ! nd))
           then search_loop env P blocked_ids req (iterations + 1) g q1
           else if isGoal P g nd then (None, g, [])
           else
             (case relax_edges env P blocked_ids req curr_cost (neighbors (g ! nd)) g q1 of
                (Some x, g', q') \<Rightarrow> (Some x, g', q')
              | (None, g', q') \<Rightarrow> search_loop env P blocked_ids req (iterations + 1) g' q')
      else if iterations = max_iterations P then (Some TimedOut, g, [])
      else (None, g, q))"
  by pat_completeness auto
termination
  by (relation "measure (\<lambda>(env, P, blocked_ids, req, iterations, g, q).
    max_iterations P - iterations)") auto

declare search_loop.simps [simp del]

definition findShortestGraphTraversal ::
  "planner_env \<Rightarrow> planner \<Rightarrow> graph \<Rightarrow> nat \<Rightarrow> nat \<Rightarrow> u32 list \<Rightarrow> route_request \<Rightarrow>
   route_exception option \<times> graph \<times> planner" where
  "findShortestGraphTraversal env P g start goal blocked_ids req =
     (let g1 = resetSearchStates g;
          P1 = P\<lparr>start_id := nodeid (g1 ! start), goal_id := nodeid (g1 ! goal)\<rparr>;
          g2 = upd_state start ((search_state (g1 ! start))\<lparr>integrated_cost := 0\<rparr>) g1;
          q2 = addNode 0 start (queue P1);
          (x, g3, q3) = search_loop env P1 blocked_ids req 0 g2 q2
      in (x, g3, P1\<lparr>queue := q3\<rparr>))"

text \<open>
  Following the parent edges. \<open>parent_edge\<close> is a reference to the field in the search state of the goal, so
  every step overwrites that field. \<open>None\<close> stands for a loop that does not end.
\<close>

partial_function (option) follow_parents ::
  "nat \<Rightarrow> graph \<Rightarrow> dir_edge list \<Rightarrow> (dir_edge list \<times> graph) option" where
  "follow_parents goal g es =
     (case parent_edge (search_state (g ! goal)) of
        None \<Rightarrow> Some (es, g)
      | Some e \<Rightarrow>
          follow_parents goal
            (upd_state goal
              ((search_state (g ! goal))\<lparr>parent_edge :=
                 parent_edge (search_state (g ! e_start e))\<rparr>) g)
            (es @ [e]))"

definition findRoute ::
  "planner_env \<Rightarrow> planner \<Rightarrow> graph \<Rightarrow> nat \<Rightarrow> nat \<Rightarrow> u32 list \<Rightarrow> route_request \<Rightarrow>
   ((route_exception + route) \<times> graph \<times> planner) option" where
  "findRoute env P g start_index goal_index blocked_ids req =
     (if g = [] then Some (Inl NoValidGraph, g, P)
      else if length g \<le> start_index \<or> length g \<le> goal_index then Some (Inl Out_of_range, g, P)
      else
        (case findShortestGraphTraversal env P g start_index goal_index blocked_ids req of
           (Some x, g1, P1) \<Rightarrow> Some (Inl x, g1, P1)
         | (None, g1, P1) \<Rightarrow>
             if parent_edge (search_state (g1 ! goal_index)) = None
             then Some (Inl NoValidRouteCouldBeFound, g1, P1)
             else
               (case follow_parents goal_index g1 [] of
                  None \<Rightarrow> None
                | Some (es, g2) \<Rightarrow>
                    Some (Inr \<lparr>start_node = start_index, edges = rev es,
                      route_cost = integrated_cost (search_state (g2 ! goal_index))\<rparr>, g2, P1))))"

section \<open>Laws of the queue\<close>

locale node_queue =
  fixes top :: "node_queue \<Rightarrow> nat"
  assumes top_in: "q \<noteq> [] \<Longrightarrow> top q < length q"
    and top_least: "q \<noteq> [] \<Longrightarrow> x \<in> set q \<Longrightarrow> fst (q ! top q) \<le> fst x"
begin

lemma next_mset:
  assumes "q \<noteq> []" "getNextNode top q = (x, q')"
  shows "mset q = add_mset x (mset q')"
proof -
  have "q = take (top q) q @ q ! top q # drop (Suc (top q)) q"
    using id_take_nth_drop [OF top_in [OF assms(1)]] .
  then have "mset q = add_mset (q ! top q) (mset (take (top q) q @ drop (Suc (top q)) q))"
    by (metis mset.simps(2) mset_append union_mset_add_mset_right)
  then show ?thesis
    using assms(2) by (auto simp: getNextNode_def Let_def)
qed

lemma next_set:
  assumes "q \<noteq> []" "getNextNode top q = (x, q')"
  shows "set q = insert x (set q')"
  using next_mset [OF assms] by (metis set_mset_add_mset_insert set_mset_mset)

lemma next_length:
  assumes "q \<noteq> []" "getNextNode top q = (x, q')"
  shows "length q = Suc (length q')"
  using next_mset [OF assms] by (metis size_add_mset size_mset)

lemma next_distinct:
  assumes "q \<noteq> []" "getNextNode top q = (x, q')" "distinct q"
  shows "distinct q' \<and> x \<notin> set q'"
  using next_mset [OF assms(1,2)] assms(3)
  by (metis mset.simps(2) distinct.simps(2) mset_eq_imp_distinct_iff)

lemma next_least:
  assumes "q \<noteq> []" "getNextNode top q = (x, q')" "y \<in> set q"
  shows "fst x \<le> fst y"
  using assms top_least [OF assms(1,3)] by (auto simp: getNextNode_def Let_def)

end

lemma first_least_in: "q \<noteq> [] \<Longrightarrow> first_least q < length q"
  by (induction q rule: first_least.induct) (auto simp: Let_def)

lemma first_least_le: "x \<in> set q \<Longrightarrow> fst (q ! first_least q) \<le> fst x"
proof (induction q rule: first_least.induct)
  case (3 a b q)
  then show ?case
    by (auto simp: Let_def dest: order_trans)
qed auto

interpretation first_queue: node_queue first_least
  by unfold_locales (auto simp: first_least_in first_least_le)

end
