(* ===== verification/Route_Search.thy ===== *)
theory Route_Search
  imports Route_Planner
begin

text \<open>
  The invariant of the search of the route planner. Paths are lists of edges, a path costs what the planner's
  own rounded sums give along it. The invariant carries, as ghosts, the set of settled nodes, a level between
  the costs of the settled nodes and those of the queue, the edges of the current node still to be relaxed,
  and for every node reached the path the parent edges record.
\<close>

section \<open>Paths and their costs\<close>

text \<open>Rounding to floating point numbers: monotone, and exact on what it gives.\<close>

definition float_rounding :: "(real \<Rightarrow> real) \<Rightarrow> bool" where
  "float_rounding rnd \<longleftrightarrow>
     (\<forall>x y. x \<le> y \<longrightarrow> rnd x \<le> rnd y) \<and> (\<forall>x. rnd (rnd x) = rnd x) \<and> rnd 0 = 0"

definition edge_weight ::
  "planner_env \<Rightarrow> planner \<Rightarrow> graph \<Rightarrow> u32 list \<Rightarrow> route_request \<Rightarrow> dir_edge \<Rightarrow> real option" where
  "edge_weight env P g blocked_ids req e =
     (case getTraversalCost env P g blocked_ids req e of Inl _ \<Rightarrow> None | Inr t \<Rightarrow> t)"

fun route_path :: "graph \<Rightarrow> (dir_edge \<Rightarrow> real option) \<Rightarrow> nat \<Rightarrow> dir_edge list \<Rightarrow> nat \<Rightarrow> bool" where
  "route_path g W u [] v \<longleftrightarrow> u = v"
| "route_path g W u (e # es) v \<longleftrightarrow>
     e \<in> set (neighbors (g ! u)) \<and> W e \<noteq> None \<and> route_path g W (e_end e) es v"

definition path_cost :: "(real \<Rightarrow> real) \<Rightarrow> (dir_edge \<Rightarrow> real option) \<Rightarrow> dir_edge list \<Rightarrow> real" where
  "path_cost rnd W es = foldl (\<lambda>c e. rnd (c + the (W e))) 0 es"

definition nonneg_weights :: "graph \<Rightarrow> (dir_edge \<Rightarrow> real option) \<Rightarrow> bool" where
  "nonneg_weights g W \<longleftrightarrow>
     (\<forall>i<length g. \<forall>e\<in>set (neighbors (g ! i)). \<forall>t. W e = Some t \<longrightarrow> 0 \<le> t)"

lemma route_path_snoc:
  "route_path g W u (es @ [e]) v \<longleftrightarrow>
     (\<exists>w. route_path g W u es w \<and> e \<in> set (neighbors (g ! w)) \<and> W e \<noteq> None \<and> e_end e = v)"
  by (induction es arbitrary: u) auto

lemma path_cost_Nil [simp]: "path_cost rnd W [] = 0"
  by (simp add: path_cost_def)

lemma path_cost_snoc: "path_cost rnd W (es @ [e]) = rnd (path_cost rnd W es + the (W e))"
  by (simp add: path_cost_def)

lemma path_cost_rounded:
  assumes "float_rounding rnd"
  shows "rnd (path_cost rnd W es) = path_cost rnd W es"
  using assms by (cases es rule: rev_cases) (auto simp: path_cost_snoc float_rounding_def)

lemma rounding_mono: "float_rounding rnd \<Longrightarrow> x \<le> y \<Longrightarrow> rnd x \<le> rnd y"
  by (simp add: float_rounding_def)

lemma rounding_le:
  assumes "float_rounding rnd" "rnd x = x" "0 \<le> t"
  shows "x \<le> rnd (x + t)"
  using rounding_mono [OF assms(1), of x "x + t"] assms(2,3) by simp

lemma route_path_in:
  assumes "wf_graph g" "u < length g" "route_path g W u es v"
  shows "v < length g"
  using assms(2,3)
  by (induction es arbitrary: u) (auto dest: wf_graph_edge [OF assms(1)])

section \<open>Traversal costs do not depend on the search\<close>

lemma getTraversalCost_static:
  assumes "\<forall>p\<in>set (plugins env). cost_function p" "same_graph g g'"
    and "e_start e < length g" "e_end e < length g"
  shows "getTraversalCost env P g' b req e = getTraversalCost env P g b req e"
proof -
  have ids: "nodeid (g' ! e_end e) = nodeid (g ! e_end e)"
    "nodeid (g' ! e_start e) = nodeid (g ! e_start e)"
    using assms by (simp_all add: same_graph_fields)
  then have "classifyEdge P g' e = classifyEdge P g e"
    by (simp add: classifyEdge_def isStart_def isGoal_def)
  then show ?thesis
    using ids score_plugins_static [OF assms]
    by (simp add: getTraversalCost_def EdgeScorer_score_def)
qed

section \<open>The invariant\<close>

abbreviation cost_of :: "graph \<Rightarrow> nat \<Rightarrow> real" where
  "cost_of g v \<equiv> integrated_cost (search_state (g ! v))"

abbreviation parent_of :: "graph \<Rightarrow> nat \<Rightarrow> dir_edge option" where
  "parent_of g v \<equiv> parent_edge (search_state (g ! v))"

text \<open>The parent edges form a tree from the start; \<open>T v\<close> is the path to \<open>v\<close> in it.\<close>

definition parent_ok ::
  "(real \<Rightarrow> real) \<Rightarrow> (dir_edge \<Rightarrow> real option) \<Rightarrow> graph \<Rightarrow> (nat \<Rightarrow> dir_edge list) \<Rightarrow> graph \<Rightarrow> nat \<Rightarrow>
   dir_edge \<Rightarrow> bool" where
  "parent_ok rnd W g0 T g v e \<longleftrightarrow>
     e_start e < length g0 \<and> e \<in> set (neighbors (g0 ! e_start e)) \<and> e_end e = v \<and>
     W e = Some (traversal_cost (search_state (g ! v))) \<and> T v = T (e_start e) @ [e] \<and>
     cost_of g (e_start e) < FLT_MAX \<and> cost_of g v < FLT_MAX \<and>
     cost_of g v = rnd (cost_of g (e_start e) + traversal_cost (search_state (g ! v)))"

definition tree_inv ::
  "(real \<Rightarrow> real) \<Rightarrow> (dir_edge \<Rightarrow> real option) \<Rightarrow> graph \<Rightarrow> nat \<Rightarrow> (nat \<Rightarrow> dir_edge list) \<Rightarrow> graph \<Rightarrow>
   bool" where
  "tree_inv rnd W g0 s T g \<longleftrightarrow>
     same_graph g0 g \<and> s < length g0 \<and> T s = [] \<and> cost_of g s = 0 \<and> parent_of g s = None \<and>
     (\<forall>v<length g0. v \<noteq> s \<longrightarrow>
        (case parent_of g v of
           None \<Rightarrow> cost_of g v = FLT_MAX
         | Some e \<Rightarrow> parent_ok rnd W g0 T g v e))"

definition queue_inv :: "nat set \<Rightarrow> real \<Rightarrow> graph \<Rightarrow> node_queue \<Rightarrow> bool" where
  "queue_inv S m g q \<longleftrightarrow>
     distinct q \<and>
     (\<forall>(k, v)\<in>set q. v < length g \<and> cost_of g v \<le> k \<and> k < FLT_MAX \<and> m \<le> k) \<and>
     (\<forall>v<length g. v \<notin> S \<longrightarrow> cost_of g v < FLT_MAX \<longrightarrow> (cost_of g v, v) \<in> set q) \<and>
     (\<forall>v\<in>S. v < length g \<and> (cost_of g v, v) \<notin> set q \<and> cost_of g v \<le> m) \<and>
     (\<forall>v<length g. \<forall>e. parent_of g v = Some e \<longrightarrow> e_start e \<in> S)"

text \<open>The edges out of settled nodes are relaxed, but for those in \<open>E\<close>.\<close>

definition relaxed ::
  "(real \<Rightarrow> real) \<Rightarrow> (dir_edge \<Rightarrow> real option) \<Rightarrow> graph \<Rightarrow> nat set \<Rightarrow> dir_edge set \<Rightarrow> graph \<Rightarrow> bool" where
  "relaxed rnd W g0 S E g \<longleftrightarrow>
     (\<forall>u\<in>S. \<forall>e\<in>set (neighbors (g0 ! u)). \<forall>t. W e = Some t \<longrightarrow> e \<notin> E \<longrightarrow>
        cost_of g (e_end e) \<le> rnd (cost_of g u + t))"

lemma tree_inv_same: "tree_inv rnd W g0 s T g \<Longrightarrow> same_graph g0 g"
  by (simp add: tree_inv_def)

lemma tree_length: "tree_inv rnd W g0 s T g \<Longrightarrow> length g = length g0"
  by (simp add: tree_inv_same same_graph_length)

lemma tree_parent:
  assumes "tree_inv rnd W g0 s T g" "v < length g0" "v \<noteq> s" "cost_of g v < FLT_MAX"
  obtains e where "parent_of g v = Some e" "parent_ok rnd W g0 T g v e"
  using assms by (auto simp: tree_inv_def split: option.splits)

lemma tree_rounded:
  assumes "float_rounding rnd" "tree_inv rnd W g0 s T g" "v < length g0" "cost_of g v < FLT_MAX"
  shows "rnd (cost_of g v) = cost_of g v"
proof (cases "v = s")
  case True
  then show ?thesis
    using assms(1,2) by (simp add: tree_inv_def float_rounding_def)
next
  case False
  then obtain e where "parent_ok rnd W g0 T g v e"
    using tree_parent [OF assms(2,3) _ assms(4)] by blast
  then obtain c where "cost_of g v = rnd c"
    unfolding parent_ok_def by blast
  then show ?thesis
    using assms(1) by (simp add: float_rounding_def)
qed

text \<open>What the parent edges record is a path of the cost the node has.\<close>

lemma tree_path:
  assumes "tree_inv rnd W g0 s T g" "v < length g0" "cost_of g v < FLT_MAX"
  shows "route_path g0 W s (T v) v \<and> path_cost rnd W (T v) = cost_of g v"
  using assms(2,3)
proof (induction "length (T v)" arbitrary: v rule: less_induct)
  case less
  show ?case
  proof (cases "v = s")
    case True
    then show ?thesis
      using assms(1) by (simp add: tree_inv_def)
  next
    case False
    then obtain e where "parent_ok rnd W g0 T g v e"
      using tree_parent [OF assms(1) less.prems(1) _ less.prems(2)] by blast
    then have e: "e_start e < length g0" "e \<in> set (neighbors (g0 ! e_start e))" "e_end e = v"
      "W e = Some (traversal_cost (search_state (g ! v)))" "T v = T (e_start e) @ [e]"
      "cost_of g (e_start e) < FLT_MAX"
      "cost_of g v = rnd (cost_of g (e_start e) + traversal_cost (search_state (g ! v)))"
      by (simp_all add: parent_ok_def)
    then have IH: "route_path g0 W s (T (e_start e)) (e_start e)"
      "path_cost rnd W (T (e_start e)) = cost_of g (e_start e)"
      using less.hyps [of "e_start e"] by simp_all
    have "route_path g0 W s (T v) v"
      using IH(1) e(2-5) by (auto simp: route_path_snoc)
    moreover have "path_cost rnd W (T v) = cost_of g v"
      using IH(2) e(4,5,7) by (simp add: path_cost_snoc)
    ultimately show ?thesis by blast
  qed
qed

lemma tree_cost_nonneg:
  assumes "float_rounding rnd" "nonneg_weights g0 W" "wf_graph g0"
    and "tree_inv rnd W g0 s T g" "v < length g0"
  shows "0 \<le> cost_of g v"
  using assms(5)
proof (induction "length (T v)" arbitrary: v rule: less_induct)
  case less
  show ?case
  proof (cases "v = s \<or> \<not> cost_of g v < FLT_MAX")
    case True
    then show ?thesis
      using assms(4) FLT_MAX_pos by (auto simp: tree_inv_def)
  next
    case False
    then obtain e where "parent_ok rnd W g0 T g v e"
      using tree_parent [OF assms(4) less.prems] by blast
    then have e: "e_start e < length g0" "e \<in> set (neighbors (g0 ! e_start e))"
      "W e = Some (traversal_cost (search_state (g ! v)))" "T v = T (e_start e) @ [e]"
      "cost_of g v = rnd (cost_of g (e_start e) + traversal_cost (search_state (g ! v)))"
      by (simp_all add: parent_ok_def)
    have "0 \<le> traversal_cost (search_state (g ! v))"
      using assms(2) e(1-3) by (auto simp: nonneg_weights_def)
    moreover have "0 \<le> cost_of g (e_start e)"
      using less.hyps [of "e_start e"] e(1,4) by simp
    ultimately show ?thesis
      using rounding_mono [OF assms(1), of 0] assms(1) e(5) by (simp add: float_rounding_def)
  qed
qed

text \<open>
  The bound: a path costs at least what its last node has, or at least any level below the queue.
\<close>

lemma path_bound:
  assumes rnd: "float_rounding rnd" and nn: "nonneg_weights g0 W" and wf: "wf_graph g0"
    and tree: "tree_inv rnd W g0 s T g" and qi: "queue_inv S m g q"
    and rel: "relaxed rnd W g0 S {} g"
    and low: "\<forall>(k, u)\<in>set q. l \<le> k" "l \<le> FLT_MAX"
    and path: "route_path g0 W s es v"
  shows "cost_of g v \<le> path_cost rnd W es \<or> l \<le> path_cost rnd W es"
  using path
proof (induction es arbitrary: v rule: rev_induct)
  case Nil
  then show ?case
    using tree by (simp add: tree_inv_def)
next
  case (snoc e es)
  then obtain u where u: "route_path g0 W s es u" "e \<in> set (neighbors (g0 ! u))" "e_end e = v"
    and "W e \<noteq> None"
    by (auto simp: route_path_snoc)
  then obtain t where t: "W e = Some t" by blast
  have un: "u < length g0"
    using route_path_in [OF wf _ u(1)] tree by (simp add: tree_inv_def)
  have t0: "0 \<le> t"
    using nn un u(2) t by (auto simp: nonneg_weights_def)
  have up: "path_cost rnd W es \<le> path_cost rnd W (es @ [e])"
    using rounding_le [OF rnd path_cost_rounded [OF rnd] t0] t by (simp add: path_cost_snoc)
  have "cost_of g u \<le> path_cost rnd W es \<or> l \<le> path_cost rnd W es"
    using snoc.IH [OF u(1)] .
  moreover have "?case" if c: "cost_of g u \<le> path_cost rnd W es" "u \<in> S"
  proof -
    have "cost_of g v \<le> rnd (cost_of g u + t)"
      using rel c(2) u(2,3) t by (auto simp: relaxed_def)
    also have "\<dots> \<le> rnd (path_cost rnd W es + t)"
      using c(1) by (intro rounding_mono [OF rnd]) simp
    finally show ?thesis
      using t by (simp add: path_cost_snoc)
  qed
  moreover have "?case" if c: "cost_of g u \<le> path_cost rnd W es" "u \<notin> S"
  proof (cases "cost_of g u < FLT_MAX")
    case True
    then have "(cost_of g u, u) \<in> set q"
      using qi c(2) un tree_length [OF tree] by (simp add: queue_inv_def)
    then have "l \<le> cost_of g u"
      using low(1) by blast
    then show ?thesis
      using c(1) up by linarith
  next
    case False
    then show ?thesis
      using c(1) up low(2) by linarith
  qed
  ultimately show ?case
    using up by linarith
qed

section \<open>Relaxing an edge\<close>

lemma cost_upd_state:
  "w < length g \<Longrightarrow> cost_of (upd_state v st g) w =
     (if w = v then integrated_cost st else cost_of g w)"
  by (simp add: search_state_upd_state)

lemma parent_upd_state:
  "w < length g \<Longrightarrow> parent_of (upd_state v st g) w =
     (if w = v then parent_edge st else parent_of g w)"
  by (simp add: search_state_upd_state)

lemma tree_cost_le:
  assumes "tree_inv rnd W g0 s T g" "v < length g0"
  shows "cost_of g v \<le> FLT_MAX"
  using assms FLT_MAX_pos
  by (cases "v = s") (fastforce simp: tree_inv_def parent_ok_def split: option.splits)+

lemma improved_unsettled:
  assumes qi: "queue_inv S m g q" and "m \<le> p" "p < cost_of g v"
  shows "v \<notin> S"
  using assms by (auto simp: queue_inv_def)

lemma relax_tree:
  assumes tree: "tree_inv rnd W g0 s T g" and qi: "queue_inv S m g q" and wf: "wf_graph g0"
    and u: "u \<in> S" "cost_of g u = m" and m: "m < FLT_MAX"
    and e: "e \<in> set (neighbors (g0 ! u))" "W e = Some t"
    and p: "p = rnd (m + t)" "m \<le> p" "p < cost_of g (e_end e)" and s0: "e_end e \<noteq> s"
  shows "tree_inv rnd W g0 s (T(e_end e := T u @ [e]))
    (upd_state (e_end e) \<lparr>parent_edge = Some e, integrated_cost = p, traversal_cost = t\<rparr> g)"
    (is "tree_inv rnd W g0 s ?T ?g")
proof -
  let ?v = "e_end e"
  have len: "length g = length g0"
    using tree_length [OF tree] .
  have un: "u < length g0"
    using qi u(1) len by (simp add: queue_inv_def)
  have ev: "e_start e = u" "?v < length g0"
    using wf_graph_edge [OF wf un e(1)] by simp_all
  have vS: "?v \<notin> S"
    using improved_unsettled [OF qi p(2,3)] .
  have pM: "p < FLT_MAX"
    using p(3) tree_cost_le [OF tree ev(2)] by linarith
  have vu: "?v \<noteq> u"
    using vS u(1) by blast
  have "case parent_of ?g w of None \<Rightarrow> cost_of ?g w = FLT_MAX
        | Some e' \<Rightarrow> parent_ok rnd W g0 ?T ?g w e'"
    if w: "w < length g0" "w \<noteq> s" for w
  proof (cases "w = ?v")
    case True
    then show ?thesis
      using len ev un vu e p pM m u(2) by (simp add: parent_ok_def search_state_upd_state)
  next
    case False
    then have old: "search_state (?g ! w) = search_state (g ! w)"
      using w(1) len by (simp add: search_state_upd_state)
    show ?thesis
    proof (cases "parent_of g w")
      case None
      then show ?thesis
        using tree w old by (auto simp: tree_inv_def)
    next
      case (Some e')
      then have ok: "parent_ok rnd W g0 T g w e'"
        using tree w by (force simp: tree_inv_def)
      have "e_start e' \<in> S"
        using qi Some w(1) len by (auto simp: queue_inv_def)
      then have ne: "e_start e' \<noteq> ?v"
        using vS by auto
      have "search_state (?g ! e_start e') = search_state (g ! e_start e')"
        using ok ne len by (simp add: search_state_upd_state parent_ok_def)
      then have "parent_ok rnd W g0 ?T ?g w e'"
        using ok ne False old by (simp add: parent_ok_def)
      then show ?thesis
        using Some old by simp
    qed
  qed
  moreover have "same_graph g0 ?g"
    using same_graph_trans [OF tree_inv_same [OF tree] same_graph_upd_state] .
  moreover have "search_state (?g ! s) = search_state (g ! s)"
    using s0 tree len by (simp add: search_state_upd_state tree_inv_def)
  ultimately show ?thesis
    using tree s0 by (simp add: tree_inv_def)
qed

lemma relax_queue:
  assumes qi: "queue_inv S m g q" and m: "m \<le> p" "p < FLT_MAX"
    and v: "v < length g" "p < cost_of g v" and e: "e_start e \<in> S"
  shows "queue_inv S m
    (upd_state v \<lparr>parent_edge = Some e, integrated_cost = p, traversal_cost = t\<rparr> g)
    (addNode p v q)" (is "queue_inv S m ?g ?q")
proof -
  have vS: "v \<notin> S"
    using improved_unsettled [OF qi m(1) v(2)] .
  have ent: "w < length g \<and> cost_of g w \<le> k \<and> k < FLT_MAX \<and> m \<le> k" if "(k, w) \<in> set q" for k w
    using qi that by (auto simp: queue_inv_def)
  have fresh: "(p, v) \<notin> set q"
    using ent [of p v] v(2) by auto
  have "cost_of ?g w \<le> k" if "(k, w) \<in> set q" for k w
    using ent [OF that] v(2) by (auto simp: cost_upd_state)
  then have "\<forall>(k, w)\<in>set ?q. w < length ?g \<and> cost_of ?g w \<le> k \<and> k < FLT_MAX \<and> m \<le> k"
    using ent m v(1) by (auto simp: addNode_def cost_upd_state)
  moreover have "distinct ?q"
    using qi fresh by (simp add: addNode_def queue_inv_def)
  moreover have "\<forall>w<length ?g. w \<notin> S \<longrightarrow> cost_of ?g w < FLT_MAX \<longrightarrow> (cost_of ?g w, w) \<in> set ?q"
    using qi by (auto simp: addNode_def cost_upd_state queue_inv_def)
  moreover have "\<forall>w\<in>S. w < length ?g \<and> (cost_of ?g w, w) \<notin> set ?q \<and> cost_of ?g w \<le> m"
    using qi vS by (auto simp: addNode_def cost_upd_state queue_inv_def)
  moreover have "\<forall>w<length ?g. \<forall>e'. parent_of ?g w = Some e' \<longrightarrow> e_start e' \<in> S"
    using qi e by (auto simp: parent_upd_state queue_inv_def)
  ultimately show ?thesis
    by (simp add: queue_inv_def)
qed

lemma relax_relaxed:
  assumes rel: "relaxed rnd W g0 S E g" and S: "\<forall>u\<in>S. u < length g0" and wf: "wf_graph g0"
    and len: "length g = length g0"
    and u: "u \<in> S" "cost_of g u = m" "u \<noteq> e_end e" and e: "e \<in> set (neighbors (g0 ! u))" "W e = Some t"
    and p: "p = rnd (m + t)" "p < cost_of g (e_end e)" and vS: "e_end e \<notin> S"
  shows "relaxed rnd W g0 S (E - {e})
    (upd_state (e_end e) \<lparr>parent_edge = Some e, integrated_cost = p, traversal_cost = t\<rparr> g)"
    (is "relaxed rnd W g0 S _ ?g")
  unfolding relaxed_def
proof (intro ballI allI impI)
  fix w e' t'
  assume w: "w \<in> S" "e' \<in> set (neighbors (g0 ! w))" "W e' = Some t'" "e' \<notin> E - {e}"
  then have wn: "w < length g0" and ev: "e_start e' = w" "e_end e' < length g0"
    using S wf_graph_edge [OF wf _ w(2)] by auto
  have cw: "cost_of ?g w = cost_of g w"
    using w(1) vS wn len by (auto simp: cost_upd_state)
  show "cost_of ?g (e_end e') \<le> rnd (cost_of ?g w + t')"
  proof (cases "e' = e")
    case True
    then have "w = u" "t' = t"
      using wf_graph_edge(1) [OF wf _ e(1)] S u(1) ev(1) w(3) e(2) by auto
    then show ?thesis
      using True u(2) p(1) cw ev(2) len by (simp add: cost_upd_state)
  next
    case False
    then have "cost_of g (e_end e') \<le> rnd (cost_of g w + t')"
      using rel w by (auto simp: relaxed_def)
    then show ?thesis
      using cw ev(2) p(2) len by (auto simp: cost_upd_state)
  qed
qed

lemma skip_relaxed:
  assumes "relaxed rnd W g0 S E g" "\<forall>u\<in>S. u < length g0" "wf_graph g0"
    and "u \<in> S" "e \<in> set (neighbors (g0 ! u))"
    and "\<And>t. W e = Some t \<Longrightarrow> cost_of g (e_end e) \<le> rnd (cost_of g u + t)"
  shows "relaxed rnd W g0 S (E - {e}) g"
  unfolding relaxed_def
proof (intro ballI allI impI)
  fix w e' t'
  assume w: "w \<in> S" "e' \<in> set (neighbors (g0 ! w))" "W e' = Some t'" "e' \<notin> E - {e}"
  show "cost_of g (e_end e') \<le> rnd (cost_of g w + t')"
  proof (cases "e' = e")
    case True
    then have "w = u"
      using wf_graph_edge(1) [OF assms(3)] assms(2,4,5) w(1,2) by metis
    then show ?thesis
      using True assms(6) w(3) by simp
  next
    case False
    then show ?thesis
      using assms(1) w by (auto simp: relaxed_def)
  qed
qed

end
