(* ===== verification/Route_Search_Loop.thy ===== *)
theory Route_Search_Loop
  imports Route_Search
begin

text \<open>
  The invariant through the loops of the search: relaxing the edges of a node, taking the next entry of the
  queue, the whole search with its number of iterations, and following the parent edges back.
\<close>

text \<open>What is assumed of the environment of the planner, the graph, and the costs in it.\<close>

definition planning_ok ::
  "planner_env \<Rightarrow> planner \<Rightarrow> graph \<Rightarrow> u32 list \<Rightarrow> route_request \<Rightarrow> bool" where
  "planning_ok env P g blocked_ids req \<longleftrightarrow>
     float_rounding (rounding env) \<and> node_queue (top_index env) \<and>
     (\<forall>p\<in>set (plugins env). cost_function p) \<and> wf_graph g \<and>
     nonneg_weights g (edge_weight env P g blocked_ids req)"

lemma planning_okD:
  assumes "planning_ok env P g b req"
  shows "float_rounding (rounding env)" "node_queue (top_index env)"
    "\<forall>p\<in>set (plugins env). cost_function p" "wf_graph g"
    "nonneg_weights g (edge_weight env P g b req)"
  using assms by (simp_all add: planning_ok_def)

definition edge_throws ::
  "planner_env \<Rightarrow> planner \<Rightarrow> graph \<Rightarrow> u32 list \<Rightarrow> route_request \<Rightarrow> route_exception \<Rightarrow> bool" where
  "edge_throws env P g blocked_ids req x \<longleftrightarrow>
     (\<exists>i<length g. \<exists>e\<in>set (neighbors (g ! i)). getTraversalCost env P g blocked_ids req e = Inl x)"

section \<open>The edges of one node\<close>

lemma queue_inv_settled: "queue_inv S m g q \<Longrightarrow> v \<in> S \<Longrightarrow> v < length g"
  by (simp add: queue_inv_def)

lemma relax_edges_inv:
  assumes ok: "planning_ok env P g0 b req" and W: "W = edge_weight env P g0 b req"
    and R: "rnd = rounding env"
    and tree: "tree_inv rnd W g0 s T g" and qi: "queue_inv S m g q"
    and rel: "relaxed rnd W g0 S (set es) g"
    and u: "u \<in> S" "cost_of g u = m" and m: "m < FLT_MAX"
    and es: "set es \<subseteq> set (neighbors (g0 ! u))"
    and run: "relax_edges env P b req m es g q = (x, g', q')"
  shows "(case x of
      None \<Rightarrow> relaxed rnd W g0 S {} g'
    | Some y \<Rightarrow> edge_throws env P g0 b req y) \<and>
    (\<exists>T'. tree_inv rnd W g0 s T' g') \<and> queue_inv S m g' q' \<and> length q' \<le> length q + length es"
  using tree qi rel u(2) es run
proof (induction es arbitrary: T g q)
  case Nil
  then show ?case by auto
next
  case (Cons e es)
  note rk = planning_okD(1) [OF ok, folded R] and wf = planning_okD(4) [OF ok]
  note nn = planning_okD(5) [OF ok, folded W]
  note tree = Cons.prems(1) and qi = Cons.prems(2) and rel = Cons.prems(3) and um = Cons.prems(4)
  have len: "length g = length g0"
    using tree_length [OF tree] .
  have S: "\<forall>v\<in>S. v < length g0"
    using queue_inv_settled [OF qi] len by simp
  have e: "e \<in> set (neighbors (g0 ! u))" and esub: "set es \<subseteq> set (neighbors (g0 ! u))"
    using Cons.prems(5) by simp_all
  have un: "u < length g0"
    using S u(1) by blast
  have ev: "e_start e = u" "e_end e < length g0"
    using wf_graph_edge [OF wf un e] by simp_all
  have gt: "getTraversalCost env P g b req e = getTraversalCost env P g0 b req e"
    using getTraversalCost_static [OF planning_okD(3) [OF ok] tree_inv_same [OF tree]] ev un by simp
  have less: "length q' \<le> length q + length (e # es)" if "length q' \<le> length q + length es"
    using that by simp
  have skip: "?case" if run': "relax_edges env P b req m es g q = (x, g', q')"
    and no: "\<And>t. W e = Some t \<Longrightarrow> cost_of g (e_end e) \<le> rnd (m + t)"
  proof -
    have "relaxed rnd W g0 S (set (e # es) - {e}) g"
      using skip_relaxed [OF rel S wf u(1) e] no um by simp
    then have "relaxed rnd W g0 S (set es) g"
      by (auto simp: relaxed_def)
    then show ?thesis
      using Cons.IH [OF tree qi _ um esub run'] by fastforce
  qed
  show ?case
  proof (cases "getTraversalCost env P g0 b req e")
    case (Inl y)
    then have "edge_throws env P g0 b req y"
      using e un by (auto simp: edge_throws_def)
    then show ?thesis
      using Inl Cons.prems gt by auto
  next
    case (Inr r)
    have We: "W e = r"
      using Inr by (simp add: W edge_weight_def)
    show ?thesis
    proof (cases r)
      case None
      then show ?thesis
        using skip Cons.prems(6) Inr gt We by simp
    next
      case (Some t)
      let ?p = "rnd (m + t)"
      have t0: "0 \<le> t"
        using nn un e We Some by (auto simp: nonneg_weights_def)
      show ?thesis
      proof (cases "?p < cost_of g (e_end e)")
        case False
        then have "relax_edges env P b req m es g q = (x, g', q')"
          using Cons.prems(6) Inr gt Some R by (simp add: Let_def)
        then show ?thesis
          using skip False We Some by simp
      next
        case True
        let ?g = "upd_state (e_end e)
          \<lparr>parent_edge = Some e, integrated_cost = ?p, traversal_cost = t\<rparr> g"
        let ?q = "addNode ?p (e_end e) q"
        have mp: "m \<le> ?p"
          using rounding_le [OF rk _ t0] tree_rounded [OF rk tree un] um m by simp
        have s0: "e_end e \<noteq> s"
        proof
          assume "e_end e = s"
          then have "cost_of g (e_end e) = 0"
            using tree by (simp add: tree_inv_def)
          moreover have "0 \<le> m"
            using tree_cost_nonneg [OF rk nn wf tree un] um by simp
          ultimately show False
            using True mp by simp
        qed
        have vS: "e_end e \<notin> S"
          using improved_unsettled [OF qi mp True] .
        then have vu: "u \<noteq> e_end e"
          using u(1) by blast
        have pM: "?p < FLT_MAX"
          using True tree_cost_le [OF tree ev(2)] by simp
        have Wt: "W e = Some t"
          using We Some by simp
        have "tree_inv rnd W g0 s (T(e_end e := T u @ [e])) ?g"
          using relax_tree [where p = ?p and t = t and m = m, OF tree qi wf u(1) um m e Wt refl mp True s0] .
        moreover have "queue_inv S m ?g ?q"
          using relax_queue [OF qi mp pM] ev len True u(1) by simp
        moreover have "relaxed rnd W g0 S (set (e # es) - {e}) ?g"
          using relax_relaxed [where p = ?p and t = t and m = m, OF rel S wf len u(1) um vu e Wt refl True vS] .
        then have "relaxed rnd W g0 S (set es) ?g"
          by (auto simp: relaxed_def)
        moreover have "cost_of ?g u = m"
          using vu um un len by (simp add: cost_upd_state)
        moreover have "relax_edges env P b req m es ?g ?q = (x, g', q')"
          using Cons.prems(6) Inr gt Some True R by (simp add: Let_def)
        moreover have "length ?q = Suc (length q)"
          by (simp add: addNode_def)
        ultimately show ?thesis
          using Cons.IH [of "T(e_end e := T u @ [e])" ?g ?q] esub by fastforce
      qed
    qed
  qed
qed

section \<open>The next entry of the queue\<close>

lemma next_entry:
  assumes "node_queue pick" "queue_inv S m g q" "q \<noteq> []" "getNextNode pick q = ((k, v), q')"
  shows "v < length g" "cost_of g v \<le> k" "k < FLT_MAX" "m \<le> k" "length q = Suc (length q')"
    "\<forall>(l, w)\<in>set q. k \<le> l" "distinct q'" "(k, v) \<notin> set q'" "set q = insert (k, v) (set q')"
proof -
  have qs: "set q = insert (k, v) (set q')"
    using node_queue.next_set [OF assms(1,3,4)] .
  then show "v < length g" "cost_of g v \<le> k" "k < FLT_MAX" "m \<le> k"
    using assms(2) by (auto simp: queue_inv_def)
  show "length q = Suc (length q')"
    using node_queue.next_length [OF assms(1,3,4)] .
  show "\<forall>(l, w)\<in>set q. k \<le> l"
    using node_queue.next_least [OF assms(1,3,4)] by force
  show "distinct q'" "(k, v) \<notin> set q'"
    using node_queue.next_distinct [OF assms(1,3,4)] assms(2) by (auto simp: queue_inv_def)
  show "set q = insert (k, v) (set q')" by (rule qs)
qed

lemma stale_entry:
  assumes "node_queue pick" "queue_inv S m g q" "q \<noteq> []" "getNextNode pick q = ((k, v), q')"
    and "k \<noteq> cost_of g v"
  shows "queue_inv S k g q'"
  unfolding queue_inv_def
proof (intro conjI)
  note nx = next_entry [OF assms(1-4)]
  show "distinct q'" by (rule nx(7))
  show "\<forall>(l, w)\<in>set q'. w < length g \<and> cost_of g w \<le> l \<and> l < FLT_MAX \<and> k \<le> l"
    using assms(2) nx(6,9) by (auto simp: queue_inv_def)
  show "\<forall>w<length g. w \<notin> S \<longrightarrow> cost_of g w < FLT_MAX \<longrightarrow> (cost_of g w, w) \<in> set q'"
    using assms(2,5) nx(9) by (auto simp: queue_inv_def)
  show "\<forall>w\<in>S. w < length g \<and> (cost_of g w, w) \<notin> set q' \<and> cost_of g w \<le> k"
    using assms(2) nx(4,9) by (auto simp: queue_inv_def intro: order_trans)
  show "\<forall>w<length g. \<forall>e. parent_of g w = Some e \<longrightarrow> e_start e \<in> S"
    using assms(2) by (simp add: queue_inv_def)
qed

lemma fresh_entry:
  assumes "node_queue pick" "queue_inv S m g q" "q \<noteq> []" "getNextNode pick q = ((k, v), q')"
    and "k = cost_of g v"
  shows "v \<notin> S" "queue_inv (insert v S) k g q'"
proof -
  note nx = next_entry [OF assms(1-4)]
  show "v \<notin> S"
    using assms(2,5) nx(9) by (auto simp: queue_inv_def)
  show "queue_inv (insert v S) k g q'"
    unfolding queue_inv_def
  proof (intro conjI)
    show "distinct q'" by (rule nx(7))
    show "\<forall>(l, w)\<in>set q'. w < length g \<and> cost_of g w \<le> l \<and> l < FLT_MAX \<and> k \<le> l"
      using assms(2) nx(6,9) by (auto simp: queue_inv_def)
    show "\<forall>w<length g. w \<notin> insert v S \<longrightarrow> cost_of g w < FLT_MAX \<longrightarrow> (cost_of g w, w) \<in> set q'"
      using assms(2) nx(9) by (auto simp: queue_inv_def)
    have "w < length g \<and> (cost_of g w, w) \<notin> set q' \<and> cost_of g w \<le> k" if "w \<in> S" for w
      using assms(2) nx(4,9) that by (auto simp: queue_inv_def intro: order_trans)
    then show "\<forall>w\<in>insert v S. w < length g \<and> (cost_of g w, w) \<notin> set q' \<and> cost_of g w \<le> k"
      using nx(1,8) assms(5) by auto
    show "\<forall>w<length g. \<forall>e. parent_of g w = Some e \<longrightarrow> e_start e \<in> insert v S"
      using assms(2) by (auto simp: queue_inv_def)
  qed
qed

section \<open>The search\<close>

text \<open>The entries a search can still add to the queue: the edges out of nodes not settled.\<close>

definition open_work :: "graph \<Rightarrow> nat set \<Rightarrow> nat" where
  "open_work g S = (\<Sum>v\<in>{..<length g} - S. length (neighbors (g ! v)))"

definition edge_count :: "graph \<Rightarrow> nat" where
  "edge_count g = sum_list (map (\<lambda>nd. length (neighbors nd)) g)"

lemma open_work_empty: "open_work g {} = edge_count g"
  by (simp add: open_work_def edge_count_def sum_list_sum_nth atLeast0LessThan)

lemma open_work_insert:
  assumes "v < length g" "v \<notin> S"
  shows "open_work g S = length (neighbors (g ! v)) + open_work g (insert v S)"
proof -
  have eq: "{..<length g} - S = insert v ({..<length g} - insert v S)"
    using assms by auto
  show ?thesis
    unfolding open_work_def by (subst eq, subst sum.insert) simp_all
qed

text \<open>What a search leaves behind: every node's cost is a bound, or an error has a cause.\<close>

definition search_result ::
  "planner_env \<Rightarrow> planner \<Rightarrow> graph \<Rightarrow> nat \<Rightarrow> nat \<Rightarrow> u32 list \<Rightarrow> route_request \<Rightarrow> nat \<Rightarrow>
   route_exception option \<Rightarrow> graph \<Rightarrow> node_queue \<Rightarrow> bool" where
  "search_result env P g0 s goal b req bound x g q \<longleftrightarrow>
     (\<exists>T. tree_inv (rounding env) (edge_weight env P g0 b req) g0 s T g) \<and>
     (case x of
        None \<Rightarrow> q = [] \<and>
          (\<forall>es. route_path g0 (edge_weight env P g0 b req) s es goal \<longrightarrow>
             (let c = path_cost (rounding env) (edge_weight env P g0 b req) es
              in cost_of g goal \<le> c \<or> FLT_MAX \<le> c))
      | Some y \<Rightarrow> (y = TimedOut \<and> q = [] \<and> max_iterations P \<le> bound) \<or> edge_throws env P g0 b req y)"

lemma search_result_found:
  assumes ok: "planning_ok env P g0 b req" and W: "W = edge_weight env P g0 b req"
    and R: "rnd = rounding env"
    and tree: "tree_inv rnd W g0 s T g" and qi: "queue_inv S m g q" and rel: "relaxed rnd W g0 S {} g"
    and low: "\<forall>(k, u)\<in>set q. l \<le> k" "l \<le> FLT_MAX" "l = cost_of g goal \<or> l = FLT_MAX"
  shows "search_result env P g0 s goal b req B None g []"
proof -
  have "cost_of g goal \<le> path_cost rnd W es \<or> FLT_MAX \<le> path_cost rnd W es"
    if "route_path g0 W s es goal" for es
    using path_bound [OF planning_okD(1) [OF ok, folded R] planning_okD(5) [OF ok, folded W]
        planning_okD(4) [OF ok] tree qi rel low(1,2) that] low(3) by blast
  then show ?thesis
    using tree W R by (auto simp: search_result_def Let_def)
qed

lemma search_loop_result:
  assumes ok: "planning_ok env P g0 b req" and W: "W = edge_weight env P g0 b req"
    and R: "rnd = rounding env"
    and goal: "goal < length g0" "goal_id P = nodeid (g0 ! goal)"
    and tree: "tree_inv rnd W g0 s T g" and qi: "queue_inv S m g q" and rel: "relaxed rnd W g0 S {} g"
    and it: "it \<le> max_iterations P" "it + length q + open_work g0 S \<le> B"
    and run: "search_loop env P b req it g q = (x, g', q')"
  shows "search_result env P g0 s goal b req B x g' q'"
  using tree qi rel it run
proof (induction "max_iterations P - it" arbitrary: it T S m g q rule: less_induct)
  case less
  note rk = planning_okD(1) [OF ok, folded R] and wf = planning_okD(4) [OF ok]
  note nq = planning_okD(2) [OF ok]
  note tree = less.prems(1) and qi = less.prems(2) and rel = less.prems(3)
  note run = less.prems(6) [unfolded search_loop.simps [of env P b req it g q]]
  have len: "length g = length g0"
    using tree_length [OF tree] .
  show ?case
  proof (cases "q \<noteq> [] \<and> it < max_iterations P")
    case False
    show ?thesis
    proof (cases "it = max_iterations P")
      case True
      then show ?thesis
        using False run tree less.prems(4,5) W R by (auto simp: search_result_def)
    next
      case ne: False
      then have "q = []" "x = None" "g' = g" "q' = []"
        using False run less.prems(4) by auto
      then show ?thesis
        using search_result_found [OF ok W R tree qi rel, of FLT_MAX] by simp
    qed
  next
    case True
    then have q: "q \<noteq> []" and lt: "it < max_iterations P" by simp_all
    obtain k v q1 where nx: "getNextNode (top_index env) q = ((k, v), q1)"
      by (metis surj_pair)
    note ne = next_entry [OF nq qi q nx]
    have v: "v < length g0"
      using ne(1) len by simp
    have dec: "max_iterations P - (it + 1) < max_iterations P - it" and it1: "it + 1 \<le> max_iterations P"
      using lt by simp_all
    show ?thesis
    proof (cases "k = cost_of g v")
      case False
      have "search_loop env P b req (it + 1) g q1 = (x, g', q')"
        using run True nx False by simp
      moreover have "it + 1 + length q1 + open_work g0 S \<le> B"
        using less.prems(5) ne(5) by simp
      ultimately show ?thesis
        using less.hyps [OF dec tree stale_entry [OF nq qi q nx False] rel it1] by simp
    next
      case fr: True
      note fresh = fresh_entry [OF nq qi q nx fr]
      show ?thesis
      proof (cases "isGoal P g v")
        case True
        then have "nodeid (g0 ! v) = nodeid (g0 ! goal)"
          using goal(2) same_graph_fields(1) [OF tree_inv_same [OF tree] v] by (simp add: isGoal_def)
        then have "v = goal"
          using wf_graph_id [OF wf v goal(1)] by simp
        then have "search_result env P g0 s goal b req B None g []"
          using search_result_found [OF ok W R tree qi rel ne(6)] ne(3) fr by simp
        then show ?thesis
          using run q lt nx fr True by simp
      next
        case False
        have nb: "neighbors (g ! v) = neighbors (g0 ! v)"
          using same_graph_fields(3) [OF tree_inv_same [OF tree] v] .
        obtain y g1 q2 where rx: "relax_edges env P b req k (neighbors (g ! v)) g q1 = (y, g1, q2)"
          by (metis prod_cases3)
        have rel': "relaxed rnd W g0 (insert v S) (set (neighbors (g ! v))) g"
          using rel nb by (auto simp: relaxed_def)
        have inv: "(case y of None \<Rightarrow> relaxed rnd W g0 (insert v S) {} g1
            | Some z \<Rightarrow> edge_throws env P g0 b req z) \<and>
          (\<exists>T'. tree_inv rnd W g0 s T' g1) \<and> queue_inv (insert v S) k g1 q2 \<and>
          length q2 \<le> length q1 + length (neighbors (g ! v))"
          using relax_edges_inv [OF ok W R tree fresh(2) rel' insertI1 fr [symmetric] ne(3) _ rx] nb
          by simp
        show ?thesis
        proof (cases y)
          case (Some z)
          then show ?thesis
            using run q lt nx fr False rx inv W R by (auto simp: search_result_def)
        next
          case None
          then have "search_loop env P b req (it + 1) g1 q2 = (x, g', q')"
            using run q lt nx fr False rx by simp
          moreover have "it + 1 + length q2 + open_work g0 (insert v S) \<le> B"
            using less.prems(5) ne(5) inv nb open_work_insert [OF v fresh(1)] by simp
          ultimately show ?thesis
            using less.hyps [OF dec _ _ _ it1] None inv by fastforce
        qed
      qed
    qed
  qed
qed

section \<open>Following the parents\<close>

text \<open>
  The loop overwrites the parent of the goal as it goes; the path in the tree is still the one it reads, since
  the goal lies on no path shorter than its own.
\<close>

lemma follow_parents_stop:
  "parent_of g goal = None \<Longrightarrow> follow_parents goal g es = Some (es, g)"
  by (subst follow_parents.simps) simp

lemma follow_parents_go:
  "parent_of g goal = Some e \<Longrightarrow> follow_parents goal g es =
     follow_parents goal
       (upd_state goal ((search_state (g ! goal))\<lparr>parent_edge := parent_of g (e_start e)\<rparr>) g)
       (es @ [e])"
  by (subst follow_parents.simps) simp

lemma follow_parents_run:
  assumes tree: "tree_inv rnd W g0 s T g" and goal: "goal < length g0"
    and w: "w < length g0" "cost_of g w < FLT_MAX" "length (T w) \<le> length (T goal)"
  shows "\<exists>h. follow_parents goal
      (upd_state goal ((search_state (g ! goal))\<lparr>parent_edge := parent_of g w\<rparr>) g) acc
      = Some (acc @ rev (T w), h) \<and> same_graph g h \<and> cost_of h goal = cost_of g goal"
  using w
proof (induction "length (T w)" arbitrary: w acc rule: less_induct)
  case less
  let ?g = "\<lambda>w. upd_state goal ((search_state (g ! goal))\<lparr>parent_edge := parent_of g w\<rparr>) g"
  have len: "length g = length g0"
    using tree_length [OF tree] .
  have st: "search_state (?g w ! v) =
      (if v = goal then (search_state (g ! goal))\<lparr>parent_edge := parent_of g w\<rparr>
       else search_state (g ! v))" if "v < length g0" for v w
    using that len by (simp add: search_state_upd_state)
  have again: "upd_state goal ((search_state (?g w ! goal))\<lparr>parent_edge := p\<rparr>) (?g w) =
      upd_state goal ((search_state (g ! goal))\<lparr>parent_edge := p\<rparr>) g" for p
    using goal len by (simp add: upd_state_def)
  show ?case
  proof (cases "w = s")
    case True
    then have "parent_of g w = None" "T w = []"
      using tree by (simp_all add: tree_inv_def)
    then have "parent_of (?g w) goal = None"
      using st [OF goal, of w] by simp
    from follow_parents_stop [OF this, of acc] show ?thesis
      using \<open>T w = []\<close> st [OF goal, of w] same_graph_upd_state by auto
  next
    case False
    then obtain e where p: "parent_of g w = Some e" "parent_ok rnd W g0 T g w e"
      using tree_parent [OF tree less.prems(1) _ less.prems(2)] by blast
    then have e: "e_start e < length g0" "cost_of g (e_start e) < FLT_MAX" "T w = T (e_start e) @ [e]"
      by (simp_all add: parent_ok_def)
    then have lt: "length (T (e_start e)) < length (T w)" by simp
    then have ne: "e_start e \<noteq> goal"
      using less.prems(3) by auto
    have step: "follow_parents goal (?g w) acc = follow_parents goal (?g (e_start e)) (acc @ [e])"
    proof -
      have "parent_of (?g w) goal = Some e"
        using st [OF goal, of w] p(1) by simp
      moreover have "parent_of (?g w) (e_start e) = parent_of g (e_start e)"
        using st [OF e(1), of w] ne by simp
      ultimately show ?thesis
        using follow_parents_go [of "?g w" goal e acc] again by (simp only:)
    qed
    show ?thesis
      using less.hyps [OF lt e(1,2), of "acc @ [e]"] less.prems(3) lt e(3) step by simp
  qed
qed

lemma follow_parents_tree:
  assumes tree: "tree_inv rnd W g0 s T g" and goal: "goal < length g0" "cost_of g goal < FLT_MAX"
  shows "\<exists>h. follow_parents goal g [] = Some (rev (T goal), h) \<and> same_graph g h \<and>
    cost_of h goal = cost_of g goal"
proof -
  have "upd_state goal ((search_state (g ! goal))\<lparr>parent_edge := parent_of g goal\<rparr>) g = g"
    by (simp add: upd_state_def)
  then show ?thesis
    using follow_parents_run [OF tree goal(1) goal le_refl, of "[]"] by simp
qed

section \<open>The start of a search\<close>

definition prepared :: "planner \<Rightarrow> graph \<Rightarrow> nat \<Rightarrow> nat \<Rightarrow> planner" where
  "prepared P g start goal = P\<lparr>start_id := nodeid (g ! start), goal_id := nodeid (g ! goal)\<rparr>"

lemma same_graph_reset: "same_graph g (resetSearchStates g)"
  by (simp add: resetSearchStates_def same_graph_map_state)

lemma reset_state: "v < length g \<Longrightarrow> search_state (resetSearchStates g ! v) = SearchState_reset"
  by (simp add: resetSearchStates_def)

lemma initial_inv:
  fixes s :: nat
  assumes s: "s < length g"
    and g2: "g2 = upd_state s ((search_state (resetSearchStates g ! s))\<lparr>integrated_cost := 0\<rparr>)
      (resetSearchStates g)"
  shows "tree_inv rnd W g s (\<lambda>_. []) g2" "queue_inv {} 0 g2 [(0, s)]" "relaxed rnd W g {} {} g2"
proof -
  have len: "length (resetSearchStates g) = length g"
    by (simp add: resetSearchStates_def)
  have st: "search_state (g2 ! v) =
      (if v = s then SearchState_reset\<lparr>integrated_cost := 0\<rparr> else SearchState_reset)"
    if "v < length g" for v
    using that s len by (simp add: g2 search_state_upd_state reset_state)
  show "tree_inv rnd W g s (\<lambda>_. []) g2"
    using s st same_graph_trans [OF same_graph_reset same_graph_upd_state]
    by (auto simp: tree_inv_def g2 SearchState_reset_def)
  show "queue_inv {} 0 g2 [(0, s)]"
    using s st len FLT_MAX_pos by (auto simp: queue_inv_def g2 SearchState_reset_def split: if_splits)
  show "relaxed rnd W g {} {} g2"
    by (simp add: relaxed_def)
qed

lemma findShortestGraphTraversal_result:
  assumes ok: "planning_ok env (prepared P g s goal) g b req" and q: "queue P = []"
    and s: "s < length g" and goal: "goal < length g"
    and run: "findShortestGraphTraversal env P g s goal b req = (x, g', P')"
  shows "search_result env (prepared P g s goal) g s goal b req (edge_count g + 1) x g' (queue P') \<and>
    P' = (prepared P g s goal)\<lparr>queue := queue P'\<rparr>"
proof -
  let ?g2 = "upd_state s ((search_state (resetSearchStates g ! s))\<lparr>integrated_cost := 0\<rparr>)
    (resetSearchStates g)"
  have ids: "nodeid (resetSearchStates g ! i) = nodeid (g ! i)" if "i < length g" for i
    using same_graph_fields(1) [OF same_graph_reset that] .
  obtain q' where sl: "search_loop env (prepared P g s goal) b req 0 ?g2 [(0, s)] = (x, g', q')"
    and P': "P' = (prepared P g s goal)\<lparr>queue := q'\<rparr>"
    using run q ids [OF s] ids [OF goal]
    by (auto simp: findShortestGraphTraversal_def Let_def addNode_def prepared_def split: prod.splits)
  note inv = initial_inv(1) [OF s refl] initial_inv(2) [OF s refl] initial_inv(3) [OF s refl]
  have "search_result env (prepared P g s goal) g s goal b req (edge_count g + 1) x g' q'"
    using search_loop_result [OF ok refl refl goal _ inv _ _ sl, of "edge_count g + 1"]
    by (simp add: open_work_empty prepared_def)
  then show ?thesis
    using P' by simp
qed

end
