(* ===== verification/Route_Planner_Props.thy ===== *)
theory Route_Planner_Props
  imports Route_Search_Loop
begin

text \<open>
  What the route planner promises: an optimal route or the right error, and what negative costs do to it.
\<close>

section \<open>Routes\<close>

lemma route_path_usable:
  assumes "route_path g (edge_weight env P g blocked req) u es v" "e \<in> set es"
  shows "edgeid e \<notin> set blocked \<and> nodeid (g ! e_end e) \<notin> set blocked"
  using assms
proof (induction es arbitrary: u)
  case (Cons a es)
  then show ?case
    by (auto simp: edge_weight_def getTraversalCost_def list_ex_iff split: if_splits)
qed simp

text \<open>The result of \<open>findRoute\<close> from a search that ended with the tree of its invariant.\<close>

lemma findRoute_from_search:
  assumes g: "s < length g" "goal < length g"
    and run: "findShortestGraphTraversal env P g s goal b req = (None, g1, P1)"
    and tree: "tree_inv rnd W g s T g1"
  shows "if s = goal \<or> cost_of g1 goal = FLT_MAX
    then findRoute env P g s goal b req = Some (Inl NoValidRouteCouldBeFound, g1, P1)
    else \<exists>h. findRoute env P g s goal b req =
        Some (Inr \<lparr>start_node = s, edges = T goal, route_cost = cost_of g1 goal\<rparr>, h, P1) \<and>
      same_graph g h \<and> T goal \<noteq> [] \<and> cost_of g1 goal < FLT_MAX"
proof -
  have ne: "g \<noteq> []"
    using g by auto
  have idx: "\<not> (length g \<le> s \<or> length g \<le> goal)"
    using g by simp
  have none: "parent_of g1 goal = None \<longleftrightarrow> s = goal \<or> cost_of g1 goal = FLT_MAX"
    using tree g(2) by (cases "goal = s") (auto simp: tree_inv_def parent_ok_def split: option.splits)
  show ?thesis
  proof (cases "parent_of g1 goal")
    case None
    then show ?thesis
      using none ne idx run by (simp add: findRoute_def)
  next
    case (Some e)
    then have sg: "goal \<noteq> s"
      using none by auto
    have pe: "parent_ok rnd W g T g1 goal e"
      using tree g(2) sg Some by (force simp: tree_inv_def)
    then have lt: "cost_of g1 goal < FLT_MAX" and "T goal \<noteq> []"
      by (simp_all add: parent_ok_def)
    obtain h where h: "follow_parents goal g1 [] = Some (rev (T goal), h)" "same_graph g1 h"
      "cost_of h goal = cost_of g1 goal"
      using follow_parents_tree [OF tree g(2) lt] by blast
    have "same_graph g h"
      using same_graph_trans [OF tree_inv_same [OF tree] h(2)] .
    then show ?thesis
      using Some none ne idx run h lt \<open>T goal \<noteq> []\<close> by (simp add: findRoute_def)
  qed
qed

text \<open>The outcome of \<open>findRoute\<close>, with the route when there is one.\<close>

definition no_cheap_path ::
  "(real \<Rightarrow> real) \<Rightarrow> (dir_edge \<Rightarrow> real option) \<Rightarrow> graph \<Rightarrow> nat \<Rightarrow> nat \<Rightarrow> bool" where
  "no_cheap_path rnd W g s goal \<longleftrightarrow>
     (\<forall>es. route_path g W s es goal \<longrightarrow> FLT_MAX \<le> path_cost rnd W es)"

definition optimal_route ::
  "(real \<Rightarrow> real) \<Rightarrow> (dir_edge \<Rightarrow> real option) \<Rightarrow> graph \<Rightarrow> nat \<Rightarrow> nat \<Rightarrow> route \<Rightarrow> bool" where
  "optimal_route rnd W g s goal r \<longleftrightarrow>
     start_node r = s \<and> edges r \<noteq> [] \<and> route_path g W s (edges r) goal \<and>
     route_cost r = path_cost rnd W (edges r) \<and> route_cost r < FLT_MAX \<and>
     (\<forall>es. route_path g W s es goal \<longrightarrow> route_cost r \<le> path_cost rnd W es)"

lemma findRoute_cases:
  assumes ok: "planning_ok env (prepared P g s goal) g b req" and q: "queue P = []"
    and g: "s < length g" "goal < length g"
    and W: "W = edge_weight env (prepared P g s goal) g b req" and R: "rnd = rounding env"
  shows "\<exists>res g' P'. findRoute env P g s goal b req = Some (res, g', P') \<and> same_graph g g' \<and>
    P' = (prepared P g s goal)\<lparr>queue := queue P'\<rparr> \<and>
    (case res of
       Inr r \<Rightarrow> s \<noteq> goal \<and> optimal_route rnd W g s goal r \<and> queue P' = []
     | Inl x \<Rightarrow>
         (x = NoValidRouteCouldBeFound \<and> queue P' = [] \<and> (s = goal \<or> no_cheap_path rnd W g s goal)) \<or>
         (x = TimedOut \<and> queue P' = [] \<and> max_iterations P \<le> edge_count g + 1) \<or>
         edge_throws env (prepared P g s goal) g b req x)"
proof -
  obtain x g1 P1 where run: "findShortestGraphTraversal env P g s goal b req = (x, g1, P1)"
    by (metis prod_cases3)
  note res = findShortestGraphTraversal_result [OF ok q g run]
  then have sr: "search_result env (prepared P g s goal) g s goal b req (edge_count g + 1) x g1 (queue P1)"
    and P1: "P1 = (prepared P g s goal)\<lparr>queue := queue P1\<rparr>"
    by simp_all
  then obtain T where tree: "tree_inv rnd W g s T g1"
    using W R by (auto simp: search_result_def)
  have ne: "g \<noteq> []"
    using g by auto
  show ?thesis
  proof (cases x)
    case (Some y)
    then have "findRoute env P g s goal b req = Some (Inl y, g1, P1)"
      using ne g run by (simp add: findRoute_def)
    then show ?thesis
      using sr Some tree_inv_same [OF tree] P1 by (auto simp: search_result_def prepared_def)
  next
    case None
    have bound: "cost_of g1 goal \<le> path_cost rnd W es \<or> FLT_MAX \<le> path_cost rnd W es"
      if "route_path g W s es goal" for es
      using sr None that W R by (auto simp: search_result_def Let_def)
    have q1: "queue P1 = []"
      using sr None by (simp add: search_result_def)
    note out = findRoute_from_search [OF g run [unfolded None] tree]
    show ?thesis
    proof (cases "s = goal \<or> cost_of g1 goal = FLT_MAX")
      case True
      then have "s = goal \<or> no_cheap_path rnd W g s goal"
        using bound by (force simp: no_cheap_path_def)
      then show ?thesis
        using out True q1 P1 tree_inv_same [OF tree] by auto
    next
      case False
      then obtain h where h: "findRoute env P g s goal b req =
          Some (Inr \<lparr>start_node = s, edges = T goal, route_cost = cost_of g1 goal\<rparr>, h, P1)"
        "same_graph g h" "T goal \<noteq> []" "cost_of g1 goal < FLT_MAX"
        using out by auto
      have "optimal_route rnd W g s goal
          \<lparr>start_node = s, edges = T goal, route_cost = cost_of g1 goal\<rparr>"
        using tree_path [OF tree g(2) h(4)] h(3,4) bound by (force simp: optimal_route_def)
      then show ?thesis
        using h(1,2) q1 P1 False by auto
    qed
  qed
qed

section \<open>An example\<close>

definition ex_edge :: "u32 \<Rightarrow> nat \<Rightarrow> nat \<Rightarrow> real \<Rightarrow> bool \<Rightarrow> dir_edge" where
  "ex_edge i a b c over = \<lparr>edgeid = i, e_start = a, e_end = b,
     edge_cost = \<lparr>ec_cost = c, overridable = over\<rparr>, e_metadata = [], e_operations = []\<rparr>"

definition ex_node :: "u32 \<Rightarrow> real \<Rightarrow> dir_edge list \<Rightarrow> node" where
  "ex_node i x es = \<lparr>nodeid = i, coords = \<lparr>frame_id = ''map'', co_x = x, co_y = 0\<rparr>, neighbors = es,
     n_metadata = [], n_operations = [], search_state = SearchState_reset\<rparr>"

definition ex_graph :: "bool \<Rightarrow> graph" where
  "ex_graph over =
     [ex_node 10 0 [ex_edge 1 0 2 5 over, ex_edge 2 0 1 1 over],
      ex_node 11 1 [ex_edge 3 1 0 1 over, ex_edge 4 1 2 2 over],
      ex_node 12 2 []]"

definition ex_env :: "edge_cost_function list \<Rightarrow> planner_env" where
  "ex_env ps = \<lparr>rounding = id, top_index = first_least, plugins = ps\<rparr>"

definition ex_req :: route_request where
  "ex_req = \<lparr>start_nodeid = 0, goal_nodeid = 2, start_yaw = 0, goal_yaw = 0, use_poses = False\<rparr>"

lemmas example_defs = ex_edge_def ex_node_def ex_graph_def ex_env_def ex_req_def

lemma ex_rounding: "float_rounding id"
  by (simp add: float_rounding_def)

lemma ex_wf: "wf_graph (ex_graph over)"
  by (auto simp: wf_graph_def example_defs less_Suc_eq)


lemma ex_weights: "getTraversalCost (ex_env []) P (ex_graph False) b ex_req e = Inr (Some t) \<Longrightarrow> 0 \<le> t"
  by (auto simp: getTraversalCost_def example_defs numPlugins_def split: if_splits)

lemma ex_planning: "planning_ok (ex_env []) P (ex_graph False) b ex_req"
  unfolding planning_ok_def nonneg_weights_def edge_weight_def
  using ex_weights ex_wf ex_rounding first_queue.node_queue_axioms
  by (auto simp: ex_env_def split: sum.splits)

lemmas planner_eval = findRoute_def findShortestGraphTraversal_def resetSearchStates_def
  search_loop.simps getNextNode_def addNode_def upd_state_def isGoal_def getTraversalCost_def
  numPlugins_def SearchState_reset_def FLT_MAX_def Let_def planner_new_def

lemma ex_route:
  "\<exists>g' P'. findRoute (ex_env []) (configure 100 planner_new) (ex_graph False) 0 2 [] ex_req =
    Some (Inr \<lparr>start_node = 0, edges = [ex_edge 2 0 1 1 False, ex_edge 4 1 2 2 False], route_cost = 3\<rparr>,
      g', P')"
  by (simp add: planner_eval example_defs configure_def follow_parents_go follow_parents_stop)

section \<open>Parent edges in a cycle\<close>

lemma follow_parents_cycle_aux:
  assumes "follow_parents goal g es = Some y"
  shows "\<not> (goal < length g \<and> (\<exists>e\<in>C. parent_of g goal = Some e) \<and>
    (\<forall>e\<in>C. e_start e \<noteq> goal \<and> e_start e < length g \<and> (\<exists>e'\<in>C. parent_of g (e_start e) = Some e')))"
proof (rule follow_parents.raw_induct [OF _ assms, where P = "\<lambda>goal g es y. \<not> (goal < length g \<and>
    (\<exists>e\<in>C. parent_of g goal = Some e) \<and>
    (\<forall>e\<in>C. e_start e \<noteq> goal \<and> e_start e < length g \<and> (\<exists>e'\<in>C. parent_of g (e_start e) = Some e')))"])
  fix f goal g es y
  assume IH: "\<And>goal g es y. f goal g es = Some y \<Longrightarrow> \<not> (goal < length g \<and>
      (\<exists>e\<in>C. parent_of g goal = Some e) \<and>
      (\<forall>e\<in>C. e_start e \<noteq> goal \<and> e_start e < length g \<and> (\<exists>e'\<in>C. parent_of g (e_start e) = Some e')))"
    and step: "(case parent_of g goal of
        None \<Rightarrow> Some (es, g)
      | Some e \<Rightarrow> f goal (upd_state goal ((search_state (g ! goal))\<lparr>parent_edge := parent_of g (e_start e)\<rparr>) g)
          (es @ [e])) = Some y"
  show "\<not> (goal < length g \<and> (\<exists>e\<in>C. parent_of g goal = Some e) \<and>
    (\<forall>e\<in>C. e_start e \<noteq> goal \<and> e_start e < length g \<and> (\<exists>e'\<in>C. parent_of g (e_start e) = Some e')))" 
  proof (cases "parent_of g goal")
    case (Some e)
    let ?g = "upd_state goal ((search_state (g ! goal))\<lparr>parent_edge := parent_of g (e_start e)\<rparr>) g"
    have "f goal ?g (es @ [e]) = Some y"
      using step Some by simp
    note IH = IH [OF this]
    show ?thesis
    proof
      assume cyc: "goal < length g \<and> (\<exists>e\<in>C. parent_of g goal = Some e) \<and>
        (\<forall>e\<in>C. e_start e \<noteq> goal \<and> e_start e < length g \<and>
          (\<exists>e'\<in>C. parent_of g (e_start e) = Some e'))"
      then have "parent_of ?g goal = parent_of g (e_start e)"
        and "\<forall>e\<in>C. parent_of ?g (e_start e) = parent_of g (e_start e)"
        by (simp_all add: parent_upd_state)
      then show False
        using IH cyc Some by auto
    qed
  qed simp
qed

lemma follow_parents_cycle:
  assumes "goal < length g" "e \<in> C" "parent_of g goal = Some e"
    and "\<forall>e\<in>C. e_start e \<noteq> goal \<and> e_start e < length g \<and> (\<exists>e'\<in>C. parent_of g (e_start e) = Some e')"
  shows "follow_parents goal g es = None"
proof (cases "follow_parents goal g es")
  case (Some y)
  show ?thesis
    using follow_parents_cycle_aux [OF Some, of C] assms by blast
qed simp

definition ex_penalties :: "(u32 \<times> real) list" where
  "ex_penalties = [(2, -3), (3, -3), (4, -10)]"

definition default_plugins :: "dynamic_edges \<Rightarrow> edge_cost_function list" where
  "default_plugins d = [DistanceScorer_score 1 ''speed_limit'', DynamicEdgesScorer_score d]"

lemma ex_spans:
  "edge_span [ex_node a x xs, ex_node b y ys, ex_node c z zs] (ex_edge i 0 1 k over) = \<bar>y - x\<bar>"
  "edge_span [ex_node a x xs, ex_node b y ys, ex_node c z zs] (ex_edge i 0 2 k over) = \<bar>z - x\<bar>"
  "edge_span [ex_node a x xs, ex_node b y ys, ex_node c z zs] (ex_edge i 1 0 k over) = \<bar>x - y\<bar>"
  "edge_span [ex_node a x xs, ex_node b y ys, ex_node c z zs] (ex_edge i 1 2 k over) = \<bar>z - y\<bar>"
  by (simp_all add: edge_span_def hypotf_def ex_node_def ex_edge_def)

definition priced :: dynamic_edges where
  "priced = snd (closedEdgesCb [] [] ex_penalties DynamicEdges_configure)"

lemma ex_negative_search:
  "\<exists>g1 P1. findShortestGraphTraversal (ex_env (default_plugins priced)) (configure 0 planner_new)
      (ex_graph True) 0 2 [] ex_req = (None, g1, P1) \<and> length g1 = 3 \<and>
    parent_of g1 2 = Some (ex_edge 4 1 2 2 True) \<and> parent_of g1 1 = Some (ex_edge 2 0 1 1 True) \<and>
    parent_of g1 0 = Some (ex_edge 3 1 0 1 True)"
  by (simp add: planner_eval example_defs configure_def EdgeScorer_score_def default_plugins_def
      DistanceScorer_score_def getValue_float_def edge_span_def hypotf_def fdiv_def
      DynamicEdgesScorer_score_def priced_def closedEdgesCb_def ex_penalties_def
      DynamicEdges_configure_def)

lemma ex_negative_follow:
  assumes "length g = 3" "parent_of g 2 = Some (ex_edge 4 1 2 2 True)"
    and "parent_of g 1 = Some (ex_edge 2 0 1 1 True)" "parent_of g 0 = Some (ex_edge 3 1 0 1 True)"
  shows "follow_parents 2 g [] = None"
  by (rule follow_parents_cycle [where e = "ex_edge 4 1 2 2 True" and
        C = "{ex_edge 4 1 2 2 True, ex_edge 2 0 1 1 True, ex_edge 3 1 0 1 True}"])
    (use assms in \<open>simp_all add: ex_edge_def\<close>)

section \<open>Properties\<close>

text \<open>C2. Optimality: with rounding that is monotone, scorers that do not look at the search, and no negative
  cost, a route \<open>findRoute\<close> returns leads from the start to the goal over edges that can be traversed, avoids
  every blocked edge and enters no blocked node, costs what summing up its edges gives, and no other such path
  costs less, whichever of several least entries the priority queue takes; the graph is unchanged but for
  the search states and the queue is left empty.\<close>

theorem findRoute_optimal:
  assumes "planning_ok env (prepared P g start goal) g blocked req" "queue P = []"
    and "findRoute env P g start goal blocked req = Some (Inr r, g', P')"
  shows "optimal_route (rounding env) (edge_weight env (prepared P g start goal) g blocked req) g start
      goal r \<and>
    (\<forall>e\<in>set (edges r). edgeid e \<notin> set blocked \<and> nodeid (g ! e_end e) \<notin> set blocked) \<and>
    same_graph g g' \<and> queue P' = []"
proof -
  have idx: "start < length g" "goal < length g"
    using assms(3) by (auto simp: findRoute_def split: if_splits)
  have "optimal_route (rounding env) (edge_weight env (prepared P g start goal) g blocked req) g start
      goal r" "same_graph g g'" "queue P' = []"
    using findRoute_cases [OF assms(1,2) idx refl refl] assms(3) by auto
  moreover from this(1) have
    "route_path g (edge_weight env (prepared P g start goal) g blocked req) start (edges r) goal"
    by (simp add: optimal_route_def)
  ultimately show ?thesis
    using route_path_usable by blast
qed

theorem findRoute_optimal_witness:
  "optimal_route id (edge_weight (ex_env []) (prepared (configure 100 planner_new) (ex_graph False) 0 2)
      (ex_graph False) [] ex_req) (ex_graph False) 0 2
    \<lparr>start_node = 0, edges = [ex_edge 2 0 1 1 False, ex_edge 4 1 2 2 False], route_cost = 3\<rparr>"
proof -
  obtain g' P' where "findRoute (ex_env []) (configure 100 planner_new) (ex_graph False) 0 2 [] ex_req =
    Some (Inr \<lparr>start_node = 0, edges = [ex_edge 2 0 1 1 False, ex_edge 4 1 2 2 False], route_cost = 3\<rparr>,
      g', P')"
    using ex_route by blast
  moreover have "queue (configure 100 planner_new) = []"
    by (simp add: configure_def planner_new_def Let_def)
  ultimately show ?thesis
    using findRoute_optimal [OF ex_planning] by (simp add: ex_env_def)
qed

text \<open>C23. Completeness and errors, under the conditions of the optimality above - monotone rounding, scorers that do not
  look at the search, and no negative cost - for a start and a goal of the graph, when no scoring throws and the
  iterations allowed are more than the number of edges plus one: \<open>findRoute\<close> comes back, following the parents
  included, and it finds a route exactly when the goal is another node that some path of a cost below \<open>FLT_MAX\<close>
  reaches; otherwise it throws \<open>NoValidRouteCouldBeFound\<close>, also when the start is the goal. The queue is left empty.\<close>

theorem findRoute_complete:
  assumes "planning_ok env (prepared P g start goal) g blocked req" "queue P = []"
    and "start < length g" "goal < length g"
    and "\<And>x. \<not> edge_throws env (prepared P g start goal) g blocked req x"
    and "edge_count g + 1 < max_iterations P"
  shows "\<exists>res g' P'. findRoute env P g start goal blocked req = Some (res, g', P') \<and> queue P' = [] \<and>
    (if start \<noteq> goal \<and>
        \<not> no_cheap_path (rounding env) (edge_weight env (prepared P g start goal) g blocked req) g start goal
     then \<exists>r. res = Inr r else res = Inl NoValidRouteCouldBeFound)"
proof -
  let ?W = "edge_weight env (prepared P g start goal) g blocked req"
  obtain res g' P' where run: "findRoute env P g start goal blocked req = Some (res, g', P')"
    and res: "case res of
       Inr r \<Rightarrow> start \<noteq> goal \<and> optimal_route (rounding env) ?W g start goal r \<and> queue P' = []
     | Inl x \<Rightarrow> x = NoValidRouteCouldBeFound \<and> queue P' = [] \<and>
         (start = goal \<or> no_cheap_path (rounding env) ?W g start goal)"
    using findRoute_cases [OF assms(1-4) refl refl] assms(5,6) by (force split: sum.splits)
  have no: "\<not> optimal_route (rounding env) ?W g start goal r"
    if "no_cheap_path (rounding env) ?W g start goal" for r
    using that by (force simp: no_cheap_path_def optimal_route_def)
  then show ?thesis
    using run res no by (cases res) auto
qed

lemma ex_no_throw: "\<not> edge_throws (ex_env []) P (ex_graph False) b ex_req x"
proof -
  have "0 < ec_cost (edge_cost e) \<and> \<not> overridable (edge_cost e)"
    if "i < length (ex_graph False)" "e \<in> set (neighbors (ex_graph False ! i))" for i e
    using that by (auto simp: ex_graph_def ex_node_def ex_edge_def less_Suc_eq)
  then show ?thesis
    by (force simp: edge_throws_def getTraversalCost_def split: if_splits)
qed

theorem findRoute_complete_witness:
  "\<exists>res g' P'. findRoute (ex_env []) (configure 100 planner_new) (ex_graph False) 0 2 [] ex_req =
      Some (res, g', P') \<and> queue P' = [] \<and>
    (if (0::nat) \<noteq> 2 \<and> \<not> no_cheap_path (rounding (ex_env []))
        (edge_weight (ex_env []) (prepared (configure 100 planner_new) (ex_graph False) 0 2)
          (ex_graph False) [] ex_req) (ex_graph False) 0 2
     then \<exists>r. res = Inr r else res = Inl NoValidRouteCouldBeFound)"
  by (rule findRoute_complete [OF ex_planning _ _ _ ex_no_throw])
    (simp_all add: configure_def planner_new_def Let_def ex_graph_def ex_node_def edge_count_def)

text \<open>C33. Negative costs: the service of the dynamic edges scorer accepts negative costs and reports success,
  and with the default scorers and bound a graph of three nodes then makes \<open>findRoute\<close> loop forever: the
  search ends, with the parent edges in a cycle off the goal, and following them never stops.\<close>

theorem negative_costs_hang:
  "fst (closedEdgesCb [] [] ex_penalties DynamicEdges_configure) = True \<and>
   findRoute (ex_env (default_plugins (snd (closedEdgesCb [] [] ex_penalties DynamicEdges_configure))))
     (configure 0 planner_new) (ex_graph True) 0 2 [] ex_req = None"
proof -
  obtain g1 P1 where g1: "findShortestGraphTraversal (ex_env (default_plugins priced))
      (configure 0 planner_new) (ex_graph True) 0 2 [] ex_req = (None, g1, P1)"
    and p: "length g1 = 3" "parent_of g1 2 = Some (ex_edge 4 1 2 2 True)"
      "parent_of g1 1 = Some (ex_edge 2 0 1 1 True)" "parent_of g1 0 = Some (ex_edge 3 1 0 1 True)"
    using ex_negative_search by blast
  have "findRoute (ex_env (default_plugins priced)) (configure 0 planner_new) (ex_graph True) 0 2 []
      ex_req = None"
    using g1 p(2) ex_negative_follow [OF p] by (simp add: findRoute_def ex_graph_def)
  then show ?thesis
    by (simp add: priced_def closedEdgesCb_def)
qed

end
