(* ===== verification/Route_Tracker_Props.thy ===== *)
theory Route_Tracker_Props
  imports Route_Tracker Route_Planner_Props
begin

text \<open>
  The tracker along a route: it never follows a null pointer or leaves the vector of edges, it reports the
  edges in order, it completes when the last node is achieved; and with the planner, it ends at the goal.
\<close>

section \<open>Progress\<close>

definition route_nodes :: "route \<Rightarrow> nat list" where
  "route_nodes route = start_node route # map e_end (edges route)"

lemma route_nodes_length [simp]: "length (route_nodes route) = Suc (length (edges route))"
  by (simp add: route_nodes_def)

lemma route_nodes_0 [simp]: "route_nodes route ! 0 = start_node route"
  by (simp add: route_nodes_def)

lemma route_nodes_Suc [simp]:
  "i < length (edges route) \<Longrightarrow> route_nodes route ! Suc i = e_end (edges route ! i)"
  by (simp add: route_nodes_def)

lemma route_nodes_last: "last (route_nodes route) = route_nodes route ! length (edges route)"
  using last_conv_nth [of "route_nodes route"] by (simp add: route_nodes_def)

text \<open>
  \<open>k\<close> nodes are achieved. Before the first, a rerouted robot is on the edge \<open>prev\<close> of the route before.
\<close>

definition edge_at :: "dir_edge option \<Rightarrow> route \<Rightarrow> nat \<Rightarrow> dir_edge option" where
  "edge_at prev route k = (if k = 0 then prev else Some (edges route ! (k - 1)))"

definition node_before :: "dir_edge option \<Rightarrow> route \<Rightarrow> nat \<Rightarrow> nat option" where
  "node_before prev route k =
     (if k = 0 then map_option e_start prev else Some (route_nodes route ! (k - 1)))"

definition progress :: "dir_edge option \<Rightarrow> route \<Rightarrow> tracking_state \<Rightarrow> nat \<Rightarrow> bool" where
  "progress prev route st k \<longleftrightarrow>
     k \<le> length (edges route) \<and> route_edges_idx st = int k - 1 \<and>
     next_node st = Some (route_nodes route ! k) \<and>
     current_edge st = edge_at prev route k \<and> last_node st = node_before prev route k"

lemma nodeAchieved_progress:
  assumes "progress prev route st k"
  shows "\<exists>b st'. nodeAchieved tr g p st route = Some (b, st') \<and> progress prev route st' k"
proof -
  have nx: "next_node st = Some (route_nodes route ! k)" and ix: "route_edges_idx st = int k - 1"
    and ce: "current_edge st = edge_at prev route k" and k: "k \<le> length (edges route)"
    using assms by (simp_all add: progress_def)
  have upd: "progress prev route (st\<lparr>within_radius := b\<rparr>) k" for b
    using assms by (simp add: progress_def)
  show ?thesis
  proof (cases "isStartOrEndNode st route")
    case True
    then show ?thesis
      using nx assms upd by (auto simp: nodeAchieved_def Let_def)
  next
    case False
    then have lt: "k < length (edges route)"
      using k ix by (simp add: isStartOrEndNode_def)
    have "edge_at prev route k \<noteq> None"
      using False ix ce by (cases "k = 0") (auto simp: isStartOrEndNode_def edge_at_def)
    then obtain e where "current_edge st = Some e"
      using ce by auto
    then show ?thesis
      using nx assms upd ix lt False by (auto simp: nodeAchieved_def Let_def)
  qed
qed

lemma advance_progress:
  assumes "progress prev route st k" "k < length (edges route)"
  shows "\<exists>st'. advance_state route st = (False, st') \<and> progress prev route st' (Suc k)"
  using assms
  by (auto simp: advance_state_def Let_def progress_def edge_at_def node_before_def)

lemma advance_complete:
  assumes "progress prev route st (length (edges route))"
  shows "\<exists>st'. advance_state route st = (True, st') \<and>
    last_node st' = Some (last (route_nodes route)) \<and>
    route_edges_idx st' = int (length (edges route))"
  using assms
  by (auto simp: advance_state_def Let_def progress_def route_nodes_last)

section \<open>What is reported\<close>

definition reported :: "graph \<Rightarrow> dir_edge option \<Rightarrow> route \<Rightarrow> nat \<Rightarrow> feedback \<Rightarrow> bool" where
  "reported g prev route k fb \<longleftrightarrow>
     \<not> fb_rerouted fb \<and> fb_next_node fb = nodeid (g ! (route_nodes route ! k)) \<and>
     (\<exists>e l. edge_at prev route k = Some e \<and> node_before prev route k = Some l \<and>
        fb_edge fb = edgeid e \<and> fb_last_node fb = nodeid (g ! l))"

text \<open>After \<open>k\<close> nodes: the feedback for each of the edges entered, in order, and for no other.\<close>

definition reports :: "graph \<Rightarrow> dir_edge option \<Rightarrow> route \<Rightarrow> nat \<Rightarrow> feedback list \<Rightarrow> bool" where
  "reports g prev route k fbs \<longleftrightarrow>
     fbs \<noteq> [] \<and>
     (\<exists>ks. list_all2 (reported g prev route) ks (tl fbs) \<and> sorted ks \<and> {1..k} \<subseteq> set ks \<and> set ks \<subseteq> {0..k})"

definition tracking_inv :: "graph \<Rightarrow> rerouting_state \<Rightarrow> route \<Rightarrow> nat \<Rightarrow> 'w tracking \<Rightarrow> bool" where
  "tracking_inv g rinfo route k run \<longleftrightarrow>
     progress (curr_edge rinfo) route (t_state run) k \<and> t_rerouting run = rinfo \<and>
     reports g (curr_edge rinfo) route k (t_feedback run)"

lemma tracking_inv_start:
  "tracking_inv g rinfo route 0 (track_start g route rinfo w)"
  by (auto simp: tracking_inv_def track_start_def Let_def progress_def RouteTrackingState_new_def
      edge_at_def node_before_def reports_def split: option.splits)

lemma reports_add:
  assumes "reports g prev route k fbs" "reported g prev route k' fb" "k \<le> k'" "k' \<le> Suc k"
  shows "reports g prev route k' (fbs @ [fb])"
proof -
  obtain ks where ks: "list_all2 (reported g prev route) ks (tl fbs)" "sorted ks"
    "{1..k} \<subseteq> set ks" "set ks \<subseteq> {0..k}" and ne: "fbs \<noteq> []"
    using assms(1) by (auto simp: reports_def)
  have "list_all2 (reported g prev route) (ks @ [k']) (tl (fbs @ [fb]))"
    using ks(1) ne assms(2) by (simp add: list_all2_appendI)
  moreover have "sorted (ks @ [k'])"
    using ks(2,4) assms(3) by (auto simp: sorted_append)
  moreover have "{1..k'} \<subseteq> set (ks @ [k'])" "set (ks @ [k']) \<subseteq> {0..k'}"
    using ks(3,4) assms(3,4) by (auto simp: subset_iff le_Suc_eq)
  ultimately show ?thesis
    using ne by (metis append_is_Nil_conv reports_def)
qed

text \<open>Publishing after an update that achieved a node or not.\<close>

lemma publish_progress_reports:
  assumes pr: "progress prev route st k'" and rp: "reports g prev route k fbs"
    and k: "k' = (if sc then Suc k else k)"
  shows "\<exists>fbs'. publish_progress g sc st ops fbs = Some fbs' \<and> reports g prev route k' fbs'"
proof (cases "(sc \<or> ops \<noteq> []) \<and> edge_at prev route k' \<noteq> None")
  case True
  then obtain e where e: "edge_at prev route k' = Some e" by auto
  then obtain l where l: "node_before prev route k' = Some l"
    by (auto simp: edge_at_def node_before_def split: if_splits)
  have "reports g prev route k' (fbs @ [fb])" if "reported g prev route k' fb" for fb
    using reports_add [OF rp that] k by simp
  then show ?thesis
    using True pr e l by (auto simp: publish_progress_def progress_def reported_def)
next
  case False
  then have "k' = k" "publish_progress g sc st ops fbs = Some fbs"
    using pr k by (auto simp: publish_progress_def progress_def edge_at_def split: if_splits)
  then show ?thesis
    using rp by simp
qed

section \<open>The loop\<close>

text \<open>
  What a reroute leaves for the next plan: the edge the robot is on, the last node achieved and the pose there, and the
  blocked ids the operations reported, after those of the request or in their place.
\<close>

definition reroute_info ::
  "'w tracker \<Rightarrow> graph \<Rightarrow> route \<Rightarrow> nat \<Rightarrow> rerouting_state \<Rightarrow> operations_result \<Rightarrow> pose \<Rightarrow> rerouting_state \<Rightarrow> bool" where
  "reroute_info tr g route k rinfo res p rinfo' \<longleftrightarrow>
     curr_edge rinfo' = edge_at (curr_edge rinfo) route k \<and>
     (rerouting_start_id rinfo', rerouting_start_pose rinfo') =
       (case node_before (curr_edge rinfo) route k of
          None \<Rightarrow> (unset_id, Pose_new) | Some l \<Rightarrow> (nodeid (g ! l), p)) \<and>
     blocked_ids rinfo' =
       (if aggregate_blocked_ids tr then blocked_ids rinfo @ res_blocked res else res_blocked res) \<and>
     first_time rinfo' = first_time rinfo \<and> closest_pt_on_edge rinfo' = closest_pt_on_edge rinfo"

text \<open>
  An interruption: a cancel or preempt request leaves what the request came with; otherwise the operations, run at this
  iteration, asked for a new route.
\<close>

definition interruption ::
  "'w tracker \<Rightarrow> graph \<Rightarrow> route \<Rightarrow> nat \<Rightarrow> rerouting_state \<Rightarrow> tick \<Rightarrow> 'w tracking \<Rightarrow> bool" where
  "interruption tr g route k rinfo tk run \<longleftrightarrow>
     (if cancel_requested tk \<or> preempt_requested tk then t_rerouting run = rinfo
      else \<exists>p b w res. robot_pose tk = Some p \<and>
        operations_process (operations_manager tr) g b (t_state run) route p (curr_edge rinfo) w =
          Some (Inr res, t_world run) \<and>
        reroute res \<and> reroute_info tr g route k rinfo res p (t_rerouting run))"

text \<open>How tracking ends at an iteration, or that it goes on.\<close>

definition tracking_tick :: "tick \<Rightarrow> bool" where
  "tracking_tick tk \<longleftrightarrow>
     ok tk \<and> \<not> cancel_requested tk \<and> \<not> preempt_requested tk \<and> robot_pose tk \<noteq> None"

fun track_outcome ::
  "'w tracker \<Rightarrow> graph \<Rightarrow> rerouting_state \<Rightarrow> route \<Rightarrow> tick \<Rightarrow> track_status \<Rightarrow> 'w tracking \<Rightarrow> bool" where
  "track_outcome tr g rinfo route tk Tracking run \<longleftrightarrow>
     tracking_tick tk \<and> (\<exists>k. tracking_inv g rinfo route k run)"
| "track_outcome tr g rinfo route tk (Finished EXITED) run \<longleftrightarrow>
     \<not> ok tk \<and> (\<exists>k. tracking_inv g rinfo route k run)"
| "track_outcome tr g rinfo route tk (Finished COMPLETED) run \<longleftrightarrow>
     tracking_tick tk \<and>
     (\<exists>fbs fb. t_feedback run = fbs @ [fb] \<and>
        reports g (curr_edge rinfo) route (length (edges route)) fbs \<and>
        fb_last_node fb = nodeid (g ! last (route_nodes route)))"
| "track_outcome tr g rinfo route tk (Finished INTERRUPTED) run \<longleftrightarrow>
     ok tk \<and>
     (\<exists>k\<le>length (edges route). reports g (curr_edge rinfo) route k (t_feedback run) \<and>
        interruption tr g route k rinfo tk run)"
| "track_outcome tr g rinfo route tk (Threw x) run \<longleftrightarrow>
     ok tk \<and> \<not> cancel_requested tk \<and> \<not> preempt_requested tk \<and> t_rerouting run = rinfo"

text \<open>The outcome of some ticks: tracking goes on after all of them, or it ends at the first that ends it.\<close>

definition tracked ::
  "'w tracker \<Rightarrow> graph \<Rightarrow> rerouting_state \<Rightarrow> route \<Rightarrow> tick list \<Rightarrow> track_status \<Rightarrow> 'w tracking \<Rightarrow> bool" where
  "tracked tr g rinfo route tks s run \<longleftrightarrow>
     (if s = Tracking then list_all tracking_tick tks \<and> (\<exists>k. tracking_inv g rinfo route k run)
      else \<exists>pre tk post. tks = pre @ tk # post \<and> list_all tracking_tick pre \<and>
        track_outcome tr g rinfo route tk s run)"

lemma update_rerouting_info:
  assumes "progress (curr_edge rinfo) route st k"
  shows "reroute_info tr g route k rinfo res p (update_rerouting tr g st res p rinfo)"
  using assms
  by (auto simp: reroute_info_def update_rerouting_def Let_def progress_def split: option.splits)

lemma finish_update_outcome:
  assumes pr: "progress (curr_edge rinfo) route (t_state run) k'" and k: "k' = (if sc then Suc k else k)"
    and rp: "reports g (curr_edge rinfo) route k (t_feedback run)" and ri: "t_rerouting run = rinfo"
    and tk: "tracking_tick tk" "robot_pose tk = Some p"
    and op: "operations_process (operations_manager tr) g sc (t_state run) route p (curr_edge rinfo) w =
      Some (Inr res, t_world run)"
  shows "\<exists>s run'. finish_update tr g sc False p res run = Some (s, run') \<and>
    track_outcome tr g rinfo route tk s run'"
proof -
  obtain fbs where fbs: "publish_progress g sc (t_state run) (operations_triggered res)
      (t_feedback run) = Some fbs" "reports g (curr_edge rinfo) route k' fbs"
    using publish_progress_reports [OF pr rp k] by blast
  show ?thesis
  proof (cases "reroute res")
    case True
    define run' where "run' = run\<lparr>t_feedback := fbs,
      t_rerouting := update_rerouting tr g (t_state run) res p rinfo\<rparr>"
    have "interruption tr g route k' rinfo tk run'"
      using tk op True update_rerouting_info [OF pr, of tr g res p]
      by (auto simp: interruption_def tracking_tick_def run'_def)
    then have "track_outcome tr g rinfo route tk (Finished INTERRUPTED) run'"
      using tk(1) fbs(2) pr by (auto simp: tracking_tick_def progress_def run'_def)
    then show ?thesis
      using True fbs(1) ri by (auto simp: finish_update_def Let_def run'_def)
  next
    case False
    have "tracking_inv g rinfo route k' (run\<lparr>t_feedback := fbs\<rparr>)"
      using pr fbs(2) ri by (simp add: tracking_inv_def)
    then show ?thesis
      using False fbs(1) tk(1) by (auto simp: finish_update_def Let_def)
  qed
qed

lemma track_step_outcome:
  assumes inv: "tracking_inv g rinfo route k run"
  shows "\<exists>s run'. track_step tr g route tk run = Some (s, run') \<and> track_outcome tr g rinfo route tk s run'"
proof -
  have pr: "progress (curr_edge rinfo) route (t_state run) k" and ri: "t_rerouting run = rinfo"
    and rp: "reports g (curr_edge rinfo) route k (t_feedback run)"
    using inv by (simp_all add: tracking_inv_def)
  show ?thesis
  proof (cases "\<not> ok tk \<or> cancel_requested tk \<or> preempt_requested tk \<or> robot_pose tk = None")
    case True
    then show ?thesis
      using inv pr ri rp
      by (cases "\<not> ok tk"; cases "cancel_requested tk \<or> preempt_requested tk")
        (auto simp: track_step_def progress_def interruption_def)
  next
    case False
    then obtain p where go: "ok tk" "\<not> (cancel_requested tk \<or> preempt_requested tk)"
      "robot_pose tk = Some p" by auto
    then have tick: "tracking_tick tk"
      by (simp add: tracking_tick_def)
    obtain b st1 where na: "nodeAchieved tr g p (t_state run) route = Some (b, st1)"
      and pr1: "progress (curr_edge rinfo) route st1 k"
      using nodeAchieved_progress [OF pr] by blast
    define c st2 where "c = fst (if b then advance_state route st1 else (False, st1))"
      and "st2 = snd (if b then advance_state route st1 else (False, st1))"
    have adv: "(if b then advance_state route st1 else (False, st1)) = (c, st2)"
      by (simp add: c_def st2_def)
    have k: "k \<le> length (edges route)"
      using pr by (simp add: progress_def)
    have fin: "last_node st2 = Some (last (route_nodes route)) \<and> k = length (edges route) \<and>
        route_edges_idx st2 = int (length (edges route))" if c
      using that adv advance_complete [of "curr_edge rinfo" route st1] advance_progress [OF pr1] pr1 k
      by (cases "k < length (edges route)") (auto split: if_splits)
    have on: "progress (curr_edge rinfo) route st2 (if b then Suc k else k)" if "\<not> c"
      using that adv advance_complete [of "curr_edge rinfo" route st1] advance_progress [OF pr1] pr1 k
      by (cases "k < length (edges route)") (auto split: if_splits)
    have "route_edges_idx st2 \<le> int (length (edges route))"
      using fin on by (cases c) (auto simp: progress_def)
    then obtain r w where op: "operations_process (operations_manager tr) g b st2 route p
        (curr_edge rinfo) (t_world run) = Some (r, w)"
      using operations_process_total [of st2 route] by (metis not_Some_eq surj_pair)
    show ?thesis
    proof (cases r)
      case (Inl x)
      then show ?thesis
        using go na adv op ri by (simp add: track_step_def)
    next
      case (Inr res)
      have step: "track_step tr g route tk run =
          finish_update tr g b c p res (run\<lparr>t_state := st2, t_world := w\<rparr>)"
        using go na adv op ri Inr by (simp add: track_step_def)
      show ?thesis
      proof (cases c)
        case True
        then show ?thesis
          using step fin rp tick by (auto simp: finish_update_def)
      next
        case False
        then show ?thesis
          using step finish_update_outcome [of rinfo route "run\<lparr>t_state := st2, t_world := w\<rparr>"
              "if b then Suc k else k" b k g tk p tr "t_world run" res] on rp ri tick go(3) op Inr by simp
      qed
    qed
  qed
qed

lemma tracked_first:
  "s \<noteq> Tracking \<Longrightarrow> track_outcome tr g rinfo route tk s run \<Longrightarrow> tracked tr g rinfo route (tk # tks) s run"
  unfolding tracked_def by (metis append_Nil list.pred_inject(1))

lemma tracked_later:
  "tracking_tick tk \<Longrightarrow> tracked tr g rinfo route tks s run \<Longrightarrow> tracked tr g rinfo route (tk # tks) s run"
  unfolding tracked_def by (metis append_Cons list.pred_inject(2))

lemma track_loop_outcome:
  assumes "tracking_inv g rinfo route k run"
  shows "\<exists>s run'. track_loop tr g route tks run = Some (s, run') \<and> tracked tr g rinfo route tks s run'"
  using assms
proof (induction tks arbitrary: k run)
  case Nil
  then show ?case by (auto simp: tracked_def)
next
  case (Cons tk tks)
  obtain s run1 where st: "track_step tr g route tk run = Some (s, run1)"
    and out: "track_outcome tr g rinfo route tk s run1"
    using track_step_outcome [OF Cons.prems] by blast
  show ?case
  proof (cases "s = Tracking")
    case True
    then obtain k1 where "tracking_inv g rinfo route k1 run1" "tracking_tick tk"
      using out by auto
    then show ?thesis
      using Cons.IH [of k1 run1] tracked_later st True by fastforce
  next
    case False
    then show ?thesis
      using tracked_first [OF False out] st by (cases s) auto
  qed
qed

section \<open>Operations that neither fail nor ask for a new route\<close>

definition calm :: "'w route_operation \<Rightarrow> bool" where
  "calm pl \<longleftrightarrow>
     (\<forall>nd ent ext route p md w. \<exists>r w'. perform pl nd ent ext route p md w = (Inr r, w') \<and> \<not> reroute r)"

definition calm_manager :: "'w operations_manager \<Rightarrow> bool" where
  "calm_manager om \<longleftrightarrow>
     (\<forall>pl\<in>set (change_operations om) \<union> set (query_operations om). calm pl) \<and>
     (\<forall>ty. \<exists>pl. graph_operations om ty = Some pl \<and> calm pl)"

lemma calm_plugins:
  assumes "\<forall>pl\<in>set ps. calm pl" "\<not> reroute R"
  shows "\<exists>r w'. processOperationsPluginVector ps R nd ent ext route p w = (Inr r, w') \<and> \<not> reroute r"
  using assms
proof (induction ps arbitrary: R w)
  case (Cons pl ps)
  obtain r w' where r: "perform pl nd ent ext route p None w = (Inr r, w')" "\<not> reroute r"
    using Cons.prems(1) by (metis calm_def list.set_intros(1))
  then show ?case
    using Cons.IH [of "updateResult (op_name pl) r R" w'] Cons.prems by simp
qed simp

lemma calm_graph_operations:
  assumes "\<forall>ty. \<exists>pl. gops ty = Some pl \<and> calm pl" "\<not> reroute R"
  shows "\<exists>r w'. processGraphOperations gops nd ent ext route p ops R w = (Inr r, w') \<and> \<not> reroute r"
  using assms(2)
proof (induction ops arbitrary: R w)
  case (Cons op ops)
  obtain pl where pl: "gops (op_type op) = Some pl" "calm pl"
    using assms(1) by blast
  then obtain r w' where r: "perform pl nd ent ext route p (Some (op_metadata op)) w = (Inr r, w')"
    "\<not> reroute r"
    by (metis calm_def)
  then show ?case
    using pl Cons.IH [of "updateResult (op_name pl) r R" w'] Cons.prems by simp
qed simp

lemma calm_process:
  assumes "calm_manager om" "route_edges_idx st \<le> int (length (edges route))"
  shows "\<exists>r w'. operations_process om g sc st route p prev w = Some (Inr r, w') \<and> \<not> reroute r"
proof -
  obtain ext where ext: "exited_edge st route prev = Some ext"
    using exited_edge_in [OF assms(2)] by blast
  have new: "\<not> reroute OperationsResult_new"
    by (simp add: OperationsResult_new_def)
  have q: "\<exists>r' w''. processOperationsPluginVector (query_operations om) r (last_node st) (current_edge st)
      ext route p w' = (Inr r', w'') \<and> \<not> reroute r'" if "\<not> reroute r" for r w'
    using calm_plugins that assms(1) by (metis Un_iff calm_manager_def)
  show ?thesis
  proof (cases sc)
    case True
    obtain r w' where r: "processGraphOperations (graph_operations om) (last_node st) (current_edge st)
        ext route p (findGraphOperations g (last_node st) (current_edge st) ext) OperationsResult_new w
        = (Inr r, w')" "\<not> reroute r"
      using calm_graph_operations [OF _ new] assms(1) by (metis calm_manager_def)
    obtain r2 w2 where r2: "processOperationsPluginVector (change_operations om) r (last_node st)
        (current_edge st) ext route p w' = (Inr r2, w2)" "\<not> reroute r2"
      using calm_plugins r(2) assms(1) by (metis Un_iff calm_manager_def)
    show ?thesis
      using q [OF r2(2), of w2] ext r(1) r2(1) True by (auto simp: operations_process_def Let_def)
  next
    case False
    then show ?thesis
      using q [OF new, of w] ext by (auto simp: operations_process_def Let_def)
  qed
qed

text \<open>A robot that is seen at every node in turn.\<close>

definition seen_at :: "graph \<Rightarrow> nat \<Rightarrow> tick" where
  "seen_at g n = \<lparr>ok = True, cancel_requested = False, preempt_requested = False,
     robot_pose = Some \<lparr>p_x = co_x (coords (g ! n)), p_y = co_y (coords (g ! n))\<rparr>\<rparr>"

lemma seen_step:
  assumes calm: "calm_manager (operations_manager tr)" and inv: "tracking_inv g rinfo route k run"
  shows "\<exists>run'. track_step tr g route (seen_at g (route_nodes route ! k)) run =
      Some (if k = length (edges route) then Finished COMPLETED else Tracking, run') \<and>
    (k < length (edges route) \<longrightarrow> tracking_inv g rinfo route (Suc k) run')"
proof -
  have pr: "progress (curr_edge rinfo) route (t_state run) k" and ri: "t_rerouting run = rinfo"
    and rp: "reports g (curr_edge rinfo) route k (t_feedback run)"
    using inv by (simp_all add: tracking_inv_def)
  let ?p = "\<lparr>p_x = co_x (coords (g ! (route_nodes route ! k))), p_y = co_y (coords (g ! (route_nodes route ! k)))\<rparr>"
  have k: "k \<le> length (edges route)"
    using pr by (simp add: progress_def)
  have na: "nodeAchieved tr g ?p (t_state run) route = Some (True, t_state run)"
    using pr by (simp add: nodeAchieved_def Let_def progress_def vlen_def)
  show ?thesis
  proof (cases "k = length (edges route)")
    case True
    obtain st2 where st2: "advance_state route (t_state run) = (True, st2)"
      "last_node st2 = Some (last (route_nodes route))" "route_edges_idx st2 = int (length (edges route))"
      using advance_complete pr True by blast
    then obtain r w where op: "operations_process (operations_manager tr) g True st2 route ?p
        (curr_edge rinfo) (t_world run) = Some (Inr r, w)"
      using calm_process [OF calm, of st2 route] by force
    show ?thesis
      using na st2 op ri True by (simp add: track_step_def seen_at_def finish_update_def)
  next
    case False
    then obtain st2 where st2: "advance_state route (t_state run) = (False, st2)"
      "progress (curr_edge rinfo) route st2 (Suc k)"
      using advance_progress [OF pr] k by auto
    then obtain r w where op: "operations_process (operations_manager tr) g True st2 route ?p
        (curr_edge rinfo) (t_world run) = Some (Inr r, w)" "\<not> reroute r"
      using calm_process [OF calm, of st2 route] by (force simp: progress_def)
    obtain fbs where fbs: "publish_progress g True st2 (operations_triggered r) (t_feedback run) = Some fbs"
      "reports g (curr_edge rinfo) route (Suc k) fbs"
      using publish_progress_reports [OF st2(2) rp, of True "operations_triggered r"] by auto
    show ?thesis
      using na st2 op ri False fbs
      by (simp add: track_step_def seen_at_def finish_update_def Let_def tracking_inv_def)
  qed
qed

lemma seen_loop:
  assumes calm: "calm_manager (operations_manager tr)" and inv: "tracking_inv g rinfo route k run"
  shows "\<exists>run'. track_loop tr g route (map (seen_at g) (drop k (route_nodes route)) @ rest) run =
    Some (Finished COMPLETED, run')"
  using inv
proof (induction "length (edges route) - k" arbitrary: k run)
  case 0
  then have k: "k = length (edges route)"
    by (simp add: tracking_inv_def progress_def)
  then have "drop k (route_nodes route) = [route_nodes route ! k]"
    using Cons_nth_drop_Suc [of k "route_nodes route"] by simp
  then show ?case
    using seen_step [OF calm 0(2)] k by auto
next
  case (Suc n)
  then have k: "k < length (edges route)" by simp
  then have dr: "drop k (route_nodes route) = route_nodes route ! k # drop (Suc k) (route_nodes route)"
    using Cons_nth_drop_Suc [of k "route_nodes route"] by simp
  obtain run1 where st: "track_step tr g route (seen_at g (route_nodes route ! k)) run = Some (Tracking, run1)"
    "tracking_inv g rinfo route (Suc k) run1"
    using seen_step [OF calm Suc(3)] k by auto
  have "n = length (edges route) - Suc k"
    using Suc(2) by simp
  then show ?case
    using Suc(1) [OF _ st(2)] st(1) dr by simp
qed

section \<open>Properties\<close>

text \<open>C7. Tracking any route, whatever the poses, the requests and the operations, never follows a null pointer
  and never leaves the edges of the route; the edges entered are reported in order and no others. It goes on until the
  first iteration that ends it. COMPLETED comes with the last node of the route and all edges reported. INTERRUPTED
  comes of a cancel or preempt request, which leaves the rerouting state of the request as it was, or of the operations
  run at that iteration, which leave in it the last node achieved and the pose there, the edge the robot is on, and
  the blocked ids they reported, appended or in place of those of the request as configured.\<close>

theorem trackRoute_safe:
  "\<exists>s run. trackRoute tr g route rinfo tks w = Some (s, run) \<and> tracked tr g rinfo route tks s run"
  unfolding trackRoute_def by (rule track_loop_outcome [OF tracking_inv_start])

text \<open>When the operations neither fail nor ask for a new route and the robot is seen at every node of the
  route in turn, the tracker completes, whatever its radii.\<close>

theorem trackRoute_completes:
  assumes "calm_manager (operations_manager tr)"
  shows "\<exists>run. trackRoute tr g route rinfo (map (seen_at g) (route_nodes route) @ rest) w =
    Some (Finished COMPLETED, run)"
  using seen_loop [OF assms tracking_inv_start, of g route rest rinfo w] by (simp add: trackRoute_def)

definition ex_noop :: "unit route_operation" where
  "ex_noop = \<lparr>op_name = ''noop'', perform = \<lambda>_ _ _ _ _ _ w. (Inr OperationResult_new, w)\<rparr>"

definition ex_tracker :: "unit tracker" where
  "ex_tracker = \<lparr>radius_threshold = 2, boundary_radius_threshold = 1, aggregate_blocked_ids = False,
     operations_manager = \<lparr>change_operations = [ex_noop], query_operations = [],
       graph_operations = \<lambda>_. Some ex_noop\<rparr>\<rparr>"

lemma ex_calm: "calm_manager (operations_manager ex_tracker)"
  by (simp add: calm_manager_def calm_def ex_tracker_def ex_noop_def OperationResult_new_def)

definition ex_track_route :: route where
  "ex_track_route = \<lparr>start_node = 0, edges = [ex_edge 2 0 1 1 False, ex_edge 4 1 2 2 False],
     route_cost = 3\<rparr>"

theorem trackRoute_completes_witness:
  "\<exists>run. trackRoute ex_tracker (ex_graph False) ex_track_route ReroutingState_reset
      (map (seen_at (ex_graph False)) (route_nodes ex_track_route) @ []) () = Some (Finished COMPLETED, run)"
  by (rule trackRoute_completes [OF ex_calm])

text \<open>The tracker on what the planner returned: it completes at the goal, over edges that are not blocked.\<close>

lemma route_path_last:
  "route_path g W u es v \<Longrightarrow> last (u # map e_end es) = v"
  by (induction es arbitrary: u) auto

lemma reports_edges:
  assumes "reports g None route k fbs" "k \<le> length (edges route)" "fb \<in> set (tl fbs)"
  shows "\<exists>e\<in>set (edges route). fb_edge fb = edgeid e"
proof -
  obtain ks where ks: "list_all2 (reported g None route) ks (tl fbs)" "set ks \<subseteq> {0..k}"
    using assms(1) by (auto simp: reports_def)
  then obtain k' where "k' \<in> set ks" "reported g None route k' fb"
    using assms(3) by (metis in_set_conv_nth list_all2_conv_all_nth)
  then show ?thesis
    using ks(2) assms(2) by (force simp: reported_def edge_at_def split: if_splits)
qed

definition reported_edges :: "track_status \<Rightarrow> feedback list \<Rightarrow> u32 set" where
  "reported_edges s fbs =
     fb_edge ` set (tl (if s = Finished COMPLETED then butlast fbs else fbs))"

lemma outcome_reported_edges:
  assumes "tracked tr g rinfo route tks s run" "curr_edge rinfo = None" "\<not> (\<exists>x. s = Threw x)"
  shows "reported_edges s (t_feedback run) \<subseteq> edgeid ` set (edges route)"
proof (rule subsetI)
  fix i
  assume i: "i \<in> reported_edges s (t_feedback run)"
  obtain k fbs where "reports g None route k fbs" "k \<le> length (edges route)"
    "fbs = (if s = Finished COMPLETED then butlast (t_feedback run) else t_feedback run)"
    using assms
    by (cases s; cases "case s of Finished r \<Rightarrow> r | _ \<Rightarrow> EXITED")
      (auto simp: tracking_inv_def progress_def tracked_def)
  then show "i \<in> edgeid ` set (edges route)"
    using i reports_edges by (fastforce simp: reported_edges_def)
qed

lemma optimal_route_last:
  assumes "optimal_route rnd W g s goal r"
  shows "last (route_nodes r) = goal"
proof -
  have "route_path g W (start_node r) (edges r) goal"
    using assms by (simp add: optimal_route_def)
  then show ?thesis
    using route_path_last unfolding route_nodes_def by blast
qed

text \<open>The tracker on a route of the planner: it completes at the goal node, and the edges it reports are
  edges that are not in the list of blocked ids the route was planned with.\<close>

theorem plan_then_track:
  assumes "planning_ok env (prepared P g start goal) g blocked req" "queue P = []"
    and "findRoute env P g start goal blocked req = Some (Inr r, g', P')"
    and "trackRoute tr g' r ReroutingState_reset tks w = Some (s, run)"
    and "\<not> (\<exists>x. s = Threw x)"
  shows "(s = Finished COMPLETED \<longrightarrow> fb_last_node (last (t_feedback run)) = nodeid (g ! goal)) \<and>
    reported_edges s (t_feedback run) \<inter> set blocked = {}"
proof -
  let ?W = "edge_weight env (prepared P g start goal) g blocked req"
  have idx: "start < length g" "goal < length g"
    using assms(3) by (auto simp: findRoute_def split: if_splits)
  have opt: "optimal_route (rounding env) ?W g start goal r" "same_graph g g'"
    using findRoute_cases [OF assms(1,2) idx refl refl] assms(3) by auto
  have out: "tracked tr g' ReroutingState_reset r tks s run"
    using track_loop_outcome [OF tracking_inv_start] assms(4)
    by (metis option.inject prod.inject trackRoute_def)
  have "route_path g ?W start (edges r) goal"
    using opt(1) by (simp add: optimal_route_def)
  then have "edgeid ` set (edges r) \<inter> set blocked = {}"
    using route_path_usable by blast
  then have "reported_edges s (t_feedback run) \<inter> set blocked = {}"
    using outcome_reported_edges [OF out _ assms(5)] by (auto simp: ReroutingState_reset_def)
  moreover have "nodeid (g' ! goal) = nodeid (g ! goal)"
    using same_graph_fields(1) [OF opt(2) idx(2)] .
  then have "fb_last_node (last (t_feedback run)) = nodeid (g ! goal)" if "s = Finished COMPLETED"
    using out that optimal_route_last [OF opt(1)] by (auto simp: tracked_def)
  ultimately show ?thesis by blast
qed

theorem plan_then_track_witness:
  "\<exists>g' P' r run. findRoute (ex_env []) (configure 100 planner_new) (ex_graph False) 0 2 [] ex_req =
      Some (Inr r, g', P') \<and>
    trackRoute ex_tracker g' r ReroutingState_reset (map (seen_at g') (route_nodes r) @ []) () =
      Some (Finished COMPLETED, run) \<and>
    fb_last_node (last (t_feedback run)) = 12"
proof -
  obtain g' P' r where fr: "findRoute (ex_env []) (configure 100 planner_new) (ex_graph False) 0 2 []
      ex_req = Some (Inr r, g', P')"
    using ex_route by blast
  obtain run where tk: "trackRoute ex_tracker g' r ReroutingState_reset
      (map (seen_at g') (route_nodes r) @ []) () = Some (Finished COMPLETED, run)"
    using seen_loop [OF ex_calm tracking_inv_start, of g' r "[]" ReroutingState_reset "()"]
    by (auto simp: trackRoute_def)
  have "queue (configure 100 planner_new) = []"
    by (simp add: configure_def planner_new_def Let_def)
  from plan_then_track [OF ex_planning this fr tk]
  have "fb_last_node (last (t_feedback run)) = nodeid (ex_graph False ! 2)" by simp
  then show ?thesis
    using fr tk by (auto simp: ex_graph_def ex_node_def)
qed

end
