(* ===== verification/Route_Loader.thy ===== *)
theory Route_Loader
  imports Route_Planner_Props
begin

text \<open>
  The loader of route graphs (\<open>geojson_graph_file_loader.cpp\<close>, \<open>graph_loader.cpp\<close>). Reading the file and
  parsing JSON belong to libraries: the input is the list of nodes and edges of the file with the values their
  required fields convert to, and the metadata as JSON values, whose numbers the JSON library tells apart.
\<close>

section \<open>JSON values and metadata\<close>

datatype json =
    J_unsigned nat | J_integer int | J_float real | J_bool bool | J_string string | J_null
  | J_array "json list" | J_object "(string \<times> json) list"

text \<open>\<open>Other\<close> errors of the library: the metadata have a value that is not converted.\<close>

datatype load_error = No_valid_graph | Failed_to_convert

fun setPrimitiveType :: "json \<Rightarrow> load_error + any_value" where
  "setPrimitiveType (J_unsigned n) = Inr (Any_uint (of_nat n))"
| "setPrimitiveType (J_integer i) = Inr (Any_int (of_int i))"
| "setPrimitiveType (J_float r) = Inr (Any_float r)"
| "setPrimitiveType (J_bool b) = Inr (Any_bool b)"
| "setPrimitiveType (J_string s) = Inr (Any_string s)"
| "setPrimitiveType _ = Inl Failed_to_convert"

fun convert_array :: "json list \<Rightarrow> load_error + any_value list" where
  "convert_array [] = Inr []"
| "convert_array (el # els) =
     (case setPrimitiveType el of
        Inl x \<Rightarrow> Inl x
      | Inr v \<Rightarrow> (case convert_array els of Inl x \<Rightarrow> Inl x | Inr vs \<Rightarrow> Inr (v # vs)))"

fun convert_value :: "json \<Rightarrow> load_error + any_value"
  and convert_items :: "(string \<times> json) list \<Rightarrow> metadata \<Rightarrow> load_error + metadata" where
  "convert_value (J_object items) =
     (case convert_items items [] of Inl x \<Rightarrow> Inl x | Inr mdata \<Rightarrow> Inr (Any_metadata mdata))"
| "convert_value (J_array els) =
     (case convert_array els of Inl x \<Rightarrow> Inl x | Inr vs \<Rightarrow> Inr (Any_array vs))"
| "convert_value j = setPrimitiveType j"
| "convert_items [] mdata = Inr mdata"
| "convert_items ((k, j) # items) mdata =
     (case convert_value j of
        Inl x \<Rightarrow> Inl x
      | Inr v \<Rightarrow> convert_items items (setValue mdata k v))"

text \<open>The metadata of a feature, absent or an object.\<close>

definition convertMetaDataFromJson :: "(string \<times> json) list option \<Rightarrow> load_error + metadata" where
  "convertMetaDataFromJson properties =
     (case properties of None \<Rightarrow> Inr [] | Some items \<Rightarrow> convert_items items [])"

section \<open>Features\<close>

record json_operation =
  jo_type :: string
  jo_trigger :: operation_trigger
  jo_metadata :: "(string \<times> json) list option"

record node_feature =
  nf_id :: u32
  nf_frame :: "string option"
  nf_x :: real
  nf_y :: real
  nf_operations :: "json_operation list option"
  nf_metadata :: "(string \<times> json) list option"

record edge_feature =
  ef_id :: u32
  ef_startid :: u32
  ef_endid :: u32
  ef_cost :: "real option"
  ef_overridable :: "bool option"
  ef_operations :: "json_operation list option"
  ef_metadata :: "(string \<times> json) list option"

definition convertOperationFromJson :: "json_operation \<Rightarrow> load_error + operation" where
  "convertOperationFromJson j =
     (case convertMetaDataFromJson (jo_metadata j) of
        Inl x \<Rightarrow> Inl x
      | Inr mdata \<Rightarrow>
          Inr \<lparr>op_type = jo_type j, op_trigger = jo_trigger j, op_metadata = mdata\<rparr>)"

fun convert_operations :: "json_operation list \<Rightarrow> load_error + operation list" where
  "convert_operations [] = Inr []"
| "convert_operations (j # js) =
     (case convertOperationFromJson j of
        Inl x \<Rightarrow> Inl x
      | Inr op \<Rightarrow> (case convert_operations js of Inl x \<Rightarrow> Inl x | Inr ops \<Rightarrow> Inr (op # ops)))"

definition convertOperationsFromJson :: "json_operation list option \<Rightarrow> load_error + operation list" where
  "convertOperationsFromJson js = (case js of None \<Rightarrow> Inr [] | Some js \<Rightarrow> convert_operations js)"

definition convertCoordinatesFromJson :: "node_feature \<Rightarrow> coordinates" where
  "convertCoordinatesFromJson f =
     \<lparr>frame_id = (case nf_frame f of None \<Rightarrow> ''map'' | Some fr \<Rightarrow> fr), co_x = nf_x f, co_y = nf_y f\<rparr>"

definition convertEdgeCostFromJson :: "edge_feature \<Rightarrow> edge_cost" where
  "convertEdgeCostFromJson f =
     \<lparr>ec_cost = (case ef_cost f of None \<Rightarrow> 0 | Some c \<Rightarrow> c),
      overridable = (case ef_overridable f of None \<Rightarrow> True | Some b \<Rightarrow> b)\<rparr>"

section \<open>The graph\<close>

type_synonym graph_to_id_map = "u32 \<rightharpoonup> nat"

text \<open>A node as \<open>resize\<close> makes it; its id is not initialised.\<close>

definition Node_new :: "u32 \<Rightarrow> node" where
  "Node_new i = \<lparr>nodeid = i, coords = \<lparr>frame_id = ''map'', co_x = 0, co_y = 0\<rparr>, neighbors = [],
     n_metadata = [], n_operations = [], search_state = SearchState_reset\<rparr>"

fun addNodesToGraph ::
  "nat \<Rightarrow> node_feature list \<Rightarrow> graph \<Rightarrow> graph_to_id_map \<Rightarrow> load_error + graph \<times> graph_to_id_map" where
  "addNodesToGraph idx [] g ids = Inr (g, ids)"
| "addNodesToGraph idx (f # fs) g ids =
     (case convertOperationsFromJson (nf_operations f) of
        Inl x \<Rightarrow> Inl x
      | Inr ops \<Rightarrow>
          (case convertMetaDataFromJson (nf_metadata f) of
             Inl x \<Rightarrow> Inl x
           | Inr mdata \<Rightarrow>
               addNodesToGraph (idx + 1) fs
                 (g[idx := (g ! idx)\<lparr>nodeid := nf_id f, coords := convertCoordinatesFromJson f,
                    n_metadata := mdata, n_operations := ops\<rparr>])
                 (ids(nf_id f \<mapsto> idx))))"

text \<open>
  \<open>None\<close> is an index outside the graph: the map is only searched for the ids, and what it holds for them is not checked.
\<close>

fun addEdgesToGraph ::
  "edge_feature list \<Rightarrow> graph_to_id_map \<Rightarrow> graph \<Rightarrow> (load_error + graph) option" where
  "addEdgesToGraph [] ids g = Some (Inr g)"
| "addEdgesToGraph (f # fs) ids g =
     (case (ids (ef_startid f), ids (ef_endid f)) of
        (Some s, Some t) \<Rightarrow>
          (case convertOperationsFromJson (ef_operations f) of
             Inl x \<Rightarrow> Some (Inl x)
           | Inr ops \<Rightarrow>
               (case convertMetaDataFromJson (ef_metadata f) of
                  Inl x \<Rightarrow> Some (Inl x)
                | Inr mdata \<Rightarrow>
                    if s < length g \<and> t < length g
                    then addEdgesToGraph fs ids
                      (addEdge g s (convertEdgeCostFromJson f) t (ef_id f) mdata ops)
                    else None))
      | _ \<Rightarrow> Some (Inl No_valid_graph))"

text \<open>
  Into the graph and the map of the caller, from a file that could be read and parsed. The result is the
  exception, or the return value with the graph and the map; \<open>junk\<close> is what uninitialised ids hold. What
  an exception leaves half filled is not modelled.
\<close>

definition resize_graph :: "u32 \<Rightarrow> nat \<Rightarrow> graph \<Rightarrow> graph" where
  "resize_graph junk n g = take n g @ replicate (n - length g) (Node_new junk)"

definition loadGraphFromFile ::
  "u32 \<Rightarrow> node_feature list \<Rightarrow> edge_feature list \<Rightarrow> graph \<times> graph_to_id_map \<Rightarrow>
   (load_error + (graph \<times> graph_to_id_map) option) option" where
  "loadGraphFromFile junk node_fs edge_fs st =
     (if node_fs = [] \<or> edge_fs = [] then Some (Inr None)
      else
        (case addNodesToGraph 0 node_fs (resize_graph junk (length node_fs) (fst st)) (snd st) of
           Inl x \<Rightarrow> Some (Inl x)
         | Inr (g, ids) \<Rightarrow>
             map_option (map_sum id (\<lambda>g'. Some (g', ids))) (addEdgesToGraph edge_fs ids g)))"

text \<open>
  What the server does to its graph and its map before a load: \<open>on_cleanup\<close>, after which it may be configured again,
  clears the graph only; \<open>setRouteGraph\<close> clears both.
\<close>

definition on_cleanup_graph :: "graph \<times> graph_to_id_map \<Rightarrow> graph \<times> graph_to_id_map" where
  "on_cleanup_graph st = ([], snd st)"

definition setRouteGraph_clear :: "graph \<times> graph_to_id_map \<Rightarrow> graph \<times> graph_to_id_map" where
  "setRouteGraph_clear st = ([], Map.empty)"

text \<open>
  \<open>transformGraph\<close>: the transforms into the frame of the route, \<open>None\<close> when there is none. The result is
  whether it succeeded and the graph, which is changed up to the failing node. The cache of transforms is
  left out: it answers as the argument does.
\<close>

fun transformGraph ::
  "(string \<Rightarrow> (real \<times> real \<Rightarrow> real \<times> real) option) \<Rightarrow> string \<Rightarrow> graph \<Rightarrow> bool \<times> graph" where
  "transformGraph tf route_frame [] = (True, [])"
| "transformGraph tf route_frame (nd # g) =
     (let fr = frame_id (coords nd)
      in if fr = [] \<or> fr = route_frame
         then (let (b, g') = transformGraph tf route_frame g in (b, nd # g'))
         else
           (case tf fr of
              None \<Rightarrow> (False, nd # g)
            | Some t \<Rightarrow>
                let (x, y) = t (co_x (coords nd), co_y (coords nd));
                    nd' = nd\<lparr>coords := \<lparr>frame_id = route_frame, co_x = x, co_y = y\<rparr>\<rparr>;
                    (b, g') = transformGraph tf route_frame g
                in (b, nd' # g')))"

section \<open>A loaded graph is well-formed\<close>

lemma addNodes_result:
  assumes "addNodesToGraph idx fs g ids = Inr (g', ids')" "idx + length fs \<le> length g"
    and "distinct (map nf_id fs)" "\<And>i. i < idx \<Longrightarrow> nodeid (g ! i) \<notin> nf_id ` set fs"
    and "\<And>k i. ids k = Some i \<Longrightarrow> k \<notin> nf_id ` set fs \<Longrightarrow> i < idx \<and> nodeid (g ! i) = k"
    and "\<And>i. i < idx \<Longrightarrow> ids (nodeid (g ! i)) = Some i"
    and "\<And>i. i < length g \<Longrightarrow> neighbors (g ! i) = []"
  shows "length g' = length g \<and> (\<forall>i<length g'. neighbors (g' ! i) = []) \<and>
    (\<forall>k i. ids' k = Some i \<longrightarrow> i < idx + length fs \<and> nodeid (g' ! i) = k) \<and>
    (\<forall>i<idx + length fs. ids' (nodeid (g' ! i)) = Some i)"
  using assms
proof (induction fs arbitrary: idx g ids)
  case Nil
  then show ?case by auto
next
  case (Cons f fs)
  then obtain ops mdata where "convertOperationsFromJson (nf_operations f) = Inr ops"
    "convertMetaDataFromJson (nf_metadata f) = Inr mdata"
    by (auto split: sum.splits)
  then have run: "addNodesToGraph (idx + 1) fs
      (g[idx := (g ! idx)\<lparr>nodeid := nf_id f, coords := convertCoordinatesFromJson f,
         n_metadata := mdata, n_operations := ops\<rparr>]) (ids(nf_id f \<mapsto> idx)) = Inr (g', ids')"
    (is "addNodesToGraph _ _ ?g ?ids = _")
    using Cons.prems(1) by simp
  have idx: "idx < length g"
    using Cons.prems(2) by simp
  have ids: "nodeid (?g ! i) = (if i = idx then nf_id f else nodeid (g ! i))" if "i < length g" for i
    using that idx by (simp add: nth_list_update)
  have nb: "neighbors (?g ! i) = []" if "i < length ?g" for i
    using that idx Cons.prems(7) by (simp add: nth_list_update)
  have old: "?ids k = Some i \<Longrightarrow> k \<notin> nf_id ` set fs \<Longrightarrow> i < idx + 1 \<and> nodeid (?g ! i) = k" for k i
    using Cons.prems(5) [of k i] idx ids [of i] by (auto split: if_splits)
  have fresh: "nodeid (g ! i) \<noteq> nf_id f" if "i < idx" for i
    using Cons.prems(4) [OF that] by auto
  have new: "i < idx + 1 \<Longrightarrow> ?ids (nodeid (?g ! i)) = Some i" for i
    using Cons.prems(6) [of i] fresh [of i] idx ids [of i] by (cases "i = idx") auto
  have other: "i < idx + 1 \<Longrightarrow> nodeid (?g ! i) \<notin> nf_id ` set fs" for i
    using Cons.prems(3) Cons.prems(4) [of i] idx ids [of i] by (cases "i = idx") auto
  have "idx + 1 + length fs \<le> length ?g" "distinct (map nf_id fs)"
    using Cons.prems(2,3) by simp_all
  from Cons.IH [OF run this other old new nb] show ?case
    by simp
qed

lemma addNodes_keeps:
  "addNodesToGraph idx fs g ids = Inr (g', ids') \<Longrightarrow> k \<notin> nf_id ` set fs \<Longrightarrow> ids' k = ids k"
  by (induction fs arbitrary: idx g ids) (auto split: sum.splits)

lemma addNodes_ids:
  assumes "addNodesToGraph idx fs g ids = Inr (g', ids')" "idx + length fs \<le> length g"
  shows "length g' = length g \<and> (\<forall>j<idx. nodeid (g' ! j) = nodeid (g ! j)) \<and>
    (\<forall>j<length fs. nodeid (g' ! (idx + j)) = nf_id (fs ! j))"
  using assms
proof (induction fs arbitrary: idx g ids)
  case (Cons f fs)
  then obtain nd ids1 where run: "addNodesToGraph (idx + 1) fs (g[idx := nd]) ids1 = Inr (g', ids')"
    and nd: "nodeid nd = nf_id f"
    by (auto split: sum.splits)
  have IH: "length g' = length g" "\<forall>j<Suc idx. nodeid (g' ! j) = nodeid (g[idx := nd] ! j)"
    "\<forall>j<length fs. nodeid (g' ! (Suc idx + j)) = nf_id (fs ! j)"
    using Cons.IH [OF run] Cons.prems(2) by simp_all
  have "nodeid (g' ! idx) = nf_id f"
    using IH(2) nd Cons.prems(2) by simp
  then have "nodeid (g' ! (idx + j)) = nf_id ((f # fs) ! j)" if "j < length (f # fs)" for j
    using IH(3) that by (cases j) auto
  then show ?case
    using IH(1,2) by simp
qed simp

lemma addEdges_total:
  assumes "\<And>k i. ids k = Some i \<Longrightarrow> i < length g"
  shows "\<exists>r. addEdgesToGraph fs ids g = Some r"
  using assms
proof (induction fs arbitrary: g)
  case (Cons f fs)
  have "\<exists>r. addEdgesToGraph fs ids (addEdge g s c t i m ops) = Some r" for s c t i m ops
    using Cons by (simp add: addEdge_def)
  then show ?case
    using Cons.prems by (auto split: option.splits sum.splits)
qed simp

lemma addEdges_wf:
  assumes "addEdgesToGraph fs ids g = Some (Inr g')" "wf_graph g"
  shows "wf_graph g' \<and> length g' = length g \<and> (\<forall>i<length g. nodeid (g' ! i) = nodeid (g ! i))"
  using assms
proof (induction fs arbitrary: g)
  case (Cons f fs)
  then obtain s t ops mdata where i: "s < length g" "t < length g"
    and run: "addEdgesToGraph fs ids (addEdge g s (convertEdgeCostFromJson f) t (ef_id f) mdata ops) = Some (Inr g')"
    by (auto split: option.splits sum.splits prod.splits if_splits)
  let ?g = "addEdge g s (convertEdgeCostFromJson f) t (ef_id f) mdata ops"
  have "wf_graph ?g"
    using wf_graph_addEdge [OF Cons.prems(2) i] .
  moreover have "length ?g = length g" "\<forall>i<length g. nodeid (?g ! i) = nodeid (g ! i)"
    using i by (auto simp: addEdge_def nth_list_update)
  ultimately show ?case
    using Cons.IH [OF run] by simp
qed simp

lemma transformGraph_wf:
  assumes "transformGraph tf fr g = (b, g')"
  shows "length g' = length g \<and> map nodeid g' = map nodeid g \<and> map neighbors g' = map neighbors g"
  using assms
  by (induction g arbitrary: b g') (auto simp: Let_def split: if_splits option.splits prod.splits)

lemma wf_graph_parts:
  "map nodeid g' = map nodeid g \<Longrightarrow> map neighbors g' = map neighbors g \<Longrightarrow> wf_graph g \<Longrightarrow> wf_graph g'"
proof -
  assume ids: "map nodeid g' = map nodeid g" and nbs: "map neighbors g' = map neighbors g"
    and wf: "wf_graph g"
  have len: "length g' = length g"
    using ids map_eq_imp_length_eq by blast
  have "neighbors (g' ! i) = neighbors (g ! i)" if "i < length g" for i
    using nbs len that by (metis nth_map)
  then show "wf_graph g'"
    using wf ids len by (simp add: wf_graph_def)
qed

lemma map_nodeid_distinct:
  assumes "\<forall>i<length g. ids (nodeid (g ! i)) = Some i"
  shows "distinct (map nodeid g)"
  using assms by (auto simp: distinct_conv_nth) (metis option.inject)

text \<open>The nodes into a cleared graph, when the map has no other ids than those of the file.\<close>

lemma loaded_nodes:
  assumes "addNodesToGraph 0 nodes (resize_graph junk (length nodes) []) ids0 = Inr (g1, ids)"
    and "distinct (map nf_id nodes)" "dom ids0 \<subseteq> nf_id ` set nodes"
  shows "length g1 = length nodes" "\<forall>i<length g1. neighbors (g1 ! i) = []"
    "\<forall>k i. ids k = Some i \<longrightarrow> i < length nodes \<and> nodeid (g1 ! i) = k"
    "\<forall>i<length nodes. ids (nodeid (g1 ! i)) = Some i" "wf_graph g1"
proof -
  have "length g1 = length nodes \<and> (\<forall>i<length g1. neighbors (g1 ! i) = []) \<and>
    (\<forall>k i. ids k = Some i \<longrightarrow> i < 0 + length nodes \<and> nodeid (g1 ! i) = k) \<and>
    (\<forall>i<0 + length nodes. ids (nodeid (g1 ! i)) = Some i)"
    using addNodes_result [OF assms(1) _ assms(2)] assms(3) by (auto simp: resize_graph_def Node_new_def)
  then show n: "length g1 = length nodes" "\<forall>i<length g1. neighbors (g1 ! i) = []"
    "\<forall>k i. ids k = Some i \<longrightarrow> i < length nodes \<and> nodeid (g1 ! i) = k"
    "\<forall>i<length nodes. ids (nodeid (g1 ! i)) = Some i"
    by simp_all
  show "wf_graph g1"
    using map_nodeid_distinct [of g1 ids] n by (simp add: wf_graph_def)
qed

lemma loadGraph_wf:
  assumes "distinct (map nf_id nodes)" "dom ids0 \<subseteq> nf_id ` set nodes"
  shows "\<exists>res. loadGraphFromFile junk nodes edge_fs ([], ids0) = Some res \<and>
    (\<forall>g ids. res = Inr (Some (g, ids)) \<longrightarrow> wf_graph g \<and> length g = length nodes \<and>
       (\<forall>k i. ids k = Some i \<longleftrightarrow> i < length g \<and> nodeid (g ! i) = k))"
proof (cases "addNodesToGraph 0 nodes (resize_graph junk (length nodes) []) ids0")
  case (Inl x)
  then show ?thesis
    by (simp add: loadGraphFromFile_def)
next
  case (Inr r)
  obtain g1 ids where r: "r = (g1, ids)" by force
  note n = loaded_nodes [OF Inr [unfolded r] assms]
  have "\<exists>res. addEdgesToGraph edge_fs ids g1 = Some res"
    by (rule addEdges_total) (use n(1,3) in simp)
  then obtain res where ae: "addEdgesToGraph edge_fs ids g1 = Some res" by blast
  have "wf_graph g \<and> length g = length nodes \<and> (\<forall>k i. ids k = Some i \<longleftrightarrow> i < length g \<and> nodeid (g ! i) = k)"
    if "res = Inr g" for g
    using addEdges_wf [OF ae [unfolded that] n(5)] n by auto
  then show ?thesis
    using Inr r ae by (cases res) (simp_all add: loadGraphFromFile_def)
qed

section \<open>Properties\<close>

text \<open>C27. Loading into a cleared graph, by \<open>setRouteGraph\<close> or when the server is configured, a file whose node ids are
  distinct and among which are all the ids that the map still holds - none, unless the server was cleaned up before -
  never indexes outside the graph, and if it succeeds it gives a graph in which every edge is stored at its start and
  ends in the graph, as the planner and the tracker assume, and a map that gives exactly the index of each id;
  transforming the nodes to the frame of the route keeps this.\<close>

theorem loaded_graph_wf:
  assumes "distinct (map nf_id nodes)"
    and "st = setRouteGraph_clear old \<or> st = on_cleanup_graph old \<and> dom (snd old) \<subseteq> nf_id ` set nodes"
  shows "\<exists>res. loadGraphFromFile junk nodes edge_fs st = Some res \<and>
    (\<forall>g ids b g'. res = Inr (Some (g, ids)) \<and> transformGraph tf route_frame g = (b, g') \<longrightarrow>
       wf_graph g' \<and> length g' = length nodes \<and>
       (\<forall>k i. ids k = Some i \<longleftrightarrow> i < length g' \<and> nodeid (g' ! i) = k))"
proof -
  have st: "fst st = []" "dom (snd st) \<subseteq> nf_id ` set nodes"
    using assms(2) by (auto simp: setRouteGraph_clear_def on_cleanup_graph_def)
  then have eq: "st = ([], snd st)"
    by (cases st) simp
  obtain res where res: "loadGraphFromFile junk nodes edge_fs st = Some res"
    and l: "\<And>g ids. res = Inr (Some (g, ids)) \<Longrightarrow> wf_graph g \<and> length g = length nodes \<and>
       (\<forall>k i. ids k = Some i \<longleftrightarrow> i < length g \<and> nodeid (g ! i) = k)"
    using loadGraph_wf [OF assms(1) st(2), of junk edge_fs] eq by metis
  have "wf_graph g' \<and> length g' = length nodes \<and> (\<forall>k i. ids k = Some i \<longleftrightarrow> i < length g' \<and> nodeid (g' ! i) = k)"
    if r: "res = Inr (Some (g, ids))" and tr: "transformGraph tf route_frame g = (b, g')" for g ids b g'
  proof -
    have t: "length g' = length g" "map nodeid g' = map nodeid g" "map neighbors g' = map neighbors g"
      using transformGraph_wf [OF tr] by simp_all
    then have "nodeid (g' ! i) = nodeid (g ! i)" if "i < length g" for i
      using that by (metis nth_map)
    then show ?thesis
      using l [OF r] t wf_graph_parts [OF t(2,3)] by auto
  qed
  then show ?thesis
    using res by blast
qed

text \<open>Ids of an earlier graph stay in the map when the server is cleaned up and configured again, and the loader takes
  them for ids of the new file: when the first edge starts at such an id, which no node of the new file has, then with
  its old index beyond the new nodes the load indexes outside the graph, and otherwise a file with this edge alone
  loads, with the edge stored at the node that now has that index, whose id is another. (In a map that
  \<open>setRouteGraph\<close> cleared the edge is refused.)\<close>

theorem stale_ids_load:
  assumes "distinct (map nf_id nodes)" "ef_startid f \<notin> nf_id ` set nodes" "snd old (ef_startid f) = Some i"
    and "addNodesToGraph 0 nodes (resize_graph junk (length nodes) []) (snd old) = Inr (g1, ids)"
    and "ids (ef_endid f) = Some t" "t < length nodes"
    and "convertOperationsFromJson (ef_operations f) = Inr ops" "convertMetaDataFromJson (ef_metadata f) = Inr mdata"
  shows "if length nodes \<le> i then loadGraphFromFile junk nodes (f # fs) (on_cleanup_graph old) = None
    else \<exists>g. loadGraphFromFile junk nodes [f] (on_cleanup_graph old) = Some (Inr (Some (g, ids))) \<and>
      nodeid (g ! i) \<noteq> ef_startid f \<and> (\<exists>e\<in>set (neighbors (g ! i)). edgeid e = ef_id f \<and> e_end e = t)"
proof -
  let ?g0 = "resize_graph junk (length nodes) []"
  have len0: "length ?g0 = length nodes"
    by (simp add: resize_graph_def)
  have n: "length g1 = length nodes" "\<And>j. j < length nodes \<Longrightarrow> nodeid (g1 ! j) = nf_id (nodes ! j)"
    using addNodes_ids [OF assms(4)] len0 by simp_all
  have found: "ids (ef_startid f) = Some i"
    using addNodes_keeps [OF assms(4,2)] assms(3) by simp
  have ne: "nodes \<noteq> []"
    using assms(6) by auto
  have load: "loadGraphFromFile junk nodes (f # es) (on_cleanup_graph old) =
      (if i < length nodes
       then map_option (map_sum id (\<lambda>g'. Some (g', ids)))
         (addEdgesToGraph es ids (addEdge g1 i (convertEdgeCostFromJson f) t (ef_id f) mdata ops))
       else None)" for es
    using found assms(4-8) ne n(1) by (simp add: loadGraphFromFile_def on_cleanup_graph_def)
  show ?thesis
  proof (cases "length nodes \<le> i")
    case True
    then show ?thesis
      by (simp add: load)
  next
    case False
    then have "nf_id (nodes ! i) \<in> nf_id ` set nodes"
      by simp
    then have "nf_id (nodes ! i) \<noteq> ef_startid f"
      using assms(2) by metis
    then have i: "i < length g1" "nodeid (g1 ! i) \<noteq> ef_startid f"
      using False n by simp_all
    then show ?thesis
      using False by (auto simp: load addEdge_def)
  qed
qed

definition ex_feature :: "u32 \<Rightarrow> real \<Rightarrow> node_feature" where
  "ex_feature i x = \<lparr>nf_id = i, nf_frame = None, nf_x = x, nf_y = 0, nf_operations = None,
     nf_metadata = None\<rparr>"

definition ex_edge_feature :: "json \<Rightarrow> edge_feature" where
  "ex_edge_feature j = \<lparr>ef_id = 2, ef_startid = 1, ef_endid = 3, ef_cost = None, ef_overridable = None,
     ef_operations = None, ef_metadata = Some [(''speed_limit'', j)]\<rparr>"

lemmas loader_eval = loadGraphFromFile_def ex_feature_def ex_edge_feature_def resize_graph_def
  convertOperationsFromJson_def convertMetaDataFromJson_def convertCoordinatesFromJson_def
  convertEdgeCostFromJson_def Node_new_def setValue_def addEdge_def

lemma ex_loaded:
  assumes "setPrimitiveType j = Inr v" "convert_value j = Inr v"
  shows "loadGraphFromFile 0 [ex_feature 1 0, ex_feature 3 2] [ex_edge_feature j] ([], Map.empty) =
    Some (Inr (Some
      ([\<lparr>nodeid = 1, coords = \<lparr>frame_id = ''map'', co_x = 0, co_y = 0\<rparr>,
         neighbors = [\<lparr>edgeid = 2, e_start = 0, e_end = 1,
           edge_cost = \<lparr>ec_cost = 0, overridable = True\<rparr>, e_metadata = [(''speed_limit'', v)],
           e_operations = []\<rparr>],
         n_metadata = [], n_operations = [], search_state = SearchState_reset\<rparr>,
        \<lparr>nodeid = 3, coords = \<lparr>frame_id = ''map'', co_x = 2, co_y = 0\<rparr>, neighbors = [],
         n_metadata = [], n_operations = [], search_state = SearchState_reset\<rparr>],
       [1 \<mapsto> 0, 3 \<mapsto> 1])))"
  using assms by (simp add: loader_eval numeral_2_eq_2)

theorem loaded_graph_wf_witness:
  "\<exists>g ids. loadGraphFromFile 0 [ex_feature 1 0, ex_feature 3 2] [ex_edge_feature (J_float 85)]
      (setRouteGraph_clear ([], [5 \<mapsto> 7])) = Some (Inr (Some (g, ids))) \<and>
    wf_graph (snd (transformGraph (\<lambda>_. None) ''map'' g))"
proof -
  obtain g ids where l: "loadGraphFromFile 0 [ex_feature 1 0, ex_feature 3 2] [ex_edge_feature (J_float 85)]
      (setRouteGraph_clear ([], [5 \<mapsto> 7])) = Some (Inr (Some (g, ids)))"
    using ex_loaded [of "J_float 85" "Any_float 85"] by (simp add: setRouteGraph_clear_def)
  obtain b g' where t: "transformGraph (\<lambda>_. None) ''map'' g = (b, g')"
    by fastforce
  have "distinct (map nf_id [ex_feature 1 0, ex_feature 3 2])"
    by (simp add: ex_feature_def)
  from loaded_graph_wf [OF this disjI1 [OF refl], of 0 "[ex_edge_feature (J_float 85)]" "([], [5 \<mapsto> 7])"] l t
  have "wf_graph g'"
    by auto
  then show ?thesis
    using l t by auto
qed

text \<open>A file whose edge starts at node 5, which an earlier graph had at index 1.\<close>

definition ex_stale_edge :: edge_feature where
  "ex_stale_edge = (ex_edge_feature (J_float 85))\<lparr>ef_startid := 5\<rparr>"

theorem stale_ids_load_witness:
  "\<exists>g ids. loadGraphFromFile 0 [ex_feature 1 0, ex_feature 3 2] [ex_stale_edge] (on_cleanup_graph ([], [5 \<mapsto> 1])) =
      Some (Inr (Some (g, ids))) \<and> nodeid (g ! 1) \<noteq> 5 \<and>
    loadGraphFromFile 0 [ex_feature 1 0, ex_feature 3 2] [ex_stale_edge]
      (setRouteGraph_clear ([], [5 \<mapsto> 1])) = Some (Inl No_valid_graph)"
proof -
  let ?nodes = "[ex_feature 1 0, ex_feature 3 2]"
  obtain g1 ids where an: "addNodesToGraph 0 ?nodes (resize_graph 0 (length ?nodes) []) (snd ([] :: graph, [5 \<mapsto> 1])) = Inr (g1, ids)"
    and ids: "ids 3 = Some 1"
    by (simp add: loader_eval)
  have f: "ef_startid ex_stale_edge = 5" "ef_endid ex_stale_edge = 3"
    "convertOperationsFromJson (ef_operations ex_stale_edge) = Inr []"
    "convertMetaDataFromJson (ef_metadata ex_stale_edge) = Inr [(''speed_limit'', Any_float 85)]"
    by (simp_all add: ex_stale_edge_def loader_eval)
  have d: "distinct (map nf_id ?nodes)" "ef_startid ex_stale_edge \<notin> nf_id ` set ?nodes"
    "snd ([] :: graph, [5 \<mapsto> 1]) (ef_startid ex_stale_edge) = Some 1"
    unfolding f by (simp_all add: ex_feature_def)
  have "ids (ef_endid ex_stale_edge) = Some 1" "1 < length ?nodes"
    using ids f by simp_all
  from stale_ids_load [OF d an this f(3,4)] f(1) show ?thesis
    by (auto simp: setRouteGraph_clear_def loader_eval ex_stale_edge_def)
qed

text \<open>The convention for speed limits: with the documented way to write one, a whole number such as 85, the
  graph loads but every route request with the default scorers over the edge throws \<open>bad_any_cast\<close>, since the
  loader stores an unsigned number and the scorer asks for a \<open>float\<close>; written with a decimal point the same
  limit gives a route.\<close>

theorem whole_number_speed_throws:
  "(\<exists>g ids g' P'. loadGraphFromFile 0 [ex_feature 1 0, ex_feature 3 2] [ex_edge_feature (J_unsigned n)]
      ([], Map.empty) = Some (Inr (Some (g, ids))) \<and>
    findRoute (ex_env (default_plugins DynamicEdges_configure)) (configure 0 planner_new) g 0 1 [] ex_req =
      Some (Inl Bad_any_cast, g', P')) \<and>
   (\<exists>g ids r g' P'. loadGraphFromFile 0 [ex_feature 1 0, ex_feature 3 2] [ex_edge_feature (J_float 85)]
      ([], Map.empty) = Some (Inr (Some (g, ids))) \<and>
    findRoute (ex_env (default_plugins DynamicEdges_configure)) (configure 0 planner_new) g 0 1 [] ex_req =
      Some (Inr r, g', P') \<and> route_cost r = 2 / 85)"
  by (simp_all add: ex_loaded [of _ "Any_uint (of_nat n)"] ex_loaded [of _ "Any_float 85"] planner_eval
      ex_env_def ex_req_def configure_def EdgeScorer_score_def default_plugins_def
      DistanceScorer_score_def getValue_float_def edge_span_def hypotf_def fdiv_def
      DynamicEdgesScorer_score_def DynamicEdges_configure_def follow_parents_go follow_parents_stop)

end
