(* ===== verification/Goal_Search.thy ===== *)
theory Goal_Search
  imports Costmap_Windows
begin

text \<open>
  The search for the traversably nearest node (\<open>goal_intent_search.hpp\<close>): breadth first over the cells of the
  costmap from the cell of a pose, until the cell of a candidate node is taken from the queue. \<open>None\<close> is
  undefined behaviour: a read outside the costmap, a division by its width zero, an overflow of an \<open>int\<close>.
\<close>

section \<open>Neighbouring cells\<close>

definition int_ok :: "int \<Rightarrow> bool" where
  "int_ok i \<longleftrightarrow> - (2 ^ 31) \<le> i \<and> i < 2 ^ 31"

definition inCollision :: "costmap2d \<Rightarrow> u32 \<Rightarrow> bool option" where
  "inCollision cm i = map_option (\<lambda>cost. 253 \<le> cost \<and> cost \<noteq> 255) (getCost_index cm i)"

definition offsets :: "int \<Rightarrow> int list" where
  "offsets size_x =
     [-1, 1, - size_x, size_x, - size_x - 1, - size_x + 1, size_x - 1, size_x + 1]"

text \<open>
  A cast of an unsigned to \<open>float\<close>: 24 significant bits, to the nearest and on a tie to the even one. The difference of two
  such is rounded again in the code; that does not take it across 1, which is a \<open>float\<close>, and it is exact here.
\<close>

function float_exp :: "nat \<Rightarrow> nat" where
  "float_exp n = (if n < 2 ^ 24 then 0 else Suc (float_exp (n div 2)))"
  by auto
termination
  by (relation "measure id") auto

declare float_exp.simps [simp del]

definition float_cast :: "u32 \<Rightarrow> int" where
  "float_cast w =
     (let n = unat w; e = float_exp n; q = n div 2 ^ e; r = n mod 2 ^ e
      in int ((if 2 * r < 2 ^ e \<or> 2 * r = 2 ^ e \<and> even q then q else q + 1) * 2 ^ e))"

lemma float_cast_exact: "unat w < 2 ^ 24 \<Longrightarrow> float_cast w = int (unat w)"
  using float_exp.simps [of "unat w"] by (simp add: float_cast_def)

definition wraps :: "u32 \<times> u32 \<Rightarrow> u32 \<times> u32 \<Rightarrow> bool" where
  "wraps p n \<longleftrightarrow>
     1 < \<bar>float_cast (fst p) - float_cast (fst n)\<bar> \<or> 1 < \<bar>float_cast (snd p) - float_cast (snd n)\<bar>"

fun collect_neighbors :: "costmap2d \<Rightarrow> u32 \<Rightarrow> u32 \<times> u32 \<Rightarrow> int list \<Rightarrow> u32 list option" where
  "collect_neighbors cm current_id p [] = Some []"
| "collect_neighbors cm current_id p (off # offs) =
     (let signed_id = sint current_id + off
      in if \<not> int_ok signed_id then None
         else if signed_id < 0 \<or> sint (cm_size_x cm * cm_size_y cm) \<le> signed_id
         then collect_neighbors cm current_id p offs
         else
           let neighbor_id = word_of_int signed_id
           in case indexToCells cm neighbor_id of
                None \<Rightarrow> None
              | Some n \<Rightarrow>
                  if wraps p n then collect_neighbors cm current_id p offs
                  else
                    (case inCollision cm neighbor_id of
                       None \<Rightarrow> None
                     | Some b \<Rightarrow>
                         map_option (\<lambda>ns. if b then ns else neighbor_id # ns)
                           (collect_neighbors cm current_id p offs)))"

definition getNeighbors :: "costmap2d \<Rightarrow> u32 \<Rightarrow> u32 list option" where
  "getNeighbors cm current_id =
     (case indexToCells cm current_id of
        None \<Rightarrow> None
      | Some p \<Rightarrow>
          if list_all int_ok (offsets (sint (cm_size_x cm)))
          then collect_neighbors cm current_id p (offsets (sint (cm_size_x cm)))
          else None)"

section \<open>The search\<close>

text \<open>\<open>std::find\<close>: the distance of the first occurrence.\<close>

fun find_index :: "'a \<Rightarrow> 'a list \<Rightarrow> nat option" where
  "find_index x [] = None"
| "find_index x (y # ys) = (if y = x then Some 0 else map_option Suc (find_index x ys))"

fun push_unvisited :: "u32 list \<Rightarrow> u32 list \<Rightarrow> u32 set \<Rightarrow> u32 list \<times> u32 set" where
  "push_unvisited [] q visited = (q, visited)"
| "push_unvisited (n # ns) q visited =
     (if n \<in> visited then push_unvisited ns q visited
      else push_unvisited ns (q @ [n]) (insert n visited))"

function bfs_loop ::
  "costmap2d \<Rightarrow> u32 list \<Rightarrow> nat \<Rightarrow> nat \<Rightarrow> u32 list \<Rightarrow> u32 set \<Rightarrow> nat option option" where
  "bfs_loop cm candidate_ids max_iterations iterations q visited =
     (if q \<noteq> [] \<and> iterations < max_iterations
      then
        (case find_index (hd q) candidate_ids of
           Some i \<Rightarrow> Some (Some i)
         | None \<Rightarrow>
             (case getNeighbors cm (hd q) of
                None \<Rightarrow> None
              | Some ns \<Rightarrow>
                  let (q', visited') = push_unvisited ns (tl q) visited
                  in bfs_loop cm candidate_ids max_iterations (iterations + 1) q' visited'))
      else Some None)"
  by pat_completeness auto
termination
  by (relation "measure (\<lambda>(cm, candidate_ids, max_iterations, iterations, q, visited).
    max_iterations - iterations)") auto

declare bfs_loop.simps [simp del]

fun candidate_cells :: "costmap2d \<Rightarrow> (real \<times> real) list \<Rightarrow> u32 list option" where
  "candidate_cells cm [] = Some []"
| "candidate_cells cm ((x, y) # nodes) =
     (case worldToMap cm x y of
        None \<Rightarrow> None
      | Some None \<Rightarrow> candidate_cells cm nodes
      | Some (Some (mx, my)) \<Rightarrow>
          map_option ((#) (getIndex cm mx my)) (candidate_cells cm nodes))"

text \<open>The result and \<open>closest_node_idx_\<close>; a negative bound gives no iteration.\<close>

definition bfs_search ::
  "costmap2d \<Rightarrow> real \<times> real \<Rightarrow> (real \<times> real) list \<Rightarrow> int \<Rightarrow> (bool \<times> nat) option" where
  "bfs_search cm reference_node candidate_nodes max_iterations =
     (case worldToMap cm (fst reference_node) (snd reference_node) of
        None \<Rightarrow> None
      | Some None \<Rightarrow> Some (False, 0)
      | Some (Some (gx, gy)) \<Rightarrow>
          (case candidate_cells cm candidate_nodes of
             None \<Rightarrow> None
           | Some ids \<Rightarrow>
               if ids = [] then Some (False, 0)
               else
                 (case bfs_loop cm ids (nat max_iterations) 0 [getIndex cm gx gy] {getIndex cm gx gy} of
                    None \<Rightarrow> None
                  | Some None \<Rightarrow> Some (False, 0)
                  | Some (Some i) \<Rightarrow> Some (True, i))))"

section \<open>What it should find\<close>

text \<open>Cells by their index; a cell is entered from one of the eight around it unless it is in collision.\<close>

definition cell_x :: "costmap2d \<Rightarrow> u32 \<Rightarrow> nat" where
  "cell_x cm i = unat i mod unat (cm_size_x cm)"

definition cell_y :: "costmap2d \<Rightarrow> u32 \<Rightarrow> nat" where
  "cell_y cm i = unat i div unat (cm_size_x cm)"

definition map_cells :: "costmap2d \<Rightarrow> nat" where
  "map_cells cm = unat (cm_size_x cm) * unat (cm_size_y cm)"

definition free_move :: "costmap2d \<Rightarrow> u32 \<Rightarrow> u32 \<Rightarrow> bool" where
  "free_move cm a b \<longleftrightarrow>
     unat b < map_cells cm \<and> inCollision cm b = Some False \<and>
     \<bar>int (cell_x cm a) - int (cell_x cm b)\<bar> \<le> 1 \<and> \<bar>int (cell_y cm a) - int (cell_y cm b)\<bar> \<le> 1"

text \<open>The cells within \<open>n\<close> moves.\<close>

fun reach_in :: "costmap2d \<Rightarrow> u32 \<Rightarrow> nat \<Rightarrow> u32 set" where
  "reach_in cm r 0 = {r}"
| "reach_in cm r (Suc n) = reach_in cm r n \<union> {b. \<exists>a\<in>reach_in cm r n. free_move cm a b}"

section \<open>Neighbours are the cells around\<close>

text \<open>Maps small enough that indices and offsets stay in \<open>int\<close>.\<close>

definition small_map :: "costmap2d \<Rightarrow> bool" where
  "small_map cm \<longleftrightarrow> cm_wf cm \<and> map_cells cm < 2 ^ 30"

text \<open>Maps whose coordinates are exact as \<open>float\<close>.\<close>

definition float_map :: "costmap2d \<Rightarrow> bool" where
  "float_map cm \<longleftrightarrow> small_map cm \<and> unat (cm_size_x cm) \<le> 2 ^ 24 \<and> unat (cm_size_y cm) \<le> 2 ^ 24"

lemma cell_exact:
  assumes "float_map cm" "unat i < map_cells cm"
  shows "cell_x cm i < 2 ^ 24" "cell_y cm i < 2 ^ 24"
proof -
  have "0 < unat (cm_size_x cm)"
    using assms(2) by (auto simp: map_cells_def intro: gr0I)
  then show "cell_x cm i < 2 ^ 24"
    using assms(1) mod_less_divisor [of "unat (cm_size_x cm)" "unat i"]
    by (simp add: cell_x_def float_map_def del: mod_less_divisor)
  have "cell_y cm i < unat (cm_size_y cm)"
    using assms(2) by (simp add: cell_y_def map_cells_def less_mult_imp_div_less mult.commute)
  then show "cell_y cm i < 2 ^ 24"
    using assms(1) by (simp add: float_map_def)
qed

lemma index_cells:
  assumes "cm_wf cm" "unat i < map_cells cm"
  obtains mx my where "mx < cm_size_x cm" "my < cm_size_y cm" "i = getIndex cm mx my"
    "unat mx = cell_x cm i" "unat my = cell_y cm i"
proof -
  let ?sx = "unat (cm_size_x cm)" and ?sy = "unat (cm_size_y cm)"
  have sx: "0 < ?sx"
    using assms(2) by (auto simp: map_cells_def intro: gr0I)
  have x: "cell_x cm i < ?sx"
    using sx by (simp add: cell_x_def)
  have y: "cell_y cm i < ?sy"
    using assms(2) by (simp add: cell_y_def map_cells_def less_mult_imp_div_less mult.commute)
  define mx my where "mx = (of_nat (cell_x cm i) :: u32)" and "my = (of_nat (cell_y cm i) :: u32)"
  have ux: "unat mx = cell_x cm i" "unat my = cell_y cm i"
    using x y u32_less [of "cm_size_x cm"] u32_less [of "cm_size_y cm"]
    by (simp_all add: mx_def my_def unsigned_of_nat take_bit_nat_eq_self)
  then have lt: "mx < cm_size_x cm" "my < cm_size_y cm"
    using x y by (simp_all add: word_less_nat_alt)
  have "unat (getIndex cm mx my) = unat i"
    using getIndex_nat(1) [OF assms(1) lt] ux by (simp add: cell_x_def cell_y_def)
  then show ?thesis
    using that [OF lt _ ux] by (simp add: word_unat_eq_iff)
qed

lemma indexToCells_cells:
  assumes "cm_wf cm" "unat i < map_cells cm"
  obtains p where "indexToCells cm i = Some p" "unat (fst p) = cell_x cm i" "unat (snd p) = cell_y cm i"
  using index_cells [OF assms] indexToCells_getIndex [OF assms(1)] by (metis fst_conv snd_conv)

lemma inCollision_cell:
  assumes "cm_wf cm" "unat i < map_cells cm"
  shows "\<exists>b. inCollision cm i = Some b"
  using assms by (auto simp: inCollision_def getCost_index_def cm_wf_def map_cells_def load_in split: option.splits)

lemma cells_apart:
  assumes "cm_wf cm" "unat a < map_cells cm" "unat b < map_cells cm"
  shows "int (unat b) - int (unat a) =
    (int (cell_y cm b) - int (cell_y cm a)) * int (unat (cm_size_x cm)) +
    (int (cell_x cm b) - int (cell_x cm a))"
proof -
  have split: "int (unat i) = int (cell_y cm i) * int (unat (cm_size_x cm)) + int (cell_x cm i)" for i
    unfolding cell_x_def cell_y_def by (metis div_mult_mod_eq of_nat_add of_nat_mult)
  show ?thesis
    unfolding split [of a] split [of b] by (simp add: algebra_simps)
qed

lemma collect_neighbors_set:
  assumes wf: "cm_wf cm" and small: "map_cells cm < 2 ^ 31" and exact: "float_map cm" and cur: "unat cur < map_cells cm"
    and cells: "sint (cm_size_x cm * cm_size_y cm) = int (map_cells cm)"
    and ok: "\<forall>off\<in>set offs. int_ok (sint cur + off)"
    and p: "unat (fst p) = cell_x cm cur" "unat (snd p) = cell_y cm cur"
  shows "\<exists>ns. collect_neighbors cm cur p offs = Some ns \<and>
    set ns = {b. free_move cm cur b \<and> (\<exists>off\<in>set offs. int (unat b) = sint cur + off)}"
  using ok
proof (induction offs)
  case (Cons off offs)
  let ?s = "sint cur + off"
  let ?M = "\<lambda>offs. {b. free_move cm cur b \<and> (\<exists>off\<in>set offs. int (unat b) = sint cur + off)}"
  obtain ns where ns: "collect_neighbors cm cur p offs = Some ns" "set ns = ?M offs"
    using Cons by auto
  have sok: "int_ok ?s"
    using Cons.prems by simp
  show ?case
  proof (cases "?s < 0 \<or> int (map_cells cm) \<le> ?s")
    case True
    then have "int (unat b) \<noteq> ?s" if "free_move cm cur b" for b
      using that by (auto simp: free_move_def)
    then show ?thesis
      using True ns sok cells by auto
  next
    case False
    let ?b = "word_of_int ?s :: u32"
    have "0 \<le> ?s" "?s < 2 ^ 32"
      using False small by simp_all
    from unat_of_int_pos [OF this] have ub: "int (unat ?b) = ?s"
      using False by linarith
    then have bc: "unat ?b < map_cells cm"
      using False by linarith
    have only: "int (unat b) = ?s \<longleftrightarrow> b = ?b" for b
      using ub by (metis of_nat_eq_iff word_unat_eq_iff)
    obtain n where n: "indexToCells cm ?b = Some n" "unat (fst n) = cell_x cm ?b"
      "unat (snd n) = cell_y cm ?b"
      using indexToCells_cells [OF wf bc] .
    obtain c where c: "inCollision cm ?b = Some c"
      using inCollision_cell [OF wf bc] by blast
    have "float_cast (fst p) = int (cell_x cm cur)" "float_cast (snd p) = int (cell_y cm cur)"
      "float_cast (fst n) = int (cell_x cm ?b)" "float_cast (snd n) = int (cell_y cm ?b)"
      using cell_exact [OF exact cur] cell_exact [OF exact bc] p n(2,3) by (simp_all add: float_cast_exact)
    then have fm: "free_move cm cur ?b \<longleftrightarrow> \<not> wraps p n \<and> \<not> c"
      using bc c by (auto simp: free_move_def wraps_def)
    have "collect_neighbors cm cur p (off # offs) =
        Some (if free_move cm cur ?b then ?b # ns else ns)"
      using False sok cells n(1) c ns(1) fm by (simp add: Let_def)
    moreover have "?M (off # offs) = (if free_move cm cur ?b then insert ?b (?M offs) else ?M offs)"
      using only by auto
    ultimately show ?thesis
      using ns(2) by auto
  qed
qed simp

lemma getNeighbors_cells:
  assumes exact: "float_map cm" and cur: "unat cur < map_cells cm"
  shows "\<exists>ns. getNeighbors cm cur = Some ns \<and> set ns \<subseteq> {b. free_move cm cur b} \<and>
    {b. free_move cm cur b} \<subseteq> insert cur (set ns)"
proof -
  have wf: "cm_wf cm" and cells: "map_cells cm < 2 ^ 30"
    using exact by (simp_all add: small_map_def float_map_def)
  let ?sx = "unat (cm_size_x cm)"
  have prod: "unat (cm_size_x cm * cm_size_y cm) = map_cells cm"
    using cells by (simp add: map_cells_def unat_mult_lem [THEN iffD1])
  have "0 < unat (cm_size_y cm)"
    using cur by (auto simp: map_cells_def intro: gr0I)
  then have "?sx \<le> map_cells cm"
    by (simp add: map_cells_def)
  then have sx: "sint (cm_size_x cm) = int ?sx" "?sx < 2 ^ 30"
    using cells by (simp_all add: sint_small)
  have sc: "sint cur = int (unat cur)" "sint (cm_size_x cm * cm_size_y cm) = int (map_cells cm)"
    using cells cur prod by (simp_all add: sint_small)
  obtain p where p: "indexToCells cm cur = Some p" "unat (fst p) = cell_x cm cur"
    "unat (snd p) = cell_y cm cur"
    using indexToCells_cells [OF wf cur] .
  have offs: "list_all int_ok (offsets (int ?sx))" "\<forall>off\<in>set (offsets (int ?sx)). int_ok (sint cur + off)"
    using sx(2) sc(1) cur cells by (auto simp: offsets_def int_ok_def)
  have s31: "map_cells cm < 2 ^ 31"
    using cells by simp
  obtain ns where ns: "collect_neighbors cm cur p (offsets (int ?sx)) = Some ns"
    "set ns = {b. free_move cm cur b \<and> (\<exists>off\<in>set (offsets (int ?sx)). int (unat b) = sint cur + off)}"
    using collect_neighbors_set [OF wf s31 exact cur sc(2) offs(2) p(2,3)] by blast
  have "b \<in> set ns" if fm: "free_move cm cur b" and ne: "b \<noteq> cur" for b
  proof -
    have b: "unat b < map_cells cm"
      using fm by (simp add: free_move_def)
    obtain dx dy where d: "dx = int (cell_x cm b) - int (cell_x cm cur)" "dy = int (cell_y cm b) - int (cell_y cm cur)"
      by blast
    then have diff: "int (unat b) - int (unat cur) = dy * int ?sx + dx"
      using cells_apart [OF wf cur b] by simp
    have "dx \<in> {-1, 0, 1}" "dy \<in> {-1, 0, 1}"
      using fm d by (auto simp: free_move_def)
    moreover have "\<not> (dx = 0 \<and> dy = 0)"
    proof
      assume "dx = 0 \<and> dy = 0"
      then have "unat b = unat cur"
        using diff by simp
      then show False
        using ne by (simp add: word_unat_eq_iff)
    qed
    ultimately have "int (unat b) - int (unat cur) \<in> set (offsets (int ?sx))"
      using diff by (auto simp: offsets_def)
    then have "\<exists>off\<in>set (offsets (int ?sx)). int (unat b) = sint cur + off"
      using sc(1) by (auto intro!: bexI [of _ "int (unat b) - int (unat cur)"])
    then show ?thesis
      using ns(2) fm by blast
  qed
  then show ?thesis
    using p(1) offs(1) sx(1) ns by (auto simp: getNeighbors_def)
qed

section \<open>Breadth first\<close>

lemma find_index_None: "find_index x ys = None \<longleftrightarrow> x \<notin> set ys"
  by (induction ys) auto

lemma find_index_Some: "find_index x ys = Some i \<Longrightarrow> i < length ys \<and> ys ! i = x"
  by (induction ys arbitrary: i) (auto split: if_splits)

lemma push_unvisited_new:
  "push_unvisited ns q v = (q', v') \<Longrightarrow>
   v' = v \<union> set ns \<and> (\<exists>l. q' = q @ l \<and> set l = set ns - v \<and> distinct l)"
proof (induction ns arbitrary: q v)
  case (Cons n ns)
  show ?case
  proof (cases "n \<in> v")
    case True
    then show ?thesis
      using Cons by auto
  next
    case False
    then obtain l where l: "v' = insert n v \<union> set ns" "q' = (q @ [n]) @ l" "set l = set ns - insert n v"
      "distinct l"
      using Cons.IH [of "q @ [n]" "insert n v"] Cons.prems by auto
    then have "q' = q @ (n # l)" "set (n # l) = set (n # ns) - v" "distinct (n # l)"
      using False by auto
    then show ?thesis
      using l(1) by auto
  qed
qed simp

lemma reach_mono: "m \<le> n \<Longrightarrow> reach_in cm r m \<subseteq> reach_in cm r n"
  by (induction n) (auto simp: le_Suc_eq)

lemma reach_closed:
  assumes "reach_in cm r (Suc n) = reach_in cm r n"
  shows "reach_in cm r k \<subseteq> reach_in cm r n"
proof (induction k)
  case (Suc k)
  then have "reach_in cm r (Suc k) \<subseteq> reach_in cm r (Suc n)"
    by auto
  then show ?case
    using assms by simp
qed (use reach_mono [of 0 n] in simp)

lemma reach_valid: "unat r < map_cells cm \<Longrightarrow> b \<in> reach_in cm r n \<Longrightarrow> unat b < map_cells cm"
  by (induction n arbitrary: b) (auto simp: free_move_def)

text \<open>
  The queue holds what is left of the cells \<open>n\<close> moves away, then cells \<open>n + 1\<close> moves away; visited are the cells
  within \<open>n\<close> moves and those next to a cell already taken, and no candidate has been taken.
\<close>

definition bfs_inv ::
  "costmap2d \<Rightarrow> u32 \<Rightarrow> u32 set \<Rightarrow> nat \<Rightarrow> u32 list \<Rightarrow> u32 list \<Rightarrow> u32 set \<Rightarrow> nat \<Rightarrow> bool" where
  "bfs_inv cm r C n A B visited it \<longleftrightarrow>
     (let taken = reach_in cm r n - set A
      in set A \<subseteq> reach_in cm r n \<and>
         visited = reach_in cm r n \<union> {b. \<exists>a\<in>taken. free_move cm a b} \<and>
         set B = visited - reach_in cm r n \<and> distinct A \<and> distinct B \<and>
         (\<forall>m<n. reach_in cm r m \<inter> set A = {}) \<and> C \<inter> taken = {} \<and> it = card taken)"

lemma bfs_inv_start: "bfs_inv cm r C 0 [r] [] {r} 0"
  by (auto simp: bfs_inv_def Let_def)

lemma bfs_inv_shift:
  assumes "bfs_inv cm r C n [] B v it"
  shows "bfs_inv cm r C (Suc n) B [] v it"
proof -
  have v: "v = reach_in cm r (Suc n)" and B: "set B = v - reach_in cm r n" and
    d: "distinct B" and C: "C \<inter> reach_in cm r n = {}" and it: "it = card (reach_in cm r n)"
    using assms by (auto simp: bfs_inv_def Let_def)
  have t: "reach_in cm r (Suc n) - set B = reach_in cm r n"
    using v B by auto
  have "reach_in cm r m \<inter> set B = {}" if "m < Suc n" for m
    using B reach_mono [of m n cm r] that by auto
  moreover have "v = reach_in cm r (Suc n) \<union> {b. \<exists>a\<in>reach_in cm r n. free_move cm a b}"
    using v by auto
  ultimately show ?thesis
    unfolding bfs_inv_def Let_def t using v B d C it by simp
qed

lemma bfs_inv_step:
  assumes inv: "bfs_inv cm r C n (a # A) B v it" and r: "unat r < map_cells cm" and a: "a \<notin> C"
    and ns: "set ns \<subseteq> {b. free_move cm a b}" "{b. free_move cm a b} \<subseteq> insert a (set ns)"
    and push: "push_unvisited ns (A @ B) v = (q', v')"
  shows "\<exists>B'. q' = A @ B' \<and> bfs_inv cm r C n A B' v' (it + 1)"
proof -
  let ?R = "reach_in cm r n"
  have i: "set (a # A) \<subseteq> ?R" "v = ?R \<union> {b. \<exists>c\<in>?R - set (a # A). free_move cm c b}"
    "set B = v - ?R" "distinct (a # A)" "distinct B" "\<forall>m<n. reach_in cm r m \<inter> set (a # A) = {}"
    "C \<inter> (?R - set (a # A)) = {}" "it = card (?R - set (a # A))"
    using inv by (simp_all add: bfs_inv_def Let_def)
  obtain l where l: "v' = v \<union> set ns" "q' = (A @ B) @ l" "set l = set ns - v" "distinct l"
    using push_unvisited_new [OF push] by blast
  have aR: "a \<in> ?R"
    using i(1) by simp
  have taken: "?R - set A = insert a (?R - set (a # A))"
    using i(1,4) by auto
  have v': "v' = ?R \<union> {b. \<exists>c\<in>?R - set A. free_move cm c b}"
    unfolding l(1) taken using i(2) ns aR by auto
  have "finite ?R"
    using finite_subset [of ?R UNIV] by simp
  then have "it + 1 = card (?R - set A)"
    unfolding taken using i(8) by simp
  moreover have "set (B @ l) = v' - ?R"
    using l i(2,3) by auto
  moreover have "distinct (B @ l)"
    using i(3,5) l(3,4) by auto
  moreover have "set A \<subseteq> ?R" "distinct A" "\<forall>m<n. reach_in cm r m \<inter> set A = {}"
    using i(1,4,6) by auto
  moreover have "C \<inter> (?R - set A) = {}"
    unfolding taken using i(7) a by blast
  ultimately have "bfs_inv cm r C n A (B @ l) v' (it + 1)"
    unfolding bfs_inv_def Let_def using v' by (intro conjI) assumption+
  then show ?thesis
    using l(2) by auto
qed

text \<open>Every taken cell is a cell of the map, so the search takes at most as many as there are.\<close>

lemma bfs_inv_bound:
  assumes inv: "bfs_inv cm r C n A B v it" and r: "unat r < map_cells cm" and q: "A @ B \<noteq> []"
  shows "it < map_cells cm"
proof -
  let ?T = "reach_in cm r n - set A"
  have v: "v = reach_in cm r n \<union> {b. \<exists>a\<in>?T. free_move cm a b}" and it: "it = card ?T"
    and AB: "set A \<subseteq> reach_in cm r n" "set B = v - reach_in cm r n"
    using inv by (auto simp: bfs_inv_def Let_def)
  have valid: "unat b < map_cells cm" if "b \<in> v" for b
    using that v reach_valid [OF r] by (auto simp: free_move_def)
  obtain x where x: "x \<in> set (A @ B)"
    using q by (meson list.set_sel(1))
  then have "x \<in> v" "x \<notin> ?T"
    using AB v by auto
  then have "insert x ?T \<subseteq> v"
    using v by auto
  then have sub: "unat ` insert x ?T \<subseteq> {..<map_cells cm}"
    using valid by blast
  have fin: "finite ?T"
    using finite_subset [of ?T UNIV] by simp
  have "inj_on unat (insert x ?T)"
    by (rule inj_onI) (simp add: word_unat_eq_iff)
  then have "Suc (card ?T) = card (unat ` insert x ?T)"
    unfolding card_image [OF \<open>inj_on unat (insert x ?T)\<close>] using fin \<open>x \<notin> ?T\<close> by (subst card_insert_disjoint) auto
  also have "\<dots> \<le> map_cells cm"
    using card_mono [OF _ sub] by simp
  finally show ?thesis
    using it by simp
qed

definition nearest_candidate :: "costmap2d \<Rightarrow> u32 \<Rightarrow> u32 list \<Rightarrow> nat \<Rightarrow> bool" where
  "nearest_candidate cm r cands i \<longleftrightarrow> i < length cands \<and>
     (\<exists>n. cands ! i \<in> reach_in cm r n \<and> (\<forall>m<n. reach_in cm r m \<inter> set cands = {}))"

lemma bfs_loop_result:
  assumes small: "float_map cm" and r: "unat r < map_cells cm"
    and inv: "bfs_inv cm r (set cands) n A B v it"
  shows "\<exists>res. bfs_loop cm cands mx it (A @ B) v = Some res \<and>
    (case res of
       Some i \<Rightarrow> nearest_candidate cm r cands i
     | None \<Rightarrow> map_cells cm \<le> mx \<longrightarrow> (\<forall>k. reach_in cm r k \<inter> set cands = {}))"
  using inv
proof (induction "mx - it" arbitrary: n A B v it rule: less_induct)
  case less
  show ?case
  proof (cases "A @ B \<noteq> [] \<and> it < mx")
    case False
    have "reach_in cm r k \<inter> set cands = {}" if "map_cells cm \<le> mx" for k
    proof -
      have "A @ B = []"
        using False that bfs_inv_bound [OF less.prems r] by (cases "A @ B = []") auto
      then have "A = []" "B = []" by simp_all
      then have c: "set cands \<inter> reach_in cm r n = {}" "reach_in cm r (Suc n) = reach_in cm r n"
        using less.prems by (auto simp: bfs_inv_def Let_def)
      then show ?thesis
        using reach_closed [OF c(2), of k] by blast
    qed
    then show ?thesis
      using False by (subst bfs_loop.simps) auto
  next
    case True
    obtain n' a A' B' where q: "A @ B = a # A' @ B'"
      and inv: "bfs_inv cm r (set cands) n' (a # A') B' v it"
    proof (cases A)
      case Nil
      then obtain b B1 where "B = b # B1"
        using True by (cases B) auto
      then show ?thesis
        using that [of b B1 "[]" "Suc n"] bfs_inv_shift less.prems Nil by simp
    next
      case (Cons a A1)
      then show ?thesis
        using that [of a A1 B n] less.prems by simp
    qed
    have aR: "a \<in> reach_in cm r n'" and before: "\<forall>m<n'. reach_in cm r m \<inter> set (a # A') = {}"
      "set cands \<inter> (reach_in cm r n' - set (a # A')) = {}"
      using inv by (simp_all add: bfs_inv_def Let_def)
    show ?thesis
    proof (cases "find_index a cands")
      case (Some i)
      have "reach_in cm r m \<inter> set cands = {}" if "m < n'" for m
        using before that reach_mono [of m n' cm r] by fastforce
      then have "nearest_candidate cm r cands i"
        using find_index_Some [OF Some] aR unfolding nearest_candidate_def by blast
      then show ?thesis
        using True q Some by (subst bfs_loop.simps) simp
    next
      case None
      obtain ns where ns: "getNeighbors cm a = Some ns" "set ns \<subseteq> {b. free_move cm a b}"
        "{b. free_move cm a b} \<subseteq> insert a (set ns)"
        using getNeighbors_cells [OF small reach_valid [OF r aR]] by blast
      obtain q' v' where push: "push_unvisited ns (A' @ B') v = (q', v')"
        by fastforce
      have "a \<notin> set cands"
        using None by (simp add: find_index_None)
      then obtain B2 where B2: "q' = A' @ B2" "bfs_inv cm r (set cands) n' A' B2 v' (it + 1)"
        using bfs_inv_step [OF inv r _ ns(2,3) push] by blast
      have "bfs_loop cm cands mx it (A @ B) v = bfs_loop cm cands mx (it + 1) (A' @ B2) v'"
        using True q None ns(1) push B2(1) by (subst bfs_loop.simps) simp
      moreover have "mx - (it + 1) < mx - it"
        using True by linarith
      ultimately show ?thesis
        using less.hyps B2(2) by simp
    qed
  qed
qed

section \<open>Properties\<close>

lemma candidate_cells_valid:
  assumes "candidate_cells cm nodes = Some ids" "\<forall>(x, y)\<in>set nodes. \<exists>c. worldToMap cm x y = Some (Some c)"
  shows "length ids = length nodes \<and> (\<forall>i<length nodes. \<exists>mx my.
    worldToMap cm (fst (nodes ! i)) (snd (nodes ! i)) = Some (Some (mx, my)) \<and> ids ! i = getIndex cm mx my)"
  using assms
proof (induction nodes arbitrary: ids)
  case (Cons p nodes)
  obtain x y where p: "p = (x, y)" by force
  then obtain mx my where c: "worldToMap cm x y = Some (Some (mx, my))"
    using Cons.prems(2) by auto
  then obtain ids' where ids': "candidate_cells cm nodes = Some ids'" "ids = getIndex cm mx my # ids'"
    using Cons.prems(1) p by auto
  then show ?case
    using Cons.IH [OF ids'(1)] Cons.prems(2) c p by (auto simp: nth_Cons split: nat.splits)
qed simp

lemma worldToMap_valid:
  assumes "cm_wf cm" "worldToMap cm x y = Some (Some (mx, my))"
  shows "unat (getIndex cm mx my) < map_cells cm"
proof -
  have "mx < cm_size_x cm" "my < cm_size_y cm"
    using assms(2) by (auto simp: worldToMap_def split: if_splits Option.bind_splits)
  from getIndex_nat(2) [OF assms(1) this] show ?thesis
    by (simp add: map_cells_def)
qed

text \<open>
  Candidates off the map are passed over, so the list of cells belongs to the positions of the others; the search counts
  in the list of cells.
\<close>

definition cand_on_map :: "costmap2d \<Rightarrow> real \<times> real \<Rightarrow> bool" where
  "cand_on_map cm c \<longleftrightarrow> (\<exists>mx my. worldToMap cm (fst c) (snd c) = Some (Some (mx, my)))"

definition on_positions :: "costmap2d \<Rightarrow> (real \<times> real) list \<Rightarrow> nat list" where
  "on_positions cm nodes = filter (\<lambda>j. cand_on_map cm (nodes ! j)) [0..<length nodes]"

lemma on_positions_Cons:
  "on_positions cm (c # nodes) = (if cand_on_map cm c then [0] else []) @ map Suc (on_positions cm nodes)"
proof -
  have "[0..<length (c # nodes)] = 0 # map Suc [0..<length nodes]"
    by (simp add: map_Suc_upt upt_conv_Cons del: upt_Suc)
  then show ?thesis
    by (simp add: on_positions_def filter_map comp_def del: upt_Suc)
qed

lemma candidate_cells_positions:
  assumes "candidate_cells cm nodes = Some ids"
  shows "length ids = length (on_positions cm nodes) \<and>
    (\<forall>i<length ids. \<exists>mx my. worldToMap cm (fst (nodes ! (on_positions cm nodes ! i)))
       (snd (nodes ! (on_positions cm nodes ! i))) = Some (Some (mx, my)) \<and> ids ! i = getIndex cm mx my)"
  using assms
proof (induction nodes arbitrary: ids)
  case Nil
  then show ?case
    by (simp add: on_positions_def)
next
  case (Cons c nodes)
  show ?case
  proof (cases "cand_on_map cm c")
    case True
    then obtain mx my ids' where c: "worldToMap cm (fst c) (snd c) = Some (Some (mx, my))"
      and ids: "candidate_cells cm nodes = Some ids'" "ids = getIndex cm mx my # ids'"
      using Cons.prems by (cases c) (auto simp: cand_on_map_def)
    then show ?thesis
      using Cons.IH [OF ids(1)] True by (auto simp: on_positions_Cons nth_Cons split: nat.splits)
  next
    case False
    then have "candidate_cells cm nodes = Some ids"
      using Cons.prems by (cases c) (auto simp: cand_on_map_def split: option.splits)
    then show ?thesis
      using Cons.IH False by (auto simp: on_positions_Cons)
  qed
qed

lemma on_positions_nth:
  assumes "i < length (on_positions cm nodes)"
  shows "i \<le> on_positions cm nodes ! i" "on_positions cm nodes ! i < length nodes"
    "on_positions cm nodes ! i = i \<longleftrightarrow> (\<forall>j\<le>i. cand_on_map cm (nodes ! j))"
  using assms
proof (induction nodes arbitrary: i)
  case Nil
  { case 1 then show ?case by (simp add: on_positions_def) }
  { case 2 then show ?case by (simp add: on_positions_def) }
  { case 3 then show ?case by (simp add: on_positions_def) }
next
  case (Cons c nodes)
  have all_Suc: "(\<forall>j\<le>Suc k. P j) \<longleftrightarrow> P 0 \<and> (\<forall>j\<le>k. P (Suc j))" for k and P :: "nat \<Rightarrow> bool"
    by (metis Suc_le_mono le0 not0_implies_Suc)
  { case 1
    then show ?case
      using Cons.IH(1) [of i] Cons.IH(1) [of "i - 1"] by (cases i) (auto simp: on_positions_Cons split: if_splits) }
  { case 2
    then show ?case
      using Cons.IH(2) by (cases i) (auto simp: on_positions_Cons nth_append split: if_splits) }
  { case 3
    show ?case
    proof (cases "cand_on_map cm c")
      case True
      then show ?thesis
        using 3 Cons.IH(3) by (cases i) (auto simp: on_positions_Cons all_Suc)
    next
      case False
      then have "i \<le> on_positions cm nodes ! i" "on_positions cm (c # nodes) ! i = Suc (on_positions cm nodes ! i)"
        using 3 Cons.IH(1) [of i] by (simp_all add: on_positions_Cons)
      then show ?thesis
        using False by auto
    qed }
qed

lemma bfs_search_found:
  assumes "float_map cm" "bfs_search cm r nodes mx = Some (True, i)"
  shows "\<exists>gx gy ids. worldToMap cm (fst r) (snd r) = Some (Some (gx, gy)) \<and> candidate_cells cm nodes = Some ids \<and>
    nearest_candidate cm (getIndex cm gx gy) ids i"
proof -
  obtain gx gy ids where w: "worldToMap cm (fst r) (snd r) = Some (Some (gx, gy))" "candidate_cells cm nodes = Some ids"
    and loop: "bfs_loop cm ids (nat mx) 0 [getIndex cm gx gy] {getIndex cm gx gy} = Some (Some i)"
    using assms(2) by (auto simp: bfs_search_def split: option.splits if_splits)
  have wf: "cm_wf cm"
    using assms(1) by (simp add: small_map_def float_map_def)
  from bfs_loop_result [OF assms(1) worldToMap_valid [OF wf w(1)] bfs_inv_start, of ids "nat mx"] loop
  have "nearest_candidate cm (getIndex cm gx gy) ids i"
    by simp
  then show ?thesis
    using w by blast
qed

text \<open>C17. On a map of fewer than \<open>2 ^ 30\<close> cells and at most \<open>2 ^ 24\<close> in width and height, where the coordinates are exact
  as \<open>float\<close>, with the pose and every candidate on the map, the search for the nearest node stays inside the costmap.
  If it finds one, the candidate at the index returned is reached in the fewest moves between free neighbouring
  cells, all eight directions counting alike; if it does not although it may take every cell, no candidate can be
  reached.\<close>

theorem bfs_search_nearest:
  assumes "float_map cm" "worldToMap cm rx ry = Some (Some (gx, gy))"
    and "candidate_cells cm nodes = Some ids" "ids \<noteq> []"
    and "\<forall>(x, y)\<in>set nodes. \<exists>c. worldToMap cm x y = Some (Some c)"
  shows "\<exists>found i. bfs_search cm (rx, ry) nodes mx = Some (found, i) \<and>
    (if found then i < length nodes \<and> nearest_candidate cm (getIndex cm gx gy) ids i
     else i = 0 \<and> (int (map_cells cm) \<le> mx \<longrightarrow>
       (\<forall>k. reach_in cm (getIndex cm gx gy) k \<inter> set ids = {})))"
proof -
  have wf: "cm_wf cm"
    using assms(1) by (simp add: small_map_def float_map_def)
  have len: "length ids = length nodes"
    using candidate_cells_valid [OF assms(3,5)] by blast
  obtain res where res: "bfs_loop cm ids (nat mx) 0 [getIndex cm gx gy] {getIndex cm gx gy} = Some res"
    "case res of Some i \<Rightarrow> nearest_candidate cm (getIndex cm gx gy) ids i
     | None \<Rightarrow> map_cells cm \<le> nat mx \<longrightarrow> (\<forall>k. reach_in cm (getIndex cm gx gy) k \<inter> set ids = {})"
    using bfs_loop_result [OF assms(1) worldToMap_valid [OF wf assms(2)] bfs_inv_start, of ids "nat mx"]
    by auto
  have "map_cells cm \<le> nat mx" if "int (map_cells cm) \<le> mx"
    using that by linarith
  then show ?thesis
    using assms(2-4) res len by (cases res) (auto simp: bfs_search_def nearest_candidate_def)
qed

text \<open>A map of three by two cells with an obstacle between the first two columns of the lower row.\<close>

definition ex_search_map :: costmap2d where
  "ex_search_map = sample_map 3 2 [0, 254, 0, 0, 0, 0]"

lemma ex_search_world:
  "worldToMap ex_search_map (5 / 4) (- (3 / 4)) = Some (Some (0, 0))"
  "worldToMap ex_search_map (9 / 4) (- (3 / 4)) = Some (Some (2, 0))"
  "worldToMap ex_search_map 0 0 = Some None"
  by (simp_all add: ex_search_map_def worldToMap_def cell_quot_def cast_uint_def trunc_def Let_def)

lemma ex_search_float: "float_map ex_search_map"
  by (simp add: float_map_def small_map_def map_cells_def ex_search_map_def sample_wf)

theorem bfs_search_nearest_witness:
  "\<exists>found i. bfs_search ex_search_map (5 / 4, - (3 / 4)) [(9 / 4, - (3 / 4))] 6 = Some (found, i) \<and>
    (if found then i < length [(9 / 4 :: real, - (3 / 4) :: real)] \<and>
       nearest_candidate ex_search_map (getIndex ex_search_map 0 0) [2] i
     else i = 0 \<and> (int (map_cells ex_search_map) \<le> 6 \<longrightarrow>
       (\<forall>k. reach_in ex_search_map (getIndex ex_search_map 0 0) k \<inter> set [2] = {})))"
proof (rule bfs_search_nearest)
  show "float_map ex_search_map"
    by (rule ex_search_float)
  show "candidate_cells ex_search_map [(9 / 4, - (3 / 4))] = Some [2]"
    by (simp add: ex_search_world getIndex_def)
qed (auto simp: ex_search_world)

end
