(* ===== verification/Line_Iterator.thy ===== *)
theory Line_Iterator
  imports Bresenham Costmap_Windows
begin

text \<open>
  The line iterator of \<open>nav2_util/line_iterator.hpp\<close>, with its members as integers: the coordinates are those
  of cells, far from the bounds of \<open>int\<close>. After \<open>k\<close> calls of \<open>advance\<close>, up to the last valid one, it stands on
  the cell in closed form below, between the two ends; the first and the last are the ends.
\<close>

record line_iterator =
  li_x :: int
  li_y :: int
  li_curpixel :: int
  li_xinc1 :: int
  li_xinc2 :: int
  li_yinc1 :: int
  li_yinc2 :: int
  li_den :: int
  li_num :: int
  li_numadd :: int
  li_numpixels :: int

definition LineIterator :: "int \<Rightarrow> int \<Rightarrow> int \<Rightarrow> int \<Rightarrow> line_iterator" where
  "LineIterator x0 y0 x1 y1 =
     (let deltax = \<bar>x1 - x0\<bar>; deltay = \<bar>y1 - y0\<bar>;
          xinc = (if x0 \<le> x1 then 1 else -1);
          yinc = (if y0 \<le> y1 then 1 else -1)
      in if deltay \<le> deltax
         then \<lparr>li_x = x0, li_y = y0, li_curpixel = 0, li_xinc1 = 0, li_xinc2 = xinc,
           li_yinc1 = yinc, li_yinc2 = 0, li_den = deltax, li_num = deltax div 2,
           li_numadd = deltay, li_numpixels = deltax\<rparr>
         else \<lparr>li_x = x0, li_y = y0, li_curpixel = 0, li_xinc1 = xinc, li_xinc2 = 0,
           li_yinc1 = 0, li_yinc2 = yinc, li_den = deltay, li_num = deltay div 2,
           li_numadd = deltax, li_numpixels = deltay\<rparr>)"

definition isValid :: "line_iterator \<Rightarrow> bool" where
  "isValid it \<longleftrightarrow> li_curpixel it \<le> li_numpixels it"

definition advance :: "line_iterator \<Rightarrow> line_iterator" where
  "advance it =
     (let num = li_num it + li_numadd it;
          it1 = (if li_den it \<le> num
                 then it\<lparr>li_num := num - li_den it, li_x := li_x it + li_xinc1 it,
                        li_y := li_y it + li_yinc1 it\<rparr>
                 else it\<lparr>li_num := num\<rparr>)
      in it1\<lparr>li_x := li_x it1 + li_xinc2 it, li_y := li_y it1 + li_yinc2 it,
             li_curpixel := li_curpixel it + 1\<rparr>)"

text \<open>\<open>for (i = 0; i < n; i++) iter.advance();\<close>\<close>

fun advances :: "nat \<Rightarrow> line_iterator \<Rightarrow> line_iterator" where
  "advances 0 it = it"
| "advances (Suc n) it = advances n (advance it)"

lemma advances_add: "advances (m + n) it = advances n (advances m it)"
  by (induction m arbitrary: it) auto

lemma advances_Suc: "advances (Suc n) it = advance (advances n it)"
  using advances_add [of n 1 it] by simp

section \<open>Where it stands\<close>

text \<open>The steps along the two axes after \<open>k\<close> rounds: \<open>M\<close> is the longer, \<open>b\<close> the shorter distance.\<close>

definition line_cell :: "int \<Rightarrow> int \<Rightarrow> int \<Rightarrow> int \<Rightarrow> nat \<Rightarrow> int \<times> int" where
  "line_cell x0 y0 x1 y1 k =
     (let dx = nat \<bar>x1 - x0\<bar>; dy = nat \<bar>y1 - y0\<bar>
      in if dy \<le> dx
         then (x0 + sgn (x1 - x0) * int k, y0 + sgn (y1 - y0) * int (minor_steps dx dy (dx div 2) k))
         else (x0 + sgn (x1 - x0) * int (minor_steps dy dx (dy div 2) k), y0 + sgn (y1 - y0) * int k))"

definition line_length :: "int \<Rightarrow> int \<Rightarrow> int \<Rightarrow> int \<Rightarrow> nat" where
  "line_length x0 y0 x1 y1 = nat (max \<bar>x1 - x0\<bar> \<bar>y1 - y0\<bar>)"

text \<open>One round of the numerator.\<close>

lemma minor_next:
  assumes "0 < M" "b \<le> M"
  shows "minor_steps M b e (Suc k) =
      minor_steps M b e k + (if M \<le> (e + k * b) mod M + b then 1 else 0)"
    and "(e + Suc k * b) mod M =
      (if M \<le> (e + k * b) mod M + b then (e + k * b) mod M + b - M else (e + k * b) mod M + b)"
proof -
  let ?r = "(e + k * b) mod M"
  have r: "?r < M"
    using assms(1) by simp
  have e: "e + Suc k * b = (?r + b) + (e + k * b) div M * M"
    by (simp add: algebra_simps)
  have "(e + Suc k * b) div M = (e + k * b) div M + (?r + b) div M"
    by (subst e, rule div_mult_self1) (use assms(1) in simp)
  moreover have "(?r + b) div M = (if M \<le> ?r + b then 1 else 0)"
    using r assms(2) by (auto intro: div_nat_eqI)
  ultimately show "minor_steps M b e (Suc k) =
      minor_steps M b e k + (if M \<le> ?r + b then 1 else 0)"
    by (simp add: minor_steps_def)
  have "(e + Suc k * b) mod M = (?r + b) mod M"
    by (subst e, rule mod_mult_self1)
  also have "\<dots> = (if M \<le> ?r + b then ?r + b - M else ?r + b)"
    using r assms(2) by (simp add: le_mod_geq)
  finally show "(e + Suc k * b) mod M = (if M \<le> ?r + b then ?r + b - M else ?r + b)" .
qed

definition line_inv :: "int \<Rightarrow> int \<Rightarrow> int \<Rightarrow> int \<Rightarrow> nat \<Rightarrow> line_iterator \<Rightarrow> bool" where
  "line_inv x0 y0 x1 y1 k it \<longleftrightarrow>
     (let M = line_length x0 y0 x1 y1; b = nat (min \<bar>x1 - x0\<bar> \<bar>y1 - y0\<bar>);
          it0 = LineIterator x0 y0 x1 y1
      in (li_x it, li_y it) = line_cell x0 y0 x1 y1 k \<and> li_curpixel it = int k \<and>
         li_num it = int ((M div 2 + k * b) mod M) \<and>
         li_xinc1 it = li_xinc1 it0 \<and> li_xinc2 it = li_xinc2 it0 \<and> li_yinc1 it = li_yinc1 it0 \<and>
         li_yinc2 it = li_yinc2 it0 \<and> li_den it = li_den it0 \<and> li_numadd it = li_numadd it0 \<and>
         li_numpixels it = int M)"

lemma half_mod: "n div 2 mod n = n div (2::nat)"
  by (cases "n = 0") simp_all

lemma half_div: "n div 2 div n = (0::nat)"
  by (cases "n = 0") simp_all

lemma line_inv_start: "line_inv x0 y0 x1 y1 0 (LineIterator x0 y0 x1 y1)"
proof -
  have h: "\<bar>z\<bar> div 2 = int (nat \<bar>z\<bar> div 2)" for z :: int
    by (simp add: zdiv_int)
  show ?thesis
    by (auto simp: line_inv_def LineIterator_def Let_def line_cell_def line_length_def minor_steps_def
        max_def half_mod half_div h)
qed

lemma LineIterator_shape:
  "li_den (LineIterator x0 y0 x1 y1) = int (line_length x0 y0 x1 y1)"
  "li_numadd (LineIterator x0 y0 x1 y1) = int (nat (min \<bar>x1 - x0\<bar> \<bar>y1 - y0\<bar>))"
  by (simp_all add: LineIterator_def Let_def line_length_def max_def min_def)

lemma advance_fields:
  "li_x (advance it) = li_x it + (if li_den it \<le> li_num it + li_numadd it then li_xinc1 it else 0) + li_xinc2 it"
  "li_y (advance it) = li_y it + (if li_den it \<le> li_num it + li_numadd it then li_yinc1 it else 0) + li_yinc2 it"
  "li_num (advance it) = (if li_den it \<le> li_num it + li_numadd it then li_num it + li_numadd it - li_den it
     else li_num it + li_numadd it)"
  "li_curpixel (advance it) = li_curpixel it + 1"
  "li_xinc1 (advance it) = li_xinc1 it" "li_xinc2 (advance it) = li_xinc2 it"
  "li_yinc1 (advance it) = li_yinc1 it" "li_yinc2 (advance it) = li_yinc2 it"
  "li_den (advance it) = li_den it" "li_numadd (advance it) = li_numadd it"
  "li_numpixels (advance it) = li_numpixels it"
  by (simp_all add: advance_def Let_def)

text \<open>The increments, with signs, when the line is not a point.\<close>

lemma LineIterator_inc:
  assumes "0 < line_length x0 y0 x1 y1"
  shows "\<bar>y1 - y0\<bar> \<le> \<bar>x1 - x0\<bar> \<Longrightarrow>
      li_xinc1 (LineIterator x0 y0 x1 y1) = 0 \<and> li_xinc2 (LineIterator x0 y0 x1 y1) = sgn (x1 - x0) \<and>
      (y1 \<noteq> y0 \<longrightarrow> li_yinc1 (LineIterator x0 y0 x1 y1) = sgn (y1 - y0)) \<and>
      li_yinc2 (LineIterator x0 y0 x1 y1) = 0"
    and "\<not> \<bar>y1 - y0\<bar> \<le> \<bar>x1 - x0\<bar> \<Longrightarrow>
      (x1 \<noteq> x0 \<longrightarrow> li_xinc1 (LineIterator x0 y0 x1 y1) = sgn (x1 - x0)) \<and>
      li_xinc2 (LineIterator x0 y0 x1 y1) = 0 \<and>
      li_yinc1 (LineIterator x0 y0 x1 y1) = 0 \<and> li_yinc2 (LineIterator x0 y0 x1 y1) = sgn (y1 - y0)"
  using assms by (auto simp: LineIterator_def Let_def line_length_def sgn_if)

text \<open>The step along the shorter axis, with its sign; there is none when it has no length.\<close>

lemma signed_minor:
  fixes z :: int
  assumes "0 < M" "b = nat \<bar>z\<bar>" "b \<le> M" "z \<noteq> 0 \<longrightarrow> d = sgn z"
  shows "sgn z * int (minor_steps M b (M div 2) (Suc k)) =
    sgn z * int (minor_steps M b (M div 2) k) + (if M \<le> (M div 2 + k * b) mod M + b then d else 0)"
proof (cases "z = 0")
  case True
  then have "\<not> M \<le> (M div 2 + k * b) mod M + b"
    using assms(1,2) by simp
  then show ?thesis
    using True by simp
next
  case False
  then show ?thesis
    using minor_next(1) [OF assms(1,3), of "M div 2" k] assms(4) by (simp add: algebra_simps)
qed

text \<open>One \<open>advance\<close> before the end.\<close>

lemma line_inv_next:
  assumes inv: "line_inv x0 y0 x1 y1 k it" and k: "k < line_length x0 y0 x1 y1"
  shows "line_inv x0 y0 x1 y1 (Suc k) (advance it)"
proof -
  define M b where "M = line_length x0 y0 x1 y1" and "b = nat (min \<bar>x1 - x0\<bar> \<bar>y1 - y0\<bar>)"
  let ?r = "(M div 2 + k * b) mod M" and ?it0 = "LineIterator x0 y0 x1 y1"
  have M: "0 < M" "b \<le> M"
    using k by (auto simp: M_def b_def line_length_def min_def max_def nat_le_eq_zle)
  note i = inv [unfolded line_inv_def Let_def, folded M_def b_def]
  have c: "li_den it = int M" "li_numadd it = int b" "li_num it = int ?r"
    using i LineIterator_shape [of x0 y0 x1 y1] by (simp_all only: M_def b_def)
  have cond: "li_den it \<le> li_num it + li_numadd it \<longleftrightarrow> M \<le> ?r + b"
    using c by linarith
  have num: "li_num (advance it) = int ((M div 2 + Suc k * b) mod M)"
    unfolding advance_fields(3) cond minor_next(2) [OF M, of "M div 2" k] using c by simp
  have pos: "(li_x (advance it), li_y (advance it)) = line_cell x0 y0 x1 y1 (Suc k)"
  proof (cases "\<bar>y1 - y0\<bar> \<le> \<bar>x1 - x0\<bar>")
    case True
    then have d: "nat \<bar>x1 - x0\<bar> = M" "nat \<bar>y1 - y0\<bar> = b"
      by (simp_all add: M_def b_def line_length_def)
    then have cell: "line_cell x0 y0 x1 y1 j =
        (x0 + sgn (x1 - x0) * int j, y0 + sgn (y1 - y0) * int (minor_steps M b (M div 2) j))" for j
      using M(2) by (simp add: line_cell_def Let_def)
    note inc = LineIterator_inc(1) [OF M(1) [unfolded M_def] True]
    have "y1 - y0 \<noteq> 0 \<longrightarrow> li_yinc1 it = sgn (y1 - y0)"
      using i inc by auto
    from signed_minor [OF M(1) d(2) [symmetric] M(2) this, of k] show ?thesis
      unfolding advance_fields(1,2) cond cell using i inc by (simp add: cell algebra_simps)
  next
    case False
    then have d: "nat \<bar>y1 - y0\<bar> = M" "nat \<bar>x1 - x0\<bar> = b"
      by (simp_all add: M_def b_def line_length_def)
    have "\<not> nat \<bar>y1 - y0\<bar> \<le> nat \<bar>x1 - x0\<bar>"
      using False by (simp add: nat_le_eq_zle)
    then have cell: "line_cell x0 y0 x1 y1 j =
        (x0 + sgn (x1 - x0) * int (minor_steps M b (M div 2) j), y0 + sgn (y1 - y0) * int j)" for j
      using d by (simp add: line_cell_def Let_def)
    note inc = LineIterator_inc(2) [OF M(1) [unfolded M_def] False]
    have "x1 - x0 \<noteq> 0 \<longrightarrow> li_xinc1 it = sgn (x1 - x0)"
      using i inc by auto
    from signed_minor [OF M(1) d(2) [symmetric] M(2) this, of k] show ?thesis
      unfolding advance_fields(1,2) cond cell using i inc by (simp add: cell algebra_simps)
  qed
  show ?thesis
    unfolding line_inv_def Let_def M_def [symmetric] b_def [symmetric]
    using i num pos by (simp add: advance_fields(4-))
qed

lemma line_inv_advances:
  "k \<le> line_length x0 y0 x1 y1 \<Longrightarrow> line_inv x0 y0 x1 y1 k (advances k (LineIterator x0 y0 x1 y1))"
proof (induction k)
  case (Suc k)
  then show ?case
    using line_inv_next [of x0 y0 x1 y1 k] by (simp add: advances_Suc del: advances.simps)
qed (simp add: line_inv_start)

lemma advance_counts:
  "li_curpixel (advances n it) = li_curpixel it + int n \<and> li_numpixels (advances n it) = li_numpixels it"
  by (induction n arbitrary: it) (simp_all add: advance_def Let_def)

lemma LineIterator_counts:
  "li_curpixel (LineIterator x0 y0 x1 y1) = 0"
  "li_numpixels (LineIterator x0 y0 x1 y1) = int (line_length x0 y0 x1 y1)"
  by (auto simp: LineIterator_def Let_def line_length_def)

text \<open>The iterator after \<open>k\<close> advances: valid up to the length of the line, and then on its cell.\<close>

lemma line_valid:
  "isValid (advances k (LineIterator x0 y0 x1 y1)) \<longleftrightarrow> k \<le> line_length x0 y0 x1 y1"
  using advance_counts [of k "LineIterator x0 y0 x1 y1"] by (simp add: isValid_def LineIterator_counts)

lemma line_position:
  assumes "k \<le> line_length x0 y0 x1 y1"
  shows "(li_x (advances k (LineIterator x0 y0 x1 y1)), li_y (advances k (LineIterator x0 y0 x1 y1))) =
    line_cell x0 y0 x1 y1 k"
  using line_inv_advances [OF assms] by (simp add: line_inv_def Let_def)

lemma signed_between:
  fixes a b :: int
  assumes "n \<le> nat \<bar>b - a\<bar>"
  shows "min a b \<le> a + sgn (b - a) * int n \<and> a + sgn (b - a) * int n \<le> max a b"
  using assms by (cases "a \<le> b") (auto simp: sgn_if)

lemma signed_end:
  fixes a b :: int
  shows "a + sgn (b - a) * \<bar>b - a\<bar> = b"
  using sgn_mult_abs [of "b - a"] by simp

lemma minor_steps_half:
  assumes "b \<le> M" "k \<le> M"
  shows "minor_steps M b (M div 2) k \<le> b" "minor_steps M b (M div 2) M = b"
proof -
  show "minor_steps M b (M div 2) k \<le> b"
    using minor_steps_le [of "M div 2" M k b] assms by (cases "M = 0") (auto simp: minor_steps_def)
  show "minor_steps M b (M div 2) M = b"
    using minor_steps_all [of "M div 2" M b] assms by (cases "M = 0") (auto simp: minor_steps_def)
qed

lemma line_cell_ends:
  "line_cell x0 y0 x1 y1 0 = (x0, y0)"
  "line_cell x0 y0 x1 y1 (line_length x0 y0 x1 y1) = (x1, y1)"
proof -
  show "line_cell x0 y0 x1 y1 0 = (x0, y0)"
    by (simp add: line_cell_def Let_def minor_steps_def half_div)
  show "line_cell x0 y0 x1 y1 (line_length x0 y0 x1 y1) = (x1, y1)"
  proof (cases "\<bar>y1 - y0\<bar> \<le> \<bar>x1 - x0\<bar>")
    case True
    then have "nat \<bar>y1 - y0\<bar> \<le> nat \<bar>x1 - x0\<bar>" "line_length x0 y0 x1 y1 = nat \<bar>x1 - x0\<bar>"
      by (simp_all add: line_length_def)
    then show ?thesis
      by (simp add: line_cell_def Let_def minor_steps_half(2) [OF _ le_refl] signed_end)
  next
    case False
    then have "\<not> nat \<bar>y1 - y0\<bar> \<le> nat \<bar>x1 - x0\<bar>" "line_length x0 y0 x1 y1 = nat \<bar>y1 - y0\<bar>"
      by (simp_all add: line_length_def nat_le_eq_zle)
    then show ?thesis
      by (simp add: line_cell_def Let_def minor_steps_half(2) [OF _ le_refl] signed_end)
  qed
qed

lemma line_cell_box:
  assumes "k \<le> line_length x0 y0 x1 y1"
  shows "min x0 x1 \<le> fst (line_cell x0 y0 x1 y1 k)" "fst (line_cell x0 y0 x1 y1 k) \<le> max x0 x1"
    "min y0 y1 \<le> snd (line_cell x0 y0 x1 y1 k)" "snd (line_cell x0 y0 x1 y1 k) \<le> max y0 y1"
proof -
  let ?a = "nat \<bar>x1 - x0\<bar>" and ?b = "nat \<bar>y1 - y0\<bar>"
  obtain i j where ij: "line_cell x0 y0 x1 y1 k =
      (x0 + sgn (x1 - x0) * int i, y0 + sgn (y1 - y0) * int j)" "i \<le> ?a" "j \<le> ?b"
  proof (cases "?b \<le> ?a")
    case True
    then have k: "k \<le> ?a"
      using assms by (simp add: line_length_def nat_le_eq_zle)
    show ?thesis
      by (rule that [OF _ k minor_steps_half(1) [OF True k]]) (use True in \<open>simp add: line_cell_def Let_def\<close>)
  next
    case False
    then have k: "k \<le> ?b" "?a \<le> ?b"
      using assms by (auto simp: line_length_def)
    show ?thesis
      by (rule that [OF _ minor_steps_half(1) [OF k(2,1)] k(1)])
        (use False in \<open>simp add: line_cell_def Let_def\<close>)
  qed
  show "min x0 x1 \<le> fst (line_cell x0 y0 x1 y1 k)" "fst (line_cell x0 y0 x1 y1 k) \<le> max x0 x1"
    using signed_between [OF ij(2)] ij(1) by simp_all
  show "min y0 y1 \<le> snd (line_cell x0 y0 x1 y1 k)" "snd (line_cell x0 y0 x1 y1 k) \<le> max y0 y1"
    using signed_between [OF ij(3)] ij(1) by simp_all
qed

end
