(* ===== verification/Route_Costmap.thy ===== *)
theory Route_Costmap
  imports Goal_Search Line_Iterator Route_Scorers Route_Tracker
begin

text \<open>
  The parts of the route server that look along lines of a costmap: the line of sight check
  (\<open>goal_intent_search.hpp\<close>), the costmap scorer and the collision monitor operation. \<open>None\<close> as a result
  is undefined behaviour - a read outside the costmap or of an indeterminate variable, a line of \<open>2 ^ 30\<close>
  cells or more, on which the \<open>int\<close> arithmetic of the iterator may overflow - or a loop that does not end.
  Lengths and points between two points are exact.
\<close>

section \<open>Walking along a line\<close>

text \<open>The variables a conversion writes: a point below the origin leaves them as they were.\<close>

definition worldToMap_out :: "costmap2d \<Rightarrow> real \<Rightarrow> real \<Rightarrow> (bool \<times> (u32 \<times> u32) option) option" where
  "worldToMap_out cm wx wy =
     (if wx < cm_origin_x cm \<or> wy < cm_origin_y cm then Some (False, None)
      else
        (case (Option.bind (cell_quot wx (cm_origin_x cm) (cm_resolution cm)) cast_uint,
               Option.bind (cell_quot wy (cm_origin_y cm) (cm_resolution cm)) cast_uint) of
           (Some mx, Some my) \<Rightarrow> Some (mx < cm_size_x cm \<and> my < cm_size_y cm, Some (mx, my))
         | _ \<Rightarrow> None))"

definition line_iter :: "u32 \<times> u32 \<Rightarrow> u32 \<times> u32 \<Rightarrow> line_iterator option" where
  "line_iter p q =
     (if \<bar>sint (fst q) - sint (fst p)\<bar> < 2 ^ 30 \<and> \<bar>sint (snd q) - sint (snd p)\<bar> < 2 ^ 30
      then Some (LineIterator (sint (fst p)) (sint (snd p)) (sint (fst q)) (sint (snd q)))
      else None)"

definition cost_at :: "costmap2d \<Rightarrow> int \<times> int \<Rightarrow> u8 option" where
  "cost_at cm c = getCost cm (word_of_int (fst c)) (word_of_int (snd c))"

definition iter_cost :: "costmap2d \<Rightarrow> line_iterator \<Rightarrow> u8 option" where
  "iter_cost cm it = cost_at cm (li_x it, li_y it)"

partial_function (option) line_collides ::
  "costmap2d \<Rightarrow> real \<Rightarrow> nat \<Rightarrow> line_iterator \<Rightarrow> bool option" where
  "line_collides cm max_cost check_resolution it =
     (if \<not> isValid it then Some False
      else
        (case iter_cost cm it of
           None \<Rightarrow> None
         | Some cost \<Rightarrow>
             if max_cost \<le> real (unat cost) \<and> cost \<noteq> 255 then Some True
             else line_collides cm max_cost check_resolution (advances check_resolution it)))"

section \<open>Line of sight\<close>

definition LoS_worldToMap ::
  "costmap2d \<Rightarrow> real \<times> real \<Rightarrow> real \<times> real \<Rightarrow> ((u32 \<times> u32) \<times> (u32 \<times> u32)) option option" where
  "LoS_worldToMap cm s f =
     (case worldToMap cm (fst s) (snd s) of
        None \<Rightarrow> None
      | Some None \<Rightarrow> Some None
      | Some (Some p) \<Rightarrow> map_option (map_option (Pair p)) (worldToMap cm (fst f) (snd f)))"

definition LoS_isInCollision :: "costmap2d \<Rightarrow> (u32 \<times> u32) \<times> (u32 \<times> u32) \<Rightarrow> bool option" where
  "LoS_isInCollision cm line =
     (case line_iter (fst line) (snd line) of
        None \<Rightarrow> None
      | Some it \<Rightarrow> line_collides cm 253 1 it)"

section \<open>The costmap scorer\<close>

record costmap_scorer =
  use_max :: bool
  invalid_on_collision :: bool
  invalid_off_map :: bool
  cs_weight :: real
  cs_max_cost :: real
  cs_resolution :: nat

text \<open>The loop: \<open>None\<close> inside the result is the verdict that the edge is invalid.\<close>

partial_function (option) score_line ::
  "(real \<Rightarrow> real) \<Rightarrow> costmap_scorer \<Rightarrow> costmap2d \<Rightarrow> line_iterator \<Rightarrow> nat \<Rightarrow> real \<Rightarrow> real \<Rightarrow>
   (nat \<times> real \<times> real) option option" where
  "score_line rnd cs cm it idx running_cost largest_cost =
     (if \<not> isValid it then Some (Some (idx, running_cost, largest_cost))
      else
        (case iter_cost cm it of
           None \<Rightarrow> None
         | Some c \<Rightarrow>
             let point_cost = real (unat c)
             in if cs_max_cost cs \<le> point_cost \<and> cs_max_cost cs \<noteq> 255 \<and> invalid_on_collision cs
                then Some None
                else score_line rnd cs cm (advances (cs_resolution cs) it) (idx + 1)
                       (rnd (running_cost + point_cost))
                       (if largest_cost < point_cost \<and> point_cost \<noteq> 255 then point_cost
                        else largest_cost)))"

definition CostmapScorer_score ::
  "(real \<Rightarrow> real) \<Rightarrow> costmap_scorer \<Rightarrow> costmap2d option \<Rightarrow> graph \<Rightarrow> dir_edge \<Rightarrow> real \<Rightarrow>
   (bool \<times> real) option" where
  "CostmapScorer_score rnd cs costmap g e cost =
     (case costmap of
        None \<Rightarrow> Some (False, cost)
      | Some cm \<Rightarrow>
          (case LoS_worldToMap cm (co_x (coords (g ! e_start e)), co_y (coords (g ! e_start e)))
                 (co_x (coords (g ! e_end e)), co_y (coords (g ! e_end e))) of
             None \<Rightarrow> None
           | Some None \<Rightarrow> Some (\<not> invalid_off_map cs, cost)
           | Some (Some (p, q)) \<Rightarrow>
               (case Option.bind (line_iter p q) (\<lambda>it. score_line rnd cs cm it 0 0 0) of
                  None \<Rightarrow> None
                | Some None \<Rightarrow> Some (False, cost)
                | Some (Some (idx, running_cost, largest_cost)) \<Rightarrow>
                    Some (True,
                      if use_max cs then fdiv (cs_weight cs * largest_cost) (cs_max_cost cs)
                      else fdiv (cs_weight cs * running_cost) (real idx * cs_max_cost cs)))))"

section \<open>The collision monitor\<close>

record collision_monitor =
  last_check_time :: real
  checking_duration :: real
  reroute_on_collision :: bool
  mon_max_cost :: real
  mon_resolution :: nat
  max_collision_dist :: real

definition backoutValidEndPoint :: "coordinates \<Rightarrow> coordinates \<Rightarrow> real \<Rightarrow> coordinates" where
  "backoutValidEndPoint s f d =
     (let dx = co_x f - co_x s; dy = co_y f - co_y s; mag = hypotf dx dy
      in if mag < 1 / 10 ^ 6 then s
         else Coordinates_new\<lparr>co_x := (dx / mag) * d + co_x s, co_y := (dy / mag) * d + co_y s\<rparr>)"

text \<open>The cells of a line; a pair that was not written is \<open>None\<close>.\<close>

definition lineToMap ::
  "costmap2d \<Rightarrow> coordinates \<Rightarrow> coordinates \<Rightarrow>
   (bool \<times> (u32 \<times> u32) option \<times> (u32 \<times> u32) option) option" where
  "lineToMap cm s f =
     (case worldToMap_out cm (co_x s) (co_y s) of
        None \<Rightarrow> None
      | Some (start_on, p) \<Rightarrow>
          if \<not> start_on then Some (False, p, None)
          else
            (case worldToMap_out cm (co_x f) (co_y f) of
               None \<Rightarrow> None
             | Some (end_on, q) \<Rightarrow> Some (end_on, p, q)))"

lemma advance_pixel: "li_curpixel (advance it) = li_curpixel it + 1" "li_numpixels (advance it) = li_numpixels it"
  by (simp_all add: advance_def Let_def)

function backout_loop ::
  "int \<Rightarrow> int \<Rightarrow> line_iterator \<Rightarrow> int \<times> int \<Rightarrow> (int \<times> int) option" where
  "backout_loop size_x size_y it last_end =
     (if isValid it
      then if size_x \<le> li_x it \<or> size_y \<le> li_y it then Some last_end
           else backout_loop size_x size_y (advance it) (li_x it, li_y it)
      else None)"
  by pat_completeness auto
termination
  by (relation "measure (\<lambda>(_, _, it, _). nat (li_numpixels it + 1 - li_curpixel it))")
    (auto simp: isValid_def advance_pixel)

declare backout_loop.simps [simp del]

definition backoutValidEndPoint_line ::
  "costmap2d \<Rightarrow> coordinates \<Rightarrow> (u32 \<times> u32) option \<Rightarrow> ((u32 \<times> u32) \<times> (u32 \<times> u32)) option option" where
  "backoutValidEndPoint_line cm s line_end =
     (case worldToMap cm (co_x s) (co_y s) of
        None \<Rightarrow> None
      | Some None \<Rightarrow> Some None
      | Some (Some p) \<Rightarrow>
          (case Option.bind line_end (line_iter p) of
             None \<Rightarrow> None
           | Some it \<Rightarrow>
               Some (map_option (\<lambda>(x, y). (p, (word_of_int x, word_of_int y)))
                 (backout_loop (sint (cm_size_x cm)) (sint (cm_size_y cm)) it
                   (sint (fst p), sint (snd p))))))"

definition CollisionMonitor_isInCollision ::
  "collision_monitor \<Rightarrow> costmap2d \<Rightarrow> (u32 \<times> u32) \<times> (u32 \<times> u32) \<Rightarrow> bool option" where
  "CollisionMonitor_isInCollision mon cm line =
     (case line_iter (fst line) (snd line) of
        None \<Rightarrow> None
      | Some it \<Rightarrow> line_collides cm (mon_max_cost mon) (mon_resolution mon) it)"

text \<open>The edge after the first one with an id.\<close>

fun edge_after :: "u32 \<Rightarrow> dir_edge list \<Rightarrow> dir_edge option" where
  "edge_after eid [] = None"
| "edge_after eid (e # es) =
     (if edgeid e = eid then (case es of [] \<Rightarrow> None | e' # _ \<Rightarrow> Some e') else edge_after eid es)"

text \<open>
  The check of one stretch: whether it is in collision, and whether both ends are on the map. If neither end
  can be used, the loop breaks.
\<close>

definition check_segment ::
  "collision_monitor \<Rightarrow> costmap2d \<Rightarrow> coordinates \<Rightarrow> coordinates \<Rightarrow> (bool \<times> bool) option" where
  "check_segment mon cm s f =
     (case lineToMap cm s f of
        None \<Rightarrow> None
      | Some (on_map, p, q) \<Rightarrow>
          (case (if on_map then Some (Some (the p, the q)) else backoutValidEndPoint_line cm s q) of
             None \<Rightarrow> None
           | Some None \<Rightarrow> Some (False, False)
           | Some (Some line) \<Rightarrow>
               map_option (\<lambda>b. (b, on_map)) (CollisionMonitor_isInCollision mon cm line)))"

text \<open>The loop of \<open>perform\<close>: the id of the edge it finds in collision.\<close>

partial_function (option) monitor_loop ::
  "collision_monitor \<Rightarrow> costmap2d \<Rightarrow> graph \<Rightarrow> route \<Rightarrow> u32 \<Rightarrow> coordinates \<Rightarrow> coordinates \<Rightarrow> real \<Rightarrow>
   u32 option option" where
  "monitor_loop mon cm g route curr_edge_id s f dist_checked =
     (let edge_dist = hypotf (co_x f - co_x s) (co_y f - co_y s);
          cut = max_collision_dist mon \<le> dist_checked + edge_dist;
          f' = (if cut then backoutValidEndPoint s f (max_collision_dist mon - dist_checked) else f)
      in case check_segment mon cm s f' of
           None \<Rightarrow> None
         | Some r \<Rightarrow>
             if fst r then Some (Some curr_edge_id)
             else if cut \<or> \<not> snd r then Some None
             else
               (case edge_after curr_edge_id (edges route) of
                  None \<Rightarrow> Some None
                | Some e \<Rightarrow>
                    monitor_loop mon cm g route (edgeid e) f' (coords (g ! e_end e))
                      (dist_checked + edge_dist)))"

text \<open>The costmap is \<open>None\<close> when the subscriber throws.\<close>

definition CollisionMonitor_perform ::
  "graph \<Rightarrow> real \<Rightarrow> costmap2d option \<Rightarrow> dir_edge option \<Rightarrow> route \<Rightarrow> pose \<Rightarrow> collision_monitor \<Rightarrow>
   ((route_exception + operation_result) \<times> collision_monitor) option" where
  "CollisionMonitor_perform g now costmap edge_entered route pose mon =
     (case edge_entered of
        None \<Rightarrow> Some (Inr OperationResult_new, mon)
      | Some e \<Rightarrow>
          if now - last_check_time mon < checking_duration mon then Some (Inr OperationResult_new, mon)
          else
            let mon' = mon\<lparr>last_check_time := now\<rparr>
            in case costmap of
                 None \<Rightarrow> Some (Inl OperationFailed, mon')
               | Some cm \<Rightarrow>
                   (case monitor_loop mon' cm g route (edgeid e)
                      (findClosestPoint pose (coords (g ! e_start e)) (coords (g ! e_end e)))
                      (coords (g ! e_end e)) 0 of
                      None \<Rightarrow> None
                    | Some None \<Rightarrow> Some (Inr OperationResult_new, mon')
                    | Some (Some blocked) \<Rightarrow>
                        Some (if reroute_on_collision mon'
                          then Inr (OperationResult_new\<lparr>reroute := True, res_blocked := [blocked]\<rparr>)
                          else Inl OperationFailed, mon')))"

end
