(* ===== verification/Route_Costmap_Props.thy ===== *)
theory Route_Costmap_Props
  imports Route_Costmap
begin

text \<open>
  What a walk along a line of a costmap sees: the cells of the line, every one or every \<open>n\<close>-th, all inside the
  map. From it the results of the line of sight check, the costmap scorer and the collision monitor follow.
\<close>

section \<open>The cells a walk visits\<close>

text \<open>The steps \<open>k, k + res, k + 2 res, ...\<close> up to \<open>len\<close>; none for a resolution of zero.\<close>

function steps_from :: "nat \<Rightarrow> nat \<Rightarrow> nat \<Rightarrow> nat list" where
  "steps_from res len k = (if k \<le> len \<and> 0 < res then k # steps_from res len (k + res) else [])"
  by pat_completeness auto
termination
  by (relation "measure (\<lambda>(res, len, k). len + 1 - k)") auto

declare steps_from.simps [simp del]

lemma set_steps_from: "0 < res \<Longrightarrow> set (steps_from res len k) = {i. \<exists>j. i = k + j * res \<and> i \<le> len}"
proof (induction res len k rule: steps_from.induct)
  case (1 res len k)
  show ?case
  proof (cases "k \<le> len")
    case True
    have "{i. \<exists>j. i = k + j * res \<and> i \<le> len} =
        insert k {i. \<exists>j. i = (k + res) + j * res \<and> i \<le> len}" (is "?L = insert k ?R")
    proof (rule set_eqI, rule iffI)
      fix i
      assume "i \<in> ?L"
      then obtain j where j: "i = k + j * res" "i \<le> len"
        by blast
      show "i \<in> insert k ?R"
      proof (cases j)
        case (Suc j')
        then show ?thesis
          using j by (auto intro!: exI [of _ j'])
      qed (simp add: j)
    next
      fix i
      assume "i \<in> insert k ?R"
      then show "i \<in> ?L"
      proof
        assume "i = k"
        then show ?thesis
          using True by (auto intro!: exI [of _ 0])
      next
        assume "i \<in> ?R"
        then obtain j where "i = k + res + j * res" "i \<le> len"
          by blast
        then show ?thesis
          by (auto intro!: exI [of _ "Suc j"])
      qed
    qed
    then show ?thesis
      using 1 True by (subst steps_from.simps) simp
  next
    case False
    then show ?thesis
      by (subst steps_from.simps) auto
  qed
qed

lemma steps_from_one: "set (steps_from 1 len 0) = {0..len}"
  by (auto simp: set_steps_from)

text \<open>The costs at these steps of the line between two cells.\<close>

definition line_len :: "u32 \<times> u32 \<Rightarrow> u32 \<times> u32 \<Rightarrow> nat" where
  "line_len p q = line_length (int (unat (fst p))) (int (unat (snd p))) (int (unat (fst q))) (int (unat (snd q)))"

definition on_line :: "u32 \<times> u32 \<Rightarrow> u32 \<times> u32 \<Rightarrow> nat \<Rightarrow> int \<times> int" where
  "on_line p q k =
     line_cell (int (unat (fst p))) (int (unat (snd p))) (int (unat (fst q))) (int (unat (snd q))) k"

definition samples :: "costmap2d \<Rightarrow> nat \<Rightarrow> u32 \<times> u32 \<Rightarrow> u32 \<times> u32 \<Rightarrow> u8 list" where
  "samples cm res p q = map (\<lambda>k. the (cost_at cm (on_line p q k))) (steps_from res (line_len p q) 0)"

definition in_cells :: "costmap2d \<Rightarrow> u32 \<times> u32 \<Rightarrow> bool" where
  "in_cells cm p \<longleftrightarrow> fst p < cm_size_x cm \<and> snd p < cm_size_y cm"

lemma in_cells_bounds:
  assumes "small_map cm" "in_cells cm p"
  shows "unat (fst p) < 2 ^ 30" "unat (snd p) < 2 ^ 30"
    "sint (fst p) = int (unat (fst p))" "sint (snd p) = int (unat (snd p))"
proof -
  have c: "unat (fst p) < unat (cm_size_x cm)" "unat (snd p) < unat (cm_size_y cm)"
    using assms(2) by (simp_all add: in_cells_def word_less_nat_alt)
  have m: "unat (cm_size_x cm) * unat (cm_size_y cm) < 2 ^ 30"
    using assms(1) by (simp add: small_map_def map_cells_def)
  have "unat (cm_size_x cm) * 1 \<le> unat (cm_size_x cm) * unat (cm_size_y cm)"
    using c by (intro mult_le_mono2) linarith
  moreover have "1 * unat (cm_size_y cm) \<le> unat (cm_size_x cm) * unat (cm_size_y cm)"
    using c by (intro mult_le_mono1) linarith
  ultimately show b: "unat (fst p) < 2 ^ 30" "unat (snd p) < 2 ^ 30"
    using c m by linarith+
  then show "sint (fst p) = int (unat (fst p))" "sint (snd p) = int (unat (snd p))"
    by (simp_all add: sint_small)
qed

lemma line_iter_cells:
  assumes "small_map cm" "in_cells cm p" "in_cells cm q"
  shows "line_iter p q = Some (LineIterator (int (unat (fst p))) (int (unat (snd p)))
    (int (unat (fst q))) (int (unat (snd q))))"
proof -
  note b = in_cells_bounds [OF assms(1,2)] in_cells_bounds [OF assms(1,3)]
  have d: "\<bar>int m - int n\<bar> < 2 ^ 30" if "m < 2 ^ 30" "n < 2 ^ 30" for m n :: nat
    using that by (simp add: abs_less_iff)
  show ?thesis
    using d [OF b(5,1)] d [OF b(6,2)] b(3,4,7,8) by (simp add: line_iter_def)
qed

lemma cost_on_line:
  assumes "small_map cm" "in_cells cm p" "in_cells cm q" "k \<le> line_len p q"
  shows "\<exists>c. cost_at cm (on_line p q k) = Some c"
proof -
  note box = line_cell_box [OF assms(4) [unfolded line_len_def], folded on_line_def]
  note b = in_cells_bounds [OF assms(1,2)] in_cells_bounds [OF assms(1,3)]
  obtain x y where xy: "on_line p q k = (x, y)"
    by fastforce
  have r: "0 \<le> x" "x \<le> int (max (unat (fst p)) (unat (fst q)))"
    "0 \<le> y" "y \<le> int (max (unat (snd p)) (unat (snd q)))"
    using box xy by (simp_all add: min_def max_def split: if_splits)
  have lt: "max (unat (fst p)) (unat (fst q)) < unat (cm_size_x cm)"
    "max (unat (snd p)) (unat (snd q)) < unat (cm_size_y cm)"
    using assms(2,3) by (simp_all add: in_cells_def word_less_nat_alt)
  have "int (max (unat (fst p)) (unat (fst q))) < 2 ^ 32" "int (max (unat (snd p)) (unat (snd q))) < 2 ^ 32"
    using less_trans [OF lt(1) u32_less] less_trans [OF lt(2) u32_less] by simp_all
  then have "x < 2 ^ 32" "y < 2 ^ 32"
    using r by linarith+
  then have "int (unat (word_of_int x :: u32)) = x" "int (unat (word_of_int y :: u32)) = y"
    using r unat_of_int_pos [of x] unat_of_int_pos [of y] by simp_all
  then have "(word_of_int x :: u32) < cm_size_x cm" "(word_of_int y :: u32) < cm_size_y cm"
    unfolding word_less_nat_alt using r lt by linarith+
  note lt_words = this
  have wf: "cm_wf cm"
    using assms(1) by (simp add: small_map_def)
  then obtain m where "cm_costmap cm = Some m"
    by (auto simp: cm_wf_def split: option.splits)
  from getCost_cell [OF wf lt_words this] show ?thesis
    using xy by (simp add: cost_at_def)
qed

lemma iter_cost_on_line:
  assumes "k \<le> line_len p q"
  shows "iter_cost cm (advances k (LineIterator (int (unat (fst p))) (int (unat (snd p)))
      (int (unat (fst q))) (int (unat (snd q))))) = cost_at cm (on_line p q k)"
  using line_position [OF assms [unfolded line_len_def]] by (simp add: iter_cost_def on_line_def)

section \<open>Collisions on a line\<close>

lemma line_collides_from:
  assumes "small_map cm" "in_cells cm p" "in_cells cm q" "0 < res"
    and "it = LineIterator (int (unat (fst p))) (int (unat (snd p))) (int (unat (fst q))) (int (unat (snd q)))"
  shows "line_collides cm max_cost res (advances k it) =
    Some (\<exists>i\<in>set (steps_from res (line_len p q) k).
      max_cost \<le> real (unat (the (cost_at cm (on_line p q i)))) \<and> the (cost_at cm (on_line p q i)) \<noteq> 255)"
proof (induction "line_len p q + 1 - k" arbitrary: k rule: less_induct)
  case less
  have valid: "isValid (advances k it) \<longleftrightarrow> k \<le> line_len p q"
    using line_valid assms(5) by (simp add: line_len_def)
  show ?case
  proof (cases "k \<le> line_len p q")
    case True
    obtain c where c: "cost_at cm (on_line p q k) = Some c"
      using cost_on_line [OF assms(1-3) True] by blast
    have next_step: "advances res (advances k it) = advances (k + res) it"
      by (simp add: advances_add)
    have "line_len p q + 1 - (k + res) < line_len p q + 1 - k"
      using True assms(4) by linarith
    note IH = less [OF this]
    show ?thesis
      using valid True c iter_cost_on_line [OF True, of cm, folded assms(5)] assms(4) IH
      by (subst line_collides.simps, subst steps_from.simps) (simp add: next_step, blast)
  next
    case False
    then show ?thesis
      using valid by (subst line_collides.simps, subst steps_from.simps) simp
  qed
qed

lemma line_collides_samples:
  assumes "small_map cm" "in_cells cm p" "in_cells cm q" "0 < res" "line_iter p q = Some it"
  shows "line_collides cm max_cost res it =
    Some (\<exists>c\<in>set (samples cm res p q). max_cost \<le> real (unat c) \<and> c \<noteq> 255)"
  using line_collides_from [OF assms(1-4) refl, of max_cost 0] assms(5) line_iter_cells [OF assms(1-3)]
  by (simp add: samples_def)

text \<open>With a resolution of zero the walk stays on its first cell.\<close>

lemma line_collides_zero:
  assumes "line_collides cm max_cost res it = Some b"
  shows "res = 0 \<longrightarrow> isValid it \<longrightarrow> iter_cost cm it = Some c \<longrightarrow> max_cost \<le> real (unat c) \<and> c \<noteq> 255"
proof (rule line_collides.raw_induct [OF _ assms, where P = "\<lambda>cm mx res it b. res = 0 \<longrightarrow> isValid it \<longrightarrow>
    iter_cost cm it = Some c \<longrightarrow> mx \<le> real (unat c) \<and> c \<noteq> 255"])
  fix f cm mx res it b
  assume IH: "\<And>cm mx res it b. f cm mx res it = Some b \<Longrightarrow> res = 0 \<longrightarrow> isValid it \<longrightarrow>
      iter_cost cm it = Some c \<longrightarrow> mx \<le> real (unat c) \<and> c \<noteq> 255"
    and step: "(if \<not> isValid it then Some False
      else
        (case iter_cost cm it of
           None \<Rightarrow> None
         | Some cost \<Rightarrow>
             if mx \<le> real (unat cost) \<and> cost \<noteq> 255 then Some True
             else f cm mx res (advances res it))) = Some b"
  show "res = 0 \<longrightarrow> isValid it \<longrightarrow> iter_cost cm it = Some c \<longrightarrow> mx \<le> real (unat c) \<and> c \<noteq> 255"
    using step IH by (auto split: if_splits)
qed

lemma score_line_zero:
  assumes "score_line rnd cs cm it idx run lar = Some r"
  shows "cs_resolution cs = 0 \<longrightarrow> isValid it \<longrightarrow> iter_cost cm it = Some c \<longrightarrow> cs_max_cost cs \<le> real (unat c)"
proof (rule score_line.raw_induct [OF _ assms, where P = "\<lambda>rnd cs cm it idx run lar r. cs_resolution cs = 0 \<longrightarrow>
    isValid it \<longrightarrow> iter_cost cm it = Some c \<longrightarrow> cs_max_cost cs \<le> real (unat c)"])
  fix f :: "(real \<Rightarrow> real) \<Rightarrow> costmap_scorer \<Rightarrow> costmap2d \<Rightarrow> line_iterator \<Rightarrow> nat \<Rightarrow> real \<Rightarrow> real \<Rightarrow>
      (nat \<times> real \<times> real) option option"
    and rnd cs cm it idx run lar r
  assume IH: "\<And>rnd cs cm it idx run lar r. f rnd cs cm it idx run lar = Some r \<Longrightarrow>
      cs_resolution cs = 0 \<longrightarrow> isValid it \<longrightarrow> iter_cost cm it = Some c \<longrightarrow> cs_max_cost cs \<le> real (unat c)"
    and step: "(if \<not> isValid it then Some (Some (idx, run, lar))
      else
        (case iter_cost cm it of
           None \<Rightarrow> None
         | Some c \<Rightarrow>
             let point_cost = real (unat c)
             in if cs_max_cost cs \<le> point_cost \<and> cs_max_cost cs \<noteq> 255 \<and> invalid_on_collision cs
                then Some None
                else f rnd cs cm (advances (cs_resolution cs) it) (idx + 1) (rnd (run + point_cost))
                       (if lar < point_cost \<and> point_cost \<noteq> 255 then point_cost else lar))) = Some r"
  show "cs_resolution cs = 0 \<longrightarrow> isValid it \<longrightarrow> iter_cost cm it = Some c \<longrightarrow> cs_max_cost cs \<le> real (unat c)"
    using step IH by (auto simp: Let_def split: if_splits)
qed

section \<open>Scores of a line\<close>

abbreviation too_dear :: "costmap_scorer \<Rightarrow> u8 \<Rightarrow> bool" where
  "too_dear cs c \<equiv> cs_max_cost cs \<le> real (unat c) \<and> cs_max_cost cs \<noteq> 255 \<and> invalid_on_collision cs"

definition sum_costs :: "(real \<Rightarrow> real) \<Rightarrow> real \<Rightarrow> u8 list \<Rightarrow> real" where
  "sum_costs rnd = foldl (\<lambda>r c. rnd (r + real (unat c)))"

definition max_costs :: "real \<Rightarrow> u8 list \<Rightarrow> real" where
  "max_costs l cs = foldl max l (map (\<lambda>c. real (unat c)) (filter (\<lambda>c. c \<noteq> 255) cs))"

lemma u8_255: "unat c = 255 \<longleftrightarrow> c = (255 :: u8)"
  using word_unat_eq_iff [of c 255] by simp

lemma score_line_from:
  assumes "small_map cm" "in_cells cm p" "in_cells cm q" "0 < cs_resolution cs"
    and "it = LineIterator (int (unat (fst p))) (int (unat (snd p))) (int (unat (fst q))) (int (unat (snd q)))"
  shows "score_line rnd cs cm (advances k it) idx run lar =
    Some (let costs = map (\<lambda>k. the (cost_at cm (on_line p q k))) (steps_from (cs_resolution cs) (line_len p q) k)
      in if \<exists>c\<in>set costs. too_dear cs c then None
         else Some (idx + length costs, sum_costs rnd run costs, max_costs lar costs))"
proof (induction "line_len p q + 1 - k" arbitrary: k idx run lar rule: less_induct)
  case less
  have valid: "isValid (advances k it) \<longleftrightarrow> k \<le> line_len p q"
    using line_valid assms(5) by (simp add: line_len_def)
  show ?case
  proof (cases "k \<le> line_len p q")
    case True
    obtain c where c: "cost_at cm (on_line p q k) = Some c"
      using cost_on_line [OF assms(1-3) True] by blast
    have next_step: "advances (cs_resolution cs) (advances k it) = advances (k + cs_resolution cs) it"
      by (simp add: advances_add)
    have m: "(if lar < real (unat c) \<and> c \<noteq> 255 then real (unat c) else lar) =
        (if c \<noteq> 255 then max lar (real (unat c)) else lar)"
      by (auto simp: max_def)
    have "line_len p q + 1 - (k + cs_resolution cs) < line_len p q + 1 - k"
      using True assms(4) by linarith
    note IH = less [OF this]
    show ?thesis
      using valid True c iter_cost_on_line [OF True, of cm, folded assms(5)] assms(4)
      by (subst score_line.simps, subst steps_from.simps)
        (simp add: next_step IH m u8_255 sum_costs_def max_costs_def Let_def)
  next
    case False
    then show ?thesis
      using valid by (subst score_line.simps, subst steps_from.simps) (simp add: sum_costs_def max_costs_def)
  qed
qed

lemma score_line_samples:
  assumes "small_map cm" "in_cells cm p" "in_cells cm q" "0 < cs_resolution cs" "line_iter p q = Some it"
  shows "score_line rnd cs cm it 0 0 0 =
    Some (if \<exists>c\<in>set (samples cm (cs_resolution cs) p q). too_dear cs c then None
      else Some (length (samples cm (cs_resolution cs) p q),
        sum_costs rnd 0 (samples cm (cs_resolution cs) p q), max_costs 0 (samples cm (cs_resolution cs) p q)))"
  using score_line_from [OF assms(1-4) refl, of rnd 0 0 0 0] assms(5) line_iter_cells [OF assms(1-3)]
  by (simp add: samples_def Let_def)

lemma max_costs_ge: "l \<le> max_costs l cs"
  unfolding max_costs_def by (induction cs arbitrary: l) (auto intro: order_trans [OF max.cobounded1])

lemma max_costs_upper: "c \<in> set cs \<Longrightarrow> c \<noteq> 255 \<Longrightarrow> real (unat c) \<le> max_costs l cs"
proof (induction cs arbitrary: l)
  case (Cons d cs)
  then show ?case
    using max_costs_ge [of "max l (real (unat d))" cs] by (auto simp: max_costs_def)
qed simp

lemma max_costs_attained: "max_costs l cs = l \<or> (\<exists>c\<in>set cs. c \<noteq> 255 \<and> max_costs l cs = real (unat c))"
proof (induction cs arbitrary: l)
  case (Cons d cs)
  show ?case
    using Cons [of "if d \<noteq> 255 then max l (real (unat d)) else l"]
    by (auto simp: max_costs_def max_def split: if_splits)
qed (simp add: max_costs_def)

section \<open>Line of sight, scores and the loops that hang\<close>

abbreviation at_coords :: "costmap2d \<Rightarrow> coordinates \<Rightarrow> (u32 \<times> u32) option option" where
  "at_coords cm c \<equiv> worldToMap cm (co_x c) (co_y c)"

lemma worldToMap_out_option:
  "worldToMap cm wx wy = map_option (\<lambda>(on_map, c). if on_map then c else None) (worldToMap_out cm wx wy)"
  by (auto simp: worldToMap_def worldToMap_out_def split: option.splits Option.bind_splits)

lemma worldToMap_in_cells: "worldToMap cm x y = Some (Some p) \<Longrightarrow> in_cells cm p"
  by (auto simp: worldToMap_def in_cells_def split: if_splits Option.bind_splits)

lemma worldToMap_out_on:
  "worldToMap cm wx wy = Some (Some p) \<Longrightarrow> worldToMap_out cm wx wy = Some (True, Some p)"
  by (auto simp: worldToMap_def worldToMap_out_def split: option.splits Option.bind_splits if_splits)

lemma worldToMap_out_off:
  "worldToMap cm wx wy = Some None \<Longrightarrow> \<exists>p. worldToMap_out cm wx wy = Some (False, p)"
  by (auto simp: worldToMap_def worldToMap_out_def split: option.splits Option.bind_splits if_splits)

lemma LoS_line:
  assumes "small_map cm" "LoS_worldToMap cm s f = Some (Some (p, q))"
  shows "LoS_isInCollision cm (p, q) = Some (\<exists>k\<le>line_len p q. inCollision cm
    (getIndex cm (word_of_int (fst (on_line p q k))) (word_of_int (snd (on_line p q k)))) = Some True)"
proof -
  have in_map: "in_cells cm p" "in_cells cm q"
    using assms(2) by (auto simp: LoS_worldToMap_def split: option.splits intro: worldToMap_in_cells)
  obtain it where it: "line_iter p q = Some it"
    using line_iter_cells [OF assms(1) in_map] by simp
  have c: "(real (unat (the (cost_at cm (on_line p q k)))) \<ge> 253 \<and> the (cost_at cm (on_line p q k)) \<noteq> 255)
      \<longleftrightarrow> inCollision cm (getIndex cm (word_of_int (fst (on_line p q k))) (word_of_int (snd (on_line p q k))))
        = Some True" if "k \<le> line_len p q" for k
    using cost_on_line [OF assms(1) in_map that]
    by (auto simp: inCollision_def cost_at_def getCost_def getCost_index_def word_le_nat_alt)
  show ?thesis
    using line_collides_samples [OF assms(1) in_map _ it, of 1 253] c it steps_from_one [of "line_len p q"]
    by (auto simp: LoS_isInCollision_def samples_def)
qed

lemma scorer_on_map:
  assumes "small_map cm" "0 < cs_resolution cs"
    and "at_coords cm (coords (g ! e_start e)) = Some (Some p)" "at_coords cm (coords (g ! e_end e)) = Some (Some q)"
  defines "costs \<equiv> samples cm (cs_resolution cs) p q"
  shows "CostmapScorer_score rnd cs (Some cm) g e cost =
    Some (if \<exists>c\<in>set costs. too_dear cs c then (False, cost)
      else (True, if use_max cs then fdiv (cs_weight cs * max_costs 0 costs) (cs_max_cost cs)
        else fdiv (cs_weight cs * sum_costs rnd 0 costs) (real (length costs) * cs_max_cost cs)))"
proof -
  have in_map: "in_cells cm p" "in_cells cm q"
    using assms(3,4) by (auto intro: worldToMap_in_cells)
  obtain it where it: "line_iter p q = Some it"
    using line_iter_cells [OF assms(1) in_map] by simp
  show ?thesis
    using score_line_samples [OF assms(1) in_map assms(2) it, of rnd] it assms(3,4)
    by (simp add: CostmapScorer_score_def LoS_worldToMap_def costs_def)
qed

lemma monitor_on_map:
  assumes "small_map cm" "0 < mon_resolution mon" "in_cells cm p" "in_cells cm q"
  shows "CollisionMonitor_isInCollision mon cm (p, q) =
    Some (\<exists>c\<in>set (samples cm (mon_resolution mon) p q). mon_max_cost mon \<le> real (unat c) \<and> c \<noteq> 255)"
proof -
  obtain it where it: "line_iter p q = Some it"
    using line_iter_cells [OF assms(1,3,4)] by simp
  show ?thesis
    using line_collides_samples [OF assms(1,3,4,2) it] it by (simp add: CollisionMonitor_isInCollision_def)
qed

text \<open>The costmap scorer is an edge cost function the planner may use.\<close>

lemma CostmapScorer_static:
  assumes "same_graph g g'" "e_start e < length g" "e_end e < length g"
  shows "CostmapScorer_score rnd cs costmap g' e c = CostmapScorer_score rnd cs costmap g e c"
  unfolding CostmapScorer_score_def same_graph_fields(2) [OF assms(1,2)] same_graph_fields(2) [OF assms(1,3)] ..

interpretation costmap_cost: cost_function
  "\<lambda>g e req ty c. Inr (the (CostmapScorer_score rnd cs costmap g e c))"
  for rnd and cs :: costmap_scorer and costmap
  by unfold_locales (simp add: CostmapScorer_static)

section \<open>The collision monitor\<close>

text \<open>
  The stretches of a route ahead, from a point on the first edge: up to the distance to check, which shortens the stretch
  that reaches it.
\<close>

fun ahead :: "real \<Rightarrow> graph \<Rightarrow> real \<Rightarrow> coordinates \<Rightarrow> dir_edge list \<Rightarrow> (u32 \<times> coordinates \<times> coordinates) list" where
  "ahead limit g checked s [] = []"
| "ahead limit g checked s (e # es) =
     (let f = coords (g ! e_end e); len = hypotf (co_x f - co_x s) (co_y f - co_y s)
      in if limit \<le> checked + len then [(edgeid e, s, backoutValidEndPoint s f (limit - checked))]
         else (edgeid e, s, f) # ahead limit g (checked + len) f es)"

definition stretch_on_map :: "costmap2d \<Rightarrow> u32 \<times> coordinates \<times> coordinates \<Rightarrow> bool" where
  "stretch_on_map cm = (\<lambda>(eid, s, f). (\<exists>p. at_coords cm s = Some (Some p)) \<and> (\<exists>q. at_coords cm f = Some (Some q)))"

definition stretch_collides :: "collision_monitor \<Rightarrow> costmap2d \<Rightarrow> u32 \<times> coordinates \<times> coordinates \<Rightarrow> bool" where
  "stretch_collides mon cm = (\<lambda>(eid, s, f). \<exists>p q. at_coords cm s = Some (Some p) \<and> at_coords cm f = Some (Some q) \<and>
     (\<exists>c\<in>set (samples cm (mon_resolution mon) p q). mon_max_cost mon \<le> real (unat c) \<and> c \<noteq> 255))"

lemma check_on_map:
  assumes "small_map cm" "0 < mon_resolution mon" "stretch_on_map cm (eid, s, f)"
  shows "check_segment mon cm s f = Some (stretch_collides mon cm (eid, s, f), True)"
proof -
  obtain p q where pq: "at_coords cm s = Some (Some p)" "at_coords cm f = Some (Some q)"
    using assms(3) by (auto simp: stretch_on_map_def)
  show ?thesis
    using monitor_on_map [OF assms(1,2) pq [THEN worldToMap_in_cells]] pq
    by (cases p, cases q) (simp add: check_segment_def lineToMap_def worldToMap_out_on stretch_collides_def)
qed

lemma edge_after_in:
  "distinct (map edgeid (pre @ e # es)) \<Longrightarrow>
   edge_after (edgeid e) (pre @ e # es) = (case es of [] \<Rightarrow> None | e' # _ \<Rightarrow> Some e')"
  by (induction pre) auto

lemma check_off_map:
  assumes "at_coords cm s = Some None"
  shows "check_segment mon cm s f = Some (False, False)"
proof -
  obtain p where "worldToMap_out cm (co_x s) (co_y s) = Some (False, p)"
    using worldToMap_out_off assms by blast
  then show ?thesis
    using assms by (simp add: check_segment_def lineToMap_def backoutValidEndPoint_line_def)
qed

lemma monitor_loop_ahead:
  assumes "small_map cm" "0 < mon_resolution mon" "distinct (map edgeid (edges route))"
    and "edges route = pre @ e # es" "segs = ahead (max_collision_dist mon) g checked s (e # es)" "n \<le> length segs"
    and "\<forall>d\<in>set (take n segs). stretch_on_map cm d"
  shows "case find (stretch_collides mon cm) (take n segs) of
      Some d \<Rightarrow> monitor_loop mon cm g route (edgeid e) s (coords (g ! e_end e)) checked = Some (Some (fst d))
    | None \<Rightarrow> n = length segs \<longrightarrow>
        monitor_loop mon cm g route (edgeid e) s (coords (g ! e_end e)) checked = Some None"
  using assms(4-7)
proof (induction es arbitrary: pre e s segs n checked)
  case Nil
  have next_edge: "edge_after (edgeid e) (edges route) = None"
    using edge_after_in [of pre e "[]"] assms(3) Nil.prems(1) by simp
  show ?case
  proof (cases n)
    case (Suc m)
    then show ?thesis
      using check_on_map [OF assms(1,2)] next_edge Nil.prems
      by (subst (1 2) monitor_loop.simps) (auto simp: Let_def split: if_splits)
  next
    case 0
    then show ?thesis
      using Nil.prems by (auto simp: Let_def split: if_splits)
  qed
next
  case (Cons e' es)
  let ?f = "coords (g ! e_end e)" and ?f' = "coords (g ! e_end e')"
  let ?d = "(edgeid e, s, ?f)" and ?len = "hypotf (co_x (coords (g ! e_end e)) - co_x s) (co_y (coords (g ! e_end e)) - co_y s)"
  have next_edge: "edge_after (edgeid e) (edges route) = Some e'"
    using edge_after_in [of pre e "e' # es"] assms(3) Cons.prems(1) by simp
  show ?case
  proof (cases n)
    case (Suc m)
    show ?thesis
    proof (cases "max_collision_dist mon \<le> checked + ?len")
      case True
      then show ?thesis
        using check_on_map [OF assms(1,2)] Cons.prems Suc
        by (subst (1 2) monitor_loop.simps) (auto simp: Let_def)
    next
      case False
      define rest where "rest = ahead (max_collision_dist mon) g (checked + ?len) ?f (e' # es)"
      have segs: "segs = ?d # rest"
        unfolding rest_def using Cons.prems(2) False by (subst ahead.simps(2)) (simp add: Let_def)
      have on: "stretch_on_map cm ?d"
        using Cons.prems(4) Suc by (simp add: segs)
      have step: "monitor_loop mon cm g route (edgeid e) s ?f checked =
          (if stretch_collides mon cm ?d then Some (Some (edgeid e))
           else monitor_loop mon cm g route (edgeid e') ?f ?f' (checked + ?len))"
        using check_on_map [OF assms(1,2) on] next_edge False by (subst monitor_loop.simps) (simp add: Let_def)
      have "case find (stretch_collides mon cm) (take m rest) of
          Some d \<Rightarrow> monitor_loop mon cm g route (edgeid e') ?f ?f' (checked + ?len) = Some (Some (fst d))
        | None \<Rightarrow> m = length rest \<longrightarrow>
            monitor_loop mon cm g route (edgeid e') ?f ?f' (checked + ?len) = Some None"
      proof (rule Cons.IH [of "pre @ [e]" e' rest])
        show "rest = ahead (max_collision_dist mon) g (checked + ?len) ?f (e' # es)"
          by (rule rest_def)
        show "m \<le> length rest" "\<forall>d\<in>set (take m rest). stretch_on_map cm d"
          using Cons.prems(3,4) Suc by (simp_all add: segs)
      qed (use Cons.prems(1) in simp)
      then show ?thesis
        using step Suc by (auto simp: segs split: option.splits)
    qed
  next
    case 0
    then show ?thesis
      using Cons.prems by (auto simp: Let_def split: if_splits)
  qed
qed

lemma monitor_loop_off_map:
  "at_coords cm s = Some None \<Longrightarrow> monitor_loop mon cm g route eid s f checked = Some None"
  by (subst monitor_loop.simps) (simp add: Let_def check_off_map)

section \<open>Properties\<close>

text \<open>C14. What the collision monitor finds when a check is due. Of the stretches of the route ahead, up to the
  distance to check - the stretch that reaches it is shortened to end there - take any that come first and lie on the
  costmap, start and end: if one of them is in collision, the first such is reported: the monitor asks for a reroute
  around its edge, or fails the task when rerouting is disabled. If these are all the stretches and they are free, or
  if the point of the edge closest to the robot is off the map, it reports nothing. The check resolution is positive,
  the ids of the edges of the route are distinct, and the map has fewer than \<open>2 ^ 30\<close> cells. A stretch that leaves the
  map, and the resolution zero, are the subject of the theorems below.\<close>

theorem monitor_first_collision:
  assumes "small_map cm" "0 < mon_resolution mon" "distinct (map edgeid (edges route))"
    and "edges route = pre @ e # es" "checking_duration mon \<le> now - last_check_time mon"
    and "s = findClosestPoint pose (coords (g ! e_start e)) (coords (g ! e_end e))"
    and "segs = ahead (max_collision_dist mon) g 0 s (e # es)"
    and "n \<le> length segs" "\<forall>d\<in>set (take n segs). stretch_on_map cm d"
  shows "case find (stretch_collides mon cm) (take n segs) of
      Some d \<Rightarrow> CollisionMonitor_perform g now (Some cm) (Some e) route pose mon =
        Some (if reroute_on_collision mon then Inr \<lparr>reroute = True, res_blocked = [fst d]\<rparr> else Inl OperationFailed,
          mon\<lparr>last_check_time := now\<rparr>)
    | None \<Rightarrow> n = length segs \<or> at_coords cm s = Some None \<longrightarrow>
        CollisionMonitor_perform g now (Some cm) (Some e) route pose mon =
          Some (Inr \<lparr>reroute = False, res_blocked = []\<rparr>, mon\<lparr>last_check_time := now\<rparr>)"
proof -
  let ?mon = "mon\<lparr>last_check_time := now\<rparr>"
  have same: "stretch_collides ?mon cm = stretch_collides mon cm"
    by (simp add: stretch_collides_def fun_eq_iff)
  have res: "0 < mon_resolution ?mon" "segs = ahead (max_collision_dist ?mon) g 0 s (e # es)"
    using assms(2,7) by simp_all
  have off: "monitor_loop ?mon cm g route (edgeid e) s (coords (g ! e_end e)) 0 = Some None" if "at_coords cm s = Some None"
    by (rule monitor_loop_off_map [OF that])
  from monitor_loop_ahead [OF assms(1) res(1) assms(3,4) res(2) assms(8,9)] show ?thesis
    using assms(5,6) off unfolding same
    by (auto simp: CollisionMonitor_perform_def OperationResult_new_def split: option.splits)
qed

text \<open>An unknown cell closes an edge for the costmap scorer at its default parameters, though unknown cells are
  meant to be left out: the test compares the maximal cost, not the cost of the cell, with 255. The collision
  monitor finds no collision on the same line.\<close>

theorem unknown_cell_closes_edge:
  assumes "small_map cm" "0 < cs_resolution cs" "mon_resolution mon = cs_resolution cs"
    and "at_coords cm (coords (g ! e_start e)) = Some (Some p)" "at_coords cm (coords (g ! e_end e)) = Some (Some q)"
    and "cs_max_cost cs < 255" "mon_max_cost mon = cs_max_cost cs" "invalid_on_collision cs"
    and "255 \<in> set (samples cm (cs_resolution cs) p q)"
    and "\<forall>c\<in>set (samples cm (cs_resolution cs) p q). c = 255 \<or> real (unat c) < cs_max_cost cs"
  shows "CostmapScorer_score rnd cs (Some cm) g e cost = Some (False, cost) \<and>
    CollisionMonitor_isInCollision mon cm (p, q) = Some False"
proof -
  have in_map: "in_cells cm p" "in_cells cm q"
    using assms(4,5) by (auto intro: worldToMap_in_cells)
  have "\<exists>c\<in>set (samples cm (cs_resolution cs) p q). too_dear cs c"
    using assms(6,8,9) by (intro bexI [of _ 255]) simp_all
  then show ?thesis
    using scorer_on_map [OF assms(1,2,4,5), of rnd cost] monitor_on_map [OF assms(1) _ in_map, of mon]
      assms(2,3,7,10) by auto
qed

text \<open>With a \<open>check_resolution\<close> of zero, which nothing rules out, neither the costmap scorer nor the collision
  monitor comes back from a line whose first cell is free: the iterator never moves.\<close>

theorem zero_resolution_hangs:
  assumes "small_map cm" "cs_resolution cs = 0" "mon_resolution mon = 0"
    and "at_coords cm (coords (g ! e_start e)) = Some (Some p)" "at_coords cm (coords (g ! e_end e)) = Some (Some q)"
    and "getCost cm (fst p) (snd p) = Some c" "real (unat c) < cs_max_cost cs" "real (unat c) < mon_max_cost mon"
  shows "CostmapScorer_score rnd cs (Some cm) g e cost = None \<and> CollisionMonitor_isInCollision mon cm (p, q) = None"
proof -
  have in_map: "in_cells cm p" "in_cells cm q"
    using assms(4,5) by (auto intro: worldToMap_in_cells)
  obtain it where it: "line_iter p q = Some it" "it = advances 0 (LineIterator (int (unat (fst p)))
      (int (unat (snd p))) (int (unat (fst q))) (int (unat (snd q))))"
    using line_iter_cells [OF assms(1) in_map] by simp
  have first_cell: "isValid it" "iter_cost cm it = Some c"
    using it(2) line_valid [of 0] iter_cost_on_line [of 0 p q cm] assms(6)
    by (simp_all add: on_line_def line_cell_ends cost_at_def)
  have "score_line rnd cs cm it 0 0 0 = None"
    using score_line_zero [of rnd cs cm it 0 0 0 _ c] first_cell assms(2,7) by (cases "score_line rnd cs cm it 0 0 0") auto
  moreover have "line_collides cm (mon_max_cost mon) 0 it = None"
    using line_collides_zero [of cm "mon_max_cost mon" 0 it _ c] first_cell assms(8)
    by (cases "line_collides cm (mon_max_cost mon) 0 it") auto
  ultimately show ?thesis
    using it(1) assms(3-5) by (simp add: CostmapScorer_score_def LoS_worldToMap_def CollisionMonitor_isInCollision_def)
qed

section \<open>Examples\<close>

text \<open>A map of three by two cells of half a metre; edge 1 runs along its lower row, edge 2 up at its right.\<close>

definition line_node :: "real \<Rightarrow> real \<Rightarrow> node" where
  "line_node x y = \<lparr>nodeid = 0, coords = Coordinates_new\<lparr>co_x := x, co_y := y\<rparr>, neighbors = [],
     n_metadata = [], n_operations = [], search_state = SearchState_reset\<rparr>"

definition line_edge :: "u32 \<Rightarrow> nat \<Rightarrow> nat \<Rightarrow> dir_edge" where
  "line_edge i a b = \<lparr>edgeid = i, e_start = a, e_end = b, edge_cost = \<lparr>ec_cost = 0, overridable = True\<rparr>,
     e_metadata = [], e_operations = []\<rparr>"

definition line_graph :: "real \<Rightarrow> graph" where
  "line_graph x = [line_node (5 / 4) (- (3 / 4)), line_node x (- (3 / 4)), line_node x (- (1 / 4))]"

definition line_route :: route where
  "line_route = \<lparr>start_node = 0, edges = [line_edge 1 0 1, line_edge 2 1 2], route_cost = 0\<rparr>"

definition line_monitor :: "nat \<Rightarrow> collision_monitor" where
  "line_monitor res = \<lparr>last_check_time = 0, checking_duration = 1, reroute_on_collision = True, mon_max_cost = 253,
     mon_resolution = res, max_collision_dist = 5\<rparr>"

definition line_scorer :: "nat \<Rightarrow> costmap_scorer" where
  "line_scorer res = \<lparr>use_max = True, invalid_on_collision = True, invalid_off_map = True, cs_weight = 1,
     cs_max_cost = 253, cs_resolution = res\<rparr>"

lemmas line_defs = line_node_def line_edge_def line_graph_def line_route_def line_monitor_def line_scorer_def

lemma small_sample: "length cells = 6 \<Longrightarrow> small_map (sample_map 3 2 cells)"
  by (simp add: small_map_def map_cells_def sample_wf)

lemma sample_points:
  "worldToMap (sample_map 3 2 cells) (5 / 4) (- (3 / 4)) = Some (Some (0, 0))"
  "worldToMap (sample_map 3 2 cells) (9 / 4) (- (3 / 4)) = Some (Some (2, 0))"
  "worldToMap (sample_map 3 2 cells) (9 / 4) (- (1 / 4)) = Some (Some (2, 1))"
  by (simp_all add: worldToMap_def cell_quot_def cast_uint_def trunc_def Let_def)

lemmas line_eval = samples_def line_len_def on_line_def line_length_def line_cell_def minor_steps_def
  steps_from.simps cost_at_def getCost_def getIndex_def load_def

lemma sample_lines:
  "samples (sample_map 3 2 [a, b, c, d, e, f]) (Suc 0) (0, 0) (2, 0) = [a, b, c]"
  "samples (sample_map 3 2 [a, b, c, d, e, f]) (Suc 0) (2, 0) (2, 1) = [c, f]"
  by (simp_all add: line_eval)

lemma line_coords:
  "coords (line_graph x ! 0) = Coordinates_new\<lparr>co_x := 5 / 4, co_y := - (3 / 4)\<rparr>"
  "coords (line_graph x ! Suc 0) = Coordinates_new\<lparr>co_x := x, co_y := - (3 / 4)\<rparr>"
  "coords (line_graph x ! 2) = Coordinates_new\<lparr>co_x := x, co_y := - (1 / 4)\<rparr>"
  by (simp_all add: line_graph_def line_node_def)

theorem monitor_first_collision_witness:
  "CollisionMonitor_perform (line_graph (9 / 4)) 1 (Some (sample_map 3 2 [0, 255, 0, 0, 0, 254]))
     (Some (line_edge 1 0 1)) line_route \<lparr>p_x = 5 / 4, p_y = - (3 / 4)\<rparr> (line_monitor 1) =
   Some (Inr \<lparr>reroute = True, res_blocked = [2]\<rparr>, (line_monitor 1)\<lparr>last_check_time := 1\<rparr>)"
proof -
  let ?cm = "sample_map 3 2 [0, 255, 0, 0, 0, 254]" and ?g = "line_graph (9 / 4)"
  have near: "findClosestPoint \<lparr>p_x = 5 / 4, p_y = - (3 / 4)\<rparr> (coords (?g ! 0)) (coords (?g ! 1)) = coords (?g ! 0)"
    by (simp add: line_defs findClosestPoint_def)
  let ?segs = "ahead (max_collision_dist (line_monitor 1)) ?g 0
    (findClosestPoint \<lparr>p_x = 5 / 4, p_y = - (3 / 4)\<rparr> (coords (?g ! 0)) (coords (?g ! 1)))
    [line_edge 1 0 1, line_edge 2 1 2]"
  have segs: "?segs = [(1, coords (?g ! 0), coords (?g ! 1)), (2, coords (?g ! 1), coords (?g ! 2))]"
    unfolding near by (simp add: line_defs Let_def hypotf_def power2_eq_square real_sqrt_divide)
  have on: "\<forall>d\<in>set (take 2 ?segs). stretch_on_map ?cm d"
    unfolding segs by (simp add: line_coords stretch_on_map_def sample_points)
  have "find (stretch_collides (line_monitor 1) ?cm) (take 2 ?segs) = Some (2, coords (?g ! 1), coords (?g ! 2))"
    unfolding segs by (simp add: line_coords stretch_collides_def sample_points sample_lines line_monitor_def)
  moreover have "case find (stretch_collides (line_monitor 1) ?cm) (take 2 ?segs) of
      Some d \<Rightarrow> CollisionMonitor_perform ?g 1 (Some ?cm) (Some (line_edge 1 0 1)) line_route
        \<lparr>p_x = 5 / 4, p_y = - (3 / 4)\<rparr> (line_monitor 1) =
        Some (if reroute_on_collision (line_monitor 1) then Inr \<lparr>reroute = True, res_blocked = [fst d]\<rparr>
          else Inl OperationFailed, (line_monitor 1)\<lparr>last_check_time := 1\<rparr>)
    | None \<Rightarrow> 2 = length ?segs \<or> at_coords ?cm (findClosestPoint \<lparr>p_x = 5 / 4, p_y = - (3 / 4)\<rparr> (coords (?g ! 0)) (coords (?g ! 1))) = Some None \<longrightarrow>
        CollisionMonitor_perform ?g 1 (Some ?cm) (Some (line_edge 1 0 1)) line_route
          \<lparr>p_x = 5 / 4, p_y = - (3 / 4)\<rparr> (line_monitor 1) =
          Some (Inr \<lparr>reroute = False, res_blocked = []\<rparr>, (line_monitor 1)\<lparr>last_check_time := 1\<rparr>)"
    by (rule monitor_first_collision [where pre = "[]" and es = "[line_edge 2 1 2]"])
      (use on segs in \<open>simp_all add: small_sample line_monitor_def line_route_def line_edge_def\<close>)
  ultimately show ?thesis
    by (simp add: line_monitor_def)
qed

theorem unknown_cell_closes_edge_witness:
  "CostmapScorer_score id (line_scorer 1) (Some (sample_map 3 2 [0, 255, 0, 0, 0, 0])) (line_graph (9 / 4))
     (line_edge 1 0 1) 0 = Some (False, 0) \<and>
   CollisionMonitor_isInCollision (line_monitor 1) (sample_map 3 2 [0, 255, 0, 0, 0, 0]) ((0, 0), (2, 0)) = Some False"
  by (rule unknown_cell_closes_edge)
    (simp_all add: small_sample sample_points sample_lines line_defs Coordinates_new_def)

theorem zero_resolution_hangs_witness:
  "CostmapScorer_score id (line_scorer 0) (Some (sample_map 3 2 [0, 0, 0, 0, 0, 0])) (line_graph (9 / 4))
     (line_edge 1 0 1) 0 = None \<and>
   CollisionMonitor_isInCollision (line_monitor 0) (sample_map 3 2 [0, 0, 0, 0, 0, 0]) ((0, 0), (2, 0)) = None"
  by (rule zero_resolution_hangs [where c = 0])
    (simp_all add: small_sample sample_points line_defs Coordinates_new_def getCost_def getIndex_def load_def)

text \<open>An edge that leaves the costmap to the left of its origin makes the collision monitor read cell coordinates
  that were never written: the conversion returns before it sets them, although the caller counts on finding them
  outside the map. An edge that leaves it to the right is checked up to the border.\<close>

theorem monitor_reads_indeterminate:
  "CollisionMonitor_perform (line_graph 0) 1 (Some (sample_map 3 2 [0, 0, 0, 0, 0, 0]))
     (Some (line_edge 1 0 1)) line_route \<lparr>p_x = 5 / 4, p_y = - (3 / 4)\<rparr> (line_monitor 1) = None \<and>
   CollisionMonitor_perform (line_graph 4) 1 (Some (sample_map 3 2 [0, 0, 254, 0, 0, 0]))
     (Some (line_edge 1 0 1)) line_route \<lparr>p_x = 5 / 4, p_y = - (3 / 4)\<rparr> (line_monitor 1) =
   Some (Inr \<lparr>reroute = True, res_blocked = [1]\<rparr>, (line_monitor 1)\<lparr>last_check_time := 1\<rparr>)"
proof
  let ?s = "Coordinates_new\<lparr>co_x := 5 / 4, co_y := - (3 / 4)\<rparr>"
  let ?f = "\<lambda>x. Coordinates_new\<lparr>co_x := x, co_y := - (3 / 4)\<rparr>"
  let ?mon = "(line_monitor 1)\<lparr>last_check_time := 1\<rparr>" and ?cm = "\<lambda>c. sample_map 3 2 [0, 0, c, 0, 0, 0]"
  have perform: "CollisionMonitor_perform (line_graph x) 1 (Some cm) (Some (line_edge 1 0 1)) line_route
      \<lparr>p_x = 5 / 4, p_y = - (3 / 4)\<rparr> (line_monitor 1) =
      (case monitor_loop ?mon cm (line_graph x) line_route 1 ?s (?f x) 0 of
         None \<Rightarrow> None
       | Some None \<Rightarrow> Some (Inr OperationResult_new, ?mon)
       | Some (Some b) \<Rightarrow> Some (Inr (OperationResult_new\<lparr>reroute := True, res_blocked := [b]\<rparr>), ?mon))" for x cm
  proof -
    have "findClosestPoint \<lparr>p_x = 5 / 4, p_y = - (3 / 4)\<rparr> ?s (?f x) = ?s"
      by (simp add: findClosestPoint_def Let_def)
    then show ?thesis
      by (simp add: CollisionMonitor_perform_def line_edge_def line_monitor_def line_coords Let_def split: option.splits)
  qed
  have out: "worldToMap_out (sample_map 3 2 cells) 0 (- (3 / 4)) = Some (False, None)"
    "worldToMap_out (sample_map 3 2 cells) 4 (- (3 / 4)) = Some (False, Some (6, 0))"
    "worldToMap_out (sample_map 3 2 cells) (5 / 4) (- (3 / 4)) = Some (True, Some (0, 0))" for cells
    by (simp_all add: worldToMap_out_def cell_quot_def cast_uint_def trunc_def Let_def)
  have far: "\<not> 5 \<le> hypotf (0 - 5 / 4) 0" "\<not> 5 \<le> hypotf (4 - 5 / 4) 0"
    by (simp_all add: hypotf_def)
  have lost: "check_segment ?mon (?cm 0) ?s (?f 0) = None"
    by (simp add: check_segment_def lineToMap_def backoutValidEndPoint_line_def out sample_points)
  have line: "line_iter (0, 0) (6, 0) = Some (LineIterator 0 0 6 0)" "line_iter (0, 0) (2, 0) = Some (LineIterator 0 0 2 0)"
    by (simp_all add: line_iter_def)
  have backout: "backout_loop 3 2 (LineIterator 0 0 6 0) (0, 0) = Some (2, 0)"
    by (simp add: LineIterator_def Let_def isValid_def advance_def backout_loop.simps)
  have "CollisionMonitor_isInCollision ?mon (?cm 254) ((0, 0), (2, 0)) = Some True"
    using monitor_on_map [of "?cm 254" ?mon "(0, 0)" "(2, 0)"]
    by (simp add: small_sample in_cells_def sample_lines line_monitor_def)
  then have cut: "check_segment ?mon (?cm 254) ?s (?f 4) = Some (True, False)"
    by (simp add: check_segment_def lineToMap_def backoutValidEndPoint_line_def out sample_points line backout)
  have lim: "max_collision_dist ?mon = 5"
    by (simp add: line_monitor_def)
  show "CollisionMonitor_perform (line_graph 0) 1 (Some (?cm 0))
     (Some (line_edge 1 0 1)) line_route \<lparr>p_x = 5 / 4, p_y = - (3 / 4)\<rparr> (line_monitor 1) = None"
    using far(1) lost lim unfolding perform by (subst monitor_loop.simps) (simp add: Let_def)
  show "CollisionMonitor_perform (line_graph 4) 1 (Some (?cm 254))
     (Some (line_edge 1 0 1)) line_route \<lparr>p_x = 5 / 4, p_y = - (3 / 4)\<rparr> (line_monitor 1) =
   Some (Inr \<lparr>reroute = True, res_blocked = [1]\<rparr>, ?mon)"
    using far(2) cut lim unfolding perform by (subst monitor_loop.simps) (simp add: Let_def OperationResult_new_def)
qed

end
