(* ===== verification/Route_Path.thy ===== *)
theory Route_Path
  imports Route_Tracker Route_Scorers
begin

text \<open>
  From a route to a path (\<open>path_converter.cpp\<close>, \<open>corner_smoothing.hpp\<close>): points along the edges at a given
  density, corners replaced by arcs of a given radius. Points are exact; a point that is not a number is
  \<open>None\<close>. The result \<open>None\<close> of an operation is a conversion to an integer that does not fit.
\<close>

type_synonym point = "(real \<times> real) option"

section \<open>Straight lines\<close>

text \<open>The body of the loop, \<open>n\<close> times.\<close>

fun march :: "nat \<Rightarrow> real \<Rightarrow> real \<Rightarrow> real \<Rightarrow> real \<Rightarrow> point list" where
  "march 0 x y dx dy = []"
| "march (Suc n) x y dx dy = Some (x + dx, y + dy) # march n (x + dx) (y + dy) dx dy"

text \<open>
  The number of points is an \<open>unsigned int\<close> and the bound of the loop is that number minus one. For two equal
  points the direction is 0/0, and so are the points of the loop.
\<close>

definition interpolateEdge :: "real \<Rightarrow> real \<Rightarrow> real \<Rightarrow> real \<Rightarrow> real \<Rightarrow> point list option" where
  "interpolateEdge density x0 y0 x1 y1 =
     (let mag = hypotf (x1 - x0) (y1 - y0); c = \<lceil>mag / density\<rceil>
      in if density = 0 \<or> c < 0 \<or> 2 ^ 32 \<le> c then None
         else
           let num_pts = (of_int c :: u32);
               interpolated_dist = mag / real (unat num_pts);
               n = unat (num_pts - 1)
           in Some (Some (x0, y0) #
                (if mag = 0 then replicate n None
                 else march n x0 y0 ((x1 - x0) / mag * interpolated_dist) ((y1 - y0) / mag * interpolated_dist))))"

section \<open>Corners\<close>

record corner_arc =
  arc_start :: "real \<times> real"
  arc_end :: "real \<times> real"
  arc_center :: "real \<times> real"

definition getAngleBetweenEdges ::
  "real \<times> real \<Rightarrow> real \<times> real \<Rightarrow> real \<times> real \<Rightarrow> real \<Rightarrow> real \<Rightarrow> real" where
  "getAngleBetweenEdges s c f start_edge_length end_edge_length =
     arccos (((fst s - fst c) * (fst f - fst c) + (snd s - snd c) * (snd f - snd c)) /
       (start_edge_length * end_edge_length))"

text \<open>The arc of a corner, \<open>None\<close> when it is not valid.\<close>

definition CornerArc ::
  "real \<times> real \<Rightarrow> real \<times> real \<Rightarrow> real \<times> real \<Rightarrow> real \<Rightarrow> corner_arc option" where
  "CornerArc s c f minimum_radius =
     (let start_len = hypotf (fst c - fst s) (snd c - snd s);
          end_len = hypotf (fst f - fst c) (snd f - snd c);
          angle = getAngleBetweenEdges s c f start_len end_len
      in if start_len = 0 \<or> end_len = 0 then None
         else if \<bar>angle\<bar> < 1 / 10 ^ 6 \<or> \<bar>angle - pi\<bar> < 1 / 10 ^ 6 then None
         else
           let tangent_length = minimum_radius / tan (\<bar>angle\<bar> / 2)
           in if tangent_length < start_len \<and> tangent_length < end_len
              then
                let sx = (fst s - fst c) / start_len; sy = (snd s - snd c) / start_len;
                    ex = (fst f - fst c) / end_len; ey = (snd f - snd c) / end_len;
                    bx = sx + ex; by = sy + ey;
                    bm = sqrt (bx * bx + by * by);
                    bisector_length = minimum_radius / sin (angle / 2)
                in Some \<lparr>arc_start = (fst c + sx * tangent_length, snd c + sy * tangent_length),
                     arc_end = (fst c + ex * tangent_length, snd c + ey * tangent_length),
                     arc_center = (fst c + bx / bm * bisector_length, snd c + by / bm * bisector_length)\<rparr>
              else None)"

definition atan2 :: "real \<Rightarrow> real \<Rightarrow> real" where
  "atan2 y x =
     (if 0 < x then arctan (y / x)
      else if x < 0 then (if 0 \<le> y then arctan (y / x) + pi else arctan (y / x) - pi)
      else if 0 < y then pi / 2 else if y < 0 then - (pi / 2) else 0)"

fun arc_points :: "real \<times> real \<Rightarrow> real \<times> real \<Rightarrow> real \<Rightarrow> nat list \<Rightarrow> point list" where
  "arc_points c r angle_resolution [] = []"
| "arc_points c r angle_resolution (i # js) =
     (let angle = real i * angle_resolution
      in Some (fst c + (fst r * cos angle - snd r * sin angle), snd c + (fst r * sin angle + snd r * cos angle))
           # arc_points c r angle_resolution js)"

definition interpolateArc :: "corner_arc \<Rightarrow> real \<Rightarrow> point list option" where
  "interpolateArc arc max_angle_resolution =
     (let r_start = (fst (arc_start arc) - fst (arc_center arc), snd (arc_start arc) - snd (arc_center arc));
          r_end = (fst (arc_end arc) - fst (arc_center arc), snd (arc_end arc) - snd (arc_center arc));
          signed_angle = atan2 (fst r_start * snd r_end - snd r_start * fst r_end)
            (fst r_start * fst r_end + snd r_start * snd r_end);
          c = \<lceil>\<bar>signed_angle\<bar> / max_angle_resolution\<rceil>
      in if max_angle_resolution = 0 \<or> c < - (2 ^ 31) \<or> 2 ^ 31 \<le> c then None
         else
           let n = nat (max 1 c)
           in Some (arc_points (arc_center arc) r_start (signed_angle / real n) [0..<Suc n]))"

section \<open>The path\<close>

record path_converter =
  path_density :: real
  smoothing_radius :: real
  smooth_corners :: bool

abbreviation xy :: "coordinates \<Rightarrow> real \<times> real" where
  "xy c \<equiv> (co_x c, co_y c)"

definition interpolate :: "path_converter \<Rightarrow> real \<times> real \<Rightarrow> real \<times> real \<Rightarrow> point list option" where
  "interpolate pc s f = interpolateEdge (path_density pc) (fst s) (snd s) (fst f) (snd f)"

text \<open>The loop over the edges but the last: the points and the start of the last edge.\<close>

fun densify_edges ::
  "path_converter \<Rightarrow> graph \<Rightarrow> dir_edge list \<Rightarrow> real \<times> real \<Rightarrow> point list \<Rightarrow>
   (point list \<times> (real \<times> real)) option" where
  "densify_edges pc g (e # e' # es) s poses =
     (let f = xy (coords (g ! e_end e))
      in case CornerArc s f (xy (coords (g ! e_end e'))) (smoothing_radius pc) of
           Some arc \<Rightarrow>
             if smooth_corners pc
             then
               (case interpolate pc s (arc_start arc) of
                  None \<Rightarrow> None
                | Some ps \<Rightarrow>
                    (case interpolateArc arc (path_density pc / smoothing_radius pc) of
                       None \<Rightarrow> None
                     | Some ps' \<Rightarrow> densify_edges pc g (e' # es) (arc_end arc) (poses @ ps @ ps')))
             else
               (case interpolate pc s f of
                  None \<Rightarrow> None
                | Some ps \<Rightarrow> densify_edges pc g (e' # es) f (poses @ ps))
         | None \<Rightarrow>
             (case interpolate pc s f of
                None \<Rightarrow> None
              | Some ps \<Rightarrow> densify_edges pc g (e' # es) f (poses @ ps)))"
| "densify_edges pc g es s poses = Some (poses, s)"

text \<open>The orientation of a pose is that of the step to the next.\<close>

fun orientations :: "point list \<Rightarrow> (point \<times> real option) list" where
  "orientations (p # q # ps) =
     (p, case (p, q) of (Some a, Some b) \<Rightarrow> Some (atan2 (snd b - snd a) (fst b - fst a)) | _ \<Rightarrow> None)
       # orientations (q # ps)"
| "orientations ps = map (\<lambda>p. (p, Some 0)) ps"

definition densify_points ::
  "path_converter \<Rightarrow> graph \<Rightarrow> route \<Rightarrow> rerouting_state \<Rightarrow> point list option" where
  "densify_points pc g route rerouting_info =
     (case (case curr_edge rerouting_info of
              None \<Rightarrow> Some []
            | Some e \<Rightarrow>
                interpolate pc (xy (closest_pt_on_edge rerouting_info)) (xy (coords (g ! e_end e)))) of
        None \<Rightarrow> None
      | Some poses \<Rightarrow>
          if edges route = []
          then Some (poses @ [Some (xy (coords (g ! start_node route)))])
          else
            (case densify_edges pc g (edges route) (xy (coords (g ! e_start (hd (edges route))))) poses of
               None \<Rightarrow> None
             | Some (poses', s) \<Rightarrow>
                 let f = xy (coords (g ! e_end (last (edges route))))
                 in map_option (\<lambda>ps. poses' @ ps @ [Some f]) (interpolate pc s f)))"

definition densify ::
  "path_converter \<Rightarrow> graph \<Rightarrow> route \<Rightarrow> rerouting_state \<Rightarrow> (point \<times> real option) list option" where
  "densify pc g route rerouting_info =
     (case densify_points pc g route rerouting_info of
        None \<Rightarrow> None
      | Some ps \<Rightarrow>
          let path = orientations ps
          in Some (if edges route = [] then path
               else
                 let e = last (edges route);
                     d = (co_x (coords (g ! e_end e)) - co_x (coords (g ! e_start e)),
                          co_y (coords (g ! e_end e)) - co_y (coords (g ! e_start e)))
                 in butlast path @ [(fst (last path), Some (atan2 (snd d) (fst d)))]))"

end
