(* ===== verification/Route_Server.thy ===== *)
theory Route_Server
  imports Route_Costmap Route_Path Route_Planner
begin

text \<open>
  The route server (\<open>route_server.cpp\<close>) and how it finds the ends of a route (\<open>goal_intent_extractor.cpp\<close>,
  \<open>node_spatial_tree.cpp\<close>). Transforms, the pose of the robot, the k-d tree of nanoflann and the costmap are
  what a request meets outside, the record \<open>surroundings\<close>; the action server is the list of the final calls made
  to it. \<open>None\<close> is undefined behaviour or a call that does not come back.
\<close>

section \<open>Goals, poses and surroundings\<close>

record stamped =
  ps_frame :: string
  ps_pose :: pose
  ps_yaw :: real

record route_goal =
  goal_use_poses :: bool
  goal_use_start :: bool
  goal_start_id :: u32
  goal_goal_id :: u32
  goal_start :: stamped
  goal_goal :: stamped

record surroundings =
  transform :: "stamped \<Rightarrow> string \<Rightarrow> stamped option"
  current_pose :: "stamped option"
  knn_search :: "graph \<Rightarrow> pose \<Rightarrow> nat \<Rightarrow> nat list"
  search_costmap :: "costmap2d option"

text \<open>The parameters of the goal intent extractor and its two poses.\<close>

record intent_params =
  prune_goal :: bool
  max_dist_from_edge :: real
  min_dist_from_goal :: real
  min_dist_from_start :: real
  enable_search :: bool
  max_nn_search_iterations :: int
  num_of_nearest_nodes :: nat
  route_frame :: string
  global_frame :: string

record extractor =
  gi_start :: stamped
  gi_goal :: stamped

section \<open>The ends of a route\<close>

text \<open>\<open>transformPose\<close> gives the transformed pose and writes it to its argument.\<close>

definition transformPose :: "surroundings \<Rightarrow> stamped \<Rightarrow> string \<Rightarrow> route_exception + stamped" where
  "transformPose sur p target_frame =
     (if ps_frame p = target_frame then Inr p
      else (case transform sur p target_frame of None \<Rightarrow> Inl RouteTFError | Some q \<Rightarrow> Inr q))"

text \<open>The vector of results has a zero for every neighbour that was not found.\<close>

definition findNearestGraphNodesToPose ::
  "intent_params \<Rightarrow> surroundings \<Rightarrow> graph \<Rightarrow> stamped \<Rightarrow> nat list option" where
  "findNearestGraphNodesToPose ip sur g p =
     (let found = knn_search sur g (ps_pose p) (num_of_nearest_nodes ip)
      in if found = [] then None
         else Some (found @ replicate (num_of_nearest_nodes ip - length found) 0))"

fun candidate_poses ::
  "surroundings \<Rightarrow> string \<Rightarrow> graph \<Rightarrow> nat list \<Rightarrow> route_exception + (real \<times> real) list" where
  "candidate_poses sur frame g [] = Inr []"
| "candidate_poses sur frame g (i # js) =
     (if length g \<le> i then Inl Out_of_range
      else
        let c = coords (g ! i)
        in case transformPose sur \<lparr>ps_frame = frame_id c, ps_pose = \<lparr>p_x = co_x c, p_y = co_y c\<rparr>, ps_yaw = 0\<rparr> frame of
             Inl x \<Rightarrow> Inl x
           | Inr q \<Rightarrow>
               (case candidate_poses sur frame g js of
                  Inl x \<Rightarrow> Inl x
                | Inr ps \<Rightarrow> Inr ((p_x (ps_pose q), p_y (ps_pose q)) # ps)))"

text \<open>
  The search for the traversably nearest node of some: the node and the pose, which the transform overwrites.
  The nearest node is kept when it is in the line of sight or the search finds none.
\<close>

definition traversable_nearest ::
  "surroundings \<Rightarrow> costmap2d \<Rightarrow> string \<Rightarrow> graph \<Rightarrow> nat list \<Rightarrow> stamped \<Rightarrow> int \<Rightarrow>
   ((route_exception + nat) \<times> stamped) option" where
  "traversable_nearest sur cm frame g nodes p bound =
     (case candidate_poses sur frame g nodes of
        Inl x \<Rightarrow> Some (Inl x, p)
      | Inr candidates \<Rightarrow>
          (case transformPose sur p frame of
             Inl x \<Rightarrow> Some (Inl x, p)
           | Inr p' \<Rightarrow>
               let here = (p_x (ps_pose p'), p_y (ps_pose p'))
               in case LoS_worldToMap cm (hd candidates) here of
                    None \<Rightarrow> None
                  | Some None \<Rightarrow> Some (Inr (hd nodes), p')
                  | Some (Some line) \<Rightarrow>
                      (case LoS_isInCollision cm line of
                         None \<Rightarrow> None
                       | Some False \<Rightarrow> Some (Inr (hd nodes), p')
                       | Some True \<Rightarrow>
                           (case bfs_search cm here candidates bound of
                              None \<Rightarrow> None
                            | Some (found, i) \<Rightarrow> Some (Inr (if found then nodes ! i else hd nodes), p')))))"

definition refine_end ::
  "surroundings \<Rightarrow> costmap2d option \<Rightarrow> string \<Rightarrow> graph \<Rightarrow> nat list \<Rightarrow> stamped \<Rightarrow> int \<Rightarrow>
   ((route_exception + nat) \<times> stamped) option" where
  "refine_end sur costmap frame g nodes p bound =
     (case costmap of
        Some cm \<Rightarrow>
          if 1 < length nodes then traversable_nearest sur cm frame g nodes p bound
          else Some (Inr (hd nodes), p)
      | None \<Rightarrow> Some (Inr (hd nodes), p))"

definition set_position :: "coordinates \<Rightarrow> stamped \<Rightarrow> stamped" where
  "set_position c p = p\<lparr>ps_pose := \<lparr>p_x = co_x c, p_y = co_y c\<rparr>\<rparr>"

definition request_poses ::
  "intent_params \<Rightarrow> surroundings \<Rightarrow> route_goal \<Rightarrow> extractor \<Rightarrow> (route_exception + unit) \<times> extractor" where
  "request_poses ip sur goal x =
     (case (if goal_use_start goal then Some (goal_start goal) else current_pose sur) of
        None \<Rightarrow> (Inl RouteTFError, x)
      | Some start_pose \<Rightarrow>
          (case transformPose sur start_pose (route_frame ip) of
             Inl e \<Rightarrow> (Inl e, x)
           | Inr s \<Rightarrow>
               (case transformPose sur (goal_goal goal) (route_frame ip) of
                  Inl e \<Rightarrow> (Inl e, x\<lparr>gi_start := s\<rparr>)
                | Inr f \<Rightarrow> (Inr (), x\<lparr>gi_start := s, gi_goal := f\<rparr>))))"

definition findStartandGoal ::
  "intent_params \<Rightarrow> surroundings \<Rightarrow> graph \<Rightarrow> (u32 \<rightharpoonup> nat) \<Rightarrow> route_goal \<Rightarrow> extractor \<Rightarrow>
   ((route_exception + nat \<times> nat) \<times> extractor) option" where
  "findStartandGoal ip sur g id_to_graph goal x =
     (if \<not> goal_use_poses goal then
        (case (id_to_graph (goal_start_id goal), id_to_graph (goal_goal_id goal)) of
           (Some a, Some b) \<Rightarrow>
             if a < length g \<and> b < length g
             then Some (Inr (a, b), x\<lparr>gi_start := set_position (coords (g ! a)) (gi_start x),
                    gi_goal := set_position (coords (g ! b)) (gi_goal x)\<rparr>)
             else Some (Inl Out_of_range, x)
         | _ \<Rightarrow> Some (Inl Out_of_range, x))
      else
        (case request_poses ip sur goal x of
           (Inl e, x1) \<Rightarrow> Some (Inl e, x1)
         | (Inr _, x1) \<Rightarrow>
             (case (findNearestGraphNodesToPose ip sur g (gi_start x1),
                    findNearestGraphNodesToPose ip sur g (gi_goal x1)) of
                (Some start_route, Some end_route) \<Rightarrow>
                  let costmap = (if enable_search ip then search_costmap sur else None)
                  in (case refine_end sur costmap (global_frame ip) g start_route (gi_start x1)
                             (max_nn_search_iterations ip) of
                        None \<Rightarrow> None
                      | Some (Inl e, p) \<Rightarrow> Some (Inl e, x1\<lparr>gi_start := p\<rparr>)
                      | Some (Inr a, p) \<Rightarrow>
                          (case refine_end sur costmap (global_frame ip) g end_route (gi_goal x1) (2 ^ 31 - 1) of
                             None \<Rightarrow> None
                           | Some (Inl e, q) \<Rightarrow> Some (Inl e, x1\<lparr>gi_start := p, gi_goal := q\<rparr>)
                           | Some (Inr b, q) \<Rightarrow> Some (Inr (a, b), x1\<lparr>gi_start := p, gi_goal := q\<rparr>)))
              | _ \<Rightarrow> Some (Inl IndeterminantNodesOnGraph, x1))))"

definition overrideStart :: "stamped \<Rightarrow> extractor \<Rightarrow> extractor" where
  "overrideStart p x = x\<lparr>gi_start := p\<rparr>"

section \<open>Pruning\<close>

definition EPSILON :: real where
  "EPSILON = 1 / 10 ^ 6"

text \<open>The decisions to drop the first and the last edge; \<open>lst\<close> and \<open>nxt\<close> are the ends of the edge.\<close>

definition prune_first :: "intent_params \<Rightarrow> coordinates \<Rightarrow> coordinates \<Rightarrow> pose \<Rightarrow> bool" where
  "prune_first ip lst nxt p \<longleftrightarrow>
     (let vrx = co_x nxt - co_x lst; vry = co_y nxt - co_y lst;
          vpx = p_x p - co_x lst; vpy = p_y p - co_y lst
      in EPSILON < normalizedDot vrx vry vpx vpy \<and> min_dist_from_start ip < hypotf vpx vpy \<and>
         utils_distance (findClosestPoint p lst nxt) p \<le> max_dist_from_edge ip)"

definition prune_last :: "intent_params \<Rightarrow> coordinates \<Rightarrow> coordinates \<Rightarrow> pose \<Rightarrow> bool" where
  "prune_last ip nxt lst p \<longleftrightarrow>
     (let vrx = co_x lst - co_x nxt; vry = co_y lst - co_y nxt;
          vpx = p_x p - co_x lst; vpy = p_y p - co_y lst
      in normalizedDot vrx vry vpx vpy < - EPSILON \<and> min_dist_from_goal ip < hypotf vpx vpy \<and>
         utils_distance (findClosestPoint p nxt lst) p \<le> max_dist_from_edge ip)"

definition pruneStart ::
  "intent_params \<Rightarrow> (real \<Rightarrow> real) \<Rightarrow> graph \<Rightarrow> pose \<Rightarrow> dir_edge option \<Rightarrow> route \<Rightarrow> rerouting_state \<Rightarrow>
   route \<times> rerouting_state" where
  "pruneStart ip rnd g p last_curr_edge r rinfo =
     (let e = hd (edges r); fst_co = coords (g ! start_node r); nxt = coords (g ! e_end e)
      in if prune_first ip fst_co nxt p
         then
           (r\<lparr>start_node := e_end e,
              route_cost := rnd (route_cost r - traversal_cost (search_state (g ! e_end e))),
              edges := tl (edges r)\<rparr>,
            (case last_curr_edge of
               Some l \<Rightarrow>
                 if edgeid l = edgeid e
                 then rinfo\<lparr>closest_pt_on_edge := findClosestPoint p fst_co nxt, curr_edge := Some e\<rparr>
                 else rinfo
             | None \<Rightarrow> rinfo))
         else (r, rinfo))"

definition pruneGoal :: "intent_params \<Rightarrow> (real \<Rightarrow> real) \<Rightarrow> graph \<Rightarrow> pose \<Rightarrow> route \<Rightarrow> route" where
  "pruneGoal ip rnd g p r =
     (let e = last (edges r)
      in if prune_last ip (coords (g ! e_start e)) (coords (g ! e_end e)) p
         then r\<lparr>route_cost := rnd (route_cost r - traversal_cost (search_state (g ! e_end e))),
                edges := butlast (edges r)\<rparr>
         else r)"

definition pruneStartandGoal ::
  "intent_params \<Rightarrow> (real \<Rightarrow> real) \<Rightarrow> graph \<Rightarrow> extractor \<Rightarrow> route \<Rightarrow> route_goal \<Rightarrow> rerouting_state \<Rightarrow>
   route \<times> rerouting_state" where
  "pruneStartandGoal ip rnd g x input_route goal rinfo =
     (let last_curr_edge = curr_edge rinfo; first = first_time rinfo;
          rinfo1 = rinfo\<lparr>curr_edge := None, first_time := False\<rparr>
      in if edges input_route = [] \<or> (\<not> goal_use_poses goal \<and> first) then (input_route, rinfo1)
         else
           let (r, rinfo2) = pruneStart ip rnd g (ps_pose (gi_start x)) last_curr_edge input_route rinfo1
           in if \<not> prune_goal ip \<or> \<not> goal_use_poses goal \<or> edges r = [] then (r, rinfo2)
              else (pruneGoal ip rnd g (ps_pose (gi_goal x)) r, rinfo2))"

section \<open>Finding a route\<close>

text \<open>The state the server keeps; the final calls to the action server of a request, and the world the operations
  of the tracker act on.\<close>

datatype action_call = Terminate_all | Terminate_current | Succeeded_current

record 'w server =
  sv_graph :: graph
  sv_ids :: "u32 \<rightharpoonup> nat"
  sv_planner :: planner
  sv_extractor :: extractor
  sv_rerouting :: rerouting_state
  sv_goal :: route_goal
  sv_calls :: "action_call list"
  sv_world :: 'w

text \<open>
  What a round of the loop meets. \<open>r_yaw\<close> is the yaw of the pose a rerouting starts from, which the model of the
  tracker leaves out.
\<close>

record round_input =
  r_ok :: bool
  r_active :: bool
  r_cancel :: bool
  r_preempt :: "route_goal option"
  r_surroundings :: surroundings
  r_env :: planner_env
  r_yaw :: real
  r_ticks :: "tick list"

definition route_ends ::
  "intent_params \<Rightarrow> round_input \<Rightarrow> 'w server \<Rightarrow> ((route_exception + nat \<times> nat) \<times> extractor) option" where
  "route_ends ip ri sv =
     (case findStartandGoal ip (r_surroundings ri) (sv_graph sv) (sv_ids sv) (sv_goal sv) (sv_extractor sv) of
        None \<Rightarrow> None
      | Some (Inl e, x) \<Rightarrow> Some (Inl e, x)
      | Some (Inr (a, b), x) \<Rightarrow>
          if rerouting_start_id (sv_rerouting sv) = unset_id then Some (Inr (a, b), x)
          else
            (case sv_ids sv (rerouting_start_id (sv_rerouting sv)) of
               None \<Rightarrow> Some (Inl Out_of_range, x)
             | Some a' \<Rightarrow>
                 Some (Inr (a', b),
                   overrideStart \<lparr>ps_frame = route_frame ip,
                     ps_pose = rerouting_start_pose (sv_rerouting sv), ps_yaw = r_yaw ri\<rparr> x)))"

definition route_request_of :: "nat \<Rightarrow> nat \<Rightarrow> extractor \<Rightarrow> route_goal \<Rightarrow> route_request" where
  "route_request_of a b x goal =
     \<lparr>start_nodeid = of_nat a, goal_nodeid = of_nat b, start_yaw = ps_yaw (gi_start x),
      goal_yaw = ps_yaw (goal_goal goal), use_poses = goal_use_poses goal\<rparr>"

definition server_findRoute ::
  "intent_params \<Rightarrow> round_input \<Rightarrow> 'w server \<Rightarrow> ((route_exception + route) \<times> 'w server) option" where
  "server_findRoute ip ri sv =
     (case route_ends ip ri sv of
        None \<Rightarrow> None
      | Some (Inl e, x) \<Rightarrow> Some (Inl e, sv\<lparr>sv_extractor := x\<rparr>)
      | Some (Inr (a, b), x) \<Rightarrow>
          let sv1 = sv\<lparr>sv_extractor := x\<rparr>
          in (case (if a = b
                    then
                      (if a < length (sv_graph sv)
                       then Some (Inr \<lparr>start_node = a, edges = [], route_cost = 0\<rparr>, sv_graph sv, sv_planner sv)
                       else Some (Inl Out_of_range, sv_graph sv, sv_planner sv))
                    else findRoute (r_env ri) (sv_planner sv) (sv_graph sv) a b (blocked_ids (sv_rerouting sv))
                           (route_request_of a b x (sv_goal sv))) of
                None \<Rightarrow> None
              | Some (Inl e, g, P) \<Rightarrow> Some (Inl e, sv1\<lparr>sv_graph := g, sv_planner := P\<rparr>)
              | Some (Inr r, g, P) \<Rightarrow>
                  let (r', rinfo) = pruneStartandGoal ip (rounding (r_env ri)) g x r (sv_goal sv) (sv_rerouting sv)
                  in Some (Inr r', sv1\<lparr>sv_graph := g, sv_planner := P, sv_rerouting := rinfo\<rparr>)))"

section \<open>Serving a request\<close>

datatype round_status = Next_round | Returned | In_tracking

definition final_call :: "action_call \<Rightarrow> 'w server \<Rightarrow> 'w server" where
  "final_call c sv = sv\<lparr>sv_calls := sv_calls sv @ [c]\<rparr>"

text \<open>Whether the request goes on, and the call made when it does not.\<close>

definition isRequestValid :: "round_input \<Rightarrow> 'w server \<Rightarrow> bool \<times> 'w server" where
  "isRequestValid ri sv =
     (if \<not> r_active ri then (False, sv)
      else if r_cancel ri then (False, final_call Terminate_all sv)
      else if sv_graph sv = [] then (False, final_call Terminate_current sv)
      else (True, sv))"

definition track_round ::
  "'w tracker \<Rightarrow> round_input \<Rightarrow> route \<Rightarrow> 'w server \<Rightarrow> (round_status \<times> 'w server) option" where
  "track_round tr ri r sv =
     (case trackRoute tr (sv_graph sv) r (sv_rerouting sv) (r_ticks ri) (sv_world sv) of
        None \<Rightarrow> None
      | Some (st, run) \<Rightarrow>
          let sv' = sv\<lparr>sv_rerouting := t_rerouting run, sv_world := t_world run\<rparr>
          in Some (case st of
               Tracking \<Rightarrow> (In_tracking, sv')
             | Finished COMPLETED \<Rightarrow> (Returned, final_call Succeeded_current sv')
             | Finished INTERRUPTED \<Rightarrow> (Next_round, sv')
             | Finished EXITED \<Rightarrow> (Returned, sv')
             | Threw _ \<Rightarrow> (Returned, final_call Terminate_current sv')))"

definition process_round ::
  "intent_params \<Rightarrow> path_converter \<Rightarrow> 'w tracker option \<Rightarrow> round_input \<Rightarrow> 'w server \<Rightarrow>
   (round_status \<times> 'w server) option" where
  "process_round ip pc tracker ri sv =
     (if \<not> r_ok ri then Some (Returned, sv)
      else
        let (valid, sv1) = isRequestValid ri sv
        in if \<not> valid then Some (Returned, sv1)
           else
             let sv2 = (case r_preempt ri of
                          Some goal \<Rightarrow> sv1\<lparr>sv_goal := goal, sv_rerouting := ReroutingState_reset\<rparr>
                        | None \<Rightarrow> sv1)
             in case server_findRoute ip ri sv2 of
                  None \<Rightarrow> None
                | Some (Inl e, sv3) \<Rightarrow> Some (Returned, final_call Terminate_current sv3)
                | Some (Inr r, sv3) \<Rightarrow>
                    (case densify pc (sv_graph sv3) r (sv_rerouting sv3) of
                       None \<Rightarrow> None
                     | Some path \<Rightarrow>
                         (case tracker of
                            None \<Rightarrow> Some (Returned, final_call Succeeded_current sv3)
                          | Some tr \<Rightarrow> track_round tr ri r sv3)))"

text \<open>\<open>processRouteRequest\<close>, with a tracker for the action that tracks; the status is \<open>Next_round\<close> when the rounds
  given run out.\<close>

fun process_rounds ::
  "intent_params \<Rightarrow> path_converter \<Rightarrow> 'w tracker option \<Rightarrow> round_input list \<Rightarrow> 'w server \<Rightarrow>
   (round_status \<times> 'w server) option" where
  "process_rounds ip pc tracker [] sv = Some (Next_round, sv)"
| "process_rounds ip pc tracker (ri # rs) sv =
     (case process_round ip pc tracker ri sv of
        None \<Rightarrow> None
      | Some (Next_round, sv') \<Rightarrow> process_rounds ip pc tracker rs sv'
      | Some (st, sv') \<Rightarrow> Some (st, sv'))"

definition processRouteRequest ::
  "intent_params \<Rightarrow> path_converter \<Rightarrow> 'w tracker option \<Rightarrow> route_goal \<Rightarrow> round_input list \<Rightarrow> 'w server \<Rightarrow>
   (round_status \<times> 'w server) option" where
  "processRouteRequest ip pc tracker goal rs sv =
     process_rounds ip pc tracker rs
       (sv\<lparr>sv_goal := goal, sv_rerouting := ReroutingState_reset, sv_calls := []\<rparr>)"

end
