(* ===== verification/Route_Corners.thy ===== *)
theory Route_Corners
  imports Route_Path
begin

text \<open>
  The geometry of smoothed corners: the arc of a valid corner touches both edges, keeps its radius, and the
  points along it run from its start to its end in steps no longer than the density.
\<close>

section \<open>Angles\<close>

lemma hypotf_pos: "hypotf x y = 0 \<longleftrightarrow> x = 0 \<and> y = 0"
  by (simp add: hypotf_def)

lemma hypotf_square: "(hypotf x y)\<^sup>2 = x\<^sup>2 + y\<^sup>2"
  by (simp add: hypotf_def)

lemma hypotf_scale: "hypotf (k * x) (k * y) = \<bar>k\<bar> * hypotf x y"
proof -
  have "(k * x)\<^sup>2 + (k * y)\<^sup>2 = k\<^sup>2 * (x\<^sup>2 + y\<^sup>2)"
    by (simp add: power_mult_distrib algebra_simps)
  then show ?thesis
    by (simp add: hypotf_def real_sqrt_mult)
qed

lemma hypotf_swap: "hypotf (a - b) (c - d) = hypotf (b - a) (d - c)"
  by (simp add: hypotf_def power2_commute)

lemma atan2_polar:
  assumes "x \<noteq> 0 \<or> y \<noteq> 0"
  shows "hypotf x y * cos (atan2 y x) = x" "hypotf x y * sin (atan2 y x) = y"
proof -
  have h: "hypotf x y = \<bar>x\<bar> * sqrt (1 + (y / x)\<^sup>2)" if "x \<noteq> 0"
  proof -
    have "x\<^sup>2 + y\<^sup>2 = x\<^sup>2 * (1 + (y / x)\<^sup>2)"
      using that by (simp add: field_simps)
    then show ?thesis
      by (simp add: hypotf_def real_sqrt_mult)
  qed
  have s: "sqrt (1 + (y / x)\<^sup>2) \<noteq> 0"
    by (metis add_pos_nonneg less_irrefl real_sqrt_eq_zero_cancel_iff zero_le_power2 zero_less_one)
  consider "0 < x" | "x < 0" | "x = 0"
    by linarith
  then have "hypotf x y * cos (atan2 y x) = x \<and> hypotf x y * sin (atan2 y x) = y"
  proof cases
    case 1
    then show ?thesis
      using h s by (simp add: atan2_def cos_arctan sin_arctan)
  next
    case 2
    have "cos (arctan (y / x) - pi) = - cos (arctan (y / x))" "sin (arctan (y / x) - pi) = - sin (arctan (y / x))"
      by (simp_all add: cos_diff sin_diff)
    then show ?thesis
      using 2 h s by (simp add: atan2_def cos_arctan sin_arctan)
  next
    case 3
    then show ?thesis
      using assms by (auto simp: atan2_def hypotf_def)
  qed
  then show "hypotf x y * cos (atan2 y x) = x" "hypotf x y * sin (atan2 y x) = y"
    by simp_all
qed

lemma rotate_onto:
  assumes r: "ax\<^sup>2 + ay\<^sup>2 = R\<^sup>2" "bx\<^sup>2 + by\<^sup>2 = R\<^sup>2" "0 < R"
    and t: "t = atan2 (ax * by - ay * bx) (ax * bx + ay * by)"
  shows "ax * cos t - ay * sin t = bx" "ax * sin t + ay * cos t = by"
proof -
  let ?d = "ax * bx + ay * by" and ?c = "ax * by - ay * bx"
  have sq: "?d\<^sup>2 + ?c\<^sup>2 = (R\<^sup>2)\<^sup>2"
  proof -
    have "?d\<^sup>2 + ?c\<^sup>2 = (ax\<^sup>2 + ay\<^sup>2) * (bx\<^sup>2 + by\<^sup>2)"
      by (simp add: power2_eq_square algebra_simps)
    then show ?thesis
      using r by (simp add: power2_eq_square)
  qed
  then have h: "hypotf ?d ?c = R\<^sup>2"
    using r(3) by (simp add: hypotf_def real_sqrt_unique)
  have "?d \<noteq> 0 \<or> ?c \<noteq> 0"
    using sq r(3) by auto
  from atan2_polar [OF this] have p: "R\<^sup>2 * cos t = ?d" "R\<^sup>2 * sin t = ?c"
    unfolding h t by simp_all
  have "R\<^sup>2 * (ax * cos t - ay * sin t) = ax * (R\<^sup>2 * cos t) - ay * (R\<^sup>2 * sin t)"
    by (simp add: algebra_simps)
  also have "\<dots> = ax * ?d - ay * ?c"
    unfolding p ..
  also have "\<dots> = (ax\<^sup>2 + ay\<^sup>2) * bx"
    by (simp add: power2_eq_square algebra_simps)
  finally show "ax * cos t - ay * sin t = bx"
    using r by simp
  have "R\<^sup>2 * (ax * sin t + ay * cos t) = ax * (R\<^sup>2 * sin t) + ay * (R\<^sup>2 * cos t)"
    by (simp add: algebra_simps)
  also have "\<dots> = ax * ?c + ay * ?d"
    unfolding p ..
  also have "\<dots> = (ax\<^sup>2 + ay\<^sup>2) * by"
    by (simp add: power2_eq_square algebra_simps)
  finally show "ax * sin t + ay * cos t = by"
    using r by simp
qed

text \<open>The chord of a rotation is at most as long as its arc.\<close>

lemma chord_le_arc:
  assumes r: "ax\<^sup>2 + ay\<^sup>2 = R\<^sup>2" "0 \<le> R"
  shows "hypotf ((ax * cos t - ay * sin t) - (ax * cos s - ay * sin s))
    ((ax * sin t + ay * cos t) - (ax * sin s + ay * cos s)) \<le> R * \<bar>t - s\<bar>"
proof -
  let ?x = "(ax * cos t - ay * sin t) - (ax * cos s - ay * sin s)"
    and ?y = "(ax * sin t + ay * cos t) - (ax * sin s + ay * cos s)"
  have "(cos t - cos s)\<^sup>2 + (sin t - sin s)\<^sup>2 =
      ((sin t)\<^sup>2 + (cos t)\<^sup>2) + ((sin s)\<^sup>2 + (cos s)\<^sup>2) - 2 * (cos t * cos s + sin t * sin s)"
    by (simp only: power2_diff) (simp add: algebra_simps)
  then have unit: "(cos t - cos s)\<^sup>2 + (sin t - sin s)\<^sup>2 = 2 - 2 * cos (t - s)"
    by (simp add: cos_diff)
  have "((ax * a - ay * b) - (ax * c - ay * d))\<^sup>2 + ((ax * b + ay * a) - (ax * d + ay * c))\<^sup>2 =
      (ax\<^sup>2 + ay\<^sup>2) * ((a - c)\<^sup>2 + (b - d)\<^sup>2)" for a b c d :: real
    by (simp add: power2_eq_square algebra_simps)
  then have "?x\<^sup>2 + ?y\<^sup>2 = (ax\<^sup>2 + ay\<^sup>2) * ((cos t - cos s)\<^sup>2 + (sin t - sin s)\<^sup>2)" .
  also have "\<dots> = R\<^sup>2 * (2 * sin ((t - s) / 2))\<^sup>2"
  proof -
    have "2 * ((t - s) / 2) = t - s"
      by simp
    then have "cos (t - s) = 1 - 2 * (sin ((t - s) / 2))\<^sup>2"
      using cos_double_sin [of "(t - s) / 2"] by metis
    then show ?thesis
      unfolding unit r(1) by (simp add: power_mult_distrib)
  qed
  finally have "?x\<^sup>2 + ?y\<^sup>2 = (R * (2 * sin ((t - s) / 2)))\<^sup>2"
    by (simp add: power_mult_distrib)
  then have "hypotf ?x ?y = R * (2 * \<bar>sin ((t - s) / 2)\<bar>)"
    using r(2) by (simp add: hypotf_def abs_mult)
  also have "\<dots> \<le> R * \<bar>t - s\<bar>"
    using abs_sin_x_le_abs_x [of "(t - s) / 2"] r(2) by (intro mult_left_mono) simp_all
  finally show ?thesis .
qed

section \<open>The arc of a corner\<close>

text \<open>
  With unit vectors \<open>u\<close> and \<open>v\<close> from the corner along its edges, at an angle \<open>a\<close> between them, the tangent points
  seen from the centre are \<open>k (cos a u - v)\<close> and \<open>k (cos a v - u)\<close> for \<open>k = r / sin a\<close>.
\<close>

definition unit_to :: "real \<times> real \<Rightarrow> real \<times> real \<Rightarrow> real \<times> real" where
  "unit_to c p = ((fst p - fst c) / hypotf (fst p - fst c) (snd p - snd c),
     (snd p - snd c) / hypotf (fst p - fst c) (snd p - snd c))"

lemma unit_to_norm:
  assumes "p \<noteq> c"
  shows "(fst (unit_to c p))\<^sup>2 + (snd (unit_to c p))\<^sup>2 = 1"
proof -
  let ?h = "hypotf (fst p - fst c) (snd p - snd c)"
  have "?h\<^sup>2 \<noteq> 0"
    using assms by (auto simp: hypotf_pos prod_eq_iff)
  then have "((fst p - fst c)\<^sup>2 + (snd p - snd c)\<^sup>2) / ?h\<^sup>2 = 1"
    unfolding hypotf_square by simp
  then show ?thesis
    by (simp add: unit_to_def power_divide add_divide_distrib)
qed

lemma corner_vectors:
  fixes ux uy vx vy r :: real
  defines "C \<equiv> ux * vx + uy * vy"
  assumes u: "ux\<^sup>2 + uy\<^sup>2 = 1" and v: "vx\<^sup>2 + vy\<^sup>2 = 1" and a: "a = arccos C" "0 < a" "a < pi"
    and bm: "bm = sqrt ((ux + vx) * (ux + vx) + (uy + vy) * (uy + vy))"
    and L: "L = r / tan (a / 2)" and B: "B = r / sin (a / 2)" and k: "k = r / sin a"
  shows "ux * L - (ux + vx) / bm * B = k * (C * ux - vx)" "uy * L - (uy + vy) / bm * B = k * (C * uy - vy)"
    "vx * L - (ux + vx) / bm * B = k * (C * vx - ux)" "vy * L - (uy + vy) / bm * B = k * (C * vy - uy)"
    "C = cos a" "sin a \<noteq> 0"
proof -
  let ?s = "sin (a / 2)" and ?c = "cos (a / 2)"
  have sc: "0 < ?s" "0 < ?c"
    using a by (simp_all add: sin_gt_zero cos_gt_zero)
  have "C\<^sup>2 \<le> 1"
  proof -
    have "C\<^sup>2 + (ux * vy - uy * vx)\<^sup>2 = (ux\<^sup>2 + uy\<^sup>2) * (vx\<^sup>2 + vy\<^sup>2)"
      unfolding C_def by (simp add: power2_eq_square algebra_simps)
    then have "C\<^sup>2 + (ux * vy - uy * vx)\<^sup>2 = 1"
      unfolding u v by simp
    then show ?thesis
      using zero_le_power2 [of "ux * vy - uy * vx"] by linarith
  qed
  then have "- 1 \<le> C" "C \<le> 1"
    using abs_square_le_1 [of C] by (simp_all add: abs_le_iff)
  then show C: "C = cos a"
    using a(1) by simp
  have double: "sin a = 2 * ?s * ?c" "cos a = 2 * ?c\<^sup>2 - 1"
    using sin_double [of "a / 2"] cos_double_cos [of "a / 2"] by simp_all
  then show "sin a \<noteq> 0"
    using sc by simp
  have "(ux + vx) * (ux + vx) + (uy + vy) * (uy + vy) = (ux\<^sup>2 + uy\<^sup>2) + (vx\<^sup>2 + vy\<^sup>2) + 2 * C"
    unfolding C_def by (simp add: power2_eq_square algebra_simps)
  also have "\<dots> = (2 * ?c)\<^sup>2"
    unfolding u v C double(2) by (simp add: power_mult_distrib)
  finally have "bm = sqrt ((2 * ?c)\<^sup>2)"
    unfolding bm by simp
  then have bm': "bm = 2 * ?c"
    using sc(2) by (simp only: real_sqrt_abs)
  have Bk: "B / bm = k"
    unfolding B bm' k double(1) using sc by (simp add: field_simps)
  have "L = r * ?c / ?s"
    unfolding L tan_def by simp
  also have "\<dots> = k * (2 * ?c\<^sup>2)"
    unfolding k double(1) using sc by (simp add: field_simps power2_eq_square)
  finally have Lk: "L = k * (1 + C)"
    unfolding C double(2) by simp
  have part: "w * L - z / bm * B = k * ((1 + C) * w - z)" for w z
  proof -
    have "w * L - z / bm * B = w * L - z * (B / bm)"
      by simp
    then show ?thesis
      unfolding Bk Lk by (simp add: algebra_simps)
  qed
  show "ux * L - (ux + vx) / bm * B = k * (C * ux - vx)" "uy * L - (uy + vy) / bm * B = k * (C * uy - vy)"
    "vx * L - (ux + vx) / bm * B = k * (C * vx - ux)" "vy * L - (uy + vy) / bm * B = k * (C * vy - uy)"
    unfolding part by (simp_all add: algebra_simps)
qed

lemma corner_radius:
  fixes ux uy vx vy a r k :: real
  assumes u: "ux\<^sup>2 + uy\<^sup>2 = 1" and v: "vx\<^sup>2 + vy\<^sup>2 = 1" and C: "ux * vx + uy * vy = cos a" "sin a \<noteq> 0"
    and k: "k = r / sin a"
  shows "(k * (cos a * ux - vx))\<^sup>2 + (k * (cos a * uy - vy))\<^sup>2 = r\<^sup>2"
    and "k * (cos a * ux - vx) * ux + k * (cos a * uy - vy) * uy = 0"
proof -
  have "(k * (cos a * ux - vx))\<^sup>2 + (k * (cos a * uy - vy))\<^sup>2 =
      k\<^sup>2 * ((cos a)\<^sup>2 * (ux\<^sup>2 + uy\<^sup>2) - 2 * cos a * (ux * vx + uy * vy) + (vx\<^sup>2 + vy\<^sup>2))"
    by (simp add: power2_eq_square algebra_simps)
  also have "\<dots> = k\<^sup>2 * (1 - (cos a)\<^sup>2)"
    unfolding u v C(1) by (simp add: power2_eq_square)
  also have "1 - (cos a)\<^sup>2 = (sin a)\<^sup>2"
    by (simp add: sin_squared_eq)
  finally show "(k * (cos a * ux - vx))\<^sup>2 + (k * (cos a * uy - vy))\<^sup>2 = r\<^sup>2"
    using C(2) by (simp add: k power_divide)
  have "k * (cos a * ux - vx) * ux + k * (cos a * uy - vy) * uy =
      k * (cos a * (ux\<^sup>2 + uy\<^sup>2) - (ux * vx + uy * vy))"
    by (simp add: power2_eq_square algebra_simps)
  then show "k * (cos a * ux - vx) * ux + k * (cos a * uy - vy) * uy = 0"
    unfolding u C(1) by simp
qed

text \<open>A valid corner: its arc leaves the first edge at distance \<open>L\<close> from the corner and joins the second there.\<close>

definition arc_ok :: "corner_arc \<Rightarrow> real \<times> real \<Rightarrow> real \<times> real \<Rightarrow> real \<times> real \<Rightarrow> real \<Rightarrow> real \<Rightarrow> bool" where
  "arc_ok arc s c f r L \<longleftrightarrow>
     L < hypotf (fst s - fst c) (snd s - snd c) \<and> L < hypotf (fst f - fst c) (snd f - snd c) \<and>
     arc_start arc = (fst c + fst (unit_to c s) * L, snd c + snd (unit_to c s) * L) \<and>
     arc_end arc = (fst c + fst (unit_to c f) * L, snd c + snd (unit_to c f) * L) \<and>
     (fst (arc_start arc) - fst (arc_center arc))\<^sup>2 + (snd (arc_start arc) - snd (arc_center arc))\<^sup>2 = r\<^sup>2 \<and>
     (fst (arc_end arc) - fst (arc_center arc))\<^sup>2 + (snd (arc_end arc) - snd (arc_center arc))\<^sup>2 = r\<^sup>2 \<and>
     (fst (arc_start arc) - fst (arc_center arc)) * fst (unit_to c s) +
       (snd (arc_start arc) - snd (arc_center arc)) * snd (unit_to c s) = 0 \<and>
     (fst (arc_end arc) - fst (arc_center arc)) * fst (unit_to c f) +
       (snd (arc_end arc) - snd (arc_center arc)) * snd (unit_to c f) = 0"

lemma CornerArc_ok:
  assumes "CornerArc s c f r = Some arc"
  shows "\<exists>L. (0 < r \<longrightarrow> 0 < L) \<and> arc_ok arc s c f r L"
proof -
  define ls lf where "ls = hypotf (fst s - fst c) (snd s - snd c)" and "lf = hypotf (fst f - fst c) (snd f - snd c)"
  have ls': "hypotf (fst c - fst s) (snd c - snd s) = ls"
    by (simp add: ls_def hypotf_swap)
  define ux uy vx vy where "ux = (fst s - fst c) / ls" and "uy = (snd s - snd c) / ls"
    and "vx = (fst f - fst c) / lf" and "vy = (snd f - snd c) / lf"
  define C a where "C = ux * vx + uy * vy" and "a = arccos C"
  define L B bm where "L = r / tan (a / 2)" and "B = r / sin (a / 2)"
    and "bm = sqrt ((ux + vx) * (ux + vx) + (uy + vy) * (uy + vy))"
  define \<theta> where "\<theta> = getAngleBetweenEdges s c f ls lf"
  have eq: "CornerArc s c f r =
      (if ls = 0 \<or> lf = 0 then None
       else if \<bar>\<theta>\<bar> < 1 / 10 ^ 6 \<or> \<bar>\<theta> - pi\<bar> < 1 / 10 ^ 6 then None
       else if r / tan (\<bar>\<theta>\<bar> / 2) < ls \<and> r / tan (\<bar>\<theta>\<bar> / 2) < lf
       then Some \<lparr>arc_start = (fst c + ux * (r / tan (\<bar>\<theta>\<bar> / 2)), snd c + uy * (r / tan (\<bar>\<theta>\<bar> / 2))),
              arc_end = (fst c + vx * (r / tan (\<bar>\<theta>\<bar> / 2)), snd c + vy * (r / tan (\<bar>\<theta>\<bar> / 2))),
              arc_center = (fst c + (ux + vx) / bm * (r / sin (\<theta> / 2)),
                snd c + (uy + vy) / bm * (r / sin (\<theta> / 2)))\<rparr>
       else None)"
    unfolding CornerArc_def Let_def ls' lf_def [symmetric] \<theta>_def ux_def uy_def vx_def vy_def bm_def ..
  then have nz: "ls \<noteq> 0" "lf \<noteq> 0"
    and not_flat: "\<not> (\<bar>\<theta>\<bar> < 1 / 10 ^ 6 \<or> \<bar>\<theta> - pi\<bar> < 1 / 10 ^ 6)"
    using assms by (metis option.distinct(1))+
  have angle: "\<theta> = a"
    unfolding \<theta>_def getAngleBetweenEdges_def a_def C_def ux_def uy_def vx_def vy_def
    using nz by (simp add: add_divide_distrib)
  have ne: "s \<noteq> c" "f \<noteq> c"
    using nz by (auto simp: ls_def lf_def hypotf_def)
  have u: "ux\<^sup>2 + uy\<^sup>2 = 1" "vx\<^sup>2 + vy\<^sup>2 = 1"
    using unit_to_norm [OF ne(1)] unit_to_norm [OF ne(2)]
    by (simp_all add: unit_to_def ls_def [symmetric] lf_def [symmetric] ux_def uy_def vx_def vy_def)
  have "C\<^sup>2 + (ux * vy - uy * vx)\<^sup>2 = (ux\<^sup>2 + uy\<^sup>2) * (vx\<^sup>2 + vy\<^sup>2)"
    unfolding C_def by (simp add: power2_eq_square algebra_simps)
  then have "C\<^sup>2 \<le> 1"
    unfolding u using zero_le_power2 [of "ux * vy - uy * vx"] by linarith
  then have "- 1 \<le> C" "C \<le> 1"
    using abs_square_le_1 [of C] by (simp_all add: abs_le_iff)
  then have a01: "0 \<le> a" "a \<le> pi"
    unfolding a_def by (simp_all add: arccos_lbound arccos_ubound)
  have a: "0 < a" "a < pi"
    using a01 not_flat unfolding angle by (auto simp: abs_if split: if_splits)
  have arc: "L < ls" "L < lf" "arc = \<lparr>arc_start = (fst c + ux * L, snd c + uy * L),
      arc_end = (fst c + vx * L, snd c + vy * L),
      arc_center = (fst c + (ux + vx) / bm * B, snd c + (uy + vy) / bm * B)\<rparr>"
    using assms eq nz not_flat a unfolding angle L_def B_def
    by (simp_all only: if_False if_True simp_thms abs_of_pos split: if_splits) simp_all
  note V = corner_vectors [OF u a_def [unfolded C_def] a bm_def L_def B_def refl, folded C_def]
  have pos: "0 < r \<longrightarrow> 0 < L"
    using a by (simp add: L_def tan_gt_zero)
  have C': "vx * ux + vy * uy = cos a"
    using V(5) by (simp add: C_def mult.commute)
  note R = corner_radius [OF u V(5) [unfolded C_def] V(6) refl, of r]
    and R' = corner_radius [OF u(2,1) C' V(6) refl, of r]
  have "arc_ok arc s c f r L"
    using arc(1,2) V(1-4) R R' V(5)
    by (simp add: arc_ok_def arc(3) unit_to_def ls_def [symmetric] lf_def [symmetric] ux_def [symmetric]
        uy_def [symmetric] vx_def [symmetric] vy_def [symmetric])
  then show ?thesis
    using pos by blast
qed

section \<open>Points on the arc\<close>

definition near :: "real \<Rightarrow> point \<Rightarrow> point \<Rightarrow> bool" where
  "near d p q \<longleftrightarrow> (case (p, q) of
     (Some a, Some b) \<Rightarrow> hypotf (fst b - fst a) (snd b - snd a) \<le> d
   | _ \<Rightarrow> False)"

lemma near_Some [simp]: "near d (Some a) (Some b) \<longleftrightarrow> hypotf (fst b - fst a) (snd b - snd a) \<le> d"
  by (simp add: near_def)

lemma atan2_bound: "\<bar>atan2 y x\<bar> \<le> pi"
proof -
  have b: "- (pi / 2) < arctan z" "arctan z < pi / 2" for z
    by (rule arctan_lbound arctan_ubound)+
  have "arctan (y / x) \<le> 0" if "x < 0" "0 \<le> y"
    using that by (simp add: divide_nonneg_neg)
  moreover have "0 \<le> arctan (y / x)" if "x < 0" "\<not> 0 \<le> y"
    using that by (simp add: divide_nonpos_neg)
  ultimately show ?thesis
    using b [of "y / x"] pi_gt_zero by (auto simp: atan2_def abs_le_iff)
qed

lemma arc_points_map:
  "arc_points c r da js = map (\<lambda>i. Some (fst c + (fst r * cos (real i * da) - snd r * sin (real i * da)),
     snd c + (fst r * sin (real i * da) + snd r * cos (real i * da)))) js"
  by (induction js) (simp_all add: Let_def)

lemma successively_upt:
  "(\<And>i. i < n \<Longrightarrow> P (f i) (f (Suc i))) \<Longrightarrow> successively P (map f [0..<Suc n])"
  by (induction n) (simp_all add: successively_append_iff)

lemma interpolateArc_ok:
  assumes arc: "arc_ok arc s c f r L" and r: "0 < r" and d: "0 < density" and fits: "pi * r / density + 1 < 2 ^ 31"
  shows "\<exists>ps. interpolateArc arc (density / r) = Some ps \<and> ps \<noteq> [] \<and> hd ps = Some (arc_start arc) \<and>
    last ps = Some (arc_end arc) \<and> successively (near density) ps"
proof -
  define ax ay bx where "ax = fst (arc_start arc) - fst (arc_center arc)"
    and "ay = snd (arc_start arc) - snd (arc_center arc)" and "bx = fst (arc_end arc) - fst (arc_center arc)"
  define bz where "bz = snd (arc_end arc) - snd (arc_center arc)"
  define t where "t = atan2 (ax * bz - ay * bx) (ax * bx + ay * bz)"
  define m where "m = \<lceil>\<bar>t\<bar> / (density / r)\<rceil>"
  define n where "n = nat (max 1 m)"
  have rad: "ax\<^sup>2 + ay\<^sup>2 = r\<^sup>2" "bx\<^sup>2 + bz\<^sup>2 = r\<^sup>2"
    using arc unfolding arc_ok_def ax_def ay_def bx_def bz_def by blast+
  have "\<bar>t\<bar> \<le> pi"
    unfolding t_def by (rule atan2_bound)
  then have "\<bar>t\<bar> * r / density \<le> pi * r / density"
    using r d by (intro divide_right_mono mult_right_mono) simp_all
  then have q: "\<bar>t\<bar> / (density / r) + 1 < 2 ^ 31" "0 \<le> \<bar>t\<bar> / (density / r)"
    using fits r d by simp_all
  have "real_of_int m < 2 ^ 31" "- 1 < real_of_int m"
    using q ceiling_correct [of "\<bar>t\<bar> / (density / r)"] unfolding m_def by linarith+
  then have m: "0 \<le> m" "m < 2 ^ 31"
    by simp_all
  have n: "0 < n" "real_of_int m \<le> real n"
    by (auto simp: n_def max_def)
  let ?p = "\<lambda>i. Some (fst (arc_center arc) + (ax * cos (real i * (t / real n)) - ay * sin (real i * (t / real n))),
     snd (arc_center arc) + (ax * sin (real i * (t / real n)) + ay * cos (real i * (t / real n))))"
  have run: "interpolateArc arc (density / r) = Some (map ?p [0..<Suc n])"
    using m d r unfolding interpolateArc_def arc_points_map Let_def fst_conv snd_conv ax_def [symmetric]
      ay_def [symmetric] bx_def [symmetric] bz_def [symmetric] t_def [symmetric] m_def [symmetric] n_def [symmetric]
    by (simp del: upt_Suc)
  have step: "\<bar>t / real n\<bar> * r \<le> density"
  proof -
    have "\<bar>t\<bar> / (density / r) \<le> real n"
      using n(2) le_of_int_ceiling [of "\<bar>t\<bar> / (density / r)"] unfolding m_def by linarith
    then have "\<bar>t\<bar> * r \<le> real n * density"
      using d r by (simp add: field_simps)
    then show ?thesis
      using n(1) by (simp add: field_simps)
  qed
  have near_step: "near density (?p i) (?p (Suc i))" for i
  proof -
    have "real (Suc i) * z - real i * z = z" for z :: real
      by (simp add: algebra_simps)
    then have "\<bar>real (Suc i) * (t / real n) - real i * (t / real n)\<bar> = \<bar>t / real n\<bar>"
      by (rule arg_cong)
    then show ?thesis
      using chord_le_arc [OF rad(1), of "real (Suc i) * (t / real n)" "real i * (t / real n)"] r step
      by (simp add: mult.commute)
  qed
  note last_point = rotate_onto [OF rad r t_def]
  have pn: "?p n = Some (arc_end arc)"
    using last_point n(1) by (simp add: bx_def bz_def)
  have p0: "?p 0 = Some (arc_start arc)"
    by (simp add: ax_def ay_def)
  show ?thesis
  proof (intro exI conjI)
    show "interpolateArc arc (density / r) = Some (map ?p [0..<Suc n])"
      by (rule run)
    show "map ?p [0..<Suc n] \<noteq> []"
      by simp
    show "hd (map ?p [0..<Suc n]) = Some (arc_start arc)"
      unfolding p0 [symmetric] by (simp add: hd_map del: upt_Suc)
    show "last (map ?p [0..<Suc n]) = Some (arc_end arc)"
      unfolding pn [symmetric] by simp
    show "successively (near density) (map ?p [0..<Suc n])"
      by (rule successively_upt, rule near_step)
  qed
qed

end
