(* ===== verification/Route_Path_Props.thy ===== *)
theory Route_Path_Props
  imports Route_Corners
begin

text \<open>
  The path of a route: it starts and ends where the route does and its poses are close together, corners
  included; and what happens when two points to interpolate between coincide.
\<close>

section \<open>Straight lines\<close>

abbreviation pdist :: "real \<times> real \<Rightarrow> real \<times> real \<Rightarrow> real" where
  "pdist a b \<equiv> hypotf (fst b - fst a) (snd b - snd a)"

lemma pdist_zero: "pdist a b = 0 \<longleftrightarrow> a = b"
  by (auto simp: hypotf_pos prod_eq_iff)

lemma pdist_nonneg: "0 \<le> hypotf x y"
  by (simp add: hypotf_def)

lemma march_map:
  "Some (x, y) # march n x y dx dy = map (\<lambda>i. Some (x + real i * dx, y + real i * dy)) [0..<Suc n]"
proof (induction n arbitrary: x y)
  case (Suc n)
  have "map (\<lambda>i. Some (x + real i * dx, y + real i * dy)) [0..<Suc (Suc n)] =
      Some (x, y) # map (\<lambda>i. Some (x + real (Suc i) * dx, y + real (Suc i) * dy)) [0..<Suc n]"
    by (subst upt_conv_Cons) (simp_all add: map_Suc_upt [symmetric] o_def del: upt_Suc)
  then show ?case
    using Suc [of "x + dx" "y + dy"] by (simp add: algebra_simps del: upt_Suc)
qed simp

lemma interpolate_ok:
  assumes "0 < path_density pc" "s \<noteq> f" "pdist s f / path_density pc + 1 < 2 ^ 32"
  shows "\<exists>ps. interpolate pc s f = Some ps \<and> ps \<noteq> [] \<and> hd ps = Some s \<and>
    successively (near (path_density pc)) ps \<and> near (path_density pc) (last ps) (Some f)"
proof -
  define d mag where "d = path_density pc" and "mag = pdist s f"
  define c where "c = \<lceil>mag / d\<rceil>"
  define n where "n = nat c - 1"
  have "mag \<noteq> 0" "0 \<le> mag"
    using assms(2) pdist_zero [where a = s and b = f] by (simp_all add: mag_def pdist_nonneg)
  then have pos: "0 < d" "0 < mag"
    using assms(1) by (simp_all add: d_def)
  then have q: "0 < mag / d" "mag / d + 1 < 2 ^ 32"
    using assms(3) by (simp_all add: d_def mag_def)
  then have "0 < real_of_int c" "real_of_int c < 2 ^ 32"
    using ceiling_correct [of "mag / d"] unfolding c_def by linarith+
  then have c: "0 < c" "c < 2 ^ 32"
    by simp_all
  then have u: "unat (of_int c :: u32) = nat c"
    by (simp add: unsigned_of_int take_bit_int_eq_self)
  then have one: "(1 :: u32) \<le> of_int c"
    using c(1) by (simp add: word_le_nat_alt)
  have u1: "unat (of_int c - 1 :: u32) = n"
    using unat_sub [OF one] u by (simp add: n_def)
  have n: "real n + 1 = real_of_int c" "nat c = Suc n"
    using c(1) by (simp_all add: n_def)
  define dx dy where "dx = (fst f - fst s) / mag * (mag / real (nat c))"
    and "dy = (snd f - snd s) / mag * (mag / real (nat c))"
  let ?p = "\<lambda>i. Some (fst s + real i * dx, snd s + real i * dy)"
  have run: "interpolate pc s f = Some (map ?p [0..<Suc n])"
    using c pos unfolding interpolate_def interpolateEdge_def Let_def d_def [symmetric] mag_def [symmetric]
      c_def [symmetric] u u1 dx_def [symmetric] dy_def [symmetric]
    by (simp add: march_map [of "fst s" "snd s", unfolded prod.collapse] del: upt_Suc)
  have step: "hypotf dx dy \<le> d"
  proof -
    have "dx = (fst f - fst s) / real (nat c)" "dy = (snd f - snd s) / real (nat c)"
      using pos by (simp_all add: dx_def dy_def)
    then have "hypotf dx dy = mag / real (nat c)"
      using hypotf_scale [of "1 / real (nat c)" "fst f - fst s" "snd f - snd s"] by (simp add: mag_def)
    moreover have le: "mag / d \<le> real (nat c)"
      using c(1) le_of_int_ceiling [of "mag / d"] unfolding c_def by simp
    moreover have "mag \<le> real (nat c) * d"
      using le pos(1) by (simp add: pos_divide_le_eq)
    moreover have "0 < real (nat c)"
      using c(1) by simp
    ultimately show ?thesis
      by (simp only: pos_divide_le_eq mult.commute)
  qed
  have near_step: "near d (?p i) (Some (fst s + real (Suc i) * dx, snd s + real (Suc i) * dy))" for i
  proof -
    have "a + real (Suc i) * z - (a + real i * z) = z" for a z :: real
      by (simp add: algebra_simps)
    then show ?thesis
      using step by simp
  qed
  have "real (Suc n) * dx = fst f - fst s" "real (Suc n) * dy = snd f - snd s"
    using pos c(1) by (simp_all add: dx_def dy_def n(2))
  then have pn: "f = (fst s + real (Suc n) * dx, snd s + real (Suc n) * dy)"
    by (simp add: prod_eq_iff)
  show ?thesis
    unfolding d_def [symmetric]
  proof (intro exI conjI)
    show "interpolate pc s f = Some (map ?p [0..<Suc n])"
      by (rule run)
    show "map ?p [0..<Suc n] \<noteq> []"
      by simp
    show "hd (map ?p [0..<Suc n]) = Some s"
      by (simp add: hd_map del: upt_Suc)
    show "successively (near d) (map ?p [0..<Suc n])"
      by (rule successively_upt, rule near_step)
    show "near d (last (map ?p [0..<Suc n])) (Some f)"
      using near_step [of n] unfolding pn by simp
  qed
qed

section \<open>Along the edges\<close>

lemma arc_distances:
  assumes "arc_ok arc s c f r L" "0 < L"
  shows "pdist s (arc_start arc) = pdist s c - L" "pdist (arc_end arc) f = pdist c f - L"
proof -
  have scale: "pdist (fst c + fst (unit_to c p) * L, snd c + snd (unit_to c p) * L) p = pdist c p - L"
    if "L < pdist c p" for p
  proof -
    let ?m = "pdist c p"
    have "fst p - (fst c + fst (unit_to c p) * L) = (1 - L / ?m) * (fst p - fst c)"
      "snd p - (snd c + snd (unit_to c p) * L) = (1 - L / ?m) * (snd p - snd c)"
      by (simp_all add: unit_to_def field_simps)
    then have "pdist (fst c + fst (unit_to c p) * L, snd c + snd (unit_to c p) * L) p = \<bar>1 - L / ?m\<bar> * ?m"
      by (simp add: hypotf_scale)
    also have "\<dots> = ?m - L"
      using that assms(2) by (simp add: field_simps)
    finally show ?thesis .
  qed
  show "pdist s (arc_start arc) = pdist s c - L"
    using scale [of s] assms(1) by (simp add: arc_ok_def hypotf_swap)
  show "pdist (arc_end arc) f = pdist c f - L"
    using scale [of f] assms(1) by (simp add: arc_ok_def)
qed

text \<open>The points so far lead to the start of the next piece.\<close>

definition leads_to :: "real \<Rightarrow> point list \<Rightarrow> real \<times> real \<Rightarrow> bool" where
  "leads_to d ps s \<longleftrightarrow> successively (near d) (ps @ [Some s])"

lemma leads_to_append:
  assumes "leads_to d ps s" "ps' \<noteq> []" "hd ps' = Some s" "successively (near d) ps'" "near d (last ps') (Some f)"
  shows "leads_to d (ps @ ps') f" "hd ((ps @ ps') @ [Some f]) = hd (ps @ [Some s])"
  using assms by (auto simp: leads_to_def successively_append_iff hd_append)

definition corner_ok :: "path_converter \<Rightarrow> bool" where
  "corner_ok pc \<longleftrightarrow> 0 < path_density pc \<and> 0 < smoothing_radius pc \<and>
     pi * smoothing_radius pc / path_density pc + 1 < 2 ^ 31"

text \<open>A piece that is neither empty nor too long for the counters.\<close>

definition piece_ok :: "path_converter \<Rightarrow> real \<times> real \<Rightarrow> real \<times> real \<Rightarrow> bool" where
  "piece_ok pc a b \<longleftrightarrow> a \<noteq> b \<and> pdist a b / path_density pc + 1 < 2 ^ 32"

lemma piece_ok_shorter:
  assumes "piece_ok pc a b" "0 < path_density pc" "0 < pdist a' b'" "pdist a' b' \<le> pdist a b"
  shows "piece_ok pc a' b'"
proof -
  have "pdist a' b' / path_density pc \<le> pdist a b / path_density pc"
    using assms by (intro divide_right_mono) simp_all
  then show ?thesis
    using assms pdist_zero [where a = a' and b = b'] by (auto simp: piece_ok_def)
qed

lemma corner_step:
  assumes ok: "corner_ok pc" and arc: "CornerArc s c f (smoothing_radius pc) = Some arc"
    and pieces: "piece_ok pc s c" "piece_ok pc c f" and lead: "leads_to (path_density pc) poses s"
  shows "\<exists>ps ps'. interpolate pc s (arc_start arc) = Some ps \<and>
    interpolateArc arc (path_density pc / smoothing_radius pc) = Some ps' \<and>
    leads_to (path_density pc) (poses @ ps @ ps') (arc_end arc) \<and>
    hd ((poses @ ps @ ps') @ [Some (arc_end arc)]) = hd (poses @ [Some s]) \<and> piece_ok pc (arc_end arc) f"
proof -
  let ?d = "path_density pc" and ?r = "smoothing_radius pc"
  have d: "0 < ?d" and r: "0 < ?r" and fits: "pi * ?r / ?d + 1 < 2 ^ 31"
    using ok by (simp_all add: corner_ok_def)
  obtain L where L: "0 < L" "arc_ok arc s c f ?r L"
    using CornerArc_ok [OF arc] r by blast
  have less: "L < pdist s c" "L < pdist c f"
    using L(2) by (simp_all add: arc_ok_def hypotf_swap)
  note dist = arc_distances [OF L(2,1)]
  have p1: "piece_ok pc s (arc_start arc)" and p2: "piece_ok pc (arc_end arc) f"
    using piece_ok_shorter [OF pieces(1) d, where a' = s and b' = "arc_start arc"]
      piece_ok_shorter [OF pieces(2) d, where a' = "arc_end arc" and b' = f]
      dist less L(1) by simp_all
  obtain ps where ps: "interpolate pc s (arc_start arc) = Some ps" "ps \<noteq> []" "hd ps = Some s"
    "successively (near ?d) ps" "near ?d (last ps) (Some (arc_start arc))"
    using interpolate_ok [OF d, of s "arc_start arc"] p1 unfolding piece_ok_def by blast
  obtain ps' where ps': "interpolateArc arc (?d / ?r) = Some ps'" "ps' \<noteq> []" "hd ps' = Some (arc_start arc)"
    "last ps' = Some (arc_end arc)" "successively (near ?d) ps'"
    using interpolateArc_ok [OF L(2) r d fits] by blast
  have stay: "near ?d (last ps') (Some (arc_end arc))"
    using d unfolding ps'(4) by (simp add: hypotf_def)
  note l1 = leads_to_append [OF lead ps(2-5)]
  note l2 = leads_to_append [OF l1(1) ps'(2,3,5) stay]
  show ?thesis
    using ps(1) ps'(1) l1 l2 p2 by auto
qed

lemma straight_step:
  assumes d: "0 < path_density pc" and piece: "piece_ok pc s f" and lead: "leads_to (path_density pc) poses s"
  shows "\<exists>ps. interpolate pc s f = Some ps \<and> leads_to (path_density pc) (poses @ ps) f \<and>
    hd ((poses @ ps) @ [Some f]) = hd (poses @ [Some s])"
proof -
  obtain ps where ps: "interpolate pc s f = Some ps" "ps \<noteq> []" "hd ps = Some s"
    "successively (near (path_density pc)) ps" "near (path_density pc) (last ps) (Some f)"
    using interpolate_ok [OF d, of s f] piece unfolding piece_ok_def by blast
  then show ?thesis
    using leads_to_append [OF lead ps(2-5)] by blast
qed

fun pieces_ok :: "path_converter \<Rightarrow> graph \<Rightarrow> real \<times> real \<Rightarrow> dir_edge list \<Rightarrow> bool" where
  "pieces_ok pc g s [] \<longleftrightarrow> True"
| "pieces_ok pc g s (e # es) \<longleftrightarrow>
     piece_ok pc s (xy (coords (g ! e_end e))) \<and> pieces_ok pc g (xy (coords (g ! e_end e))) es"

lemma densify_edges_ok:
  assumes "corner_ok pc" "es \<noteq> []" "pieces_ok pc g s es" "leads_to (path_density pc) poses s"
  shows "\<exists>poses' s'. densify_edges pc g es s poses = Some (poses', s') \<and>
    leads_to (path_density pc) poses' s' \<and> hd (poses' @ [Some s']) = hd (poses @ [Some s]) \<and>
    piece_ok pc s' (xy (coords (g ! e_end (last es))))"
  using assms(2-4)
proof (induction es arbitrary: s poses)
  case (Cons e es)
  let ?f = "xy (coords (g ! e_end e))"
  have d: "0 < path_density pc"
    using assms(1) by (simp add: corner_ok_def)
  show ?case
  proof (cases es)
    case Nil
    then show ?thesis
      using Cons.prems by simp
  next
    case es: (Cons e' es')
    let ?f' = "xy (coords (g ! e_end e'))"
    have pieces: "piece_ok pc s ?f" "piece_ok pc ?f ?f'" "pieces_ok pc g ?f es" "pieces_ok pc g ?f' es'"
      using Cons.prems(2) es by auto
    show ?thesis
    proof (cases "smooth_corners pc \<and> (\<exists>arc. CornerArc s ?f ?f' (smoothing_radius pc) = Some arc)")
      case True
      then obtain arc where arc: "CornerArc s ?f ?f' (smoothing_radius pc) = Some arc" "smooth_corners pc"
        by blast
      obtain ps ps' where step: "interpolate pc s (arc_start arc) = Some ps"
        "interpolateArc arc (path_density pc / smoothing_radius pc) = Some ps'"
        "leads_to (path_density pc) (poses @ ps @ ps') (arc_end arc)"
        "hd ((poses @ ps @ ps') @ [Some (arc_end arc)]) = hd (poses @ [Some s])" "piece_ok pc (arc_end arc) ?f'"
        using corner_step [OF assms(1) arc(1) pieces(1,2) Cons.prems(3)] by blast
      have "pieces_ok pc g (arc_end arc) es"
        using step(5) pieces(4) es by simp
      from Cons.IH [OF _ this step(3)] show ?thesis
        using arc step es by (simp del: append_assoc)
    next
      case False
      obtain ps where step: "interpolate pc s ?f = Some ps" "leads_to (path_density pc) (poses @ ps) ?f"
        "hd ((poses @ ps) @ [Some ?f]) = hd (poses @ [Some s])"
        using straight_step [OF d pieces(1) Cons.prems(3)] by blast
      have "densify_edges pc g (e # es) s poses = densify_edges pc g es ?f (poses @ ps)"
        using False step(1) es by (auto simp: Let_def split: option.splits)
      then show ?thesis
        using Cons.IH [OF _ pieces(3) step(2)] step(3) es by (simp del: append_assoc)
    qed
  qed
qed simp

section \<open>Properties\<close>

lemma count_replicate: "count_list (replicate n x) x = n"
  by (induction n) simp_all

lemma edge_pieces:
  assumes "successively (\<lambda>e e'. e_end e = e_start e') es" "\<forall>e\<in>set es. piece_ok pc (xy (coords (g ! e_start e))) (xy (coords (g ! e_end e)))"
    and "es \<noteq> []"
  shows "pieces_ok pc g (xy (coords (g ! e_start (hd es)))) es"
  using assms by (induction es rule: induct_list012) auto

text \<open>C15. The path of a route, corners smoothed or not, starts at the start of the route, ends at its end, and has a
  pose at least every \<open>density\<close> metres; its arcs leave and join the edges on the edges, and every point is a
  number. The edges are connected, join distinct points and are not too long for the counters.\<close>

theorem path_follows_route:
  assumes "corner_ok pc" "curr_edge rinfo = None" "edges r \<noteq> []"
    and "successively (\<lambda>e e'. e_end e = e_start e') (edges r)"
    and "\<forall>e\<in>set (edges r). piece_ok pc (xy (coords (g ! e_start e))) (xy (coords (g ! e_end e)))"
  shows "\<exists>ps. densify_points pc g r rinfo = Some ps \<and>
    hd ps = Some (xy (coords (g ! e_start (hd (edges r))))) \<and>
    last ps = Some (xy (coords (g ! e_end (last (edges r))))) \<and> successively (near (path_density pc)) ps"
proof -
  let ?s = "xy (coords (g ! e_start (hd (edges r))))" and ?f = "xy (coords (g ! e_end (last (edges r))))"
  have d: "0 < path_density pc"
    using assms(1) by (simp add: corner_ok_def)
  have "leads_to (path_density pc) [] ?s"
    by (simp add: leads_to_def)
  from densify_edges_ok [OF assms(1,3) edge_pieces [OF assms(4,5,3)] this]
  obtain poses s where run: "densify_edges pc g (edges r) ?s [] = Some (poses, s)"
    "leads_to (path_density pc) poses s" "hd (poses @ [Some s]) = hd [Some ?s]" "piece_ok pc s ?f"
    by auto
  obtain ps where "interpolate pc s ?f = Some ps" "leads_to (path_density pc) (poses @ ps) ?f"
    "hd ((poses @ ps) @ [Some ?f]) = hd (poses @ [Some s])"
    using straight_step [OF d run(4,2)] by blast
  then show ?thesis
    using assms(2,3) run(1,3) by (auto simp: densify_points_def leads_to_def Let_def)
qed

text \<open>C29. Two equal points make the counter of the interpolation wrap round: instead of none it makes \<open>2 ^ 32 - 1\<close>
  poses, none of them a number. A rerouted path does so when the robot was last seen past the end of its edge,
  because then the point of the edge nearest to it is that end.\<close>

theorem equal_points_flood_path:
  assumes "0 < path_density pc" "curr_edge rinfo = Some e" "edges r = []"
    and "closest_pt_on_edge rinfo = findClosestPoint p (coords (g ! e_start e)) (coords (g ! e_end e))"
    and "1 / 10 ^ 6 \<le> (co_x (coords (g ! e_end e)) - co_x (coords (g ! e_start e)))\<^sup>2 +
      (co_y (coords (g ! e_end e)) - co_y (coords (g ! e_start e)))\<^sup>2"
    and "0 < (p_x p - co_x (coords (g ! e_end e))) * (co_x (coords (g ! e_end e)) - co_x (coords (g ! e_start e))) +
      (p_y p - co_y (coords (g ! e_end e))) * (co_y (coords (g ! e_end e)) - co_y (coords (g ! e_start e)))"
  shows "\<exists>ps. densify_points pc g r rinfo = Some ps \<and> count_list ps None = 2 ^ 32 - 1"
proof -
  let ?s = "coords (g ! e_start e)" and ?f = "coords (g ! e_end e)"
  define vx vy where "vx = co_x ?f - co_x ?s" and "vy = co_y ?f - co_y ?s"
  have vv: "1 / 10 ^ 6 \<le> vx * vx + vy * vy"
    using assms(5) by (simp add: vx_def vy_def power2_eq_square)
  have "0 < (p_x p - co_x ?f) * vx + (p_y p - co_y ?f) * vy"
    using assms(6) by (simp add: vx_def vy_def)
  then have "vx * vx + vy * vy < - (vx * (co_x ?s - p_x p) + vy * (co_y ?s - p_y p))"
    by (simp add: vx_def vy_def algebra_simps)
  moreover define t where "t = - (vx * (co_x ?s - p_x p) + vy * (co_y ?s - p_y p)) / (vx * vx + vy * vy)"
  ultimately have "1 < t"
    using vv by (simp add: less_divide_eq)
  then have t: "\<not> (0 < t \<and> t < 1)" "\<not> t \<le> 0"
    by simp_all
  have "\<not> vx * vx + vy * vy < 1 / 10 ^ 6"
    using vv by simp
  then have "findClosestPoint p ?s ?f = ?f"
    unfolding findClosestPoint_def Let_def vx_def [symmetric] vy_def [symmetric] t_def [symmetric]
    by (simp only: t if_False)
  moreover have "interpolate pc (xy ?f) (xy ?f) = Some (Some (xy ?f) # replicate (2 ^ 32 - 1) None)"
    using assms(1) by (simp add: interpolate_def interpolateEdge_def hypotf_def Let_def unsigned_minus_1_eq_mask mask_eq_exp_minus_1)
  ultimately show ?thesis
    using assms(2-4) by (simp add: densify_points_def count_replicate)
qed

section \<open>Witnesses\<close>

text \<open>A route round a right angle, smoothed with a radius of one metre.\<close>

definition bend_node :: "real \<Rightarrow> real \<Rightarrow> node" where
  "bend_node x y = \<lparr>nodeid = 0, coords = Coordinates_new\<lparr>co_x := x, co_y := y\<rparr>, neighbors = [],
     n_metadata = [], n_operations = [], search_state = SearchState_reset\<rparr>"

definition bend_edge :: "u32 \<Rightarrow> nat \<Rightarrow> nat \<Rightarrow> dir_edge" where
  "bend_edge i a b = \<lparr>edgeid = i, e_start = a, e_end = b, edge_cost = \<lparr>ec_cost = 0, overridable = True\<rparr>,
     e_metadata = [], e_operations = []\<rparr>"

definition bend_graph :: graph where
  "bend_graph = [bend_node 0 0, bend_node 4 0, bend_node 4 4]"

definition bend_converter :: path_converter where
  "bend_converter = \<lparr>path_density = 1, smoothing_radius = 1, smooth_corners = True\<rparr>"

lemmas bend_defs = bend_node_def bend_edge_def bend_graph_def bend_converter_def

theorem path_follows_route_witness:
  "\<exists>ps. densify_points bend_converter bend_graph
      \<lparr>start_node = 0, edges = [bend_edge 1 0 1, bend_edge 2 1 2], route_cost = 8\<rparr> ReroutingState_reset = Some ps \<and>
    hd ps = Some (0, 0) \<and> last ps = Some (4, 4) \<and> successively (near 1) ps"
proof -
  have sq: "hypotf 4 0 = 4" "hypotf 0 4 = 4"
    by (simp_all add: hypotf_def)
  have "corner_ok bend_converter"
    using pi_less_4 by (simp add: corner_ok_def bend_converter_def)
  from path_follows_route [OF this, of ReroutingState_reset
      "\<lparr>start_node = 0, edges = [bend_edge 1 0 1, bend_edge 2 1 2], route_cost = 8\<rparr>" bend_graph]
  show ?thesis
    by (simp add: bend_defs ReroutingState_reset_def piece_ok_def sq)
qed

theorem equal_points_flood_path_witness:
  "\<exists>ps. densify_points bend_converter bend_graph \<lparr>start_node = 1, edges = [], route_cost = 0\<rparr>
      (ReroutingState_reset\<lparr>curr_edge := Some (bend_edge 1 0 1),
         closest_pt_on_edge := findClosestPoint \<lparr>p_x = 5, p_y = 0\<rparr> (coords (bend_graph ! 0)) (coords (bend_graph ! 1))\<rparr>)
      = Some ps \<and> count_list ps None = 2 ^ 32 - 1"
  by (rule equal_points_flood_path [where p = "\<lparr>p_x = 5, p_y = 0\<rparr>" and e = "bend_edge 1 0 1"]) (simp_all add: bend_defs)

end
