(* ===== verification/Route_Server_Props.thy ===== *)
theory Route_Server_Props
  imports Route_Server Route_Tracker_Props Route_Path_Props
begin

text \<open>
  The route server as a whole: what a round returns keeps to the planned route and away from blocked edges, a
  request is answered once, and under the conditions on planner, path and tracker a request to follow a route
  succeeds. It also shows what the search for the nearest node does to the poses.
\<close>

section \<open>Pruning\<close>

lemma pruneStart_route:
  assumes "pruneStart ip rnd g p l r rinfo = (r', rinfo')"
  shows "(start_node r' = start_node r \<and> edges r' = edges r \<and> rinfo' = rinfo) \<or>
    (start_node r' = e_end (hd (edges r)) \<and> edges r' = tl (edges r) \<and>
     (rinfo' = rinfo \<or> (\<exists>e. l = Some e \<and> edgeid e = edgeid (hd (edges r)) \<and>
        rinfo' = rinfo\<lparr>closest_pt_on_edge := closest_pt_on_edge rinfo', curr_edge := Some (hd (edges r))\<rparr>)))"
  using assms by (auto simp: pruneStart_def Let_def split: if_splits option.splits)

lemma pruneGoal_route:
  "start_node (pruneGoal ip rnd g p r) = start_node r"
  "edges (pruneGoal ip rnd g p r) = edges r \<or> edges (pruneGoal ip rnd g p r) = butlast (edges r)"
  by (auto simp: pruneGoal_def Let_def)

text \<open>
  A route and what pruning made of it: the first edge may go, and then the route starts where that edge ends,
  and the last edge may go. The edge kept for the tracker is the first one, gone, when the robot was on it.
\<close>

definition pruned :: "route \<Rightarrow> dir_edge option \<Rightarrow> route \<Rightarrow> dir_edge option \<Rightarrow> bool" where
  "pruned r l r' ce \<longleftrightarrow>
     (\<exists>es. (start_node r' = start_node r \<and> es = edges r \<and> ce = None \<or>
            edges r \<noteq> [] \<and> start_node r' = e_end (hd (edges r)) \<and> es = tl (edges r) \<and>
            (ce = None \<or> ce = Some (hd (edges r)) \<and> (\<exists>e. l = Some e \<and> edgeid e = edgeid (hd (edges r))))) \<and>
           (edges r' = es \<or> edges r' = butlast es))"

lemma pruneStartandGoal_pruned:
  assumes "pruneStartandGoal ip rnd g x r goal rinfo = (r', rinfo')"
  shows "pruned r (curr_edge rinfo) r' (curr_edge rinfo') \<and> blocked_ids rinfo' = blocked_ids rinfo \<and>
    rerouting_start_id rinfo' = rerouting_start_id rinfo \<and> \<not> first_time rinfo'"
proof -
  define rinfo1 where "rinfo1 = rinfo\<lparr>curr_edge := None, first_time := False\<rparr>"
  show ?thesis
  proof (cases "edges r = [] \<or> (\<not> goal_use_poses goal \<and> first_time rinfo)")
    case True
    then show ?thesis
      using assms by (auto simp: pruneStartandGoal_def Let_def pruned_def)
  next
    case False
    obtain r1 rinfo2 where start: "pruneStart ip rnd g (ps_pose (gi_start x)) (curr_edge rinfo) r rinfo1 = (r1, rinfo2)"
      by fastforce
    have res: "rinfo' = rinfo2" "r' = r1 \<or> r' = pruneGoal ip rnd g (ps_pose (gi_goal x)) r1"
      using assms False start by (auto simp: pruneStartandGoal_def Let_def rinfo1_def split: if_splits)
    have r1: "start_node r' = start_node r1" "edges r' = edges r1 \<or> edges r' = butlast (edges r1)"
      using res(2) pruneGoal_route [of ip rnd g "ps_pose (gi_goal x)" r1] by auto
    from pruneStart_route [OF start] show ?thesis
    proof
      assume "start_node r1 = start_node r \<and> edges r1 = edges r \<and> rinfo2 = rinfo1"
      then show ?thesis
        using r1 res(1) by (auto simp: pruned_def rinfo1_def)
    next
      assume *: "start_node r1 = e_end (hd (edges r)) \<and> edges r1 = tl (edges r) \<and>
        (rinfo2 = rinfo1 \<or> (\<exists>e. curr_edge rinfo = Some e \<and> edgeid e = edgeid (hd (edges r)) \<and>
          rinfo2 = rinfo1\<lparr>closest_pt_on_edge := closest_pt_on_edge rinfo2, curr_edge := Some (hd (edges r))\<rparr>))"
      then obtain c where "rinfo2 = rinfo1 \<or> (\<exists>e. curr_edge rinfo = Some e \<and> edgeid e = edgeid (hd (edges r)) \<and>
          rinfo2 = rinfo1\<lparr>closest_pt_on_edge := c, curr_edge := Some (hd (edges r))\<rparr>)"
        by blast
      then show ?thesis
        using * r1 res(1) False by (auto simp: pruned_def rinfo1_def)
    qed
  qed
qed

lemma pruned_edges:
  assumes "pruned r l r' ce"
  shows "set (edges r') \<subseteq> set (edges r)" "\<And>e. ce = Some e \<Longrightarrow> e \<in> set (edges r)"
proof -
  obtain es where es: "es = edges r \<or> es = tl (edges r)" "edges r' = es \<or> edges r' = butlast es"
    using assms unfolding pruned_def by blast
  have "set es \<subseteq> set (edges r)"
    using es(1) by (cases "edges r") auto
  then show "set (edges r') \<subseteq> set (edges r)"
    using es(2) in_set_butlastD by fastforce
  show "\<And>e. ce = Some e \<Longrightarrow> e \<in> set (edges r)"
    using assms by (auto simp: pruned_def)
qed

text \<open>A part of a path is a path.\<close>

lemma pruned_path:
  assumes "route_path g W (start_node r) (edges r) goal" "pruned r l r' ce"
  shows "\<exists>v. route_path g W (start_node r') (edges r') v"
proof -
  have cut: "\<exists>v. route_path g W u (butlast es) v" if "route_path g W u es w" for u es w
  proof (cases es rule: rev_cases)
    case (snoc es' e)
    then show ?thesis
      using that by (auto simp: route_path_snoc)
  qed auto
  have "\<exists>v. route_path g W (e_end (hd (edges r))) (tl (edges r)) v" if "edges r \<noteq> []"
    using that assms(1) by (cases "edges r") auto
  then show ?thesis
    using assms cut by (auto simp: pruned_def)
qed

section \<open>A round\<close>

definition request_of :: "nat \<Rightarrow> nat \<Rightarrow> extractor \<Rightarrow> 'w server \<Rightarrow> route_request" where
  "request_of a b x sv = route_request_of a b x (sv_goal sv)"

definition planning_env :: "round_input \<Rightarrow> 'w server \<Rightarrow> nat \<Rightarrow> nat \<Rightarrow> extractor \<Rightarrow> bool" where
  "planning_env ri sv a b x \<longleftrightarrow>
     planning_ok (r_env ri) (prepared (sv_planner sv) (sv_graph sv) a b) (sv_graph sv)
       (blocked_ids (sv_rerouting sv)) (request_of a b x sv)"

definition server_weight :: "round_input \<Rightarrow> 'w server \<Rightarrow> nat \<Rightarrow> nat \<Rightarrow> extractor \<Rightarrow> dir_edge \<Rightarrow> real option" where
  "server_weight ri sv a b x =
     edge_weight (r_env ri) (prepared (sv_planner sv) (sv_graph sv) a b) (sv_graph sv)
       (blocked_ids (sv_rerouting sv)) (request_of a b x sv)"

text \<open>C4. A route of the server is what pruning leaves of an optimal route between the ends found, from the last node
  the robot passed when it reroutes. It is a path of the graph, neither it nor the edge handed to the tracker
  as current is blocked, and it keeps the record of blocked ids.\<close>

theorem server_route_safe:
  assumes "route_ends ip ri sv = Some (Inr (a, b), x)" "server_findRoute ip ri sv = Some (Inr r', sv')"
    and "planning_env ri sv a b x" "queue (sv_planner sv) = []"
  shows "(rerouting_start_id (sv_rerouting sv) \<noteq> unset_id \<longrightarrow>
      sv_ids sv (rerouting_start_id (sv_rerouting sv)) = Some a) \<and>
    (\<exists>r v. (if a = b then r = \<lparr>start_node = a, edges = [], route_cost = 0\<rparr>
            else optimal_route (rounding (r_env ri)) (server_weight ri sv a b x) (sv_graph sv) a b r) \<and>
       pruned r (curr_edge (sv_rerouting sv)) r' (curr_edge (sv_rerouting sv')) \<and>
       route_path (sv_graph sv) (server_weight ri sv a b x) (start_node r') (edges r') v) \<and>
    edgeid ` set (edges r') \<inter> set (blocked_ids (sv_rerouting sv)) = {} \<and>
    (\<forall>e. curr_edge (sv_rerouting sv') = Some e \<longrightarrow> edgeid e \<notin> set (blocked_ids (sv_rerouting sv))) \<and>
    blocked_ids (sv_rerouting sv') = blocked_ids (sv_rerouting sv) \<and> same_graph (sv_graph sv) (sv_graph sv')"
proof -
  let ?W = "server_weight ri sv a b x" and ?b = "blocked_ids (sv_rerouting sv)"
  obtain r g P rinfo where plan: "(if a = b
      then (if a < length (sv_graph sv) then Some (Inr \<lparr>start_node = a, edges = [], route_cost = 0\<rparr>, sv_graph sv, sv_planner sv)
            else Some (Inl Out_of_range, sv_graph sv, sv_planner sv))
      else findRoute (r_env ri) (sv_planner sv) (sv_graph sv) a b ?b (request_of a b x sv)) = Some (Inr r, g, P)"
    and prune: "pruneStartandGoal ip (rounding (r_env ri)) g x r (sv_goal sv) (sv_rerouting sv) = (r', rinfo)"
    and sv': "sv' = sv\<lparr>sv_extractor := x, sv_graph := g, sv_planner := P, sv_rerouting := rinfo\<rparr>"
    using assms(2) unfolding server_findRoute_def assms(1) request_of_def
    by (auto simp: Let_def split: option.splits sum.splits prod.splits)
  have r: "(if a = b then r = \<lparr>start_node = a, edges = [], route_cost = 0\<rparr>
      else optimal_route (rounding (r_env ri)) ?W (sv_graph sv) a b r) \<and> same_graph (sv_graph sv) g \<and>
      route_path (sv_graph sv) ?W (start_node r) (edges r) b"
  proof (cases "a = b")
    case False
    then have fr: "findRoute (r_env ri) (sv_planner sv) (sv_graph sv) a b ?b (request_of a b x sv) = Some (Inr r, g, P)"
      using plan by simp
    then have idx: "a < length (sv_graph sv)" "b < length (sv_graph sv)"
      by (auto simp: findRoute_def split: if_splits)
    have opt: "optimal_route (rounding (r_env ri)) ?W (sv_graph sv) a b r" "same_graph (sv_graph sv) g"
      using findRoute_cases [OF assms(3) [unfolded planning_env_def] assms(4) idx refl refl] fr
      by (auto simp: server_weight_def)
    then have "start_node r = a" "route_path (sv_graph sv) ?W a (edges r) b"
      by (simp_all add: optimal_route_def)
    then show ?thesis
      using False opt by simp
  qed (use plan in \<open>auto split: if_splits\<close>)
  note pr = pruneStartandGoal_pruned [OF prune]
  obtain v where v: "route_path (sv_graph sv) ?W (start_node r') (edges r') v"
    using pruned_path r pr by blast
  have free: "edgeid e \<notin> set ?b" if "e \<in> set (edges r)" for e
    using route_path_usable r that unfolding server_weight_def by blast
  have ends: "rerouting_start_id (sv_rerouting sv) \<noteq> unset_id \<longrightarrow>
      sv_ids sv (rerouting_start_id (sv_rerouting sv)) = Some a"
    using assms(1) by (auto simp: route_ends_def split: option.splits sum.splits prod.splits if_splits)
  have "edgeid ` set (edges r') \<inter> set ?b = {}"
    using free pruned_edges(1) pr by blast
  moreover have "edgeid e \<notin> set ?b" if "curr_edge rinfo = Some e" for e
    using free pruned_edges(2) pr that by blast
  moreover have "\<exists>r v. (if a = b then r = \<lparr>start_node = a, edges = [], route_cost = 0\<rparr>
      else optimal_route (rounding (r_env ri)) ?W (sv_graph sv) a b r) \<and>
      pruned r (curr_edge (sv_rerouting sv)) r' (curr_edge rinfo) \<and>
      route_path (sv_graph sv) ?W (start_node r') (edges r') v"
    using r v pr by blast
  moreover have "same_graph (sv_graph sv) g" "blocked_ids rinfo = ?b"
    using r pr by blast+
  ultimately show ?thesis
    using ends unfolding sv' by simp
qed

section \<open>Frames\<close>

text \<open>What tf and the k-d tree give: poses in the frame asked for, no more neighbours than asked for.\<close>

definition sound_surroundings :: "surroundings \<Rightarrow> bool" where
  "sound_surroundings sur \<longleftrightarrow>
     (\<forall>p f q. transform sur p f = Some q \<longrightarrow> ps_frame q = f) \<and>
     (\<forall>g p n. length (knn_search sur g p n) \<le> n)"

lemma transformPose_frame:
  "sound_surroundings sur \<Longrightarrow> transformPose sur p f = Inr q \<Longrightarrow> ps_frame q = f"
  by (auto simp: transformPose_def sound_surroundings_def split: if_splits option.splits)

lemma nearest_length:
  assumes "sound_surroundings sur" "findNearestGraphNodesToPose ip sur g p = Some ns"
  shows "1 < length ns \<longleftrightarrow> 1 < num_of_nearest_nodes ip"
  using assms by (auto simp: findNearestGraphNodesToPose_def Let_def sound_surroundings_def split: if_splits)

lemma refine_end_frame:
  assumes "sound_surroundings sur" "refine_end sur costmap frame g ns p m = Some (Inr i, q)"
  shows "if costmap \<noteq> None \<and> 1 < length ns then ps_frame q = frame else q = p"
  using assms transformPose_frame [OF assms(1), of p frame q]
  by (auto simp: refine_end_def traversable_nearest_def Let_def split: option.splits if_splits sum.splits bool.splits prod.splits)

lemma request_poses_frame:
  assumes "sound_surroundings sur" "request_poses ip sur goal x = (Inr u, x')"
  shows "ps_frame (gi_start x') = route_frame ip \<and> ps_frame (gi_goal x') = route_frame ip"
  using assms(2) transformPose_frame [OF assms(1)]
  by (auto simp: request_poses_def split: option.splits sum.splits)

text \<open>C30. A candidate off the map shifts the answer of the search for the traversably nearest node. When the nearest
  node is out of sight and the search succeeds with index \<open>i\<close>, the candidate it found nearest is the one at position
  \<open>j\<close>, that of the \<open>i\<close>-th candidate on the map; the caller takes node \<open>i\<close> of its list. For all candidates \<open>i \<le> j\<close>,
  and it is the node that was found exactly when no candidate up to \<open>i\<close> is off the map.\<close>

theorem search_takes_wrong_node:
  assumes "float_map cm" "candidate_poses sur frame g nodes = Inr cands" "transformPose sur p frame = Inr q"
    and "here = (p_x (ps_pose q), p_y (ps_pose q))" "LoS_worldToMap cm (hd cands) here = Some (Some line)"
    and "LoS_isInCollision cm line = Some True" "bfs_search cm here cands bound = Some (True, i)"
    and "j = on_positions cm cands ! i"
  shows "traversable_nearest sur cm frame g nodes p bound = Some (Inr (nodes ! i), q) \<and>
    (\<exists>gx gy mx my ids. worldToMap cm (fst here) (snd here) = Some (Some (gx, gy)) \<and>
       candidate_cells cm cands = Some ids \<and> nearest_candidate cm (getIndex cm gx gy) ids i \<and>
       worldToMap cm (fst (cands ! j)) (snd (cands ! j)) = Some (Some (mx, my)) \<and> ids ! i = getIndex cm mx my) \<and>
    i \<le> j \<and> j < length cands \<and> (j = i \<longleftrightarrow> (\<forall>k\<le>i. cand_on_map cm (cands ! k)))"
proof -
  obtain gx gy ids where found: "worldToMap cm (fst here) (snd here) = Some (Some (gx, gy))"
    "candidate_cells cm cands = Some ids" "nearest_candidate cm (getIndex cm gx gy) ids i"
    using bfs_search_found [OF assms(1,7)] by blast
  have i: "i < length ids" "i < length (on_positions cm cands)"
    using found(3) candidate_cells_positions [OF found(2)] by (simp_all add: nearest_candidate_def)
  have "traversable_nearest sur cm frame g nodes p bound = Some (Inr (nodes ! i), q)"
    using assms(2-7) by (simp add: traversable_nearest_def)
  then show ?thesis
    using found i candidate_cells_positions [OF found(2)] on_positions_nth [OF i(2)] unfolding assms(8) by blast
qed

text \<open>C28. The search for the nearest node leaves the poses of the request in the costmap's frame: the transform writes to
  the members it is given. Without the search they stay in the frame of the route, in which the pruning
  that follows compares them with the nodes.\<close>

theorem search_changes_frame:
  assumes "sound_surroundings sur" "goal_use_poses goal"
    and "findStartandGoal ip sur g ids goal x = Some (Inr ab, x')"
    and "frame = (if enable_search ip \<and> search_costmap sur \<noteq> None \<and> 1 < num_of_nearest_nodes ip
      then global_frame ip else route_frame ip)"
  shows "ps_frame (gi_start x') = frame \<and> ps_frame (gi_goal x') = frame"
proof -
  let ?cm = "if enable_search ip then search_costmap sur else None"
  obtain x1 u a b sr er p q where poses: "request_poses ip sur goal x = (Inr u, x1)"
    and sr: "findNearestGraphNodesToPose ip sur g (gi_start x1) = Some sr"
    and er: "findNearestGraphNodesToPose ip sur g (gi_goal x1) = Some er"
    and start: "refine_end sur ?cm (global_frame ip) g sr (gi_start x1) (max_nn_search_iterations ip) = Some (Inr a, p)"
    and goal: "refine_end sur ?cm (global_frame ip) g er (gi_goal x1) (2 ^ 31 - 1) = Some (Inr b, q)"
    and x': "x' = x1\<lparr>gi_start := p, gi_goal := q\<rparr>"
    using assms(2,3) unfolding findStartandGoal_def
    by (auto simp: Let_def split: option.splits sum.splits prod.splits simp del: split_paired_Ex)
  have "gi_start x' = p" "gi_goal x' = q"
    by (simp_all add: x')
  then show ?thesis
    using refine_end_frame [OF assms(1) start] refine_end_frame [OF assms(1) goal]
      request_poses_frame [OF assms(1) poses] nearest_length [OF assms(1) sr] nearest_length [OF assms(1) er] assms(4)
    by (auto split: if_splits)
qed

section \<open>Answers\<close>

lemma track_step_exited:
  assumes "track_step tr g route tk run = Some (Finished EXITED, run')"
  shows "\<not> ok tk"
  using assms by (auto simp: track_step_def finish_update_def Let_def split: if_splits option.splits sum.splits prod.splits)

lemma track_loop_exited:
  "track_loop tr g route tks run = Some (Finished EXITED, run') \<Longrightarrow> \<exists>tk\<in>set tks. \<not> ok tk"
proof (induction tks arbitrary: run)
  case (Cons tk tks)
  then show ?case
    using track_step_exited [of tr g route tk run] by (auto split: option.splits track_status.splits prod.splits)
qed simp

text \<open>A process that is told to stop: rclcpp shuts down or the action server is not active.\<close>

definition stopping :: "round_input \<Rightarrow> bool" where
  "stopping ri \<longleftrightarrow> \<not> r_ok ri \<or> \<not> r_active ri \<or> (\<exists>tk\<in>set (r_ticks ri). \<not> ok tk)"

definition answered :: "round_status \<Rightarrow> action_call list \<Rightarrow> bool \<Rightarrow> bool" where
  "answered st calls stop \<longleftrightarrow>
     (if st = Returned then length calls = 1 \<or> calls = [] \<and> stop else calls = [])"

lemma server_findRoute_calls:
  "server_findRoute ip ri sv = Some (res, sv') \<Longrightarrow> sv_calls sv' = sv_calls sv"
  by (auto simp: server_findRoute_def Let_def split: option.splits sum.splits prod.splits)

lemma track_round_answered:
  assumes "track_round tr ri r sv = Some (st, sv')" "sv_calls sv = []"
  shows "answered st (sv_calls sv') (stopping ri)"
proof -
  obtain ts run where run: "trackRoute tr (sv_graph sv) r (sv_rerouting sv) (r_ticks ri) (sv_world sv) = Some (ts, run)"
    using assms(1) by (auto simp: track_round_def split: option.splits)
  have "stopping ri" if "ts = Finished EXITED"
    using track_loop_exited run that by (force simp: trackRoute_def stopping_def)
  then show ?thesis
    using assms run by (auto simp: track_round_def final_call_def answered_def Let_def
        split: track_status.splits tracker_result.splits)
qed

lemma process_round_answered:
  assumes "process_round ip pc tracker ri sv = Some (st, sv')" "sv_calls sv = []"
  shows "answered st (sv_calls sv') (stopping ri)"
proof -
  obtain valid sv1 where check: "isRequestValid ri sv = (valid, sv1)"
    by fastforce
  consider "\<not> r_ok ri" | "r_ok ri" "\<not> valid" | "r_ok ri" valid
    by blast
  then show ?thesis
  proof cases
    case 1
    then show ?thesis
      using assms by (auto simp: process_round_def answered_def stopping_def)
  next
    case 2
    then show ?thesis
      using assms check by (auto simp: process_round_def isRequestValid_def final_call_def answered_def stopping_def
          split: if_splits)
  next
    case 3
    then have sv1: "sv_calls sv1 = []"
      using check assms(2) by (auto simp: isRequestValid_def split: if_splits)
    define sv2 where "sv2 = (case r_preempt ri of
      Some goal \<Rightarrow> sv1\<lparr>sv_goal := goal, sv_rerouting := ReroutingState_reset\<rparr> | None \<Rightarrow> sv1)"
    have "sv_calls sv2 = []"
      using sv1 by (simp add: sv2_def split: option.splits)
    moreover obtain res sv3 where find: "server_findRoute ip ri sv2 = Some (res, sv3)"
      using assms(1) 3 check by (auto simp: process_round_def sv2_def [symmetric] split: option.splits)
    ultimately have sv3: "sv_calls sv3 = []"
      using server_findRoute_calls by metis
    have one: "answered Returned [c] stop" for c stop
      by (simp add: answered_def)
    show ?thesis
      using assms(1) 3 check find sv3
      by (auto simp: process_round_def sv2_def [symmetric] final_call_def one
          split: sum.splits option.splits dest: track_round_answered [OF _ sv3])
  qed
qed

text \<open>C20. A request that returns has made exactly one final call to the action server - succeeded, terminated or all
  terminated - unless the process is stopping; while it goes on or tracks it has made none.\<close>

theorem request_answered_once:
  assumes "processRouteRequest ip pc tracker goal rs sv = Some (st, sv')"
  shows "answered st (sv_calls sv') (\<exists>ri\<in>set rs. stopping ri)"
proof -
  have "answered st (sv_calls sv') (\<exists>ri\<in>set rs. stopping ri)"
    if "process_rounds ip pc tracker rs sv = Some (st, sv')" "sv_calls sv = []" for sv
    using that
  proof (induction rs arbitrary: sv)
    case Nil
    then show ?case
      by (simp add: answered_def)
  next
    case (Cons ri rs)
    obtain st1 sv1 where round: "process_round ip pc tracker ri sv = Some (st1, sv1)"
      using Cons.prems(1) by (auto split: option.splits)
    note ans = process_round_answered [OF round Cons.prems(2)]
    show ?case
    proof (cases "st1 = Next_round")
      case True
      then have "sv_calls sv1 = []" "process_rounds ip pc tracker rs sv1 = Some (st, sv')"
        using ans round Cons.prems(1) by (simp_all add: answered_def)
      from Cons.IH [OF this(2,1)] show ?thesis
        by (auto simp: answered_def split: if_splits)
    next
      case False
      then have "st = st1" "sv' = sv1"
        using round Cons.prems(1) by (auto split: round_status.splits)
      then show ?thesis
        using ans by (auto simp: answered_def split: if_splits)
    qed
  qed
  then show ?thesis
    using assms by (simp add: processRouteRequest_def)
qed

section \<open>A request that succeeds\<close>

lemma route_path_edges:
  assumes "route_path g W u es v" "wf_graph g" "u < length g"
  shows "successively (\<lambda>e e'. e_end e = e_start e') es \<and> (es \<noteq> [] \<longrightarrow> e_start (hd es) = u) \<and>
    (\<forall>e\<in>set es. e_start e < length g \<and> e_end e < length g \<and> e \<in> set (neighbors (g ! e_start e)))"
  using assms(1,3)
proof (induction es arbitrary: u)
  case (Cons e es)
  have e: "e \<in> set (neighbors (g ! u))" "route_path g W (e_end e) es v"
    using Cons.prems(1) by simp_all
  then have ends: "e_start e = u" "e_end e < length g"
    using assms(2) Cons.prems(2) by (auto simp: wf_graph_def)
  show ?case
    using Cons.IH [OF e(2) ends(2)] e(1) ends Cons.prems(2) by (auto simp: successively_Cons)
qed simp

text \<open>What the planner needs to find a route: no exception, enough iterations, a path of finite cost.\<close>

definition plannable ::
  "planner_env \<Rightarrow> planner \<Rightarrow> graph \<Rightarrow> nat \<Rightarrow> nat \<Rightarrow> route_request \<Rightarrow> bool" where
  "plannable env P g a b req \<longleftrightarrow>
     planning_ok env (prepared P g a b) g [] req \<and> queue P = [] \<and> a \<noteq> b \<and> a < length g \<and> b < length g \<and>
     (\<forall>x. \<not> edge_throws env (prepared P g a b) g [] req x) \<and> edge_count g + 1 < max_iterations P \<and>
     \<not> no_cheap_path (rounding env) (edge_weight env (prepared P g a b) g [] req) g a b"

lemma plannable_route:
  assumes "plannable env P g a b req"
  obtains r g' P' where "findRoute env P g a b [] req = Some (Inr r, g', P')" "same_graph g g'"
    "optimal_route (rounding env) (edge_weight env (prepared P g a b) g [] req) g a b r"
proof -
  note p = assms [unfolded plannable_def]
  obtain res g' P' where run: "findRoute env P g a b [] req = Some (res, g', P')" "same_graph g g'"
    and res: "case res of
       Inr r \<Rightarrow> a \<noteq> b \<and> optimal_route (rounding env) (edge_weight env (prepared P g a b) g [] req) g a b r \<and> queue P' = []
     | Inl x \<Rightarrow>
         (x = NoValidRouteCouldBeFound \<and> queue P' = [] \<and>
           (a = b \<or> no_cheap_path (rounding env) (edge_weight env (prepared P g a b) g [] req) g a b)) \<or>
         (x = TimedOut \<and> queue P' = [] \<and> max_iterations P \<le> edge_count g + 1) \<or>
         edge_throws env (prepared P g a b) g [] req x"
    using findRoute_cases [of env P g a b "[]" req, OF _ _ _ _ refl refl] p by blast
  then show ?thesis
    using p that by (cases res) auto
qed

definition edges_ok :: "path_converter \<Rightarrow> graph \<Rightarrow> bool" where
  "edges_ok pc g \<longleftrightarrow> (\<forall>i<length g. \<forall>e\<in>set (neighbors (g ! i)).
     piece_ok pc (xy (coords (g ! e_start e))) (xy (coords (g ! e_end e))))"

lemma densify_route:
  assumes "corner_ok pc" "edges_ok pc g" "wf_graph g" "same_graph g g'" "route_path g W a (edges r) b" "a < length g"
    and "edges r \<noteq> []" "curr_edge rinfo = None"
  shows "\<exists>path. densify pc g' r rinfo = Some path"
proof -
  note es = route_path_edges [OF assms(5,3,6)]
  have co: "coords (g' ! e_start e) = coords (g ! e_start e)" "coords (g' ! e_end e) = coords (g ! e_end e)"
    if "e \<in> set (edges r)" for e
    using same_graph_fields(2) [OF assms(4)] es that by blast+
  have piece: "\<forall>e\<in>set (edges r). piece_ok pc (xy (coords (g' ! e_start e))) (xy (coords (g' ! e_end e)))"
    using assms(2) es co by (metis edges_ok_def)
  have step: "successively (\<lambda>e e'. e_end e = e_start e') (edges r)"
    using es by blast
  have d: "0 < path_density pc"
    using assms(1) by (simp add: corner_ok_def)
  have start: "leads_to (path_density pc) [] s" for s
    by (simp add: leads_to_def)
  obtain poses s where run: "densify_edges pc g' (edges r) (xy (coords (g' ! e_start (hd (edges r))))) [] = Some (poses, s)"
    "leads_to (path_density pc) poses s" "piece_ok pc s (xy (coords (g' ! e_end (last (edges r)))))"
    using densify_edges_ok [OF assms(1,7) edge_pieces [OF step piece assms(7)] start] by blast
  show ?thesis
    using straight_step [OF d run(3,2)] run(1) assms(7,8)
    by (auto simp: densify_def densify_points_def Let_def)
qed

text \<open>C3. A request by node ids is answered with success, for both actions, when the planner can find a route,
  the edges have a length the path can be made of, and, for the action that tracks, the operations neither fail
  nor ask for a new route and the robot is seen at the nodes of the route in turn.\<close>

theorem request_succeeds:
  fixes sv :: "'w server"
  assumes goal: "\<not> goal_use_poses goal" "sv_ids sv (goal_start_id goal) = Some a" "sv_ids sv (goal_goal_id goal) = Some b"
    and round: "r_ok ri" "r_active ri" "\<not> r_cancel ri" "r_preempt ri = None"
    and x: "x = (sv_extractor sv)\<lparr>gi_start := set_position (coords (sv_graph sv ! a)) (gi_start (sv_extractor sv)),
      gi_goal := set_position (coords (sv_graph sv ! b)) (gi_goal (sv_extractor sv))\<rparr>"
    and plan: "plannable (r_env ri) (sv_planner sv) (sv_graph sv) a b (route_request_of a b x goal)"
    and path: "corner_ok pc" "edges_ok pc (sv_graph sv)"
    and calm: "calm_manager (operations_manager tr)"
  shows "\<exists>r. optimal_route (rounding (r_env ri)) (edge_weight (r_env ri) (prepared (sv_planner sv) (sv_graph sv) a b)
      (sv_graph sv) [] (route_request_of a b x goal)) (sv_graph sv) a b r \<and>
    (\<forall>tracker\<in>{None, Some tr}. \<exists>sv'. processRouteRequest ip pc tracker goal
       [ri\<lparr>r_ticks := map (seen_at (sv_graph sv)) (route_nodes r)\<rparr>] sv = Some (Returned, sv') \<and>
       sv_calls sv' = [Succeeded_current])"
proof -
  let ?g = "sv_graph sv" and ?W = "edge_weight (r_env ri) (prepared (sv_planner sv) (sv_graph sv) a b)
      (sv_graph sv) [] (route_request_of a b x goal)"
  have idx: "a \<noteq> b" "a < length ?g" "b < length ?g" "wf_graph ?g"
    using plan by (simp_all add: plannable_def planning_ok_def)
  obtain r g' P' where fr: "findRoute (r_env ri) (sv_planner sv) ?g a b [] (route_request_of a b x goal) = Some (Inr r, g', P')"
    and same: "same_graph ?g g'" and opt: "optimal_route (rounding (r_env ri)) ?W ?g a b r"
    using plannable_route [OF plan] by blast
  have r: "start_node r = a" "edges r \<noteq> []" "route_path ?g ?W a (edges r) b"
    using opt by (simp_all add: optimal_route_def)
  define rinfo where "rinfo = ReroutingState_reset\<lparr>curr_edge := None, first_time := False\<rparr>"
  define sv0 where "sv0 = sv\<lparr>sv_goal := goal, sv_rerouting := ReroutingState_reset, sv_calls := []\<rparr>"
  define sv3 where "sv3 = sv0\<lparr>sv_extractor := x, sv_graph := g', sv_planner := P', sv_rerouting := rinfo\<rparr>"
  have nodes: "i < length ?g" if "i \<in> set (route_nodes r)" for i
    using route_path_edges [OF r(3) idx(4,2)] that idx(2) r(1) by (auto simp: route_nodes_def)
  have ticks: "map (seen_at ?g) (route_nodes r) = map (seen_at g') (route_nodes r)"
    using same_graph_fields(2) [OF same] nodes by (simp add: seen_at_def)
  let ?ri = "ri\<lparr>r_ticks := map (seen_at g') (route_nodes r)\<rparr>"
  have ends: "route_ends ip ?ri sv0 = Some (Inr (a, b), x)"
    using goal idx x by (simp add: route_ends_def findStartandGoal_def sv0_def ReroutingState_reset_def)
  have prune: "pruneStartandGoal ip (rounding (r_env ri)) g' x r goal ReroutingState_reset = (r, rinfo)"
    using goal(1) by (simp add: pruneStartandGoal_def rinfo_def ReroutingState_reset_def Let_def)
  have found: "server_findRoute ip ?ri sv0 = Some (Inr r, sv3)"
    using fr idx(1) prune unfolding server_findRoute_def ends
    by (simp add: sv0_def sv3_def ReroutingState_reset_def Let_def)
  have "curr_edge rinfo = None"
    by (simp add: rinfo_def)
  then obtain poses where poses: "densify pc (sv_graph sv3) r (sv_rerouting sv3) = Some poses"
    using densify_route [OF path idx(4) same r(3) idx(2) r(2)] by (auto simp: sv3_def)
  have ne: "sv_graph sv0 \<noteq> []"
    using idx(2) by (auto simp: sv0_def)
  have check: "isRequestValid ?ri sv0 = (True, sv0)"
    using round ne by (simp add: isRequestValid_def)
  obtain run where run: "trackRoute tr g' r rinfo (r_ticks ?ri) (sv_world sv) = Some (Finished COMPLETED, run)"
    using seen_loop [OF calm tracking_inv_start, of g' r "[]" rinfo "sv_world sv"] by (auto simp: trackRoute_def)
  have "\<exists>sv'. process_round ip pc tracker ?ri sv0 = Some (Returned, sv') \<and> sv_calls sv' = [Succeeded_current]"
    if "tracker \<in> {None, Some tr}" for tracker
    using that round check found poses run
    by (auto simp: process_round_def track_round_def final_call_def sv3_def sv0_def Let_def)
  note served = this
  show ?thesis
  proof (rule exI [of _ r], rule conjI, rule opt, rule ballI)
    fix tracker
    assume "tracker \<in> {None, Some tr}"
    from served [OF this] obtain sv' where sv': "process_round ip pc tracker ?ri sv0 = Some (Returned, sv')"
      "sv_calls sv' = [Succeeded_current]"
      by blast
    have "processRouteRequest ip pc tracker goal [?ri] sv = process_rounds ip pc tracker [?ri] sv0"
      by (simp only: processRouteRequest_def sv0_def)
    then show "\<exists>sv'. processRouteRequest ip pc tracker goal [ri\<lparr>r_ticks := map (seen_at ?g) (route_nodes r)\<rparr>] sv =
        Some (Returned, sv') \<and> sv_calls sv' = [Succeeded_current]"
      using sv' unfolding ticks by (intro exI [of _ sv']) simp
  qed
qed

section \<open>Witnesses\<close>

definition ex_stamped :: "string \<Rightarrow> real \<Rightarrow> real \<Rightarrow> stamped" where
  "ex_stamped f x y = \<lparr>ps_frame = f, ps_pose = \<lparr>p_x = x, p_y = y\<rparr>, ps_yaw = 0\<rparr>"

definition ex_goal :: "bool \<Rightarrow> route_goal" where
  "ex_goal poses = \<lparr>goal_use_poses = poses, goal_use_start = poses, goal_start_id = 10, goal_goal_id = 12,
     goal_start = ex_stamped ''map'' 0 0, goal_goal = ex_stamped ''map'' 0 0\<rparr>"

definition ex_surroundings :: "costmap2d option \<Rightarrow> surroundings" where
  "ex_surroundings cm = \<lparr>transform = \<lambda>p f. Some (p\<lparr>ps_frame := f\<rparr>), current_pose = None,
     knn_search = \<lambda>g p n. take n [0, 1], search_costmap = cm\<rparr>"

definition ex_params :: intent_params where
  "ex_params = \<lparr>prune_goal = True, max_dist_from_edge = 8, min_dist_from_goal = 3 / 20, min_dist_from_start = 1 / 10,
     enable_search = True, max_nn_search_iterations = 10000, num_of_nearest_nodes = 2, route_frame = ''map'',
     global_frame = ''odom''\<rparr>"

definition ex_extractor :: extractor where
  "ex_extractor = \<lparr>gi_start = ex_stamped ''map'' 0 0, gi_goal = ex_stamped ''map'' 0 0\<rparr>"

definition ex_round :: round_input where
  "ex_round = \<lparr>r_ok = True, r_active = True, r_cancel = False, r_preempt = None, r_surroundings = ex_surroundings None,
     r_env = ex_env [], r_yaw = 0, r_ticks = []\<rparr>"

definition ex_server :: "rerouting_state \<Rightarrow> unit server" where
  "ex_server rinfo = \<lparr>sv_graph = ex_graph False, sv_ids = [10 \<mapsto> 0, 11 \<mapsto> 1, 12 \<mapsto> 2],
     sv_planner = configure 100 planner_new, sv_extractor = ex_extractor, sv_rerouting = rinfo,
     sv_goal = ex_goal False, sv_calls = [], sv_world = ()\<rparr>"

lemmas server_examples = ex_stamped_def ex_goal_def ex_surroundings_def ex_params_def ex_extractor_def
  ex_round_def ex_server_def

lemma ex_weight_req:
  "getTraversalCost (ex_env []) P g b req e = getTraversalCost (ex_env []) P g b ex_req e"
  by (simp add: getTraversalCost_def ex_env_def numPlugins_def)

lemma ex_planning_req: "planning_ok (ex_env []) P (ex_graph False) b req"
proof -
  have "edge_weight (ex_env []) P (ex_graph False) b req = edge_weight (ex_env []) P (ex_graph False) b ex_req"
    unfolding edge_weight_def ex_weight_req [of P "ex_graph False" b req] ..
  then show ?thesis
    using ex_planning [of P b] by (simp add: planning_ok_def)
qed

lemma ex_throw_req: "\<not> edge_throws (ex_env []) P (ex_graph False) b req x"
  using ex_no_throw [of P b x] by (simp add: edge_throws_def ex_weight_req [of _ _ _ req])

lemma ex_queue: "queue (configure 100 planner_new) = []"
  by (simp add: configure_def planner_new_def Let_def)

lemma ex_corner: "corner_ok bend_converter"
  using pi_less_4 by (simp add: corner_ok_def bend_converter_def)

lemma ex_edges: "edges_ok bend_converter (ex_graph False)"
  by (auto simp: edges_ok_def piece_ok_def ex_graph_def ex_node_def ex_edge_def bend_converter_def hypotf_def less_Suc_eq)

text \<open>Three nodes: behind the obstacle of the map, off the map, and in the cell of the pose.\<close>

definition ex_search_graph :: graph where
  "ex_search_graph = map (\<lambda>(i, x, y). (ex_node i x [])\<lparr>coords := \<lparr>frame_id = ''map'', co_x = x, co_y = y\<rparr>\<rparr>)
     [(10, 9 / 4, - (3 / 4)), (11, 0, 0), (12, 5 / 4, - (3 / 4))]"

definition ex_search_candidates :: "(real \<times> real) list" where
  "ex_search_candidates = [(9 / 4, - (3 / 4)), (0, 0), (5 / 4, - (3 / 4))]"

text \<open>A reroute from node 11 around the blocked edge 1.\<close>

definition ex_rerouting :: rerouting_state where
  "ex_rerouting = ReroutingState_reset\<lparr>blocked_ids := [1], first_time := False, rerouting_start_id := 11,
     rerouting_start_pose := \<lparr>p_x = 1, p_y = 0\<rparr>\<rparr>"

theorem server_route_safe_witness:
  "\<exists>r' sv'. server_findRoute ex_params ex_round (ex_server ex_rerouting) = Some (Inr r', sv') \<and>
    edges r' = [ex_edge 4 1 2 2 False] \<and> edgeid ` set (edges r') \<inter> {1} = {} \<and>
    same_graph (ex_graph False) (sv_graph sv')"
proof -
  let ?sv = "ex_server ex_rerouting"
  define x where "x = overrideStart (ex_stamped ''map'' 1 0)
    (ex_extractor\<lparr>gi_start := ex_stamped ''map'' 0 0, gi_goal := ex_stamped ''map'' 2 0\<rparr>)"
  have ends: "route_ends ex_params ex_round ?sv = Some (Inr (1, 2), x)"
    by (simp add: route_ends_def findStartandGoal_def server_examples ex_rerouting_def unset_id_def x_def
        set_position_def ex_graph_def ex_node_def)
  have "\<exists>g' P'. findRoute (ex_env []) (configure 100 planner_new) (ex_graph False) 1 2 [1]
      (route_request_of 1 2 x (ex_goal False)) =
    Some (Inr \<lparr>start_node = 1, edges = [ex_edge 4 1 2 2 False], route_cost = 2\<rparr>, g', P')"
    by (simp add: planner_eval example_defs configure_def follow_parents_go follow_parents_stop)
  then obtain g' P' where fr: "findRoute (ex_env []) (configure 100 planner_new) (ex_graph False) 1 2 [1]
      (route_request_of 1 2 x (ex_goal False)) =
    Some (Inr \<lparr>start_node = 1, edges = [ex_edge 4 1 2 2 False], route_cost = 2\<rparr>, g', P')"
    by blast
  have same: "same_graph (ex_graph False) g'"
    using findRoute_cases [OF ex_planning_req ex_queue _ _ refl refl, of 1 2 "[1]" "route_request_of 1 2 x (ex_goal False)"] fr
    by (simp add: ex_graph_def)
  have co: "coords (g' ! 1) = \<lparr>frame_id = ''map'', co_x = 1, co_y = 0\<rparr>"
    "coords (g' ! 2) = \<lparr>frame_id = ''map'', co_x = 2, co_y = 0\<rparr>"
    using same_graph_fields(2) [OF same, of 1] same_graph_fields(2) [OF same, of 2]
    by (simp_all add: ex_graph_def ex_node_def)
  have "\<not> prune_first ex_params (coords (g' ! 1)) (coords (g' ! 2)) \<lparr>p_x = 1, p_y = 0\<rparr>"
    unfolding co by (simp add: prune_first_def normalizedDot_def vlen_def EPSILON_def Let_def)
  then have prune: "pruneStartandGoal ex_params id g' x
      \<lparr>start_node = 1, edges = [ex_edge 4 1 2 2 False], route_cost = 2\<rparr> (ex_goal False) ex_rerouting =
      (\<lparr>start_node = 1, edges = [ex_edge 4 1 2 2 False], route_cost = 2\<rparr>, ex_rerouting)"
    by (simp add: pruneStartandGoal_def pruneStart_def ex_goal_def ex_rerouting_def x_def overrideStart_def
        ex_stamped_def ReroutingState_reset_def ex_edge_def Let_def)
  obtain sv' where found: "server_findRoute ex_params ex_round ?sv =
      Some (Inr \<lparr>start_node = 1, edges = [ex_edge 4 1 2 2 False], route_cost = 2\<rparr>, sv')"
    using fr prune unfolding server_findRoute_def ends
    by (simp add: ex_server_def ex_round_def ex_rerouting_def ex_env_def Let_def)
  have "planning_env ex_round ?sv 1 2 x"
    by (simp add: planning_env_def ex_round_def ex_server_def ex_planning_req)
  from server_route_safe [OF ends found this] show ?thesis
    using found by (auto simp: ex_server_def ex_queue ex_rerouting_def)
qed

theorem search_takes_wrong_node_witness:
  "traversable_nearest (ex_surroundings None) ex_search_map ''odom'' ex_search_graph [0, 1, 2]
      (ex_stamped ''map'' (5 / 4) (- (3 / 4))) 10000 =
    Some (Inr 1, ex_stamped ''odom'' (5 / 4) (- (3 / 4))) \<and>
   on_positions ex_search_map ex_search_candidates ! 1 = 2 \<and>
   worldToMap ex_search_map (5 / 4) (- (3 / 4)) = Some (Some (0, 0)) \<and>
   ex_search_candidates ! 2 = (5 / 4, - (3 / 4))"
proof -
  have cands: "candidate_poses (ex_surroundings None) ''odom'' ex_search_graph [0, 1, 2] = Inr ex_search_candidates"
    by (simp add: ex_search_graph_def ex_search_candidates_def ex_node_def transformPose_def ex_surroundings_def)
  have here: "transformPose (ex_surroundings None) (ex_stamped ''map'' (5 / 4) (- (3 / 4))) ''odom'' =
      Inr (ex_stamped ''odom'' (5 / 4) (- (3 / 4)))"
    by (simp add: transformPose_def server_examples)
  have line: "LoS_worldToMap ex_search_map (hd ex_search_candidates) (5 / 4, - (3 / 4)) = Some (Some ((2, 0), (0, 0)))"
    by (simp add: LoS_worldToMap_def ex_search_candidates_def ex_search_world)
  have "LoS_isInCollision ex_search_map ((2, 0), (0, 0)) = Some True"
    by (simp add: LoS_isInCollision_def line_iter_def LineIterator_def Let_def isValid_def advance_def line_collides.simps
        iter_cost_def cost_at_def getCost_def getIndex_def load_def ex_search_map_def)
  note blocked = this
  have found: "bfs_search ex_search_map (5 / 4, - (3 / 4)) ex_search_candidates 10000 = Some (True, 1)"
    by (simp add: bfs_search_def ex_search_world bfs_loop.simps getIndex_def ex_search_candidates_def)
  have on: "on_positions ex_search_map ex_search_candidates ! 1 = 2"
    by (simp add: on_positions_def cand_on_map_def ex_search_candidates_def ex_search_world upt_rec)
  have "traversable_nearest (ex_surroundings None) ex_search_map ''odom'' ex_search_graph [0, 1, 2]
      (ex_stamped ''map'' (5 / 4) (- (3 / 4))) 10000 = Some (Inr ([0, 1, 2] ! 1), ex_stamped ''odom'' (5 / 4) (- (3 / 4)))"
    using search_takes_wrong_node [OF ex_search_float cands here refl _ blocked _ refl, of 10000 1] line found
    by (simp add: ex_stamped_def)
  then show ?thesis
    using on by (simp add: ex_search_candidates_def ex_search_world)
qed

theorem search_changes_frame_witness:
  "\<exists>x'. findStartandGoal ex_params (ex_surroundings (Some ex_search_map)) (ex_graph False) Map.empty (ex_goal True)
      ex_extractor = Some (Inr (0, 0), x') \<and> ps_frame (gi_start x') = ''odom'' \<and> ps_frame (gi_goal x') = ''odom''"
proof -
  obtain x' where x': "findStartandGoal ex_params (ex_surroundings (Some ex_search_map)) (ex_graph False) Map.empty
      (ex_goal True) ex_extractor = Some (Inr (0, 0), x')"
    by (simp add: findStartandGoal_def request_poses_def server_examples transformPose_def refine_end_def
        findNearestGraphNodesToPose_def traversable_nearest_def ex_graph_def ex_node_def LoS_worldToMap_def
        ex_search_world Let_def)
  moreover have "sound_surroundings (ex_surroundings (Some ex_search_map))"
    by (simp add: sound_surroundings_def ex_surroundings_def)
  ultimately show ?thesis
    using search_changes_frame [OF _ _ x', of "''odom''"] by (simp add: server_examples)
qed

theorem request_answered_once_witness:
  "\<exists>st sv'. processRouteRequest ex_params bend_converter (None :: unit tracker option) (ex_goal False)
      [ex_round\<lparr>r_cancel := True\<rparr>] (ex_server ReroutingState_reset) = Some (st, sv') \<and> st = Returned \<and>
    answered st (sv_calls sv') (\<exists>ri\<in>set [ex_round\<lparr>r_cancel := True\<rparr>]. stopping ri)"
proof -
  obtain sv' where run: "processRouteRequest ex_params bend_converter (None :: unit tracker option) (ex_goal False)
      [ex_round\<lparr>r_cancel := True\<rparr>] (ex_server ReroutingState_reset) = Some (Returned, sv')"
    by (simp add: processRouteRequest_def process_round_def isRequestValid_def ex_round_def)
  show ?thesis
    using run request_answered_once [OF run] by blast
qed

theorem request_succeeds_witness:
  "\<exists>r sv'. processRouteRequest ex_params bend_converter (Some ex_tracker) (ex_goal False)
      [ex_round\<lparr>r_ticks := map (seen_at (ex_graph False)) (route_nodes r)\<rparr>] (ex_server ReroutingState_reset) =
    Some (Returned, sv') \<and> sv_calls sv' = [Succeeded_current]"
proof -
  let ?sv = "ex_server ReroutingState_reset" and ?P = "configure 100 planner_new"
  define x where "x = (sv_extractor ?sv)\<lparr>gi_start := set_position (coords (sv_graph ?sv ! 0)) (gi_start (sv_extractor ?sv)),
      gi_goal := set_position (coords (sv_graph ?sv ! 2)) (gi_goal (sv_extractor ?sv))\<rparr>"
  have req: "route_request_of 0 2 x (ex_goal False) = ex_req"
    by (simp add: route_request_of_def x_def set_position_def server_examples ex_req_def)
  let ?W = "edge_weight (ex_env []) (prepared ?P (ex_graph False) 0 2) (ex_graph False) [] ex_req"
  obtain r g' P' where "findRoute (ex_env []) ?P (ex_graph False) 0 2 [] ex_req = Some (Inr r, g', P')"
    using ex_route by blast
  then have "optimal_route (rounding (ex_env [])) ?W (ex_graph False) 0 2 r"
    using findRoute_cases [OF ex_planning ex_queue _ _ refl refl, of 0 2 "[]"] by (simp add: ex_graph_def)
  then have "\<not> no_cheap_path (rounding (ex_env [])) ?W (ex_graph False) 0 2"
    by (force simp: no_cheap_path_def optimal_route_def)
  then have "plannable (r_env ex_round) (sv_planner ?sv) (sv_graph ?sv) 0 2 (route_request_of 0 2 x (ex_goal False))"
    unfolding req
    by (simp add: plannable_def ex_round_def ex_server_def ex_planning ex_queue ex_no_throw)
      (simp add: configure_def planner_new_def Let_def ex_graph_def ex_node_def edge_count_def)
  moreover have "edges_ok bend_converter (sv_graph ?sv)"
    using ex_edges by (simp add: ex_server_def)
  ultimately show ?thesis
    using request_succeeds [of "ex_goal False" ?sv 0 2 ex_round x bend_converter ex_tracker ex_params]
      ex_corner ex_calm
    by (auto simp: x_def ex_goal_def ex_round_def ex_server_def)
qed

end
