(* ===== verification/Collision_Monitor.thy ===== *)
theory Collision_Monitor
  imports Obstacle_Layer
begin

text \<open>
  The collision monitor (\<open>nav2_collision_monitor\<close>): it collects points from the sensors, checks them against
  zones around the robot - polygons, circles and the footprint - and passes each velocity on as it is, scaled
  down, or as a stop. Numbers are reals; a range that is not a number is \<open>None\<close>. Transforms, the footprint
  received and the clock are arguments. The result \<open>None\<close> is a loop that does not end.
\<close>

section \<open>Velocities and actions\<close>

record velocity =
  vx :: real
  vy :: real
  vtw :: real

definition vel_sq :: "velocity \<Rightarrow> real" where
  "vel_sq v = vx v * vx v + vy v * vy v + vtw v * vtw v"

definition vel_less :: "velocity \<Rightarrow> velocity \<Rightarrow> bool" where
  "vel_less v w \<longleftrightarrow> vel_sq v < vel_sq w"

definition vel_times :: "velocity \<Rightarrow> real \<Rightarrow> velocity" where
  "vel_times v m = \<lparr>vx = vx v * m, vy = vy v * m, vtw = vtw v * m\<rparr>"

definition isZero :: "velocity \<Rightarrow> bool" where
  "isZero v \<longleftrightarrow> vx v = 0 \<and> vy v = 0 \<and> vtw v = 0"

datatype action_type = DO_NOTHING | STOP | SLOWDOWN | APPROACH

record robot_action =
  action_type :: action_type
  req_vel :: velocity

section \<open>Kinematics\<close>

record planar_pose =
  pp_x :: real
  pp_y :: real
  pp_theta :: real

definition transformPoint :: "planar_pose \<Rightarrow> real \<times> real \<Rightarrow> real \<times> real" where
  "transformPoint p q =
     (let mul_x = fst q - pp_x p; mul_y = snd q - pp_y p
      in (mul_x * cos (pp_theta p) + mul_y * sin (pp_theta p), - mul_x * sin (pp_theta p) + mul_y * cos (pp_theta p)))"

definition projectState :: "real \<Rightarrow> planar_pose \<Rightarrow> velocity \<Rightarrow> planar_pose \<times> velocity" where
  "projectState dt p v =
     (let theta = vtw v * dt
      in (\<lparr>pp_x = pp_x p + vx v * dt, pp_y = pp_y p + vy v * dt, pp_theta = pp_theta p + theta\<rparr>,
          v\<lparr>vx := vx v * cos theta - vy v * sin theta, vy := vx v * sin theta + vy v * cos theta\<rparr>))"

section \<open>Zones\<close>

datatype zone_shape = Polygon_zone "(real \<times> real) list" | Circle_zone real

record zone =
  z_name :: string
  z_enabled :: bool
  z_action :: action_type
  max_points :: int
  slowdown_ratio :: real
  time_before_collision :: real
  simulation_time_step :: real
  z_shape :: zone_shape
  has_footprint :: bool

text \<open>The loop over the edges of a polygon, \<open>a\<close> is the vertex before.\<close>

fun ray_crossings :: "real \<times> real \<Rightarrow> real \<times> real \<Rightarrow> (real \<times> real) list \<Rightarrow> bool \<Rightarrow> bool" where
  "ray_crossings p a [] res = res"
| "ray_crossings p a (b # bs) res =
     ray_crossings p b bs
       (if (snd p \<le> snd a) = (snd b < snd p)
        then
          (if fst p < fst a + (snd p - snd a) * (fst b - fst a) / (snd b - snd a) then \<not> res else res)
        else res)"

definition isPointInside :: "(real \<times> real) list \<Rightarrow> real \<times> real \<Rightarrow> bool" where
  "isPointInside poly p = (poly \<noteq> [] \<and> ray_crossings p (last poly) poly False)"

fun in_shape :: "zone_shape \<Rightarrow> real \<times> real \<Rightarrow> bool" where
  "in_shape (Polygon_zone poly) p = isPointInside poly p"
| "in_shape (Circle_zone radius) p = (fst p * fst p + snd p * snd p < radius * radius)"

definition getPointsInside :: "zone \<Rightarrow> (real \<times> real) list \<Rightarrow> int" where
  "getPointsInside z points = int (length (filter (in_shape (z_shape z)) points))"

partial_function (option) simulate_motion ::
  "zone \<Rightarrow> (real \<times> real) list \<Rightarrow> real \<Rightarrow> planar_pose \<Rightarrow> velocity \<Rightarrow> real option" where
  "simulate_motion z points time p v =
     (if time \<le> time_before_collision z
      then
        let p' = fst (projectState (simulation_time_step z) p v);
            v' = snd (projectState (simulation_time_step z) p v)
        in if max_points z < getPointsInside z (map (transformPoint p') points) then Some time
           else simulate_motion z points (time + simulation_time_step z) p' v'
      else Some (- 1))"

definition getCollisionTime :: "zone \<Rightarrow> (real \<times> real) list \<Rightarrow> velocity \<Rightarrow> real option" where
  "getCollisionTime z points v =
     (if max_points z \<le> getPointsInside z points then Some 0
      else simulate_motion z points 0 \<lparr>pp_x = 0, pp_y = 0, pp_theta = 0\<rparr> v)"

text \<open>The footprint last received, if any, and the pose of the robot in its frame, if there is a transform.\<close>

record footprint_source =
  fp_received :: "(real \<times> real) list option"
  fp_pose :: "planar_pose option"

text \<open>Whether it succeeds, and the vector of points it leaves, which starts empty.\<close>

definition getFootprintInRobotFrame :: "footprint_source \<Rightarrow> bool \<times> (real \<times> real) list" where
  "getFootprintInRobotFrame fp =
     (case fp_received fp of
        None \<Rightarrow> (False, [])
      | Some raw \<Rightarrow>
          (case fp_pose fp of
             None \<Rightarrow> (False, raw)
           | Some p \<Rightarrow>
               (True, transformFootprint 0 0 (- pp_theta p) (transformFootprint (- pp_x p) (- pp_y p) 0 raw))))"

definition updatePolygon :: "footprint_source \<Rightarrow> zone \<Rightarrow> zone" where
  "updatePolygon fp z =
     (if has_footprint z then z\<lparr>z_shape := Polygon_zone (snd (getFootprintInRobotFrame fp))\<rparr> else z)"

fun dynamicParametersCallback :: "(string \<times> bool) list \<Rightarrow> zone \<Rightarrow> zone" where
  "dynamicParametersCallback [] z = z"
| "dynamicParametersCallback ((param_name, value) # ps) z =
     dynamicParametersCallback ps
       (if param_name = z_name z @ ''.'' @ ''enabled'' then z\<lparr>z_enabled := value\<rparr> else z)"

section \<open>Actions of the zones\<close>

definition processStopSlowdown ::
  "zone \<Rightarrow> (real \<times> real) list \<Rightarrow> velocity \<Rightarrow> robot_action \<Rightarrow> bool \<times> robot_action" where
  "processStopSlowdown z points v act =
     (if max_points z < getPointsInside z points
      then
        (if z_action z = STOP
         then (True, \<lparr>action_type = STOP, req_vel = \<lparr>vx = 0, vy = 0, vtw = 0\<rparr>\<rparr>)
         else
           let safe_vel = vel_times v (slowdown_ratio z)
           in if vel_less safe_vel (req_vel act)
              then (True, \<lparr>action_type = SLOWDOWN, req_vel = safe_vel\<rparr>)
              else (False, act))
      else (False, act))"

text \<open>
  With a zero time before collision the ratio is 0/0, not a number, and no comparison with it holds. The zone is
  returned too, its polygon updated.
\<close>

definition processApproach ::
  "footprint_source \<Rightarrow> zone \<Rightarrow> (real \<times> real) list \<Rightarrow> velocity \<Rightarrow> robot_action \<Rightarrow>
   (bool \<times> robot_action \<times> zone) option" where
  "processApproach fp z points v act =
     (let z' = updatePolygon fp z
      in case getCollisionTime z' points v of
           None \<Rightarrow> None
         | Some collision_time \<Rightarrow>
             if 0 \<le> collision_time \<and> time_before_collision z' \<noteq> 0
             then
               let safe_vel = vel_times v (collision_time / time_before_collision z')
               in if vel_less safe_vel (req_vel act)
                  then Some (True, \<lparr>action_type = APPROACH, req_vel = safe_vel\<rparr>, z')
                  else Some (False, act, z')
             else Some (False, act, z'))"

fun process_zones ::
  "footprint_source \<Rightarrow> (real \<times> real) list \<Rightarrow> velocity \<Rightarrow> zone list \<Rightarrow> robot_action \<Rightarrow>
   (robot_action \<times> zone list) option" where
  "process_zones fp points v [] act = Some (act, [])"
| "process_zones fp points v (z # zs) act =
     (if \<not> z_enabled z then map_option (apsnd ((#) z)) (process_zones fp points v zs act)
      else if action_type act = STOP then Some (act, z # zs)
      else if z_action z = STOP \<or> z_action z = SLOWDOWN
      then map_option (apsnd ((#) z)) (process_zones fp points v zs (snd (processStopSlowdown z points v act)))
      else if z_action z = APPROACH
      then
        (case processApproach fp z points v act of
           None \<Rightarrow> None
         | Some (b, act', z') \<Rightarrow> map_option (apsnd ((#) z')) (process_zones fp points v zs act'))
      else map_option (apsnd ((#) z)) (process_zones fp points v zs act))"

section \<open>Sources\<close>

type_synonym vector3 = "real \<times> real \<times> real"

record laser_scan =
  range_min :: real
  range_max :: real
  angle_min :: real
  angle_increment :: real
  ranges :: "real option list"

record range_reading =
  rr_range :: real
  min_range :: real
  max_range :: real
  field_of_view :: real

datatype reading =
    Scan laser_scan | Range real range_reading | PointCloud real real "vector3 list"

text \<open>The latest reading with its stamp, and the transform that is available for it.\<close>

record source =
  src_enabled :: bool
  source_timeout :: real
  src_data :: "(real \<times> reading) option"
  src_transform :: "(vector3 \<Rightarrow> vector3) option"

definition sourceValid :: "real \<Rightarrow> real \<Rightarrow> real \<Rightarrow> bool" where
  "sourceValid timeout source_time curr_time \<longleftrightarrow> \<not> timeout < curr_time - source_time"

definition polar_point :: "(vector3 \<Rightarrow> vector3) \<Rightarrow> real \<Rightarrow> real \<Rightarrow> real \<times> real" where
  "polar_point tf r angle = (let q = tf (r * cos angle, r * sin angle, 0) in (fst q, fst (snd q)))"

fun scan_points ::
  "(vector3 \<Rightarrow> vector3) \<Rightarrow> laser_scan \<Rightarrow> real \<Rightarrow> real option list \<Rightarrow> (real \<times> real) list" where
  "scan_points tf sc angle [] = []"
| "scan_points tf sc angle (r # rs) =
     (case r of
        Some d \<Rightarrow> if range_min sc \<le> d \<and> d \<le> range_max sc then [polar_point tf d angle] else []
      | None \<Rightarrow> []) @ scan_points tf sc (angle + angle_increment sc) rs"

partial_function (option) range_points ::
  "(vector3 \<Rightarrow> vector3) \<Rightarrow> real \<Rightarrow> range_reading \<Rightarrow> real \<Rightarrow> (real \<times> real) list \<Rightarrow> (real \<times> real) list option" where
  "range_points tf obstacles_angle rr angle data =
     (if angle < field_of_view rr / 2
      then range_points tf obstacles_angle rr (angle + obstacles_angle) (data @ [polar_point tf (rr_range rr) angle])
      else Some (data @ [polar_point tf (rr_range rr) (field_of_view rr / 2)]))"

definition cloud_points ::
  "(vector3 \<Rightarrow> vector3) \<Rightarrow> real \<Rightarrow> real \<Rightarrow> vector3 list \<Rightarrow> (real \<times> real) list" where
  "cloud_points tf min_height max_height ps =
     map (\<lambda>q. (fst q, fst (snd q)))
       (filter (\<lambda>q. min_height \<le> snd (snd q) \<and> snd (snd q) \<le> max_height) (map tf ps))"

definition getData :: "real \<Rightarrow> source \<Rightarrow> (real \<times> real) list \<Rightarrow> (real \<times> real) list option" where
  "getData curr_time s data =
     (case src_data s of
        None \<Rightarrow> Some data
      | Some (stamp, rd) \<Rightarrow>
          if \<not> sourceValid (source_timeout s) stamp curr_time then Some data
          else
            (case (rd, src_transform s) of
               (Range _ rr, tf) \<Rightarrow>
                 if rr_range rr < min_range rr \<or> max_range rr < rr_range rr then Some data
                 else
                   (case tf of
                      None \<Rightarrow> Some data
                    | Some f \<Rightarrow>
                        (case rd of
                           Range obstacles_angle _ \<Rightarrow>
                             range_points f obstacles_angle rr (- field_of_view rr / 2) data
                         | _ \<Rightarrow> Some data))
             | (_, None) \<Rightarrow> Some data
             | (Scan sc, Some f) \<Rightarrow> Some (data @ scan_points f sc (angle_min sc) (ranges sc))
             | (PointCloud lo hi ps, Some f) \<Rightarrow> Some (data @ cloud_points f lo hi ps)))"

fun collect_points :: "real \<Rightarrow> source list \<Rightarrow> (real \<times> real) list \<Rightarrow> (real \<times> real) list option" where
  "collect_points curr_time [] points = Some points"
| "collect_points curr_time (s # ss) points =
     (if src_enabled s
      then
        (case getData curr_time s points of
           None \<Rightarrow> None
         | Some points' \<Rightarrow> collect_points curr_time ss points')
      else collect_points curr_time ss points)"

section \<open>The node\<close>

record monitor_node =
  process_active :: bool
  robot_action_prev :: robot_action
  stop_stamp :: real
  stop_pub_timeout :: real
  polygons :: "zone list"
  published :: "velocity list"

definition no_action :: robot_action where
  "no_action = \<lparr>action_type = DO_NOTHING, req_vel = \<lparr>vx = - 1, vy = - 1, vtw = - 1\<rparr>\<rparr>"

definition monitor_on_activate :: "monitor_node \<Rightarrow> monitor_node" where
  "monitor_on_activate mn = mn\<lparr>process_active := True\<rparr>"

definition monitor_on_deactivate :: "monitor_node \<Rightarrow> monitor_node" where
  "monitor_on_deactivate mn = mn\<lparr>process_active := False, robot_action_prev := no_action\<rparr>"

definition publishVelocity :: "real \<Rightarrow> robot_action \<Rightarrow> monitor_node \<Rightarrow> monitor_node" where
  "publishVelocity now act mn =
     (let out = mn\<lparr>published := published mn @ [req_vel act]\<rparr>
      in if isZero (req_vel act)
         then
           (if \<not> isZero (req_vel (robot_action_prev mn)) then out\<lparr>stop_stamp := now\<rparr>
            else if stop_pub_timeout mn < now - stop_stamp mn then mn
            else out)
         else out)"

text \<open>The clock is read at the start and when the velocity is published.\<close>

definition monitor_process ::
  "real \<times> real \<Rightarrow> footprint_source \<Rightarrow> source list \<Rightarrow> velocity \<Rightarrow> monitor_node \<Rightarrow> monitor_node option" where
  "monitor_process now fp sources cmd_vel_in mn =
     (if \<not> process_active mn then Some mn
      else
        (case collect_points (fst now) sources [] of
           None \<Rightarrow> None
         | Some points \<Rightarrow>
             (case process_zones fp points cmd_vel_in (polygons mn)
                     \<lparr>action_type = DO_NOTHING, req_vel = cmd_vel_in\<rparr> of
                None \<Rightarrow> None
              | Some (act, zs) \<Rightarrow>
                  Some ((publishVelocity (snd now) act (mn\<lparr>polygons := zs\<rparr>))\<lparr>robot_action_prev := act\<rparr>))))"

text \<open>A message with numbers that are not finite is \<open>None\<close>.\<close>

definition cmdVelInCallback ::
  "real \<times> real \<Rightarrow> footprint_source \<Rightarrow> source list \<Rightarrow> velocity option \<Rightarrow> monitor_node \<Rightarrow> monitor_node option" where
  "cmdVelInCallback now fp sources msg mn =
     (case msg of
        None \<Rightarrow> Some mn
      | Some v \<Rightarrow> monitor_process now fp sources v mn)"

end
