(* ===== verification/Collision_Monitor_Props.thy ===== *)
theory Collision_Monitor_Props
  imports Collision_Monitor
begin

text \<open>
  What the collision monitor guarantees: the speed it lets through is the least of the limits of the zones and of
  the speed asked for, the simulation of the motion ends, and the last velocity published is the one required.
\<close>

section \<open>Velocities\<close>

lemma vel_sq_times [simp]: "vel_sq (vel_times v m) = m * m * vel_sq v"
  by (simp add: vel_sq_def vel_times_def algebra_simps)

lemma vel_sq_ge_0 [simp]: "0 \<le> vel_sq v"
  by (simp add: vel_sq_def)

lemma vel_sq_zero [simp]: "vel_sq \<lparr>vx = 0, vy = 0, vtw = 0\<rparr> = 0"
  by (simp add: vel_sq_def)

lemma vel_sq_0: "vel_sq v = 0 \<longleftrightarrow> v = \<lparr>vx = 0, vy = 0, vtw = 0\<rparr>"
proof
  assume "vel_sq v = 0"
  then have "vx v = 0" "vy v = 0" "vtw v = 0"
    using zero_le_square [of "vx v"] zero_le_square [of "vy v"] zero_le_square [of "vtw v"]
    by (auto simp: vel_sq_def add_nonneg_eq_0_iff)
  then show "v = \<lparr>vx = 0, vy = 0, vtw = 0\<rparr>"
    by (cases v) simp
qed simp

lemma isZero_eq: "isZero v \<longleftrightarrow> v = \<lparr>vx = 0, vy = 0, vtw = 0\<rparr>"
  by (cases v) (simp add: isZero_def)

lemma vel_times_1 [simp]: "vel_times v 1 = v"
  by (simp add: vel_times_def)

lemma vel_times_0 [simp]: "vel_times v 0 = \<lparr>vx = 0, vy = 0, vtw = 0\<rparr>"
  by (simp add: vel_times_def)

section \<open>The simulation of the motion\<close>

lemma simulate_motion_total_aux:
  assumes step: "0 < simulation_time_step z"
  shows "time_before_collision z - time < real k * simulation_time_step z \<Longrightarrow>
    \<exists>t. simulate_motion z points time p v = Some t"
proof (induction k arbitrary: time p v)
  case 0
  then have "\<not> time \<le> time_before_collision z"
    by simp
  then show ?case
    by (subst simulate_motion.simps) simp
next
  case (Suc k)
  have "time_before_collision z - (time + simulation_time_step z) < real k * simulation_time_step z"
    using Suc.prems by (simp add: algebra_simps)
  from Suc.IH [OF this] show ?case
    by (subst simulate_motion.simps) (simp add: Let_def)
qed

lemma simulate_motion_total:
  assumes "0 < simulation_time_step z"
  shows "\<exists>t. simulate_motion z points time p v = Some t"
proof -
  obtain k where "(time_before_collision z - time) / simulation_time_step z < real k"
    using reals_Archimedean2 by blast
  then have "time_before_collision z - time < real k * simulation_time_step z"
    using assms by (simp add: divide_less_eq)
  then show ?thesis
    by (rule simulate_motion_total_aux [OF assms])
qed

lemma getCollisionTime_total:
  assumes "0 < simulation_time_step z"
  shows "\<exists>t. getCollisionTime z points v = Some t"
  using simulate_motion_total [OF assms] by (simp add: getCollisionTime_def)

definition simulated :: "zone \<Rightarrow> velocity \<Rightarrow> nat \<Rightarrow> planar_pose \<times> velocity" where
  "simulated z v k =
     ((\<lambda>s. projectState (simulation_time_step z) (fst s) (snd s)) ^^ k) (\<lparr>pp_x = 0, pp_y = 0, pp_theta = 0\<rparr>, v)"

definition hits_at :: "zone \<Rightarrow> (real \<times> real) list \<Rightarrow> velocity \<Rightarrow> nat \<Rightarrow> bool" where
  "hits_at z points v k \<longleftrightarrow>
     max_points z < getPointsInside z (map (transformPoint (fst (simulated z v (Suc k)))) points)"

lemma simulate_motion_step:
  "simulate_motion z points (real k * simulation_time_step z) (fst (simulated z v k)) (snd (simulated z v k)) =
     (if real k * simulation_time_step z \<le> time_before_collision z
      then
        if hits_at z points v k then Some (real k * simulation_time_step z)
        else simulate_motion z points (real (Suc k) * simulation_time_step z)
               (fst (simulated z v (Suc k))) (snd (simulated z v (Suc k)))
      else Some (- 1))"
  by (subst simulate_motion.simps) (simp add: hits_at_def simulated_def Let_def algebra_simps)

lemma simulate_motion_hit:
  assumes "\<And>j. j < n \<Longrightarrow> \<not> hits_at z points v j"
    and "hits_at z points v n" and "\<And>j. j \<le> n \<Longrightarrow> real j * simulation_time_step z \<le> time_before_collision z"
    and "k \<le> n"
  shows "simulate_motion z points (real k * simulation_time_step z) (fst (simulated z v k)) (snd (simulated z v k)) =
    Some (real n * simulation_time_step z)"
  using assms(4)
proof (induction "n - k" arbitrary: k)
  case 0
  then have "k = n" by simp
  then show ?case
    using assms(2,3) by (subst simulate_motion_step) simp
next
  case (Suc d)
  then have "simulate_motion z points (real (Suc k) * simulation_time_step z) (fst (simulated z v (Suc k)))
      (snd (simulated z v (Suc k))) = Some (real n * simulation_time_step z)"
    using Suc.hyps(1) [of "Suc k"] by simp
  then show ?case
    using assms(1) [of k] assms(3) [of k] Suc by (subst simulate_motion_step) simp
qed

lemma simulate_motion_free:
  assumes "\<And>j. j < n \<Longrightarrow> \<not> hits_at z points v j"
    and "time_before_collision z < real n * simulation_time_step z"
    and "k \<le> n"
  shows "simulate_motion z points (real k * simulation_time_step z) (fst (simulated z v k)) (snd (simulated z v k)) =
    Some (- 1)"
  using assms(3)
proof (induction "n - k" arbitrary: k)
  case 0
  then have "k = n" by simp
  then show ?case
    using assms(2) by (subst simulate_motion_step) simp
next
  case (Suc d)
  then have "simulate_motion z points (real (Suc k) * simulation_time_step z) (fst (simulated z v (Suc k)))
      (snd (simulated z v (Suc k))) = Some (- 1)"
    using Suc.hyps(1) [of "Suc k"] by simp
  then show ?case
    using assms(1) [of k] Suc by (subst simulate_motion_step) simp
qed

lemma simulated_0 [simp]:
  "simulated z v 0 = (\<lparr>pp_x = 0, pp_y = 0, pp_theta = 0\<rparr>, v)"
  by (simp add: simulated_def)

lemma projectState_speed:
  "vx (snd (projectState dt p v)) * vx (snd (projectState dt p v)) +
   vy (snd (projectState dt p v)) * vy (snd (projectState dt p v)) = vx v * vx v + vy v * vy v"
proof -
  have "(a * c - b * s) * (a * c - b * s) + (a * s + b * c) * (a * s + b * c) =
    (a * a + b * b) * (s\<^sup>2 + c\<^sup>2)" for a b c s :: real
    by (simp add: algebra_simps power2_eq_square)
  from this [of "vx v" "cos (vtw v * dt)" "vy v" "sin (vtw v * dt)"] show ?thesis
    unfolding projectState_def Let_def sin_cos_squared_add by simp
qed

section \<open>The limit of each zone\<close>

fun action_limit :: "footprint_source \<Rightarrow> (real \<times> real) list \<Rightarrow> velocity \<Rightarrow> zone \<Rightarrow> action_type \<Rightarrow> real option" where
  "action_limit fp points v z STOP = (if max_points z < getPointsInside z points then Some 0 else None)"
| "action_limit fp points v z SLOWDOWN =
     (if max_points z < getPointsInside z points then Some (slowdown_ratio z * slowdown_ratio z * vel_sq v) else None)"
| "action_limit fp points v z APPROACH =
     (case getCollisionTime (updatePolygon fp z) points v of
        None \<Rightarrow> None
      | Some t \<Rightarrow>
          if 0 \<le> t \<and> time_before_collision z \<noteq> 0
          then Some ((t / time_before_collision z) * (t / time_before_collision z) * vel_sq v) else None)"
| "action_limit fp points v z DO_NOTHING = None"

definition zone_limit :: "footprint_source \<Rightarrow> (real \<times> real) list \<Rightarrow> velocity \<Rightarrow> zone \<Rightarrow> real option" where
  "zone_limit fp points v z = (if z_enabled z then action_limit fp points v z (z_action z) else None)"

definition zone_limits :: "footprint_source \<Rightarrow> (real \<times> real) list \<Rightarrow> velocity \<Rightarrow> zone list \<Rightarrow> real set" where
  "zone_limits fp points v zs = {l. \<exists>z\<in>set zs. zone_limit fp points v z = Some l}"

lemma zone_limits_Nil [simp]: "zone_limits fp points v [] = {}"
  by (simp add: zone_limits_def)

lemma zone_limits_Cons:
  "zone_limits fp points v (z # zs) = set_option (zone_limit fp points v z) \<union> zone_limits fp points v zs"
  by (auto simp: zone_limits_def)

lemma finite_set_option [simp]: "finite (set_option opt)"
  by (cases opt) simp_all

lemma finite_zone_limits [simp]: "finite (zone_limits fp points v zs)"
  by (induction zs) (simp_all add: zone_limits_Cons)

lemma action_limit_ge_0: "action_limit fp points v z a = Some l \<Longrightarrow> 0 \<le> l"
  by (cases a) (auto split: if_splits option.splits)

lemma zone_limits_ge_0: "l \<in> zone_limits fp points v zs \<Longrightarrow> 0 \<le> l"
  by (auto simp: zone_limits_def zone_limit_def dest: action_limit_ge_0 split: if_splits)

lemma updatePolygon_keeps [simp]:
  "simulation_time_step (updatePolygon fp z) = simulation_time_step z"
  "time_before_collision (updatePolygon fp z) = time_before_collision z"
  "max_points (updatePolygon fp z) = max_points z"
  by (simp_all add: updatePolygon_def)

lemma processStopSlowdown_speed:
  assumes "z_action z = STOP \<or> z_action z = SLOWDOWN" and "z_enabled z"
  shows "vel_sq (req_vel (snd (processStopSlowdown z points v act))) =
    Min (insert (vel_sq (req_vel act)) (set_option (zone_limit fp points v z)))"
  using assms vel_sq_ge_0 [of "req_vel act"]
  by (auto simp: processStopSlowdown_def zone_limit_def vel_less_def Let_def min_def not_less intro: order.antisym
      simp del: vel_sq_ge_0)

lemma processApproach_speed:
  assumes "z_action z = APPROACH" and "z_enabled z" and "processApproach fp z points v act = Some (b, act', z')"
  shows "vel_sq (req_vel act') = Min (insert (vel_sq (req_vel act)) (set_option (zone_limit fp points v z)))"
  using assms
  by (auto simp: processApproach_def zone_limit_def vel_less_def Let_def min_def not_less
      split: option.splits if_splits)

lemma Min_insert_union:
  "finite B \<Longrightarrow> finite C \<Longrightarrow> Min (insert (Min (insert (a::real) B)) C) = Min (insert a (B \<union> C))"
  by (cases "C = {}"; cases "B = {}") (simp_all add: Min_Un min.assoc)

lemma processStopSlowdown_stop:
  "action_type (snd (processStopSlowdown z points v act)) = STOP \<Longrightarrow>
   action_type act \<noteq> STOP \<Longrightarrow>
   req_vel (snd (processStopSlowdown z points v act)) = \<lparr>vx = 0, vy = 0, vtw = 0\<rparr>"
  by (auto simp: processStopSlowdown_def Let_def split: if_splits)

lemma processApproach_stop:
  "processApproach fp z points v act = Some (b, act', z') \<Longrightarrow> action_type act' = STOP \<Longrightarrow> act' = act"
  by (auto simp: processApproach_def Let_def split: option.splits if_splits)

definition stop_is_zero :: "robot_action \<Rightarrow> bool" where
  "stop_is_zero act \<longleftrightarrow> (action_type act = STOP \<longrightarrow> req_vel act = \<lparr>vx = 0, vy = 0, vtw = 0\<rparr>)"

lemma stop_is_zero_stop: "stop_is_zero act \<Longrightarrow> stop_is_zero (snd (processStopSlowdown z points v act))"
  by (auto simp: processStopSlowdown_def stop_is_zero_def Let_def)

lemma stop_is_zero_approach:
  "stop_is_zero act \<Longrightarrow> processApproach fp z points v act = Some (b, act', z') \<Longrightarrow> stop_is_zero act'"
  by (auto simp: processApproach_def stop_is_zero_def Let_def split: option.splits if_splits)

lemma Min_insert_0:
  "finite S \<Longrightarrow> (\<And>l. l \<in> S \<Longrightarrow> 0 \<le> l) \<Longrightarrow> Min (insert (0::real) S) = 0"
  by (rule Min_eqI) auto

lemma Min_limits_step:
  assumes "vel_sq (req_vel act') = Min (insert (vel_sq (req_vel act)) (set_option (zone_limit fp points v z)))"
  shows "Min (insert (vel_sq (req_vel act')) (zone_limits fp points v zs)) =
    Min (insert (vel_sq (req_vel act)) (zone_limits fp points v (z # zs)))"
  unfolding assms zone_limits_Cons by (rule Min_insert_union) simp_all

lemma process_zones_Min:
  assumes "process_zones fp points v zs act = Some (act', zs')" and "stop_is_zero act"
  shows "vel_sq (req_vel act') = Min (insert (vel_sq (req_vel act)) (zone_limits fp points v zs))"
  using assms
proof (induction zs arbitrary: act zs')
  case Nil
  then show ?case by simp
next
  case (Cons z zs)
  show ?case
  proof (cases "z_enabled z \<and> action_type act \<noteq> STOP")
    case False
    show ?thesis
    proof (cases "z_enabled z")
      case True
      then have "vel_sq (req_vel act) = 0" "act' = act"
        using False Cons.prems by (simp_all add: stop_is_zero_def)
      then show ?thesis
        using Min_insert_0 [OF finite_zone_limits zone_limits_ge_0] by simp
    next
      case False
      then show ?thesis
        using Cons.prems Cons.IH by (auto simp: zone_limits_Cons zone_limit_def)
    qed
  next
    case True
    show ?thesis
    proof (cases "z_action z")
      case DO_NOTHING
      then show ?thesis
        using True Cons.prems Cons.IH by (auto simp: zone_limits_Cons zone_limit_def)
    next
      case APPROACH
      then obtain b act1 z1 zs1 where ap: "processApproach fp z points v act = Some (b, act1, z1)"
        and rest: "process_zones fp points v zs act1 = Some (act', zs1)"
        using True Cons.prems(1) by (auto split: option.splits)
      show ?thesis
        using Cons.IH [OF rest stop_is_zero_approach [OF Cons.prems(2) ap]]
          Min_limits_step [OF processApproach_speed [OF APPROACH _ ap]] True by simp
    next
      case STOP
      then obtain zs1 where "process_zones fp points v zs (snd (processStopSlowdown z points v act)) = Some (act', zs1)"
        using True Cons.prems(1) by auto
      from Cons.IH [OF this stop_is_zero_stop [OF Cons.prems(2)]] show ?thesis
        using Min_limits_step [OF processStopSlowdown_speed] STOP True by simp
    next
      case SLOWDOWN
      then obtain zs1 where "process_zones fp points v zs (snd (processStopSlowdown z points v act)) = Some (act', zs1)"
        using True Cons.prems(1) by auto
      from Cons.IH [OF this stop_is_zero_stop [OF Cons.prems(2)]] show ?thesis
        using Min_limits_step [OF processStopSlowdown_speed] SLOWDOWN True by simp
    qed
  qed
qed

text \<open>The share of the velocity asked for that each zone lets through.\<close>

fun action_factor :: "footprint_source \<Rightarrow> (real \<times> real) list \<Rightarrow> velocity \<Rightarrow> zone \<Rightarrow> action_type \<Rightarrow> real option" where
  "action_factor fp points v z STOP = (if max_points z < getPointsInside z points then Some 0 else None)"
| "action_factor fp points v z SLOWDOWN =
     (if max_points z < getPointsInside z points then Some (slowdown_ratio z) else None)"
| "action_factor fp points v z APPROACH =
     (case getCollisionTime (updatePolygon fp z) points v of
        None \<Rightarrow> None
      | Some t \<Rightarrow>
          if 0 \<le> t \<and> time_before_collision z \<noteq> 0 then Some (t / time_before_collision z) else None)"
| "action_factor fp points v z DO_NOTHING = None"

definition zone_factors :: "footprint_source \<Rightarrow> (real \<times> real) list \<Rightarrow> velocity \<Rightarrow> zone list \<Rightarrow> real set" where
  "zone_factors fp points v zs =
     {m. \<exists>z\<in>set zs. z_enabled z \<and> action_factor fp points v z (z_action z) = Some m}"

lemma zone_factors_Cons:
  "zone_factors fp points v (z # zs) =
     (if z_enabled z then set_option (action_factor fp points v z (z_action z)) else {}) \<union> zone_factors fp points v zs"
  by (auto simp: zone_factors_def)

lemma processStopSlowdown_factor:
  assumes "z_enabled z" and "z_action z = STOP \<or> z_action z = SLOWDOWN"
    and "\<exists>m\<in>F. req_vel act = vel_times v m"
  shows "\<exists>m\<in>F \<union> zone_factors fp points v [z]. req_vel (snd (processStopSlowdown z points v act)) = vel_times v m"
  using assms by (auto simp: processStopSlowdown_def zone_factors_def Let_def)

lemma processApproach_factor:
  assumes "z_enabled z" and "z_action z = APPROACH"
    and "processApproach fp z points v act = Some (b, act', z')" and "\<exists>m\<in>F. req_vel act = vel_times v m"
  shows "\<exists>m\<in>F \<union> zone_factors fp points v [z]. req_vel act' = vel_times v m"
  using assms by (auto simp: processApproach_def zone_factors_def Let_def split: option.splits if_splits)

lemma process_zones_factor:
  assumes "process_zones fp points v zs act = Some (act', zs')" and "\<exists>m\<in>F. req_vel act = vel_times v m"
  shows "\<exists>m\<in>F \<union> zone_factors fp points v zs. req_vel act' = vel_times v m"
  using assms
proof (induction zs arbitrary: act zs' F)
  case (Cons z zs)
  have split: "F \<union> zone_factors fp points v (z # zs) = (F \<union> zone_factors fp points v [z]) \<union> zone_factors fp points v zs"
    by (auto simp: zone_factors_def)
  have more: "\<exists>m\<in>F \<union> zone_factors fp points v [z]. req_vel act = vel_times v m"
    using Cons.prems(2) by blast
  consider (skip) "\<not> z_enabled z" | (stopped) "z_enabled z" "action_type act = STOP"
    | (ss) "z_enabled z" "action_type act \<noteq> STOP" "z_action z = STOP \<or> z_action z = SLOWDOWN"
    | (ap) "z_enabled z" "action_type act \<noteq> STOP" "z_action z = APPROACH"
    | (no) "z_enabled z" "action_type act \<noteq> STOP" "z_action z = DO_NOTHING"
    using action_type.exhaust by blast
  then show ?case
  proof cases
    case skip
    then show ?thesis
      unfolding split using Cons.IH [OF _ more] Cons.prems(1) by auto
  next
    case stopped
    then show ?thesis
      using Cons.prems by auto
  next
    case ss
    then obtain zs1 where "process_zones fp points v zs (snd (processStopSlowdown z points v act)) = Some (act', zs1)"
      using Cons.prems(1) by auto
    from Cons.IH [OF this processStopSlowdown_factor [OF ss(1,3) Cons.prems(2)]] show ?thesis
      unfolding split .
  next
    case ap
    then obtain b act1 z1 zs1 where step: "processApproach fp z points v act = Some (b, act1, z1)"
      and rest: "process_zones fp points v zs act1 = Some (act', zs1)"
      using Cons.prems(1) by (auto split: option.splits)
    from Cons.IH [OF rest processApproach_factor [OF ap(1,3) step Cons.prems(2)]] show ?thesis
      unfolding split .
  next
    case no
    then show ?thesis
      unfolding split using Cons.IH [OF _ more] Cons.prems(1) by auto
  qed
qed auto

definition ratios_nonneg :: "zone list \<Rightarrow> bool" where
  "ratios_nonneg zs \<longleftrightarrow> list_all (\<lambda>z. z_action z = SLOWDOWN \<longrightarrow> 0 \<le> slowdown_ratio z) zs"

lemma getCollisionTime_horizon:
  "getCollisionTime z points v = Some t \<Longrightarrow> 0 \<le> t \<Longrightarrow> t = 0 \<or> 0 \<le> time_before_collision z"
  by (subst (asm) getCollisionTime_def, subst (asm) simulate_motion.simps) (auto split: if_splits)

lemma zone_factors_nonneg:
  assumes "ratios_nonneg zs" and "m \<in> zone_factors fp points v zs"
  shows "0 \<le> m"
proof -
  obtain z where z: "z \<in> set zs" "action_factor fp points v z (z_action z) = Some m"
    using assms(2) by (auto simp: zone_factors_def)
  then have "z_action z = SLOWDOWN \<longrightarrow> 0 \<le> slowdown_ratio z"
    using assms(1) by (simp add: ratios_nonneg_def list_all_iff)
  then show ?thesis
    using z(2) getCollisionTime_horizon [of "updatePolygon fp z" points v]
    by (cases "z_action z") (auto split: option.splits if_splits)
qed

definition steps_positive :: "zone list \<Rightarrow> bool" where
  "steps_positive zs \<longleftrightarrow> list_all (\<lambda>z. z_action z = APPROACH \<longrightarrow> 0 < simulation_time_step z) zs"

lemma processApproach_total:
  assumes "0 < simulation_time_step z"
  shows "\<exists>r. processApproach fp z points v act = Some r"
proof -
  obtain t where "getCollisionTime (updatePolygon fp z) points v = Some t"
    using getCollisionTime_total assms by fastforce
  then have "processApproach fp z points v act \<noteq> None"
    by (simp add: processApproach_def Let_def del: not_None_eq)
  then show ?thesis
    by blast
qed

lemma process_zones_total: "steps_positive zs \<Longrightarrow> \<exists>r. process_zones fp points v zs act = Some r"
proof (induction zs arbitrary: act)
  case (Cons z zs)
  then have rest: "\<exists>r. process_zones fp points v zs act' = Some r" for act'
    by (simp add: steps_positive_def)
  then have some: "process_zones fp points v zs act' \<noteq> None" for act'
    by (metis option.distinct(1))
  show ?case
  proof (cases "z_action z = APPROACH")
    case True
    then obtain b act1 z1 where "processApproach fp z points v act = Some (b, act1, z1)"
      using Cons.prems processApproach_total [of z fp points v act] by (auto simp: steps_positive_def)
    then show ?thesis
      using some by (auto simp: True split: option.splits)
  next
    case False
    then show ?thesis
      using some by auto
  qed
qed simp

text \<open>C11. When the time steps of the zones are positive the monitor always decides, and the squared speed it requires
  is the least of the speed asked for and of the limits of the enabled zones - zero for a stop zone with too many
  points, the ratio for a slowdown zone, the share of the time left before a collision for an approach zone -
  whatever their order. The velocity required is the one asked for times 1 or times the factor of one of these zones,
  with its sign; so with slowdown ratios that are not negative it is the one asked for times a factor between 0 and 1,
  and the robot is never turned around or sped up.
\<close>
theorem process_zones_speed:
  assumes "steps_positive zs"
  shows "\<exists>act zs' m. process_zones fp points v zs \<lparr>action_type = DO_NOTHING, req_vel = v\<rparr> = Some (act, zs') \<and>
    vel_sq (req_vel act) = Min (insert (vel_sq v) (zone_limits fp points v zs)) \<and>
    req_vel act = vel_times v m \<and> m \<in> insert 1 (zone_factors fp points v zs) \<and>
    (ratios_nonneg zs \<longrightarrow> 0 \<le> m \<and> m \<le> 1)"
proof -
  obtain act zs' where res: "process_zones fp points v zs \<lparr>action_type = DO_NOTHING, req_vel = v\<rparr> = Some (act, zs')"
    using process_zones_total [OF assms] by fastforce
  have least: "vel_sq (req_vel act) = Min (insert (vel_sq v) (zone_limits fp points v zs))"
    using process_zones_Min [OF res] by (simp add: stop_is_zero_def)
  obtain m0 where m0: "m0 \<in> insert 1 (zone_factors fp points v zs)" "req_vel act = vel_times v m0"
    using process_zones_factor [OF res, of "{1}"] by (metis (no_types, lifting) insert_is_Un robot_action.select_convs(2)
        singletonI vel_times_1)
  define m where "m = (if vel_sq v = 0 then 1 else m0)"
  have m: "req_vel act = vel_times v m" "m \<in> insert 1 (zone_factors fp points v zs)"
    using m0 vel_sq_0 [of v] by (auto simp: m_def vel_times_def)
  have "m * m * vel_sq v \<le> 1 * vel_sq v"
    using least m(1) by simp
  then have "m * m \<le> 1 \<or> m = 1"
    using vel_sq_ge_0 [of v] mult_right_le_imp_le [of "m * m" "vel_sq v" 1] by (cases "vel_sq v = 0") (auto simp: m_def)
  then have "m \<le> 1"
    using abs_square_le_1 [of m] by (auto simp: power2_eq_square)
  then show ?thesis
    using res least m zone_factors_nonneg [of zs m] by auto
qed

definition stop_circle :: zone where
  "stop_circle = \<lparr>z_name = ''stop'', z_enabled = True, z_action = STOP, max_points = 0, slowdown_ratio = 0,
     time_before_collision = 0, simulation_time_step = 0, z_shape = Circle_zone 2, has_footprint = False\<rparr>"

definition slow_circle :: zone where
  "slow_circle = stop_circle\<lparr>z_name := ''slow'', z_action := SLOWDOWN, slowdown_ratio := 1 / 2\<rparr>"

definition no_footprint :: footprint_source where
  "no_footprint = \<lparr>fp_received = None, fp_pose = None\<rparr>"

lemma process_zones_speed_witness:
  "\<exists>act zs' m. process_zones no_footprint [(1, 0)] \<lparr>vx = 1, vy = 0, vtw = 0\<rparr> [slow_circle]
      \<lparr>action_type = DO_NOTHING, req_vel = \<lparr>vx = 1, vy = 0, vtw = 0\<rparr>\<rparr> = Some (act, zs') \<and>
    vel_sq (req_vel act) = Min {1, 1 / 4} \<and>
    req_vel act = vel_times \<lparr>vx = 1, vy = 0, vtw = 0\<rparr> m \<and> m \<in> {1, 1 / 2} \<and> 0 \<le> m \<and> m \<le> 1"
proof -
  have inside: "getPointsInside slow_circle [(1, 0)] = 1"
    by (simp add: getPointsInside_def slow_circle_def stop_circle_def)
  have "steps_positive [slow_circle]" "ratios_nonneg [slow_circle]"
    by (simp_all add: steps_positive_def ratios_nonneg_def slow_circle_def stop_circle_def)
  moreover have "zone_limits no_footprint [(1, 0)] \<lparr>vx = 1, vy = 0, vtw = 0\<rparr> [slow_circle] = {1 / 4}"
    "zone_factors no_footprint [(1, 0)] \<lparr>vx = 1, vy = 0, vtw = 0\<rparr> [slow_circle] = {1 / 2}"
    using inside
    by (auto simp: zone_limits_def zone_limit_def zone_factors_def slow_circle_def stop_circle_def vel_sq_def)
  ultimately show ?thesis
    using process_zones_speed [of "[slow_circle]" no_footprint "[(1, 0)]" "\<lparr>vx = 1, vy = 0, vtw = 0\<rparr>"]
    by (simp add: vel_sq_def)
qed

section \<open>The time before a collision\<close>

lemma step_beyond: "0 < (d::real) \<Longrightarrow> \<exists>n. b < real n * d"
  using reals_Archimedean3 by blast

text \<open>C37. A zone that is not already occupied, with a positive time step, gets as its time before a collision the time of
  the first simulated step after which too many points are inside it - the start of that step - when there is
  such a step within its horizon, and minus one when there is none.
\<close>
theorem getCollisionTime_first_hit:
  assumes "getPointsInside z points < max_points z" and "0 < simulation_time_step z"
  shows "getCollisionTime z points v =
    (if \<exists>k. hits_at z points v k \<and> real k * simulation_time_step z \<le> time_before_collision z
     then Some (real (LEAST k. hits_at z points v k) * simulation_time_step z)
     else Some (- 1))"
proof -
  let ?sim = "simulate_motion z points 0 \<lparr>pp_x = 0, pp_y = 0, pp_theta = 0\<rparr> v"
  have eq: "getCollisionTime z points v = ?sim"
    using assms(1) by (simp add: getCollisionTime_def)
  show ?thesis
  proof (cases "\<exists>k. hits_at z points v k \<and> real k * simulation_time_step z \<le> time_before_collision z")
    case True
    then obtain k where k: "hits_at z points v k" "real k * simulation_time_step z \<le> time_before_collision z"
      by blast
    define n where "n = (LEAST k. hits_at z points v k)"
    have n: "hits_at z points v n" "n \<le> k" "\<And>j. j < n \<Longrightarrow> \<not> hits_at z points v j"
      unfolding n_def using k(1) by (auto intro: LeastI Least_le dest: not_less_Least)
    have within: "real j * simulation_time_step z \<le> time_before_collision z" if "j \<le> n" for j
    proof -
      have "real j * simulation_time_step z \<le> real k * simulation_time_step z"
        using that n(2) assms(2) by (intro mult_right_mono) simp_all
      then show ?thesis using k(2) by linarith
    qed
    from simulate_motion_hit [OF n(3) n(1) within, where k = 0] True eq show ?thesis
      by (simp add: n_def)
  next
    case False
    define n where "n = (LEAST n. time_before_collision z < real n * simulation_time_step z)"
    have n: "time_before_collision z < real n * simulation_time_step z"
      unfolding n_def using LeastI_ex [OF step_beyond [OF assms(2)]] .
    have "\<not> hits_at z points v j" if "j < n" for j
      using that False not_less_Least [of j "\<lambda>n. time_before_collision z < real n * simulation_time_step z"]
      by (auto simp: n_def not_less)
    from simulate_motion_free [OF this n, where k = 0] eq show ?thesis
      by (simp add: if_not_P [OF False])
  qed
qed

definition approach_circle :: zone where
  "approach_circle = stop_circle\<lparr>z_name := ''ahead'', z_action := APPROACH, max_points := 1,
     time_before_collision := 2, simulation_time_step := 1\<rparr>"

lemma getCollisionTime_first_hit_witness:
  "getCollisionTime approach_circle [] \<lparr>vx = 1, vy = 0, vtw = 0\<rparr> =
    (if \<exists>k. hits_at approach_circle [] \<lparr>vx = 1, vy = 0, vtw = 0\<rparr> k \<and>
         real k * simulation_time_step approach_circle \<le> time_before_collision approach_circle
     then Some (real (LEAST k. hits_at approach_circle [] \<lparr>vx = 1, vy = 0, vtw = 0\<rparr> k) *
            simulation_time_step approach_circle)
     else Some (- 1))"
  by (rule getCollisionTime_first_hit)
    (simp_all add: approach_circle_def stop_circle_def getPointsInside_def)

section \<open>Zones that misjudge\<close>

text \<open>An approach zone that tolerates no point takes itself as occupied when there is no point at all: it requires
  the zero velocity from every command, while a stop zone with the same setting lets every command through.
\<close>
theorem zero_max_points_stops:
  assumes "z_enabled z" and "max_points z = 0" and "0 < time_before_collision z"
  shows "(\<exists>act zs. process_zones fp [] v [z\<lparr>z_action := APPROACH\<rparr>] \<lparr>action_type = DO_NOTHING, req_vel = v\<rparr> =
      Some (act, zs) \<and> isZero (req_vel act)) \<and>
    process_zones fp [] v [z\<lparr>z_action := STOP\<rparr>] \<lparr>action_type = DO_NOTHING, req_vel = v\<rparr> =
      Some (\<lparr>action_type = DO_NOTHING, req_vel = v\<rparr>, [z\<lparr>z_action := STOP\<rparr>])"
proof -
  have zero: "vel_sq v \<le> 0 \<Longrightarrow> isZero v"
    using sum_squares_le_zero_iff [of "vx v" "vy v"] 
    by (auto simp: vel_sq_def isZero_def power2_eq_square add_nonneg_eq_0_iff sum_nonneg_eq_0_iff
        intro: order.antisym dest!: order.antisym [OF _ vel_sq_ge_0 [unfolded vel_sq_def]])
  have "getCollisionTime (updatePolygon fp (z\<lparr>z_action := APPROACH\<rparr>)) [] v = Some 0"
    using assms(2) by (simp add: getCollisionTime_def getPointsInside_def)
  then show ?thesis
    using assms zero
    by (auto simp: processApproach_def processStopSlowdown_def getPointsInside_def vel_less_def Let_def isZero_def
        not_less)
qed

lemma zero_max_points_stops_witness:
  "(\<exists>act zs. process_zones no_footprint [] \<lparr>vx = 1, vy = 0, vtw = 0\<rparr>
      [(approach_circle\<lparr>max_points := 0\<rparr>)\<lparr>z_action := APPROACH\<rparr>]
      \<lparr>action_type = DO_NOTHING, req_vel = \<lparr>vx = 1, vy = 0, vtw = 0\<rparr>\<rparr> = Some (act, zs) \<and> isZero (req_vel act)) \<and>
    process_zones no_footprint [] \<lparr>vx = 1, vy = 0, vtw = 0\<rparr>
      [(approach_circle\<lparr>max_points := 0\<rparr>)\<lparr>z_action := STOP\<rparr>]
      \<lparr>action_type = DO_NOTHING, req_vel = \<lparr>vx = 1, vy = 0, vtw = 0\<rparr>\<rparr> =
      Some (\<lparr>action_type = DO_NOTHING, req_vel = \<lparr>vx = 1, vy = 0, vtw = 0\<rparr>\<rparr>,
        [(approach_circle\<lparr>max_points := 0\<rparr>)\<lparr>z_action := STOP\<rparr>])"
  by (rule zero_max_points_stops) (simp_all add: approach_circle_def stop_circle_def)

lemma empty_polygon_free [simp]: "getPointsInside (z\<lparr>z_shape := Polygon_zone []\<rparr>) points = 0"
  by (simp add: getPointsInside_def isPointInside_def)




section \<open>Points inside a polygon\<close>

definition at_or_above :: "real \<times> real \<Rightarrow> real \<times> real \<Rightarrow> bool" where
  "at_or_above p q \<longleftrightarrow> snd p \<le> snd q"

definition edge_x :: "real \<times> real \<Rightarrow> real \<times> real \<Rightarrow> real \<times> real \<Rightarrow> real" where
  "edge_x p a b = fst a + (snd p - snd a) * (fst b - fst a) / (snd b - snd a)"

lemma ray_crossings_Cons:
  "ray_crossings p a (b # bs) res =
     ray_crossings p b bs (if at_or_above p a \<noteq> at_or_above p b \<and> fst p < edge_x p a b then \<not> res else res)"
  by (auto simp: at_or_above_def edge_x_def not_le)

declare ray_crossings.simps(2) [simp del]

lemma line_point: "x + u * (y - x) / d = (1 - u / d) * x + u / d * (y::real)"
  by (simp add: left_diff_distrib right_diff_distrib diff_divide_distrib)

lemma edge_x_between:
  assumes "at_or_above p a \<noteq> at_or_above p b"
  shows "\<exists>t. 0 \<le> t \<and> t \<le> 1 \<and> edge_x p a b = (1 - t) * fst a + t * fst b"
proof (intro exI conjI)
  let ?t = "(snd p - snd a) / (snd b - snd a)"
  show "0 \<le> ?t" "?t \<le> 1"
    using assms by (auto simp: at_or_above_def divide_simps not_le)
  show "edge_x p a b = (1 - ?t) * fst a + ?t * fst b"
    unfolding edge_x_def by (rule line_point)
qed

lemma edge_x_right:
  assumes "at_or_above p a \<noteq> at_or_above p b" and "x < fst a" and "x < fst b"
  shows "x < edge_x p a b"
proof -
  obtain t where t: "0 \<le> t" "t \<le> 1" "edge_x p a b = (1 - t) * fst a + t * fst b"
    using edge_x_between [OF assms(1)] by blast
  show ?thesis
    using convex_bound_lt [of "- fst a" "- x" "- fst b" "1 - t" t] assms(2,3) t by simp
qed

lemma edge_x_left:
  assumes "at_or_above p a \<noteq> at_or_above p b" and "fst a \<le> x" and "fst b \<le> x"
  shows "edge_x p a b \<le> x"
proof -
  obtain t where t: "0 \<le> t" "t \<le> 1" "edge_x p a b = (1 - t) * fst a + t * fst b"
    using edge_x_between [OF assms(1)] by blast
  show ?thesis
    using convex_bound_le [of "fst a" x "fst b" "1 - t" t] assms(2,3) t by simp
qed

lemma ray_crossings_same_side:
  "\<forall>q\<in>set (a # bs). at_or_above p q = c \<Longrightarrow> ray_crossings p a bs res = res"
  by (induction bs arbitrary: a) (simp_all add: ray_crossings_Cons)

lemma ray_crossings_left:
  "\<forall>q\<in>set (a # bs). fst q \<le> fst p \<Longrightarrow> ray_crossings p a bs res = res"
proof (induction bs arbitrary: a)
  case (Cons b bs)
  then have "\<not> (at_or_above p a \<noteq> at_or_above p b \<and> fst p < edge_x p a b)"
    using edge_x_left [of p a b "fst p"] by force
  then show ?case
    using Cons by (simp only: ray_crossings_Cons if_False list.set insert_iff) blast
qed simp

lemma ray_crossings_right:
  "\<forall>q\<in>set (a # bs). fst p < fst q \<Longrightarrow>
   ray_crossings p a bs res = (res \<noteq> (at_or_above p a \<noteq> at_or_above p (last (a # bs))))"
proof (induction bs arbitrary: a res)
  case (Cons b bs)
  then have "at_or_above p a \<noteq> at_or_above p b \<Longrightarrow> fst p < edge_x p a b"
    using edge_x_right [of p a b "fst p"] by force
  then have "(at_or_above p a \<noteq> at_or_above p b \<and> fst p < edge_x p a b) = (at_or_above p a \<noteq> at_or_above p b)"
    by blast
  moreover have "\<forall>q\<in>set (b # bs). fst p < fst q"
    using Cons.prems by simp
  ultimately show ?case
    using Cons.IH [of b] by (simp only: ray_crossings_Cons) auto
qed simp

text \<open>C36. A point the polygon counts as inside is within the bounding box of its vertices: some vertex is to its right and
  some is not, some is below it and some is not.
\<close>
theorem inside_bounding_box:
  assumes "isPointInside poly p"
  shows "(\<exists>q\<in>set poly. fst q \<le> fst p) \<and> (\<exists>q\<in>set poly. fst p < fst q) \<and>
    (\<exists>q\<in>set poly. snd q < snd p) \<and> (\<exists>q\<in>set poly. snd p \<le> snd q)"
proof -
  have ne: "poly \<noteq> []" and res: "ray_crossings p (last poly) poly False"
    using assms by (simp_all add: isPointInside_def)
  have all: "set (last poly # poly) = set poly"
    using ne by auto
  have side: "\<exists>q\<in>set (last poly # poly). at_or_above p q \<noteq> c" for c
    using res ray_crossings_same_side [of "last poly" poly p c False] by blast
  have "\<exists>q\<in>set poly. snd q < snd p"
    using side [of True] unfolding all at_or_above_def by (simp add: not_le)
  moreover have "\<exists>q\<in>set poly. snd p \<le> snd q"
    using side [of False] unfolding all at_or_above_def by simp
  moreover have "\<exists>q\<in>set (last poly # poly). \<not> fst q \<le> fst p"
    using res ray_crossings_left [of "last poly" poly p False] by blast
  then have "\<exists>q\<in>set poly. fst p < fst q"
    unfolding all not_le .
  moreover have "\<exists>q\<in>set (last poly # poly). \<not> fst p < fst q"
    using res ray_crossings_right [of "last poly" poly p False] ne by auto
  then have "\<exists>q\<in>set poly. fst q \<le> fst p"
    unfolding all not_less .
  ultimately show ?thesis
    by blast
qed

definition unit_square :: "(real \<times> real) list" where
  "unit_square = [(1, 1), (- 1, 1), (- 1, - 1), (1, - 1)]"

lemma inside_bounding_box_witness:
  "(\<exists>q\<in>set unit_square. fst q \<le> 0) \<and> (\<exists>q\<in>set unit_square. 0 < fst q) \<and>
    (\<exists>q\<in>set unit_square. snd q < 0) \<and> (\<exists>q\<in>set unit_square. 0 \<le> snd q)"
proof -
  have "isPointInside unit_square (0, 0)"
    by (simp add: isPointInside_def unit_square_def ray_crossings.simps(2))
  from inside_bounding_box [OF this] show ?thesis
    by simp
qed

section \<open>The node\<close>

lemma range_points_total:
  assumes "0 < obstacles_angle"
  shows "\<exists>ps. range_points tf obstacles_angle rr angle data = Some ps"
proof -
  have "field_of_view rr / 2 - angle < real n * obstacles_angle \<Longrightarrow> \<exists>ps. range_points tf obstacles_angle rr angle data = Some ps"
    for n
  proof (induction n arbitrary: angle data)
    case 0
    then show ?case
      by (subst range_points.simps) simp
  next
    case (Suc n)
    have "field_of_view rr / 2 - (angle + obstacles_angle) < real n * obstacles_angle"
      using Suc.prems by (simp add: algebra_simps)
    from Suc.IH [OF this] show ?case
      by (subst range_points.simps) simp
  qed
  then show ?thesis
    using step_beyond [OF assms] by blast
qed

definition source_ends :: "source \<Rightarrow> bool" where
  "source_ends s \<longleftrightarrow>
     (case src_data s of Some (stamp, Range obstacles_angle rr) \<Rightarrow> 0 < obstacles_angle | _ \<Rightarrow> True)"

lemma getData_total: "source_ends s \<Longrightarrow> \<exists>ps. getData curr_time s data = Some ps"
  by (auto simp: getData_def source_ends_def range_points_total split: option.splits reading.splits prod.splits)

lemma collect_points_total: "list_all source_ends ss \<Longrightarrow> \<exists>ps. collect_points curr_time ss points = Some ps"
proof (induction ss arbitrary: points)
  case (Cons s ss)
  then obtain ps where "getData curr_time s points = Some ps"
    using getData_total by fastforce
  then show ?case
    using Cons by simp
qed simp

inductive monitor_reachable :: "monitor_node \<Rightarrow> bool" where
  start: "\<not> process_active mn \<Longrightarrow> robot_action_prev mn = no_action \<Longrightarrow> published mn = [] \<Longrightarrow> monitor_reachable mn"
| activate: "monitor_reachable mn \<Longrightarrow> monitor_reachable (monitor_on_activate mn)"
| deactivate: "monitor_reachable mn \<Longrightarrow> monitor_reachable (monitor_on_deactivate mn)"
| command: "monitor_reachable mn \<Longrightarrow> cmdVelInCallback now fp sources msg mn = Some mn' \<Longrightarrow> monitor_reachable mn'"
| set_enabled:
    "monitor_reachable mn \<Longrightarrow>
     monitor_reachable (mn\<lparr>polygons := map (dynamicParametersCallback ps) (polygons mn)\<rparr>)"

definition in_force :: "monitor_node \<Rightarrow> velocity \<Rightarrow> bool" where
  "in_force mn v \<longleftrightarrow> published mn \<noteq> [] \<and> last (published mn) = v"

definition prev_in_force :: "monitor_node \<Rightarrow> bool" where
  "prev_in_force mn \<longleftrightarrow> robot_action_prev mn = no_action \<or> in_force mn (req_vel (robot_action_prev mn))"

lemma no_action_moves [simp]: "\<not> isZero (req_vel no_action)"
  by (simp add: no_action_def isZero_def)

lemma publishVelocity_in_force:
  assumes "prev_in_force mn"
  shows "in_force (publishVelocity now act mn) (req_vel act)"
proof (cases "isZero (req_vel act) \<and> isZero (req_vel (robot_action_prev mn))")
  case True
  then have "req_vel act = req_vel (robot_action_prev mn)"
    by (simp add: isZero_eq)
  moreover have "robot_action_prev mn \<noteq> no_action"
    using True no_action_moves by metis
  ultimately show ?thesis
    using assms by (auto simp: publishVelocity_def prev_in_force_def in_force_def Let_def)
next
  case False
  then show ?thesis
    by (auto simp: publishVelocity_def in_force_def Let_def)
qed

lemma in_force_update [simp]:
  "in_force (mn\<lparr>polygons := zs\<rparr>) v = in_force mn v"
  "in_force (mn\<lparr>robot_action_prev := act\<rparr>) v = in_force mn v"
  "in_force (mn\<lparr>process_active := b\<rparr>) v = in_force mn v"
  "prev_in_force (mn\<lparr>polygons := zs\<rparr>) = prev_in_force mn"
  "prev_in_force (mn\<lparr>process_active := b\<rparr>) = prev_in_force mn"
  by (simp_all add: in_force_def prev_in_force_def)

lemma monitor_process_cases:
  assumes res: "monitor_process now fp sources v mn = Some mn'"
  obtains "\<not> process_active mn" "mn' = mn"
  | points act zs where "collect_points (fst now) sources [] = Some points"
      "process_zones fp points v (polygons mn) \<lparr>action_type = DO_NOTHING, req_vel = v\<rparr> = Some (act, zs)"
      "mn' = (publishVelocity (snd now) act (mn\<lparr>polygons := zs\<rparr>))\<lparr>robot_action_prev := act\<rparr>"
proof (cases "process_active mn")
  case False
  have "mn' = mn"
    using res False by (simp add: monitor_process_def)
  with False show thesis
    by (rule that(1))
next
  case True
  show thesis
  proof (cases "collect_points (fst now) sources []")
    case None
    then show thesis
      using res True by (simp add: monitor_process_def)
  next
    case (Some points)
    show thesis
    proof (cases "process_zones fp points v (polygons mn) \<lparr>action_type = DO_NOTHING, req_vel = v\<rparr>")
      case None
      then show thesis
        using res True Some by (simp add: monitor_process_def)
    next
      case (Some r)
      then have "mn' = (publishVelocity (snd now) (fst r) (mn\<lparr>polygons := snd r\<rparr>))\<lparr>robot_action_prev := fst r\<rparr>"
        using res True \<open>collect_points (fst now) sources [] = Some points\<close>
        by (simp add: monitor_process_def split_beta)
      then show thesis
        using Some \<open>collect_points (fst now) sources [] = Some points\<close> by (intro that(2)) simp_all
    qed
  qed
qed

lemma reachable_prev_in_force: "monitor_reachable mn \<Longrightarrow> prev_in_force mn"
proof (induction rule: monitor_reachable.induct)
  case (command mn now fp sources msg mn')
  show ?case
  proof (cases msg)
    case None
    then show ?thesis
      using command by (simp add: cmdVelInCallback_def)
  next
    case (Some v)
    then have "monitor_process now fp sources v mn = Some mn'"
      using command.hyps(2) by (simp add: cmdVelInCallback_def)
    then show ?thesis
    proof (cases rule: monitor_process_cases)
      case 1
      then show ?thesis
        using command.IH by simp
    next
      case (2 points act zs)
      then show ?thesis
        using publishVelocity_in_force [of "mn\<lparr>polygons := zs\<rparr>" "snd now" act] command.IH
        by (simp add: prev_in_force_def)
    qed
  qed
qed (simp_all add: prev_in_force_def monitor_on_activate_def monitor_on_deactivate_def)

text \<open>C12. In every state the monitor reaches through activations, deactivations, changes of the enabled zones and
  commands, an active monitor with positive time steps answers each valid command, and the last velocity it has
  published is then the one the zones require for that command - also when it ceases to repeat a stop.
\<close>
theorem command_in_force:
  assumes "monitor_reachable mn" and "process_active mn"
    and "steps_positive (polygons mn)" and "list_all source_ends sources"
  shows "\<exists>points act zs mn'. collect_points (fst now) sources [] = Some points \<and>
    process_zones fp points v (polygons mn) \<lparr>action_type = DO_NOTHING, req_vel = v\<rparr> = Some (act, zs) \<and>
    cmdVelInCallback now fp sources (Some v) mn = Some mn' \<and>
    published mn' \<noteq> [] \<and> last (published mn') = req_vel act"
proof -
  obtain points where points: "collect_points (fst now) sources [] = Some points"
    using collect_points_total [OF assms(4)] by blast
  obtain act zs where zones:
    "process_zones fp points v (polygons mn) \<lparr>action_type = DO_NOTHING, req_vel = v\<rparr> = Some (act, zs)"
    using process_zones_total [OF assms(3)] by fastforce
  have "in_force (publishVelocity (snd now) act (mn\<lparr>polygons := zs\<rparr>)) (req_vel act)"
    by (rule publishVelocity_in_force) (simp add: reachable_prev_in_force [OF assms(1)])
  then show ?thesis
    using points zones assms(2) by (simp add: cmdVelInCallback_def monitor_process_def in_force_def)
qed

definition idle_monitor :: monitor_node where
  "idle_monitor = \<lparr>process_active = False, robot_action_prev = no_action, stop_stamp = 0, stop_pub_timeout = 1,
     polygons = [slow_circle, stop_circle], published = []\<rparr>"

definition cloud_source :: source where
  "cloud_source = \<lparr>src_enabled = True, source_timeout = 2,
     src_data = Some (0, PointCloud 0 1 [(1, 0, 1 / 2)]), src_transform = Some (\<lambda>q. q)\<rparr>"

lemma command_in_force_witness:
  "\<exists>points act zs mn'. collect_points 1 [cloud_source] [] = Some points \<and>
    process_zones no_footprint points \<lparr>vx = 1, vy = 0, vtw = 0\<rparr> (polygons (monitor_on_activate idle_monitor))
      \<lparr>action_type = DO_NOTHING, req_vel = \<lparr>vx = 1, vy = 0, vtw = 0\<rparr>\<rparr> = Some (act, zs) \<and>
    cmdVelInCallback (1, 1) no_footprint [cloud_source] (Some \<lparr>vx = 1, vy = 0, vtw = 0\<rparr>)
      (monitor_on_activate idle_monitor) = Some mn' \<and>
    published mn' \<noteq> [] \<and> last (published mn') = req_vel act"
proof (rule command_in_force [of "monitor_on_activate idle_monitor" "[cloud_source]" "(1, 1)", simplified fst_conv])
  show "monitor_reachable (monitor_on_activate idle_monitor)"
    by (intro monitor_reachable.activate monitor_reachable.start) (simp_all add: idle_monitor_def)
qed (simp_all add: monitor_on_activate_def idle_monitor_def steps_positive_def slow_circle_def stop_circle_def
    cloud_source_def source_ends_def)

section \<open>Sources that have gone silent\<close>

definition source_silent :: "real \<Rightarrow> source \<Rightarrow> bool" where
  "source_silent curr_time s \<longleftrightarrow>
     (case src_data s of
        None \<Rightarrow> True
      | Some (stamp, rd) \<Rightarrow> source_timeout s < curr_time - stamp \<or> src_transform s = None)"

lemma getData_silent: "source_silent curr_time s \<Longrightarrow> getData curr_time s data = Some data"
  by (auto simp: getData_def source_silent_def sourceValid_def split: option.splits reading.splits)

lemma collect_points_silent:
  "list_all (source_silent curr_time) ss \<Longrightarrow> collect_points curr_time ss points = Some points"
  by (induction ss arbitrary: points) (simp_all add: getData_silent)

lemma getPointsInside_Nil [simp]: "getPointsInside z [] = 0"
  by (simp add: getPointsInside_def)

lemma getCollisionTime_Nil:
  assumes "0 < max_points z" and "0 < simulation_time_step z"
  shows "getCollisionTime z [] v = Some (- 1)"
proof -
  obtain n where n: "time_before_collision z < real n * simulation_time_step z"
    using step_beyond [OF assms(2)] by blast
  have "\<not> hits_at z [] v k" for k
    using assms(1) by (simp add: hits_at_def)
  from simulate_motion_free [OF this, where n = n and k = 0] n show ?thesis
    using assms(1) by (simp add: getCollisionTime_def)
qed

lemma process_zones_Nil:
  assumes "steps_positive zs" and "list_all (\<lambda>z. 0 < max_points z) zs" and "action_type act \<noteq> STOP"
  shows "\<exists>zs'. process_zones fp [] v zs act = Some (act, zs')"
  using assms
proof (induction zs)
  case (Cons z zs)
  then obtain zs' where rest: "process_zones fp [] v zs act = Some (act, zs')"
    by (auto simp: steps_positive_def)
  have "processStopSlowdown z [] v act = (False, act)"
    using Cons.prems(2) by (simp add: processStopSlowdown_def)
  moreover have "processApproach fp z [] v act = Some (False, act, updatePolygon fp z)" if "z_action z = APPROACH"
    using Cons.prems that getCollisionTime_Nil [of "updatePolygon fp z" v]
    by (simp add: processApproach_def Let_def steps_positive_def)
  ultimately show ?case
    using rest Cons.prems(3) by (cases "z_action z") simp_all
qed simp

text \<open>When every enabled source is silent - it has sent nothing, its last message is older than its timeout, or there is
  no transform for it - the monitor passes each command on unchanged, whatever its zones are, as long as each tolerates
  a point.
\<close>
theorem silent_sources_pass:
  assumes "process_active mn" and "list_all (\<lambda>s. src_enabled s \<longrightarrow> source_silent (fst now) s) sources"
    and "steps_positive (polygons mn)" and "list_all (\<lambda>z. 0 < max_points z) (polygons mn)" and "\<not> isZero v"
  shows "\<exists>mn'. cmdVelInCallback now fp sources (Some v) mn = Some mn' \<and> published mn' = published mn @ [v]"
proof -
  have "collect_points (fst now) sources points = Some points" for points
    using assms(2) by (induction sources arbitrary: points) (simp_all add: getData_silent)
  then show ?thesis
    using process_zones_Nil [OF assms(3,4), of "\<lparr>action_type = DO_NOTHING, req_vel = v\<rparr>" fp v] assms(1,5)
    by (auto simp: cmdVelInCallback_def monitor_process_def publishVelocity_def Let_def)
qed

lemma silent_sources_pass_witness:
  "\<exists>mn'. cmdVelInCallback (3, 3) no_footprint [cloud_source] (Some \<lparr>vx = 1, vy = 0, vtw = 0\<rparr>)
      (monitor_on_activate (idle_monitor\<lparr>polygons := [stop_circle\<lparr>max_points := 1\<rparr>]\<rparr>)) = Some mn' \<and>
    published mn' =
      published (monitor_on_activate (idle_monitor\<lparr>polygons := [stop_circle\<lparr>max_points := 1\<rparr>]\<rparr>)) @
        [\<lparr>vx = 1, vy = 0, vtw = 0\<rparr>]"
  by (rule silent_sources_pass)
    (simp_all add: monitor_on_activate_def idle_monitor_def steps_positive_def stop_circle_def cloud_source_def
      source_silent_def isZero_def)

end
