(* ===== verification/Action_Server.thy ===== *)
theory Action_Server
  imports Nav_Prelude
begin

text \<open>
  The action server behind the servers of the stack (\<open>nav2_util/simple_action_server.hpp\<close>): goals arrive, wait,
  replace each other and are worked on by a thread, while a lifecycle transition may stop the server. A section
  under the mutex is one step; the steps of the threads interleave. Goals are numbers, their handles belong to the
  ROS library and are values of a type \<open>'h\<close> with the operations the code calls. \<open>None\<close> as a result is an exception
  of a handle. Messages for the log are left out; a result is part of the handle.
\<close>

section \<open>Goal handles\<close>

record 'h handle_ops =
  ho_active :: "'h \<Rightarrow> bool"
  ho_canceling :: "'h \<Rightarrow> bool"
  ho_succeed :: "'h \<Rightarrow> 'h option"
  ho_abort :: "'h \<Rightarrow> 'h option"
  ho_canceled :: "'h \<Rightarrow> 'h option"
  ho_cancel_goal :: "'h \<Rightarrow> 'h"

text \<open>What the library documents: an active goal can succeed or be aborted, one that is canceling also be canceled.\<close>

definition handle_laws :: "'h handle_ops \<Rightarrow> bool" where
  "handle_laws H \<longleftrightarrow>
     (\<forall>h. ho_active H h \<longrightarrow>
        (\<exists>h'. ho_succeed H h = Some h' \<and> \<not> ho_active H h') \<and>
        (\<exists>h'. ho_abort H h = Some h' \<and> \<not> ho_active H h') \<and>
        (ho_canceling H h \<longrightarrow> (\<exists>h'. ho_canceled H h = Some h' \<and> \<not> ho_active H h')) \<and>
        ho_active H (ho_cancel_goal H h))"

section \<open>The state\<close>

text \<open>
  Where the thread that works on goals is: there is none, before the test of its loop, in the callback, in the
  callback between the test and the call of \<open>publish_feedback\<close>, after the callback, or about to end.
\<close>

datatype work_thread = No_thread | At_test | In_callback | At_feedback | After_callback | At_end

record 'h action_server =
  as_goals :: "nat \<rightharpoonup> 'h"
  current_handle :: "nat option"
  pending_handle :: "nat option"
  preempt_requested :: bool
  server_active :: bool
  stop_execution :: bool
  thread :: work_thread
  has_completion :: bool
  completions :: nat
  goal_accepted :: bool
  deactivating :: bool
  null_feedback :: bool

section \<open>Operations\<close>

definition is_active :: "'h handle_ops \<Rightarrow> 'h action_server \<Rightarrow> nat option \<Rightarrow> bool" where
  "is_active H s handle =
     (case handle of
        None \<Rightarrow> False
      | Some g \<Rightarrow> (case as_goals s g of None \<Rightarrow> False | Some h \<Rightarrow> ho_active H h))"

definition is_running :: "'h action_server \<Rightarrow> bool" where
  "is_running s \<longleftrightarrow> thread s \<noteq> No_thread"

text \<open>A call on the handle of a goal.\<close>

definition call_handle :: "('h \<Rightarrow> 'h option) \<Rightarrow> nat option \<Rightarrow> 'h action_server \<Rightarrow> 'h action_server option" where
  "call_handle f handle s =
     (case handle of
        None \<Rightarrow> None
      | Some g \<Rightarrow>
          (case as_goals s g of
             None \<Rightarrow> None
           | Some h \<Rightarrow> map_option (\<lambda>h'. s\<lparr>as_goals := (as_goals s)(g \<mapsto> h')\<rparr>) (f h)))"

text \<open>What \<open>terminate\<close> does to the goal of a handle; the handle itself is reset by the callers.\<close>

definition terminate_goal :: "'h handle_ops \<Rightarrow> nat option \<Rightarrow> 'h action_server \<Rightarrow> 'h action_server option" where
  "terminate_goal H = call_handle (\<lambda>h. if ho_canceling H h then ho_canceled H h else ho_abort H h)"

definition terminate_current :: "'h handle_ops \<Rightarrow> 'h action_server \<Rightarrow> 'h action_server option" where
  "terminate_current H s =
     (if is_active H s (current_handle s)
      then map_option (\<lambda>t. t\<lparr>current_handle := None\<rparr>) (terminate_goal H (current_handle s) s)
      else Some s)"

definition terminate_pending :: "'h handle_ops \<Rightarrow> 'h action_server \<Rightarrow> 'h action_server option" where
  "terminate_pending H s =
     (if is_active H s (pending_handle s)
      then map_option (\<lambda>t. t\<lparr>pending_handle := None\<rparr>) (terminate_goal H (pending_handle s) s)
      else Some s)"

definition terminate_all :: "'h handle_ops \<Rightarrow> 'h action_server \<Rightarrow> 'h action_server option" where
  "terminate_all H s =
     do {
       s1 \<leftarrow> terminate_current H s;
       s2 \<leftarrow> terminate_pending H s1;
       Some (s2\<lparr>preempt_requested := False\<rparr>)
     }"

definition terminate_pending_goal :: "'h handle_ops \<Rightarrow> 'h action_server \<Rightarrow> 'h action_server option" where
  "terminate_pending_goal H s =
     (if \<not> is_active H s (pending_handle s) then Some s
      else map_option (\<lambda>t. t\<lparr>preempt_requested := False\<rparr>) (terminate_pending H s))"

definition accept_pending_goal :: "'h handle_ops \<Rightarrow> 'h action_server \<Rightarrow> 'h action_server option" where
  "accept_pending_goal H s =
     (if \<not> is_active H s (pending_handle s) then Some s
      else
        do {
          t \<leftarrow> if is_active H s (current_handle s) \<and> current_handle s \<noteq> pending_handle s
               then call_handle (ho_abort H) (current_handle s) s else Some s;
          Some (t\<lparr>current_handle := pending_handle t, pending_handle := None, preempt_requested := False\<rparr>)
        })"

definition succeeded_current :: "'h handle_ops \<Rightarrow> 'h action_server \<Rightarrow> 'h action_server option" where
  "succeeded_current H s =
     (if is_active H s (current_handle s)
      then map_option (\<lambda>t. t\<lparr>current_handle := None\<rparr>) (call_handle (ho_succeed H) (current_handle s) s)
      else Some s)"

definition get_current_goal :: "'h handle_ops \<Rightarrow> 'h action_server \<Rightarrow> nat option" where
  "get_current_goal H s = (if is_active H s (current_handle s) then current_handle s else None)"

definition get_pending_goal :: "'h handle_ops \<Rightarrow> 'h action_server \<Rightarrow> nat option" where
  "get_pending_goal H s = (if is_active H s (pending_handle s) then pending_handle s else None)"

definition is_cancel_requested :: "'h handle_ops \<Rightarrow> 'h action_server \<Rightarrow> bool" where
  "is_cancel_requested H s =
     (let canceling = \<lambda>g. (case as_goals s g of None \<Rightarrow> False | Some h \<Rightarrow> ho_canceling H h)
      in case current_handle s of
           None \<Rightarrow> False
         | Some c \<Rightarrow> (case pending_handle s of Some p \<Rightarrow> canceling p | None \<Rightarrow> canceling c))"

section \<open>Requests of clients\<close>

datatype goal_response = Reject | Accept_and_execute

definition handle_goal :: "'h action_server \<Rightarrow> goal_response" where
  "handle_goal s = (if \<not> server_active s then Reject else Accept_and_execute)"

text \<open>Whether the request to cancel is accepted.\<close>

definition handle_cancel :: "'h handle_ops \<Rightarrow> nat \<Rightarrow> 'h action_server \<Rightarrow> bool" where
  "handle_cancel H g s = is_active H s (Some g)"

definition handle_accepted :: "'h handle_ops \<Rightarrow> nat \<Rightarrow> 'h action_server \<Rightarrow> 'h action_server option" where
  "handle_accepted H g s =
     (if is_active H s (current_handle s) \<or> is_running s
      then
        do {
          t \<leftarrow> if is_active H s (pending_handle s) then terminate_pending H s else Some s;
          Some (t\<lparr>pending_handle := Some g, preempt_requested := True\<rparr>)
        }
      else
        do {
          t \<leftarrow> if is_active H s (pending_handle s)
               then map_option (\<lambda>t. t\<lparr>preempt_requested := False\<rparr>) (terminate_pending H s) else Some s;
          Some (t\<lparr>current_handle := Some g, thread := At_test\<rparr>)
        })"

section \<open>The working thread\<close>

text \<open>
  Without a completion callback the call throws, and the thread ends with the exception in its future. The
  completion callback of the user only is counted.
\<close>

definition call_completion :: "'h action_server \<Rightarrow> 'h action_server" where
  "call_completion s = (if has_completion s then s\<lparr>completions := completions s + 1\<rparr> else s)"

definition work_test :: "'h handle_ops \<Rightarrow> bool \<Rightarrow> 'h action_server \<Rightarrow> 'h action_server" where
  "work_test H ok s =
     s\<lparr>thread := if ok \<and> \<not> stop_execution s \<and> is_active H s (current_handle s) then In_callback else At_end\<rparr>"

definition work_exception :: "'h handle_ops \<Rightarrow> 'h action_server \<Rightarrow> 'h action_server option" where
  "work_exception H s = map_option (\<lambda>t. (call_completion t)\<lparr>thread := At_end\<rparr>) (terminate_all H s)"

definition work_after :: "'h handle_ops \<Rightarrow> 'h action_server \<Rightarrow> 'h action_server option" where
  "work_after H s =
     (if stop_execution s
      then map_option (\<lambda>t. (call_completion t)\<lparr>thread := At_end\<rparr>) (terminate_all H s)
      else
        do {
          t \<leftarrow> if is_active H s (current_handle s) then map_option call_completion (terminate_current H s) else Some s;
          if is_active H s (current_handle s) \<and> \<not> has_completion s then Some (t\<lparr>thread := At_end\<rparr>)
          else if is_active H t (pending_handle t)
          then map_option (\<lambda>u. u\<lparr>thread := At_test\<rparr>) (accept_pending_goal H t)
          else Some (t\<lparr>thread := At_end\<rparr>)
        })"

text \<open>\<open>publish_feedback\<close> takes no lock: its test and its use of the handle are two steps.\<close>

definition feedback_test :: "'h handle_ops \<Rightarrow> 'h action_server \<Rightarrow> 'h action_server" where
  "feedback_test H s = (if is_active H s (current_handle s) then s\<lparr>thread := At_feedback\<rparr> else s)"

definition feedback_use :: "'h action_server \<Rightarrow> 'h action_server" where
  "feedback_use s = s\<lparr>thread := In_callback, null_feedback := null_feedback s \<or> current_handle s = None\<rparr>"

section \<open>Activation and deactivation\<close>

definition server_activate :: "'h action_server \<Rightarrow> 'h action_server" where
  "server_activate s = s\<lparr>server_active := True, stop_execution := False\<rparr>"

definition deactivate_flags :: "'h action_server \<Rightarrow> 'h action_server" where
  "deactivate_flags s = s\<lparr>server_active := False, stop_execution := True, deactivating := True\<rparr>"

definition deactivate_timeout :: "'h handle_ops \<Rightarrow> 'h action_server \<Rightarrow> 'h action_server option" where
  "deactivate_timeout H s = map_option call_completion (terminate_all H s)"

section \<open>Steps\<close>

text \<open>What the callback may do while it runs, apart from reading the state.\<close>

inductive callback_step :: "'h handle_ops \<Rightarrow> 'h action_server \<Rightarrow> 'h action_server \<Rightarrow> bool" for H where
  accept: "accept_pending_goal H s = Some t \<Longrightarrow> callback_step H s t"
| drop_pending: "terminate_pending_goal H s = Some t \<Longrightarrow> callback_step H s t"
| drop_all: "terminate_all H s = Some t \<Longrightarrow> callback_step H s t"
| drop_current: "terminate_current H s = Some t \<Longrightarrow> callback_step H s t"
| succeed: "succeeded_current H s = Some t \<Longrightarrow> callback_step H s t"
| feedback: "callback_step H s (feedback_test H s)"
| return_normally: "callback_step H s (s\<lparr>thread := After_callback\<rparr>)"
| throw: "work_exception H s = Some t \<Longrightarrow> callback_step H s t"

text \<open>
  \<open>ok\<close> is the answer of \<open>rclcpp::ok\<close>. A goal is accepted and handled in two steps, one goal at a time; while the
  server waits for the thread in \<open>deactivate\<close> it is not activated.
\<close>

inductive server_step :: "'h handle_ops \<Rightarrow> 'h action_server \<Rightarrow> 'h action_server \<Rightarrow> bool" for H where
  request: "handle_goal s = Accept_and_execute \<Longrightarrow> \<not> goal_accepted s \<Longrightarrow> server_step H s (s\<lparr>goal_accepted := True\<rparr>)"
| accepted:
    "goal_accepted s \<Longrightarrow> as_goals s g = None \<Longrightarrow> ho_active H h \<Longrightarrow>
     handle_accepted H g (s\<lparr>as_goals := (as_goals s)(g \<mapsto> h), goal_accepted := False\<rparr>) = Some t \<Longrightarrow> server_step H s t"
| cancel:
    "handle_cancel H g s \<Longrightarrow> as_goals s g = Some h \<Longrightarrow>
     server_step H s (s\<lparr>as_goals := (as_goals s)(g \<mapsto> ho_cancel_goal H h)\<rparr>)"
| test: "thread s = At_test \<Longrightarrow> server_step H s (work_test H ok s)"
| callback: "thread s = In_callback \<Longrightarrow> callback_step H s t \<Longrightarrow> server_step H s t"
| publish: "thread s = At_feedback \<Longrightarrow> server_step H s (feedback_use s)"
| after: "thread s = After_callback \<Longrightarrow> work_after H s = Some t \<Longrightarrow> server_step H s t"
| thread_end: "thread s = At_end \<Longrightarrow> server_step H s (s\<lparr>thread := No_thread\<rparr>)"
| activate: "\<not> deactivating s \<Longrightarrow> server_step H s (server_activate s)"
| deactivate: "\<not> deactivating s \<Longrightarrow> server_step H s (deactivate_flags s)"
| wait_over: "deactivating s \<Longrightarrow> \<not> is_running s \<Longrightarrow> server_step H s (s\<lparr>deactivating := False\<rparr>)"
| wait_timeout: "deactivating s \<Longrightarrow> is_running s \<Longrightarrow> deactivate_timeout H s = Some t \<Longrightarrow> server_step H s t"

definition server_start :: "bool \<Rightarrow> 'h action_server" where
  "server_start c =
     \<lparr>as_goals = Map.empty, current_handle = None, pending_handle = None, preempt_requested = False,
      server_active = False, stop_execution = False, thread = No_thread, has_completion = c, completions = 0,
      goal_accepted = False, deactivating = False, null_feedback = False\<rparr>"

inductive server_reachable :: "'h handle_ops \<Rightarrow> 'h action_server \<Rightarrow> bool" for H where
  start: "server_reachable H (server_start c)"
| step: "server_reachable H s \<Longrightarrow> server_step H s t \<Longrightarrow> server_reachable H t"

end
