(* ===== verification/Action_Server_Props.thy ===== *)
theory Action_Server_Props
  imports Action_Server
begin

text \<open>
  The action server over all interleavings of its clients, its thread and its deactivation: goals are never lost
  from its two slots and never get two results; a goal has a thread as long as the server is not stopped and no goal
  arrives while the thread ends. The races outside these conditions are shown by runs.
\<close>

section \<open>The invariant\<close>

definition server_ok :: "'h handle_ops \<Rightarrow> 'h action_server \<Rightarrow> bool" where
  "server_ok H s \<longleftrightarrow>
     (\<forall>g. is_active H s (Some g) \<longleftrightarrow> current_handle s = Some g \<or> pending_handle s = Some g) \<and>
     (\<forall>g. current_handle s = Some g \<longrightarrow> pending_handle s \<noteq> Some g) \<and>
     preempt_requested s = (pending_handle s \<noteq> None)"

definition keeps_results :: "'h handle_ops \<Rightarrow> 'h action_server \<Rightarrow> 'h action_server \<Rightarrow> bool" where
  "keeps_results H s t \<longleftrightarrow> (\<forall>g h. as_goals s g = Some h \<longrightarrow> \<not> ho_active H h \<longrightarrow> as_goals t g = Some h)"

text \<open>The parts of the state that the operations on goals leave alone.\<close>

definition same_control :: "'h action_server \<Rightarrow> 'h action_server \<Rightarrow> bool" where
  "same_control s t \<longleftrightarrow>
     server_active t = server_active s \<and> stop_execution t = stop_execution s \<and> thread t = thread s \<and>
     has_completion t = has_completion s \<and> completions t = completions s \<and> goal_accepted t = goal_accepted s \<and>
     deactivating t = deactivating s \<and> null_feedback t = null_feedback s"

lemma same_control_trans: "same_control s t \<Longrightarrow> same_control t u \<Longrightarrow> same_control s u"
  by (simp add: same_control_def)

lemma keeps_results_refl [simp]: "keeps_results H s s"
  by (simp add: keeps_results_def)

lemma keeps_results_trans: "keeps_results H s t \<Longrightarrow> keeps_results H t u \<Longrightarrow> keeps_results H s u"
  by (simp add: keeps_results_def)

lemma same_control_refl [simp]: "same_control s s"
  by (simp add: same_control_def)

lemma is_active_None [simp]: "\<not> is_active H s None"
  by (simp add: is_active_def)

lemma is_active_Some: "is_active H s (Some g) = (\<exists>h. as_goals s g = Some h \<and> ho_active H h)"
  by (simp add: is_active_def split: option.split)

lemma is_active_update [simp]:
  "is_active H (s\<lparr>current_handle := c\<rparr>) x = is_active H s x"
  "is_active H (s\<lparr>pending_handle := p\<rparr>) x = is_active H s x"
  "is_active H (s\<lparr>preempt_requested := b\<rparr>) x = is_active H s x"
  "is_active H (s\<lparr>server_active := b\<rparr>) x = is_active H s x"
  "is_active H (s\<lparr>stop_execution := b\<rparr>) x = is_active H s x"
  "is_active H (s\<lparr>thread := w\<rparr>) x = is_active H s x"
  "is_active H (s\<lparr>completions := n\<rparr>) x = is_active H s x"
  "is_active H (s\<lparr>goal_accepted := b\<rparr>) x = is_active H s x"
  "is_active H (s\<lparr>deactivating := b\<rparr>) x = is_active H s x"
  "is_active H (s\<lparr>null_feedback := b\<rparr>) x = is_active H s x"
  by (cases x; simp add: is_active_Some)+

lemma is_active_goal_update:
  "is_active H (s\<lparr>as_goals := (as_goals s)(g \<mapsto> h)\<rparr>) (Some k) = (if k = g then ho_active H h else is_active H s (Some k))"
  by (simp add: is_active_Some)

lemma keeps_results_update [simp]:
  "keeps_results H s (t\<lparr>current_handle := c\<rparr>) = keeps_results H s t"
  "keeps_results H s (t\<lparr>pending_handle := p\<rparr>) = keeps_results H s t"
  "keeps_results H s (t\<lparr>preempt_requested := b\<rparr>) = keeps_results H s t"
  "keeps_results H s (t\<lparr>server_active := b\<rparr>) = keeps_results H s t"
  "keeps_results H s (t\<lparr>stop_execution := b\<rparr>) = keeps_results H s t"
  "keeps_results H s (t\<lparr>thread := w\<rparr>) = keeps_results H s t"
  "keeps_results H s (t\<lparr>completions := n\<rparr>) = keeps_results H s t"
  "keeps_results H s (t\<lparr>goal_accepted := b\<rparr>) = keeps_results H s t"
  "keeps_results H s (t\<lparr>deactivating := b\<rparr>) = keeps_results H s t"
  "keeps_results H s (t\<lparr>null_feedback := b\<rparr>) = keeps_results H s t"
  by (simp_all add: keeps_results_def)

lemma server_ok_update [simp]:
  "server_ok H (s\<lparr>server_active := b\<rparr>) = server_ok H s"
  "server_ok H (s\<lparr>stop_execution := b\<rparr>) = server_ok H s"
  "server_ok H (s\<lparr>thread := w\<rparr>) = server_ok H s"
  "server_ok H (s\<lparr>completions := n\<rparr>) = server_ok H s"
  "server_ok H (s\<lparr>goal_accepted := b\<rparr>) = server_ok H s"
  "server_ok H (s\<lparr>deactivating := b\<rparr>) = server_ok H s"
  "server_ok H (s\<lparr>null_feedback := b\<rparr>) = server_ok H s"
  by (simp_all add: server_ok_def)

lemma call_completion_simps [simp]:
  "server_ok H (call_completion s) = server_ok H s"
  "keeps_results H t (call_completion s) = keeps_results H t s"
  "is_active H (call_completion s) x = is_active H s x"
  "current_handle (call_completion s) = current_handle s"
  "pending_handle (call_completion s) = pending_handle s"
  "thread (call_completion s) = thread s"
  "stop_execution (call_completion s) = stop_execution s"
  "has_completion (call_completion s) = has_completion s"
  "deactivating (call_completion s) = deactivating s"
  by (simp_all add: call_completion_def)

lemma server_ok_active: "server_ok H s \<Longrightarrow> is_active H s (current_handle s) = (current_handle s \<noteq> None)"
  "server_ok H s \<Longrightarrow> is_active H s (pending_handle s) = (pending_handle s \<noteq> None)"
  by (cases "current_handle s"; simp add: server_ok_def) (cases "pending_handle s"; simp add: server_ok_def)

section \<open>The operations\<close>

lemma call_handle_finishes:
  assumes "\<And>h. ho_active H h \<Longrightarrow> \<exists>h'. f h = Some h' \<and> \<not> ho_active H h'"
    and "is_active H s (Some g)"
  shows "\<exists>h'. call_handle f (Some g) s = Some (s\<lparr>as_goals := (as_goals s)(g \<mapsto> h')\<rparr>) \<and> \<not> ho_active H h' \<and>
    keeps_results H s (s\<lparr>as_goals := (as_goals s)(g \<mapsto> h')\<rparr>)"
proof -
  obtain h where h: "as_goals s g = Some h" "ho_active H h"
    using assms(2) by (auto simp: is_active_def split: option.splits)
  then obtain h' where "f h = Some h'" "\<not> ho_active H h'"
    using assms(1) by blast
  then show ?thesis
    using h by (auto simp: call_handle_def keeps_results_def)
qed

lemma terminate_goal_finishes:
  assumes "handle_laws H" and "is_active H s (Some g)"
  shows "\<exists>h'. terminate_goal H (Some g) s = Some (s\<lparr>as_goals := (as_goals s)(g \<mapsto> h')\<rparr>) \<and> \<not> ho_active H h' \<and>
    keeps_results H s (s\<lparr>as_goals := (as_goals s)(g \<mapsto> h')\<rparr>)"
  unfolding terminate_goal_def
  by (rule call_handle_finishes [OF _ assms(2)]) (use assms(1) in \<open>auto simp: handle_laws_def\<close>)

definition operation_ok ::
  "'h handle_ops \<Rightarrow> 'h action_server \<Rightarrow> 'h action_server option \<Rightarrow> nat option \<Rightarrow> nat option \<Rightarrow> bool" where
  "operation_ok H s r c p \<longleftrightarrow>
     (\<exists>t. r = Some t \<and> server_ok H t \<and> keeps_results H s t \<and> same_control s t \<and> current_handle t = c \<and>
        pending_handle t = p)"

lemma operation_okI:
  "r = Some t \<Longrightarrow> server_ok H t \<Longrightarrow> keeps_results H s t \<Longrightarrow> same_control s t \<Longrightarrow> current_handle t = c \<Longrightarrow>
   pending_handle t = p \<Longrightarrow> operation_ok H s r c p"
  by (auto simp: operation_ok_def)

lemma terminate_current_ok:
  assumes "handle_laws H" and "server_ok H s"
  shows "operation_ok H s (terminate_current H s) None (pending_handle s)"
proof (cases "current_handle s")
  case None
  then show ?thesis
    using assms(2) by (auto intro: operation_okI simp: terminate_current_def)
next
  case (Some g)
  then have act: "is_active H s (Some g)"
    using assms(2) by (simp add: server_ok_def)
  obtain h' where h': "terminate_goal H (Some g) s = Some (s\<lparr>as_goals := (as_goals s)(g \<mapsto> h')\<rparr>)"
    "\<not> ho_active H h'" "keeps_results H s (s\<lparr>as_goals := (as_goals s)(g \<mapsto> h')\<rparr>)"
    using terminate_goal_finishes [OF assms(1) act] by blast
  show ?thesis
  proof (rule operation_okI)
    show "terminate_current H s = Some (s\<lparr>as_goals := (as_goals s)(g \<mapsto> h'), current_handle := None\<rparr>)"
      using Some act h'(1) by (simp add: terminate_current_def)
    show "server_ok H (s\<lparr>as_goals := (as_goals s)(g \<mapsto> h'), current_handle := None\<rparr>)"
      using assms(2) Some h'(2) by (auto simp: server_ok_def is_active_goal_update)
  qed (use h'(3) in \<open>simp_all add: same_control_def\<close>)
qed

lemma terminate_pending_ok:
  assumes "handle_laws H" and "server_ok H s"
  shows "\<exists>t. terminate_pending H s = Some t \<and> server_ok H (t\<lparr>preempt_requested := False\<rparr>) \<and> keeps_results H s t \<and>
    same_control s t \<and> current_handle t = current_handle s \<and> pending_handle t = None"
proof (cases "pending_handle s")
  case None
  then show ?thesis
    using assms(2) by (auto simp: terminate_pending_def server_ok_def)
next
  case (Some g)
  then have act: "is_active H s (Some g)"
    using assms(2) by (simp add: server_ok_def)
  obtain h' where h': "terminate_goal H (Some g) s = Some (s\<lparr>as_goals := (as_goals s)(g \<mapsto> h')\<rparr>)"
    "\<not> ho_active H h'" "keeps_results H s (s\<lparr>as_goals := (as_goals s)(g \<mapsto> h')\<rparr>)"
    using terminate_goal_finishes [OF assms(1) act] by blast
  show ?thesis
  proof (intro exI conjI)
    show "terminate_pending H s = Some (s\<lparr>as_goals := (as_goals s)(g \<mapsto> h'), pending_handle := None\<rparr>)"
      using Some act h'(1) by (simp add: terminate_pending_def)
    show "server_ok H (s\<lparr>as_goals := (as_goals s)(g \<mapsto> h'), pending_handle := None, preempt_requested := False\<rparr>)"
      using assms(2) Some h'(2) by (auto simp: server_ok_def is_active_goal_update)
  qed (use h'(3) in \<open>simp_all add: same_control_def\<close>)
qed

lemma operation_okE:
  assumes "operation_ok H s r c p"
  obtains t where "r = Some t" "server_ok H t" "keeps_results H s t" "same_control s t" "current_handle t = c"
    "pending_handle t = p"
  using assms by (auto simp: operation_ok_def)

lemma terminate_all_ok:
  assumes "handle_laws H" and "server_ok H s"
  shows "operation_ok H s (terminate_all H s) None None"
proof -
  obtain t where t: "terminate_current H s = Some t" "server_ok H t" "keeps_results H s t" "same_control s t"
    "current_handle t = None"
    using terminate_current_ok [OF assms] by (rule operation_okE) blast
  obtain u where u: "terminate_pending H t = Some u" "server_ok H (u\<lparr>preempt_requested := False\<rparr>)"
    "keeps_results H t u" "same_control t u" "current_handle u = current_handle t" "pending_handle u = None"
    using terminate_pending_ok [OF assms(1) t(2)] by blast
  show ?thesis
  proof (rule operation_okI)
    show "terminate_all H s = Some (u\<lparr>preempt_requested := False\<rparr>)"
      using t(1) u(1) by (simp add: terminate_all_def)
    show "keeps_results H s (u\<lparr>preempt_requested := False\<rparr>)"
      using keeps_results_trans [OF t(3) u(3)] by simp
    show "same_control s (u\<lparr>preempt_requested := False\<rparr>)"
      using same_control_trans [OF t(4) u(4)] by (simp add: same_control_def)
  qed (use t u in simp_all)
qed

lemma terminate_pending_goal_ok:
  assumes "handle_laws H" and "server_ok H s"
  shows "operation_ok H s (terminate_pending_goal H s) (current_handle s) None"
proof (cases "pending_handle s")
  case None
  then show ?thesis
    using assms(2) by (auto intro: operation_okI simp: terminate_pending_goal_def)
next
  case (Some g)
  then have "is_active H s (pending_handle s)"
    using server_ok_active(2) [OF assms(2)] by simp
  then show ?thesis
    using terminate_pending_ok [OF assms] by (auto intro!: operation_okI simp: terminate_pending_goal_def same_control_def)
qed

lemma succeeded_current_ok:
  assumes "handle_laws H" and "server_ok H s"
  shows "operation_ok H s (succeeded_current H s) None (pending_handle s)"
proof (cases "current_handle s")
  case None
  then show ?thesis
    using assms(2) by (auto intro: operation_okI simp: succeeded_current_def)
next
  case (Some g)
  then have act: "is_active H s (Some g)"
    using assms(2) by (simp add: server_ok_def)
    have "\<forall>h. ho_active H h \<longrightarrow> (\<exists>h'. ho_succeed H h = Some h' \<and> \<not> ho_active H h')"
      using assms(1) by (simp add: handle_laws_def)
    from call_handle_finishes [where f = "ho_succeed H", OF spec [OF this, THEN mp] act] obtain h' where
    h': "call_handle (ho_succeed H) (Some g) s = Some (s\<lparr>as_goals := (as_goals s)(g \<mapsto> h')\<rparr>)"
    "\<not> ho_active H h'" "keeps_results H s (s\<lparr>as_goals := (as_goals s)(g \<mapsto> h')\<rparr>)"
    by blast
  show ?thesis
  proof (rule operation_okI)
    show "succeeded_current H s = Some (s\<lparr>as_goals := (as_goals s)(g \<mapsto> h'), current_handle := None\<rparr>)"
      using Some act h'(1) by (simp add: succeeded_current_def)
    show "server_ok H (s\<lparr>as_goals := (as_goals s)(g \<mapsto> h'), current_handle := None\<rparr>)"
      using assms(2) Some h'(2) by (auto simp: server_ok_def is_active_goal_update)
  qed (use h'(3) in \<open>simp_all add: same_control_def\<close>)
qed

lemma accept_pending_goal_ok:
  assumes "handle_laws H" and "server_ok H s"
  shows "operation_ok H s (accept_pending_goal H s)
    (if pending_handle s = None then current_handle s else pending_handle s) None"
proof (cases "pending_handle s")
  case None
  then show ?thesis
    using assms(2) by (auto intro: operation_okI simp: accept_pending_goal_def)
next
  case (Some p)
  then have pend: "is_active H s (Some p)"
    using assms(2) by (simp add: server_ok_def)
  show ?thesis
  proof (cases "current_handle s")
    case None
    show ?thesis
      by (rule operation_okI [where t = "s\<lparr>current_handle := Some p, pending_handle := None, preempt_requested := False\<rparr>"])
        (use assms(2) None Some pend in \<open>auto simp: accept_pending_goal_def server_ok_def same_control_def\<close>)
  next
    fix g
    assume g: "current_handle s = Some g"
    then have act: "is_active H s (Some g)" and ne: "g \<noteq> p"
      using assms(2) Some by (auto simp: server_ok_def)
    have "\<forall>h. ho_active H h \<longrightarrow> (\<exists>h'. ho_abort H h = Some h' \<and> \<not> ho_active H h')"
      using assms(1) by (simp add: handle_laws_def)
    from call_handle_finishes [where f = "ho_abort H", OF spec [OF this, THEN mp] act] obtain h' where
      h': "call_handle (ho_abort H) (Some g) s = Some (s\<lparr>as_goals := (as_goals s)(g \<mapsto> h')\<rparr>)"
      "\<not> ho_active H h'" "keeps_results H s (s\<lparr>as_goals := (as_goals s)(g \<mapsto> h')\<rparr>)"
      by blast
    let ?t = "s\<lparr>as_goals := (as_goals s)(g \<mapsto> h'), current_handle := Some p, pending_handle := None,
      preempt_requested := False\<rparr>"
    show ?thesis
    proof (rule operation_okI [where t = ?t])
      show "accept_pending_goal H s = Some ?t"
        using g Some act pend ne h'(1) by (simp add: accept_pending_goal_def)
      show "server_ok H ?t"
        using assms(2) g Some h'(2) ne by (auto simp: server_ok_def is_active_goal_update)
    qed (use h'(3) Some in \<open>simp_all add: same_control_def\<close>)
  qed
qed

section \<open>The steps\<close>

lemma handle_accepted_ok:
  assumes laws: "handle_laws H" and ok: "server_ok H s" and new: "as_goals s g = None" "ho_active H h"
  shows "\<exists>t. handle_accepted H g (s\<lparr>as_goals := (as_goals s)(g \<mapsto> h), goal_accepted := False\<rparr>) = Some t \<and>
    server_ok H t \<and> keeps_results H s t \<and> stop_execution t = stop_execution s \<and>
    has_completion t = has_completion s \<and> deactivating t = deactivating s \<and> null_feedback t = null_feedback s \<and>
    (if current_handle s \<noteq> None \<or> is_running s
     then thread t = thread s \<and> current_handle t = current_handle s \<and> pending_handle t = Some g
     else thread t = At_test \<and> current_handle t = Some g \<and> pending_handle t = None)"
proof -
  let ?s = "s\<lparr>as_goals := (as_goals s)(g \<mapsto> h), goal_accepted := False\<rparr>"
  have act: "is_active H ?s (Some k) = (k = g \<or> is_active H s (Some k))" for k
    using new by (auto simp: is_active_Some)
  have not: "\<not> is_active H s (Some g)"
    using new(1) by (simp add: is_active_Some)
  then have slots: "current_handle s \<noteq> Some g" "pending_handle s \<noteq> Some g"
    using ok by (auto simp: server_ok_def)
  have cur: "is_active H ?s (current_handle s) = (current_handle s \<noteq> None)"
    using server_ok_active(1) [OF ok] slots act by (cases "current_handle s") auto
  have pen: "is_active H ?s (pending_handle s) = (pending_handle s \<noteq> None)"
    using server_ok_active(2) [OF ok] slots act by (cases "pending_handle s") auto
  have keep: "keeps_results H s ?s"
    using new(1) by (auto simp: keeps_results_def)
  have "\<exists>u. (if is_active H ?s (pending_handle s) then terminate_pending H ?s else Some ?s) = Some u \<and>
    (\<forall>k. is_active H u (Some k) = (k = g \<or> current_handle s = Some k)) \<and> keeps_results H s u \<and>
    same_control ?s u \<and> current_handle u = current_handle s \<and> pending_handle u = None"
  proof (cases "pending_handle s")
    case None
    then show ?thesis
      using ok act keep pen by (auto simp: server_ok_def)
  next
    case (Some p)
    then have p: "is_active H ?s (Some p)"
      using pen by simp
    obtain h' where h': "terminate_goal H (Some p) ?s = Some (?s\<lparr>as_goals := (as_goals ?s)(p \<mapsto> h')\<rparr>)"
      "\<not> ho_active H h'" "keeps_results H ?s (?s\<lparr>as_goals := (as_goals ?s)(p \<mapsto> h')\<rparr>)"
      using terminate_goal_finishes [OF laws p] by blast
    let ?u = "?s\<lparr>as_goals := (as_goals ?s)(p \<mapsto> h'), pending_handle := None\<rparr>"
    have "terminate_pending H ?s = Some ?u"
      using Some p h'(1) by (simp add: terminate_pending_def)
    moreover have "is_active H ?u (Some k) = (k = g \<or> current_handle s = Some k)" for k
      using ok act [of k] Some h'(2) slots by (auto simp: server_ok_def is_active_goal_update is_active_Some)
    moreover have "keeps_results H s ?u"
      using keeps_results_trans [OF keep h'(3)] by simp
    ultimately show ?thesis
      using Some p by (auto simp: same_control_def)
  qed
  then obtain u where u: "(if is_active H ?s (pending_handle s) then terminate_pending H ?s else Some ?s) = Some u"
    "\<And>k. is_active H u (Some k) = (k = g \<or> current_handle s = Some k)" "keeps_results H s u" "same_control ?s u"
    "current_handle u = current_handle s" "pending_handle u = None"
    by blast
  have pre: "pending_handle s = None \<Longrightarrow> preempt_requested u = preempt_requested s"
    using u(1) pen by auto
  show ?thesis
  proof (cases "current_handle s \<noteq> None \<or> is_running s")
    case True
    then have "handle_accepted H g ?s = Some (u\<lparr>pending_handle := Some g, preempt_requested := True\<rparr>)"
      using u(1) cur by (auto simp: handle_accepted_def is_running_def)
    then show ?thesis
      using True u slots by (auto simp: server_ok_def same_control_def)
  next
    case False
    let ?t = "if pending_handle s = None then u else u\<lparr>preempt_requested := False\<rparr>"
    have "handle_accepted H g ?s = Some (?t\<lparr>current_handle := Some g, thread := At_test\<rparr>)"
      using False u(1) cur pen by (auto simp: handle_accepted_def is_running_def)
    then show ?thesis
      using False u pre ok by (auto simp: server_ok_def same_control_def)
  qed
qed

lemma cancel_ok:
  assumes "handle_laws H" and "server_ok H s" and "handle_cancel H g s" and "as_goals s g = Some h"
  shows "server_ok H (s\<lparr>as_goals := (as_goals s)(g \<mapsto> ho_cancel_goal H h)\<rparr>) \<and>
    keeps_results H s (s\<lparr>as_goals := (as_goals s)(g \<mapsto> ho_cancel_goal H h)\<rparr>)"
proof -
  have h: "ho_active H h"
    using assms(3,4) by (simp add: handle_cancel_def is_active_Some)
  then have "ho_active H (ho_cancel_goal H h)"
    using assms(1) by (simp add: handle_laws_def)
  then have "is_active H (s\<lparr>as_goals := (as_goals s)(g \<mapsto> ho_cancel_goal H h)\<rparr>) (Some k) = is_active H s (Some k)" for k
    using h assms(4) by (simp add: is_active_Some)
  then show ?thesis
    using assms(2,4) h by (auto simp: server_ok_def keeps_results_def)
qed

lemma work_exception_ok:
  assumes "handle_laws H" and "server_ok H s"
  shows "\<exists>t. work_exception H s = Some t \<and> server_ok H t \<and> keeps_results H s t \<and> thread t = At_end \<and>
    stop_execution t = stop_execution s \<and> has_completion t = has_completion s \<and> deactivating t = deactivating s \<and>
    current_handle t = None \<and> pending_handle t = None"
  using terminate_all_ok [OF assms]
  by (auto elim!: operation_okE simp: work_exception_def same_control_def)

lemma work_after_ok:
  assumes laws: "handle_laws H" and ok: "server_ok H s"
  shows "\<exists>t. work_after H s = Some t \<and> server_ok H t \<and> keeps_results H s t \<and>
    stop_execution t = stop_execution s \<and> has_completion t = has_completion s \<and> deactivating t = deactivating s \<and>
    (if stop_execution s then thread t = At_end \<and> current_handle t = None \<and> pending_handle t = None
     else if current_handle s \<noteq> None \<and> \<not> has_completion s
     then thread t = At_end \<and> current_handle t = None \<and> pending_handle t = pending_handle s
     else thread t = (if pending_handle s = None then At_end else At_test) \<and> current_handle t = pending_handle s \<and>
       pending_handle t = None)"
proof (cases "stop_execution s")
  case True
  then show ?thesis
    using terminate_all_ok [OF laws ok]
    by (auto elim!: operation_okE simp: work_after_def same_control_def)
next
  case False
  obtain u where u: "terminate_current H s = Some u" "server_ok H u" "keeps_results H s u" "same_control s u"
    "current_handle u = None" "pending_handle u = pending_handle s"
    using terminate_current_ok [OF laws ok] by (rule operation_okE)
  have act: "is_active H s (current_handle s) = (current_handle s \<noteq> None)"
    by (rule server_ok_active [OF ok])
  define t where "t = (if current_handle s = None then s else call_completion u)"
  have t: "server_ok H t" "keeps_results H s t" "current_handle t = None" "pending_handle t = pending_handle s"
    "stop_execution t = stop_execution s" "has_completion t = has_completion s" "deactivating t = deactivating s"
    using ok u by (auto simp: t_def same_control_def)
  have run: "(if is_active H s (current_handle s) then map_option call_completion (terminate_current H s) else Some s) =
    Some t"
    using act u(1) by (simp add: t_def)
  obtain v where v: "accept_pending_goal H t = Some v" "server_ok H v" "keeps_results H t v" "same_control t v"
    "current_handle v = (if pending_handle t = None then current_handle t else pending_handle t)"
    "pending_handle v = None"
    using accept_pending_goal_ok [OF laws t(1)] by (rule operation_okE)
  have pend: "is_active H t (pending_handle t) = (pending_handle s \<noteq> None)"
    using server_ok_active(2) [OF t(1)] t(4) by simp
  have eq: "work_after H s =
    (if is_active H s (current_handle s) \<and> \<not> has_completion s then Some (t\<lparr>thread := At_end\<rparr>)
     else if is_active H t (pending_handle t) then map_option (\<lambda>u. u\<lparr>thread := At_test\<rparr>) (accept_pending_goal H t)
     else Some (t\<lparr>thread := At_end\<rparr>))"
    using False run by (simp add: work_after_def)
  show ?thesis
    unfolding eq act pend v(1)
    using False t v keeps_results_trans [OF t(2) v(3)] by (auto simp: same_control_def)
qed

lemma feedback_ok:
  "server_ok H (feedback_test H s) = server_ok H s" "keeps_results H s (feedback_test H s)"
  "server_ok H (feedback_use s) = server_ok H s" "keeps_results H s (feedback_use s)"
  by (simp_all add: feedback_test_def feedback_use_def)

lemma callback_step_ok:
  assumes "callback_step H s t" and "handle_laws H" and "server_ok H s"
  shows "server_ok H t \<and> keeps_results H s t \<and> stop_execution t = stop_execution s \<and> has_completion t = has_completion s \<and>
    deactivating t = deactivating s \<and>
    (thread t = At_end \<longrightarrow> thread s = At_end \<or> current_handle t = None \<and> pending_handle t = None) \<and>
    (thread t = thread s \<or> thread t \<in> {At_feedback, After_callback, At_end})"
  using assms
proof (induction rule: callback_step.induct)
  case (accept s t)
  then show ?case
    using accept_pending_goal_ok [of H s] by (auto elim!: operation_okE simp: same_control_def)
next
  case (drop_pending s t)
  then show ?case
    using terminate_pending_goal_ok [of H s] by (auto elim!: operation_okE simp: same_control_def)
next
  case (drop_all s t)
  then show ?case
    using terminate_all_ok [of H s] by (auto elim!: operation_okE simp: same_control_def)
next
  case (drop_current s t)
  then show ?case
    using terminate_current_ok [of H s] by (auto elim!: operation_okE simp: same_control_def)
next
  case (succeed s t)
  then show ?case
    using succeeded_current_ok [of H s] by (auto elim!: operation_okE simp: same_control_def)
next
  case (feedback s)
  then show ?case
    by (auto simp: feedback_test_def)
next
  case (return_normally s)
  then show ?case
    by simp
next
  case (throw s t)
  then show ?case
    using work_exception_ok [of H s] by auto
qed

lemma server_step_ok:
  assumes "server_step H s t" and "handle_laws H" and "server_ok H s"
  shows "server_ok H t \<and> keeps_results H s t"
  using assms
proof (induction rule: server_step.induct)
  case (accepted s g h t)
  then show ?case
    using handle_accepted_ok [of H s g h] by auto
next
  case (cancel g s h)
  show ?case
    by (rule cancel_ok [OF cancel.prems cancel.hyps])
next
  case (callback s t)
  then show ?case
    using callback_step_ok by blast
next
  case (after s t)
  then show ?case
    using work_after_ok [of H s] by auto
next
  case (wait_timeout s t)
  then show ?case
    using terminate_all_ok [of H s] by (auto elim!: operation_okE simp: deactivate_timeout_def)
qed (simp_all add: work_test_def feedback_ok server_activate_def deactivate_flags_def)

lemma reachable_ok:
  assumes "server_reachable H s" and "handle_laws H"
  shows "server_ok H s"
  using assms
proof (induction rule: server_reachable.induct)
  case (start c)
  then show ?case
    by (simp add: server_start_def server_ok_def is_active_Some)
next
  case (step s t)
  then show ?case
    using server_step_ok by blast
qed

section \<open>Goals are accounted for\<close>

datatype goal_status = Executing | Canceling | Succeeded | Canceled | Aborted

definition ros_handles :: "goal_status handle_ops" where
  "ros_handles =
     \<lparr>ho_active = (\<lambda>h. h = Executing \<or> h = Canceling),
      ho_canceling = (\<lambda>h. h = Canceling),
      ho_succeed = (\<lambda>h. if h = Executing \<or> h = Canceling then Some Succeeded else None),
      ho_abort = (\<lambda>h. if h = Executing \<or> h = Canceling then Some Aborted else None),
      ho_canceled = (\<lambda>h. if h = Canceling then Some Canceled else None),
      ho_cancel_goal = (\<lambda>h. if h = Executing then Canceling else h)\<rparr>"

lemma ros_handles_laws: "handle_laws ros_handles"
  by (auto simp: handle_laws_def ros_handles_def)

text \<open>C10. However the clients, the thread and the deactivation of an action server interleave, a goal is active exactly
  when it is in the current or in the pending slot, the slots differ, a preemption is requested exactly when a goal
  is pending, no operation makes a handle throw, and a goal that has got its result keeps it.
\<close>
theorem goals_accounted:
  assumes "server_reachable H s" and "handle_laws H"
  shows "(\<forall>g. is_active H s (Some g) \<longleftrightarrow> current_handle s = Some g \<or> pending_handle s = Some g) \<and>
    (\<forall>g. \<not> (current_handle s = Some g \<and> pending_handle s = Some g)) \<and>
    preempt_requested s = (pending_handle s \<noteq> None) \<and>
    accept_pending_goal H s \<noteq> None \<and> terminate_pending_goal H s \<noteq> None \<and> succeeded_current H s \<noteq> None \<and>
    terminate_current H s \<noteq> None \<and> terminate_all H s \<noteq> None \<and> work_after H s \<noteq> None \<and>
    (\<forall>t g h. server_step H s t \<and> as_goals s g = Some h \<and> \<not> ho_active H h \<longrightarrow> as_goals t g = Some h)"
proof -
  have ok: "server_ok H s"
    by (rule reachable_ok [OF assms])
  have some: "operation_ok H s r c p \<Longrightarrow> r \<noteq> None" for r c p
    by (auto simp: operation_ok_def)
  have "work_after H s \<noteq> None"
    using work_after_ok [OF assms(2) ok] by auto
  moreover have "server_step H s t \<Longrightarrow> keeps_results H s t" for t
    using server_step_ok [OF _ assms(2) ok] by blast
  ultimately show ?thesis
    using ok some [OF accept_pending_goal_ok [OF assms(2) ok]] some [OF terminate_pending_goal_ok [OF assms(2) ok]]
      some [OF succeeded_current_ok [OF assms(2) ok]] some [OF terminate_current_ok [OF assms(2) ok]]
      some [OF terminate_all_ok [OF assms(2) ok]]
    unfolding server_ok_def keeps_results_def by blast
qed

text \<open>A server with one goal.\<close>

definition busy :: "bool \<Rightarrow> work_thread \<Rightarrow> 'h \<Rightarrow> 'h action_server" where
  "busy c w h =
     (server_activate (server_start c))\<lparr>as_goals := [0 \<mapsto> h], current_handle := Some 0, thread := w\<rparr>"

lemma reach_active: "server_reachable H (server_activate (server_start c))"
  by (rule server_reachable.step [OF server_reachable.start server_step.activate]) (simp add: server_start_def)

lemma reach_busy:
  assumes "ho_active H h"
  shows "server_reachable H (busy c At_test h)"
proof -
  let ?s = "server_activate (server_start c)"
  have req: "server_step H ?s (?s\<lparr>goal_accepted := True\<rparr>)"
    by (rule server_step.request) (simp_all add: handle_goal_def server_activate_def server_start_def)
  have "server_step H (?s\<lparr>goal_accepted := True\<rparr>) (busy c At_test h)"
    by (rule server_step.accepted [where g = 0 and h = h])
      (use assms in \<open>simp_all add: handle_accepted_def is_running_def busy_def server_activate_def server_start_def\<close>)
  with server_reachable.step [OF reach_active req] show ?thesis
    by (rule server_reachable.step)
qed

lemma reach_callback:
  assumes "ho_active H h"
  shows "server_reachable H (busy c In_callback h)"
proof (rule server_reachable.step [OF reach_busy [OF assms]])
  have "server_step H (busy c At_test h) (work_test H True (busy c At_test h))"
    by (rule server_step.test) (simp add: busy_def)
  then show "server_step H (busy c At_test h) (busy c In_callback h)"
    using assms by (simp add: work_test_def busy_def is_active_Some server_activate_def server_start_def)
qed

lemma goals_accounted_witness:
  "is_active ros_handles (busy True In_callback Executing) (Some 0) =
      (current_handle (busy True In_callback Executing) = Some 0 \<or>
       pending_handle (busy True In_callback Executing) = Some 0) \<and>
    terminate_all ros_handles (busy True In_callback Executing) \<noteq> None \<and>
    work_after ros_handles (busy True In_callback Executing) \<noteq> None"
proof -
  have "server_reachable ros_handles (busy True In_callback Executing)"
    by (rule reach_callback) (simp add: ros_handles_def)
  from goals_accounted [OF this ros_handles_laws] show ?thesis
    by blast
qed

section \<open>Goals are served\<close>

text \<open>
  A calm run: the server is not stopped, the loop test is made with \<open>rclcpp::ok\<close> true, and no goal is handled
  while the thread ends.
\<close>

definition calm_step :: "'h handle_ops \<Rightarrow> 'h action_server \<Rightarrow> 'h action_server \<Rightarrow> bool" where
  "calm_step H s t \<longleftrightarrow> server_step H s t \<and> \<not> stop_execution t \<and>
     (thread s = At_test \<and> thread t \<noteq> At_test \<longrightarrow> t = work_test H True s) \<and>
     \<not> (thread s = At_end \<and> goal_accepted s \<and> \<not> goal_accepted t)"

inductive calm_reachable :: "'h handle_ops \<Rightarrow> 'h action_server \<Rightarrow> bool" for H where
  start: "calm_reachable H (server_activate (server_start True))"
| step: "calm_reachable H s \<Longrightarrow> calm_step H s t \<Longrightarrow> calm_reachable H t"

lemma calm_is_reachable: "calm_reachable H s \<Longrightarrow> server_reachable H s"
  by (induction rule: calm_reachable.induct) (auto simp: calm_step_def intro: reach_active server_reachable.step)

definition served :: "'h action_server \<Rightarrow> bool" where
  "served s \<longleftrightarrow> has_completion s \<and> \<not> stop_execution s \<and> \<not> deactivating s \<and>
     (thread s = At_test \<longrightarrow> current_handle s \<noteq> None) \<and>
     (thread s \<in> {No_thread, At_end} \<longrightarrow> current_handle s = None \<and> pending_handle s = None)"

lemma callback_slots:
  assumes "server_ok H s" and "handle_laws H" and "callback_step H s t" and "thread s = In_callback"
  shows "thread t \<in> {In_callback, At_feedback, After_callback} \<or>
    thread t = At_end \<and> current_handle t = None \<and> pending_handle t = None"
  using callback_step_ok [OF assms(3,2,1)] assms(4) by auto

lemma calm_step_served:
  assumes "calm_step H s t" and "handle_laws H" and "server_ok H s" and "served s"
  shows "served t"
proof -
  have step: "server_step H s t" and calm: "\<not> stop_execution t"
    "thread s = At_test \<and> thread t \<noteq> At_test \<longrightarrow> t = work_test H True s"
    "\<not> (thread s = At_end \<and> goal_accepted s \<and> \<not> goal_accepted t)"
    using assms(1) by (auto simp: calm_step_def)
  from step show ?thesis
  proof (cases rule: server_step.cases)
    case (accepted g h)
    then show ?thesis
      using handle_accepted_ok [OF assms(2,3), of g h] calm assms(4)
      by (cases "thread s") (auto simp: served_def is_running_def handle_accepted_def same_control_def split: if_splits)
  next
    case (callback)
    then show ?thesis
      using callback_slots [OF assms(3,2)] callback_step_ok [OF _ assms(2,3)] assms(4) calm
      by (fastforce simp: served_def)
  next
    case (after)
    then show ?thesis
      using work_after_ok [OF assms(2,3)] assms(4) calm by (auto simp: served_def split: if_splits)
  next
    case (wait_timeout)
    then show ?thesis
      using terminate_all_ok [OF assms(2,3)] assms(4) calm
      by (auto elim!: operation_okE simp: served_def deactivate_timeout_def same_control_def)
  qed (use assms(4) calm server_ok_active(1) [OF assms(3)] in \<open>auto simp: served_def work_test_def feedback_use_def server_activate_def deactivate_flags_def\<close>)
qed

lemma calm_served: "calm_reachable H s \<Longrightarrow> handle_laws H \<Longrightarrow> served s"
proof (induction rule: calm_reachable.induct)
  case start
  then show ?case
    by (simp add: served_def server_activate_def server_start_def)
next
  case (step s t)
  then show ?case
    using calm_step_served [OF step.hyps(2) step.prems reachable_ok [OF calm_is_reachable [OF step.hyps(1)]]] by blast
qed

text \<open>C13. In a calm run of a server with a completion callback - not stopped, the loop test made while \<open>rclcpp::ok\<close>
  is true, no goal handled while the thread ends - every active goal has a thread that is not about to end: at its
  test the thread has a current goal and goes on to the callback, also when a goal is pending. When the callback is
  over the current goal gets its result if it has none, and a pending goal becomes the current one with the thread
  at the test of its loop.
\<close>
theorem goals_served:
  assumes "calm_reachable H s" and "handle_laws H"
  shows "(\<forall>g. is_active H s (Some g) \<longrightarrow> thread s \<in> {At_test, In_callback, At_feedback, After_callback}) \<and>
    (thread s = At_test \<longrightarrow> thread (work_test H True s) = In_callback) \<and>
    (\<exists>t. work_after H s = Some t \<and> (\<forall>g. current_handle s = Some g \<longrightarrow> \<not> is_active H t (Some g)) \<and>
       current_handle t = pending_handle s \<and> thread t = (if pending_handle s = None then At_end else At_test))"
proof -
  have ok: "server_ok H s" and served: "served s"
    using reachable_ok [OF calm_is_reachable] calm_served assms by blast+
  obtain t where t: "work_after H s = Some t" "server_ok H t" "current_handle t = pending_handle s"
    "thread t = (if pending_handle s = None then At_end else At_test)" "pending_handle t = None"
    using work_after_ok [OF assms(2) ok] served by (auto simp: served_def)
  have "\<not> is_active H t (Some g)" if "current_handle s = Some g" for g
    using t(2,3,5) ok that by (auto simp: server_ok_def)
  moreover have "thread s \<in> {At_test, In_callback, At_feedback, After_callback}" if "is_active H s (Some g)" for g
    using that ok served by (cases "thread s") (auto simp: server_ok_def served_def)
  moreover have "thread (work_test H True s) = In_callback" if "thread s = At_test"
    using that served server_ok_active(1) [OF ok] by (auto simp: served_def work_test_def)
  ultimately show ?thesis
    using t by blast
qed

lemma calm_callback:
  assumes "ho_active H h"
  shows "calm_reachable H (busy True In_callback h)"
proof -
  let ?s = "server_activate (server_start True)"
  have "server_step H ?s (?s\<lparr>goal_accepted := True\<rparr>)"
    by (rule server_step.request) (simp_all add: handle_goal_def server_activate_def server_start_def)
  then have "calm_step H ?s (?s\<lparr>goal_accepted := True\<rparr>)"
    by (simp add: calm_step_def server_activate_def server_start_def)
  then have r1: "calm_reachable H (?s\<lparr>goal_accepted := True\<rparr>)"
    by (rule calm_reachable.step [OF calm_reachable.start])
  have "server_step H (?s\<lparr>goal_accepted := True\<rparr>) (busy True At_test h)"
    by (rule server_step.accepted [where g = 0 and h = h])
      (use assms in \<open>simp_all add: handle_accepted_def is_running_def busy_def server_activate_def server_start_def\<close>)
  then have "calm_step H (?s\<lparr>goal_accepted := True\<rparr>) (busy True At_test h)"
    by (simp add: calm_step_def busy_def server_activate_def server_start_def)
  then have r2: "calm_reachable H (busy True At_test h)"
    by (rule calm_reachable.step [OF r1])
  have "server_step H (busy True At_test h) (work_test H True (busy True At_test h))"
    by (rule server_step.test) (simp add: busy_def)
  then have "calm_step H (busy True At_test h) (busy True In_callback h)"
    using assms by (simp add: calm_step_def work_test_def busy_def is_active_Some server_activate_def server_start_def)
  then show ?thesis
    by (rule calm_reachable.step [OF r2])
qed

lemma goals_served_witness:
  "\<exists>t. work_after ros_handles (busy True In_callback Executing) = Some t \<and>
    \<not> is_active ros_handles t (current_handle (busy True In_callback Executing)) \<and> thread t = At_end"
proof -
  have "calm_reachable ros_handles (busy True In_callback Executing)"
    by (rule calm_callback) (simp add: ros_handles_def)
  from goals_served [OF this ros_handles_laws] show ?thesis
    by (auto simp: busy_def server_activate_def server_start_def)
qed

section \<open>Races\<close>

lemma reach_ending:
  assumes laws: "handle_laws H" and act: "ho_active H h"
  shows "\<exists>h'. server_reachable H ((busy c At_end h')\<lparr>current_handle := None\<rparr>)"
proof -
  obtain h' where h': "ho_succeed H h = Some h'"
    using laws act by (auto simp: handle_laws_def)
  let ?s = "busy c In_callback h" and ?t = "(busy c In_callback h')\<lparr>current_handle := None\<rparr>"
  have "succeeded_current H ?s = Some ?t"
    using h' act by (simp add: succeeded_current_def is_active_Some call_handle_def busy_def)
  then have "server_step H ?s ?t"
    by (intro server_step.callback callback_step.succeed) (simp_all add: busy_def)
  then have r1: "server_reachable H ?t"
    by (rule server_reachable.step [OF reach_callback [OF act]])
  have "server_step H ?t (?t\<lparr>thread := After_callback\<rparr>)"
    by (intro server_step.callback callback_step.return_normally) (simp add: busy_def)
  then have r2: "server_reachable H (?t\<lparr>thread := After_callback\<rparr>)"
    by (rule server_reachable.step [OF r1])
  have "work_after H (?t\<lparr>thread := After_callback\<rparr>) = Some ((busy c At_end h')\<lparr>current_handle := None\<rparr>)"
    by (simp add: work_after_def busy_def server_activate_def server_start_def)
  then have "server_step H (?t\<lparr>thread := After_callback\<rparr>) ((busy c At_end h')\<lparr>current_handle := None\<rparr>)"
    by (intro server_step.after) simp_all
  then show ?thesis
    using server_reachable.step [OF r2] by blast
qed

lemma cancel_active:
  assumes "handle_laws H" and "handle_cancel H g s" and "as_goals s g = Some h"
  shows "is_active H (s\<lparr>as_goals := (as_goals s)(g \<mapsto> ho_cancel_goal H h)\<rparr>) (Some k) = is_active H s (Some k)"
  using assms by (auto simp: handle_laws_def handle_cancel_def is_active_Some)

definition stranded :: "'h handle_ops \<Rightarrow> nat \<Rightarrow> 'h action_server \<Rightarrow> bool" where
  "stranded H g s \<longleftrightarrow> thread s = No_thread \<and> current_handle s = None \<and> pending_handle s = Some g \<and> is_active H s (Some g)"

lemma stranded_step:
  assumes laws: "handle_laws H" and s: "stranded H g s" and step: "server_step H s t"
  shows "stranded H g t \<or> \<not> is_active H t (Some g)"
  using step
proof (cases rule: server_step.cases)
  case (accepted k h)
  let ?s = "s\<lparr>as_goals := (as_goals s)(k \<mapsto> h), goal_accepted := False\<rparr>"
  have ne: "g \<noteq> k"
    using s accepted(2) by (auto simp: stranded_def is_active_Some)
  then have act: "is_active H ?s (Some g)"
    using s by (simp add: stranded_def is_active_Some)
  obtain h' where h': "terminate_goal H (Some g) ?s = Some (?s\<lparr>as_goals := (as_goals ?s)(g \<mapsto> h')\<rparr>)"
    "\<not> ho_active H h'"
    using terminate_goal_finishes [OF laws act] by blast
  have "handle_accepted H k ?s =
    Some (?s\<lparr>as_goals := (as_goals ?s)(g \<mapsto> h'), pending_handle := None, preempt_requested := False,
      current_handle := Some k, thread := At_test\<rparr>)"
    using s act h'(1) by (simp add: stranded_def handle_accepted_def is_running_def terminate_pending_def)
  then show ?thesis
    using accepted(4) h'(2) by (auto simp: is_active_Some)
next
  case (cancel k h)
  then show ?thesis
    using s cancel_active [OF laws] by (auto simp: stranded_def)
qed (use s in \<open>auto simp: stranded_def is_running_def server_activate_def deactivate_flags_def\<close>)

text \<open>C32. A goal that is handled after the thread has left its loop but before its future is ready is put in the
  pending slot of an active server and is never worked on: no step leaves that state but one that terminates it.
\<close>
theorem late_goal_stranded:
  assumes "handle_laws H" and "ho_active H h"
  shows "(\<exists>s. server_reachable H s \<and> server_active s \<and> stranded H 1 s) \<and>
    (\<forall>s t g. stranded H g s \<and> server_step H s t \<longrightarrow> stranded H g t \<or> \<not> is_active H t (Some g))"
proof
  obtain h' where r: "server_reachable H ((busy True At_end h')\<lparr>current_handle := None\<rparr>)"
    using reach_ending [OF assms] by blast
  let ?s = "(busy True At_end h')\<lparr>current_handle := None\<rparr>"
  let ?t = "?s\<lparr>as_goals := [0 \<mapsto> h', 1 \<mapsto> h], pending_handle := Some 1, preempt_requested := True\<rparr>"
  have "server_step H ?s (?s\<lparr>goal_accepted := True\<rparr>)"
    by (rule server_step.request) (simp_all add: handle_goal_def busy_def server_activate_def server_start_def)
  then have r1: "server_reachable H (?s\<lparr>goal_accepted := True\<rparr>)"
    by (rule server_reachable.step [OF r])
  have "server_step H (?s\<lparr>goal_accepted := True\<rparr>) ?t"
    by (rule server_step.accepted [where g = 1 and h = h])
      (use assms(2) in \<open>simp_all add: handle_accepted_def is_running_def busy_def server_activate_def server_start_def\<close>)
  then have r2: "server_reachable H ?t"
    by (rule server_reachable.step [OF r1])
  have "server_step H ?t (?t\<lparr>thread := No_thread\<rparr>)"
    by (rule server_step.thread_end) (simp add: busy_def)
  then have "server_reachable H (?t\<lparr>thread := No_thread\<rparr>)"
    by (rule server_reachable.step [OF r2])
  moreover have "stranded H 1 (?t\<lparr>thread := No_thread\<rparr>) \<and> server_active (?t\<lparr>thread := No_thread\<rparr>)"
    using assms(2) by (simp add: stranded_def busy_def is_active_Some server_activate_def server_start_def)
  ultimately show "\<exists>s. server_reachable H s \<and> server_active s \<and> stranded H 1 s"
    by blast
next
  show "\<forall>s t g. stranded H g s \<and> server_step H s t \<longrightarrow> stranded H g t \<or> \<not> is_active H t (Some g)"
    using stranded_step [OF assms(1)] by blast
qed

lemma late_goal_stranded_witness: "\<exists>s. server_reachable ros_handles s \<and> server_active s \<and> stranded ros_handles 1 s"
proof -
  have "ho_active ros_handles Executing"
    by (simp add: ros_handles_def)
  from late_goal_stranded [OF ros_handles_laws this] show ?thesis
    by (rule conjunct1)
qed

definition wedged :: "'h handle_ops \<Rightarrow> 'h action_server \<Rightarrow> bool" where
  "wedged H s \<longleftrightarrow> thread s = No_thread \<and> (\<exists>g. current_handle s = Some g \<and> is_active H s (Some g))"

lemma wedged_step:
  assumes laws: "handle_laws H" and ok: "server_ok H s" and s: "wedged H s" and step: "server_step H s t"
  shows "wedged H t"
  using step
proof (cases rule: server_step.cases)
  case (accepted k h)
  obtain g where g: "current_handle s = Some g" "is_active H s (Some g)"
    using s by (auto simp: wedged_def)
  obtain t' where t': "handle_accepted H k (s\<lparr>as_goals := (as_goals s)(k \<mapsto> h), goal_accepted := False\<rparr>) = Some t'"
    "server_ok H t'" "thread t' = thread s" "current_handle t' = current_handle s"
    using handle_accepted_ok [OF laws ok accepted(2,3)] g(1) by auto
  then have "t = t'"
    using accepted(4) by simp
  then show ?thesis
    using t' s g by (auto simp: wedged_def server_ok_def)
next
  case (cancel k h)
  then show ?thesis
    using s cancel_active [OF laws] by (auto simp: wedged_def)
qed (use s in \<open>auto simp: wedged_def is_running_def server_activate_def deactivate_flags_def\<close>)

lemma wedged_forever:
  assumes "handle_laws H"
  shows "(server_step H)\<^sup>*\<^sup>* s t \<Longrightarrow> server_ok H s \<Longrightarrow> wedged H s \<Longrightarrow> server_ok H t \<and> wedged H t"
proof (induction rule: rtranclp_induct)
  case (step t u)
  then show ?case
    using wedged_step [OF assms] server_step_ok [OF _ assms] by blast
qed simp

text \<open>C31. When the server is deactivated between the arrival of a goal and the first test of its thread, the thread ends
  without giving the goal a result; after the server is activated again it accepts goals and never works on one,
  whatever happens.
\<close>
theorem deactivation_wedges:
  assumes "handle_laws H" and "ho_active H h"
  shows "\<exists>s. server_reachable H s \<and> server_active s \<and> \<not> stop_execution s \<and> \<not> deactivating s \<and>
    is_active H s (Some 0) \<and> (\<forall>t. (server_step H)\<^sup>*\<^sup>* s t \<longrightarrow> thread t = No_thread)"
proof -
  let ?s = "deactivate_flags (busy True At_test h)"
  have r: "server_reachable H ?s"
    by (rule server_reachable.step [OF reach_busy [OF assms(2)] server_step.deactivate])
      (simp add: busy_def server_activate_def server_start_def)
  have "server_step H ?s (work_test H True ?s)"
    by (rule server_step.test) (simp add: deactivate_flags_def busy_def)
  then have "server_step H ?s (?s\<lparr>thread := At_end\<rparr>)"
    by (simp add: work_test_def deactivate_flags_def)
  then have r1: "server_reachable H (?s\<lparr>thread := At_end\<rparr>)"
    by (rule server_reachable.step [OF r])
  have "server_step H (?s\<lparr>thread := At_end\<rparr>) (?s\<lparr>thread := At_end\<rparr>\<lparr>thread := No_thread\<rparr>)"
    by (rule server_step.thread_end) simp
  then have r2: "server_reachable H (?s\<lparr>thread := No_thread\<rparr>)"
    using server_reachable.step [OF r1] by simp
  have "server_step H (?s\<lparr>thread := No_thread\<rparr>) (?s\<lparr>thread := No_thread\<rparr>\<lparr>deactivating := False\<rparr>)"
    by (rule server_step.wait_over) (simp_all add: deactivate_flags_def is_running_def)
  then have r3: "server_reachable H (?s\<lparr>thread := No_thread, deactivating := False\<rparr>)"
    by (rule server_reachable.step [OF r2])
  let ?u = "server_activate (?s\<lparr>thread := No_thread, deactivating := False\<rparr>)"
  have r4: "server_reachable H ?u"
    by (rule server_reachable.step [OF r3 server_step.activate]) simp
  have u: "server_active ?u" "\<not> stop_execution ?u" "\<not> deactivating ?u" "is_active H ?u (Some 0)" "wedged H ?u"
    using assms(2) by (auto simp: server_activate_def wedged_def deactivate_flags_def busy_def is_active_Some)
  have "thread t = No_thread" if "(server_step H)\<^sup>*\<^sup>* ?u t" for t
    using wedged_forever [OF assms(1) that reachable_ok [OF r4 assms(1)] u(5)] by (simp add: wedged_def)
  then show ?thesis
    using r4 u by blast
qed

lemma deactivation_wedges_witness:
  "\<exists>s. server_reachable ros_handles s \<and> server_active s \<and> is_active ros_handles s (Some 0) \<and> thread s = No_thread"
proof -
  have "ho_active ros_handles Executing"
    by (simp add: ros_handles_def)
  from deactivation_wedges [OF ros_handles_laws this] show ?thesis
    by blast
qed

text \<open>
  \<open>publish_feedback\<close> can follow a null handle: when a deactivation reaches its timeout between the test and the use
  of the current handle, the goal is terminated and the handle reset.
\<close>
theorem feedback_null_handle:
  assumes "handle_laws H" and "ho_active H h"
  shows "\<exists>s. server_reachable H s \<and> null_feedback s"
proof -
  let ?s = "busy True At_feedback h"
  have "callback_step H (busy True In_callback h) (feedback_test H (busy True In_callback h))"
    by (rule callback_step.feedback)
  then have "server_step H (busy True In_callback h) ?s"
    using assms(2) by (intro server_step.callback) (simp_all add: feedback_test_def busy_def is_active_Some)
  then have r: "server_reachable H ?s"
    by (rule server_reachable.step [OF reach_callback [OF assms(2)]])
  have r1: "server_reachable H (deactivate_flags ?s)"
    by (rule server_reachable.step [OF r server_step.deactivate]) (simp add: busy_def server_activate_def server_start_def)
  obtain t where t: "terminate_all H (deactivate_flags ?s) = Some t" "current_handle t = None"
    "same_control (deactivate_flags ?s) t"
    using terminate_all_ok [OF assms(1) reachable_ok [OF r1 assms(1)]] by (rule operation_okE) blast
  have "deactivate_timeout H (deactivate_flags ?s) = Some (call_completion t)"
    by (simp add: t(1) deactivate_timeout_def)
  then have "server_step H (deactivate_flags ?s) (call_completion t)"
    by (rule server_step.wait_timeout [rotated 2]) (simp_all add: deactivate_flags_def busy_def is_running_def)
  then have r2: "server_reachable H (call_completion t)"
    by (rule server_reachable.step [OF r1])
  have "server_step H (call_completion t) (feedback_use (call_completion t))"
    using t(3) by (intro server_step.publish) (simp add: same_control_def deactivate_flags_def busy_def)
  then have "server_reachable H (feedback_use (call_completion t))"
    by (rule server_reachable.step [OF r2])
  then show ?thesis
    using t(2) by (auto simp: feedback_use_def)
qed

lemma feedback_null_handle_witness: "\<exists>s. server_reachable ros_handles s \<and> null_feedback s"
  by (rule feedback_null_handle [OF ros_handles_laws, of Executing]) (simp add: ros_handles_def)

end
