(* ===== verification/Spec2Isabelle.thy ===== *)
theory Spec2Isabelle
  imports Voxel_Lines Obstacle_Layer Costmap_Queue Lifecycle_Manager Denoise_Props BT_Control_Props BT_Decorator_Props Route_Tracker_Props Route_Loader
    Goal_Search Route_Costmap_Props Route_Server_Props Collision_Monitor_Props Action_Server_Props
begin

text \<open>
  A verification library for the navigation stack of the workspace (\<open>src/navigation2\<close>).

  \<^bold>\<open>The program.\<close> The lifecycle manager brings the servers of the stack up and down and watches them by
  bonds. The planners and controllers see the world through costmaps: a layered costmap asks its layers for
  bounds and costs in a cycle, obstacle layers mark and clear cells along rays from their sensors, the denoise
  layer removes small groups of obstacles, and the voxel grid keeps a column of bits per cell. The controller's
  map grid critics spread distances over the map with a queue of cells. Behaviour trees decide what runs: their
  control nodes order, retry and rotate their children, and their decorators gate them. The route server plans
  over a graph of places read from a file: it finds the nodes a request means, searches the graph with edge
  scorers, prunes the route, makes a path of it, and tracks the robot along it, with operations at nodes and
  edges that may ask for a new route. The servers take goals through an action server with a thread of its own, a
  current goal and a pending one. Last before the motors, the collision monitor slows velocities down or
  stops the robot for what its sensors see.

  \<^bold>\<open>Theories, their code, and what their lemmas show.\<close>
  \<^item> \<open>Nav_Prelude\<close>: memory as lists with checked access (\<open>load\<close>, \<open>store\<close>, \<open>mem_set\<close>, \<open>mem_cpy\<close>), conversions
    from real numbers to machine integers, loops over lists in the option monad (\<open>foldM\<close>), and what they share.
  \<^item> \<open>Bits\<close>, \<open>Voxel_Grid\<close>, \<open>Bresenham\<close>, \<open>Ray_Cells\<close>, \<open>Voxel_Lines\<close>: \<open>nav2_voxel_grid\<close> (\<open>voxel_grid.hpp\<close>,
    \<open>voxel_grid.cpp\<close>). The grid is a record of its sizes and its array of 32-bit columns; marking, clearing and
    reading voxels are exact on single voxels, column status counts bits, and lines through the grid stay in it.
  \<^item> \<open>Costmap_2D\<close>, \<open>Costmap_Windows\<close>, \<open>Costmap_Polygon\<close>: \<open>costmap_2d.hpp\<close> and \<open>costmap_2d.cpp\<close>. The state is
    the record \<open>costmap2d\<close> with its buffer as an optional list of 8-bit costs; \<open>cm_wf\<close> relates sizes and buffer.
    Windows, the rolling origin, coordinates, outlines and filled polygons are specified cell by cell.
  \<^item> \<open>Costmap_Layers\<close>, \<open>Obstacle_Layer\<close>: \<open>costmap_layer\<close>, \<open>layered_costmap\<close> and \<open>obstacle_layer\<close>. The four ways
    to combine a cell are instances of the locale \<open>window_op\<close>, layers that update costs of the locale
    \<open>layer_costs\<close>; an update of the layered costmap is refined to a fold over the layers for every cell.
  \<^item> \<open>Label_Trees\<close>, \<open>Grid_Components\<close>, \<open>Denoise_Image\<close>, \<open>Denoise_Scan\<close>, \<open>Denoise_Layer\<close>, \<open>Denoise_Groups\<close>,
    \<open>Denoise_Single\<close>, \<open>Denoise_Labels\<close>, \<open>Denoise_Props\<close>: \<open>denoise/image_processing.hpp\<close>, \<open>denoise/image.hpp\<close> and
    \<open>denoise_layer\<close>. The union-find forest is an instance of the locale \<open>label_store\<close>, in which the steps of the
    labelling are proved; the scan invariant gives the connected components, \<open>denoised\<close> specifies what both
    removal algorithms compute, and counting arguments give the number of labels an image needs. Where labels had to
    be united, the labelling reads past the end of the table of labels, which the code shrinks to the final ones: the
    model ends there, and the theorems say for which images it does (\<open>no_unions\<close> are those without).
  \<^item> \<open>Costmap_Queue\<close>: \<open>map_based_queue.hpp\<close>, \<open>costmap_queue\<close> and the distances of \<open>map_grid\<close>: a priority queue,
    and a breadth-first wavefront that computes Manhattan distances, in a critic whose cache of distances was made for
    the size of the map: the code never makes another.
  \<^item> \<open>Lifecycle_Manager\<close>: \<open>lifecycle_manager.cpp\<close> and \<open>lifecycle_manager_client\<close> as a transition system over the
    answers of the outside world, with its invariant, the exact order of what it asks the nodes, and its failures.
  \<^item> \<open>BT_Control\<close>, \<open>BT_Control_Props\<close>: the control nodes of \<open>nav2_behavior_tree/plugins/control\<close>, refined to
    structural recursions; nodes whose tick loops over one child at a time are the locale \<open>looping_node\<close>.
  \<^item> \<open>BT_Decorators\<close>, \<open>BT_Decorator_Props\<close>: the decorators of \<open>nav2_behavior_tree/plugins/decorator\<close>; the gates
    among them are instances of the locale \<open>gated_decorator\<close>.

  \<^item> \<open>Route_Types\<close>, \<open>Route_Loader\<close>: \<open>nav2_route/types.hpp\<close> and the loader of graph files. A graph is the list of
    its nodes, each with its outgoing edges; a graph loaded into a cleared one is well formed when the map of ids was
    cleared too or holds ids of the file only; ids left by an earlier graph can make the load index outside.
  \<^item> \<open>Route_Scorers\<close>, \<open>Route_Planner\<close>, \<open>Route_Search\<close>, \<open>Route_Search_Loop\<close>, \<open>Route_Planner_Props\<close>: the edge cost
    functions, instances of the locale \<open>cost_function\<close>, and Dijkstra's search over a queue that is an instance of
    the locale \<open>node_queue\<close>. With costs that are not negative, and more iterations than edges plus one, the planner
    returns an optimal route or the right error; a negative cost can make it run forever.
  \<^item> \<open>Goal_Search\<close>, \<open>Line_Iterator\<close>, \<open>Route_Costmap\<close>, \<open>Route_Costmap_Props\<close>: what the route server does on costmaps:
    the breadth-first search for the nearest reachable candidate, the line of sight check, the costmap scorer and
    the collision check of the stretches ahead that lie on the costmap, over a closed form of the line iterator. The
    search is right for candidates on the map; one off it shifts the answer.
  \<^item> \<open>Route_Operations\<close>, \<open>Route_Tracker\<close>, \<open>Route_Tracker_Props\<close>: the operations and the loop that follows a route. The
    tracker never leaves the route, reports its edges in order, ends at its last node, and leaves exactly what an
    interruption has to leave for the next plan.
  \<^item> \<open>Route_Path\<close>, \<open>Route_Corners\<close>, \<open>Route_Path_Props\<close>: poses along a route, with the arcs that smooth its corners:
    the path has no gap and joins the ends of the route.
  \<^item> \<open>Route_Server\<close>, \<open>Route_Server_Props\<close>: goal intent, pruning and the loop that answers a request. They compose the
    parts before: what is returned is safe, a request is answered once, and it succeeds when it can.
  \<^item> \<open>Collision_Monitor\<close>, \<open>Collision_Monitor_Props\<close>: \<open>nav2_collision_monitor\<close>: sensors, zones, the simulated motion and
    the answer to a velocity. The velocity let through is the one asked for times the least of the shares of the zones,
    and the last velocity published is the one required; the ways the monitor stops checking are stated too.

  \<^item> \<open>Action_Server\<close>, \<open>Action_Server_Props\<close>: \<open>nav2_util/simple_action_server.hpp\<close>, the shell of the servers, as a step
    relation over its clients, its thread and its deactivation, a section under the mutex being a step. Every goal
    is accounted for in all interleavings; runs without a stop, in which the thread does not end while a goal arrives,
    serve every goal; runs show the races that lose one.

  \<^bold>\<open>Conventions.\<close> \<open>None\<close> is undefined behaviour or a loop that does not end, unless a text says otherwise; an
  exception is a value of an error type, in a sum. Unsigned arithmetic is on words of its width and wraps. Signed
  arithmetic is on integers with overflow checked where the code can overflow. Floating point numbers are real
  numbers, and divisions by zero are excluded or values of their own, with two exceptions: the sums of the route
  planner go through a rounding function that is monotone and idempotent, with infinity as a number above the
  largest float, and where not-a-number matters - poses of a path, ranges of a scan, commands - it is \<open>None\<close>. What
  comes from the ROS libraries, the clock, the transforms, the blackboard, the behaviour tree library, the k-d tree,
  the goal handles and the reader of graph files is an argument. Loops are structural recursions, functions with a measure, or
  partial functions proved to return; no definition uses fuel. Step relations and reachable states are inductive
  predicates.

  \<^bold>\<open>Not modelled, and why.\<close> Publishing, logging, reading parameters, locks and threads have no part in the states.
  Floating point algorithms (localisation, trajectory optimisation, smoothing, scan matching) are left out, since
  theorems over real numbers would say little of them. Vendored packages (\<open>slam_toolbox\<close>, \<open>laser_filters\<close>,
  \<open>sllidar_ros2\<close>) and the small glue nodes of the robot are left out. Of the route server, its configuration and
  the service that replaces the graph are left out but for what they do to the graph and the map of ids before a load, of the tracker its visualisation. Of the same nature as what is
  modelled, but left out, are the static, inflation, voxel and range layers, the costmap filters, the padding and
  parsing of footprints, the condition nodes of the behaviour trees, the waypoint follower and the behaviour server.
\<close>

end
